(* ===== verification/Sose_Prelude.thy ===== *)
theory Sose_Prelude
  imports Main "HOL-Library.AList" "HOL-Library.Mapping" "HOL-Library.Char_ord" "HOL-Library.List_Lexorder"
    "HOL-Library.Product_Lexorder" "HOL-Library.Multiset"
begin

text \<open>
  The shared vocabulary of the development: how Python values, exceptions, dictionaries and
  sorted views are represented, with the lemmas every component uses.

  \<^item> An exception is a value of \<open>pyerror\<close>, one constructor per exception class the sources
    raise, carrying the message. A pure computation that may raise has type \<open>'a res\<close>
    (\<open>Inl\<close> is the raise). A method that mutates state and may raise returns the result
    and the state it leaves behind, so that what survives an exception is visible.
  \<^item> A \<open>dict\<close> is an association list in insertion order: \<open>AList.update\<close> overwrites in
    place or appends, \<open>AList.delete\<close> is \<open>pop(key, None)\<close>, \<open>map_of\<close> is \<open>get\<close>.
  \<^item> A \<open>str\<close> is its UTF-8 byte sequence, which keeps equality and (since UTF-8 preserves
    code point order) the order that \<open>sorted\<close> uses.
  \<^item> A \<open>datetime\<close> is a UTC instant in microseconds since 0001-01-01T00:00:00, a
    \<open>timedelta\<close> a number of microseconds; leaving the representable range raises.
\<close>

section \<open>Collections of facts\<close>

named_theorems dict_simps \<open>lookups and key sets of Python dictionaries\<close>
named_theorems uow_defs \<open>definitions of the unit-of-work operations\<close>
named_theorems record_checks \<open>constructor checks of the durable records\<close>

section \<open>Exceptions and results\<close>

datatype pyerror =
    ValueError string
  | KeyError string
  | RuntimeError string
  | TypeError string
  | PermissionError string
  | OverflowError string
  | StaleBoundaryClaimError string
  | UnsupportedBoundaryContractError string
  | NoProbabilisticTransition string
  | AttributeError string

type_synonym 'a res = "pyerror + 'a"

definition bind_res :: "'a res \<Rightarrow> ('a \<Rightarrow> 'b res) \<Rightarrow> 'b res" where
  "bind_res r f = (case r of Inl e \<Rightarrow> Inl e | Inr a \<Rightarrow> f a)"

text \<open>A loop whose body checks each element and may raise.\<close>

fun each_ok :: "('a \<Rightarrow> unit res) \<Rightarrow> 'a list \<Rightarrow> unit res" where
  "each_ok f [] = Inr ()"
| "each_ok f (x # xs) = (case f x of Inl e \<Rightarrow> Inl e | Inr _ \<Rightarrow> each_ok f xs)"

text \<open>
  A sequence of \<open>if bad: raise error\<close> statements: the first guard that holds raises.
\<close>

fun guards :: "(bool \<times> pyerror) list \<Rightarrow> 'a \<Rightarrow> 'a res" where
  "guards [] a = Inr a"
| "guards ((bad, e) # gs) a = (if bad then Inl e else guards gs a)"

text \<open>A loop whose body updates a state and may raise.\<close>

fun fold_res :: "('a \<Rightarrow> 's \<Rightarrow> 's res) \<Rightarrow> 'a list \<Rightarrow> 's \<Rightarrow> 's res" where
  "fold_res f [] s = Inr s"
| "fold_res f (x # xs) s = (case f x s of Inl e \<Rightarrow> Inl e | Inr s' \<Rightarrow> fold_res f xs s')"

text \<open>Methods: a result and the state left behind, also when the method raises.\<close>

type_synonym ('s, 'a) meth = "'s \<Rightarrow> 'a res \<times> 's"

definition return_m :: "'a \<Rightarrow> ('s, 'a) meth" where
  "return_m a s = (Inr a, s)"

definition raise_m :: "pyerror \<Rightarrow> ('s, 'a) meth" where
  "raise_m e s = (Inl e, s)"

definition bind_m :: "('s, 'a) meth \<Rightarrow> ('a \<Rightarrow> ('s, 'b) meth) \<Rightarrow> ('s, 'b) meth" where
  "bind_m m f s = (case m s of (Inl e, s') \<Rightarrow> (Inl e, s') | (Inr a, s') \<Rightarrow> f a s')"

fun each_m :: "('a \<Rightarrow> ('s, unit) meth) \<Rightarrow> 'a list \<Rightarrow> ('s, unit) meth" where
  "each_m f [] s = (Inr (), s)"
| "each_m f (x # xs) s = (case f x s of (Inl e, s') \<Rightarrow> (Inl e, s') | (Inr _, s') \<Rightarrow> each_m f xs s')"

lemma bind_res_Inl [simp]: "bind_res (Inl e) f = Inl e"
  by (simp add: bind_res_def)

lemma bind_res_Inr [simp]: "bind_res (Inr a) f = f a"
  by (simp add: bind_res_def)

lemma bind_res_eq_Inr_iff: "bind_res r f = Inr b \<longleftrightarrow> (\<exists>a. r = Inr a \<and> f a = Inr b)"
  by (cases r) auto

lemma bind_res_InrE [elim!]:
  assumes "bind_res r f = Inr b"
  obtains a where "r = Inr a" and "f a = Inr b"
  using assms by (auto simp: bind_res_eq_Inr_iff)

lemma guards_Inr_iff [simp]: "guards gs a = Inr b \<longleftrightarrow> a = b \<and> list_all (\<lambda>(bad, e). \<not> bad) gs"
  by (induction gs a rule: guards.induct) auto

declare guards.simps [simp del]

lemma guards_total: "list_all (\<lambda>(bad, e). \<not> bad) gs \<Longrightarrow> guards gs a = Inr a"
  by simp

lemma each_ok_iff: "each_ok f xs = Inr u \<longleftrightarrow> (\<forall>x \<in> set xs. f x = Inr ())"
  by (induction xs) (auto split: sum.splits)

lemma each_ok_cong_set:
  "set xs = set ys \<Longrightarrow> (each_ok f xs = Inr u) = (each_ok f ys = Inr u)"
  by (simp add: each_ok_iff)

lemma each_ok_first_error:
  assumes "each_ok f xs = Inl e"
  shows "\<exists>x \<in> set xs. f x = Inl e"
  using assms by (induction xs) (auto split: sum.splits)

lemma fold_res_append:
  "fold_res f (xs @ ys) s = (case fold_res f xs s of Inl e \<Rightarrow> Inl e | Inr s' \<Rightarrow> fold_res f ys s')"
  by (induction xs arbitrary: s) (auto split: sum.splits)

lemma fold_res_invariant:
  assumes "fold_res f xs s = Inr t" and "P s"
    and "\<And>x s t. x \<in> set xs \<Longrightarrow> P s \<Longrightarrow> f x s = Inr t \<Longrightarrow> P t"
  shows "P t"
  using assms
proof (induction xs arbitrary: s)
  case Nil
  then show ?case by simp
next
  case (Cons x xs)
  then obtain s' where s': "f x s = Inr s'" "fold_res f xs s' = Inr t"
    by (auto split: sum.splits)
  with Cons.prems have "P s'" by (meson list.set_intros(1))
  with s' Cons show ?case by (meson list.set_intros(2))
qed

lemma each_m_invariant:
  assumes "P s" and "\<And>x s. x \<in> set xs \<Longrightarrow> P s \<Longrightarrow> P (snd (f x s))"
  shows "P (snd (each_m f xs s))"
  using assms
proof (induction xs arbitrary: s)
  case Nil
  then show ?case by simp
next
  case (Cons x xs)
  obtain r s' where fx: "f x s = (r, s')" by (cases "f x s")
  with Cons.prems have "P s'" by (metis list.set_intros(1) snd_conv)
  with Cons fx show ?case by (auto split: sum.splits)
qed

section \<open>Dictionaries\<close>

abbreviation dget :: "('k \<times> 'a) list \<Rightarrow> 'k \<Rightarrow> 'a option" where
  "dget d k \<equiv> map_of d k"

abbreviation dset :: "'k \<Rightarrow> 'a \<Rightarrow> ('k \<times> 'a) list \<Rightarrow> ('k \<times> 'a) list" where
  "dset k v d \<equiv> AList.update k v d"

abbreviation dpop :: "'k \<Rightarrow> ('k \<times> 'a) list \<Rightarrow> ('k \<times> 'a) list" where
  "dpop k d \<equiv> AList.delete k d"

abbreviation dvalues :: "('k \<times> 'a) list \<Rightarrow> 'a list" where
  "dvalues d \<equiv> map snd d"

text \<open>\<open>k in d\<close>.\<close>

abbreviation dhas :: "('k \<times> 'a) list \<Rightarrow> 'k \<Rightarrow> bool" where
  "dhas d k \<equiv> k \<in> fst ` set d"

text \<open>\<open>tuple(d[k] for k in sorted(d))\<close>.\<close>

definition by_key :: "('k :: linorder \<times> 'a) list \<Rightarrow> 'a list" where
  "by_key d = map snd (sort_key fst d)"

text \<open>\<open>{f(x): x for x in xs}\<close>: a later element overwrites an earlier one.\<close>

definition dict_of :: "('a \<Rightarrow> 'k) \<Rightarrow> 'a list \<Rightarrow> ('k \<times> 'a) list" where
  "dict_of f xs = fold (\<lambda>x d. dset (f x) x d) xs []"

text \<open>
  The shape every durable collection keeps: one entry per key, and each record filed under its
  own identity.
\<close>

definition keyed :: "('a \<Rightarrow> 'k) \<Rightarrow> ('k \<times> 'a) list \<Rightarrow> bool" where
  "keyed f d \<longleftrightarrow> distinct (map fst d) \<and> (\<forall>(k, v) \<in> set d. f v = k)"

lemma dget_dset [simp, dict_simps]: "map_of (AList.update k v d) = (map_of d)(k \<mapsto> v)"
  by (simp add: update_conv')

lemma dget_dpop [simp, dict_simps]: "map_of (AList.delete k d) = (map_of d)(k := None)"
  by (simp add: delete_conv')

lemma dhas_iff [dict_simps]: "dhas d k \<longleftrightarrow> map_of d k \<noteq> None"
  by (simp add: map_of_eq_None_iff)

lemma dhas_dset [simp]: "fst ` set (AList.update k v d) = insert k (fst ` set d)"
  by (induction d) auto

lemma dhas_dpop [simp]: "fst ` set (AList.delete k d) = fst ` set d - {k}"
  by (force simp: AList.delete_eq)

lemma keyed_Nil [simp]: "keyed f []"
  by (simp add: keyed_def)

lemma distinct_fst_update [simp]:
  "distinct (map fst d) \<Longrightarrow> distinct (map fst (AList.update k v d))"
  by (rule distinct_update)

lemma set_update_subset: "set (AList.update k v d) \<subseteq> insert (k, v) (set d)"
  by (induction d) auto

lemma keyed_dset [simp, intro]: "keyed f d \<Longrightarrow> f v = k \<Longrightarrow> keyed f (AList.update k v d)"
  using set_update_subset [of k v d] by (auto simp: keyed_def)

lemma keyed_dpop [simp, intro]: "keyed f d \<Longrightarrow> keyed f (AList.delete k d)"
  by (auto simp: keyed_def AList.delete_eq distinct_map_filter)

lemma keyed_filter: "keyed f d \<Longrightarrow> keyed f (filter P d)"
  by (auto simp: keyed_def distinct_map_filter)

lemma keyed_lookup: "keyed f d \<Longrightarrow> map_of d k = Some v \<Longrightarrow> f v = k"
  by (auto simp: keyed_def dest!: map_of_SomeD)

lemma keyed_mem_iff:
  assumes "keyed f d"
  shows "v \<in> set (dvalues d) \<longleftrightarrow> map_of d (f v) = Some v"
  using assms unfolding keyed_def by (force dest: map_of_SomeD)

lemma keyed_values_inj: "keyed f d \<Longrightarrow> inj_on f (set (dvalues d))"
  by (rule inj_onI) (metis keyed_mem_iff option.inject)

lemma keyed_distinct_values: "keyed f d \<Longrightarrow> distinct (map f (dvalues d))"
proof -
  assume k: "keyed f d"
  then have "map f (dvalues d) = map fst d"
    by (auto simp: keyed_def)
  with k show ?thesis by (simp only: keyed_def)
qed

lemma set_by_key [simp]: "set (by_key d) = set (dvalues d)"
  by (simp add: by_key_def)

lemma mset_by_key [simp]: "mset (by_key d) = mset (dvalues d)"
  by (simp add: by_key_def mset_map)

lemma keyed_distinct_view:
  assumes "keyed f d" and "mset xs = mset (dvalues d)"
  shows "distinct (map f xs)"
proof -
  have "mset (map f xs) = mset (map f (dvalues d))" using assms(2) by (metis mset_map)
  then show ?thesis using keyed_distinct_values [OF assms(1)] mset_eq_imp_distinct_iff by blast
qed

lemma length_by_key [simp]: "length (by_key d) = length d"
  by (simp add: by_key_def)

lemma update_new: "map_of d k = None \<Longrightarrow> AList.update k v d = d @ [(k, v)]"
  by (induction d) (auto split: if_splits)

lemma update_same: "distinct (map fst d) \<Longrightarrow> map_of d k = Some v \<Longrightarrow> AList.update k v d = d"
  by (induction d) (auto split: if_splits simp: image_iff)

lemma mset_values_pop:
  assumes "distinct (map fst d)" and "map_of d k = Some v"
  shows "mset (dvalues d) = add_mset v (mset (dvalues (dpop k d)))"
  using assms
proof (induction d)
  case (Cons a d)
  show ?case
  proof (cases "fst a = k")
    case True
    with Cons.prems have "dpop k d = d" by (auto simp: AList.delete_id)
    with True Cons.prems show ?thesis by (cases a) auto
  next
    case False
    with Cons show ?thesis by (cases a) auto
  qed
qed simp

text \<open>
  The managers find a record by scanning a sorted view of its collection; on a keyed collection
  the scan is the dictionary lookup.
\<close>

lemma list_ex_find: "list_ex P xs \<longleftrightarrow> find P xs \<noteq> None"
  by (auto simp: find_None_iff list_ex_iff)

lemma find_keyed:
  assumes "keyed f d" and "set xs = set (dvalues d)"
  shows "find (\<lambda>x. f x = k) xs = map_of d k"
proof (cases "find (\<lambda>x. f x = k) xs")
  case None
  then have none: "\<forall>x \<in> set (dvalues d). f x \<noteq> k"
    using assms(2) by (auto simp: find_None_iff)
  have "map_of d k \<noteq> Some v" for v
  proof
    assume v: "map_of d k = Some v"
    with assms(1) have fv: "f v = k" by (rule keyed_lookup)
    with v have "v \<in> set (dvalues d)" using keyed_mem_iff [OF assms(1)] by simp
    with none fv show False by blast
  qed
  then have "map_of d k = None" by (cases "map_of d k") auto
  with None show ?thesis by simp
next
  case (Some x)
  then have "x \<in> set (dvalues d)" and "f x = k"
    using assms(2) by (auto simp: find_Some_iff)
  then have "map_of d k = Some x"
    using keyed_mem_iff [OF assms(1)] by simp
  with Some show ?thesis by simp
qed

lemma map_of_dict_of:
  "map_of (fold (\<lambda>x d. AList.update (f x) x d) xs d0) k
     = (case find (\<lambda>x. f x = k) (rev xs) of Some x \<Rightarrow> Some x | None \<Rightarrow> map_of d0 k)"
proof (induction xs arbitrary: d0)
  case Nil
  then show ?case by simp
next
  case (Cons x xs)
  have "find P (ys @ [z]) = (case find P ys of Some y \<Rightarrow> Some y | None \<Rightarrow> if P z then Some z else None)"
    for P and ys :: "'a list" and z
    by (induction ys) auto
  with Cons show ?case by (auto split: option.splits)
qed

lemma dict_of_lookup:
  assumes "distinct (map f xs)"
  shows "map_of (dict_of f xs) k = find (\<lambda>x. f x = k) xs"
proof (cases "find (\<lambda>x. f x = k) xs")
  case None
  then have "find (\<lambda>x. f x = k) (rev xs) = None" by (simp add: find_None_iff)
  with None show ?thesis by (simp add: dict_of_def map_of_dict_of)
next
  case (Some x)
  then have x: "x \<in> set xs" "f x = k" by (auto simp: find_Some_iff)
  obtain y where y: "find (\<lambda>x. f x = k) (rev xs) = Some y"
    using x by (cases "find (\<lambda>x. f x = k) (rev xs)") (auto simp: find_None_iff)
  then have "y \<in> set (rev xs)" "f y = k" by (auto simp: find_Some_iff simp del: set_rev)
  then have "y \<in> set xs" "f y = k" by simp_all
  with x assms have "y = x" by (metis distinct_map inj_onD)
  with Some y show ?thesis by (simp add: dict_of_def map_of_dict_of)
qed

lemma keyed_dict_of: "keyed f (dict_of f xs)"
proof -
  have "keyed f d0 \<Longrightarrow> keyed f (fold (\<lambda>x d. AList.update (f x) x d) xs d0)" for d0
    by (induction xs arbitrary: d0) auto
  then show ?thesis by (simp add: dict_of_def)
qed

text \<open>Rebuilding a dictionary from a sorted view of a keyed collection gives the same lookups.\<close>

lemma dict_of_view:
  assumes "keyed f d" and "mset xs = mset (dvalues d)"
  shows "map_of (dict_of f xs) = map_of d"
proof
  fix k
  have "distinct (map f xs)" by (rule keyed_distinct_view [OF assms])
  then show "map_of (dict_of f xs) k = map_of d k"
    using find_keyed [OF assms(1) mset_eq_setD [OF assms(2)]] by (simp add: dict_of_lookup)
qed

lemma set_keyed_iff: "keyed f d \<Longrightarrow> (k, v) \<in> set d \<longleftrightarrow> map_of d k = Some v"
  by (auto simp: keyed_def dest: map_of_SomeD)

lemma set_dict_of_view:
  assumes "keyed f d" and "mset xs = mset (dvalues d)"
  shows "(k, v) \<in> set (dict_of f xs) \<longleftrightarrow> map_of d k = Some v"
  using set_keyed_iff [OF keyed_dict_of] dict_of_view [OF assms] by metis

section \<open>Sequence numbers\<close>

text \<open>\<open>max([...], default=0) + 1\<close>, the sequence number every manager gives a new record.\<close>

definition next_seq :: "int list \<Rightarrow> int" where
  "next_seq xs = fold max xs 0 + 1"

lemma fold_max_ge: "(a :: int) \<le> fold max xs a \<and> (\<forall>x \<in> set xs. x \<le> fold max xs a)"
  by (induction xs arbitrary: a) (auto, (meson max.cobounded1 max.cobounded2 order_trans)+)

lemma next_seq_gt: "x \<in> set xs \<Longrightarrow> x < next_seq xs"
  using fold_max_ge [where xs = xs and a = 0] by (fastforce simp: next_seq_def)

lemma next_seq_pos: "0 < next_seq xs"
  using fold_max_ge [where xs = xs and a = 0] by (simp add: next_seq_def)

end
