(* ===== verification/Heap_Queue.thy ===== *)
theory Heap_Queue
  imports Sose_Prelude
begin

text \<open>
  The parts of Python's \<open>heapq\<close> that \<open>core/scheduler.py\<close> uses: a binary heap in a list, where the
  children of position \<open>i\<close> are \<open>2 * i + 1\<close> and \<open>2 * i + 2\<close>. Elements are compared through a key, as a
  dataclass with \<open>order=True\<close> compares its fields. The contract of a priority queue is the locale
  \<open>priority_queue\<close>, interpreted on the list heap.
\<close>

section \<open>The contract\<close>

text \<open>Taking the first element \<open>n\<close> times (or until the queue is empty).\<close>

fun pops :: "('q \<Rightarrow> ('a \<times> 'q) option) \<Rightarrow> nat \<Rightarrow> 'q \<Rightarrow> 'a list \<times> 'q" where
  "pops pop 0 q = ([], q)"
| "pops pop (Suc n) q = (case pop q of None \<Rightarrow> ([], q) | Some (x, q') \<Rightarrow> (let (xs, r) = pops pop n q' in (x # xs, r)))"

locale priority_queue =
  fixes key :: "'a \<Rightarrow> 'k :: linorder"
    and push :: "'q \<Rightarrow> 'a \<Rightarrow> 'q"
    and pop :: "'q \<Rightarrow> ('a \<times> 'q) option"
    and inv :: "'q \<Rightarrow> bool"
    and contents :: "'q \<Rightarrow> 'a multiset"
  assumes push_inv: "inv q \<Longrightarrow> inv (push q x)"
    and push_contents: "contents (push q x) = add_mset x (contents q)"
    and pop_inv: "inv q \<Longrightarrow> pop q = Some (x, q') \<Longrightarrow> inv q'"
    and pop_contents: "pop q = Some (x, q') \<Longrightarrow> contents q = add_mset x (contents q')"
    and pop_least: "inv q \<Longrightarrow> pop q = Some (x, q') \<Longrightarrow> y \<in># contents q' \<Longrightarrow> key x \<le> key y"
begin

lemma pop_shrinks: "pop q = Some (x, q') \<Longrightarrow> size (contents q') < size (contents q)"
  by (simp add: pop_contents)

lemma pops_sorted:
  assumes "inv q" and "pops pop n q = (xs, r)"
  shows "inv r \<and> contents q = mset xs + contents r \<and> sorted (map key xs) \<and>
    (\<forall>x \<in> set xs. \<forall>y \<in># contents r. key x \<le> key y)"
  using assms
proof (induction n arbitrary: q xs)
  case 0
  then show ?case by simp
next
  case (Suc n)
  show ?case
  proof (cases "pop q")
    case None
    with Suc.prems show ?thesis by simp
  next
    case (Some p)
    then obtain x q' where pop: "pop q = Some (x, q')" by (cases p) auto
    obtain ys where ys: "pops pop n q' = (ys, r)" "xs = x # ys"
      using Suc.prems(2) pop by (auto split: prod.splits)
    note IH = Suc.IH [OF pop_inv [OF Suc.prems(1) pop] ys(1)]
    have "key x \<le> key y" if "y \<in># mset ys + contents r" for y
      using pop_least [OF Suc.prems(1) pop] that IH by simp
    with IH show ?thesis by (auto simp: ys(2) pop_contents [OF pop])
  qed
qed

end

section \<open>Sifting\<close>

abbreviation parent :: "nat \<Rightarrow> nat" where
  "parent i \<equiv> (i - 1) div 2"

text \<open>\<open>_siftdown(heap, startpos, pos)\<close>, with the item that is moved as an argument.\<close>

function siftdown :: "('a \<Rightarrow> 'k :: linorder) \<Rightarrow> nat \<Rightarrow> nat \<Rightarrow> 'a \<Rightarrow> 'a list \<Rightarrow> 'a list" where
  "siftdown key startpos pos newitem h =
     (if startpos < pos \<and> key newitem < key (h ! parent pos)
      then siftdown key startpos (parent pos) newitem (h[pos := h ! parent pos])
      else h[pos := newitem])"
  by pat_completeness auto
termination
  by (relation "measure (\<lambda>(key, startpos, pos, newitem, h). pos)") auto

declare siftdown.simps [simp del]

text \<open>The loop of \<open>_siftup\<close>: move the smaller child up until the hole is at a leaf.\<close>

function sift_to_leaf :: "('a \<Rightarrow> 'k :: linorder) \<Rightarrow> nat \<Rightarrow> 'a list \<Rightarrow> nat \<times> 'a list" where
  "sift_to_leaf key pos h =
     (let childpos = 2 * pos + 1
      in if childpos < length h
         then let childpos = (if childpos + 1 < length h \<and> \<not> key (h ! childpos) < key (h ! (childpos + 1))
                              then childpos + 1 else childpos)
              in sift_to_leaf key childpos (h[pos := h ! childpos])
         else (pos, h))"
  by pat_completeness auto
termination
  by (relation "measure (\<lambda>(key, pos, h). length h - pos)") (auto simp: Let_def)

declare sift_to_leaf.simps [simp del]

definition siftup :: "('a \<Rightarrow> 'k :: linorder) \<Rightarrow> nat \<Rightarrow> 'a list \<Rightarrow> 'a list" where
  "siftup key pos h = (let newitem = h ! pos; (leaf, h') = sift_to_leaf key pos h
     in siftdown key pos leaf newitem h')"

definition heappush :: "('a \<Rightarrow> 'k :: linorder) \<Rightarrow> 'a list \<Rightarrow> 'a \<Rightarrow> 'a list" where
  "heappush key h item = siftdown key 0 (length h) item (h @ [item])"

text \<open>\<open>heappop\<close>; \<open>None\<close> is the \<open>IndexError\<close> of an empty heap.\<close>

definition heappop :: "('a \<Rightarrow> 'k :: linorder) \<Rightarrow> 'a list \<Rightarrow> ('a \<times> 'a list) option" where
  "heappop key h =
     (if h = [] then None
      else let lastelt = last h; h' = butlast h
           in if h' = [] then Some (lastelt, []) else Some (h' ! 0, siftup key 0 (h'[0 := lastelt])))"

section \<open>The heap order\<close>

definition heap_ordered :: "('a \<Rightarrow> 'k :: linorder) \<Rightarrow> 'a list \<Rightarrow> bool" where
  "heap_ordered key h \<longleftrightarrow> (\<forall>i < length h. 0 < i \<longrightarrow> key (h ! parent i) \<le> key (h ! i))"

text \<open>Ordered but for a hole at one position, whatever stands in it.\<close>

definition holed :: "('a \<Rightarrow> 'k :: linorder) \<Rightarrow> nat \<Rightarrow> 'a list \<Rightarrow> bool" where
  "holed key pos h \<longleftrightarrow>
     (\<forall>i < length h. 0 < i \<longrightarrow> i \<noteq> pos \<longrightarrow> parent i \<noteq> pos \<longrightarrow> key (h ! parent i) \<le> key (h ! i)) \<and>
     (\<forall>i < length h. 0 < i \<longrightarrow> 0 < pos \<longrightarrow> parent i = pos \<longrightarrow> key (h ! parent pos) \<le> key (h ! i))"

lemma parent_less: "0 < i \<Longrightarrow> parent i < i"
  by auto

lemma holedD:
  assumes "holed key pos h" and "i < length h" and "0 < i"
  shows "i \<noteq> pos \<Longrightarrow> parent i \<noteq> pos \<Longrightarrow> key (h ! parent i) \<le> key (h ! i)"
    and "0 < pos \<Longrightarrow> parent i = pos \<Longrightarrow> key (h ! parent pos) \<le> key (h ! i)"
  using assms unfolding holed_def by blast+

lemma holed_up:
  assumes "holed key pos h" and "pos < length h" and "0 < pos"
  shows "holed key (parent pos) (h[pos := h ! parent pos])"
proof -
  let ?q = "parent pos" and ?h = "h[pos := h ! parent pos]"
  note less = parent_less [OF assms(3)]
  have "key (?h ! parent i) \<le> key (?h ! i)" if "i < length h" "0 < i" "i \<noteq> ?q" "parent i \<noteq> ?q" for i
  proof (cases "parent i = pos")
    case True
    moreover from this have "i \<noteq> pos" using that(2) parent_less by fastforce
    ultimately show ?thesis using holedD(2) [OF assms(1) that(1,2) assms(3)] assms(2) by simp
  next
    case False
    moreover have "i \<noteq> pos" using that(4) by auto
    ultimately show ?thesis using holedD(1) [OF assms(1) that(1,2)] by simp
  qed
  moreover have "key (?h ! parent ?q) \<le> key (?h ! i)" if i: "i < length h" "0 < i" "0 < ?q" "parent i = ?q" for i
  proof -
    have q: "?q < length h" "?q \<noteq> pos" "parent ?q \<noteq> pos" using less parent_less [OF i(3)] assms(2) by auto
    then have up: "key (h ! parent ?q) \<le> key (h ! ?q)" using holedD(1) [OF assms(1) q(1) i(3)] by simp
    show ?thesis
    proof (cases "i = pos")
      case True
      with up q assms(2) show ?thesis by simp
    next
      case False
      have "key (h ! ?q) \<le> key (h ! i)" using holedD(1) [OF assms(1) i(1,2) False] i(4) q(2) by simp
      with up have "key (h ! parent ?q) \<le> key (h ! i)" by (rule order_trans)
      with False q(3) show ?thesis by simp
    qed
  qed
  ultimately show ?thesis by (simp add: holed_def)
qed

lemma siftdown_ordered:
  assumes "holed key pos h" and "pos < length h"
    and "\<And>i. i < length h \<Longrightarrow> 0 < i \<Longrightarrow> parent i = pos \<Longrightarrow> key x \<le> key (h ! i)"
  shows "heap_ordered key (siftdown key 0 pos x h)"
  using assms
proof (induction key "0 :: nat" pos x h rule: siftdown.induct)
  case (1 key pos x h)
  let ?q = "parent pos" and ?h = "h[pos := h ! parent pos]"
  show ?case
  proof (cases "0 < pos \<and> key x < key (h ! ?q)")
    case True
    have "key x \<le> key (?h ! i)" if i: "i < length ?h" "0 < i" "parent i = ?q" for i
    proof (cases "i = pos")
      case True
      with \<open>0 < pos \<and> key x < key (h ! ?q)\<close> "1.prems"(2) show ?thesis by (simp add: less_imp_le)
    next
      case False
      have "?q \<noteq> pos" using True parent_less by fastforce
      then have "key (h ! ?q) \<le> key (h ! i)" using holedD(1) [OF "1.prems"(1) _ i(2) False] i by simp
      with True False show ?thesis by (auto intro: less_imp_le less_le_trans)
    qed
    with "1.hyps" [OF True] holed_up [OF "1.prems"(1,2)] True "1.prems"(2) parent_less [of pos]
    show ?thesis by (simp add: siftdown.simps [of key 0 pos])
  next
    case False
    have "key (h[pos := x] ! parent i) \<le> key (h[pos := x] ! i)" if i: "i < length h" "0 < i" for i
    proof (cases "parent i = pos")
      case True
      moreover have "i \<noteq> pos" using True i(2) parent_less by fastforce
      ultimately show ?thesis using "1.prems"(2,3) i by simp
    next
      case par: False
      show ?thesis
      proof (cases "i = pos")
        case True
        with False par i "1.prems"(2) show ?thesis by (simp add: not_less)
      next
        case other: False
        with par holedD(1) [OF "1.prems"(1) i] show ?thesis by simp
      qed
    qed
    with False show ?thesis by (auto simp: siftdown.simps [of key 0 pos] heap_ordered_def)
  qed
qed

lemma mset_siftdown: "pos < length h \<Longrightarrow> mset (siftdown key s pos x h) = mset (h[pos := x])"
proof (induction key s pos x h rule: siftdown.induct)
  case (1 key s pos x h)
  let ?q = "parent pos" and ?H = "h[pos := x]"
  show ?case
  proof (cases "s < pos \<and> key x < key (h ! ?q)")
    case True
    then have q: "?q < pos" by auto
    have "mset (siftdown key s pos x h) = mset (h[pos := h ! ?q, ?q := x])"
      using 1 True q by (simp add: siftdown.simps [of key s pos])
    also have "h[pos := h ! ?q, ?q := x] = ?H[pos := ?H ! ?q, ?q := ?H ! pos]"
      using "1.prems" q by simp
    also have "mset \<dots> = mset ?H" using "1.prems" q by (simp only: mset_swap length_list_update)
    finally show ?thesis .
  next
    case False
    then have "siftdown key s pos x h = ?H" by (subst siftdown.simps) auto
    then show ?thesis by simp
  qed
qed

text \<open>One round of the loop: the smaller child.\<close>

definition smaller_child :: "('a \<Rightarrow> 'k :: linorder) \<Rightarrow> nat \<Rightarrow> 'a list \<Rightarrow> nat" where
  "smaller_child key pos h =
     (if 2 * pos + 1 + 1 < length h \<and> \<not> key (h ! (2 * pos + 1)) < key (h ! (2 * pos + 1 + 1))
      then 2 * pos + 1 + 1 else 2 * pos + 1)"

lemma smaller_child:
  assumes "2 * pos + 1 < length h"
  shows "smaller_child key pos h < length h" and "parent (smaller_child key pos h) = pos"
    and "pos < smaller_child key pos h"
    and "i < length h \<Longrightarrow> 0 < i \<Longrightarrow> parent i = pos \<Longrightarrow> key (h ! smaller_child key pos h) \<le> key (h ! i)"
proof -
  show "smaller_child key pos h < length h" "parent (smaller_child key pos h) = pos" "pos < smaller_child key pos h"
    using assms by (auto simp: smaller_child_def)
  show "key (h ! smaller_child key pos h) \<le> key (h ! i)" if "i < length h" "0 < i" "parent i = pos"
  proof -
    have "i = 2 * pos + 1 \<or> i = 2 * pos + 1 + 1" using that(2,3) by presburger
    with that(1) show ?thesis by (auto simp: smaller_child_def)
  qed
qed

lemma sift_to_leaf_step:
  "2 * pos + 1 < length h \<Longrightarrow>
     sift_to_leaf key pos h = sift_to_leaf key (smaller_child key pos h) (h[pos := h ! smaller_child key pos h])"
  "\<not> 2 * pos + 1 < length h \<Longrightarrow> sift_to_leaf key pos h = (pos, h)"
  by (simp_all add: sift_to_leaf.simps [of key pos] Let_def smaller_child_def)

lemma sift_to_leaf_induct [case_names leaf inner]:
  assumes "\<And>pos h. \<not> 2 * pos + 1 < length h \<Longrightarrow> P pos h"
    and "\<And>pos h. 2 * pos + 1 < length h \<Longrightarrow>
      P (smaller_child key pos h) (h[pos := h ! smaller_child key pos h]) \<Longrightarrow> P pos h"
  shows "P pos h"
proof (induction "length h - pos" arbitrary: pos h rule: less_induct)
  case less
  show ?case
  proof (cases "2 * pos + 1 < length h")
    case True
    with smaller_child(3) [where key = key, OF True] show ?thesis
      by (intro assms(2) [OF True] less) (auto simp: smaller_child_def)
  qed (rule assms(1))
qed

lemma mset_sift_to_leaf:
  assumes "pos < length h" and "sift_to_leaf key pos h = (leaf, h')"
  shows "leaf < length h' \<and> length h' = length h \<and> length h' \<le> 2 * leaf + 1 \<and> mset (h'[leaf := x]) = mset (h[pos := x])"
  using assms
proof (induction pos h rule: sift_to_leaf_induct [of _ key])
  case (leaf pos h)
  then show ?case by (auto simp: sift_to_leaf_step(2))
next
  case (inner pos h)
  let ?c = "smaller_child key pos h" and ?H = "h[pos := x]"
  note c = smaller_child(1,3) [where key = key, OF inner(1)]
  have "h[pos := h ! ?c, ?c := x] = ?H[pos := ?H ! ?c, ?c := ?H ! pos]" using c inner.prems(1) by simp
  then have "mset (h[pos := h ! ?c, ?c := x]) = mset ?H"
    using c inner.prems(1) by (simp only: mset_swap length_list_update)
  with inner.IH inner.prems(2) c(1) sift_to_leaf_step(1) [OF inner(1), of key] show ?case by simp
qed

lemma holed_down:
  assumes "holed key pos h" and "2 * pos + 1 < length h"
  shows "holed key (smaller_child key pos h) (h[pos := h ! smaller_child key pos h])"
proof -
  let ?c = "smaller_child key pos h"
  let ?h = "h[pos := h ! ?c]"
  note c = smaller_child [where key = key, OF assms(2)]
  have pos: "pos < length h" using assms(2) by simp
  have "key (?h ! parent i) \<le> key (?h ! i)" if i: "i < length h" "0 < i" "i \<noteq> ?c" "parent i \<noteq> ?c" for i
  proof (cases "parent i = pos")
    case True
    moreover have "i \<noteq> pos" using True i(2) parent_less by fastforce
    ultimately show ?thesis using c(4) [OF i(1,2)] pos by simp
  next
    case par: False
    show ?thesis
    proof (cases "i = pos")
      case True
      with i(2) have "0 < pos" by simp
      with True par holedD(2) [OF assms(1) c(1)] c(2,3) pos show ?thesis by simp
    next
      case other: False
      with par holedD(1) [OF assms(1) i(1,2)] show ?thesis by simp
    qed
  qed
  moreover have "key (?h ! parent ?c) \<le> key (?h ! i)" if i: "i < length h" "0 < i" "parent i = ?c" for i
  proof -
    have "i \<noteq> pos" using i(2,3) c(3) parent_less by fastforce
    moreover have "key (h ! ?c) \<le> key (h ! i)"
      using holedD(1) [OF assms(1) i(1,2) calculation] i(3) c(3) by simp
    ultimately show ?thesis using c(2) pos by simp
  qed
  ultimately show ?thesis by (simp add: holed_def)
qed

lemma sift_to_leaf_holed:
  assumes "holed key pos h" and "sift_to_leaf key pos h = (leaf, h')"
  shows "holed key leaf h'"
  using assms
proof (induction pos h rule: sift_to_leaf_induct [of _ key])
  case (leaf pos h)
  then show ?case by (simp add: sift_to_leaf_step(2))
next
  case (inner pos h)
  then show ?case using holed_down [OF inner.prems(1) inner(1)] by (simp add: sift_to_leaf_step(1))
qed

lemma mset_siftup: "h \<noteq> [] \<Longrightarrow> mset (siftup key 0 h) = mset h"
proof -
  assume h: "h \<noteq> []"
  obtain leaf h' where run: "sift_to_leaf key 0 h = (leaf, h')" by (cases "sift_to_leaf key 0 h")
  have "mset (h'[leaf := h ! 0]) = mset (h[0 := h ! 0])" "leaf < length h'"
    using mset_sift_to_leaf [OF _ run, of "h ! 0"] h by auto
  then show ?thesis by (simp add: siftup_def run mset_siftdown)
qed

lemma siftup_ordered:
  assumes "holed key 0 h" and "h \<noteq> []"
  shows "heap_ordered key (siftup key 0 h)"
proof -
  obtain leaf h' where run: "sift_to_leaf key 0 h = (leaf, h')" by (cases "sift_to_leaf key 0 h")
  have leaf: "leaf < length h'" "length h' \<le> 2 * leaf + 1" using mset_sift_to_leaf [OF _ run, of undefined] assms(2) by auto
  have none: False if "i < length h'" "0 < i" "parent i = leaf" for i
    using that leaf(2) by presburger
  have "heap_ordered key (siftdown key 0 leaf (h ! 0) h')"
    by (rule siftdown_ordered [OF sift_to_leaf_holed [OF assms(1) run] leaf(1)]) (use none in blast)
  then show ?thesis by (simp add: siftup_def run)
qed

section \<open>The list heap is a priority queue\<close>

lemma heap_root_least:
  assumes "heap_ordered key h" and "i < length h"
  shows "key (h ! 0) \<le> key (h ! i)"
  using assms(2)
proof (induction i rule: less_induct)
  case (less i)
  show ?case
  proof (cases "i = 0")
    case False
    with less.IH [of "parent i"] less.prems have "key (h ! 0) \<le> key (h ! parent i)" by auto
    also have "\<dots> \<le> key (h ! i)" using assms(1) less.prems False by (simp add: heap_ordered_def)
    finally show ?thesis .
  qed simp
qed

lemma heappush_ordered:
  assumes "heap_ordered key h"
  shows "heap_ordered key (heappush key h x)"
proof -
  have "holed key (length h) (h @ [x])"
    unfolding holed_def
  proof (intro conjI allI impI)
    fix i assume "i < length (h @ [x])" "0 < i" "i \<noteq> length h"
    then have i: "i < length h" "0 < i" "parent i < length h" by auto
    with assms show "key ((h @ [x]) ! parent i) \<le> key ((h @ [x]) ! i)"
      by (simp add: nth_append heap_ordered_def)
  next
    fix i assume "i < length (h @ [x])" "0 < i" "parent i = length h"
    then show "key ((h @ [x]) ! parent (length h)) \<le> key ((h @ [x]) ! i)" by auto
  qed
  then show ?thesis
    unfolding heappush_def by (rule siftdown_ordered) auto
qed

lemma mset_heappush: "mset (heappush key h x) = add_mset x (mset h)"
  by (simp add: heappush_def mset_siftdown)

lemma heappop_cases:
  assumes "heappop key h = Some (x, h')"
  obtains "h = [x]" and "h' = []"
  | y zs where "h = x # zs @ [y]" and "h' = siftup key 0 (y # zs)"
proof -
  have "h \<noteq> []" using assms by (auto simp: heappop_def)
  then obtain g y where h: "h = g @ [y]" by (metis rev_exhaust)
  show thesis
  proof (cases g)
    case Nil
    with h assms that(1) show ?thesis by (auto simp: heappop_def)
  next
    case (Cons z zs)
    with h assms that(2) show ?thesis by (auto simp: heappop_def)
  qed
qed

lemma heappop_mset: "heappop key h = Some (x, h') \<Longrightarrow> mset h = add_mset x (mset h')"
  by (erule heappop_cases) (auto simp: mset_siftup)

lemma heappop_root: "heappop key h = Some (x, h') \<Longrightarrow> x = h ! 0"
  by (erule heappop_cases) auto

lemma heappop_nonempty: "h \<noteq> [] \<Longrightarrow> \<exists>x h'. heappop key h = Some (x, h')"
  by (simp add: heappop_def Let_def)

lemma heappop_length: "heappop key h = Some (x, h') \<Longrightarrow> length h = Suc (length h')"
  by (metis heappop_mset size_add_mset size_mset)

lemma heappop_ordered:
  assumes "heap_ordered key h" and "heappop key h = Some (x, h')"
  shows "heap_ordered key h'"
  using assms(2)
proof (cases rule: heappop_cases)
  case 1
  then show ?thesis by (simp add: heap_ordered_def)
next
  case (2 y zs)
  have "key ((y # zs) ! parent i) \<le> key ((y # zs) ! i)" if "i < Suc (length zs)" "0 < i" "parent i \<noteq> 0" for i
  proof -
    have "(y # zs) ! i = h ! i" "(y # zs) ! parent i = h ! parent i"
      using 2(1) that by (auto simp: nth_Cons nth_append split: nat.splits)
    moreover have "key (h ! parent i) \<le> key (h ! i)" 
      using assms(1) [unfolded heap_ordered_def, rule_format, of i] that 2(1) by (simp del: nth_Cons_pos)
    ultimately show ?thesis by simp
  qed
  then have "holed key 0 (y # zs)" by (auto simp: holed_def)
  with 2(2) show ?thesis by (simp add: siftup_ordered)
qed

lemma heappop_least:
  assumes "heap_ordered key h" and "heappop key h = Some (x, h')" and "y \<in># mset h'"
  shows "key x \<le> key y"
proof -
  have "y \<in> set h" using assms(3) heappop_mset [OF assms(2)] by (metis set_mset_mset insert_iff set_mset_add_mset_insert)
  then obtain i where "i < length h" "h ! i = y" by (auto simp: in_set_conv_nth)
  with heap_root_least [OF assms(1)] heappop_root [OF assms(2)] show ?thesis by metis
qed

interpretation heapq: priority_queue key "heappush key" "heappop key" "heap_ordered key" mset
  for key :: "'a \<Rightarrow> 'k :: linorder"
  by unfold_locales (auto simp: heappush_ordered mset_heappush heappop_ordered heappop_mset heappop_least)

end
