(* ===== verification/Py_Values.thy ===== *)
theory Py_Values
  imports Sose_Prelude Complex_Main "HOL-Library.Log_Nat"
begin

text \<open>
  The parts of the Python language and standard library the modelled sources compute with:
  \<open>str.strip()\<close> emptiness, \<open>datetime\<close> and \<open>timedelta\<close> arithmetic with its range
  checks, and IEEE 754 double arithmetic. A float is the rational it denotes (so that \<open>=\<close>
  is Python's \<open>==\<close>, which identifies \<open>-0.0\<close> and \<open>0.0\<close>), an infinity or NaN; every
  arithmetic operation computes exactly and rounds to the nearest double, ties to even.
\<close>

section \<open>Strings\<close>

definition ascii_space :: "nat \<Rightarrow> bool" where
  "ascii_space b \<longleftrightarrow> (9 \<le> b \<and> b \<le> 13) \<or> (28 \<le> b \<and> b \<le> 32)"

text \<open>
  The multi-byte UTF-8 encodings of the other code points with \<open>str.isspace()\<close>: U+0085,
  U+00A0, U+1680, U+2000 to U+200A, U+2028, U+2029, U+202F, U+205F and U+3000.
\<close>

definition space2 :: "nat \<Rightarrow> nat \<Rightarrow> bool" where
  "space2 b c \<longleftrightarrow> b = 194 \<and> (c = 133 \<or> c = 160)"

definition space3 :: "nat \<Rightarrow> nat \<Rightarrow> nat \<Rightarrow> bool" where
  "space3 b c d \<longleftrightarrow>
     (b = 225 \<and> c = 154 \<and> d = 128) \<or>
     (b = 226 \<and> c = 128 \<and> (128 \<le> d \<and> d \<le> 138 \<or> d = 168 \<or> d = 169 \<or> d = 175)) \<or>
     (b = 226 \<and> c = 129 \<and> d = 159) \<or> (b = 227 \<and> c = 128 \<and> d = 128)"

fun blank_bytes :: "nat list \<Rightarrow> bool" where
  "blank_bytes [] = True"
| "blank_bytes [b] = ascii_space b"
| "blank_bytes [b, c] = ((ascii_space b \<and> ascii_space c) \<or> space2 b c)"
| "blank_bytes (b # c # d # ds) =
     ((ascii_space b \<and> blank_bytes (c # d # ds)) \<or> (space2 b c \<and> blank_bytes (d # ds)) \<or>
      (space3 b c d \<and> blank_bytes ds))"

text \<open>\<open>not s.strip()\<close>.\<close>

definition blank :: "string \<Rightarrow> bool" where
  "blank s = blank_bytes (map of_char s)"

lemma blank_Nil [simp]: "blank []"
  by (simp add: blank_def)

section \<open>Instants and durations\<close>

type_synonym datetime = int
type_synonym timedelta = int

definition datetime_max :: datetime where
  "datetime_max = 3652059 * 86400 * 1000000 - 1"

definition timedelta_max :: timedelta where
  "timedelta_max = 1000000000 * 86400 * 1000000 - 1"

definition timedelta_min :: timedelta where
  "timedelta_min = - 999999999 * 86400 * 1000000"

text \<open>\<open>t + delta\<close>.\<close>

definition dt_add :: "datetime \<Rightarrow> timedelta \<Rightarrow> datetime res" where
  "dt_add t d = (if 0 \<le> t + d \<and> t + d \<le> datetime_max then Inr (t + d)
                  else Inl (OverflowError ''date value out of range''))"

text \<open>\<open>delta * n\<close>.\<close>

definition td_mul :: "timedelta \<Rightarrow> int \<Rightarrow> timedelta res" where
  "td_mul d n = (if timedelta_min \<le> d * n \<and> d * n \<le> timedelta_max then Inr (d * n)
                 else Inl (OverflowError ''days; must have magnitude <= 999999999''))"

lemma dt_add_Inr_iff: "dt_add t d = Inr r \<longleftrightarrow> r = t + d \<and> 0 \<le> r \<and> r \<le> datetime_max"
  by (auto simp: dt_add_def)

lemma td_mul_Inr_iff:
  "td_mul d n = Inr r \<longleftrightarrow> r = d * n \<and> timedelta_min \<le> r \<and> r \<le> timedelta_max"
  by (auto simp: td_mul_def)

section \<open>Double precision floats\<close>

datatype pyfloat = Fin rat | PInf | NInf | NaN

text \<open>Round to the nearest integer, ties to even.\<close>

definition round_half_even :: "rat \<Rightarrow> int" where
  "round_half_even x =
     (let f = \<lfloor>x\<rfloor>; d = x - of_int f
      in if d < 1 / 2 then f else if d > 1 / 2 then f + 1 else if even f then f else f + 1)"

text \<open>For \<open>a > 0\<close>, the exponent \<open>k\<close> with \<open>2^k \<le> a < 2^(k+1)\<close>.\<close>

definition binade :: "rat \<Rightarrow> int" where
  "binade a =
     (let (p, q) = quotient_of a; k = int (floorlog 2 (nat p)) - int (floorlog 2 (nat q))
      in if a < 2 powi k then k - 1 else k)"

text \<open>The unit in the last place of the binade, no finer than the subnormal spacing.\<close>

definition ulp_exp :: "rat \<Rightarrow> int" where
  "ulp_exp a = max (binade a - 52) (- 1074)"

definition round_double :: "rat \<Rightarrow> pyfloat" where
  "round_double x =
     (if x = 0 then Fin 0
      else let u = ulp_exp \<bar>x\<bar>; v = of_int (round_half_even (\<bar>x\<bar> / 2 powi u)) * 2 powi u
        in if v \<ge> 2 ^ 1024 then (if x > 0 then PInf else NInf)
           else Fin (if x > 0 then v else - v))"

fun float_neg :: "pyfloat \<Rightarrow> pyfloat" where
  "float_neg (Fin a) = Fin (- a)"
| "float_neg PInf = NInf"
| "float_neg NInf = PInf"
| "float_neg NaN = NaN"

fun float_add :: "pyfloat \<Rightarrow> pyfloat \<Rightarrow> pyfloat" where
  "float_add (Fin a) (Fin b) = round_double (a + b)"
| "float_add NaN _ = NaN"
| "float_add _ NaN = NaN"
| "float_add PInf NInf = NaN"
| "float_add NInf PInf = NaN"
| "float_add PInf _ = PInf"
| "float_add NInf _ = NInf"
| "float_add _ PInf = PInf"
| "float_add _ NInf = NInf"

definition float_sub :: "pyfloat \<Rightarrow> pyfloat \<Rightarrow> pyfloat" where
  "float_sub a b = float_add a (float_neg b)"

text \<open>Comparisons are false on NaN.\<close>

fun float_lt :: "pyfloat \<Rightarrow> pyfloat \<Rightarrow> bool" where
  "float_lt (Fin a) (Fin b) = (a < b)"
| "float_lt NaN _ = False"
| "float_lt _ NaN = False"
| "float_lt PInf _ = False"
| "float_lt _ NInf = False"
| "float_lt _ _ = True"

definition float_eq :: "pyfloat \<Rightarrow> pyfloat \<Rightarrow> bool" where
  "float_eq a b \<longleftrightarrow> a = b \<and> a \<noteq> NaN"

definition float_le :: "pyfloat \<Rightarrow> pyfloat \<Rightarrow> bool" where
  "float_le a b \<longleftrightarrow> float_lt a b \<or> float_eq a b"

fun isfinite :: "pyfloat \<Rightarrow> bool" where
  "isfinite (Fin _) = True"
| "isfinite _ = False"

lemma isfinite_iff: "isfinite x \<longleftrightarrow> (\<exists>a. x = Fin a)"
  by (cases x) auto

lemma float_le_Fin [simp]: "float_le (Fin a) (Fin b) \<longleftrightarrow> a \<le> b"
  by (auto simp: float_le_def float_eq_def)

lemma not_float_lt_Fin: "\<not> float_lt (Fin a) (Fin b) \<longleftrightarrow> float_le (Fin b) (Fin a)"
  by auto

text \<open>
  A finite double between \<open>0\<close> and a finite capacity is a rational in that interval: the shape
  the container bounds take.
\<close>

lemma finite_in_range:
  assumes "x \<noteq> NaN" and "\<not> float_lt x (Fin 0)" and "\<not> float_lt (Fin c) x"
  shows "\<exists>a. x = Fin a \<and> 0 \<le> a \<and> a \<le> c"
  using assms by (cases x) auto

lemma round_double_not_NaN [simp]: "round_double x \<noteq> NaN"
  by (simp add: round_double_def Let_def)

lemma float_add_Fin_not_NaN [simp]: "float_add (Fin a) (Fin b) \<noteq> NaN"
  by simp

lemma float_sub_Fin_not_NaN [simp]: "float_sub (Fin a) (Fin b) \<noteq> NaN"
  by (simp add: float_sub_def)

lemma round_half_even_of_int [simp]: "round_half_even (of_int n) = n"
  by (simp add: round_half_even_def)

text \<open>
  Rounding is exact on what a double can represent: \<open>m * 2^e\<close> with a 53-bit \<open>m\<close>.
\<close>

lemma floorlog2_bounds:
  assumes "0 < n"
  shows "2 ^ (floorlog 2 n - 1) \<le> n \<and> n < 2 ^ floorlog 2 n \<and> 0 < floorlog 2 n"
  using assms floorlog_bounds [of n 2] floorlog_eq_zero_iff [of 2 n] by auto

lemma powi_le_cancel: "(2 :: rat) powi a \<le> 2 powi b \<longleftrightarrow> a \<le> b"
  using power_int_increasing [of a b "2 :: rat"] power_int_strict_increasing [of b a "2 :: rat"]
  by (meson linorder_not_le not_less one_le_numeral one_less_numeral_iff semiring_norm(76))

lemma powi_less_cancel: "(2 :: rat) powi a < 2 powi b \<longleftrightarrow> a < b"
  using powi_le_cancel by (meson linorder_not_le)

lemma binade_bounds:
  assumes "0 < a"
  shows "2 powi binade a \<le> a \<and> a < 2 powi (binade a + 1)"
proof -
  obtain p q where pq: "quotient_of a = (p, q)" by (cases "quotient_of a")
  then have q: "0 < q" and a: "a = of_int p / of_int q"
    by (simp_all add: quotient_of_denom_pos quotient_of_div)
  with assms have p: "0 < p" by (simp add: zero_less_divide_iff)
  define i where "i = floorlog 2 (nat p)"
  define j where "j = floorlog 2 (nat q)"
  have i: "2 ^ (i - 1) \<le> nat p" "nat p < 2 ^ i" "0 < i"
    using floorlog2_bounds [of "nat p"] p by (simp_all add: i_def)
  have j: "2 ^ (j - 1) \<le> nat q" "nat q < 2 ^ j" "0 < j"
    using floorlog2_bounds [of "nat q"] q by (simp_all add: j_def)
  have ip: "(2 :: rat) ^ (i - 1) \<le> of_int p" "(of_int p :: rat) < 2 ^ i"
    using i(1,2) p by (metis of_int_of_nat_eq of_nat_le_iff of_nat_numeral of_nat_power int_nat_eq less_le_not_le,
      metis of_int_of_nat_eq of_nat_less_iff of_nat_numeral of_nat_power int_nat_eq less_le_not_le)
  have jq: "(2 :: rat) ^ (j - 1) \<le> of_int q" "(of_int q :: rat) < 2 ^ j"
    using j(1,2) q by (metis of_int_of_nat_eq of_nat_le_iff of_nat_numeral of_nat_power int_nat_eq less_le_not_le,
      metis of_int_of_nat_eq of_nat_less_iff of_nat_numeral of_nat_power int_nat_eq less_le_not_le)
  define k where "k = int i - int j"
  have "a < 2 ^ i / 2 ^ (j - 1)"
    unfolding a using ip jq p q by (intro frac_less) auto
  also have "(2 :: rat) ^ i / 2 ^ (j - 1) = 2 powi (k + 1)"
    using j(3) by (simp add: k_def power_int_diff power_int_add power_diff field_simps)
  finally have up: "a < 2 powi (k + 1)" .
  have "(2 :: rat) powi (k - 1) = 2 ^ (i - 1) / 2 ^ j"
    using i(3) by (simp add: k_def power_int_diff power_int_add power_diff field_simps)
  also have "\<dots> < a"
    unfolding a using ip jq p q by (intro frac_less2) auto
  finally have low: "2 powi (k - 1) < a" .
  have "binade a = (if a < 2 powi k then k - 1 else k)"
    by (simp add: binade_def pq i_def j_def k_def Let_def)
  with up low show ?thesis by auto
qed

lemma round_double_exact:
  fixes m :: int
  assumes m: "\<bar>m\<bar> < 2 ^ 53" and e: "- 1074 \<le> e" "e \<le> 971"
  shows "round_double (of_int m * 2 powi e) = Fin (of_int m * 2 powi e)"
proof (cases "m = 0")
  case True
  then show ?thesis by (simp add: round_double_def)
next
  case False
  define x :: rat where "x = of_int \<bar>m\<bar> * 2 powi e"
  have ax: "\<bar>of_int m * 2 powi e\<bar> = x" by (simp add: x_def abs_mult)
  have x0: "0 < x" using False by (simp add: x_def)
  have "x < 2 ^ 53 * 2 powi e"
    using m unfolding x_def by (intro mult_strict_right_mono) (simp_all flip: of_int_abs of_int_power add: of_int_less_iff [symmetric])
  also have "\<dots> = 2 powi (53 + e)" by (simp add: power_int_add)
  finally have xlt: "x < 2 powi (53 + e)" .
  with binade_bounds [OF x0] have "(2 :: rat) powi binade x < 2 powi (53 + e)" by linarith
  then have "binade x < 53 + e" by (simp only: powi_less_cancel)
  then have u: "ulp_exp x \<le> e" using e(1) by (simp add: ulp_exp_def)
  define w where "w = ulp_exp x"
  have "(2 :: rat) powi e = 2 powi (e - w) * 2 powi w"
    by (simp flip: power_int_add)
  then have "x / 2 powi w = of_int \<bar>m\<bar> * 2 powi (e - w)"
    by (simp add: x_def)
  with u have div: "x / 2 powi ulp_exp x = of_int (\<bar>m\<bar> * 2 ^ nat (e - ulp_exp x))"
    by (simp add: w_def power_int_nonneg_exp)
  have v: "of_int (round_half_even (x / 2 powi ulp_exp x)) * 2 powi ulp_exp x = x"
    unfolding div round_half_even_of_int using div by (simp add: field_simps)
  have "x < 2 powi 1024"
  proof -
    have "(2 :: rat) powi (53 + e) \<le> 2 powi 1024" using e(2) by (simp only: powi_le_cancel)
    with xlt show ?thesis by linarith
  qed
  then have lt: "\<not> x \<ge> 2 ^ 1024" by (simp add: power_int_def)
  have pos: "0 < (2 :: rat) powi e" by simp
  have sign: "0 < of_int m * (2 :: rat) powi e \<longleftrightarrow> 0 < m"
    by (metis mult_neg_pos mult_pos_pos not_less_iff_gr_or_eq of_int_0_less_iff of_int_less_0_iff pos False)
  show ?thesis
    using False lt unfolding round_double_def ax Let_def v sign
    by (auto simp: x_def abs_if)
qed

lemma round_double_of_int: "\<bar>m\<bar> < 2 ^ 53 \<Longrightarrow> round_double (of_int m) = Fin (of_int m)"
  using round_double_exact [of m 0] by simp

end
