(* ===== verification/Runtime_Records.thy ===== *)
theory Runtime_Records
  imports Py_Values
begin

text \<open>
  The records of \<open>core/runtime.py\<close>, \<open>core/events.py\<close> and \<open>domain/entity.py\<close>. A dataclass
  is a record; a dataclass with \<open>order=True\<close> is a datatype whose \<open>linorder\<close> instance
  compares its fields in declaration order. Each constructor check (\<open>__post_init__\<close> or
  \<open>__init__\<close>) is a function that returns the record or the exception. Values of type
  \<open>object\<close> or \<open>Any\<close> are values of a type parameter.
\<close>

type_synonym 'v attrs = "(string, 'v) mapping"

section \<open>Guards shared by the constructors\<close>

definition require_non_empty :: "string \<Rightarrow> string \<Rightarrow> bool \<times> pyerror" where
  "require_non_empty label value = (value = [], ValueError (label @ '' cannot be empty''))"

definition require_positive_finite :: "string \<Rightarrow> pyfloat \<Rightarrow> bool \<times> pyerror" where
  "require_positive_finite label value =
     (\<not> isfinite value \<or> float_le value (Fin 0), ValueError (label @ '' must be finite and > 0''))"

definition require_container_level :: "pyfloat \<Rightarrow> bool \<times> pyerror" where
  "require_container_level value =
     (\<not> isfinite value \<or> float_lt value (Fin 0), ValueError ''container levels must be finite and >= 0'')"

definition require_sequence :: "string \<Rightarrow> int \<Rightarrow> bool \<times> pyerror" where
  "require_sequence label n = (n < 1, ValueError (label @ '' sequence must be >= 1''))"

declare require_non_empty_def [simp] require_positive_finite_def [simp]
  require_container_level_def [simp] require_sequence_def [simp]

section \<open>Commands, events and entities\<close>

record 'v command =
  cm_command_id :: string
  cm_name :: string
  cm_entity_type :: string
  cm_entity_id :: string
  cm_due_at :: datetime
  cm_issued_at :: "datetime option"
  cm_tick :: "int option"
  cm_payload :: "'v attrs"
  cm_causation_id :: "string option"
  cm_correlation_id :: "string option"
  cm_owner_id :: "string option"

definition rescheduled :: "'v command \<Rightarrow> datetime \<Rightarrow> 'v command" where
  "rescheduled c due_at = c\<lparr>cm_due_at := due_at\<rparr>"

record 'v domain_event =
  ev_event_id :: string
  ev_name :: string
  ev_entity_type :: string
  ev_entity_id :: string
  ev_occurred_at :: datetime
  ev_tick :: "int option"
  ev_payload :: "'v attrs"
  ev_causation_id :: "string option"
  ev_correlation_id :: "string option"
  ev_owner_id :: "string option"

record 'v entity =
  en_id :: string
  en_entity_type :: string
  en_state :: string
  en_attributes :: "'v attrs"
  en_created_at :: "datetime option"
  en_updated_at :: "datetime option"
  en_version :: int

text \<open>\<open>Entity.touch\<close>: a \<open>datetime\<close> is truthy, so \<open>created_at or at\<close> keeps a set value.\<close>

definition touch :: "datetime \<Rightarrow> 'v entity \<Rightarrow> 'v entity" where
  "touch t e = e\<lparr>en_created_at := (case en_created_at e of None \<Rightarrow> Some t | Some c \<Rightarrow> Some c),
                 en_updated_at := Some t, en_version := en_version e + 1\<rparr>"

section \<open>Scheduled work and simulation positions\<close>

datatype scheduled_work = ScheduledWork (sw_due_at: int) (sw_priority: int) (sw_sequence: int)
  (sw_work_id: string) (sw_command_id: string) (sw_owner_id: string)

fun sw_key :: "scheduled_work \<Rightarrow> int \<times> int \<times> int \<times> string \<times> string \<times> string" where
  "sw_key (ScheduledWork d p s w c ow) = (d, p, s, w, c, ow)"

lemma sw_key_inj: "sw_key a = sw_key b \<longleftrightarrow> a = b"
  by (cases a; cases b) auto

instantiation scheduled_work :: linorder
begin
definition less_eq_scheduled_work :: "scheduled_work \<Rightarrow> scheduled_work \<Rightarrow> bool" where
  "less_eq_scheduled_work a b \<longleftrightarrow> sw_key a \<le> sw_key b"
definition less_scheduled_work :: "scheduled_work \<Rightarrow> scheduled_work \<Rightarrow> bool" where
  "less_scheduled_work a b \<longleftrightarrow> sw_key a < sw_key b"
instance
  by standard (auto simp: less_eq_scheduled_work_def less_scheduled_work_def sw_key_inj
      simp flip: sw_key_inj)
end

definition mk_scheduled_work ::
  "string \<Rightarrow> datetime \<Rightarrow> int \<Rightarrow> int \<Rightarrow> string \<Rightarrow> string \<Rightarrow> scheduled_work res" where
  "mk_scheduled_work work_id due_at priority sequence command_id owner_id =
     guards [(blank owner_id, ValueError ''owner_id must not be empty'')]
       (ScheduledWork due_at priority sequence work_id command_id owner_id)"

record simulation_position =
  sp_logical_time :: datetime
  sp_execution_sequence :: int
  sp_committed_sequence :: int
  sp_logical_tick :: int

definition mk_simulation_position :: "simulation_position \<Rightarrow> simulation_position res" where
  "mk_simulation_position p = guards
     [(sp_logical_tick p < 0, ValueError ''logical_tick must be >= 0''),
      (sp_execution_sequence p < 0, ValueError ''execution_sequence must be >= 0''),
      (sp_committed_sequence p < 0, ValueError ''committed_sequence must be >= 0''),
      (sp_committed_sequence p > sp_execution_sequence p,
        ValueError ''committed_sequence cannot exceed execution_sequence'')] p"

section \<open>Resources\<close>

record resource_definition =
  rd_name :: string
  rd_capacity :: int

definition mk_resource_definition :: "resource_definition \<Rightarrow> resource_definition res" where
  "mk_resource_definition d = guards
     [require_non_empty ''resource name'' (rd_name d),
      (rd_capacity d < 1, ValueError ''resource capacity must be >= 1'')] d"

datatype resource_demand = ResourceDemand (dm_priority: int) (dm_sequence: int)
  (dm_request_id: string) (dm_resource_name: string) (dm_requested_at: int)

fun dm_key :: "resource_demand \<Rightarrow> int \<times> int \<times> string \<times> string \<times> int" where
  "dm_key (ResourceDemand p s r n t) = (p, s, r, n, t)"

lemma dm_key_inj: "dm_key a = dm_key b \<longleftrightarrow> a = b"
  by (cases a; cases b) auto

instantiation resource_demand :: linorder
begin
definition less_eq_resource_demand :: "resource_demand \<Rightarrow> resource_demand \<Rightarrow> bool" where
  "less_eq_resource_demand a b \<longleftrightarrow> dm_key a \<le> dm_key b"
definition less_resource_demand :: "resource_demand \<Rightarrow> resource_demand \<Rightarrow> bool" where
  "less_resource_demand a b \<longleftrightarrow> dm_key a < dm_key b"
instance
  by standard (auto simp: less_eq_resource_demand_def less_resource_demand_def dm_key_inj
      simp flip: dm_key_inj)
end

definition mk_resource_demand ::
  "string \<Rightarrow> string \<Rightarrow> int \<Rightarrow> datetime \<Rightarrow> int \<Rightarrow> resource_demand res" where
  "mk_resource_demand request_id resource_name priority requested_at sequence = guards
     [require_non_empty ''request_id'' request_id, require_non_empty ''resource_name'' resource_name]
     (ResourceDemand priority sequence request_id resource_name requested_at)"

record resource_reservation =
  rv_reservation_id :: string
  rv_request_id :: string
  rv_resource_name :: string
  rv_acquired_at :: datetime
  rv_sequence :: int

record resource_release_intent =
  ri_intent_id :: string
  ri_reservation_id :: string
  ri_resource_name :: string
  ri_requested_at :: datetime

section \<open>Stores\<close>

record store_definition =
  sd_name :: string
  sd_kind :: string
  sd_capacity :: "int option"

definition mk_store_definition :: "store_definition \<Rightarrow> store_definition res" where
  "mk_store_definition d = guards
     [require_non_empty ''store name'' (sd_name d),
      (sd_kind d \<notin> {''fifo'', ''priority'', ''filter''},
        ValueError ''store kind must be one of: fifo, priority, filter''),
      (case sd_capacity d of None \<Rightarrow> False | Some c \<Rightarrow> c < 1, ValueError ''store capacity must be >= 1'')] d"

record 'v durable_store_item =
  si_item_id :: string
  si_store_name :: string
  si_value :: 'v
  si_priority :: int
  si_sequence :: int

definition mk_durable_store_item :: "'v durable_store_item \<Rightarrow> 'v durable_store_item res" where
  "mk_durable_store_item i = guards
     [require_non_empty ''item_id'' (si_item_id i), require_non_empty ''store_name'' (si_store_name i),
      require_sequence ''store item'' (si_sequence i)] i"

record 'v store_put_intent =
  pi_item_id :: string
  pi_store_name :: string
  pi_value :: 'v
  pi_priority :: int
  pi_requested_at :: datetime
  pi_sequence :: int

definition mk_store_put_intent :: "'v store_put_intent \<Rightarrow> 'v store_put_intent res" where
  "mk_store_put_intent i = guards
     [require_non_empty ''item_id'' (pi_item_id i), require_non_empty ''store_name'' (pi_store_name i),
      require_sequence ''store put'' (pi_sequence i)] i"

record store_get_request =
  gq_request_id :: string
  gq_store_name :: string
  gq_requested_at :: datetime
  gq_sequence :: int
  gq_filter_key :: "string option"

definition mk_store_get_request :: "store_get_request \<Rightarrow> store_get_request res" where
  "mk_store_get_request q = guards
     [require_non_empty ''request_id'' (gq_request_id q), require_non_empty ''store_name'' (gq_store_name q),
      require_sequence ''store get'' (gq_sequence q)] q"

record 'v store_get_result =
  gr_request_id :: string
  gr_store_name :: string
  gr_item :: "'v durable_store_item"
  gr_completed_at :: datetime
  gr_sequence :: int

definition mk_store_get_result :: "'v store_get_result \<Rightarrow> 'v store_get_result res" where
  "mk_store_get_result r = guards
     [require_non_empty ''request_id'' (gr_request_id r), require_non_empty ''store_name'' (gr_store_name r),
      (si_store_name (gr_item r) \<noteq> gr_store_name r,
        ValueError ''store get result item belongs to a different store''),
      require_sequence ''store get result'' (gr_sequence r)] r"

section \<open>Preemptive resources\<close>

record preemptive_resource_definition =
  pd_name :: string
  pd_capacity :: int

definition mk_preemptive_resource_definition ::
  "preemptive_resource_definition \<Rightarrow> preemptive_resource_definition res" where
  "mk_preemptive_resource_definition d = guards
     [require_non_empty ''resource name'' (pd_name d),
      (pd_capacity d < 1, ValueError ''resource capacity must be >= 1'')] d"

datatype preemptive_resource_demand = PreemptiveResourceDemand (pq_priority: int) (pq_sequence: int)
  (pq_request_id: string) (pq_resource_name: string) (pq_preempt: bool) (pq_requested_at: int)

fun pq_key :: "preemptive_resource_demand \<Rightarrow> int \<times> int \<times> string \<times> string \<times> bool \<times> int" where
  "pq_key (PreemptiveResourceDemand p s r n b t) = (p, s, r, n, b, t)"

lemma pq_key_inj: "pq_key a = pq_key b \<longleftrightarrow> a = b"
  by (cases a; cases b) auto

instantiation preemptive_resource_demand :: linorder
begin
definition less_eq_preemptive_resource_demand ::
  "preemptive_resource_demand \<Rightarrow> preemptive_resource_demand \<Rightarrow> bool" where
  "less_eq_preemptive_resource_demand a b \<longleftrightarrow> pq_key a \<le> pq_key b"
definition less_preemptive_resource_demand ::
  "preemptive_resource_demand \<Rightarrow> preemptive_resource_demand \<Rightarrow> bool" where
  "less_preemptive_resource_demand a b \<longleftrightarrow> pq_key a < pq_key b"
instance
  by standard (auto simp: less_eq_preemptive_resource_demand_def less_preemptive_resource_demand_def
      pq_key_inj simp flip: pq_key_inj)
end

definition mk_preemptive_resource_demand ::
  "string \<Rightarrow> string \<Rightarrow> int \<Rightarrow> bool \<Rightarrow> datetime \<Rightarrow> int \<Rightarrow> preemptive_resource_demand res" where
  "mk_preemptive_resource_demand request_id resource_name priority preempt requested_at sequence = guards
     [require_non_empty ''request_id'' request_id, require_non_empty ''resource_name'' resource_name,
      require_sequence ''preemptive resource demand'' sequence]
     (PreemptiveResourceDemand priority sequence request_id resource_name preempt requested_at)"

record preemptive_resource_reservation =
  pv_reservation_id :: string
  pv_request_id :: string
  pv_resource_name :: string
  pv_acquired_at :: datetime
  pv_priority :: int
  pv_sequence :: int

definition mk_preemptive_resource_reservation ::
  "preemptive_resource_reservation \<Rightarrow> preemptive_resource_reservation res" where
  "mk_preemptive_resource_reservation r = guards
     [require_non_empty ''reservation_id'' (pv_reservation_id r),
      require_non_empty ''request_id'' (pv_request_id r),
      require_non_empty ''resource_name'' (pv_resource_name r),
      require_sequence ''preemptive resource reservation'' (pv_sequence r)] r"

record preemptive_resource_release_intent =
  px_intent_id :: string
  px_reservation_id :: string
  px_resource_name :: string
  px_requested_at :: datetime

record resource_preemption_result =
  pr_result_id :: string
  pr_resource_name :: string
  pr_displaced_reservation_id :: string
  pr_displaced_request_id :: string
  pr_preempting_request_id :: string
  pr_successor_reservation_id :: string
  pr_preempted_at :: datetime
  pr_sequence :: int

definition mk_resource_preemption_result ::
  "resource_preemption_result \<Rightarrow> resource_preemption_result res" where
  "mk_resource_preemption_result r = guards
     [require_non_empty ''preemption result_id'' (pr_result_id r),
      require_non_empty ''resource_name'' (pr_resource_name r),
      require_non_empty ''displaced_reservation_id'' (pr_displaced_reservation_id r),
      require_non_empty ''displaced_request_id'' (pr_displaced_request_id r),
      require_non_empty ''preempting_request_id'' (pr_preempting_request_id r),
      require_non_empty ''successor_reservation_id'' (pr_successor_reservation_id r),
      require_sequence ''preemption result'' (pr_sequence r)] r"

section \<open>Containers\<close>

record container_definition =
  cd_name :: string
  cd_capacity :: pyfloat
  cd_initial :: pyfloat

definition mk_container_definition :: "container_definition \<Rightarrow> container_definition res" where
  "mk_container_definition d = guards
     [require_non_empty ''container name'' (cd_name d),
      require_positive_finite ''container capacity'' (cd_capacity d),
      (\<not> isfinite (cd_initial d) \<or> float_lt (cd_initial d) (Fin 0) \<or> float_lt (cd_capacity d) (cd_initial d),
        ValueError ''container initial level must be finite and between 0 and capacity'')] d"

record container_state =
  cs_name :: string
  cs_level :: pyfloat

definition mk_container_state :: "container_state \<Rightarrow> container_state res" where
  "mk_container_state s = guards
     [require_non_empty ''container name'' (cs_name s),
      (\<not> isfinite (cs_level s) \<or> float_lt (cs_level s) (Fin 0),
        ValueError ''container level must be finite and >= 0'')] s"

record container_operation_intent =
  ci_request_id :: string
  ci_container_name :: string
  ci_operation :: string
  ci_amount :: pyfloat
  ci_requested_at :: datetime
  ci_sequence :: int

definition mk_container_operation_intent ::
  "container_operation_intent \<Rightarrow> container_operation_intent res" where
  "mk_container_operation_intent i = guards
     [require_non_empty ''request_id'' (ci_request_id i),
      require_non_empty ''container_name'' (ci_container_name i),
      (ci_operation i \<notin> {''put'', ''get''}, ValueError ''container operation must be put or get''),
      require_positive_finite ''container amount'' (ci_amount i),
      require_sequence ''container operation'' (ci_sequence i)] i"

record container_operation_result =
  cr_request_id :: string
  cr_container_name :: string
  cr_operation :: string
  cr_amount :: pyfloat
  cr_completed_at :: datetime
  cr_level_before :: pyfloat
  cr_level_after :: pyfloat
  cr_sequence :: int

definition mk_container_operation_result ::
  "container_operation_result \<Rightarrow> container_operation_result res" where
  "mk_container_operation_result r = guards
     [require_non_empty ''request_id'' (cr_request_id r),
      require_non_empty ''container_name'' (cr_container_name r),
      (cr_operation r \<notin> {''put'', ''get''}, ValueError ''container operation must be put or get''),
      require_positive_finite ''container amount'' (cr_amount r),
      require_container_level (cr_level_before r), require_container_level (cr_level_after r),
      require_sequence ''container result'' (cr_sequence r)] r"

lemmas record_defs [record_checks] =
  mk_scheduled_work_def mk_simulation_position_def mk_resource_definition_def mk_resource_demand_def
  mk_store_definition_def mk_durable_store_item_def mk_store_put_intent_def mk_store_get_request_def
  mk_store_get_result_def mk_preemptive_resource_definition_def mk_preemptive_resource_demand_def
  mk_preemptive_resource_reservation_def mk_resource_preemption_result_def mk_container_definition_def
  mk_container_state_def mk_container_operation_intent_def mk_container_operation_result_def

end
