(* ===== verification/Durable_Models.thy ===== *)
theory Durable_Models
  imports Runtime_Records
begin

text \<open>
  The records the other packages keep in the durable state: \<open>scenarios/model.py\<close>,
  \<open>jobs/model.py\<close>, \<open>sinks/model.py\<close>, \<open>domain/warehouse.py\<close> and
  \<open>domain/delivery.py\<close>, \<open>composition/model.py\<close>, \<open>composition/effects.py\<close> and
  \<open>composition/bindings.py\<close>, with their constructor checks.
\<close>

section \<open>Scenarios\<close>

datatype scenario_signal_kind = TICK | EVENT

record 'v scenario_signal =
  sg_kind :: scenario_signal_kind
  sg_now :: datetime
  sg_tick :: int
  sg_event :: "'v domain_event option"

datatype trigger_key = TickKey int | EventKey string | ScheduledKey datetime

datatype scenario_trigger =
    TickTrigger (every: int) (offset: int)
  | EventTrigger (tg_event: "string option") (tg_entity_type: "string option")
  | ScheduledTrigger (tg_at: datetime)

definition mk_tick_trigger :: "int \<Rightarrow> int \<Rightarrow> scenario_trigger res" where
  "mk_tick_trigger ev off = guards
     [(ev < 1, ValueError ''tick trigger every must be >= 1''),
      (off < 0, ValueError ''tick trigger offset cannot be negative'')] (TickTrigger ev off)"

fun trigger_matches :: "scenario_trigger \<Rightarrow> 'v scenario_signal \<Rightarrow> bool" where
  "trigger_matches (TickTrigger ev off) s =
     (sg_kind s = TICK \<and> off \<le> sg_tick s \<and> (sg_tick s - off) mod ev = 0)"
| "trigger_matches (EventTrigger n t) s =
     (case sg_event s of
        None \<Rightarrow> False
      | Some e \<Rightarrow> sg_kind s = EVENT \<and> (case n of None \<Rightarrow> True | Some x \<Rightarrow> ev_name e = x)
          \<and> (case t of None \<Rightarrow> True | Some x \<Rightarrow> ev_entity_type e = x))"
| "trigger_matches (ScheduledTrigger t) s = (sg_kind s = TICK \<and> t \<le> sg_now s)"

fun trigger_key_of :: "scenario_trigger \<Rightarrow> 'v scenario_signal \<Rightarrow> trigger_key res" where
  "trigger_key_of (TickTrigger _ _) s = Inr (TickKey (sg_tick s))"
| "trigger_key_of (EventTrigger _ _) s =
     (case sg_event s of None \<Rightarrow> Inl (ValueError ''event trigger requires an event signal'')
      | Some e \<Rightarrow> Inr (EventKey (ev_event_id e)))"
| "trigger_key_of (ScheduledTrigger t) s = Inr (ScheduledKey t)"

datatype 'v scenario_effect =
    AttributeEffect string 'v
  | TransitionWeightEffect string pyfloat "string option"
  | CompositeEffect "'v scenario_effect list"

definition mk_attribute_effect :: "string \<Rightarrow> 'v \<Rightarrow> 'v scenario_effect res" where
  "mk_attribute_effect key v = guards
     [(key = [], ValueError ''attribute effect key cannot be empty'')] (AttributeEffect key v)"

definition mk_transition_weight_effect :: "string \<Rightarrow> pyfloat \<Rightarrow> string option \<Rightarrow> 'v scenario_effect res" where
  "mk_transition_weight_effect event multiplier entity_type = guards
     [(event = [], ValueError ''transition weight effect event cannot be empty''),
      (\<not> isfinite multiplier \<or> float_lt multiplier (Fin 0),
        ValueError ''transition weight multiplier must be finite and >= 0''),
      (entity_type = Some [], ValueError ''entity_type cannot be empty'')]
     (TransitionWeightEffect event multiplier entity_type)"

definition mk_composite_effect :: "'v scenario_effect list \<Rightarrow> 'v scenario_effect res" where
  "mk_composite_effect effects = guards
     [(effects = [], ValueError ''composite effect cannot be empty'')] (CompositeEffect effects)"

fun iter_leaf_effects :: "'v scenario_effect list \<Rightarrow> 'v scenario_effect list" where
  "iter_leaf_effects [] = []"
| "iter_leaf_effects (CompositeEffect es # rest) = iter_leaf_effects es @ iter_leaf_effects rest"
| "iter_leaf_effects (e # rest) = e # iter_leaf_effects rest"

record scenario_decision =
  sx_attempt_id :: string
  sx_scenario_name :: string
  sx_activated :: bool
  sx_probability :: pyfloat
  sx_draw :: "pyfloat option"
  sx_reason :: string
  sx_activation_id :: "string option"

record 'v scenario_activation =
  sa_activation_id :: string
  sa_scenario_name :: string
  sa_activated_at :: datetime
  sa_expires_at :: "datetime option"
  sa_priority :: int
  sa_effects :: "'v scenario_effect list"
  sa_trigger_key :: trigger_key
  sa_causation_id :: "string option"
  sa_correlation_id :: "string option"

record 'v scenario_runtime_state =
  ss_decisions :: "scenario_decision list"
  ss_activations :: "'v scenario_activation list"

section \<open>Jobs\<close>

record completed_job_trigger =
  ct_trigger_id :: string
  ct_requested_ticks :: int
  ct_start_tick :: int
  ct_end_tick :: int
  ct_config_revision :: int
  ct_logical_time :: datetime
  ct_run_count :: int

definition mk_completed_job_trigger :: "completed_job_trigger \<Rightarrow> completed_job_trigger res" where
  "mk_completed_job_trigger t = guards
     [require_non_empty ''trigger_id'' (ct_trigger_id t),
      (ct_requested_ticks t < 1, ValueError ''requested_ticks must be >= 1''),
      (ct_start_tick t < 0 \<or> ct_end_tick t < ct_start_tick t,
        ValueError ''invalid completed trigger tick range'')] t"

record 'v simulation_job_state =
  js_job_id :: string
  js_domain_name :: string
  js_config_json :: string
  js_config_revision :: int
  js_status :: string
  js_initialized :: bool
  js_logical_time :: datetime
  js_next_tick :: int
  js_run_count :: int
  js_bootstrap_state :: "'v option"
  js_last_triggered_at :: "datetime option"
  js_active_trigger_id :: "string option"
  js_last_completed_trigger_id :: "string option"
  js_active_batch_trigger_id :: "string option"
  js_active_batch_total_ticks :: int
  js_active_batch_completed_ticks :: int
  js_last_completed_batch_trigger_id :: "string option"
  js_last_completed_batch_ticks :: int
  js_completed_batch_triggers :: "completed_job_trigger list"
  js_phase :: string
  js_last_error :: "string option"
  js_active_effect_ids :: "string list"
  js_active_boundary_message_ids :: "string list"
  js_active_publication_message_ids :: "string list"

definition require_non_negative :: "string \<Rightarrow> int \<Rightarrow> bool \<times> pyerror" where
  "require_non_negative label n = (n < 0, ValueError (label @ '' must be >= 0''))"

definition unique_nonempty :: "string list \<Rightarrow> bool" where
  "unique_nonempty ids \<longleftrightarrow> [] \<notin> set ids \<and> distinct ids"

definition mk_simulation_job_state :: "'v simulation_job_state \<Rightarrow> 'v simulation_job_state res" where
  "mk_simulation_job_state s = guards
     [require_non_empty ''job_id'' (js_job_id s),
      require_non_empty ''domain_name'' (js_domain_name s),
      (js_config_revision s < 1, ValueError ''config_revision must be >= 1''),
      require_non_negative ''next_tick'' (js_next_tick s),
      require_non_negative ''run_count'' (js_run_count s),
      require_non_negative ''active_batch_total_ticks'' (js_active_batch_total_ticks s),
      require_non_negative ''active_batch_completed_ticks'' (js_active_batch_completed_ticks s),
      (js_active_batch_completed_ticks s > js_active_batch_total_ticks s,
        ValueError ''active_batch_completed_ticks cannot exceed active_batch_total_ticks''),
      require_non_negative ''last_completed_batch_ticks'' (js_last_completed_batch_ticks s),
      (\<not> unique_nonempty (js_active_effect_ids s),
        ValueError ''active recovery effects require unique nonempty identities''),
      (\<not> unique_nonempty (js_active_boundary_message_ids s),
        ValueError ''active recovery boundary messages require unique nonempty identities''),
      (\<not> unique_nonempty (js_active_publication_message_ids s),
        ValueError ''active recovery publications require unique nonempty identities''),
      (js_status s \<notin> {''ready'', ''running'', ''paused'', ''failed''},
        ValueError (''unsupported job status: '' @ js_status s)),
      (js_phase s \<notin> {''idle'', ''advance'', ''reconcile''},
        ValueError (''unsupported job phase: '' @ js_phase s))] s"

section \<open>Analytical sinks\<close>

record 'v analytical_batch =
  ab_batch_id :: string
  ab_job_id :: string
  ab_domain_name :: string
  ab_config_revision :: int
  ab_logical_tick :: int
  ab_logical_time :: datetime
  ab_from_event_offset :: int
  ab_to_event_offset :: int
  ab_events :: "'v domain_event list"

definition mk_analytical_batch :: "'v analytical_batch \<Rightarrow> 'v analytical_batch res" where
  "mk_analytical_batch b = guards
     [(ab_batch_id b = [] \<or> ab_job_id b = [] \<or> ab_domain_name b = [],
        ValueError ''analytical batch identity cannot be empty''),
      (ab_from_event_offset b < 0, ValueError ''from_event_offset must be >= 0''),
      (ab_to_event_offset b < ab_from_event_offset b, ValueError ''invalid analytical batch event range''),
      (int (length (ab_events b)) \<noteq> ab_to_event_offset b - ab_from_event_offset b,
        ValueError ''analytical batch range does not match event count'')] b"

record sink_checkpoint =
  sc_job_id :: string
  sc_sink_name :: string
  sc_event_offset :: int
  sc_last_delivery_id :: "string option"

definition mk_sink_checkpoint :: "sink_checkpoint \<Rightarrow> sink_checkpoint res" where
  "mk_sink_checkpoint c = guards
     [(sc_job_id c = [] \<or> sc_sink_name c = [], ValueError ''sink checkpoint identity cannot be empty''),
      (sc_event_offset c < 0, ValueError ''sink checkpoint event_offset must be >= 0'')] c"

record 'v sink_delivery =
  sl_delivery_id :: string
  sl_sink_name :: string
  sl_batch :: "'v analytical_batch"
  sl_status :: string
  sl_attempts :: int
  sl_last_error :: "string option"
  sl_delivered_at :: "datetime option"

definition mk_sink_delivery :: "'v sink_delivery \<Rightarrow> 'v sink_delivery res" where
  "mk_sink_delivery d = guards
     [(sl_delivery_id d = [] \<or> sl_sink_name d = [], ValueError ''sink delivery identity cannot be empty''),
      (sl_status d \<notin> {''pending'', ''delivered''},
        ValueError (''unsupported sink delivery status: '' @ sl_status d)),
      (sl_attempts d < 0, ValueError ''sink delivery attempts must be >= 0'')] d"

section \<open>Domain mutations\<close>

record 'v domain_mutation =
  mu_mutation_id :: string
  mu_entity :: "'v entity"

definition mk_domain_mutation :: "'v domain_mutation \<Rightarrow> 'v domain_mutation res" where
  "mk_domain_mutation m = guards [require_non_empty ''mutation_id'' (mu_mutation_id m)] m"

record 'v domain_delivery =
  dd_mutation :: "'v domain_mutation"
  dd_attempts :: int
  dd_last_error :: "string option"

abbreviation dd_mutation_id :: "'v domain_delivery \<Rightarrow> string" where
  "dd_mutation_id d \<equiv> mu_mutation_id (dd_mutation d)"

definition mk_domain_delivery :: "'v domain_delivery \<Rightarrow> 'v domain_delivery res" where
  "mk_domain_delivery d = guards
     [(dd_attempts d < 0, ValueError ''domain delivery attempts must be >= 0'')] d"

section \<open>Boundary messages, deliveries and receipts\<close>

datatype delivery_status = PENDING | CLAIMED | CONSUMED

record boundary_message =
  bm_message_id :: string
  bm_contract_name :: string
  bm_contract_version :: int
  bm_source_domain :: string
  bm_source_identity :: string
  bm_destination_domain :: string
  bm_occurrence_key :: string
  bm_correlation_id :: string
  bm_causation_id :: "string option"
  bm_produced_at :: datetime
  bm_payload_json :: string
  bm_payload_hash :: string
  bm_causation_kind :: "string option"

record boundary_delivery =
  bd_delivery_id :: string
  bd_message_id :: string
  bd_destination_domain :: string
  bd_contract_name :: string
  bd_contract_version :: int
  bd_status :: delivery_status
  bd_attempts :: int
  bd_claim_owner_id :: "string option"
  bd_claim_epoch :: int
  bd_claimed_at :: "datetime option"
  bd_lease_expires_at :: "datetime option"
  bd_consumed_at :: "datetime option"
  bd_consumer_effect_id :: "string option"
  bd_last_error :: "string option"

text \<open>\<open>not x\<close> on an optional string.\<close>

definition none_or_empty :: "string option \<Rightarrow> bool" where
  "none_or_empty x \<longleftrightarrow> x = None \<or> x = Some []"

definition mk_boundary_delivery :: "boundary_delivery \<Rightarrow> boundary_delivery res" where
  "mk_boundary_delivery d = bind_res (guards
     [(bd_delivery_id d = [] \<or> bd_message_id d = [], ValueError ''boundary delivery identity cannot be empty''),
      (bd_destination_domain d = [] \<or> bd_contract_name d = [],
        ValueError ''boundary delivery contract cannot be empty''),
      (bd_contract_version d \<le> 0, ValueError ''contract_version must be positive''),
      (bd_attempts d < 0 \<or> bd_claim_epoch d < 0, ValueError ''delivery counters must be non-negative'')] ())
     (\<lambda>_. case bd_status d of
        PENDING \<Rightarrow> guards
          [(bd_claim_owner_id d \<noteq> None \<or> bd_claimed_at d \<noteq> None \<or> bd_lease_expires_at d \<noteq> None \<or>
            bd_consumed_at d \<noteq> None \<or> bd_consumer_effect_id d \<noteq> None,
            ValueError ''pending delivery cannot carry claim/consumption state'')] d
      | CLAIMED \<Rightarrow> guards
          [(none_or_empty (bd_claim_owner_id d) \<or> bd_claimed_at d = None \<or> bd_lease_expires_at d = None,
            ValueError ''claimed delivery requires owner and lease''),
           (bd_claim_epoch d \<le> 0, ValueError ''claimed delivery requires positive fencing epoch''),
           (bd_consumed_at d \<noteq> None \<or> bd_consumer_effect_id d \<noteq> None,
            ValueError ''claimed delivery cannot be consumed'')] d
      | CONSUMED \<Rightarrow> guards
          [(bd_consumed_at d = None \<or> none_or_empty (bd_consumer_effect_id d),
            ValueError ''consumed delivery requires effect and timestamp'')] d)"

record boundary_lease =
  bl_delivery_id :: string
  bl_message_id :: string
  bl_owner_id :: string
  bl_epoch :: int
  bl_lease_expires_at :: datetime

definition mk_boundary_lease :: "boundary_lease \<Rightarrow> boundary_lease res" where
  "mk_boundary_lease l = guards
     [(bl_delivery_id l = [] \<or> bl_message_id l = [] \<or> bl_owner_id l = [],
        ValueError ''boundary lease identity cannot be empty''),
      (bl_epoch l \<le> 0, ValueError ''boundary lease epoch must be positive'')] l"

record boundary_consumption =
  bc_consumption_id :: string
  bc_delivery_id :: string
  bc_message_id :: string
  bc_destination_domain :: string
  bc_contract_name :: string
  bc_contract_version :: int
  bc_consumer_effect_id :: string
  bc_consumed_at :: datetime

definition mk_boundary_consumption :: "boundary_consumption \<Rightarrow> boundary_consumption res" where
  "mk_boundary_consumption c = guards
     [(bc_consumption_id c = [] \<or> bc_delivery_id c = [] \<or> bc_message_id c = [],
        ValueError ''boundary consumption identity cannot be empty''),
      require_non_empty ''consumer_effect_id'' (bc_consumer_effect_id c)] c"

section \<open>Business effects and settlement bindings\<close>

record business_effect_applied =
  be_receipt_id :: string
  be_effect_id :: string
  be_boundary_message_id :: string
  be_correlation_id :: string
  be_entity_type :: string
  be_entity_id :: string
  be_terminal_state :: string
  be_entity_version :: int
  be_completed_at :: datetime

definition mk_business_effect_applied :: "business_effect_applied \<Rightarrow> business_effect_applied res" where
  "mk_business_effect_applied e = guards
     [([] \<in> {be_receipt_id e, be_effect_id e, be_boundary_message_id e, be_correlation_id e,
             be_entity_type e, be_entity_id e, be_terminal_state e},
        ValueError ''business-effect certificate requires all identities''),
      (be_entity_version e < 0, ValueError ''business-effect certificate version must be non-negative'')] e"

record customer_settlement_binding =
  sb_binding_id :: string
  sb_order_id :: string
  sb_payment_id :: string
  sb_journal_id :: string
  sb_amount :: pyfloat
  sb_currency :: string
  sb_correlation_id :: string

end
