(* ===== verification/Clock_Scheduler.thy ===== *)
theory Clock_Scheduler
  imports Heap_Queue Durable_Models
begin

text \<open>
  \<open>core/clock.py\<close>, the logical clock, and \<open>core/scheduler.py\<close>, the in-memory scheduler: a heap of
  commands ordered by due time, priority and order of arrival.
\<close>

section \<open>The clock\<close>

record simulation_clock =
  ck_now :: datetime
  ck_step :: timedelta
  ck_tick :: int

text \<open>The tick counter moves before the time, so it has moved also when the addition overflows.\<close>

definition advance :: "int \<Rightarrow> (simulation_clock, datetime) meth" where
  "advance steps c =
     (if steps < 1 then (Inl (ValueError ''steps must be >= 1''), c)
      else let c = c\<lparr>ck_tick := ck_tick c + steps\<rparr>
           in case bind_res (td_mul (ck_step c) steps) (dt_add (ck_now c)) of
                Inl e \<Rightarrow> (Inl e, c)
              | Inr t \<Rightarrow> (Inr t, c\<lparr>ck_now := t\<rparr>))"

text \<open>Advancing by \<open>m\<close> and then by \<open>n\<close> steps is advancing by \<open>m + n\<close>.\<close>

lemma advance_moves:
  "advance n c = (Inr t, c') \<Longrightarrow>
     1 \<le> n \<and> ck_now c' = t \<and> t = ck_now c + ck_step c * n \<and> ck_tick c' = ck_tick c + n \<and> ck_step c' = ck_step c"
  by (auto simp: advance_def Let_def dt_add_Inr_iff td_mul_Inr_iff bind_res_eq_Inr_iff split: if_splits sum.splits)

lemma advance_ok:
  "1 \<le> n \<Longrightarrow> timedelta_min \<le> ck_step c * n \<Longrightarrow> ck_step c * n \<le> timedelta_max \<Longrightarrow>
     0 \<le> ck_now c + ck_step c * n \<Longrightarrow> ck_now c + ck_step c * n \<le> datetime_max \<Longrightarrow>
     advance n c = (Inr (ck_now c + ck_step c * n), c\<lparr>ck_tick := ck_tick c + n, ck_now := ck_now c + ck_step c * n\<rparr>)"
  by (simp add: advance_def Let_def dt_add_def td_mul_def)

lemma advance_compose:
  assumes "advance m c = (Inr t, c')" and "advance n c' = (Inr u, d)"
    and "timedelta_min \<le> ck_step c * (m + n)" and "ck_step c * (m + n) \<le> timedelta_max"
  shows "advance (m + n) c = (Inr u, d)"
proof -
  have c': "c' = c\<lparr>ck_tick := ck_tick c + m, ck_now := ck_now c + ck_step c * m\<rparr>" "1 \<le> m"
    using assms(1) by (auto simp: advance_def Let_def dt_add_Inr_iff td_mul_Inr_iff bind_res_eq_Inr_iff split: if_splits sum.splits)
  have d: "d = c'\<lparr>ck_tick := ck_tick c' + n, ck_now := ck_now c' + ck_step c' * n\<rparr>" "1 \<le> n" "u = ck_now c' + ck_step c' * n"
    "0 \<le> u" "u \<le> datetime_max"
    using assms(2) by (auto simp: advance_def Let_def dt_add_Inr_iff td_mul_Inr_iff bind_res_eq_Inr_iff split: if_splits sum.splits)
  have "ck_now c + ck_step c * (m + n) = u" using c' d(3) by (simp add: algebra_simps)
  with advance_ok [of "m + n" c] c' d assms(3,4) show ?thesis by (simp add: algebra_simps)
qed

section \<open>The in-memory scheduler\<close>

record 'v scheduled =
  qd_due_at :: datetime
  qd_priority :: int
  qd_sequence :: int
  qd_command :: "'v command"

text \<open>The order of the dataclass; the command takes no part in it.\<close>

definition qd_key :: "'v scheduled \<Rightarrow> datetime \<times> int \<times> int" where
  "qd_key s = (qd_due_at s, qd_priority s, qd_sequence s)"

record 'v heap_scheduler =
  hs_heap :: "'v scheduled list"
  hs_sequence :: int

definition new_heap_scheduler :: "'v heap_scheduler" where
  "new_heap_scheduler = \<lparr>hs_heap = [], hs_sequence = 0\<rparr>"

definition heap_schedule :: "'v command \<Rightarrow> int \<Rightarrow> 'v heap_scheduler \<Rightarrow> 'v heap_scheduler" where
  "heap_schedule command priority s =
     (let s = s\<lparr>hs_sequence := hs_sequence s + 1\<rparr>
      in s\<lparr>hs_heap := heappush qd_key (hs_heap s)
             \<lparr>qd_due_at = cm_due_at command, qd_priority = priority, qd_sequence = hs_sequence s, qd_command = command\<rparr>\<rparr>)"

text \<open>
  The loop of \<open>due\<close>: as long as the first entry is due, pop it. \<open>None\<close> is a loop that does not end
  (or a pop from an empty heap, which the guard excludes).
\<close>

partial_function (option) due_loop ::
  "datetime \<Rightarrow> 'v scheduled list \<Rightarrow> 'v command list \<Rightarrow> ('v command list \<times> 'v scheduled list) option" where
  "due_loop t heap ready =
     (if heap \<noteq> [] \<and> qd_due_at (heap ! 0) \<le> t
      then (case heappop qd_key heap of
          None \<Rightarrow> None
        | Some p \<Rightarrow> due_loop t (snd p) (ready @ [qd_command (fst p)]))
      else Some (ready, heap))"

definition heap_due :: "datetime \<Rightarrow> 'v heap_scheduler \<Rightarrow> ('v command list \<times> 'v heap_scheduler) option" where
  "heap_due t s = (case due_loop t (hs_heap s) [] of
     None \<Rightarrow> None | Some (ready, heap) \<Rightarrow> Some (ready, s\<lparr>hs_heap := heap\<rparr>))"

definition heap_len :: "'v heap_scheduler \<Rightarrow> nat" where
  "heap_len s = length (hs_heap s)"

section \<open>The invariant\<close>

definition heap_scheduler_inv :: "'v heap_scheduler \<Rightarrow> bool" where
  "heap_scheduler_inv s \<longleftrightarrow> heap_ordered qd_key (hs_heap s) \<and> distinct (map qd_sequence (hs_heap s)) \<and>
     (\<forall>x \<in> set (hs_heap s). qd_sequence x \<le> hs_sequence s)"

lemma heap_schedule_inv:
  assumes "heap_scheduler_inv s"
  shows "heap_scheduler_inv (heap_schedule c prio s)"
proof -
  let ?x = "\<lparr>qd_due_at = cm_due_at c, qd_priority = prio, qd_sequence = hs_sequence s + 1, qd_command = c\<rparr>"
  let ?h = "heappush qd_key (hs_heap s) ?x"
  have m: "mset ?h = add_mset ?x (mset (hs_heap s))" by (rule heapq.push_contents)
  then have "mset (map qd_sequence ?h) = mset (map qd_sequence (?x # hs_heap s))" by simp
  moreover have "distinct (map qd_sequence (?x # hs_heap s))" using assms by (force simp: heap_scheduler_inv_def)
  ultimately have "distinct (map qd_sequence ?h)" by (metis mset_eq_imp_distinct_iff)
  moreover have "set ?h = insert ?x (set (hs_heap s))" using m by (metis set_mset_mset set_mset_add_mset_insert)
  moreover have "heap_ordered qd_key ?h" using assms by (simp add: heap_scheduler_inv_def heapq.push_inv)
  ultimately show ?thesis using assms by (force simp: heap_scheduler_inv_def heap_schedule_def)
qed

text \<open>The loop pops some first \<open>n\<close> entries, all due, and stops at the first that is not.\<close>

lemma due_loop_pops:
  "\<exists>n xs h'. pops (heappop qd_key) n h = (xs, h') \<and> due_loop t h ready = Some (ready @ map qd_command xs, h') \<and>
     (\<forall>x \<in> set xs. qd_due_at x \<le> t) \<and> (h' = [] \<or> t < qd_due_at (h' ! 0))"
proof (induction "length h" arbitrary: h ready rule: less_induct)
  case less
  show ?case
  proof (cases "h \<noteq> [] \<and> qd_due_at (h ! 0) \<le> t")
    case False
    then show ?thesis
      by (intro exI [of _ 0] exI [of _ "[]"] exI [of _ h]) (auto simp: due_loop.simps [of t h])
  next
    case True
    then obtain x g where pop: "heappop qd_key h = Some (x, g)" using heappop_nonempty by blast
    from less [of g "ready @ [qd_command x]"] heappop_length [OF pop] obtain n xs h' where
      IH: "pops (heappop qd_key) n g = (xs, h')" "due_loop t g (ready @ [qd_command x]) = Some (ready @ [qd_command x] @ map qd_command xs, h')"
      "\<forall>x \<in> set xs. qd_due_at x \<le> t" "h' = [] \<or> t < qd_due_at (h' ! 0)" by auto
    then show ?thesis using True pop heappop_root [OF pop]
      by (intro exI [of _ "Suc n"] exI [of _ "x # xs"] exI [of _ h']) (simp add: due_loop.simps [of t h])
  qed
qed

lemma qd_key_due: "qd_key x \<le> qd_key y \<Longrightarrow> qd_due_at x \<le> qd_due_at y"
  by (auto simp: qd_key_def less_eq_prod_def)

lemma sort_key_unique:
  assumes "inj_on f (set xs)" and "distinct xs" and "mset ys = mset xs" and "sorted (map f ys)"
  shows "sort_key f xs = ys"
proof (rule map_sorted_distinct_set_unique [of f])
  have s: "set ys = set xs" using assms(3) by (metis set_mset_mset)
  with assms(1) show "inj_on f (set (sort_key f xs) \<union> set ys)" by simp
  have "distinct ys" using assms(2,3) mset_eq_imp_distinct_iff by metis
  then show "distinct (map f ys)" using s assms(1) by (simp add: distinct_map)
  show "distinct (map f (sort_key f xs))" using assms(1,2) by (simp add: distinct_map)
  show "set (sort_key f xs) = set ys" using s by simp
qed (use assms(4) in simp_all)

lemma pops_length: "pops (heappop key) n h = (xs, h') \<Longrightarrow> length h = length xs + length h'"
  by (induction n arbitrary: h xs) (auto split: option.splits prod.splits dest: heappop_length)

text \<open>What the loop takes out, and what it leaves.\<close>

lemma due_loop_result:
  assumes inv: "heap_scheduler_inv s"
  shows "\<exists>h'. due_loop t (hs_heap s) [] =
      Some (map qd_command (sort_key qd_key (filter (\<lambda>x. qd_due_at x \<le> t) (hs_heap s))), h') \<and>
    heap_ordered qd_key h' \<and> mset h' = mset (filter (\<lambda>x. t < qd_due_at x) (hs_heap s))"
proof -
  let ?h = "hs_heap s"
  from inv have ord: "heap_ordered qd_key ?h" and dist: "distinct (map qd_sequence ?h)"
    by (simp_all add: heap_scheduler_inv_def)
  obtain n xs h' where pops: "pops (heappop qd_key) n ?h = (xs, h')" and run: "due_loop t ?h [] = Some (map qd_command xs, h')"
    and due: "\<forall>x \<in> set xs. qd_due_at x \<le> t" and stop: "h' = [] \<or> t < qd_due_at (h' ! 0)"
    using due_loop_pops [of ?h t "[]"] by auto
  have parts: "heap_ordered qd_key h'" "mset ?h = mset xs + mset h'" "sorted (map qd_key xs)"
    using heapq.pops_sorted [OF ord pops] by simp_all
  have late: "t < qd_due_at y" if y: "y \<in> set h'" for y
  proof -
    obtain i where "i < length h'" "h' ! i = y" using y by (auto simp: in_set_conv_nth)
    with qd_key_due [OF heap_root_least [OF parts(1)]] stop y show ?thesis by fastforce
  qed
  have "filter (\<lambda>x. qd_due_at x \<le> t) xs = xs" "filter (\<lambda>x. qd_due_at x \<le> t) h' = []"
    "filter (\<lambda>x. t < qd_due_at x) xs = []" "filter (\<lambda>x. t < qd_due_at x) h' = h'"
    using due late by (auto simp: filter_id_conv filter_empty_conv not_le not_less)
  then have "mset (filter (\<lambda>x. qd_due_at x \<le> t) (xs @ h')) = mset xs" "mset (filter (\<lambda>x. t < qd_due_at x) (xs @ h')) = mset h'"
    by simp_all
  then have xs: "mset xs = mset (filter (\<lambda>x. qd_due_at x \<le> t) ?h)" and h': "mset h' = mset (filter (\<lambda>x. t < qd_due_at x) ?h)"
    using parts(2) by (simp_all add: mset_filter)
  have "inj_on qd_key (set ?h)"
    by (rule inj_onI) (use dist in \<open>auto simp: qd_key_def distinct_map dest: inj_onD\<close>)
  then have "sort_key qd_key (filter (\<lambda>x. qd_due_at x \<le> t) ?h) = xs"
    using dist xs parts(3) by (intro sort_key_unique) (auto simp: distinct_map intro: inj_on_subset)
  with run parts(1) h' show ?thesis by blast
qed

lemma due_keeps_inv:
  assumes "heap_scheduler_inv s" and "heap_due t s = Some (ready, s')"
  shows "heap_scheduler_inv s'"
proof -
  obtain h' where h': "s' = s\<lparr>hs_heap := h'\<rparr>" "heap_ordered qd_key h'" "mset h' = mset (filter (\<lambda>x. t < qd_due_at x) (hs_heap s))"
    using due_loop_result [OF assms(1), of t] assms(2) by (auto simp: heap_due_def)
  have "distinct (map qd_sequence (filter (\<lambda>x. t < qd_due_at x) (hs_heap s)))"
    using assms(1) by (auto simp: heap_scheduler_inv_def distinct_map inj_on_def)
  then have "distinct (map qd_sequence h')" using h'(3) by (metis mset_eq_imp_distinct_iff mset_map)
  moreover have "set h' \<subseteq> set (hs_heap s)" using h'(3) by (metis filter_is_subset set_mset_mset)
  ultimately show ?thesis using h'(1,2) assms(1) by (auto simp: heap_scheduler_inv_def)
qed

inductive heap_step :: "'v heap_scheduler \<Rightarrow> 'v heap_scheduler \<Rightarrow> bool" where
  hstep_schedule: "heap_step s (heap_schedule c prio s)"
| hstep_due: "heap_due t s = Some (ready, s') \<Longrightarrow> heap_step s s'"

inductive_cases heap_stepE: "heap_step s s'"

lemma reachable_heap_inv: "heap_step\<^sup>*\<^sup>* new_heap_scheduler s \<Longrightarrow> heap_scheduler_inv s"
proof (induction rule: rtranclp_induct)
  case base
  show ?case by (simp add: heap_scheduler_inv_def new_heap_scheduler_def heap_ordered_def)
next
  case (step s s')
  then show ?case by (auto elim!: heap_stepE intro: heap_schedule_inv due_keeps_inv)
qed

section \<open>Properties\<close>

text \<open>
  C39. The loop of due ends whatever the heap holds, also on a list that is no heap, and on every scheduler
  that scheduling and draining can produce it returns exactly the commands due by then, in the order of
  due time, priority and arrival, and keeps exactly the others.
\<close>

theorem heap_due_ends_in_order:
  assumes "heap_step\<^sup>*\<^sup>* new_heap_scheduler s"
  shows "(\<forall>u :: 'v heap_scheduler. \<exists>ready u'. heap_due t u = Some (ready, u') \<and> heap_len u = length ready + heap_len u') \<and>
    (\<exists>s' :: 'v heap_scheduler.
       heap_due t s = Some (map qd_command (sort_key qd_key (filter (\<lambda>x. qd_due_at x \<le> t) (hs_heap s))), s') \<and>
       mset (hs_heap s') = filter_mset (\<lambda>x. t < qd_due_at x) (mset (hs_heap s)) \<and> hs_sequence s' = hs_sequence s)"
proof
  show "\<forall>u :: 'v heap_scheduler. \<exists>ready u'. heap_due t u = Some (ready, u') \<and> heap_len u = length ready + heap_len u'"
  proof
    fix u :: "'v heap_scheduler"
    obtain n xs h' where pops: "pops (heappop qd_key) n (hs_heap u) = (xs, h')"
      and run: "due_loop t (hs_heap u) [] = Some (map qd_command xs, h')"
      using due_loop_pops [of "hs_heap u" t "[]"] by auto
    from pops_length [OF pops] run show "\<exists>ready u'. heap_due t u = Some (ready, u') \<and> heap_len u = length ready + heap_len u'"
      by (auto simp: heap_due_def heap_len_def)
  qed
  show "\<exists>s' :: 'v heap_scheduler.
       heap_due t s = Some (map qd_command (sort_key qd_key (filter (\<lambda>x. qd_due_at x \<le> t) (hs_heap s))), s') \<and>
       mset (hs_heap s') = filter_mset (\<lambda>x. t < qd_due_at x) (mset (hs_heap s)) \<and> hs_sequence s' = hs_sequence s"
    using due_loop_result [OF reachable_heap_inv [OF assms], of t] by (auto simp: heap_due_def)
qed

definition wake :: "string \<Rightarrow> datetime \<Rightarrow> nat command" where
  "wake k t = \<lparr>cm_command_id = k, cm_name = ''wake'', cm_entity_type = ''host'', cm_entity_id = ''h'', cm_due_at = t,
     cm_issued_at = None, cm_tick = None, cm_payload = Mapping.empty, cm_causation_id = None, cm_correlation_id = None,
     cm_owner_id = None\<rparr>"

lemma wake_due [simp]: "cm_due_at (wake k t) = t"
  by (simp add: wake_def)

text \<open>Three commands, pushed out of order.\<close>

definition busy_scheduler :: "nat heap_scheduler" where
  "busy_scheduler = heap_schedule (wake ''first'' 2) 100 (heap_schedule (wake ''late'' 9) 100
     (heap_schedule (wake ''second'' 5) 10 new_heap_scheduler))"

lemma busy_heap:
  "hs_heap busy_scheduler =
      [\<lparr>qd_due_at = 2, qd_priority = 100, qd_sequence = 3, qd_command = wake ''first'' 2\<rparr>,
       \<lparr>qd_due_at = 9, qd_priority = 100, qd_sequence = 2, qd_command = wake ''late'' 9\<rparr>,
       \<lparr>qd_due_at = 5, qd_priority = 10, qd_sequence = 1, qd_command = wake ''second'' 5\<rparr>]"
  by (simp add: busy_scheduler_def heap_schedule_def new_heap_scheduler_def heappush_def siftdown.simps [of _ 0 0]
      siftdown.simps [of _ 0 "Suc 0"] siftdown.simps [of _ 0 "Suc (Suc 0)"] qd_key_def less_prod_def)

theorem heap_due_ends_in_order_witness:
  "\<exists>s'. heap_due 5 busy_scheduler = Some ([wake ''first'' 2, wake ''second'' 5], s') \<and>
     map qd_command (hs_heap s') = [wake ''late'' 9]"
proof -
  have "heap_step\<^sup>*\<^sup>* new_heap_scheduler busy_scheduler"
    unfolding busy_scheduler_def
    by (rule rtranclp.rtrancl_into_rtrancl [OF rtranclp.rtrancl_into_rtrancl [OF
          rtranclp.rtrancl_into_rtrancl [OF rtranclp.rtrancl_refl]]]) (rule hstep_schedule)+
  note run = heap_due_ends_in_order [OF this, of 5, THEN conjunct2]
  have "map qd_command (sort_key qd_key (filter (\<lambda>x. qd_due_at x \<le> 5) (hs_heap busy_scheduler))) =
      [wake ''first'' 2, wake ''second'' 5]"
    by (simp add: busy_heap qd_key_def less_eq_prod_def)
  with run show ?thesis by (auto simp: busy_heap)
qed

end
