(* ===== verification/Encoding.thy ===== *)
theory Encoding
  imports Py_Values "HOL-Library.Word"
begin

text \<open>
  \<open>core/encoding.py\<close>, \<open>core/identity.py\<close> and \<open>core/randomness.py\<close>: the type-tagged,
  length-prefixed encoding of scope parts, the identities minted from it and the random draws
  keyed by it. The main result is that the encoding has no delimiter or type collisions: on
  canonical values (each mapping listed in the order the encoder sorts it into) equal bytes come
  from equal parts. The digests are parameters: \<open>uuid5\<close> (namespace and name to text) and
  \<open>blake2b\<close> (payload to a 64-bit word).
\<close>

section \<open>Rendering of numbers\<close>

fun digits_pad :: "nat \<Rightarrow> (nat \<Rightarrow> char) \<Rightarrow> nat \<Rightarrow> nat \<Rightarrow> string" where
  "digits_pad b dig 0 n = []"
| "digits_pad b dig (Suc w) n = digits_pad b dig w (n div b) @ [dig (n mod b)]"

definition dec_digit :: "nat \<Rightarrow> char" where
  "dec_digit d = char_of (48 + d)"

definition hex_digit :: "nat \<Rightarrow> char" where
  "hex_digit d = char_of (if d < 10 then 48 + d else 87 + d)"

definition byte_digit :: "nat \<Rightarrow> char" where
  "byte_digit d = char_of d"

definition dec_pad :: "nat \<Rightarrow> nat \<Rightarrow> string" where
  "dec_pad = digits_pad 10 dec_digit"

definition hex_pad :: "nat \<Rightarrow> nat \<Rightarrow> string" where
  "hex_pad = digits_pad 16 hex_digit"

text \<open>\<open>n.to_bytes(8, "big")\<close> for \<open>n < 256 ^ 8\<close>.\<close>

definition be8 :: "nat \<Rightarrow> string" where
  "be8 = digits_pad 256 byte_digit 8"

fun dec_nat :: "nat \<Rightarrow> string" where
  "dec_nat n = (if n < 10 then [dec_digit n] else dec_nat (n div 10) @ [dec_digit (n mod 10)])"

declare dec_nat.simps [simp del]

text \<open>\<open>str(i)\<close> for an int.\<close>

definition dec_int :: "int \<Rightarrow> string" where
  "dec_int i = (if i < 0 then ''-'' @ dec_nat (nat (- i)) else dec_nat (nat i))"

text \<open>
  \<open>float.hex()\<close> reads a float as its sign, leading digit, 52 fraction bits and exponent.
\<close>

datatype hexfloat = HNaN | HInf bool | HZero bool | HNum bool nat nat int

definition hex_sign :: "bool \<Rightarrow> string" where
  "hex_sign neg = (if neg then ''-'' else [])"

fun float_hex :: "hexfloat \<Rightarrow> string" where
  "float_hex HNaN = ''nan''"
| "float_hex (HInf neg) = hex_sign neg @ ''inf''"
| "float_hex (HZero neg) = hex_sign neg @ ''0x0.0p+0''"
| "float_hex (HNum neg lead fr e) =
     hex_sign neg @ ''0x'' @ dec_digit lead # ''.'' @ hex_pad 13 fr @ ''p'' @
     (if e < 0 then dec_int e else ''+'' @ dec_int e)"

text \<open>\<open>date.isoformat()\<close> and \<open>datetime.isoformat()\<close>.\<close>

definition iso_date :: "nat \<Rightarrow> nat \<Rightarrow> nat \<Rightarrow> string" where
  "iso_date y mo d = dec_pad 4 y @ ''-'' @ dec_pad 2 mo @ ''-'' @ dec_pad 2 d"

definition iso_micros :: "nat \<Rightarrow> string" where
  "iso_micros us = (if us = 0 then [] else ''.'' @ dec_pad 6 us)"

text \<open>
  The UTC offset in microseconds, \<open>None\<close> for a naive datetime; seconds and microseconds are
  printed only when they are not both zero.
\<close>

definition iso_hms :: "nat \<Rightarrow> nat \<Rightarrow> nat \<Rightarrow> nat \<Rightarrow> string" where
  "iso_hms h mi s us = dec_pad 2 h @ '':'' @ dec_pad 2 mi @
     (if s = 0 \<and> us = 0 then [] else '':'' @ dec_pad 2 s @ iso_micros us)"

definition iso_offset :: "int option \<Rightarrow> string" where
  "iso_offset tz = (case tz of None \<Rightarrow> [] | Some off \<Rightarrow>
     (let a = nat \<bar>off\<bar>
      in (if off < 0 then CHR ''-'' else CHR ''+'') #
         iso_hms (a div 3600000000) (a div 60000000 mod 60) (a div 1000000 mod 60) (a mod 1000000)))"

section \<open>Values and their encoding\<close>

text \<open>
  The supported types, one constructor each. An \<open>Enum\<close> member is its class's module and
  qualified name and its value; a mapping is its items in iteration order; \<open>POther\<close> is any
  other object, with the qualified name of its type.
\<close>

datatype pyval =
    PNone
  | PEnum string string pyval
  | PBool bool
  | PInt int
  | PFloat hexfloat
  | PStr string
  | PBytes string
  | PUuid string
  | PDatetime nat nat nat nat nat nat nat "int option"
  | PDate nat nat nat
  | PTuple "pyval list"
  | PList "pyval list"
  | PMap "(pyval \<times> pyval) list"
  | POther string

text \<open>\<open>_frame\<close> on an encoded value: tag, 8-byte length, payload.\<close>

definition frame_of :: "char \<Rightarrow> string \<Rightarrow> string res" where
  "frame_of tag payload =
     (if length payload < 256 ^ 8 then Inr (tag # be8 (length payload) @ payload)
      else Inl (OverflowError ''int too big to convert''))"

definition count_bytes :: "nat \<Rightarrow> string res" where
  "count_bytes n = (if n < 256 ^ 8 then Inr (be8 n) else Inl (OverflowError ''int too big to convert''))"

definition encode_scalar :: "pyval \<Rightarrow> (char \<times> string) option" where
  "encode_scalar v = (case v of
       PInt i \<Rightarrow> Some (CHR ''i'', dec_int i)
     | PFloat f \<Rightarrow> Some (CHR ''f'', float_hex f)
     | PStr s \<Rightarrow> Some (CHR ''s'', s)
     | PBytes b \<Rightarrow> Some (CHR ''y'', b)
     | PUuid u \<Rightarrow> Some (CHR ''u'', u)
     | PDatetime y mo d h mi s us tz \<Rightarrow>
         Some (CHR ''d'', iso_date y mo d @ ''T'' @ dec_pad 2 h @ '':'' @ dec_pad 2 mi @ '':'' @
                 dec_pad 2 s @ iso_micros us @ iso_offset tz)
     | PDate y mo d \<Rightarrow> Some (CHR ''D'', iso_date y mo d)
     | _ \<Rightarrow> None)"

function (sequential) encode :: "pyval \<Rightarrow> (char \<times> string) res"
  and frames :: "pyval list \<Rightarrow> string list res"
  and frame_items :: "(pyval \<times> pyval) list \<Rightarrow> (string \<times> string) list res" where
  "encode PNone = Inr (CHR ''n'', [])"
| "encode (PEnum m q v) =
     bind_res (frame_of (CHR ''s'') m) (\<lambda>a. bind_res (frame_of (CHR ''s'') q) (\<lambda>b.
     bind_res (bind_res (encode v) (\<lambda>(t, p). frame_of t p)) (\<lambda>c. Inr (CHR ''e'', a @ b @ c))))"
| "encode (PBool b) = Inr (CHR ''b'', if b then ''1'' else ''0'')"
| "encode (PTuple vs) =
     bind_res (count_bytes (length vs)) (\<lambda>n. bind_res (frames vs) (\<lambda>fs. Inr (CHR ''t'', n @ concat fs)))"
| "encode (PList vs) =
     bind_res (count_bytes (length vs)) (\<lambda>n. bind_res (frames vs) (\<lambda>fs. Inr (CHR ''l'', n @ concat fs)))"
| "encode (PMap kvs) =
     bind_res (frame_items kvs) (\<lambda>its. bind_res (count_bytes (length its)) (\<lambda>n.
       Inr (CHR ''m'', n @ concat (map (\<lambda>(k, i). k @ i) (sort_key fst its)))))"
| "encode (POther name) = Inl (TypeError (''deterministic scope parts must use supported stable types; got '' @ name))"
| "encode v = (case encode_scalar v of Some tp \<Rightarrow> Inr tp | None \<Rightarrow> Inl (TypeError []))"
| "frames [] = Inr []"
| "frames (v # vs) =
     bind_res (bind_res (encode v) (\<lambda>(t, p). frame_of t p)) (\<lambda>f. bind_res (frames vs) (\<lambda>fs. Inr (f # fs)))"
| "frame_items [] = Inr []"
| "frame_items ((k, v) # kvs) =
     bind_res (bind_res (encode k) (\<lambda>(t, p). frame_of t p)) (\<lambda>fk.
     bind_res (bind_res (encode v) (\<lambda>(t, p). frame_of t p)) (\<lambda>fv.
     bind_res (frame_items kvs) (\<lambda>fs. Inr ((fk, fv) # fs))))"
  by pat_completeness auto
termination
  by (relation "measure (case_sum size (case_sum (size_list size) (size_list (size_prod size size))))")
    auto

definition frame :: "pyval \<Rightarrow> string res" where
  "frame v = bind_res (encode v) (\<lambda>(t, p). frame_of t p)"

definition encode_deterministic_parts :: "pyval list \<Rightarrow> string res" where
  "encode_deterministic_parts parts = bind_res (frames parts) (\<lambda>fs. Inr (concat fs))"

section \<open>Identities\<close>

text \<open>\<open>bytes.hex()\<close>.\<close>

definition bytes_hex :: "string \<Rightarrow> string" where
  "bytes_hex bs = concat (map (\<lambda>c. hex_pad 2 (of_char c)) bs)"

definition SOSE_NAMESPACE :: string where
  "SOSE_NAMESPACE = ''942319d8-a85f-5c79-a828-982f97dcbe56''"

type_synonym digest = "string \<Rightarrow> string \<Rightarrow> string"

definition deterministic_id :: "digest \<Rightarrow> string \<Rightarrow> pyval list \<Rightarrow> string res" where
  "deterministic_id uuid5 kind parts =
     bind_res (encode_deterministic_parts (PStr kind # parts))
       (\<lambda>key. Inr (uuid5 SOSE_NAMESPACE (bytes_hex key)))"

text \<open>
  The identities the managers mint have only string parts; encoding them cannot fail (short of
  a string of \<open>2 ^ 64\<close> bytes), so they are given by a total function.
\<close>

definition str_frame :: "string \<Rightarrow> string" where
  "str_frame s = CHR ''s'' # be8 (length s) @ s"

definition mint_id :: "digest \<Rightarrow> string \<Rightarrow> string list \<Rightarrow> string" where
  "mint_id uuid5 kind parts = uuid5 SOSE_NAMESPACE (bytes_hex (concat (map str_frame (kind # parts))))"

section \<open>Random draws\<close>

definition scoped_seed :: "(string \<Rightarrow> 64 word) \<Rightarrow> int \<Rightarrow> pyval list \<Rightarrow> (64 word) res" where
  "scoped_seed blake2b root_seed scope =
     bind_res (encode_deterministic_parts (PInt root_seed # scope)) (\<lambda>payload. Inr (blake2b payload))"

definition counter_draw ::
  "(string \<Rightarrow> 64 word) \<Rightarrow> int \<Rightarrow> string \<Rightarrow> pyval \<Rightarrow> string \<Rightarrow> int \<Rightarrow> (64 word) res" where
  "counter_draw blake2b root_seed stream entity_id mechanism draw_index =
     (if draw_index < 0 then Inl (ValueError ''draw_index must be non-negative'')
      else scoped_seed blake2b root_seed
        [PStr ''counter-v1'', PStr stream, entity_id, PStr mechanism, PInt draw_index])"

text \<open>\<open>(value >> 11) / float(1 << 53)\<close>.\<close>

definition unit_float :: "64 word \<Rightarrow> pyfloat" where
  "unit_float value = round_double (of_nat (unat (drop_bit 11 value)) / 2 ^ 53)"

definition uniform_draw ::
  "(string \<Rightarrow> 64 word) \<Rightarrow> int \<Rightarrow> string \<Rightarrow> pyval \<Rightarrow> string \<Rightarrow> int \<Rightarrow> pyfloat res" where
  "uniform_draw blake2b root_seed stream entity_id mechanism draw_index =
     bind_res (counter_draw blake2b root_seed stream entity_id mechanism draw_index)
       (\<lambda>value. Inr (unit_float value))"

definition bernoulli_draw ::
  "(string \<Rightarrow> 64 word) \<Rightarrow> int \<Rightarrow> pyfloat \<Rightarrow> string \<Rightarrow> pyval \<Rightarrow> string \<Rightarrow> int \<Rightarrow> bool res" where
  "bernoulli_draw blake2b root_seed probability stream entity_id mechanism draw_index =
     (if \<not> (float_le (Fin 0) probability \<and> float_le probability (Fin 1))
      then Inl (ValueError ''probability must be between 0 and 1'')
      else bind_res (uniform_draw blake2b root_seed stream entity_id mechanism draw_index)
        (\<lambda>u. Inr (float_lt u probability)))"

section \<open>Canonical values\<close>

text \<open>
  The ranges Python's constructors guarantee, and mappings listed in the order of their encoded
  keys (a mapping's own iteration order is not part of its value).
\<close>

fun hexfloat_ok :: "hexfloat \<Rightarrow> bool" where
  "hexfloat_ok (HNum neg lead fr e) =
     (fr < 16 ^ 13 \<and> ((lead = 1 \<and> - 1022 \<le> e \<and> e \<le> 1023) \<or> (lead = 0 \<and> 0 < fr \<and> e = - 1022)))"
| "hexfloat_ok _ = True"

definition date_ok :: "nat \<Rightarrow> nat \<Rightarrow> nat \<Rightarrow> bool" where
  "date_ok y mo d \<longleftrightarrow> 1 \<le> y \<and> y \<le> 9999 \<and> 1 \<le> mo \<and> mo \<le> 12 \<and> 1 \<le> d \<and> d \<le> 31"

definition time_ok :: "nat \<Rightarrow> nat \<Rightarrow> nat \<Rightarrow> nat \<Rightarrow> bool" where
  "time_ok h mi s us \<longleftrightarrow> h < 24 \<and> mi < 60 \<and> s < 60 \<and> us < 1000000"

definition offset_ok :: "int option \<Rightarrow> bool" where
  "offset_ok tz \<longleftrightarrow> (case tz of None \<Rightarrow> True | Some off \<Rightarrow> \<bar>off\<bar> < 86400000000)"

fun canonical :: "pyval \<Rightarrow> bool" where
  "canonical (PEnum m q v) = canonical v"
| "canonical (PFloat f) = hexfloat_ok f"
| "canonical (PDatetime y mo d h mi s us tz) = (date_ok y mo d \<and> time_ok h mi s us \<and> offset_ok tz)"
| "canonical (PDate y mo d) = date_ok y mo d"
| "canonical (PTuple vs) = list_all canonical vs"
| "canonical (PList vs) = list_all canonical vs"
| "canonical (PMap kvs) =
     (list_all (\<lambda>kv. canonical (fst kv) \<and> canonical (snd kv)) kvs \<and>
      (case frame_items kvs of Inl _ \<Rightarrow> True | Inr its \<Rightarrow> sorted (map fst its)))"
| "canonical _ = True"

section \<open>Renderings are injective\<close>

lemma length_digits_pad [simp]: "length (digits_pad b dig w n) = w"
  by (induction w arbitrary: n) auto

lemma digits_pad_inj:
  assumes dig: "inj_on dig {..<b}" and b: "0 < b"
  shows "n < b ^ w \<Longrightarrow> m < b ^ w \<Longrightarrow> digits_pad b dig w n = digits_pad b dig w m \<Longrightarrow> n = m"
proof (induction w arbitrary: n m)
  case 0
  then show ?case by simp
next
  case (Suc w)
  from Suc.prems have "n div b < b ^ w" "m div b < b ^ w"
    using b by (simp_all add: less_mult_imp_div_less mult.commute)
  moreover from Suc.prems(3) have "digits_pad b dig w (n div b) = digits_pad b dig w (m div b)"
    and d: "dig (n mod b) = dig (m mod b)" by auto
  ultimately have "n div b = m div b" by (blast intro: Suc.IH)
  moreover from d have "n mod b = m mod b" using dig b by (auto dest: inj_onD)
  ultimately show ?case by (metis div_mult_mod_eq)
qed

lemma inj_dec_digit: "inj_on dec_digit {..<10}"
  by (rule inj_onI) (auto simp: dec_digit_def dest!: arg_cong [where f = of_char])

lemma inj_hex_digit: "inj_on hex_digit {..<16}"
  by (rule inj_onI)
    (auto simp: hex_digit_def split: if_splits dest!: arg_cong [where f = of_char])

lemma inj_byte_digit: "inj_on byte_digit {..<256}"
  by (rule inj_onI) (auto simp: byte_digit_def dest!: arg_cong [where f = of_char])

lemma dec_pad_inj: "n < 10 ^ w \<Longrightarrow> m < 10 ^ w \<Longrightarrow> dec_pad w n = dec_pad w m \<longleftrightarrow> n = m"
  using digits_pad_inj [OF inj_dec_digit, of n w m] by (auto simp: dec_pad_def)

lemma hex_pad_inj: "n < 16 ^ w \<Longrightarrow> m < 16 ^ w \<Longrightarrow> hex_pad w n = hex_pad w m \<longleftrightarrow> n = m"
  using digits_pad_inj [OF inj_hex_digit, of n w m] by (auto simp: hex_pad_def)

lemma be8_inj: "n < 256 ^ 8 \<Longrightarrow> m < 256 ^ 8 \<Longrightarrow> be8 n = be8 m \<longleftrightarrow> n = m"
  using digits_pad_inj [OF inj_byte_digit, of n 8 m] by (auto simp: be8_def)

lemma length_pads [simp]:
  "length (dec_pad w n) = w" "length (hex_pad w n) = w" "length (be8 n) = 8"
  by (simp_all add: dec_pad_def hex_pad_def be8_def)

lemma of_char_dec_digit: "d < 10 \<Longrightarrow> of_char (dec_digit d) = 48 + d"
  by (simp add: dec_digit_def)

lemma dec_digit_eq_iff: "a < 10 \<Longrightarrow> b < 10 \<Longrightarrow> dec_digit a = dec_digit b \<longleftrightarrow> a = b"
  using inj_dec_digit by (auto dest: inj_onD)

lemma dec_nat_small: "n < 10 \<Longrightarrow> dec_nat n = [dec_digit n]"
  by (subst dec_nat.simps) simp

lemma dec_nat_nonempty [simp]: "dec_nat n \<noteq> []" "[] \<noteq> dec_nat n"
  by (subst dec_nat.simps, simp)+

lemma dec_nat_inj: "dec_nat n = dec_nat m \<Longrightarrow> n = m"
proof (induction n arbitrary: m rule: dec_nat.induct)
  case (1 n)
  show ?case
  proof (cases "n < 10")
    case True
    show ?thesis
    proof (cases "m < 10")
      case m: True
      with True "1.prems" show ?thesis
        by (simp add: dec_nat.simps [of n] dec_nat.simps [of m] dec_digit_eq_iff)
    next
      case False
      with True "1.prems" show ?thesis
        by (auto simp: dec_nat.simps [of n] dec_nat.simps [of m] dest: sym)
    qed
  next
    case False
    then have n: "dec_nat n = dec_nat (n div 10) @ [dec_digit (n mod 10)]"
      by (simp add: dec_nat.simps [of n])
    show ?thesis
    proof (cases "m < 10")
      case True
      with n "1.prems" show ?thesis by (simp add: dec_nat.simps [of m])
    next
      case m: False
      then have "dec_nat m = dec_nat (m div 10) @ [dec_digit (m mod 10)]"
        by (simp add: dec_nat.simps [of m])
      with n "1.prems" have "dec_nat (n div 10) = dec_nat (m div 10)" "n mod 10 = m mod 10"
        by (simp_all add: dec_digit_eq_iff)
      with "1.IH" [OF False] show ?thesis by (metis div_mult_mod_eq)
    qed
  qed
qed

lemma dec_nat_digits: "c \<in> set (dec_nat n) \<Longrightarrow> 48 \<le> (of_char c :: nat) \<and> (of_char c :: nat) \<le> 57"
proof (induction n rule: dec_nat.induct)
  case (1 n)
  show ?case
  proof (cases "n < 10")
    case True
    with "1.prems" show ?thesis by (simp add: dec_nat.simps [of n] of_char_dec_digit)
  next
    case False
    then have "c \<in> set (dec_nat (n div 10)) \<or> c = dec_digit (n mod 10)"
      using "1.prems" by (auto simp: dec_nat.simps [of n])
    then show ?thesis
      using "1.IH" [OF False] by (auto simp: of_char_dec_digit)
  qed
qed

lemma dec_nat_hd: "48 \<le> (of_char (hd (dec_nat n)) :: nat)"
  using dec_nat_digits [of "hd (dec_nat n)" n] by simp

lemma dec_int_inj: "dec_int i = dec_int j \<Longrightarrow> i = j"
proof -
  assume eq: "dec_int i = dec_int j"
  have minus: "dec_nat n \<noteq> CHR ''-'' # xs" "CHR ''-'' # xs \<noteq> dec_nat n" for n xs
    using dec_nat_hd [of n] by (auto dest: sym)
  show ?thesis
  proof (cases "i < 0")
    case True
    with eq have "j < 0" by (auto simp: dec_int_def minus split: if_splits)
    with True eq have "nat (- i) = nat (- j)" by (intro dec_nat_inj) (simp add: dec_int_def)
    with True \<open>j < 0\<close> show ?thesis by simp
  next
    case False
    with eq have "\<not> j < 0" by (auto simp: dec_int_def minus split: if_splits)
    with False eq have "nat i = nat j" by (intro dec_nat_inj) (simp add: dec_int_def)
    with False \<open>\<not> j < 0\<close> show ?thesis by simp
  qed
qed

lemma dec_int_signed_inj:
  "(if e < 0 then dec_int e else ''+'' @ dec_int e) = (if e' < 0 then dec_int e' else ''+'' @ dec_int e')
     \<Longrightarrow> e = e'"
  by (auto simp: dec_int_def split: if_splits dest!: dec_nat_inj)

lemma float_hex_inj:
  assumes "hexfloat_ok f" and "hexfloat_ok g" and "float_hex f = float_hex g"
  shows "f = g"
proof (cases f)
  case (HNum n l r e)
  note f = HNum
  show ?thesis
  proof (cases g)
    case (HNum n' l' r' e')
    from assms(3) f HNum have n: "n = n'" by (auto simp: hex_sign_def split: if_splits)
    from assms(3) f HNum n have parts: "dec_digit l = dec_digit l'" "hex_pad 13 r = hex_pad 13 r'"
      "(if e < 0 then dec_int e else ''+'' @ dec_int e) = (if e' < 0 then dec_int e' else ''+'' @ dec_int e')"
      by simp_all
    from assms(1,2) f HNum have "l < 10" "l' < 10" "r < 16 ^ 13" "r' < 16 ^ 13" by auto
    with parts(1,2) have "l = l'" "r = r'" by (simp_all add: dec_digit_eq_iff hex_pad_inj)
    moreover from parts(3) have "e = e'" by (rule dec_int_signed_inj)
    ultimately show ?thesis using f HNum n by simp
  next
    case (HZero z)
    have "length (hex_pad 13 r) = 13" by simp
    with assms(3) f HZero show ?thesis by (auto simp: hex_sign_def split: if_splits dest: arg_cong [where f = length])
  qed (use assms f in \<open>auto simp: hex_sign_def split: if_splits\<close>)
next
  case (HZero z)
  have "length (hex_pad 13 r) = 13" for r by simp
  with assms HZero show ?thesis
    by (cases g) (auto simp: hex_sign_def split: if_splits dest: arg_cong [where f = length])
qed (use assms in \<open>cases g; auto simp: hex_sign_def split: if_splits\<close>)+

lemma iso_date_inj:
  assumes "date_ok y mo d" and "date_ok y' mo' d'"
  shows "iso_date y mo d = iso_date y' mo' d' \<longleftrightarrow> y = y' \<and> mo = mo' \<and> d = d'"
  using assms by (simp add: iso_date_def date_ok_def dec_pad_inj)

lemma length_iso_date [simp]: "length (iso_date y mo d) = 10"
  by (simp add: iso_date_def)

lemma iso_micros_inj: "u < 1000000 \<Longrightarrow> u' < 1000000 \<Longrightarrow> iso_micros u = iso_micros u' \<longleftrightarrow> u = u'"
  by (auto simp: iso_micros_def dec_pad_inj)

lemma iso_hms_inj:
  assumes "h < 100" "h' < 100" "mi < 60" "mi' < 60" "s < 60" "s' < 60" "us < 1000000" "us' < 1000000"
    and eq: "iso_hms h mi s us = iso_hms h' mi' s' us'"
  shows "h = h' \<and> mi = mi' \<and> s = s' \<and> us = us'"
proof -
  define tail where "tail = (\<lambda>s us. if s = 0 \<and> us = 0 then [] else '':'' @ dec_pad 2 s @ iso_micros us)"
  have "dec_pad 2 h = dec_pad 2 h'" "dec_pad 2 mi = dec_pad 2 mi'" and tl: "tail s us = tail s' us'"
    using eq by (simp_all add: iso_hms_def tail_def)
  moreover have "s = s' \<and> us = us'"
    using tl assms by (auto simp: tail_def dec_pad_inj iso_micros_inj split: if_splits)
  ultimately show ?thesis using assms by (simp add: dec_pad_inj)
qed

lemma micros_split:
  "(a :: nat) = (a div 3600000000 * 60 + a div 60000000 mod 60) * 60000000
     + (a div 1000000 mod 60) * 1000000 + a mod 1000000"
proof -
  have m: "a div 60000000 = a div 3600000000 * 60 + a div 60000000 mod 60"
    using div_mult_mod_eq [of "a div 60000000" 60] div_mult2_eq [of a 60000000 60] by simp
  have "a div 1000000 = a div 60000000 * 60 + a div 1000000 mod 60"
    using div_mult_mod_eq [of "a div 1000000" 60] div_mult2_eq [of a 1000000 60] by simp
  then have "a = (a div 60000000 * 60 + a div 1000000 mod 60) * 1000000 + a mod 1000000"
    using div_mult_mod_eq [of a 1000000] by simp
  with m show ?thesis by (simp add: algebra_simps)
qed

lemma iso_offset_inj:
  assumes "offset_ok tz" and "offset_ok tz'" and "iso_offset tz = iso_offset tz'"
  shows "tz = tz'"
proof (cases tz)
  case None
  with assms(3) show ?thesis by (cases tz') (auto simp: iso_offset_def Let_def)
next
  case (Some o1)
  with assms(3) obtain o2 where o2: "tz' = Some o2"
    by (cases tz') (auto simp: iso_offset_def Let_def)
  define a where "a = nat \<bar>o1\<bar>"
  define b where "b = nat \<bar>o2\<bar>"
  have ab: "a < 86400000000" "b < 86400000000"
    using assms(1,2) Some o2 by (auto simp: offset_ok_def a_def b_def)
  then have lt: "a div 3600000000 < 100" "b div 3600000000 < 100"
    by (simp_all add: div_less_iff_less_mult)
  have sign: "o1 < 0 \<longleftrightarrow> o2 < 0"
    and eq: "iso_hms (a div 3600000000) (a div 60000000 mod 60) (a div 1000000 mod 60) (a mod 1000000)
      = iso_hms (b div 3600000000) (b div 60000000 mod 60) (b div 1000000 mod 60) (b mod 1000000)"
    using assms(3) by (auto simp: Some o2 iso_offset_def Let_def a_def b_def split: if_splits)
  have "a div 3600000000 = b div 3600000000 \<and> a div 60000000 mod 60 = b div 60000000 mod 60
      \<and> a div 1000000 mod 60 = b div 1000000 mod 60 \<and> a mod 1000000 = b mod 1000000"
    by (rule iso_hms_inj [OF lt _ _ _ _ _ _ eq]) simp_all
  then have "a = b" using micros_split [of a] micros_split [of b] by metis
  with sign have "o1 = o2" by (auto simp: a_def b_def)
  with Some o2 show ?thesis by simp
qed

lemma iso_tail_inj:
  assumes "u < 1000000" "u' < 1000000" "offset_ok tz" "offset_ok tz'"
    and eq: "iso_micros u @ iso_offset tz = iso_micros u' @ iso_offset tz'"
  shows "u = u' \<and> tz = tz'"
proof -
  have hd: "iso_offset z \<noteq> CHR ''.'' # xs" "CHR ''.'' # xs \<noteq> iso_offset z" for z xs
    by (auto simp: iso_offset_def Let_def split: option.splits)
  have "iso_micros u = iso_micros u' \<and> iso_offset tz = iso_offset tz'"
    using eq hd by (auto simp: iso_micros_def split: if_splits)
  with assms show ?thesis by (simp add: iso_micros_inj iso_offset_inj)
qed

section \<open>Frames parse uniquely\<close>

definition is_frame :: "string \<Rightarrow> bool" where
  "is_frame f \<longleftrightarrow> (\<exists>t p. frame_of t p = Inr f)"

lemma frame_of_Inr_iff:
  "frame_of t p = Inr f \<longleftrightarrow> length p < 256 ^ 8 \<and> f = t # be8 (length p) @ p"
  by (auto simp: frame_of_def)

lemma frame_append_inj:
  assumes "frame_of t p = Inr f" and "frame_of t' p' = Inr f'" and "f @ x = f' @ y"
  shows "t = t' \<and> p = p' \<and> f = f' \<and> x = y"
proof -
  from assms have len: "length p < 256 ^ 8" "length p' < 256 ^ 8"
    and f: "f = t # be8 (length p) @ p" "f' = t' # be8 (length p') @ p'"
    by (auto simp: frame_of_Inr_iff)
  from assms(3) f have t: "t = t'" and "be8 (length p) = be8 (length p')" and px: "p @ x = p' @ y"
    by auto
  with len have "length p = length p'" by (simp add: be8_inj)
  with px have "p = p'" "x = y" by auto
  with t f show ?thesis by simp
qed

lemma is_frame_append_inj:
  "is_frame f \<Longrightarrow> is_frame g \<Longrightarrow> f @ x = g @ y \<Longrightarrow> f = g \<and> x = y"
  unfolding is_frame_def by (blast dest: frame_append_inj)

lemma is_frame_nonempty [simp]: "\<not> is_frame []"
  by (auto simp: is_frame_def frame_of_Inr_iff)

lemma frames_concat_inj:
  "list_all is_frame fs \<Longrightarrow> list_all is_frame gs \<Longrightarrow> concat fs = concat gs \<Longrightarrow> fs = gs"
proof (induction fs arbitrary: gs)
  case Nil
  then show ?case by (cases gs) auto
next
  case (Cons f fs)
  then obtain g gs' where gs: "gs = g # gs'" by (cases gs) auto
  with Cons.prems have "f = g \<and> concat fs = concat gs'"
    by (intro is_frame_append_inj) auto
  with Cons gs show ?case by auto
qed

lemma frame_is_frame: "frame v = Inr f \<Longrightarrow> is_frame f"
  by (auto simp: frame_def is_frame_def)

lemma frames_Cons_iff:
  "frames (v # vs) = Inr fs \<longleftrightarrow>
     (\<exists>f gs. frame v = Inr f \<and> frames vs = Inr gs \<and> fs = f # gs)"
  by (auto simp: frame_def bind_res_eq_Inr_iff)

lemma frame_items_Cons_iff:
  "frame_items ((k, v) # kvs) = Inr fs \<longleftrightarrow>
     (\<exists>fk fv gs. frame k = Inr fk \<and> frame v = Inr fv \<and> frame_items kvs = Inr gs \<and> fs = (fk, fv) # gs)"
  by (auto simp: frame_def bind_res_eq_Inr_iff)

lemma frames_all_frames: "frames vs = Inr fs \<Longrightarrow> list_all is_frame fs \<and> length fs = length vs"
  by (induction vs arbitrary: fs)
    (auto simp: frames_Cons_iff frame_is_frame simp del: frames.simps(2))

lemma frame_items_all_frames:
  "frame_items kvs = Inr its \<Longrightarrow>
     list_all is_frame (concat (map (\<lambda>(k, i). [k, i]) its)) \<and> length its = length kvs"
  by (induction kvs arbitrary: its)
    (auto simp: frame_items_Cons_iff frame_is_frame simp del: frame_items.simps(2))

lemma concat_pairs: "concat (map (\<lambda>(k, i). k @ i) its) = concat (concat (map (\<lambda>(k, i). [k, i]) its))"
  by (induction its) auto

lemma pairs_inj: "concat (map (\<lambda>(k, i). [k, i]) as) = concat (map (\<lambda>(k, i). [k, i]) bs) \<Longrightarrow> as = bs"
proof (induction as arbitrary: bs)
  case Nil
  then show ?case by (cases bs) auto
next
  case (Cons a as)
  then show ?case by (cases bs) (auto split: prod.splits)
qed

lemma frame_items_concat_inj:
  assumes "frame_items kvs = Inr as" and "frame_items lws = Inr bs"
    and "concat (map (\<lambda>(k, i). k @ i) as) = concat (map (\<lambda>(k, i). k @ i) bs)"
  shows "as = bs"
  by (rule pairs_inj, rule frames_concat_inj)
    (use assms frame_items_all_frames in \<open>auto simp: concat_pairs\<close>)

lemma frame_inj_of_encode:
  assumes "\<And>tp. encode v = Inr tp \<Longrightarrow> encode w = Inr tp \<Longrightarrow> v = w"
    and "frame v = Inr f" and "frame w = Inr f"
  shows "v = w"
proof -
  from assms(2) obtain t p where v: "encode v = Inr (t, p)" "frame_of t p = Inr f"
    by (auto simp: frame_def)
  from assms(3) obtain t' p' where w: "encode w = Inr (t', p')" "frame_of t' p' = Inr f"
    by (auto simp: frame_def)
  from v w have "t = t' \<and> p = p'" using frame_append_inj [of t p f t' p' f "[]" "[]"] by simp
  with v w assms(1) show ?thesis by simp
qed

section \<open>The encoding is injective\<close>

text \<open>The tag a value is encoded under tells its constructor.\<close>

fun tag_of :: "pyval \<Rightarrow> char" where
  "tag_of PNone = CHR ''n''"
| "tag_of (PEnum _ _ _) = CHR ''e''"
| "tag_of (PBool _) = CHR ''b''"
| "tag_of (PInt _) = CHR ''i''"
| "tag_of (PFloat _) = CHR ''f''"
| "tag_of (PStr _) = CHR ''s''"
| "tag_of (PBytes _) = CHR ''y''"
| "tag_of (PUuid _) = CHR ''u''"
| "tag_of (PDatetime _ _ _ _ _ _ _ _) = CHR ''d''"
| "tag_of (PDate _ _ _) = CHR ''D''"
| "tag_of (PTuple _) = CHR ''t''"
| "tag_of (PList _) = CHR ''l''"
| "tag_of (PMap _) = CHR ''m''"
| "tag_of (POther _) = CHR ''?''"

lemma encode_tag: "encode v = Inr (t, p) \<Longrightarrow> tag_of v = t"
  by (cases v) (auto simp: encode_scalar_def)

lemma encode_datetime_inj:
  assumes "canonical (PDatetime y mo d h mi s us tz)" and "canonical (PDatetime y' mo' d' h' mi' s' us' tz')"
    and "encode (PDatetime y mo d h mi s us tz) = encode (PDatetime y' mo' d' h' mi' s' us' tz')"
  shows "PDatetime y mo d h mi s us tz = PDatetime y' mo' d' h' mi' s' us' tz'"
proof -
  from assms(1,2) have ok: "date_ok y mo d" "date_ok y' mo' d'" "time_ok h mi s us" "time_ok h' mi' s' us'"
    "offset_ok tz" "offset_ok tz'" by simp_all
  from assms(3) have "iso_date y mo d = iso_date y' mo' d'" "dec_pad 2 h = dec_pad 2 h'"
    "dec_pad 2 mi = dec_pad 2 mi'" "dec_pad 2 s = dec_pad 2 s'"
    and tl: "iso_micros us @ iso_offset tz = iso_micros us' @ iso_offset tz'"
    by (simp_all add: encode_scalar_def)
  moreover have "us = us' \<and> tz = tz'"
    using ok by (intro iso_tail_inj [OF _ _ ok(5,6) tl]) (simp_all add: time_ok_def)
  ultimately show ?thesis using ok by (simp add: iso_date_inj time_ok_def dec_pad_inj)
qed

definition enc_inj :: "pyval \<Rightarrow> bool" where
  "enc_inj v \<longleftrightarrow> (\<forall>w tp. canonical v \<longrightarrow> canonical w \<longrightarrow> encode v = Inr tp \<longrightarrow> encode w = Inr tp \<longrightarrow> v = w)"

lemma enc_injI:
  assumes "\<And>w t p. canonical v \<Longrightarrow> canonical w \<Longrightarrow> tag_of w = tag_of v \<Longrightarrow>
    encode v = Inr (t, p) \<Longrightarrow> encode w = Inr (t, p) \<Longrightarrow> v = w"
  shows "enc_inj v"
  using assms encode_tag unfolding enc_inj_def by (metis surj_pair)

lemma frame_inj:
  "enc_inj v \<Longrightarrow> canonical v \<Longrightarrow> canonical w \<Longrightarrow> frame v = Inr f \<Longrightarrow> frame w = Inr f \<Longrightarrow> v = w"
  by (rule frame_inj_of_encode [of v w f]) (auto simp: enc_inj_def)

lemma enc_inj_scalar:
  assumes "encode_scalar v \<noteq> None" shows "enc_inj v"
proof (rule enc_injI)
  fix w t p
  assume c: "canonical v" "canonical w" and tag: "tag_of w = tag_of v"
    and e: "encode v = Inr (t, p)" "encode w = Inr (t, p)"
  show "v = w"
  proof (cases v)
    case (PDatetime y mo d h mi s us tz)
    with tag obtain y' mo' d' h' mi' s' us' tz' where w: "w = PDatetime y' mo' d' h' mi' s' us' tz'"
      by (cases w) auto
    show ?thesis
      unfolding PDatetime w by (rule encode_datetime_inj) (use c e PDatetime w in simp_all)
  qed (use assms c tag e in \<open>cases w; auto simp: encode_scalar_def iso_date_inj
        dest: dec_int_inj float_hex_inj\<close>)+
qed

lemma frames_inj:
  assumes "\<And>v. v \<in> set vs \<Longrightarrow> enc_inj v"
  shows "list_all canonical vs \<Longrightarrow> list_all canonical ws \<Longrightarrow> frames vs = Inr fs \<Longrightarrow>
    frames ws = Inr fs \<Longrightarrow> vs = ws"
  using assms
proof (induction vs arbitrary: ws fs)
  case Nil
  then show ?case by (cases ws) (auto dest: frames_all_frames)
next
  case (Cons v vs)
  from Cons.prems(3) obtain f gs where f: "frame v = Inr f" "frames vs = Inr gs" "fs = f # gs"
    by (auto simp: frames_Cons_iff simp del: frames.simps)
  with Cons.prems(4) obtain w ws' where w: "ws = w # ws'" "frame w = Inr f" "frames ws' = Inr gs"
    by (cases ws) (auto simp: frames_Cons_iff simp del: frames.simps(2))
  have "v = w" using Cons.prems f w by (intro frame_inj [of v w f]) auto
  moreover have "vs = ws'" using Cons.prems f w by (intro Cons.IH [of ws' gs]) auto
  ultimately show ?case using w by simp
qed

lemma frame_items_inj:
  assumes "\<And>k v. (k, v) \<in> set kvs \<Longrightarrow> enc_inj k \<and> enc_inj v"
  shows "list_all (\<lambda>kv. canonical (fst kv) \<and> canonical (snd kv)) kvs \<Longrightarrow>
    list_all (\<lambda>kv. canonical (fst kv) \<and> canonical (snd kv)) lws \<Longrightarrow>
    frame_items kvs = Inr fs \<Longrightarrow> frame_items lws = Inr fs \<Longrightarrow> kvs = lws"
  using assms
proof (induction kvs arbitrary: lws fs)
  case Nil
  then show ?case by (cases lws) (auto dest: frame_items_all_frames)
next
  case (Cons kv kvs)
  obtain k v where kv: "kv = (k, v)" by (cases kv)
  with Cons.prems(3) obtain fk fv gs where
    f: "frame k = Inr fk" "frame v = Inr fv" "frame_items kvs = Inr gs" "fs = (fk, fv) # gs"
    by (auto simp: frame_items_Cons_iff simp del: frame_items.simps)
  with Cons.prems(4) obtain l w lws' where w: "lws = (l, w) # lws'" "frame l = Inr fk"
    "frame w = Inr fv" "frame_items lws' = Inr gs"
    by (cases lws) (auto simp: frame_items_Cons_iff simp del: frame_items.simps(2))
  have ek: "enc_inj k" "enc_inj v" using Cons.prems(5) [of k v] kv by auto
  have "k = l" using Cons.prems kv f w ek by (intro frame_inj [of k l fk]) auto
  moreover have "v = w" using Cons.prems kv f w ek by (intro frame_inj [of v w fv]) auto
  moreover have "kvs = lws'" using Cons.prems kv f w by (intro Cons.IH [of lws' gs]) auto
  ultimately show ?case using kv w by simp
qed

lemma be8_append_inj: "n < 256 ^ 8 \<Longrightarrow> m < 256 ^ 8 \<Longrightarrow> be8 n @ x = be8 m @ y \<longleftrightarrow> n = m \<and> x = y"
  by (simp add: append_eq_append_conv be8_inj)

lemma count_bytes_Inr_iff: "count_bytes n = Inr b \<longleftrightarrow> n < 256 ^ 8 \<and> b = be8 n"
  by (auto simp: count_bytes_def)

lemma enc_inj_seq:
  assumes IH: "\<And>v. v \<in> set vs \<Longrightarrow> enc_inj v"
    and c: "list_all canonical vs" "list_all canonical ws"
    and v: "count_bytes (length vs) = Inr n" "frames vs = Inr fs"
    and w: "count_bytes (length ws) = Inr m" "frames ws = Inr gs"
    and eq: "n @ concat fs = m @ concat gs"
  shows "vs = ws"
proof -
  from v w eq have "concat fs = concat gs" by (auto simp: count_bytes_Inr_iff be8_append_inj)
  with v w have "fs = gs" by (intro frames_concat_inj) (auto dest: frames_all_frames)
  with IH c v w show ?thesis by (intro frames_inj [of vs ws fs]) auto
qed

lemma enc_inj_map:
  assumes IH: "\<And>k v. (k, v) \<in> set kvs \<Longrightarrow> enc_inj k \<and> enc_inj v"
  shows "enc_inj (PMap kvs)"
proof (rule enc_injI)
  fix w t p
  assume c: "canonical (PMap kvs)" "canonical w" and "tag_of w = tag_of (PMap kvs)"
    and e: "encode (PMap kvs) = Inr (t, p)" "encode w = Inr (t, p)"
  then obtain lws where w: "w = PMap lws" by (cases w) auto
  from e(1) obtain as where as: "frame_items kvs = Inr as" "length as < 256 ^ 8"
    "p = be8 (length as) @ concat (map (\<lambda>(k, i). k @ i) (sort_key fst as))"
    by (auto simp: count_bytes_Inr_iff)
  from e(2) w obtain bs where bs: "frame_items lws = Inr bs" "length bs < 256 ^ 8"
    "p = be8 (length bs) @ concat (map (\<lambda>(k, i). k @ i) (sort_key fst bs))"
    by (auto simp: count_bytes_Inr_iff)
  have "sort_key fst as = as" "sort_key fst bs = bs"
    using c w as(1) bs(1) by (simp_all add: sorted_sort_id sort_key_id_if_sorted)
  with as bs have "as = bs"
    by (intro frame_items_concat_inj [OF as(1) bs(1)]) (simp add: be8_append_inj)
  with IH c w as bs show "PMap kvs = w"
    using frame_items_inj [of kvs lws as] by simp
qed

lemma enc_inj_all: "enc_inj v"
proof (induction v rule: pyval.induct)
  case (PEnum m q v)
  show ?case
  proof (rule enc_injI)
    fix w t p
    assume c: "canonical (PEnum m q v)" "canonical w" and "tag_of w = tag_of (PEnum m q v)"
      and e: "encode (PEnum m q v) = Inr (t, p)" "encode w = Inr (t, p)"
    then obtain m' q' v' where w: "w = PEnum m' q' v'" by (cases w) auto
    from e(1) obtain a b f where a: "frame_of (CHR ''s'') m = Inr a" "frame_of (CHR ''s'') q = Inr b"
      "frame v = Inr f" "p = a @ b @ f" by (auto simp: frame_def)
    from e(2) w obtain a' b' f' where b: "frame_of (CHR ''s'') m' = Inr a'"
      "frame_of (CHR ''s'') q' = Inr b'" "frame v' = Inr f'" "p = a' @ b' @ f'"
      by (auto simp: frame_def)
    have m: "m = m' \<and> b @ f = b' @ f'" using frame_append_inj [OF a(1) b(1), of "b @ f" "b' @ f'"] a(4) b(4) by simp
    then have q: "q = q' \<and> f = f'" using frame_append_inj [OF a(2) b(2), of f f'] by simp
    with PEnum.IH c w a b have "v = v'" by (intro frame_inj [of v v' f]) auto
    with m q w show "PEnum m q v = w" by simp
  qed
next
  case (PTuple vs)
  show ?case
  proof (rule enc_injI)
    fix w t p
    assume c: "canonical (PTuple vs)" "canonical w" and "tag_of w = tag_of (PTuple vs)"
      and e: "encode (PTuple vs) = Inr (t, p)" "encode w = Inr (t, p)"
    then obtain ws where "w = PTuple ws" by (cases w) auto
    with c e PTuple.IH show "PTuple vs = w" by (auto intro!: enc_inj_seq [of vs ws])
  qed
next
  case (PList vs)
  show ?case
  proof (rule enc_injI)
    fix w t p
    assume c: "canonical (PList vs)" "canonical w" and "tag_of w = tag_of (PList vs)"
      and e: "encode (PList vs) = Inr (t, p)" "encode w = Inr (t, p)"
    then obtain ws where "w = PList ws" by (cases w) auto
    with c e PList.IH show "PList vs = w" by (auto intro!: enc_inj_seq [of vs ws])
  qed
next
  case (PMap kvs)
  then show ?case by (intro enc_inj_map) (auto simp: prod_set_defs)
next
  case PNone
  show ?case
  proof (rule enc_injI)
    fix w assume "tag_of w = tag_of PNone" then show "PNone = w" by (cases w) auto
  qed
next
  case (PBool b)
  show ?case
  proof (rule enc_injI)
    fix w t p
    assume "tag_of w = tag_of (PBool b)" "encode (PBool b) = Inr (t, p)" "encode w = Inr (t, p)"
    then show "PBool b = w" by (cases w) (auto split: if_splits)
  qed
next
  case (POther x)
  then show ?case by (simp add: enc_inj_def)
qed (rule enc_inj_scalar, simp add: encode_scalar_def)+

lemma parts_injective_on_frames:
  assumes "list_all canonical ps" and "list_all canonical qs"
    and "encode_deterministic_parts ps = Inr b" and "encode_deterministic_parts qs = Inr b"
  shows "ps = qs"
proof -
  from assms(3,4) obtain fs gs where "frames ps = Inr fs" "frames qs = Inr gs" "concat fs = concat gs"
    by (auto simp: encode_deterministic_parts_def)
  moreover from this have "fs = gs" by (intro frames_concat_inj) (auto dest: frames_all_frames)
  ultimately show ?thesis using assms enc_inj_all by (intro frames_inj [of ps qs fs]) auto
qed

text \<open>
  C26. The encoding has no delimiter or type collisions: two lists of canonical parts with the same
  bytes are the same list, whatever mixture of types and nesting they use.
\<close>

theorem encode_parts_collision_free:
  assumes "list_all canonical ps" and "list_all canonical qs"
    and "encode_deterministic_parts ps = Inr b" and "encode_deterministic_parts qs = Inr b"
  shows "ps = qs"
  using assms by (rule parts_injective_on_frames)

theorem encode_parts_collision_free_witness:
  "list_all canonical [PStr ''ab'', PBool True] \<and>
   (\<exists>b. encode_deterministic_parts [PStr ''ab'', PBool True] = Inr b \<and>
     (\<forall>qs. list_all canonical qs \<longrightarrow> encode_deterministic_parts qs = Inr b \<longrightarrow>
        [PStr ''ab'', PBool True] = qs))"
proof -
  have "encode_deterministic_parts [PStr ''ab'', PBool True]
      = Inr (CHR ''s'' # be8 2 @ ''ab'' @ CHR ''b'' # be8 1 @ ''1'')"
    by (simp add: encode_deterministic_parts_def encode_scalar_def frame_of_def numeral_2_eq_2)
  then show ?thesis using encode_parts_collision_free [of "[PStr ''ab'', PBool True]"] by auto
qed

section \<open>Mappings do not depend on their iteration order\<close>

lemma frame_items_mset:
  assumes "mset kvs = mset lws" and "frame_items kvs = Inr as"
  shows "\<exists>bs. frame_items lws = Inr bs \<and> mset bs = mset as"
proof -
  have fi: "frame_items xs = Inr ys \<longleftrightarrow>
      list_all2 (\<lambda>(k, v) (fk, fv). frame k = Inr fk \<and> frame v = Inr fv) xs ys" for xs ys
  proof (induction xs arbitrary: ys)
    case Nil
    then show ?case by auto
  next
    case (Cons x xs)
    then show ?case
      by (cases x; cases ys) (auto simp: frame_items_Cons_iff simp del: frame_items.simps(2))
  qed
  from assms(2) have "list_all2 (\<lambda>(k, v) (fk, fv). frame k = Inr fk \<and> frame v = Inr fv) kvs as"
    by (simp add: fi)
  from list_all2_reorder_left_invariance [OF this, of lws] assms(1) obtain bs where
    "list_all2 (\<lambda>(k, v) (fk, fv). frame k = Inr fk \<and> frame v = Inr fv) lws bs" "mset bs = mset as"
    by metis
  with fi show ?thesis by blast
qed

lemma frame_items_keys_distinct:
  assumes "distinct (map fst kvs)" and "list_all (\<lambda>kv. canonical (fst kv)) kvs"
    and "frame_items kvs = Inr as"
  shows "distinct (map fst as) \<and> (\<forall>fk \<in> fst ` set as. \<exists>k \<in> fst ` set kvs. canonical k \<and> frame k = Inr fk)"
  using assms
proof (induction kvs arbitrary: as)
  case Nil
  then show ?case by simp
next
  case (Cons kv kvs)
  obtain k v where kv: "kv = (k, v)" by (cases kv)
  with Cons.prems(3) obtain fk fv bs where
    f: "frame k = Inr fk" "frame_items kvs = Inr bs" "as = (fk, fv) # bs"
    by (auto simp: frame_items_Cons_iff simp del: frame_items.simps)
  have IH: "distinct (map fst bs)" "\<forall>fk \<in> fst ` set bs. \<exists>k \<in> fst ` set kvs. canonical k \<and> frame k = Inr fk"
    using Cons.IH [OF _ _ f(2)] Cons.prems by auto
  have "fk \<notin> fst ` set bs"
  proof
    assume "fk \<in> fst ` set bs"
    with IH(2) obtain k' where "k' \<in> fst ` set kvs" "canonical k'" "frame k' = Inr fk" by blast
    moreover have "canonical k" using Cons.prems(2) kv by simp
    ultimately have "k = k'" using f(1) enc_inj_all by (intro frame_inj [of k k' fk])
    with \<open>k' \<in> fst ` set kvs\<close> Cons.prems(1) kv show False by auto
  qed
  with IH f kv Cons.prems show ?case by auto
qed

text \<open>
  A mapping is encoded by its content alone: two listings of the same items, with distinct
  canonical keys, have the same encoding.
\<close>

theorem encode_mapping_order_free:
  assumes "distinct (map fst kvs)" and "list_all (\<lambda>kv. canonical (fst kv)) kvs"
    and "mset lws = mset kvs" and "encode (PMap kvs) = Inr tp"
  shows "encode (PMap lws) = Inr tp"
proof -
  from assms(4) obtain as n where as: "frame_items kvs = Inr as" "count_bytes (length as) = Inr n"
    "tp = (CHR ''m'', n @ concat (map (\<lambda>(k, i). k @ i) (sort_key fst as)))"
    by auto
  with assms(3) obtain bs where bs: "frame_items lws = Inr bs" "mset bs = mset as"
    using frame_items_mset [of kvs lws as] by auto
  have "distinct (map fst as)" using frame_items_keys_distinct [OF assms(1,2) as(1)] by simp
  moreover have "distinct (map fst bs)"
    using calculation bs(2) by (metis mset_eq_imp_distinct_iff mset_map)
  ultimately have "sort_key fst as = sort_key fst bs"
    using mset_eq_setD [OF bs(2)]
    by (intro map_sorted_distinct_set_unique [where f = fst])
      (auto simp: distinct_map inj_on_def)
  moreover have "length bs = length as" using bs(2) by (rule mset_eq_length)
  ultimately show ?thesis using as bs by simp
qed

theorem encode_mapping_order_free_witness:
  "\<exists>tp. encode (PMap [(PStr ''b'', PNone), (PStr ''a'', PNone)]) = Inr tp \<and>
        encode (PMap [(PStr ''a'', PNone), (PStr ''b'', PNone)]) = Inr tp"
proof -
  have "\<exists>tp. encode (PMap [(PStr ''b'', PNone), (PStr ''a'', PNone)]) = Inr tp"
    by (simp add: encode_scalar_def frame_of_def count_bytes_def)
  then show ?thesis
    using encode_mapping_order_free [of "[(PStr ''b'', PNone), (PStr ''a'', PNone)]"
        "[(PStr ''a'', PNone), (PStr ''b'', PNone)]"] by auto
qed

section \<open>Identities do not collide unless the digest does\<close>

lemma bytes_hex_inj: "bytes_hex a = bytes_hex b \<longleftrightarrow> a = b"
proof
  show "bytes_hex a = bytes_hex b \<Longrightarrow> a = b"
  proof (induction a arbitrary: b)
    case Nil
    then show ?case by (cases b) (auto simp: bytes_hex_def dest: arg_cong [where f = length])
  next
    case (Cons x xs)
    then obtain y ys where b: "b = y # ys"
      by (cases b) (auto simp: bytes_hex_def dest: arg_cong [where f = length])
    with Cons.prems have "hex_pad 2 (of_char x) = hex_pad 2 (of_char y)" "bytes_hex xs = bytes_hex ys"
      by (auto simp: bytes_hex_def append_eq_append_conv)
    moreover have "(of_char z :: nat) < 16 ^ 2" for z
      using mod_less_divisor [of 256 "of_char z"] by simp
    ultimately show ?case using Cons.IH b by (auto simp: hex_pad_inj)
  qed
qed simp

text \<open>
  Identities collide only if the digest does: on names among which the digest is injective,
  equal identities come from the same kind and the same canonical parts.
\<close>

theorem deterministic_id_collision_free:
  assumes "list_all canonical ps" and "list_all canonical qs"
    and "deterministic_id uuid5 kind ps = Inr i" and "deterministic_id uuid5 kind' qs = Inr i"
    and "inj_on (uuid5 SOSE_NAMESPACE)
      {bytes_hex b | b. encode_deterministic_parts (PStr kind # ps) = Inr b \<or>
        encode_deterministic_parts (PStr kind' # qs) = Inr b}"
  shows "kind = kind' \<and> ps = qs"
proof -
  from assms(3,4) obtain a b where
    a: "encode_deterministic_parts (PStr kind # ps) = Inr a" "uuid5 SOSE_NAMESPACE (bytes_hex a) = i" and
    b: "encode_deterministic_parts (PStr kind' # qs) = Inr b" "uuid5 SOSE_NAMESPACE (bytes_hex b) = i"
    by (auto simp: deterministic_id_def)
  from a b have "uuid5 SOSE_NAMESPACE (bytes_hex a) = uuid5 SOSE_NAMESPACE (bytes_hex b)" by simp
  then have "bytes_hex a = bytes_hex b" by (rule inj_onD [OF assms(5)]) (use a(1) b(1) in blast)+
  then have "a = b" by (simp add: bytes_hex_inj)
  with a b have "PStr kind # ps = PStr kind' # qs"
    using assms(1,2) by (intro parts_injective_on_frames) auto
  then show ?thesis by simp
qed

theorem deterministic_id_collision_free_witness:
  "\<exists>i. deterministic_id (\<lambda>ns name. ns @ name) ''item'' [PStr ''a''] = Inr i \<and>
     (\<forall>kind ps. list_all canonical ps \<longrightarrow> deterministic_id (\<lambda>ns name. ns @ name) kind ps = Inr i \<longrightarrow>
        kind = ''item'' \<and> ps = [PStr ''a''])"
proof -
  have "\<exists>i. deterministic_id (\<lambda>ns name. ns @ name) ''item'' [PStr ''a''] = Inr i"
    by (simp add: deterministic_id_def encode_deterministic_parts_def encode_scalar_def frame_of_def)
  then show ?thesis
    using deterministic_id_collision_free [where ?uuid5.0 = "\<lambda>ns name. ns @ name" and qs = "[PStr ''a'']"
        and kind' = "''item''"] by (fastforce simp: inj_on_def)
qed

lemma frames_strs:
  "\<forall>s \<in> set ss. length s < 256 ^ 8 \<Longrightarrow> frames (map PStr ss) = Inr (map str_frame ss)"
  by (induction ss) (auto simp: encode_scalar_def frame_of_def str_frame_def)

text \<open>The total minting function is the general one on string parts.\<close>

lemma deterministic_id_strs:
  "\<forall>s \<in> set (kind # ss). length s < 256 ^ 8 \<Longrightarrow>
     deterministic_id uuid5 kind (map PStr ss) = Inr (mint_id uuid5 kind ss)"
  using frames_strs [of "kind # ss"]
  by (simp add: deterministic_id_def encode_deterministic_parts_def mint_id_def)

lemma mint_id_inj:
  assumes "\<forall>s \<in> set (kind # ss). length s < 256 ^ 8" and "\<forall>s \<in> set (kind' # ss'). length s < 256 ^ 8"
    and "inj (uuid5 SOSE_NAMESPACE)" and "mint_id uuid5 kind ss = mint_id uuid5 kind' ss'"
  shows "kind = kind' \<and> ss = ss'"
proof -
  from assms(3,4) have eq: "concat (map str_frame (kind # ss)) = concat (map str_frame (kind' # ss'))"
    by (auto simp: mint_id_def bytes_hex_inj dest!: injD)
  have "encode_deterministic_parts (map PStr (kind # ss)) = Inr (concat (map str_frame (kind # ss)))"
    "encode_deterministic_parts (map PStr (kind' # ss')) = Inr (concat (map str_frame (kind' # ss')))"
    using frames_strs [OF assms(1)] frames_strs [OF assms(2)]
    by (simp_all only: encode_deterministic_parts_def bind_res_Inr)
  then have "map PStr (kind # ss) = map PStr (kind' # ss')"
    using eq by (intro parts_injective_on_frames) (auto simp: list_all_iff)
  then show ?thesis by (auto dest: map_injective simp: inj_on_def)
qed

section \<open>Draws\<close>

lemma unit_float_value:
  "unit_float w = Fin (of_int (int (unat (drop_bit 11 w))) * 2 powi (- 53))"
  "unat (drop_bit 11 w) < 2 ^ 53"
proof -
  have "unat w < 2 ^ 64" using unsigned_less [of w, where ?'a = nat] by simp
  then show lt: "unat (drop_bit 11 w) < 2 ^ 53" by (simp only: unat_drop_bit_eq) (simp add: drop_bit_eq_div)
  have eq: "(of_nat (unat (drop_bit 11 w)) / 2 ^ 53 :: rat)
      = of_int (int (unat (drop_bit 11 w))) * 2 powi (- 53)"
    by (simp only: power_int_minus divide_inverse of_int_of_nat_eq) (simp add: power_int_def)
  have "int n < 2 ^ 53" if "n < 2 ^ 53" for n :: nat using that by simp
  with lt have "\<bar>int (unat (drop_bit 11 w))\<bar> < 2 ^ 53" by (simp only: abs_of_nat)
  then show "unit_float w = Fin (of_int (int (unat (drop_bit 11 w))) * 2 powi (- 53))"
    unfolding unit_float_def eq by (rule round_double_exact) simp_all
qed

lemma unit_float_range:
  obtains q where "unit_float w = Fin q" and "0 \<le> q" and "q < 1"
proof -
  have "(of_nat (unat (drop_bit 11 w)) :: rat) < of_nat (2 ^ 53)"
    using unit_float_value(2) [of w] by (simp only: of_nat_less_iff)
  then have "(of_int (int (unat (drop_bit 11 w))) * 2 powi (- 53) :: rat) < 1"
    by (simp add: power_int_minus field_simps)
  then show ?thesis by (intro that [OF unit_float_value(1)]) (simp_all only: of_nat_0_le_iff of_int_of_nat_eq zero_le_mult_iff, simp)
qed

text \<open>
  C27. A uniform draw lies in the half-open unit interval, for every digest, seed and scope.
\<close>

theorem uniform_draw_unit_interval:
  assumes "uniform_draw blake2b root_seed stream entity_id mechanism draw_index = Inr u"
  shows "\<exists>q. u = Fin q \<and> 0 \<le> q \<and> q < 1"
proof -
  from assms obtain w where "u = unit_float w" by (auto simp: uniform_draw_def)
  then show ?thesis by (metis unit_float_range)
qed

theorem uniform_draw_unit_interval_witness:
  "\<exists>u. uniform_draw (\<lambda>_. - 1) 0 ''s'' PNone ''m'' 0 = Inr u \<and> (\<exists>q. u = Fin q \<and> 0 \<le> q \<and> q < 1)"
proof -
  have "\<exists>u. uniform_draw (\<lambda>_. - 1) 0 ''s'' PNone ''m'' 0 = Inr u"
    by (simp add: uniform_draw_def counter_draw_def scoped_seed_def encode_deterministic_parts_def
        encode_scalar_def frame_of_def dec_int_def dec_nat_small)
  then obtain u where u: "uniform_draw (\<lambda>_. - 1) 0 ''s'' PNone ''m'' 0 = Inr u" ..
  from uniform_draw_unit_interval [OF this] u show ?thesis by simp
qed

text \<open>
  Bernoulli draws are coherent across scenarios: on the same scope, raising the probability
  never turns a success into a failure; probability 0 never and probability 1 always succeeds.
\<close>

theorem bernoulli_draw_coherent:
  assumes "bernoulli_draw blake2b root_seed p stream entity_id mechanism draw_index = Inr r"
    and "bernoulli_draw blake2b root_seed p' stream entity_id mechanism draw_index = Inr r'"
    and "float_le p p'"
  shows "(r \<longrightarrow> r') \<and> (p = Fin 0 \<longrightarrow> \<not> r) \<and> (p = Fin 1 \<longrightarrow> r)"
proof -
  from assms(1) obtain w where w: "counter_draw blake2b root_seed stream entity_id mechanism draw_index = Inr w"
    and r: "r = float_lt (unit_float w) p"
    unfolding bernoulli_draw_def uniform_draw_def by (auto split: if_splits)
  from assms(2) w have r': "r' = float_lt (unit_float w) p'"
    unfolding bernoulli_draw_def uniform_draw_def by (auto split: if_splits)
  obtain q where "unit_float w = Fin q" "0 \<le> q" "q < 1" by (rule unit_float_range)
  with r r' assms(3) show ?thesis
    by (cases p; cases p') (auto simp: float_le_def float_eq_def)
qed

theorem bernoulli_draw_coherent_witness:
  "\<exists>r r'. bernoulli_draw (\<lambda>_. 0) 7 (Fin 0) ''s'' PNone ''m'' 0 = Inr r \<and>
     bernoulli_draw (\<lambda>_. 0) 7 (Fin 1) ''s'' PNone ''m'' 0 = Inr r' \<and> (r \<longrightarrow> r') \<and> \<not> r"
proof -
  have "\<exists>r. bernoulli_draw (\<lambda>_. 0) 7 (Fin q) ''s'' PNone ''m'' 0 = Inr r" if "q = 0 \<or> q = 1" for q
    using that by (auto simp: bernoulli_draw_def uniform_draw_def counter_draw_def scoped_seed_def
        encode_deterministic_parts_def encode_scalar_def frame_of_def dec_int_def dec_nat_small
        float_le_def float_eq_def)
  moreover have "float_le (Fin 0) (Fin 1)" by (simp add: float_le_def float_eq_def)
  ultimately obtain r r' where
    r: "bernoulli_draw (\<lambda>_. 0) 7 (Fin 0) ''s'' PNone ''m'' 0 = Inr r"
      "bernoulli_draw (\<lambda>_. 0) 7 (Fin 1) ''s'' PNone ''m'' 0 = Inr r'"
    and le: "float_le (Fin 0) (Fin 1)" by blast
  from bernoulli_draw_coherent [OF r le] r show ?thesis by auto
qed

end
