(* ===== verification/Scenario_Engine.thy ===== *)
theory Scenario_Engine
  imports Durable_Models Encoding
begin

text \<open>
  \<open>scenarios/engine.py\<close>: external conditions that change the simulation context. A signal (a tick or an
  event) triggers scenarios; each attempt is decided once, by a condition and a seeded draw, and a
  positive decision opens an activation whose effects hold until it expires. \<open>Scenario\<close> comes from
  \<open>scenarios/model.py\<close>. The generator behind \<open>random.Random(seed).random()\<close> and the hash functions
  are parameters (\<open>scenario_env\<close>); a scenario's condition is domain code, a function of the signal, of
  what the engine remembers and of the rest of the context.
\<close>

section \<open>Dates\<close>

text \<open>The calendar date of a proleptic Gregorian ordinal counted from zero, as \<open>datetime\<close> computes it.\<close>

definition days_before_month :: "nat list" where
  "days_before_month = [0, 0, 31, 59, 90, 120, 151, 181, 212, 243, 273, 304, 334]"

definition days_in_month :: "nat list" where
  "days_in_month = [0, 31, 28, 31, 30, 31, 30, 31, 31, 30, 31, 30, 31]"

definition ord2ymd :: "nat \<Rightarrow> nat \<times> nat \<times> nat" where
  "ord2ymd n =
     (let n400 = n div 146097; n = n mod 146097;
          n100 = n div 36524; n = n mod 36524;
          n4 = n div 1461; n = n mod 1461;
          n1 = n div 365; n = n mod 365;
          year = n400 * 400 + 1 + n100 * 100 + n4 * 4 + n1
      in if n1 = 4 \<or> n100 = 4 then (year - 1, 12, 31)
         else let leapyear = (n1 = 3 \<and> (n4 \<noteq> 24 \<or> n100 = 3));
                  month = (n + 50) div 32;
                  preceding = days_before_month ! month + (if month > 2 \<and> leapyear then 1 else 0)
              in if n < preceding
                 then let month = month - 1;
                          preceding = preceding - (days_in_month ! month + (if month = 2 \<and> leapyear then 1 else 0))
                      in (year, month, n - preceding + 1)
                 else (year, month, n - preceding + 1))"

text \<open>A UTC instant as the aware \<open>datetime\<close> that is encoded into identities.\<close>

definition datetime_val :: "datetime \<Rightarrow> pyval" where
  "datetime_val t =
     (let us = nat t; s = us div 1000000; (y, mo, d) = ord2ymd (s div 86400)
      in PDatetime y mo d (s mod 86400 div 3600) (s mod 3600 div 60) (s mod 60) (us mod 1000000) (Some 0))"

fun trigger_parts :: "trigger_key \<Rightarrow> pyval list" where
  "trigger_parts (TickKey n) = [PStr ''tick'', PInt n]"
| "trigger_parts (EventKey i) = [PStr ''event'', PStr i]"
| "trigger_parts (ScheduledKey t) = [PStr ''scheduled'', datetime_val t]"

section \<open>State\<close>

record 'v scenario_memory =
  sm_decisions :: "(string \<times> scenario_decision) list"
  sm_activations :: "(string \<times> 'v scenario_activation) list"

record ('v, 'c) scenario =
  sn_name :: string
  sn_trigger :: scenario_trigger
  sn_effects :: "'v scenario_effect list"
  sn_condition :: "('v scenario_signal \<Rightarrow> 'v scenario_memory \<Rightarrow> 'c \<Rightarrow> bool res) option"
  sn_activation_probability :: pyfloat
  sn_duration :: "timedelta option"
  sn_priority :: int
  sn_allow_reentry :: bool

definition mk_scenario :: "('v, 'c) scenario \<Rightarrow> ('v, 'c) scenario res" where
  "mk_scenario s = guards
     [(sn_name s = [], ValueError ''scenario name cannot be empty''),
      (sn_effects s = [], ValueError ''scenario must define at least one effect''),
      (\<not> isfinite (sn_activation_probability s) \<or>
       \<not> (float_le (Fin 0) (sn_activation_probability s) \<and> float_le (sn_activation_probability s) (Fin 1)),
        ValueError ''activation_probability must be finite and between 0 and 1''),
      (case sn_duration s of None \<Rightarrow> False | Some d \<Rightarrow> d \<le> 0, ValueError ''scenario duration must be positive'')] s"

record ('v, 'c) scenario_engine =
  se_scenarios :: "(string \<times> ('v, 'c) scenario) list"
  se_memory :: "'v scenario_memory"

record scenario_env =
  sv_uuid5 :: digest
  sv_blake2b :: "string \<Rightarrow> 64 word"
  sv_random :: "64 word \<Rightarrow> pyfloat"
  sv_root_seed :: int

definition empty_memory :: "'v scenario_memory" where
  "empty_memory = \<lparr>sm_decisions = [], sm_activations = []\<rparr>"

definition new_scenario_engine :: "('v, 'c) scenario_engine" where
  "new_scenario_engine = \<lparr>se_scenarios = [], se_memory = empty_memory\<rparr>"

definition register :: "('v, 'c) scenario \<Rightarrow> (('v, 'c) scenario_engine, unit) meth" where
  "register s e =
     (if dhas (se_scenarios e) (sn_name s) then (Inl (ValueError (''scenario already registered: '' @ sn_name s)), e)
      else (Inr (), e\<lparr>se_scenarios := dset (sn_name s) s (se_scenarios e)\<rparr>))"

definition register_many :: "('v, 'c) scenario list \<Rightarrow> (('v, 'c) scenario_engine, unit) meth" where
  "register_many scenarios = each_m register scenarios"

definition ordered_activations :: "'v scenario_memory \<Rightarrow> 'v scenario_activation list" where
  "ordered_activations m = by_key (sm_activations m)"

definition active_activations :: "datetime \<Rightarrow> 'v scenario_memory \<Rightarrow> 'v scenario_activation list" where
  "active_activations now m = filter (\<lambda>a. case sa_expires_at a of None \<Rightarrow> True | Some t \<Rightarrow> now < t) (ordered_activations m)"

definition decisions_of :: "'v scenario_memory \<Rightarrow> scenario_decision list" where
  "decisions_of m = by_key (sm_decisions m)"

definition snapshot_state :: "'v scenario_memory \<Rightarrow> 'v scenario_runtime_state" where
  "snapshot_state m = \<lparr>ss_decisions = decisions_of m, ss_activations = ordered_activations m\<rparr>"

definition restore_state :: "'v scenario_runtime_state option \<Rightarrow> 'v scenario_memory" where
  "restore_state state = (case state of
     None \<Rightarrow> empty_memory
   | Some s \<Rightarrow> \<lparr>sm_decisions = dict_of sx_attempt_id (ss_decisions s),
                sm_activations = dict_of sa_activation_id (ss_activations s)\<rparr>)"

section \<open>Decisions\<close>

definition scenario_attempt_id :: "scenario_env \<Rightarrow> ('v, 'c) scenario \<Rightarrow> trigger_key \<Rightarrow> string res" where
  "scenario_attempt_id env s key = deterministic_id (sv_uuid5 env) ''scenario-attempt'' (PStr (sn_name s) # trigger_parts key)"

definition is_scenario_active :: "string \<Rightarrow> 'v scenario_memory \<Rightarrow> bool" where
  "is_scenario_active name m = list_ex (\<lambda>a. sa_scenario_name a = name) (dvalues (sm_activations m))"

definition inactive_decision :: "string \<Rightarrow> ('v, 'c) scenario \<Rightarrow> string \<Rightarrow> scenario_decision" where
  "inactive_decision attempt_id s reason =
     \<lparr>sx_attempt_id = attempt_id, sx_scenario_name = sn_name s, sx_activated = False,
      sx_probability = sn_activation_probability s, sx_draw = None, sx_reason = reason, sx_activation_id = None\<rparr>"

definition store_decision :: "scenario_decision \<Rightarrow> ('v scenario_memory, scenario_decision list) meth" where
  "store_decision d m = (Inr [d], m\<lparr>sm_decisions := dset (sx_attempt_id d) d (sm_decisions m)\<rparr>)"

definition activation_draw :: "scenario_env \<Rightarrow> ('v, 'c) scenario \<Rightarrow> trigger_key \<Rightarrow> pyfloat res" where
  "activation_draw env s key =
     bind_res (scoped_seed (sv_blake2b env) (sv_root_seed env)
       (PStr ''scenario-activation'' # PStr (sn_name s) # trigger_parts key)) (\<lambda>seed. Inr (sv_random env seed))"

definition expiry :: "('v, 'c) scenario \<Rightarrow> datetime \<Rightarrow> datetime option res" where
  "expiry s now = (case sn_duration s of None \<Rightarrow> Inr None | Some d \<Rightarrow> bind_res (dt_add now d) (\<lambda>t. Inr (Some t)))"

text \<open>\<open>event.correlation_id or event.event_id\<close>: an empty correlation counts as missing.\<close>

definition event_correlation :: "'v domain_event \<Rightarrow> string" where
  "event_correlation e = (case ev_correlation_id e of None \<Rightarrow> ev_event_id e | Some c \<Rightarrow> if c = [] then ev_event_id e else c)"

definition activation_of ::
  "string \<Rightarrow> ('v, 'c) scenario \<Rightarrow> 'v scenario_signal \<Rightarrow> datetime option \<Rightarrow> trigger_key \<Rightarrow> 'v scenario_activation" where
  "activation_of activation_id s signal expires key =
     \<lparr>sa_activation_id = activation_id, sa_scenario_name = sn_name s, sa_activated_at = sg_now signal,
      sa_expires_at = expires, sa_priority = sn_priority s, sa_effects = sn_effects s, sa_trigger_key = key,
      sa_causation_id = map_option ev_event_id (sg_event signal),
      sa_correlation_id = map_option event_correlation (sg_event signal)\<rparr>"

definition activate_scenario_if_selected ::
  "scenario_env \<Rightarrow> ('v, 'c) scenario \<Rightarrow> 'v scenario_signal \<Rightarrow> string \<Rightarrow> trigger_key
     \<Rightarrow> ('v scenario_memory, bool \<times> pyfloat \<times> string \<times> string option) meth" where
  "activate_scenario_if_selected env s signal attempt_id key m =
     (case activation_draw env s key of
        Inl e \<Rightarrow> (Inl e, m)
      | Inr draw \<Rightarrow>
          if \<not> float_lt draw (sn_activation_probability s) then (Inr (False, draw, ''probability_miss'', None), m)
          else (case deterministic_id (sv_uuid5 env) ''scenario-activation'' [PStr attempt_id] of
              Inl e \<Rightarrow> (Inl e, m)
            | Inr activation_id \<Rightarrow> (case expiry s (sg_now signal) of
                  Inl e \<Rightarrow> (Inl e, m)
                | Inr expires \<Rightarrow>
                    (Inr (True, draw, ''activated'', Some activation_id),
                     m\<lparr>sm_activations := dset activation_id (activation_of activation_id s signal expires key)
                        (sm_activations m)\<rparr>))))"

text \<open>The part of the loop body from the condition on, for an attempt that is not yet decided.\<close>

definition decide_scenario ::
  "scenario_env \<Rightarrow> 'c \<Rightarrow> 'v scenario_signal \<Rightarrow> ('v, 'c) scenario \<Rightarrow> string \<Rightarrow> trigger_key
     \<Rightarrow> ('v scenario_memory, scenario_decision list) meth" where
  "decide_scenario env context signal s attempt_id key m =
     (case (case sn_condition s of None \<Rightarrow> Inr True | Some condition \<Rightarrow> condition signal m context) of
        Inl e \<Rightarrow> (Inl e, m)
      | Inr False \<Rightarrow> store_decision (inactive_decision attempt_id s ''condition_false'') m
      | Inr True \<Rightarrow>
          bind_m (activate_scenario_if_selected env s signal attempt_id key) (\<lambda>(activated, draw, reason, activation_id).
            store_decision
              \<lparr>sx_attempt_id = attempt_id, sx_scenario_name = sn_name s, sx_activated = activated,
               sx_probability = sn_activation_probability s, sx_draw = Some draw, sx_reason = reason,
               sx_activation_id = activation_id\<rparr>) m)"

text \<open>The body of the loop of \<open>evaluate\<close>: the decision it appends, if any.\<close>

definition evaluate_scenario ::
  "scenario_env \<Rightarrow> 'c \<Rightarrow> 'v scenario_signal \<Rightarrow> ('v, 'c) scenario \<Rightarrow> ('v scenario_memory, scenario_decision list) meth" where
  "evaluate_scenario env context signal s m =
     (if \<not> trigger_matches (sn_trigger s) signal then (Inr [], m)
      else case bind_res (trigger_key_of (sn_trigger s) signal) (\<lambda>key.
                  bind_res (scenario_attempt_id env s key) (\<lambda>attempt_id. Inr (key, attempt_id))) of
          Inl e \<Rightarrow> (Inl e, m)
        | Inr (key, attempt_id) \<Rightarrow> (case dget (sm_decisions m) attempt_id of
              Some previous \<Rightarrow> (Inr [previous], m)
            | None \<Rightarrow>
                if \<not> sn_allow_reentry s \<and> is_scenario_active (sn_name s) m
                then store_decision (inactive_decision attempt_id s ''already_active'') m
                else decide_scenario env context signal s attempt_id key m))"

fun evaluate_all ::
  "scenario_env \<Rightarrow> 'c \<Rightarrow> 'v scenario_signal \<Rightarrow> ('v, 'c) scenario list \<Rightarrow> ('v scenario_memory, scenario_decision list) meth" where
  "evaluate_all env context signal [] m = (Inr [], m)"
| "evaluate_all env context signal (s # rest) m =
     (case evaluate_scenario env context signal s m of
        (Inl e, m) \<Rightarrow> (Inl e, m)
      | (Inr ds, m) \<Rightarrow> (case evaluate_all env context signal rest m of
            (Inl e, m) \<Rightarrow> (Inl e, m)
          | (Inr es, m) \<Rightarrow> (Inr (ds @ es), m)))"

definition expire_due :: "datetime \<Rightarrow> 'v scenario_memory \<Rightarrow> 'v scenario_activation list \<times> 'v scenario_memory" where
  "expire_due now m =
     (let expired = filter (\<lambda>a. case sa_expires_at a of None \<Rightarrow> False | Some t \<Rightarrow> t \<le> now) (ordered_activations m)
      in (expired, m\<lparr>sm_activations := fold (\<lambda>a d. dpop (sa_activation_id a) d) expired (sm_activations m)\<rparr>))"

definition scenario_order :: "('v, 'c) scenario_engine \<Rightarrow> ('v, 'c) scenario list" where
  "scenario_order e = sort_key (\<lambda>s. (sn_priority s, sn_name s)) (dvalues (se_scenarios e))"

definition evaluate ::
  "scenario_env \<Rightarrow> 'c \<Rightarrow> 'v scenario_signal \<Rightarrow> (('v, 'c) scenario_engine, scenario_decision list) meth" where
  "evaluate env context signal e =
     (case evaluate_all env context signal (scenario_order e) (snd (expire_due (sg_now signal) (se_memory e))) of
        (r, m) \<Rightarrow> (r, e\<lparr>se_memory := m\<rparr>))"

definition on_tick ::
  "scenario_env \<Rightarrow> 'c \<Rightarrow> datetime \<Rightarrow> int \<Rightarrow> (('v, 'c) scenario_engine, scenario_decision list) meth" where
  "on_tick env context now tick = evaluate env context \<lparr>sg_kind = TICK, sg_now = now, sg_tick = tick, sg_event = None\<rparr>"

definition on_event ::
  "scenario_env \<Rightarrow> 'c \<Rightarrow> datetime \<Rightarrow> int \<Rightarrow> 'v domain_event \<Rightarrow> (('v, 'c) scenario_engine, scenario_decision list) meth" where
  "on_event env context now tick event =
     evaluate env context \<lparr>sg_kind = EVENT, sg_now = now, sg_tick = tick, sg_event = Some event\<rparr>"

section \<open>What activations do\<close>

definition attribute_matches ::
  "string \<Rightarrow> datetime \<Rightarrow> 'v scenario_memory \<Rightarrow> ('v scenario_activation \<times> 'v) list" where
  "attribute_matches key now m =
     concat (map (\<lambda>a. concat (map (\<lambda>e. case e of
          AttributeEffect k v \<Rightarrow> if k = key then [(a, v)] else []
        | _ \<Rightarrow> []) (iter_leaf_effects (sa_effects a)))) (active_activations now m))"

definition lowest_priority_matches ::
  "('v scenario_activation \<times> 'v) list \<Rightarrow> ('v scenario_activation \<times> 'v) list" where
  "lowest_priority_matches matches =
     (let prioritized = Min (set (map (sa_priority \<circ> fst) matches))
      in filter (\<lambda>i. sa_priority (fst i) = prioritized) matches)"

definition latest_activation_matches ::
  "('v scenario_activation \<times> 'v) list \<Rightarrow> ('v scenario_activation \<times> 'v) list" where
  "latest_activation_matches matches =
     (let latest_at = Max (set (map (sa_activated_at \<circ> fst) matches))
      in filter (\<lambda>i. sa_activated_at (fst i) = latest_at) matches)"

text \<open>\<open>min(..., key=...)\<close> returns the first of the smallest, as does the head of a stable sort.\<close>

definition attribute :: "string \<Rightarrow> 'v \<Rightarrow> datetime \<Rightarrow> 'v scenario_memory \<Rightarrow> 'v" where
  "attribute key default_value now m =
     (let matches = attribute_matches key now m
      in if matches = [] then default_value
         else snd (hd (sort_key (\<lambda>i. sa_activation_id (fst i))
                (latest_activation_matches (lowest_priority_matches matches)))))"

text \<open>The product of two floats; a product of zeros carries no sign here.\<close>

fun float_mul :: "pyfloat \<Rightarrow> pyfloat \<Rightarrow> pyfloat" where
  "float_mul NaN y = NaN"
| "float_mul x NaN = NaN"
| "float_mul (Fin a) (Fin b) = round_double (a * b)"
| "float_mul (Fin a) y = (if a = 0 then NaN else if a > 0 then y else float_neg y)"
| "float_mul x (Fin b) = (if b = 0 then NaN else if b > 0 then x else float_neg x)"
| "float_mul PInf y = y"
| "float_mul NInf y = float_neg y"

definition applicable_multipliers :: "string \<Rightarrow> string \<Rightarrow> 'v scenario_effect list \<Rightarrow> pyfloat list" where
  "applicable_multipliers entity_type event effects =
     concat (map (\<lambda>e. case e of
          TransitionWeightEffect ev multiplier ty \<Rightarrow>
            if ev = event \<and> (case ty of None \<Rightarrow> True | Some t \<Rightarrow> t = entity_type) then [multiplier] else []
        | _ \<Rightarrow> []) (iter_leaf_effects effects))"

definition transition_weight_multiplier :: "string \<Rightarrow> string \<Rightarrow> datetime \<Rightarrow> 'v scenario_memory \<Rightarrow> pyfloat" where
  "transition_weight_multiplier entity_type event now m =
     fold (\<lambda>x acc. float_mul acc x)
       (concat (map (\<lambda>a. applicable_multipliers entity_type event (sa_effects a)) (active_activations now m))) (Fin 1)"

definition transform_transition_weight ::
  "string \<Rightarrow> string \<Rightarrow> pyfloat \<Rightarrow> datetime \<Rightarrow> 'v scenario_memory \<Rightarrow> pyfloat" where
  "transform_transition_weight entity_type event base_weight now m =
     float_mul base_weight (transition_weight_multiplier entity_type event now m)"

section \<open>The memory\<close>

definition memory_keyed :: "'v scenario_memory \<Rightarrow> bool" where
  "memory_keyed m \<longleftrightarrow> keyed sx_attempt_id (sm_decisions m) \<and> keyed sa_activation_id (sm_activations m)"

lemma restored_lookups:
  assumes "memory_keyed m"
  shows "map_of (sm_decisions (restore_state (Some (snapshot_state m)))) = map_of (sm_decisions m)"
    and "map_of (sm_activations (restore_state (Some (snapshot_state m)))) = map_of (sm_activations m)"
  using assms
  by (simp_all add: restore_state_def snapshot_state_def decisions_of_def ordered_activations_def memory_keyed_def
      dict_of_view)

lemma restored_keyed: "memory_keyed (restore_state s)"
  by (auto simp: restore_state_def memory_keyed_def empty_memory_def keyed_dict_of split: option.splits)

text \<open>Two keyed dictionaries with the same lookups have the same sorted view.\<close>

lemma by_key_lookups:
  assumes "keyed f d" and "keyed f e" and "map_of d = map_of e"
  shows "by_key d = by_key e"
proof -
  have "set d = set e" using set_keyed_iff [OF assms(1)] set_keyed_iff [OF assms(2)] assms(3) by auto
  moreover have "distinct d" "distinct e" using assms(1,2) by (auto simp: keyed_def distinct_map)
  ultimately have m: "mset d = mset e" by (simp add: set_eq_iff_mset_eq_distinct)
  have "sort_key fst d = sort_key fst e"
  proof (rule map_sorted_distinct_set_unique [of fst])
    show "inj_on fst (set (sort_key fst d) \<union> set (sort_key fst e))"
      using assms(1) \<open>set d = set e\<close> by (simp add: keyed_def distinct_map)
    show "distinct (map fst (sort_key fst d))" "distinct (map fst (sort_key fst e))"
      using assms(1,2) by (auto simp: keyed_def distinct_map \<open>distinct d\<close>)
  qed (simp_all add: \<open>set d = set e\<close>)
  then show ?thesis by (simp add: by_key_def)
qed

lemma restored_snapshot:
  assumes "memory_keyed m"
  shows "snapshot_state (restore_state (Some (snapshot_state m))) = snapshot_state m"
  using assms restored_lookups [OF assms] restored_keyed [of "Some (snapshot_state m)"]
  by (auto simp: snapshot_state_def decisions_of_def ordered_activations_def memory_keyed_def intro: by_key_lookups)

lemma expire_due_lookup:
  assumes "memory_keyed m"
  shows "map_of (sm_activations (snd (expire_due now m))) k = (case map_of (sm_activations m) k of
      None \<Rightarrow> None
    | Some a \<Rightarrow> (case sa_expires_at a of None \<Rightarrow> Some a | Some t \<Rightarrow> if t \<le> now then None else Some a))"
proof -
  let ?due = "\<lambda>a. case sa_expires_at a of None \<Rightarrow> False | Some t \<Rightarrow> t \<le> now"
  have fold: "map_of (fold (\<lambda>a d. dpop (sa_activation_id a) d) xs d) k =
      (if k \<in> sa_activation_id ` set xs then None else map_of d k)" for xs and d :: "(string \<times> 'a scenario_activation) list"
    by (induction xs arbitrary: d) auto
  have key: "keyed sa_activation_id (sm_activations m)" using assms by (simp add: memory_keyed_def)
  have "k \<in> sa_activation_id ` set (filter ?due (ordered_activations m)) \<longleftrightarrow>
      (\<exists>a. map_of (sm_activations m) k = Some a \<and> ?due a)"
  proof
    assume "k \<in> sa_activation_id ` set (filter ?due (ordered_activations m))"
    then obtain a where "a \<in> set (dvalues (sm_activations m))" "?due a" "sa_activation_id a = k"
      by (auto simp: ordered_activations_def)
    with keyed_mem_iff [OF key, of a] show "\<exists>a. map_of (sm_activations m) k = Some a \<and> ?due a" by blast
  next
    assume "\<exists>a. map_of (sm_activations m) k = Some a \<and> ?due a"
    then obtain a where a: "map_of (sm_activations m) k = Some a" "?due a" by blast
    then have k: "sa_activation_id a = k" using keyed_lookup [OF key] by blast
    with a(1) have "a \<in> set (dvalues (sm_activations m))" using keyed_mem_iff [OF key, of a] by simp
    with k a(2) show "k \<in> sa_activation_id ` set (filter ?due (ordered_activations m))"
      by (auto simp: ordered_activations_def)
  qed
  then show ?thesis by (auto simp: expire_due_def Let_def fold split: option.splits)
qed

lemma expire_due_decisions [simp]: "sm_decisions (snd (expire_due now m)) = sm_decisions m"
  by (simp add: expire_due_def Let_def)

lemma keyed_pops: "keyed f d \<Longrightarrow> keyed f (fold (\<lambda>a d. dpop (g a) d) xs d)"
  by (induction xs arbitrary: d) auto

lemma expire_due_keyed: "memory_keyed m \<Longrightarrow> memory_keyed (snd (expire_due now m))"
  by (simp add: memory_keyed_def expire_due_def Let_def keyed_pops)

text \<open>No activation is due at \<open>now\<close>, so that expiring does nothing.\<close>

definition none_due :: "datetime \<Rightarrow> 'v scenario_memory \<Rightarrow> bool" where
  "none_due now m \<longleftrightarrow> (\<forall>k a t. map_of (sm_activations m) k = Some a \<longrightarrow> sa_expires_at a = Some t \<longrightarrow> now < t)"

lemma expire_due_none_due: "memory_keyed m \<Longrightarrow> none_due now (snd (expire_due now m))"
  by (auto simp: none_due_def expire_due_lookup split: option.splits if_splits)

lemma none_due_expire:
  assumes "memory_keyed m" and "none_due now m"
  shows "expire_due now m = ([], m)"
proof -
  have key: "keyed sa_activation_id (sm_activations m)" using assms(1) by (simp add: memory_keyed_def)
  have "\<not> (case sa_expires_at a of None \<Rightarrow> False | Some t \<Rightarrow> t \<le> now)" if "a \<in> set (ordered_activations m)" for a
    using that assms(2) keyed_mem_iff [OF key] unfolding none_due_def ordered_activations_def
    by (fastforce split: option.splits)
  then have "filter (\<lambda>a. case sa_expires_at a of None \<Rightarrow> False | Some t \<Rightarrow> t \<le> now) (ordered_activations m) = []"
    by (simp add: filter_empty_conv)
  then show ?thesis by (simp add: expire_due_def Let_def)
qed

section \<open>One evaluation\<close>

text \<open>
  What an evaluation can do to the memory: nothing, store a negative decision under a new attempt, or
  store a positive decision with its activation.
\<close>

definition decided :: "('v, 'c) scenario \<Rightarrow> 'v scenario_memory \<Rightarrow> scenario_decision \<Rightarrow> bool" where
  "decided s m d \<longleftrightarrow> map_of (sm_decisions m) (sx_attempt_id d) = None \<and> sx_scenario_name d = sn_name s"

definition activation_allowed ::
  "('v, 'c) scenario \<Rightarrow> datetime \<Rightarrow> 'v scenario_memory \<Rightarrow> scenario_decision \<Rightarrow> 'v scenario_activation \<Rightarrow> bool" where
  "activation_allowed s now m d a \<longleftrightarrow> sx_activated d \<and> sx_activation_id d = Some (sa_activation_id a) \<and>
     sa_scenario_name a = sn_name s \<and> sa_activated_at a = now \<and> Inr (sa_expires_at a) = expiry s now \<and>
     (sn_allow_reentry s \<or> \<not> is_scenario_active (sn_name s) m)"

inductive memory_step ::
  "('v, 'c) scenario \<Rightarrow> datetime \<Rightarrow> 'v scenario_memory \<Rightarrow> 'v scenario_memory \<Rightarrow> bool" for s now where
  memory_same: "memory_step s now m m"
| memory_negative: "decided s m d \<Longrightarrow> \<not> sx_activated d \<Longrightarrow>
    memory_step s now m (m\<lparr>sm_decisions := dset (sx_attempt_id d) d (sm_decisions m)\<rparr>)"
| memory_positive: "decided s m d \<Longrightarrow> activation_allowed s now m d a \<Longrightarrow>
    memory_step s now m (m\<lparr>sm_activations := dset (sa_activation_id a) a (sm_activations m),
      sm_decisions := dset (sx_attempt_id d) d (sm_decisions m)\<rparr>)"

inductive_cases memory_stepE: "memory_step s now m m'"

lemma decide_scenario_step:
  assumes "decide_scenario env context signal s k key m = (r, m')" and "map_of (sm_decisions m) k = None"
    and "sn_allow_reentry s \<or> \<not> is_scenario_active (sn_name s) m"
  shows "memory_step s (sg_now signal) m m'"
proof -
  let ?cond = "case sn_condition s of None \<Rightarrow> Inr True | Some condition \<Rightarrow> condition signal m context"
  have neg: "memory_step s (sg_now signal) m (m\<lparr>sm_decisions := dset k d (sm_decisions m)\<rparr>)"
    if "sx_attempt_id d = k" "sx_scenario_name d = sn_name s" "\<not> sx_activated d" for d
    using memory_negative [of s m d "sg_now signal"] that assms(2) by (simp add: decided_def)
  consider e where "?cond = Inl e" | "?cond = Inr False" | "?cond = Inr True"
    by (cases ?cond) auto
  then show ?thesis
  proof cases
    case 1
    with assms(1) show ?thesis by (simp add: decide_scenario_def memory_same)
  next
    case 2
    with assms(1) neg [of "inactive_decision k s ''condition_false''"] show ?thesis
      by (auto simp: decide_scenario_def store_decision_def inactive_decision_def)
  next
    case 3
    obtain q m1 where act: "activate_scenario_if_selected env s signal k key m = (q, m1)"
      by (cases "activate_scenario_if_selected env s signal k key m")
    show ?thesis
    proof (cases q)
      case (Inl e)
      with act have "m1 = m"
        by (auto simp: activate_scenario_if_selected_def split: sum.splits if_splits)
      with 3 act Inl assms(1) show ?thesis by (simp add: decide_scenario_def bind_m_def memory_same)
    next
      case (Inr v)
      then obtain b draw reason aid where v: "q = Inr (b, draw, reason, aid)" by (cases v) auto
      define d where "d = \<lparr>sx_attempt_id = k, sx_scenario_name = sn_name s, sx_activated = b,
          sx_probability = sn_activation_probability s, sx_draw = Some draw, sx_reason = reason, sx_activation_id = aid\<rparr>"
      have m': "m' = m1\<lparr>sm_decisions := dset k d (sm_decisions m1)\<rparr>"
        using 3 act v assms(1) by (simp add: decide_scenario_def bind_m_def store_decision_def d_def)
      show ?thesis
      proof (cases b)
        case False
        with act v have "m1 = m"
          by (auto simp: activate_scenario_if_selected_def split: sum.splits if_splits)
        with m' neg [of d] False show ?thesis by (simp add: d_def)
      next
        case True
        with act v obtain i x where a: "aid = Some i" "expiry s (sg_now signal) = Inr x"
          "m1 = m\<lparr>sm_activations := dset i (activation_of i s signal x key) (sm_activations m)\<rparr>"
          by (auto simp: activate_scenario_if_selected_def split: sum.splits if_splits)
        have "decided s m d" "activation_allowed s (sg_now signal) m d (activation_of i s signal x key)"
          using assms(2,3) a True by (auto simp: decided_def activation_allowed_def d_def activation_of_def)
        from memory_positive [OF this] show ?thesis
          using m' a by (simp add: d_def activation_of_def)
      qed
    qed
  qed
qed

lemma evaluate_scenario_step:
  assumes "evaluate_scenario env context signal s m = (r, m')"
  shows "memory_step s (sg_now signal) m m'"
proof (cases "m' = m")
  case False
  with assms obtain key k where k: "map_of (sm_decisions m) k = None"
    and run: "(if \<not> sn_allow_reentry s \<and> is_scenario_active (sn_name s) m
       then store_decision (inactive_decision k s ''already_active'') m
       else decide_scenario env context signal s k key m) = (r, m')"
    by (auto simp: evaluate_scenario_def split: if_splits sum.splits option.splits)
  show ?thesis
  proof (cases "\<not> sn_allow_reentry s \<and> is_scenario_active (sn_name s) m")
    case True
    with run have "m' = m\<lparr>sm_decisions := dset k (inactive_decision k s ''already_active'') (sm_decisions m)\<rparr>"
      by (simp add: store_decision_def inactive_decision_def)
    with memory_negative [of s m "inactive_decision k s ''already_active''"] k show ?thesis
      by (simp add: decided_def inactive_decision_def)
  next
    case False
    with run have "decide_scenario env context signal s k key m = (r, m')" by auto
    from decide_scenario_step [OF this k] False show ?thesis by auto
  qed
qed (simp add: memory_same)

text \<open>Any property that the steps of valid scenarios keep is kept by the whole loop.\<close>

lemma evaluate_all_invariant:
  assumes "evaluate_all env context signal ss m = (r, m')" and "P m"
    and "\<And>s m m'. s \<in> set ss \<Longrightarrow> P m \<Longrightarrow> memory_step s (sg_now signal) m m' \<Longrightarrow> P m'"
  shows "P m'"
  using assms
proof (induction ss arbitrary: m r m')
  case (Cons s ss)
  obtain q m1 where q: "evaluate_scenario env context signal s m = (q, m1)"
    by (cases "evaluate_scenario env context signal s m")
  have P1: "P m1" using Cons.prems(2,3) evaluate_scenario_step [OF q] by (meson list.set_intros(1))
  show ?case
  proof (cases q)
    case (Inl e)
    with q Cons.prems(1) P1 show ?thesis by simp
  next
    case (Inr ds)
    obtain q2 m2 where q2: "evaluate_all env context signal ss m1 = (q2, m2)"
      by (cases "evaluate_all env context signal ss m1")
    have "P m2" by (rule Cons.IH [OF q2 P1]) (use Cons.prems(3) in auto)
    moreover have "m' = m2" using q Inr q2 Cons.prems(1) by (auto split: sum.splits)
    ultimately show ?thesis by simp
  qed
qed simp

section \<open>Decisions are final\<close>

lemma map_le_lookup: "m \<subseteq>\<^sub>m n \<Longrightarrow> m k = Some v \<Longrightarrow> n k = Some v"
  by (metis domI map_le_def)

lemma memory_step_decisions:
  "memory_step s now m m' \<Longrightarrow> map_of (sm_decisions m) \<subseteq>\<^sub>m map_of (sm_decisions m')"
  by (erule memory_stepE) (auto simp: decided_def map_le_def)

lemma evaluate_all_decisions:
  assumes "evaluate_all env context signal ss m = (r, m')"
  shows "map_of (sm_decisions m) \<subseteq>\<^sub>m map_of (sm_decisions m')"
  by (rule evaluate_all_invariant [OF assms]) (auto intro: map_le_trans memory_step_decisions)

lemma evaluate_scenario_replay:
  assumes "evaluate_scenario env context signal s m = (Inr ds, m')"
    and "map_of (sm_decisions m') \<subseteq>\<^sub>m map_of (sm_decisions n)"
  shows "evaluate_scenario env other signal s n = (Inr ds, n)"
proof (cases "trigger_matches (sn_trigger s) signal")
  case False
  with assms(1) show ?thesis by (simp add: evaluate_scenario_def)
next
  case True
  with assms(1) obtain key k where key: "trigger_key_of (sn_trigger s) signal = Inr key" "scenario_attempt_id env s key = Inr k"
    by (auto simp: evaluate_scenario_def bind_res_def split: sum.splits)
  have "\<exists>d. ds = [d] \<and> map_of (sm_decisions m') k = Some d"
  proof (cases "map_of (sm_decisions m) k")
    case (Some d)
    with assms(1) True key show ?thesis by (auto simp: evaluate_scenario_def)
  next
    case None
    have "\<exists>d. ds = [d] \<and> map_of (sm_decisions m') k = Some d"
      if "decide_scenario env context signal s k key m = (Inr ds, m')"
      using that
      by (auto simp: decide_scenario_def store_decision_def inactive_decision_def bind_m_def
          split: sum.splits bool.splits prod.splits)
    with None assms(1) True key show ?thesis
      by (auto simp: evaluate_scenario_def store_decision_def inactive_decision_def split: if_splits)
  qed
  then obtain d where "ds = [d]" "map_of (sm_decisions n) k = Some d"
    using map_le_lookup [OF assms(2)] by auto
  with True key show ?thesis by (simp add: evaluate_scenario_def)
qed

lemma evaluate_all_replay:
  assumes "evaluate_all env context signal ss m = (Inr ds, m')"
    and "map_of (sm_decisions m') \<subseteq>\<^sub>m map_of (sm_decisions n)"
  shows "evaluate_all env other signal ss n = (Inr ds, n)"
  using assms
proof (induction ss arbitrary: m ds)
  case (Cons s ss)
  then obtain a m1 b where ab: "evaluate_scenario env context signal s m = (Inr a, m1)"
    "evaluate_all env context signal ss m1 = (Inr b, m')" "ds = a @ b"
    by (auto split: prod.splits sum.splits)
  have "map_of (sm_decisions m1) \<subseteq>\<^sub>m map_of (sm_decisions n)"
    using evaluate_all_decisions [OF ab(2)] Cons.prems(2) by (rule map_le_trans)
  from evaluate_scenario_replay [OF ab(1) this] Cons.IH [OF ab(2) Cons.prems(2)] ab(3) show ?case by simp
qed simp

section \<open>Runs\<close>

definition restart :: "('v, 'c) scenario_engine \<Rightarrow> ('v, 'c) scenario_engine" where
  "restart e = e\<lparr>se_memory := restore_state (Some (snapshot_state (se_memory e)))\<rparr>"

text \<open>
  A run of the engine: valid scenarios are registered, signals are evaluated (also when a condition
  raises half way), activations expire, and the process may stop and restore its own snapshot.
\<close>

inductive scenario_step :: "scenario_env \<Rightarrow> ('v, 'c) scenario_engine \<Rightarrow> ('v, 'c) scenario_engine \<Rightarrow> bool" for env where
  xstep_register: "mk_scenario s = Inr s \<Longrightarrow> register s e = (r, e') \<Longrightarrow> scenario_step env e e'"
| xstep_evaluate: "evaluate env c signal e = (r', e') \<Longrightarrow> scenario_step env e e'"
| xstep_expire: "scenario_step env e (e\<lparr>se_memory := snd (expire_due t (se_memory e))\<rparr>)"
| xstep_restart: "scenario_step env e (restart e)"

definition activations_ok :: "('v, 'c) scenario list \<Rightarrow> 'v scenario_memory \<Rightarrow> bool" where
  "activations_ok ss m \<longleftrightarrow>
     (\<forall>k a. map_of (sm_activations m) k = Some a \<longrightarrow> sa_scenario_name a \<in> sn_name ` set ss \<and>
        (\<exists>j d. map_of (sm_decisions m) j = Some d \<and> sx_activated d \<and> sx_activation_id d = Some k \<and>
           sx_scenario_name d = sa_scenario_name a)) \<and>
     (\<forall>s \<in> set ss. \<not> sn_allow_reentry s \<longrightarrow> (\<forall>k k' a a'. map_of (sm_activations m) k = Some a \<longrightarrow>
        map_of (sm_activations m) k' = Some a' \<longrightarrow> sa_scenario_name a = sn_name s \<longrightarrow> sa_scenario_name a' = sn_name s \<longrightarrow> k = k'))"

definition scenario_inv :: "('v, 'c) scenario_engine \<Rightarrow> bool" where
  "scenario_inv e \<longleftrightarrow> keyed sn_name (se_scenarios e) \<and> (\<forall>s \<in> set (dvalues (se_scenarios e)). mk_scenario s = Inr s) \<and>
     memory_keyed (se_memory e) \<and> activations_ok (dvalues (se_scenarios e)) (se_memory e)"

text \<open>Whether the activations are in order depends on lookups only, and stays when activations go.\<close>

lemma activations_ok_mono:
  assumes "activations_ok ss m" and "map_of (sm_activations n) \<subseteq>\<^sub>m map_of (sm_activations m)"
    and "map_of (sm_decisions m) \<subseteq>\<^sub>m map_of (sm_decisions n)"
  shows "activations_ok ss n"
proof -
  have act: "map_of (sm_activations m) k = Some a" if "map_of (sm_activations n) k = Some a" for k a
    using that by (rule map_le_lookup [OF assms(2)])
  have dec: "map_of (sm_decisions n) k = Some d" if "map_of (sm_decisions m) k = Some d" for k d
    using that by (rule map_le_lookup [OF assms(3)])
  show ?thesis using assms(1) act dec unfolding activations_ok_def by meson
qed

lemma is_scenario_active_iff:
  "memory_keyed m \<Longrightarrow> is_scenario_active n m \<longleftrightarrow> (\<exists>k a. map_of (sm_activations m) k = Some a \<and> sa_scenario_name a = n)"
proof -
  assume "memory_keyed m"
  then have key: "keyed sa_activation_id (sm_activations m)" by (simp add: memory_keyed_def)
  show ?thesis
    using keyed_mem_iff [OF key] keyed_lookup [OF key] unfolding is_scenario_active_def list_ex_iff by metis
qed

lemma memory_step_ok:
  assumes step: "memory_step s now m m'" and s: "s \<in> set ss" "inj_on sn_name (set ss)"
    and ok: "memory_keyed m" "activations_ok ss m"
  shows "memory_keyed m' \<and> activations_ok ss m'"
  using step
proof (cases rule: memory_step.cases)
  case memory_same
  with ok show ?thesis by simp
next
  case (memory_negative d)
  have "map_of (sm_activations m') \<subseteq>\<^sub>m map_of (sm_activations m)" using memory_negative by simp
  from activations_ok_mono [OF ok(2) this memory_step_decisions [OF step]] memory_negative(1) ok(1) show ?thesis
    by (auto simp: memory_keyed_def)
next
  case 3: (memory_positive d a)
  let ?k = "sa_activation_id a"
  have keys: "memory_keyed m'" using ok(1) 3 by (auto simp: memory_keyed_def)
  have dec: "map_of (sm_decisions m') k = Some x" if "map_of (sm_decisions m) k = Some x" for k x
    using that by (rule map_le_lookup [OF memory_step_decisions [OF step]])
  have new: "map_of (sm_decisions m') (sx_attempt_id d) = Some d" "sx_activated d" "sx_activation_id d = Some ?k"
    "sx_scenario_name d = sa_scenario_name a" "sa_scenario_name a = sn_name s"
    using 3 by (auto simp: activation_allowed_def decided_def)
  have acts: "map_of (sm_activations m') = (map_of (sm_activations m))(?k \<mapsto> a)" using 3 by simp
  have "activations_ok ss m'"
    unfolding activations_ok_def acts
  proof (intro conjI allI ballI impI)
    fix k b assume b: "((map_of (sm_activations m))(?k \<mapsto> a)) k = Some b"
    show "sa_scenario_name b \<in> sn_name ` set ss"
      using b s(1) new(5) ok(2) unfolding activations_ok_def by (cases "k = ?k") auto
    show "\<exists>j d. map_of (sm_decisions m') j = Some d \<and> sx_activated d \<and> sx_activation_id d = Some k \<and>
        sx_scenario_name d = sa_scenario_name b"
      using b new dec ok(2) unfolding activations_ok_def by (cases "k = ?k") (auto, meson)
  next
    fix r k k' b b' assume r: "r \<in> set ss" "\<not> sn_allow_reentry r"
      and b: "((map_of (sm_activations m))(?k \<mapsto> a)) k = Some b" "((map_of (sm_activations m))(?k \<mapsto> a)) k' = Some b'"
      "sa_scenario_name b = sn_name r" "sa_scenario_name b' = sn_name r"
    show "k = k'"
    proof (cases "r = s")
      case True
      with r(2) 3 have "\<not> is_scenario_active (sn_name s) m" by (auto simp: activation_allowed_def)
      then have "sa_scenario_name x \<noteq> sn_name s" if "map_of (sm_activations m) j = Some x" for j x
        using that is_scenario_active_iff [OF ok(1)] by blast
      with b True show ?thesis by (metis fun_upd_other)
    next
      case False
      then have "sn_name r \<noteq> sn_name s" using s r(1) by (auto dest: inj_onD)
      with b new(5) have "map_of (sm_activations m) k = Some b" "map_of (sm_activations m) k' = Some b'"
        by (auto split: if_splits)
      with b(3,4) r ok(2) show ?thesis unfolding activations_ok_def by blast
    qed
  qed
  with keys show ?thesis by simp
qed

lemma expire_due_ok: "memory_keyed m \<Longrightarrow> activations_ok ss m \<Longrightarrow> activations_ok ss (snd (expire_due t m))"
  by (rule activations_ok_mono) (auto simp: map_le_def expire_due_lookup dom_def split: option.splits if_splits)

lemma scenario_step_inv:
  assumes "scenario_step env e e'" and inv: "scenario_inv e"
  shows "scenario_inv e'"
  using assms(1)
proof cases
  case (xstep_register s r)
  show ?thesis
  proof (cases "dhas (se_scenarios e) (sn_name s)")
    case True
    with xstep_register inv show ?thesis by (simp add: register_def)
  next
    case False
    then have none: "map_of (se_scenarios e) (sn_name s) = None" by (simp add: map_of_eq_None_iff)
    from False xstep_register have e': "e' = e\<lparr>se_scenarios := se_scenarios e @ [(sn_name s, s)]\<rparr>"
      by (simp add: register_def update_new [OF none])
    have "keyed sn_name (se_scenarios e')"
      using keyed_dset [of sn_name "se_scenarios e" s "sn_name s"] inv update_new [OF none] e'
      by (simp add: scenario_inv_def)
    moreover have "activations_ok (dvalues (se_scenarios e')) (se_memory e')"
    proof -
      have "sn_name s \<notin> sn_name ` set (dvalues (se_scenarios e))"
        using False inv unfolding scenario_inv_def keyed_def by force
      then have fresh: "sa_scenario_name a \<noteq> sn_name s" if "map_of (sm_activations (se_memory e)) k = Some a" for k a
        using that inv unfolding scenario_inv_def activations_ok_def by metis
      have ok: "activations_ok (dvalues (se_scenarios e)) (se_memory e)" using inv by (simp add: scenario_inv_def)
      show ?thesis
        unfolding activations_ok_def
      proof (intro conjI allI ballI impI)
        fix r k k' a a' assume "r \<in> set (dvalues (se_scenarios e'))" "\<not> sn_allow_reentry r"
          "map_of (sm_activations (se_memory e')) k = Some a" "map_of (sm_activations (se_memory e')) k' = Some a'"
          "sa_scenario_name a = sn_name r" "sa_scenario_name a' = sn_name r"
        with fresh ok e' show "k = k'" unfolding activations_ok_def by fastforce
      qed (use ok e' in \<open>auto simp: activations_ok_def\<close>)
    qed
    ultimately show ?thesis using inv xstep_register e' by (auto simp: scenario_inv_def)
  qed
next
  case (xstep_evaluate c signal r)
  let ?ss = "dvalues (se_scenarios e)"
  obtain m where run: "evaluate_all env c signal (scenario_order e) (snd (expire_due (sg_now signal) (se_memory e))) = (r, m)"
    and e': "e' = e\<lparr>se_memory := m\<rparr>"
    using xstep_evaluate by (auto simp: evaluate_def split: prod.splits)
  have inj: "inj_on sn_name (set ?ss)" using inv keyed_values_inj [of sn_name "se_scenarios e"] by (simp add: scenario_inv_def)
  have "memory_keyed m \<and> activations_ok ?ss m"
  proof (rule evaluate_all_invariant [OF run])
    show "memory_keyed (snd (expire_due (sg_now signal) (se_memory e))) \<and>
        activations_ok ?ss (snd (expire_due (sg_now signal) (se_memory e)))"
      using inv by (simp add: scenario_inv_def expire_due_keyed expire_due_ok)
    show "memory_keyed m' \<and> activations_ok ?ss m'"
      if "s \<in> set (scenario_order e)" "memory_keyed m \<and> activations_ok ?ss m" "memory_step s (sg_now signal) m m'" for s m m'
      using memory_step_ok [OF that(3) _ inj] that by (simp add: scenario_order_def)
  qed
  with inv e' show ?thesis by (simp add: scenario_inv_def)
next
  case (xstep_expire t)
  with inv show ?thesis by (simp add: scenario_inv_def expire_due_keyed expire_due_ok)
next
  case xstep_restart
  with inv show ?thesis
    by (auto simp: scenario_inv_def restart_def restored_keyed restored_lookups intro: activations_ok_mono)
qed

lemma reachable_scenario_inv: "(scenario_step env)\<^sup>*\<^sup>* new_scenario_engine e \<Longrightarrow> scenario_inv e"
proof (induction rule: rtranclp_induct)
  case base
  show ?case
    by (simp add: scenario_inv_def new_scenario_engine_def memory_keyed_def empty_memory_def activations_ok_def)
next
  case (step e e')
  from scenario_step_inv [OF step.hyps(2) step.IH] show ?case .
qed

lemma distinct_const_le_1:
  assumes "distinct (map f xs)" and "\<And>a b. a \<in> set xs \<Longrightarrow> b \<in> set xs \<Longrightarrow> f a = f b"
  shows "length xs \<le> 1"
proof (rule ccontr)
  assume "\<not> length xs \<le> 1"
  then obtain a b ys where "xs = a # b # ys" by (cases xs; cases "tl xs") auto
  with assms(1) assms(2) [of a b] show False by simp
qed

section \<open>Examples\<close>

text \<open>A scenario that every tick triggers, for ten microseconds.\<close>

definition storm :: "(nat, unit) scenario" where
  "storm = \<lparr>sn_name = ''storm'', sn_trigger = TickTrigger 1 0, sn_effects = [AttributeEffect ''wind'' 9], sn_condition = None,
     sn_activation_probability = Fin 1, sn_duration = Some 10, sn_priority = 100, sn_allow_reentry = False\<rparr>"

definition storm_env :: scenario_env where
  "storm_env = \<lparr>sv_uuid5 = \<lambda>n s. ''id'', sv_blake2b = \<lambda>s. 0, sv_random = \<lambda>w. Fin 0, sv_root_seed = 1\<rparr>"

definition storm_tick :: "nat scenario_signal" where
  "storm_tick = \<lparr>sg_kind = TICK, sg_now = 5, sg_tick = 0, sg_event = None\<rparr>"

definition storm_decision :: scenario_decision where
  "storm_decision = \<lparr>sx_attempt_id = ''id'', sx_scenario_name = ''storm'', sx_activated = True, sx_probability = Fin 1,
     sx_draw = Some (Fin 0), sx_reason = ''activated'', sx_activation_id = Some ''id''\<rparr>"

definition storm_engine :: "(nat, unit) scenario_engine" where
  "storm_engine = new_scenario_engine\<lparr>se_scenarios := [(''storm'', storm)]\<rparr>"

definition stormy_engine :: "(nat, unit) scenario_engine" where
  "stormy_engine = storm_engine\<lparr>se_memory := \<lparr>sm_decisions = [(''id'', storm_decision)],
     sm_activations = [(''id'', activation_of ''id'' storm storm_tick (Some 15) (TickKey 0))]\<rparr>\<rparr>"

lemma storm_registered: "register storm new_scenario_engine = (Inr (), storm_engine)" "mk_scenario storm = Inr storm"
  by (simp_all add: register_def storm_def new_scenario_engine_def storm_engine_def mk_scenario_def)

lemma storm_evaluated: "evaluate storm_env () storm_tick storm_engine = (Inr [storm_decision], stormy_engine)"
  by (simp add: evaluate_def storm_engine_def stormy_engine_def new_scenario_engine_def scenario_order_def empty_memory_def
      expire_due_def ordered_activations_def by_key_def evaluate_scenario_def storm_def storm_tick_def storm_env_def
      scenario_attempt_id_def deterministic_id_def encode_deterministic_parts_def frame_of_def encode_scalar_def dec_int_def
      dec_nat_small is_scenario_active_def decide_scenario_def activate_scenario_if_selected_def activation_draw_def
      scoped_seed_def expiry_def dt_add_def datetime_max_def activation_of_def store_decision_def bind_m_def
      storm_decision_def)

lemma storm_run: "(scenario_step storm_env)\<^sup>*\<^sup>* new_scenario_engine stormy_engine"
  using xstep_register [OF storm_registered(2,1)] xstep_evaluate [OF storm_evaluated] by (meson rtranclp.simps)

section \<open>Properties\<close>

text \<open>
  C40. Scenarios activate only by decision and do not pile up: in every run of the engine, restarts and raising
  conditions included, a scenario that forbids reentry has at most one activation, and every activation
  belongs to a registered scenario and to a stored positive decision that names it.
\<close>

theorem activations_decided_and_exclusive:
  assumes "(scenario_step env)\<^sup>*\<^sup>* new_scenario_engine e"
  shows "(\<forall>s \<in> set (dvalues (se_scenarios e)). \<not> sn_allow_reentry s \<longrightarrow>
      length (filter (\<lambda>a. sa_scenario_name a = sn_name s) (ordered_activations (se_memory e))) \<le> 1) \<and>
    (\<forall>a \<in> set (ordered_activations (se_memory e)). sa_scenario_name a \<in> sn_name ` set (dvalues (se_scenarios e)) \<and>
      (\<exists>d \<in> set (decisions_of (se_memory e)). sx_activated d \<and> sx_activation_id d = Some (sa_activation_id a) \<and>
         sx_scenario_name d = sa_scenario_name a))"
proof -
  let ?m = "se_memory e"
  have inv: "scenario_inv e" by (rule reachable_scenario_inv [OF assms])
  then have keys: "keyed sx_attempt_id (sm_decisions ?m)" "keyed sa_activation_id (sm_activations ?m)"
    and ok: "activations_ok (dvalues (se_scenarios e)) ?m" by (simp_all add: scenario_inv_def memory_keyed_def)
  have at: "map_of (sm_activations ?m) (sa_activation_id a) = Some a" if "a \<in> set (ordered_activations ?m)" for a
    using that keyed_mem_iff [OF keys(2)] by (simp add: ordered_activations_def)
  have "length (filter (\<lambda>a. sa_scenario_name a = sn_name s) (ordered_activations ?m)) \<le> 1"
    if s: "s \<in> set (dvalues (se_scenarios e))" "\<not> sn_allow_reentry s" for s
  proof -
    let ?as = "filter (\<lambda>a. sa_scenario_name a = sn_name s) (ordered_activations ?m)"
    have "distinct (map sa_activation_id (ordered_activations ?m))"
      by (rule keyed_distinct_view [OF keys(2)]) (simp add: ordered_activations_def)
    then have d: "distinct (map sa_activation_id ?as)" by (simp add: distinct_map_filter)
    have "sa_activation_id a = sa_activation_id b" if "a \<in> set ?as" "b \<in> set ?as" for a b
    proof -
      from that have "map_of (sm_activations ?m) (sa_activation_id a) = Some a" "map_of (sm_activations ?m) (sa_activation_id b) = Some b"
        and "sa_scenario_name a = sn_name s" "sa_scenario_name b = sn_name s" using at by simp_all
      with s ok show ?thesis unfolding activations_ok_def by blast
    qed
    with d show ?thesis by (rule distinct_const_le_1)
  qed
  moreover have "\<exists>d \<in> set (decisions_of ?m). sx_activated d \<and> sx_activation_id d = Some (sa_activation_id a) \<and>
      sx_scenario_name d = sa_scenario_name a" if a: "a \<in> set (ordered_activations ?m)" for a
  proof -
    obtain j d where d: "map_of (sm_decisions ?m) j = Some d" "sx_activated d" "sx_activation_id d = Some (sa_activation_id a)"
      "sx_scenario_name d = sa_scenario_name a"
      using ok at [OF a] unfolding activations_ok_def by blast
    then have "d \<in> set (decisions_of ?m)" by (force simp: decisions_of_def dest: map_of_SomeD)
    with d show ?thesis by blast
  qed
  ultimately show ?thesis using ok at unfolding activations_ok_def by blast
qed

theorem activations_decided_and_exclusive_witness:
  "length (ordered_activations (se_memory stormy_engine)) \<le> 1 \<and> storm_decision \<in> set (decisions_of (se_memory stormy_engine))"
  using activations_decided_and_exclusive [OF storm_run]
  by (simp add: stormy_engine_def storm_engine_def storm_def new_scenario_engine_def ordered_activations_def by_key_def
      activation_of_def decisions_of_def)

text \<open>
  C20. A signal is decided once, and a restart changes nothing: a stored decision is never replaced, restoring
  a snapshot gives back the same snapshot, and after a signal was evaluated, evaluating it again returns
  the same decisions and changes nothing, whatever the context has become, in the same process and in
  one that restored the snapshot.
\<close>

theorem signals_decided_once:
  assumes "(scenario_step env)\<^sup>*\<^sup>* new_scenario_engine e" and "evaluate env context signal e = (Inr ds, e')"
  shows "map_of (sm_decisions (se_memory e)) \<subseteq>\<^sub>m map_of (sm_decisions (se_memory e')) \<and>
    evaluate env other signal e' = (Inr ds, e') \<and>
    evaluate env other signal (restart e') = (Inr ds, restart e') \<and>
    snapshot_state (se_memory (restart e')) = snapshot_state (se_memory e')"
proof -
  let ?m = "se_memory e'" and ?n = "se_memory (restart e')" and ?now = "sg_now signal"
  have inv: "scenario_inv e" by (rule reachable_scenario_inv [OF assms(1)])
  then have inv': "scenario_inv e'" by (rule scenario_step_inv [OF xstep_evaluate [OF assms(2)]])
  then have keyed: "memory_keyed ?m" by (simp add: scenario_inv_def)
  let ?start = "snd (expire_due ?now (se_memory e))"
  have run: "evaluate_all env context signal (scenario_order e) ?start = (Inr ds, ?m)"
    and same: "se_scenarios e' = se_scenarios e"
    using assms(2) by (auto simp: evaluate_def split: prod.splits)
  have order: "scenario_order e' = scenario_order e" "scenario_order (restart e') = scenario_order e"
    by (simp_all add: scenario_order_def restart_def same)
  have "none_due ?now ?m"
  proof (rule evaluate_all_invariant [OF run])
    show "none_due ?now ?start" using inv by (simp add: scenario_inv_def expire_due_none_due)
    show "none_due ?now m'" if s: "s \<in> set (scenario_order e)" and m: "none_due ?now m" "memory_step s ?now m m'" for s m m'
    proof -
      have "mk_scenario s = Inr s" using s inv by (auto simp: scenario_order_def scenario_inv_def)
      then have "0 < d" if "sn_duration s = Some d" for d using that by (simp add: mk_scenario_def)
      then have "?now < x" if "expiry s ?now = Inr (Some x)" for x
        using that by (auto simp: expiry_def dt_add_Inr_iff split: option.splits)
      with m(2,1) show ?thesis by (auto simp: none_due_def activation_allowed_def elim!: memory_stepE split: if_splits)
    qed
  qed
  moreover from this have "none_due ?now ?n" using restored_lookups [OF keyed] by (simp add: none_due_def restart_def)
  ultimately have still: "expire_due ?now ?m = ([], ?m)" "expire_due ?now ?n = ([], ?n)"
    using keyed restored_keyed by (auto simp: restart_def intro: none_due_expire)
  have "map_of (sm_decisions (se_memory e)) \<subseteq>\<^sub>m map_of (sm_decisions ?m)"
    using evaluate_all_decisions [OF run] by simp
  moreover have "evaluate env other signal e' = (Inr ds, e')"
    using evaluate_all_replay [OF run, of ?m] by (simp add: evaluate_def still order)
  moreover have "evaluate env other signal (restart e') = (Inr ds, restart e')"
  proof -
    have "map_of (sm_decisions ?n) = map_of (sm_decisions ?m)" using restored_lookups [OF keyed] by (simp add: restart_def)
    then have "evaluate_all env other signal (scenario_order e) ?n = (Inr ds, ?n)"
      using evaluate_all_replay [OF run, of ?n] by simp
    then show ?thesis by (simp add: evaluate_def still order)
  qed
  moreover have "snapshot_state ?n = snapshot_state ?m" using restored_snapshot [OF keyed] by (simp add: restart_def)
  ultimately show ?thesis by blast
qed

theorem signals_decided_once_witness:
  "evaluate storm_env () storm_tick (restart stormy_engine) = (Inr [storm_decision], restart stormy_engine)"
proof -
  have "(scenario_step storm_env)\<^sup>*\<^sup>* new_scenario_engine storm_engine"
    using xstep_register [OF storm_registered(2,1)] by blast
  from signals_decided_once [OF this storm_evaluated, of "()"] show ?thesis by blast
qed

end
