(* ===== verification/Memory_State.thy ===== *)
theory Memory_State
  imports Durable_Models
begin

text \<open>
  The first half of \<open>persistence/memory.py\<close>: the durable state \<open>_State\<close>, one dictionary per
  collection (and the event log), and \<open>MemoryUnitOfWork\<close>, which stages changes on a fork of
  the state and remembers the identity of every record it touched. A mutator returns the new
  unit of work or the exception its guards raise. \<open>deepcopy\<close> is the identity on HOL values.
\<close>

section \<open>The durable state\<close>

record 'v state =
  st_entities :: "((string \<times> string) \<times> 'v entity) list"
  st_events :: "'v domain_event list"
  st_commands :: "(string \<times> 'v command) list"
  st_scheduled_work :: "(string \<times> scheduled_work) list"
  st_simulation_positions :: "(string \<times> simulation_position) list"
  st_scenario_states :: "(string \<times> 'v scenario_runtime_state) list"
  st_resource_definitions :: "(string \<times> resource_definition) list"
  st_resource_demands :: "(string \<times> resource_demand) list"
  st_resource_reservations :: "(string \<times> resource_reservation) list"
  st_resource_release_intents :: "(string \<times> resource_release_intent) list"
  st_store_definitions :: "(string \<times> store_definition) list"
  st_store_items :: "(string \<times> 'v durable_store_item) list"
  st_store_put_intents :: "(string \<times> 'v store_put_intent) list"
  st_store_get_requests :: "(string \<times> store_get_request) list"
  st_store_get_results :: "(string \<times> 'v store_get_result) list"
  st_container_definitions :: "(string \<times> container_definition) list"
  st_container_states :: "(string \<times> container_state) list"
  st_container_operation_intents :: "(string \<times> container_operation_intent) list"
  st_container_operation_results :: "(string \<times> container_operation_result) list"
  st_preemptive_resource_definitions :: "(string \<times> preemptive_resource_definition) list"
  st_preemptive_resource_demands :: "(string \<times> preemptive_resource_demand) list"
  st_preemptive_resource_reservations :: "(string \<times> preemptive_resource_reservation) list"
  st_preemptive_resource_release_intents :: "(string \<times> preemptive_resource_release_intent) list"
  st_resource_preemption_results :: "(string \<times> resource_preemption_result) list"
  st_job_states :: "(string \<times> 'v simulation_job_state) list"
  st_sink_deliveries :: "(string \<times> 'v sink_delivery) list"
  st_sink_checkpoints :: "((string \<times> string) \<times> sink_checkpoint) list"
  st_boundary_messages :: "(string \<times> boundary_message) list"
  st_boundary_deliveries :: "(string \<times> boundary_delivery) list"
  st_boundary_consumptions :: "(string \<times> boundary_consumption) list"
  st_business_effects :: "(string \<times> business_effect_applied) list"
  st_customer_settlement_bindings :: "((string \<times> string) \<times> customer_settlement_binding) list"
  st_domain_deliveries :: "(string \<times> 'v domain_delivery) list"
  st_committed_ticks :: "(string \<times> int) list"

text \<open>\<open>_State()\<close>: every collection empty.\<close>

definition empty_state :: "'v state" where
  "empty_state = \<lparr>st_entities = [],
     st_events = [],
     st_commands = [],
     st_scheduled_work = [],
     st_simulation_positions = [],
     st_scenario_states = [],
     st_resource_definitions = [],
     st_resource_demands = [],
     st_resource_reservations = [],
     st_resource_release_intents = [],
     st_store_definitions = [],
     st_store_items = [],
     st_store_put_intents = [],
     st_store_get_requests = [],
     st_store_get_results = [],
     st_container_definitions = [],
     st_container_states = [],
     st_container_operation_intents = [],
     st_container_operation_results = [],
     st_preemptive_resource_definitions = [],
     st_preemptive_resource_demands = [],
     st_preemptive_resource_reservations = [],
     st_preemptive_resource_release_intents = [],
     st_resource_preemption_results = [],
     st_job_states = [],
     st_sink_deliveries = [],
     st_sink_checkpoints = [],
     st_boundary_messages = [],
     st_boundary_deliveries = [],
     st_boundary_consumptions = [],
     st_business_effects = [],
     st_customer_settlement_bindings = [],
     st_domain_deliveries = [],
     st_committed_ticks = []\<rparr>"

text \<open>
  \<open>fork_state\<close> copies the top-level collections and shares the records. Records are immutable
  values here, so the fork is the same value; that later writes to it leave the original alone is
  what \<open>transaction\<close> makes explicit.
\<close>

definition fork_state :: "'v state \<Rightarrow> 'v state" where
  "fork_state s = s"

section \<open>The unit of work\<close>

text \<open>The key of a dirty record: a string, a pair of strings, or a position in the event log.\<close>

datatype dkey = KStr string | KPair string string | KIdx nat

record 'v uow =
  working :: "'v state"
  closed :: bool
  dirty_records :: "(string \<times> dkey) set"

definition new_uow :: "'v state \<Rightarrow> 'v uow" where
  "new_uow s = \<lparr>working = s, closed = False, dirty_records = {}\<rparr>"

text \<open>\<open>_mark_dirty\<close>, after the change to the working state that precedes it in every mutator.\<close>

definition mark_dirty :: "string \<Rightarrow> dkey \<Rightarrow> 'v state \<Rightarrow> 'v uow \<Rightarrow> 'v uow" where
  "mark_dirty collection key s u =
     u\<lparr>working := s, dirty_records := insert (collection, key) (dirty_records u)\<rparr>"

subsection \<open>Jobs, boundary records and sinks\<close>

definition get_job_state :: "string \<Rightarrow> 'v uow \<Rightarrow> ('v simulation_job_state) option" where
  "get_job_state job_id u = dget (st_job_states (working u)) job_id"

text \<open>The message also shows the two domain names.\<close>

definition save_job_state :: "'v simulation_job_state \<Rightarrow> 'v uow \<Rightarrow> 'v uow res" where
  "save_job_state s u = guards
     [(case dget (st_job_states (working u)) (js_job_id s) of None \<Rightarrow> False | Some existing \<Rightarrow> js_domain_name existing \<noteq> js_domain_name s,
        ValueError (''job domain cannot change: '' @ js_job_id s))]
     (mark_dirty ''job_states'' (KStr (js_job_id s))
       ((working u)\<lparr>st_job_states := dset (js_job_id s) s (st_job_states (working u))\<rparr>) u)"

definition get_boundary_message :: "string \<Rightarrow> 'v uow \<Rightarrow> (boundary_message) option" where
  "get_boundary_message message_id u = dget (st_boundary_messages (working u)) message_id"

definition uow_boundary_messages :: "'v uow \<Rightarrow> (boundary_message) list" where
  "uow_boundary_messages u = by_key (st_boundary_messages (working u))"

definition save_boundary_message :: "boundary_message \<Rightarrow> 'v uow \<Rightarrow> 'v uow res" where
  "save_boundary_message m u = guards
     [(case dget (st_boundary_messages (working u)) (bm_message_id m) of None \<Rightarrow> False | Some existing \<Rightarrow> existing \<noteq> m,
        ValueError (''boundary message identity conflict: '' @ bm_message_id m))]
     (mark_dirty ''boundary_messages'' (KStr (bm_message_id m))
       ((working u)\<lparr>st_boundary_messages := dset (bm_message_id m) m (st_boundary_messages (working u))\<rparr>) u)"

definition get_boundary_delivery :: "string \<Rightarrow> 'v uow \<Rightarrow> (boundary_delivery) option" where
  "get_boundary_delivery delivery_id u = dget (st_boundary_deliveries (working u)) delivery_id"

definition uow_boundary_deliveries :: "'v uow \<Rightarrow> (boundary_delivery) list" where
  "uow_boundary_deliveries u = by_key (st_boundary_deliveries (working u))"

definition save_boundary_delivery :: "boundary_delivery \<Rightarrow> 'v uow \<Rightarrow> 'v uow res" where
  "save_boundary_delivery d u = guards
     [(case dget (st_boundary_deliveries (working u)) (bd_delivery_id d) of None \<Rightarrow> False | Some existing \<Rightarrow> bd_message_id existing \<noteq> bd_message_id d,
        ValueError (''boundary delivery identity conflict: '' @ bd_delivery_id d))]
     (mark_dirty ''boundary_deliveries'' (KStr (bd_delivery_id d))
       ((working u)\<lparr>st_boundary_deliveries := dset (bd_delivery_id d) d (st_boundary_deliveries (working u))\<rparr>) u)"

definition get_boundary_consumption :: "string \<Rightarrow> 'v uow \<Rightarrow> (boundary_consumption) option" where
  "get_boundary_consumption delivery_id u = dget (st_boundary_consumptions (working u)) delivery_id"

definition uow_boundary_consumptions :: "'v uow \<Rightarrow> (boundary_consumption) list" where
  "uow_boundary_consumptions u = by_key (st_boundary_consumptions (working u))"

definition save_boundary_consumption :: "boundary_consumption \<Rightarrow> 'v uow \<Rightarrow> 'v uow res" where
  "save_boundary_consumption c u = guards
     [(case dget (st_boundary_consumptions (working u)) (bc_delivery_id c) of None \<Rightarrow> False | Some existing \<Rightarrow> existing \<noteq> c,
        ValueError (''boundary consumption identity conflict: '' @ bc_delivery_id c))]
     (mark_dirty ''boundary_consumptions'' (KStr (bc_delivery_id c))
       ((working u)\<lparr>st_boundary_consumptions := dset (bc_delivery_id c) c (st_boundary_consumptions (working u))\<rparr>) u)"

definition binding_indices :: "customer_settlement_binding \<Rightarrow> (string \<times> string) list" where
  "binding_indices b = [(''order'', sb_order_id b), (''payment'', sb_payment_id b), (''journal'', sb_journal_id b)]"

definition get_customer_settlement_binding ::
  "string \<Rightarrow> string \<Rightarrow> 'v uow \<Rightarrow> (customer_settlement_binding option) res" where
  "get_customer_settlement_binding kind entity_id u =
     (if kind \<notin> {''order'', ''payment'', ''journal''}
      then Inl (ValueError ''unknown settlement binding identity kind'')
      else case dget (st_customer_settlement_bindings (working u)) (kind, entity_id) of
        None \<Rightarrow> Inr None
      | Some b \<Rightarrow>
          if list_ex (\<lambda>key. dget (st_customer_settlement_bindings (working u)) key \<noteq> Some b) (binding_indices b)
          then Inl (RuntimeError ''incomplete settlement binding identity indices'')
          else Inr (Some b))"

definition save_customer_settlement_binding ::
  "customer_settlement_binding \<Rightarrow> 'v uow \<Rightarrow> 'v uow res" where
  "save_customer_settlement_binding b u =
     (let previously = map (dget (st_customer_settlement_bindings (working u))) (binding_indices b)
      in bind_res (each_ok (\<lambda>((kind, i), existing). case existing of
             None \<Rightarrow> Inr ()
           | Some old \<Rightarrow> if old \<noteq> b then Inl (ValueError (''settlement identity already bound: '' @ kind @ i)) else Inr ())
           (zip (binding_indices b) previously))
         (\<lambda>_. guards
           [(list_ex (\<lambda>e. e \<noteq> None) previously \<and> \<not> list_all (\<lambda>e. e \<noteq> None) previously,
             RuntimeError ''incomplete settlement binding identity indices'')]
           (fold (\<lambda>(kind, i) u. mark_dirty ''customer_settlement_bindings'' (KPair kind i)
              ((working u)\<lparr>st_customer_settlement_bindings :=
                 dset (kind, i) b (st_customer_settlement_bindings (working u))\<rparr>) u)
              (binding_indices b) u)))"

definition get_business_effect :: "string \<Rightarrow> 'v uow \<Rightarrow> (business_effect_applied) option" where
  "get_business_effect effect_id u = dget (st_business_effects (working u)) effect_id"

definition uow_business_effects :: "'v uow \<Rightarrow> (business_effect_applied) list" where
  "uow_business_effects u = by_key (st_business_effects (working u))"

definition save_business_effect :: "business_effect_applied \<Rightarrow> 'v uow \<Rightarrow> 'v uow res" where
  "save_business_effect e u = guards
     [(case dget (st_business_effects (working u)) (be_effect_id e) of None \<Rightarrow> False | Some existing \<Rightarrow> existing \<noteq> e,
        ValueError (''business-effect certificate identity conflicts: '' @ be_effect_id e))]
     (mark_dirty ''business_effects'' (KStr (be_effect_id e))
       ((working u)\<lparr>st_business_effects := dset (be_effect_id e) e (st_business_effects (working u))\<rparr>) u)"

definition get_domain_delivery :: "string \<Rightarrow> 'v uow \<Rightarrow> ('v domain_delivery) option" where
  "get_domain_delivery mutation_id u = dget (st_domain_deliveries (working u)) mutation_id"

definition save_domain_delivery :: "'v domain_delivery \<Rightarrow> 'v uow \<Rightarrow> 'v uow res" where
  "save_domain_delivery d u = guards
     [(case dget (st_domain_deliveries (working u)) (dd_mutation_id d) of None \<Rightarrow> False | Some existing \<Rightarrow> dd_mutation existing \<noteq> dd_mutation d,
        ValueError (''domain mutation identity conflict: '' @ dd_mutation_id d))]
     (mark_dirty ''domain_deliveries'' (KStr (dd_mutation_id d))
       ((working u)\<lparr>st_domain_deliveries := dset (dd_mutation_id d) d (st_domain_deliveries (working u))\<rparr>) u)"

definition delete_domain_delivery :: "string \<Rightarrow> 'v uow \<Rightarrow> 'v uow res" where
  "delete_domain_delivery mutation_id u = Inr (mark_dirty ''domain_deliveries'' (KStr mutation_id)
     ((working u)\<lparr>st_domain_deliveries := dpop mutation_id (st_domain_deliveries (working u))\<rparr>) u)"

definition get_sink_delivery :: "string \<Rightarrow> 'v uow \<Rightarrow> ('v sink_delivery) option" where
  "get_sink_delivery delivery_id u = dget (st_sink_deliveries (working u)) delivery_id"

definition save_sink_delivery :: "'v sink_delivery \<Rightarrow> 'v uow \<Rightarrow> 'v uow res" where
  "save_sink_delivery d u = guards
     []
     (mark_dirty ''sink_deliveries'' (KStr (sl_delivery_id d))
       ((working u)\<lparr>st_sink_deliveries := dset (sl_delivery_id d) d (st_sink_deliveries (working u))\<rparr>) u)"

definition delete_sink_delivery :: "string \<Rightarrow> 'v uow \<Rightarrow> 'v uow res" where
  "delete_sink_delivery delivery_id u = Inr (mark_dirty ''sink_deliveries'' (KStr delivery_id)
     ((working u)\<lparr>st_sink_deliveries := dpop delivery_id (st_sink_deliveries (working u))\<rparr>) u)"

definition get_sink_checkpoint :: "string \<Rightarrow> string \<Rightarrow> 'v uow \<Rightarrow> sink_checkpoint option" where
  "get_sink_checkpoint job_id sink_name u = dget (st_sink_checkpoints (working u)) (job_id, sink_name)"

definition save_sink_checkpoint :: "sink_checkpoint \<Rightarrow> 'v uow \<Rightarrow> 'v uow res" where
  "save_sink_checkpoint c u = guards
     []
     (mark_dirty ''sink_checkpoints'' (KPair (sc_job_id c) (sc_sink_name c))
       ((working u)\<lparr>st_sink_checkpoints := dset (sc_job_id c, sc_sink_name c) c (st_sink_checkpoints (working u))\<rparr>) u)"

subsection \<open>Entities, events, commands and scheduled work\<close>

definition get_entity :: "string \<Rightarrow> string \<Rightarrow> 'v uow \<Rightarrow> ('v entity) option" where
  "get_entity entity_type entity_id u = dget (st_entities (working u)) (entity_type, entity_id)"

definition uow_entities :: "'v uow \<Rightarrow> ('v entity) list" where
  "uow_entities u = by_key (st_entities (working u))"

definition save_entity :: "'v entity \<Rightarrow> 'v uow \<Rightarrow> 'v uow res" where
  "save_entity e u = guards
     []
     (mark_dirty ''entities'' (KPair (en_entity_type e) (en_id e))
       ((working u)\<lparr>st_entities := dset (en_entity_type e, en_id e) e (st_entities (working u))\<rparr>) u)"

definition uow_events :: "'v uow \<Rightarrow> ('v domain_event) list" where
  "uow_events u = st_events (working u)"

definition get_event :: "string \<Rightarrow> 'v uow \<Rightarrow> ('v domain_event option) res" where
  "get_event event_id u =
     (case filter (\<lambda>e. ev_event_id e = event_id) (st_events (working u)) of
        [] \<Rightarrow> Inr None
      | m # ms \<Rightarrow> if list_ex (\<lambda>e. e \<noteq> m) ms
          then Inl (ValueError (''conflicting durable event identity: '' @ event_id))
          else Inr (Some m))"

definition blank_owner :: "string option \<Rightarrow> bool" where
  "blank_owner ow = (case ow of None \<Rightarrow> True | Some s \<Rightarrow> blank s)"

definition append_event :: "'v domain_event \<Rightarrow> 'v uow \<Rightarrow> 'v uow res" where
  "append_event e u = guards
     [(blank_owner (ev_owner_id e), ValueError ''durable domain event requires operational owner_id'')]
     (mark_dirty ''events'' (KIdx (length (st_events (working u))))
       ((working u)\<lparr>st_events := st_events (working u) @ [e]\<rparr>) u)"

definition get_command :: "string \<Rightarrow> 'v uow \<Rightarrow> ('v command) option" where
  "get_command command_id u = dget (st_commands (working u)) command_id"

definition uow_commands :: "'v uow \<Rightarrow> ('v command) list" where
  "uow_commands u = by_key (st_commands (working u))"

definition save_command :: "'v command \<Rightarrow> 'v uow \<Rightarrow> 'v uow res" where
  "save_command c u = guards
     []
     (mark_dirty ''commands'' (KStr (cm_command_id c))
       ((working u)\<lparr>st_commands := dset (cm_command_id c) c (st_commands (working u))\<rparr>) u)"

definition delete_command :: "string \<Rightarrow> 'v uow \<Rightarrow> 'v uow res" where
  "delete_command command_id u = Inr (mark_dirty ''commands'' (KStr command_id)
     ((working u)\<lparr>st_commands := dpop command_id (st_commands (working u))\<rparr>) u)"

definition uow_scheduled_work :: "'v uow \<Rightarrow> scheduled_work list" where
  "uow_scheduled_work u = sort (dvalues (st_scheduled_work (working u)))"

definition get_scheduled_work :: "string \<Rightarrow> 'v uow \<Rightarrow> (scheduled_work) option" where
  "get_scheduled_work work_id u = dget (st_scheduled_work (working u)) work_id"

definition save_scheduled_work :: "scheduled_work \<Rightarrow> 'v uow \<Rightarrow> 'v uow res" where
  "save_scheduled_work w u = guards
     [(\<not> dhas (st_commands (working u)) (sw_command_id w), KeyError (''unknown scheduled command: '' @ sw_command_id w))]
     (mark_dirty ''scheduled_work'' (KStr (sw_work_id w))
       ((working u)\<lparr>st_scheduled_work := dset (sw_work_id w) w (st_scheduled_work (working u))\<rparr>) u)"

definition delete_scheduled_work :: "string \<Rightarrow> 'v uow \<Rightarrow> 'v uow res" where
  "delete_scheduled_work work_id u = Inr (mark_dirty ''scheduled_work'' (KStr work_id)
     ((working u)\<lparr>st_scheduled_work := dpop work_id (st_scheduled_work (working u))\<rparr>) u)"

definition get_simulation_position :: "string \<Rightarrow> 'v uow \<Rightarrow> ((simulation_position) option) res" where
  "get_simulation_position owner_id u = guards [(blank owner_id, ValueError ''owner_id must not be empty'')]
     (dget (st_simulation_positions (working u)) owner_id)"

definition set_simulation_position :: "simulation_position \<Rightarrow> string \<Rightarrow> 'v uow \<Rightarrow> 'v uow res" where
  "set_simulation_position s owner_id u = guards [(blank owner_id, ValueError ''owner_id must not be empty'')]
     (mark_dirty ''simulation_positions'' (KStr owner_id)
       ((working u)\<lparr>st_simulation_positions := dset owner_id s (st_simulation_positions (working u))\<rparr>) u)"

definition get_scenario_state :: "string \<Rightarrow> 'v uow \<Rightarrow> (('v scenario_runtime_state) option) res" where
  "get_scenario_state owner_id u = guards [(blank owner_id, ValueError ''owner_id must not be empty'')]
     (dget (st_scenario_states (working u)) owner_id)"

definition set_scenario_state :: "'v scenario_runtime_state \<Rightarrow> string \<Rightarrow> 'v uow \<Rightarrow> 'v uow res" where
  "set_scenario_state s owner_id u = guards [(blank owner_id, ValueError ''owner_id must not be empty'')]
     (mark_dirty ''scenario_states'' (KStr owner_id)
       ((working u)\<lparr>st_scenario_states := dset owner_id s (st_scenario_states (working u))\<rparr>) u)"

definition set_committed_tick :: "int \<Rightarrow> string \<Rightarrow> 'v uow \<Rightarrow> 'v uow res" where
  "set_committed_tick tick owner_id u = guards [(blank owner_id, ValueError ''owner_id must not be empty'')]
     (mark_dirty ''committed_ticks'' (KStr owner_id)
       ((working u)\<lparr>st_committed_ticks := dset owner_id tick (st_committed_ticks (working u))\<rparr>) u)"

subsection \<open>Resources\<close>

definition get_resource_demand :: "string \<Rightarrow> 'v uow \<Rightarrow> (resource_demand) option" where
  "get_resource_demand request_id u = dget (st_resource_demands (working u)) request_id"

definition uow_resource_definitions :: "'v uow \<Rightarrow> (resource_definition) list" where
  "uow_resource_definitions u = by_key (st_resource_definitions (working u))"

definition save_resource_definition :: "resource_definition \<Rightarrow> 'v uow \<Rightarrow> 'v uow res" where
  "save_resource_definition d u = guards
     [(case dget (st_resource_definitions (working u)) (rd_name d) of None \<Rightarrow> False | Some existing \<Rightarrow> existing \<noteq> d,
        ValueError (''resource definition already exists: '' @ rd_name d))]
     (mark_dirty ''resource_definitions'' (KStr (rd_name d))
       ((working u)\<lparr>st_resource_definitions := dset (rd_name d) d (st_resource_definitions (working u))\<rparr>) u)"

definition save_resource_demand :: "resource_demand \<Rightarrow> 'v uow \<Rightarrow> 'v uow res" where
  "save_resource_demand d u = guards
     [(\<not> dhas (st_resource_definitions (working u)) (dm_resource_name d), KeyError (''unknown resource definition: '' @ dm_resource_name d)),
      (list_ex (\<lambda>r. rv_request_id r = dm_request_id d) (dvalues (st_resource_reservations (working u))),
        ValueError (''resource request already reserved: '' @ dm_request_id d)),
      (case dget (st_resource_demands (working u)) (dm_request_id d) of None \<Rightarrow> False | Some existing \<Rightarrow> existing \<noteq> d,
        ValueError (''resource demand already exists: '' @ dm_request_id d))]
     (mark_dirty ''resource_demands'' (KStr (dm_request_id d))
       ((working u)\<lparr>st_resource_demands := dset (dm_request_id d) d (st_resource_demands (working u))\<rparr>) u)"

definition delete_resource_demand :: "string \<Rightarrow> 'v uow \<Rightarrow> 'v uow res" where
  "delete_resource_demand request_id u = Inr (mark_dirty ''resource_demands'' (KStr request_id)
     ((working u)\<lparr>st_resource_demands := dpop request_id (st_resource_demands (working u))\<rparr>) u)"

definition get_resource_reservation :: "string \<Rightarrow> 'v uow \<Rightarrow> (resource_reservation) option" where
  "get_resource_reservation reservation_id u = dget (st_resource_reservations (working u)) reservation_id"

definition uow_resource_reservations :: "'v uow \<Rightarrow> (resource_reservation) list" where
  "uow_resource_reservations u = by_key (st_resource_reservations (working u))"

definition save_resource_reservation :: "resource_reservation \<Rightarrow> 'v uow \<Rightarrow> 'v uow res" where
  "save_resource_reservation r u = guards
     [(\<not> dhas (st_resource_definitions (working u)) (rv_resource_name r), KeyError (''unknown resource definition: '' @ rv_resource_name r)),
      (dhas (st_resource_demands (working u)) (rv_request_id r), ValueError (''resource request is still pending: '' @ rv_request_id r)),
      (list_ex (\<lambda>c. rv_request_id c = rv_request_id r \<and> rv_reservation_id c \<noteq> rv_reservation_id r)
         (dvalues (st_resource_reservations (working u))),
        ValueError (''resource request already reserved: '' @ rv_request_id r))]
     (mark_dirty ''resource_reservations'' (KStr (rv_reservation_id r))
       ((working u)\<lparr>st_resource_reservations := dset (rv_reservation_id r) r (st_resource_reservations (working u))\<rparr>) u)"

definition delete_resource_reservation :: "string \<Rightarrow> 'v uow \<Rightarrow> 'v uow res" where
  "delete_resource_reservation reservation_id u = Inr (mark_dirty ''resource_reservations'' (KStr reservation_id)
     ((working u)\<lparr>st_resource_reservations := dpop reservation_id (st_resource_reservations (working u))\<rparr>) u)"

definition get_resource_release_intent :: "string \<Rightarrow> 'v uow \<Rightarrow> (resource_release_intent) option" where
  "get_resource_release_intent intent_id u = dget (st_resource_release_intents (working u)) intent_id"

definition save_resource_release_intent :: "resource_release_intent \<Rightarrow> 'v uow \<Rightarrow> 'v uow res" where
  "save_resource_release_intent i u = guards
     [(\<not> dhas (st_resource_reservations (working u)) (ri_reservation_id i), KeyError (''unknown resource reservation: '' @ ri_reservation_id i)),
      (case dget (st_resource_release_intents (working u)) (ri_intent_id i) of None \<Rightarrow> False | Some existing \<Rightarrow> existing \<noteq> i,
        ValueError (''resource release intent already exists: '' @ ri_intent_id i))]
     (mark_dirty ''resource_release_intents'' (KStr (ri_intent_id i))
       ((working u)\<lparr>st_resource_release_intents := dset (ri_intent_id i) i (st_resource_release_intents (working u))\<rparr>) u)"

definition delete_resource_release_intent :: "string \<Rightarrow> 'v uow \<Rightarrow> 'v uow res" where
  "delete_resource_release_intent intent_id u = Inr (mark_dirty ''resource_release_intents'' (KStr intent_id)
     ((working u)\<lparr>st_resource_release_intents := dpop intent_id (st_resource_release_intents (working u))\<rparr>) u)"

subsection \<open>Stores\<close>

definition get_store_item :: "string \<Rightarrow> 'v uow \<Rightarrow> ('v durable_store_item) option" where
  "get_store_item item_id u = dget (st_store_items (working u)) item_id"

definition get_store_put_intent :: "string \<Rightarrow> 'v uow \<Rightarrow> ('v store_put_intent) option" where
  "get_store_put_intent item_id u = dget (st_store_put_intents (working u)) item_id"

definition get_store_get_request :: "string \<Rightarrow> 'v uow \<Rightarrow> (store_get_request) option" where
  "get_store_get_request request_id u = dget (st_store_get_requests (working u)) request_id"

definition get_store_get_result :: "string \<Rightarrow> 'v uow \<Rightarrow> ('v store_get_result) option" where
  "get_store_get_result request_id u = dget (st_store_get_results (working u)) request_id"

definition save_store_definition :: "store_definition \<Rightarrow> 'v uow \<Rightarrow> 'v uow res" where
  "save_store_definition d u = guards
     [(case dget (st_store_definitions (working u)) (sd_name d) of None \<Rightarrow> False | Some existing \<Rightarrow> existing \<noteq> d,
        ValueError (''store definition already exists: '' @ sd_name d))]
     (mark_dirty ''store_definitions'' (KStr (sd_name d))
       ((working u)\<lparr>st_store_definitions := dset (sd_name d) d (st_store_definitions (working u))\<rparr>) u)"

definition save_store_item :: "'v durable_store_item \<Rightarrow> 'v uow \<Rightarrow> 'v uow res" where
  "save_store_item i u = guards
     [(\<not> dhas (st_store_definitions (working u)) (si_store_name i), KeyError (''unknown store definition: '' @ si_store_name i)),
      (dhas (st_store_put_intents (working u)) (si_item_id i), ValueError (''store item is still pending put: '' @ si_item_id i)),
      (case dget (st_store_items (working u)) (si_item_id i) of None \<Rightarrow> False | Some existing \<Rightarrow> existing \<noteq> i,
        ValueError (''store item already exists: '' @ si_item_id i))]
     (mark_dirty ''store_items'' (KStr (si_item_id i))
       ((working u)\<lparr>st_store_items := dset (si_item_id i) i (st_store_items (working u))\<rparr>) u)"

definition delete_store_item :: "string \<Rightarrow> 'v uow \<Rightarrow> 'v uow res" where
  "delete_store_item item_id u = Inr (mark_dirty ''store_items'' (KStr item_id)
     ((working u)\<lparr>st_store_items := dpop item_id (st_store_items (working u))\<rparr>) u)"

definition save_store_put_intent :: "'v store_put_intent \<Rightarrow> 'v uow \<Rightarrow> 'v uow res" where
  "save_store_put_intent i u = guards
     [(\<not> dhas (st_store_definitions (working u)) (pi_store_name i), KeyError (''unknown store definition: '' @ pi_store_name i)),
      (dhas (st_store_items (working u)) (pi_item_id i), ValueError (''store item already accepted: '' @ pi_item_id i)),
      (case dget (st_store_put_intents (working u)) (pi_item_id i) of None \<Rightarrow> False | Some existing \<Rightarrow> existing \<noteq> i,
        ValueError (''store put intent already exists: '' @ pi_item_id i))]
     (mark_dirty ''store_put_intents'' (KStr (pi_item_id i))
       ((working u)\<lparr>st_store_put_intents := dset (pi_item_id i) i (st_store_put_intents (working u))\<rparr>) u)"

definition delete_store_put_intent :: "string \<Rightarrow> 'v uow \<Rightarrow> 'v uow res" where
  "delete_store_put_intent item_id u = Inr (mark_dirty ''store_put_intents'' (KStr item_id)
     ((working u)\<lparr>st_store_put_intents := dpop item_id (st_store_put_intents (working u))\<rparr>) u)"

definition save_store_get_request :: "store_get_request \<Rightarrow> 'v uow \<Rightarrow> 'v uow res" where
  "save_store_get_request q u = guards
     [(\<not> dhas (st_store_definitions (working u)) (gq_store_name q), KeyError (''unknown store definition: '' @ gq_store_name q)),
      (dhas (st_store_get_results (working u)) (gq_request_id q), ValueError (''store get request already completed: '' @ gq_request_id q)),
      (case dget (st_store_get_requests (working u)) (gq_request_id q) of None \<Rightarrow> False | Some existing \<Rightarrow> existing \<noteq> q,
        ValueError (''store get request already exists: '' @ gq_request_id q))]
     (mark_dirty ''store_get_requests'' (KStr (gq_request_id q))
       ((working u)\<lparr>st_store_get_requests := dset (gq_request_id q) q (st_store_get_requests (working u))\<rparr>) u)"

definition delete_store_get_request :: "string \<Rightarrow> 'v uow \<Rightarrow> 'v uow res" where
  "delete_store_get_request request_id u = Inr (mark_dirty ''store_get_requests'' (KStr request_id)
     ((working u)\<lparr>st_store_get_requests := dpop request_id (st_store_get_requests (working u))\<rparr>) u)"

text \<open>An equal result that is already stored is left alone and not marked dirty.\<close>

definition save_store_get_result :: "'v store_get_result \<Rightarrow> 'v uow \<Rightarrow> 'v uow res" where
  "save_store_get_result r u =
     (if \<not> dhas (st_store_definitions (working u)) (gr_store_name r)
      then Inl (KeyError (''unknown store definition: '' @ gr_store_name r))
      else case dget (st_store_get_results (working u)) (gr_request_id r) of
        Some existing \<Rightarrow>
          if existing \<noteq> r then Inl (ValueError (''store get result already exists: '' @ gr_request_id r)) else Inr u
      | None \<Rightarrow> (case dget (st_store_get_requests (working u)) (gr_request_id r) of
            None \<Rightarrow> Inl (KeyError (''unknown store get request: '' @ gr_request_id r))
          | Some q \<Rightarrow> guards
              [(gq_store_name q \<noteq> gr_store_name r,
                ValueError (''store get result targets wrong store: '' @ gr_request_id r))]
              (mark_dirty ''store_get_results'' (KStr (gr_request_id r))
                ((working u)\<lparr>st_store_get_results :=
                   dset (gr_request_id r) r (st_store_get_results (working u))\<rparr>) u)))"

subsection \<open>Containers\<close>

definition get_container_state :: "string \<Rightarrow> 'v uow \<Rightarrow> (container_state) option" where
  "get_container_state name u = dget (st_container_states (working u)) name"

definition get_container_operation_intent :: "string \<Rightarrow> 'v uow \<Rightarrow> (container_operation_intent) option" where
  "get_container_operation_intent request_id u = dget (st_container_operation_intents (working u)) request_id"

definition get_container_operation_result :: "string \<Rightarrow> 'v uow \<Rightarrow> (container_operation_result) option" where
  "get_container_operation_result request_id u = dget (st_container_operation_results (working u)) request_id"

definition save_container_definition :: "container_definition \<Rightarrow> 'v uow \<Rightarrow> 'v uow res" where
  "save_container_definition d u = guards
     [(case dget (st_container_definitions (working u)) (cd_name d) of None \<Rightarrow> False | Some existing \<Rightarrow> existing \<noteq> d,
        ValueError (''container definition already exists: '' @ cd_name d))]
     (mark_dirty ''container_definitions'' (KStr (cd_name d))
       ((working u)\<lparr>st_container_definitions := dset (cd_name d) d (st_container_definitions (working u))\<rparr>) u)"

definition save_container_state :: "container_state \<Rightarrow> 'v uow \<Rightarrow> 'v uow res" where
  "save_container_state s u = guards
     [(\<not> dhas (st_container_definitions (working u)) (cs_name s), KeyError (''unknown container definition: '' @ cs_name s)),
      (case dget (st_container_definitions (working u)) (cs_name s) of None \<Rightarrow> False | Some d \<Rightarrow> float_lt (cd_capacity d) (cs_level s),
        ValueError (''container level exceeds capacity: '' @ cs_name s))]
     (mark_dirty ''container_states'' (KStr (cs_name s))
       ((working u)\<lparr>st_container_states := dset (cs_name s) s (st_container_states (working u))\<rparr>) u)"

definition save_container_operation_intent :: "container_operation_intent \<Rightarrow> 'v uow \<Rightarrow> 'v uow res" where
  "save_container_operation_intent i u = guards
     [(\<not> dhas (st_container_definitions (working u)) (ci_container_name i), KeyError (''unknown container definition: '' @ ci_container_name i)),
      (dhas (st_container_operation_results (working u)) (ci_request_id i), ValueError (''container request already completed: '' @ ci_request_id i)),
      (case dget (st_container_operation_intents (working u)) (ci_request_id i) of None \<Rightarrow> False | Some existing \<Rightarrow> existing \<noteq> i,
        ValueError (''container request already exists: '' @ ci_request_id i))]
     (mark_dirty ''container_operation_intents'' (KStr (ci_request_id i))
       ((working u)\<lparr>st_container_operation_intents := dset (ci_request_id i) i (st_container_operation_intents (working u))\<rparr>) u)"

definition delete_container_operation_intent :: "string \<Rightarrow> 'v uow \<Rightarrow> 'v uow res" where
  "delete_container_operation_intent request_id u = Inr (mark_dirty ''container_operation_intents'' (KStr request_id)
     ((working u)\<lparr>st_container_operation_intents := dpop request_id (st_container_operation_intents (working u))\<rparr>) u)"

definition save_container_operation_result :: "container_operation_result \<Rightarrow> 'v uow \<Rightarrow> 'v uow res" where
  "save_container_operation_result r u =
     (case dget (st_container_operation_results (working u)) (cr_request_id r) of
        Some existing \<Rightarrow>
          if existing \<noteq> r then Inl (ValueError (''container result already exists: '' @ cr_request_id r)) else Inr u
      | None \<Rightarrow> (case dget (st_container_operation_intents (working u)) (cr_request_id r) of
            None \<Rightarrow> Inl (KeyError (''unknown container operation intent: '' @ cr_request_id r))
          | Some i \<Rightarrow> guards
              [(ci_container_name i \<noteq> cr_container_name r \<or> ci_operation i \<noteq> cr_operation r,
                ValueError (''container result does not match intent: '' @ cr_request_id r))]
              (mark_dirty ''container_operation_results'' (KStr (cr_request_id r))
                ((working u)\<lparr>st_container_operation_results :=
                   dset (cr_request_id r) r (st_container_operation_results (working u))\<rparr>) u)))"

subsection \<open>Preemptive resources\<close>

definition get_preemptive_resource_demand :: "string \<Rightarrow> 'v uow \<Rightarrow> (preemptive_resource_demand) option" where
  "get_preemptive_resource_demand request_id u = dget (st_preemptive_resource_demands (working u)) request_id"

definition get_preemptive_resource_reservation :: "string \<Rightarrow> 'v uow \<Rightarrow> (preemptive_resource_reservation) option" where
  "get_preemptive_resource_reservation reservation_id u = dget (st_preemptive_resource_reservations (working u)) reservation_id"

definition get_preemptive_resource_release_intent :: "string \<Rightarrow> 'v uow \<Rightarrow> (preemptive_resource_release_intent) option" where
  "get_preemptive_resource_release_intent intent_id u = dget (st_preemptive_resource_release_intents (working u)) intent_id"

definition get_resource_preemption_result :: "string \<Rightarrow> 'v uow \<Rightarrow> (resource_preemption_result) option" where
  "get_resource_preemption_result result_id u = dget (st_resource_preemption_results (working u)) result_id"

definition save_preemptive_resource_definition :: "preemptive_resource_definition \<Rightarrow> 'v uow \<Rightarrow> 'v uow res" where
  "save_preemptive_resource_definition d u = guards
     [(case dget (st_preemptive_resource_definitions (working u)) (pd_name d) of None \<Rightarrow> False | Some existing \<Rightarrow> existing \<noteq> d,
        ValueError (''preemptive resource definition already exists: '' @ pd_name d))]
     (mark_dirty ''preemptive_resource_definitions'' (KStr (pd_name d))
       ((working u)\<lparr>st_preemptive_resource_definitions := dset (pd_name d) d (st_preemptive_resource_definitions (working u))\<rparr>) u)"

definition save_preemptive_resource_demand :: "preemptive_resource_demand \<Rightarrow> 'v uow \<Rightarrow> 'v uow res" where
  "save_preemptive_resource_demand d u = guards
     [(\<not> dhas (st_preemptive_resource_definitions (working u)) (pq_resource_name d), KeyError (''unknown preemptive resource definition: '' @ pq_resource_name d)),
      (list_ex (\<lambda>r. pv_request_id r = pq_request_id d) (dvalues (st_preemptive_resource_reservations (working u))),
        ValueError (''preemptive resource request already reserved: '' @ pq_request_id d)),
      (case dget (st_preemptive_resource_demands (working u)) (pq_request_id d) of None \<Rightarrow> False | Some existing \<Rightarrow> existing \<noteq> d,
        ValueError (''preemptive resource demand already exists: '' @ pq_request_id d))]
     (mark_dirty ''preemptive_resource_demands'' (KStr (pq_request_id d))
       ((working u)\<lparr>st_preemptive_resource_demands := dset (pq_request_id d) d (st_preemptive_resource_demands (working u))\<rparr>) u)"

definition delete_preemptive_resource_demand :: "string \<Rightarrow> 'v uow \<Rightarrow> 'v uow res" where
  "delete_preemptive_resource_demand request_id u = Inr (mark_dirty ''preemptive_resource_demands'' (KStr request_id)
     ((working u)\<lparr>st_preemptive_resource_demands := dpop request_id (st_preemptive_resource_demands (working u))\<rparr>) u)"

definition save_preemptive_resource_reservation :: "preemptive_resource_reservation \<Rightarrow> 'v uow \<Rightarrow> 'v uow res" where
  "save_preemptive_resource_reservation r u = guards
     [(\<not> dhas (st_preemptive_resource_definitions (working u)) (pv_resource_name r), KeyError (''unknown preemptive resource definition: '' @ pv_resource_name r)),
      (dhas (st_preemptive_resource_demands (working u)) (pv_request_id r), ValueError (''preemptive resource request is still pending: '' @ pv_request_id r)),
      (list_ex (\<lambda>c. pv_request_id c = pv_request_id r \<and> pv_reservation_id c \<noteq> pv_reservation_id r)
         (dvalues (st_preemptive_resource_reservations (working u))),
        ValueError (''preemptive resource request already reserved: '' @ pv_request_id r))]
     (mark_dirty ''preemptive_resource_reservations'' (KStr (pv_reservation_id r))
       ((working u)\<lparr>st_preemptive_resource_reservations := dset (pv_reservation_id r) r (st_preemptive_resource_reservations (working u))\<rparr>) u)"

definition delete_preemptive_resource_reservation :: "string \<Rightarrow> 'v uow \<Rightarrow> 'v uow res" where
  "delete_preemptive_resource_reservation reservation_id u = Inr (mark_dirty ''preemptive_resource_reservations'' (KStr reservation_id)
     ((working u)\<lparr>st_preemptive_resource_reservations := dpop reservation_id (st_preemptive_resource_reservations (working u))\<rparr>) u)"

definition save_preemptive_resource_release_intent :: "preemptive_resource_release_intent \<Rightarrow> 'v uow \<Rightarrow> 'v uow res" where
  "save_preemptive_resource_release_intent i u = guards
     [(\<not> dhas (st_preemptive_resource_reservations (working u)) (px_reservation_id i), KeyError (''unknown preemptive resource reservation: '' @ px_reservation_id i)),
      (case dget (st_preemptive_resource_release_intents (working u)) (px_intent_id i) of None \<Rightarrow> False | Some existing \<Rightarrow> existing \<noteq> i,
        ValueError (''preemptive resource release intent already exists: '' @ px_intent_id i))]
     (mark_dirty ''preemptive_resource_release_intents'' (KStr (px_intent_id i))
       ((working u)\<lparr>st_preemptive_resource_release_intents := dset (px_intent_id i) i (st_preemptive_resource_release_intents (working u))\<rparr>) u)"

definition delete_preemptive_resource_release_intent :: "string \<Rightarrow> 'v uow \<Rightarrow> 'v uow res" where
  "delete_preemptive_resource_release_intent intent_id u = Inr (mark_dirty ''preemptive_resource_release_intents'' (KStr intent_id)
     ((working u)\<lparr>st_preemptive_resource_release_intents := dpop intent_id (st_preemptive_resource_release_intents (working u))\<rparr>) u)"

definition save_resource_preemption_result :: "resource_preemption_result \<Rightarrow> 'v uow \<Rightarrow> 'v uow res" where
  "save_resource_preemption_result r u = guards
     [(\<not> dhas (st_preemptive_resource_reservations (working u)) (pr_successor_reservation_id r), KeyError (''unknown successor preemptive reservation: '' @ pr_successor_reservation_id r)),
      (case dget (st_preemptive_resource_reservations (working u)) (pr_successor_reservation_id r) of None \<Rightarrow> False
        | Some successor \<Rightarrow> pv_request_id successor \<noteq> pr_preempting_request_id r,
        ValueError (''preemption result successor does not match request: '' @ pr_result_id r)),
      (dhas (st_preemptive_resource_reservations (working u)) (pr_displaced_reservation_id r), ValueError (''displaced reservation is still active: '' @ pr_displaced_reservation_id r)),
      (case dget (st_resource_preemption_results (working u)) (pr_result_id r) of None \<Rightarrow> False | Some existing \<Rightarrow> existing \<noteq> r,
        ValueError (''resource preemption result already exists: '' @ pr_result_id r))]
     (mark_dirty ''resource_preemption_results'' (KStr (pr_result_id r))
       ((working u)\<lparr>st_resource_preemption_results := dset (pr_result_id r) r (st_resource_preemption_results (working u))\<rparr>) u)"

subsection \<open>Commit\<close>

text \<open>
  \<open>commit\<close> returns the state that becomes the owner's, or raises when a get or a container
  operation is both pending and completed.
\<close>

definition overlap :: "(string \<times> 'a) list \<Rightarrow> (string \<times> 'b) list \<Rightarrow> string list" where
  "overlap a b = sort (filter (\<lambda>k. dhas b k) (remdups (map fst a)))"

definition commit :: "'v uow \<Rightarrow> 'v state res" where
  "commit u = (case overlap (st_store_get_requests (working u)) (st_store_get_results (working u)) of
       request_id # _ \<Rightarrow> Inl (ValueError (''store get identity cannot be pending and completed: '' @ request_id))
     | [] \<Rightarrow> (case overlap (st_container_operation_intents (working u)) (st_container_operation_results (working u)) of
           request_id # _ \<Rightarrow>
             Inl (ValueError (''container operation identity cannot be pending and completed: '' @ request_id))
         | [] \<Rightarrow> Inr (working u)))"

lemma overlap_Nil_iff: "overlap a b = [] \<longleftrightarrow> (\<forall>k. map_of a k = None \<or> map_of b k = None)"
proof -
  have "sort xs = [] \<longleftrightarrow> xs = []" for xs :: "string list"
    by (metis length_0_conv length_sort)
  then show ?thesis by (auto simp: overlap_def filter_empty_conv map_of_eq_None_iff)
qed

lemma commit_Inr_iff:
  "commit u = Inr s \<longleftrightarrow> s = working u \<and>
     (\<forall>k. map_of (st_store_get_requests s) k = None \<or> map_of (st_store_get_results s) k = None) \<and>
     (\<forall>k. map_of (st_container_operation_intents s) k = None \<or> map_of (st_container_operation_results s) k = None)"
  unfolding overlap_Nil_iff [symmetric] by (auto simp: commit_def split: list.splits)

lemmas uow_mutators [uow_defs] =
  save_job_state_def save_boundary_message_def save_boundary_delivery_def
  save_boundary_consumption_def save_customer_settlement_binding_def save_business_effect_def
  save_domain_delivery_def delete_domain_delivery_def save_sink_delivery_def
  delete_sink_delivery_def save_sink_checkpoint_def save_entity_def append_event_def
  save_command_def delete_command_def save_scheduled_work_def delete_scheduled_work_def
  set_simulation_position_def set_scenario_state_def set_committed_tick_def
  save_resource_definition_def save_resource_demand_def delete_resource_demand_def
  save_resource_reservation_def delete_resource_reservation_def save_resource_release_intent_def
  delete_resource_release_intent_def save_store_definition_def save_store_item_def
  delete_store_item_def save_store_put_intent_def delete_store_put_intent_def
  save_store_get_request_def delete_store_get_request_def save_store_get_result_def
  save_container_definition_def save_container_state_def save_container_operation_intent_def
  delete_container_operation_intent_def save_container_operation_result_def
  save_preemptive_resource_definition_def save_preemptive_resource_demand_def
  delete_preemptive_resource_demand_def save_preemptive_resource_reservation_def
  delete_preemptive_resource_reservation_def save_preemptive_resource_release_intent_def
  delete_preemptive_resource_release_intent_def save_resource_preemption_result_def mark_dirty_def

lemmas uow_readers [uow_defs] =
  get_job_state_def get_boundary_message_def uow_boundary_messages_def get_boundary_delivery_def
  uow_boundary_deliveries_def get_boundary_consumption_def uow_boundary_consumptions_def
  get_customer_settlement_binding_def get_business_effect_def uow_business_effects_def
  get_domain_delivery_def get_sink_delivery_def get_sink_checkpoint_def get_entity_def
  uow_entities_def uow_events_def get_event_def get_command_def uow_commands_def
  uow_scheduled_work_def get_scheduled_work_def get_simulation_position_def get_scenario_state_def
  get_resource_demand_def uow_resource_definitions_def get_resource_reservation_def
  uow_resource_reservations_def get_resource_release_intent_def get_store_item_def
  get_store_put_intent_def get_store_get_request_def get_store_get_result_def
  get_container_state_def get_container_operation_intent_def get_container_operation_result_def
  get_preemptive_resource_demand_def get_preemptive_resource_reservation_def
  get_preemptive_resource_release_intent_def get_resource_preemption_result_def

section \<open>Steps\<close>

text \<open>
  One step of a transaction body on its unit of work: any mutator, with any argument, that does not
  raise. A body that only uses the unit of work is a sequence of these.
\<close>

inductive uow_step :: "'v uow \<Rightarrow> 'v uow \<Rightarrow> bool" where
  save_job_state_step: "save_job_state x u = Inr u' \<Longrightarrow> uow_step u u'"
| save_boundary_message_step: "save_boundary_message x u = Inr u' \<Longrightarrow> uow_step u u'"
| save_boundary_delivery_step: "save_boundary_delivery x u = Inr u' \<Longrightarrow> uow_step u u'"
| save_boundary_consumption_step: "save_boundary_consumption x u = Inr u' \<Longrightarrow> uow_step u u'"
| save_customer_settlement_binding_step: "save_customer_settlement_binding x u = Inr u' \<Longrightarrow> uow_step u u'"
| save_business_effect_step: "save_business_effect x u = Inr u' \<Longrightarrow> uow_step u u'"
| save_domain_delivery_step: "save_domain_delivery x u = Inr u' \<Longrightarrow> uow_step u u'"
| delete_domain_delivery_step: "delete_domain_delivery x u = Inr u' \<Longrightarrow> uow_step u u'"
| save_sink_delivery_step: "save_sink_delivery x u = Inr u' \<Longrightarrow> uow_step u u'"
| delete_sink_delivery_step: "delete_sink_delivery x u = Inr u' \<Longrightarrow> uow_step u u'"
| save_sink_checkpoint_step: "save_sink_checkpoint x u = Inr u' \<Longrightarrow> uow_step u u'"
| save_entity_step: "save_entity x u = Inr u' \<Longrightarrow> uow_step u u'"
| append_event_step: "append_event x u = Inr u' \<Longrightarrow> uow_step u u'"
| save_command_step: "save_command x u = Inr u' \<Longrightarrow> uow_step u u'"
| delete_command_step: "delete_command x u = Inr u' \<Longrightarrow> uow_step u u'"
| save_scheduled_work_step: "save_scheduled_work x u = Inr u' \<Longrightarrow> uow_step u u'"
| delete_scheduled_work_step: "delete_scheduled_work x u = Inr u' \<Longrightarrow> uow_step u u'"
| set_simulation_position_step: "set_simulation_position x y u = Inr u' \<Longrightarrow> uow_step u u'"
| set_scenario_state_step: "set_scenario_state x y u = Inr u' \<Longrightarrow> uow_step u u'"
| set_committed_tick_step: "set_committed_tick x y u = Inr u' \<Longrightarrow> uow_step u u'"
| save_resource_definition_step: "save_resource_definition x u = Inr u' \<Longrightarrow> uow_step u u'"
| save_resource_demand_step: "save_resource_demand x u = Inr u' \<Longrightarrow> uow_step u u'"
| delete_resource_demand_step: "delete_resource_demand x u = Inr u' \<Longrightarrow> uow_step u u'"
| save_resource_reservation_step: "save_resource_reservation x u = Inr u' \<Longrightarrow> uow_step u u'"
| delete_resource_reservation_step: "delete_resource_reservation x u = Inr u' \<Longrightarrow> uow_step u u'"
| save_resource_release_intent_step: "save_resource_release_intent x u = Inr u' \<Longrightarrow> uow_step u u'"
| delete_resource_release_intent_step: "delete_resource_release_intent x u = Inr u' \<Longrightarrow> uow_step u u'"
| save_store_definition_step: "save_store_definition x u = Inr u' \<Longrightarrow> uow_step u u'"
| save_store_item_step: "save_store_item x u = Inr u' \<Longrightarrow> uow_step u u'"
| delete_store_item_step: "delete_store_item x u = Inr u' \<Longrightarrow> uow_step u u'"
| save_store_put_intent_step: "save_store_put_intent x u = Inr u' \<Longrightarrow> uow_step u u'"
| delete_store_put_intent_step: "delete_store_put_intent x u = Inr u' \<Longrightarrow> uow_step u u'"
| save_store_get_request_step: "save_store_get_request x u = Inr u' \<Longrightarrow> uow_step u u'"
| delete_store_get_request_step: "delete_store_get_request x u = Inr u' \<Longrightarrow> uow_step u u'"
| save_store_get_result_step: "save_store_get_result x u = Inr u' \<Longrightarrow> uow_step u u'"
| save_container_definition_step: "save_container_definition x u = Inr u' \<Longrightarrow> uow_step u u'"
| save_container_state_step: "save_container_state x u = Inr u' \<Longrightarrow> uow_step u u'"
| save_container_operation_intent_step: "save_container_operation_intent x u = Inr u' \<Longrightarrow> uow_step u u'"
| delete_container_operation_intent_step: "delete_container_operation_intent x u = Inr u' \<Longrightarrow> uow_step u u'"
| save_container_operation_result_step: "save_container_operation_result x u = Inr u' \<Longrightarrow> uow_step u u'"
| save_preemptive_resource_definition_step: "save_preemptive_resource_definition x u = Inr u' \<Longrightarrow> uow_step u u'"
| save_preemptive_resource_demand_step: "save_preemptive_resource_demand x u = Inr u' \<Longrightarrow> uow_step u u'"
| delete_preemptive_resource_demand_step: "delete_preemptive_resource_demand x u = Inr u' \<Longrightarrow> uow_step u u'"
| save_preemptive_resource_reservation_step: "save_preemptive_resource_reservation x u = Inr u' \<Longrightarrow> uow_step u u'"
| delete_preemptive_resource_reservation_step: "delete_preemptive_resource_reservation x u = Inr u' \<Longrightarrow> uow_step u u'"
| save_preemptive_resource_release_intent_step: "save_preemptive_resource_release_intent x u = Inr u' \<Longrightarrow> uow_step u u'"
| delete_preemptive_resource_release_intent_step: "delete_preemptive_resource_release_intent x u = Inr u' \<Longrightarrow> uow_step u u'"
| save_resource_preemption_result_step: "save_resource_preemption_result x u = Inr u' \<Longrightarrow> uow_step u u'"


end
