(* ===== verification/Memory_Wf.thy ===== *)
theory Memory_Wf
  imports Memory_State
begin

text \<open>
  What every sequence of unit-of-work steps keeps, whatever its arguments: records filed under their
  own identity, references between collections, disjointness of pending and settled records, and
  the completeness of the settlement indices. The dirty set covers every record that changed, and
  the ledgers are write-once.
\<close>

section \<open>Well-formed states\<close>

text \<open>Each record is filed under its own identity, once.\<close>

definition ids_wf :: "'v state \<Rightarrow> bool" where
  "ids_wf s \<longleftrightarrow>
     keyed (\<lambda>e. (en_entity_type e, en_id e)) (st_entities s) \<and>
     keyed cm_command_id (st_commands s) \<and>
     keyed sw_work_id (st_scheduled_work s) \<and>
     keyed rd_name (st_resource_definitions s) \<and>
     keyed dm_request_id (st_resource_demands s) \<and>
     keyed rv_reservation_id (st_resource_reservations s) \<and>
     keyed ri_intent_id (st_resource_release_intents s) \<and>
     keyed sd_name (st_store_definitions s) \<and>
     keyed si_item_id (st_store_items s) \<and>
     keyed pi_item_id (st_store_put_intents s) \<and>
     keyed gq_request_id (st_store_get_requests s) \<and>
     keyed gr_request_id (st_store_get_results s) \<and>
     keyed cd_name (st_container_definitions s) \<and>
     keyed cs_name (st_container_states s) \<and>
     keyed ci_request_id (st_container_operation_intents s) \<and>
     keyed cr_request_id (st_container_operation_results s) \<and>
     keyed pd_name (st_preemptive_resource_definitions s) \<and>
     keyed pq_request_id (st_preemptive_resource_demands s) \<and>
     keyed pv_reservation_id (st_preemptive_resource_reservations s) \<and>
     keyed px_intent_id (st_preemptive_resource_release_intents s) \<and>
     keyed pr_result_id (st_resource_preemption_results s) \<and>
     keyed js_job_id (st_job_states s) \<and>
     keyed sl_delivery_id (st_sink_deliveries s) \<and>
     keyed (\<lambda>c. (sc_job_id c, sc_sink_name c)) (st_sink_checkpoints s) \<and>
     keyed bm_message_id (st_boundary_messages s) \<and>
     keyed bd_delivery_id (st_boundary_deliveries s) \<and>
     keyed bc_delivery_id (st_boundary_consumptions s) \<and>
     keyed be_effect_id (st_business_effects s) \<and>
     keyed (\<lambda>d. dd_mutation_id d) (st_domain_deliveries s)"

definition resources_wf :: "'v state \<Rightarrow> bool" where
  "resources_wf s \<longleftrightarrow>
     (\<forall>q d. map_of (st_resource_demands s) q = Some d \<longrightarrow>
        map_of (st_resource_definitions s) (dm_resource_name d) \<noteq> None) \<and>
     (\<forall>i r. map_of (st_resource_reservations s) i = Some r \<longrightarrow>
        map_of (st_resource_definitions s) (rv_resource_name r) \<noteq> None \<and>
        map_of (st_resource_demands s) (rv_request_id r) = None) \<and>
     (\<forall>i r j r'. map_of (st_resource_reservations s) i = Some r \<longrightarrow>
        map_of (st_resource_reservations s) j = Some r' \<longrightarrow> rv_request_id r = rv_request_id r' \<longrightarrow> i = j)"

definition stores_wf :: "'v state \<Rightarrow> bool" where
  "stores_wf s \<longleftrightarrow>
     (\<forall>k i. map_of (st_store_items s) k = Some i \<longrightarrow>
        map_of (st_store_definitions s) (si_store_name i) \<noteq> None \<and> map_of (st_store_put_intents s) k = None) \<and>
     (\<forall>k i. map_of (st_store_put_intents s) k = Some i \<longrightarrow>
        map_of (st_store_definitions s) (pi_store_name i) \<noteq> None) \<and>
     (\<forall>k q. map_of (st_store_get_requests s) k = Some q \<longrightarrow>
        map_of (st_store_definitions s) (gq_store_name q) \<noteq> None) \<and>
     (\<forall>k r. map_of (st_store_get_results s) k = Some r \<longrightarrow>
        map_of (st_store_definitions s) (gr_store_name r) \<noteq> None)"

definition containers_wf :: "'v state \<Rightarrow> bool" where
  "containers_wf s \<longleftrightarrow>
     (\<forall>k c. map_of (st_container_states s) k = Some c \<longrightarrow>
        (\<exists>d. map_of (st_container_definitions s) k = Some d \<and> \<not> float_lt (cd_capacity d) (cs_level c))) \<and>
     (\<forall>k i. map_of (st_container_operation_intents s) k = Some i \<longrightarrow>
        map_of (st_container_definitions s) (ci_container_name i) \<noteq> None) \<and>
     (\<forall>k r. map_of (st_container_operation_results s) k = Some r \<longrightarrow>
        map_of (st_container_definitions s) (cr_container_name r) \<noteq> None)"

definition preemptive_wf :: "'v state \<Rightarrow> bool" where
  "preemptive_wf s \<longleftrightarrow>
     (\<forall>q d. map_of (st_preemptive_resource_demands s) q = Some d \<longrightarrow>
        map_of (st_preemptive_resource_definitions s) (pq_resource_name d) \<noteq> None) \<and>
     (\<forall>i r. map_of (st_preemptive_resource_reservations s) i = Some r \<longrightarrow>
        map_of (st_preemptive_resource_definitions s) (pv_resource_name r) \<noteq> None \<and>
        map_of (st_preemptive_resource_demands s) (pv_request_id r) = None) \<and>
     (\<forall>i r j r'. map_of (st_preemptive_resource_reservations s) i = Some r \<longrightarrow>
        map_of (st_preemptive_resource_reservations s) j = Some r' \<longrightarrow>
        pv_request_id r = pv_request_id r' \<longrightarrow> i = j)"

text \<open>A binding is filed under all three of its identities.\<close>

definition bindings_wf :: "'v state \<Rightarrow> bool" where
  "bindings_wf s \<longleftrightarrow>
     (\<forall>key b. map_of (st_customer_settlement_bindings s) key = Some b \<longrightarrow>
        (\<forall>key' \<in> set (binding_indices b). map_of (st_customer_settlement_bindings s) key' = Some b))"

definition state_wf :: "'v state \<Rightarrow> bool" where
  "state_wf s \<longleftrightarrow> ids_wf s \<and> resources_wf s \<and> stores_wf s \<and> containers_wf s \<and> preemptive_wf s \<and> bindings_wf s"

text \<open>What \<open>commit\<close> adds: nothing is both pending and completed.\<close>

definition settled_disjoint :: "'v state \<Rightarrow> bool" where
  "settled_disjoint s \<longleftrightarrow>
     (\<forall>k. map_of (st_store_get_requests s) k = None \<or> map_of (st_store_get_results s) k = None) \<and>
     (\<forall>k. map_of (st_container_operation_intents s) k = None \<or> map_of (st_container_operation_results s) k = None)"

lemmas mutator_simps = uow_mutators if_split option.split

lemma state_wf_empty [simp]: "state_wf empty_state" "settled_disjoint empty_state"
  by (simp_all add: state_wf_def ids_wf_def resources_wf_def stores_wf_def containers_wf_def
      preemptive_wf_def bindings_wf_def settled_disjoint_def empty_state_def)

section \<open>Mutators with more than one outcome\<close>

lemma save_store_get_result_cases:
  assumes "save_store_get_result r u = Inr u'"
  obtains "u' = u"
  | q where "u' = mark_dirty ''store_get_results'' (KStr (gr_request_id r))
        ((working u)\<lparr>st_store_get_results := dset (gr_request_id r) r (st_store_get_results (working u))\<rparr>) u"
      and "map_of (st_store_get_results (working u)) (gr_request_id r) = None"
      and "map_of (st_store_get_requests (working u)) (gr_request_id r) = Some q"
      and "gq_store_name q = gr_store_name r"
      and "map_of (st_store_definitions (working u)) (gr_store_name r) \<noteq> None"
  using assms by (auto simp: save_store_get_result_def map_of_eq_None_iff split: if_splits option.splits)

lemma save_container_operation_result_cases:
  assumes "save_container_operation_result r u = Inr u'"
  obtains "u' = u"
  | i where "u' = mark_dirty ''container_operation_results'' (KStr (cr_request_id r))
        ((working u)\<lparr>st_container_operation_results :=
           dset (cr_request_id r) r (st_container_operation_results (working u))\<rparr>) u"
      and "map_of (st_container_operation_results (working u)) (cr_request_id r) = None"
      and "map_of (st_container_operation_intents (working u)) (cr_request_id r) = Some i"
      and "ci_container_name i = cr_container_name r" and "ci_operation i = cr_operation r"
  using assms by (auto simp: save_container_operation_result_def split: if_splits option.splits)

lemma save_binding_effect:
  assumes "save_customer_settlement_binding b u = Inr u'"
  shows "u' = u\<lparr>working := (working u)\<lparr>st_customer_settlement_bindings :=
        fold (\<lambda>key. dset key b) (binding_indices b) (st_customer_settlement_bindings (working u))\<rparr>,
      dirty_records := (\<lambda>(kind, i). (''customer_settlement_bindings'', KPair kind i)) ` set (binding_indices b)
        \<union> dirty_records u\<rparr>"
    and "(\<forall>key \<in> set (binding_indices b). map_of (st_customer_settlement_bindings (working u)) key = None) \<or>
      (\<forall>key \<in> set (binding_indices b). map_of (st_customer_settlement_bindings (working u)) key = Some b)"
  using assms by (auto simp: save_customer_settlement_binding_def binding_indices_def Let_def mark_dirty_def
      insert_commute split: if_splits option.splits)

lemma uow_unchanged:
  "u = u\<lparr>working := (working u)\<lparr>st_store_get_results := st_store_get_results (working u)\<rparr>,
     dirty_records := dirty_records u\<rparr>"
  "u = u\<lparr>working := (working u)\<lparr>st_container_operation_results := st_container_operation_results (working u)\<rparr>,
     dirty_records := dirty_records u\<rparr>"
  by simp_all

lemma special_effects:
  "save_store_get_result r u = Inr u' \<Longrightarrow>
     \<exists>d D. u' = u\<lparr>working := (working u)\<lparr>st_store_get_results := d\<rparr>, dirty_records := D\<rparr>"
  "save_container_operation_result c u = Inr u' \<Longrightarrow>
     \<exists>d D. u' = u\<lparr>working := (working u)\<lparr>st_container_operation_results := d\<rparr>, dirty_records := D\<rparr>"
  "save_customer_settlement_binding b u = Inr u' \<Longrightarrow>
     \<exists>d D. u' = u\<lparr>working := (working u)\<lparr>st_customer_settlement_bindings := d\<rparr>, dirty_records := D\<rparr>"
  using uow_unchanged save_binding_effect(1)
  by (auto simp only: mark_dirty_def elim!: save_store_get_result_cases save_container_operation_result_cases)
    blast+

lemmas plain_mutators =
  save_job_state_def save_boundary_message_def save_boundary_delivery_def
  save_boundary_consumption_def save_business_effect_def save_domain_delivery_def
  delete_domain_delivery_def save_sink_delivery_def delete_sink_delivery_def
  save_sink_checkpoint_def save_entity_def append_event_def save_command_def delete_command_def
  save_scheduled_work_def delete_scheduled_work_def set_simulation_position_def
  set_scenario_state_def set_committed_tick_def save_resource_definition_def
  save_resource_demand_def delete_resource_demand_def save_resource_reservation_def
  delete_resource_reservation_def save_resource_release_intent_def
  delete_resource_release_intent_def save_store_definition_def save_store_item_def
  delete_store_item_def save_store_put_intent_def delete_store_put_intent_def
  save_store_get_request_def delete_store_get_request_def save_container_definition_def
  save_container_state_def save_container_operation_intent_def delete_container_operation_intent_def
  save_preemptive_resource_definition_def save_preemptive_resource_demand_def
  delete_preemptive_resource_demand_def save_preemptive_resource_reservation_def
  delete_preemptive_resource_reservation_def save_preemptive_resource_release_intent_def
  delete_preemptive_resource_release_intent_def save_resource_preemption_result_def mark_dirty_def

section \<open>Steps preserve well-formedness\<close>

text \<open>
  One proof scheme for each group of facts: split the step into its mutators, unfold the one at
  hand, and simplify; the three mutators above by their own cases.
\<close>

lemma ids_wf_step: "uow_step u u' \<Longrightarrow> ids_wf (working u) \<Longrightarrow> ids_wf (working u')"
proof (induction rule: uow_step.induct)
qed (clarsimp simp: plain_mutators ids_wf_def
      | (erule save_store_get_result_cases save_container_operation_result_cases,
          simp, clarsimp simp: ids_wf_def mark_dirty_def)
      | (drule save_binding_effect(1), clarsimp simp: ids_wf_def))+

lemma list_ex_values: "\<not> list_ex P (dvalues d) \<Longrightarrow> map_of d k = Some v \<Longrightarrow> \<not> P v"
  by (fastforce simp: list_ex_iff dest: map_of_SomeD)

lemma dhas_iff_lookup: "k \<in> fst ` set d \<longleftrightarrow> map_of d k \<noteq> None"
  by (simp add: map_of_eq_None_iff)

lemma resources_wf_save_definition:
  "save_resource_definition d u = Inr u' \<Longrightarrow> resources_wf (working u) \<Longrightarrow> resources_wf (working u')"
  by (auto simp: save_resource_definition_def mark_dirty_def resources_wf_def)

lemma resources_wf_save_demand:
  assumes "save_resource_demand d u = Inr u'" and "resources_wf (working u)"
  shows "resources_wf (working u')"
  using assms list_ex_values [of "\<lambda>r. rv_request_id r = dm_request_id d" "st_resource_reservations (working u)"]
  by (auto simp: save_resource_demand_def mark_dirty_def resources_wf_def dhas_iff_lookup split: if_splits)

lemma resources_wf_save_reservation:
  assumes "save_resource_reservation r u = Inr u'" and "resources_wf (working u)" and "ids_wf (working u)"
  shows "resources_wf (working u')"
proof -
  have other: "rv_request_id c \<noteq> rv_request_id r"
    if "map_of (st_resource_reservations (working u)) j = Some c" "j \<noteq> rv_reservation_id r" for j c
  proof -
    have "rv_reservation_id c = j" using that assms(3) by (auto simp: ids_wf_def dest: keyed_lookup)
    then show ?thesis
      using that assms(1) list_ex_values [OF _ that(1), of "\<lambda>c. rv_request_id c = rv_request_id r \<and>
          rv_reservation_id c \<noteq> rv_reservation_id r"]
      by (auto simp: save_resource_reservation_def)
  qed
  show ?thesis
    using assms(1,2)
    by (auto simp: save_resource_reservation_def mark_dirty_def resources_wf_def dhas_iff_lookup
        split: if_splits) (metis other)+
qed

lemma resources_wf_deletes:
  "delete_resource_demand q u = Inr u' \<Longrightarrow> resources_wf (working u) \<Longrightarrow> resources_wf (working u')"
  "delete_resource_reservation i u = Inr u' \<Longrightarrow> resources_wf (working u) \<Longrightarrow> resources_wf (working u')"
  by (auto simp: delete_resource_demand_def delete_resource_reservation_def mark_dirty_def resources_wf_def
      split: if_splits)

lemma resources_wf_step:
  "uow_step u u' \<Longrightarrow> ids_wf (working u) \<Longrightarrow> resources_wf (working u) \<Longrightarrow> resources_wf (working u')"
proof (induction rule: uow_step.induct)
qed (erule (1) resources_wf_save_definition resources_wf_save_demand resources_wf_deletes
      | erule (2) resources_wf_save_reservation
      | clarsimp simp: plain_mutators resources_wf_def dest!: special_effects)+

subsection \<open>Preemptive resources\<close>

lemma preemptive_wf_save_definition:
  "save_preemptive_resource_definition d u = Inr u' \<Longrightarrow> preemptive_wf (working u) \<Longrightarrow> preemptive_wf (working u')"
  by (auto simp: save_preemptive_resource_definition_def mark_dirty_def preemptive_wf_def)

lemma preemptive_wf_save_demand:
  assumes "save_preemptive_resource_demand d u = Inr u'" and "preemptive_wf (working u)"
  shows "preemptive_wf (working u')"
  using assms list_ex_values [of "\<lambda>r. pv_request_id r = pq_request_id d"
      "st_preemptive_resource_reservations (working u)"]
  by (auto simp: save_preemptive_resource_demand_def mark_dirty_def preemptive_wf_def dhas_iff_lookup
      split: if_splits)

lemma preemptive_wf_save_reservation:
  assumes "save_preemptive_resource_reservation r u = Inr u'" and "preemptive_wf (working u)"
    and "ids_wf (working u)"
  shows "preemptive_wf (working u')"
proof -
  have other: "pv_request_id c \<noteq> pv_request_id r"
    if "map_of (st_preemptive_resource_reservations (working u)) j = Some c" "j \<noteq> pv_reservation_id r" for j c
  proof -
    have "pv_reservation_id c = j" using that assms(3) by (auto simp: ids_wf_def dest: keyed_lookup)
    then show ?thesis
      using that assms(1) list_ex_values [OF _ that(1), of "\<lambda>c. pv_request_id c = pv_request_id r \<and>
          pv_reservation_id c \<noteq> pv_reservation_id r"]
      by (auto simp: save_preemptive_resource_reservation_def)
  qed
  show ?thesis
    using assms(1,2)
    by (auto simp: save_preemptive_resource_reservation_def mark_dirty_def preemptive_wf_def dhas_iff_lookup
        split: if_splits) (metis other)+
qed

lemma preemptive_wf_deletes:
  "delete_preemptive_resource_demand q u = Inr u' \<Longrightarrow> preemptive_wf (working u) \<Longrightarrow> preemptive_wf (working u')"
  "delete_preemptive_resource_reservation i u = Inr u' \<Longrightarrow> preemptive_wf (working u) \<Longrightarrow> preemptive_wf (working u')"
  by (auto simp: delete_preemptive_resource_demand_def delete_preemptive_resource_reservation_def
      mark_dirty_def preemptive_wf_def split: if_splits)

lemma preemptive_wf_step:
  "uow_step u u' \<Longrightarrow> ids_wf (working u) \<Longrightarrow> preemptive_wf (working u) \<Longrightarrow> preemptive_wf (working u')"
proof (induction rule: uow_step.induct)
qed (erule (1) preemptive_wf_save_definition preemptive_wf_save_demand preemptive_wf_deletes
      | erule (2) preemptive_wf_save_reservation
      | clarsimp simp: plain_mutators preemptive_wf_def dest!: special_effects)+

subsection \<open>Stores, containers and bindings\<close>

lemma stores_wf_saves:
  "save_store_item i u = Inr u' \<Longrightarrow> stores_wf (working u) \<Longrightarrow> stores_wf (working u')"
  "save_store_put_intent p u = Inr u' \<Longrightarrow> stores_wf (working u) \<Longrightarrow> stores_wf (working u')"
  "save_store_get_request q u = Inr u' \<Longrightarrow> stores_wf (working u) \<Longrightarrow> stores_wf (working u')"
  "save_store_definition d u = Inr u' \<Longrightarrow> stores_wf (working u) \<Longrightarrow> stores_wf (working u')"
  by (auto simp: save_store_item_def save_store_put_intent_def save_store_get_request_def
      save_store_definition_def mark_dirty_def stores_wf_def dhas_iff_lookup split: if_splits)

lemma stores_wf_save_result:
  "save_store_get_result r u = Inr u' \<Longrightarrow> stores_wf (working u) \<Longrightarrow> stores_wf (working u')"
  by (erule save_store_get_result_cases) (auto simp: mark_dirty_def stores_wf_def split: if_splits)

lemma stores_wf_step: "uow_step u u' \<Longrightarrow> stores_wf (working u) \<Longrightarrow> stores_wf (working u')"
proof (induction rule: uow_step.induct)
qed (erule (1) stores_wf_saves stores_wf_save_result
      | clarsimp simp: plain_mutators stores_wf_def dest!: special_effects)+

lemma containers_wf_save_definition:
  assumes "save_container_definition d u = Inr u'" and "containers_wf (working u)"
  shows "containers_wf (working u')"
proof -
  have "map_of (st_container_definitions (working u)) (cd_name d) = Some d' \<Longrightarrow> d' = d" for d'
    using assms(1) by (auto simp: save_container_definition_def)
  then show ?thesis
    using assms by (auto simp: save_container_definition_def mark_dirty_def containers_wf_def) metis
qed

lemma containers_wf_saves:
  "save_container_state s u = Inr u' \<Longrightarrow> containers_wf (working u) \<Longrightarrow> containers_wf (working u')"
  "save_container_operation_intent i u = Inr u' \<Longrightarrow> containers_wf (working u) \<Longrightarrow> containers_wf (working u')"
  by (auto simp: save_container_state_def save_container_operation_intent_def mark_dirty_def
      containers_wf_def dhas_iff_lookup split: if_splits)

lemma containers_wf_save_result:
  "save_container_operation_result r u = Inr u' \<Longrightarrow> containers_wf (working u) \<Longrightarrow> containers_wf (working u')"
  by (erule save_container_operation_result_cases)
    (auto simp: mark_dirty_def containers_wf_def split: if_splits, metis option.distinct(1))

lemma containers_wf_step: "uow_step u u' \<Longrightarrow> containers_wf (working u) \<Longrightarrow> containers_wf (working u')"
proof (induction rule: uow_step.induct)
qed (erule (1) containers_wf_save_definition containers_wf_saves containers_wf_save_result
      | clarsimp simp: plain_mutators containers_wf_def dest!: special_effects)+

lemma save_binding_lookup:
  assumes "save_customer_settlement_binding b u = Inr u'"
  shows "map_of (st_customer_settlement_bindings (working u')) key =
    (if key \<in> set (binding_indices b) then Some b else map_of (st_customer_settlement_bindings (working u)) key)"
  using save_binding_effect(1) [OF assms] by (auto simp: binding_indices_def)

lemma bindings_wf_save:
  assumes "save_customer_settlement_binding b u = Inr u'" and "bindings_wf (working u)"
  shows "bindings_wf (working u')"
proof -
  let ?old = "map_of (st_customer_settlement_bindings (working u))"
  let ?new = "map_of (st_customer_settlement_bindings (working u'))"
  note new = save_binding_lookup [OF assms(1)]
  have "?new key' = Some c" if c: "?new key = Some c" and k: "key' \<in> set (binding_indices c)" for key key' c
  proof (cases "key \<in> set (binding_indices b)")
    case True
    with c new k show ?thesis by auto
  next
    case False
    with c new have old: "?old key = Some c" by simp
    with assms(2) k have "?old key' = Some c" unfolding bindings_wf_def by blast
    moreover have "c = b" if "key' \<in> set (binding_indices b)"
      using that save_binding_effect(2) [OF assms(1)] \<open>?old key' = Some c\<close> by auto
    ultimately show ?thesis using new by auto
  qed
  then show ?thesis unfolding bindings_wf_def by blast
qed

lemma bindings_wf_cong:
  "st_customer_settlement_bindings s = st_customer_settlement_bindings t \<Longrightarrow> bindings_wf s = bindings_wf t"
  by (simp add: bindings_wf_def)

lemma bindings_step:
  "uow_step u u' \<Longrightarrow> (\<exists>b. save_customer_settlement_binding b u = Inr u') \<or>
     st_customer_settlement_bindings (working u') = st_customer_settlement_bindings (working u)"
proof (induction rule: uow_step.induct)
  case (save_customer_settlement_binding_step b u u')
  then show ?case by blast
qed (rule disjI2, clarsimp simp: plain_mutators dest!: special_effects)+

lemma bindings_wf_step:
  assumes "uow_step u u'" and "bindings_wf (working u)"
  shows "bindings_wf (working u')"
  using bindings_step [OF assms(1)]
proof
  assume "\<exists>b. save_customer_settlement_binding b u = Inr u'"
  with assms(2) show ?thesis by (auto intro: bindings_wf_save)
next
  assume "st_customer_settlement_bindings (working u') = st_customer_settlement_bindings (working u)"
  with assms(2) show ?thesis using bindings_wf_cong [of "working u'" "working u"] by simp
qed

text \<open>Every step keeps a well-formed state well formed, and so does every sequence of steps.\<close>

lemma state_wf_step: "uow_step u u' \<Longrightarrow> state_wf (working u) \<Longrightarrow> state_wf (working u')"
  unfolding state_wf_def
  by (auto intro: ids_wf_step resources_wf_step stores_wf_step containers_wf_step preemptive_wf_step
      bindings_wf_step)

lemma state_wf_steps: "uow_step\<^sup>*\<^sup>* u u' \<Longrightarrow> state_wf (working u) \<Longrightarrow> state_wf (working u')"
  by (induction rule: rtranclp_induct) (auto intro: state_wf_step)

section \<open>The dirty set covers every change\<close>

definition event_at :: "'a list \<Rightarrow> nat \<Rightarrow> 'a option" where
  "event_at xs i = (if i < length xs then Some (xs ! i) else None)"

text \<open>Two states hold the same record (or none) under a collection and key.\<close>

definition same_at :: "string \<Rightarrow> dkey \<Rightarrow> 'v state \<Rightarrow> 'v state \<Rightarrow> bool" where
  "same_at c k s t \<longleftrightarrow>
     (c = ''entities'' \<longrightarrow> (\<forall>x y. k = KPair x y \<longrightarrow>
        map_of (st_entities s) (x, y) = map_of (st_entities t) (x, y))) \<and>
     (c = ''events'' \<longrightarrow> (\<forall>i. k = KIdx i \<longrightarrow> event_at (st_events s) i = event_at (st_events t) i)) \<and>
     (c = ''commands'' \<longrightarrow> (\<forall>x. k = KStr x \<longrightarrow>
        map_of (st_commands s) x = map_of (st_commands t) x)) \<and>
     (c = ''scheduled_work'' \<longrightarrow> (\<forall>x. k = KStr x \<longrightarrow>
        map_of (st_scheduled_work s) x = map_of (st_scheduled_work t) x)) \<and>
     (c = ''simulation_positions'' \<longrightarrow> (\<forall>x. k = KStr x \<longrightarrow>
        map_of (st_simulation_positions s) x = map_of (st_simulation_positions t) x)) \<and>
     (c = ''scenario_states'' \<longrightarrow> (\<forall>x. k = KStr x \<longrightarrow>
        map_of (st_scenario_states s) x = map_of (st_scenario_states t) x)) \<and>
     (c = ''resource_definitions'' \<longrightarrow> (\<forall>x. k = KStr x \<longrightarrow>
        map_of (st_resource_definitions s) x = map_of (st_resource_definitions t) x)) \<and>
     (c = ''resource_demands'' \<longrightarrow> (\<forall>x. k = KStr x \<longrightarrow>
        map_of (st_resource_demands s) x = map_of (st_resource_demands t) x)) \<and>
     (c = ''resource_reservations'' \<longrightarrow> (\<forall>x. k = KStr x \<longrightarrow>
        map_of (st_resource_reservations s) x = map_of (st_resource_reservations t) x)) \<and>
     (c = ''resource_release_intents'' \<longrightarrow> (\<forall>x. k = KStr x \<longrightarrow>
        map_of (st_resource_release_intents s) x = map_of (st_resource_release_intents t) x)) \<and>
     (c = ''store_definitions'' \<longrightarrow> (\<forall>x. k = KStr x \<longrightarrow>
        map_of (st_store_definitions s) x = map_of (st_store_definitions t) x)) \<and>
     (c = ''store_items'' \<longrightarrow> (\<forall>x. k = KStr x \<longrightarrow>
        map_of (st_store_items s) x = map_of (st_store_items t) x)) \<and>
     (c = ''store_put_intents'' \<longrightarrow> (\<forall>x. k = KStr x \<longrightarrow>
        map_of (st_store_put_intents s) x = map_of (st_store_put_intents t) x)) \<and>
     (c = ''store_get_requests'' \<longrightarrow> (\<forall>x. k = KStr x \<longrightarrow>
        map_of (st_store_get_requests s) x = map_of (st_store_get_requests t) x)) \<and>
     (c = ''store_get_results'' \<longrightarrow> (\<forall>x. k = KStr x \<longrightarrow>
        map_of (st_store_get_results s) x = map_of (st_store_get_results t) x)) \<and>
     (c = ''container_definitions'' \<longrightarrow> (\<forall>x. k = KStr x \<longrightarrow>
        map_of (st_container_definitions s) x = map_of (st_container_definitions t) x)) \<and>
     (c = ''container_states'' \<longrightarrow> (\<forall>x. k = KStr x \<longrightarrow>
        map_of (st_container_states s) x = map_of (st_container_states t) x)) \<and>
     (c = ''container_operation_intents'' \<longrightarrow> (\<forall>x. k = KStr x \<longrightarrow>
        map_of (st_container_operation_intents s) x = map_of (st_container_operation_intents t) x)) \<and>
     (c = ''container_operation_results'' \<longrightarrow> (\<forall>x. k = KStr x \<longrightarrow>
        map_of (st_container_operation_results s) x = map_of (st_container_operation_results t) x)) \<and>
     (c = ''preemptive_resource_definitions'' \<longrightarrow> (\<forall>x. k = KStr x \<longrightarrow>
        map_of (st_preemptive_resource_definitions s) x = map_of (st_preemptive_resource_definitions t) x)) \<and>
     (c = ''preemptive_resource_demands'' \<longrightarrow> (\<forall>x. k = KStr x \<longrightarrow>
        map_of (st_preemptive_resource_demands s) x = map_of (st_preemptive_resource_demands t) x)) \<and>
     (c = ''preemptive_resource_reservations'' \<longrightarrow> (\<forall>x. k = KStr x \<longrightarrow>
        map_of (st_preemptive_resource_reservations s) x = map_of (st_preemptive_resource_reservations t) x)) \<and>
     (c = ''preemptive_resource_release_intents'' \<longrightarrow> (\<forall>x. k = KStr x \<longrightarrow>
        map_of (st_preemptive_resource_release_intents s) x = map_of (st_preemptive_resource_release_intents t) x)) \<and>
     (c = ''resource_preemption_results'' \<longrightarrow> (\<forall>x. k = KStr x \<longrightarrow>
        map_of (st_resource_preemption_results s) x = map_of (st_resource_preemption_results t) x)) \<and>
     (c = ''job_states'' \<longrightarrow> (\<forall>x. k = KStr x \<longrightarrow>
        map_of (st_job_states s) x = map_of (st_job_states t) x)) \<and>
     (c = ''sink_deliveries'' \<longrightarrow> (\<forall>x. k = KStr x \<longrightarrow>
        map_of (st_sink_deliveries s) x = map_of (st_sink_deliveries t) x)) \<and>
     (c = ''sink_checkpoints'' \<longrightarrow> (\<forall>x y. k = KPair x y \<longrightarrow>
        map_of (st_sink_checkpoints s) (x, y) = map_of (st_sink_checkpoints t) (x, y))) \<and>
     (c = ''boundary_messages'' \<longrightarrow> (\<forall>x. k = KStr x \<longrightarrow>
        map_of (st_boundary_messages s) x = map_of (st_boundary_messages t) x)) \<and>
     (c = ''boundary_deliveries'' \<longrightarrow> (\<forall>x. k = KStr x \<longrightarrow>
        map_of (st_boundary_deliveries s) x = map_of (st_boundary_deliveries t) x)) \<and>
     (c = ''boundary_consumptions'' \<longrightarrow> (\<forall>x. k = KStr x \<longrightarrow>
        map_of (st_boundary_consumptions s) x = map_of (st_boundary_consumptions t) x)) \<and>
     (c = ''business_effects'' \<longrightarrow> (\<forall>x. k = KStr x \<longrightarrow>
        map_of (st_business_effects s) x = map_of (st_business_effects t) x)) \<and>
     (c = ''customer_settlement_bindings'' \<longrightarrow> (\<forall>x y. k = KPair x y \<longrightarrow>
        map_of (st_customer_settlement_bindings s) (x, y) = map_of (st_customer_settlement_bindings t) (x, y))) \<and>
     (c = ''domain_deliveries'' \<longrightarrow> (\<forall>x. k = KStr x \<longrightarrow>
        map_of (st_domain_deliveries s) x = map_of (st_domain_deliveries t) x)) \<and>
     (c = ''committed_ticks'' \<longrightarrow> (\<forall>x. k = KStr x \<longrightarrow>
        map_of (st_committed_ticks s) x = map_of (st_committed_ticks t) x))"

lemma event_at_append [simp]: "event_at (xs @ [e]) i = (if i = length xs then Some e else event_at xs i)"
  by (simp add: event_at_def nth_append)

lemma same_at_refl [simp]: "same_at c k s s"
  by (simp add: same_at_def)

lemma conj_merge:
  "a \<and> a' \<Longrightarrow> b \<and> b' \<Longrightarrow> (a \<Longrightarrow> b \<Longrightarrow> c) \<Longrightarrow> (a' \<Longrightarrow> b' \<Longrightarrow> c') \<Longrightarrow> c \<and> c'"
  by blast

lemma same_cell_trans:
  "C \<longrightarrow> (\<forall>x. K x \<longrightarrow> f x = g x) \<Longrightarrow> C \<longrightarrow> (\<forall>x. K x \<longrightarrow> g x = h x) \<Longrightarrow>
     C \<longrightarrow> (\<forall>x. K x \<longrightarrow> f x = h x)"
  "C \<longrightarrow> (\<forall>x y. L x y \<longrightarrow> f' x y = g' x y) \<Longrightarrow> C \<longrightarrow> (\<forall>x y. L x y \<longrightarrow> g' x y = h' x y) \<Longrightarrow>
     C \<longrightarrow> (\<forall>x y. L x y \<longrightarrow> f' x y = h' x y)"
  by auto

lemma same_at_trans: "same_at c k s t \<Longrightarrow> same_at c k t r \<Longrightarrow> same_at c k s r"
  unfolding same_at_def by ((erule (1) conj_merge, erule (1) same_cell_trans)+, erule (1) same_cell_trans)

lemma step_same_at:
  "uow_step u u' \<Longrightarrow> (c, k) \<notin> dirty_records u' \<Longrightarrow> same_at c k (working u) (working u')"
proof (induction rule: uow_step.induct)
qed (clarsimp simp: plain_mutators same_at_def
      | (erule save_store_get_result_cases save_container_operation_result_cases,
          simp, clarsimp simp: same_at_def mark_dirty_def)
      | (drule save_binding_effect(1), force simp: same_at_def binding_indices_def))+

lemma step_dirty_mono: "uow_step u u' \<Longrightarrow> dirty_records u \<subseteq> dirty_records u'"
proof (induction rule: uow_step.induct)
qed (force simp: plain_mutators
      | (erule save_store_get_result_cases save_container_operation_result_cases, simp, force simp: mark_dirty_def)
      | (drule save_binding_effect(1), force))+

lemma steps_dirty_mono: "uow_step\<^sup>*\<^sup>* u u' \<Longrightarrow> dirty_records u \<subseteq> dirty_records u'"
  by (induction rule: rtranclp_induct) (auto dest: step_dirty_mono)

lemma steps_same_at:
  "uow_step\<^sup>*\<^sup>* u u' \<Longrightarrow> (c, k) \<notin> dirty_records u' \<Longrightarrow> same_at c k (working u) (working u')"
proof (induction rule: rtranclp_induct)
  case base
  then show ?case by simp
next
  case (step v w)
  then have "(c, k) \<notin> dirty_records v" using step_dirty_mono by blast
  with step show ?case by (meson same_at_trans step_same_at)
qed

end
