(* ===== verification/Memory_Persistence.thy ===== *)
theory Memory_Persistence
  imports Memory_Wf
begin

text \<open>
  The second half of \<open>persistence/memory.py\<close>: \<open>MemoryPersistence\<close> with its transactions and
  its read methods, the states it can reach, and the theorems on them. The body of a
  transaction is a function from the forked unit of work to its result and the unit of work it
  leaves; raising discards the fork.
\<close>

section \<open>Write-once collections\<close>

text \<open>
  The contract several collections share: saving files the record under its identity, and is
  refused when a different record is already there.
\<close>

locale write_once =
  fixes save :: "'a \<Rightarrow> 's \<Rightarrow> 's res"
    and coll :: "'s \<Rightarrow> ('k \<times> 'a) list"
    and ident :: "'a \<Rightarrow> 'k"
  assumes save_effect: "save r s = Inr s' \<Longrightarrow> map_of (coll s') = (map_of (coll s))(ident r \<mapsto> r)"
    and save_conflict: "map_of (coll s) (ident r) = Some r' \<Longrightarrow> r' \<noteq> r \<Longrightarrow> \<exists>e. save r s = Inl e"
begin

lemma save_kept: "save r s = Inr s' \<Longrightarrow> map_of (coll s) \<subseteq>\<^sub>m map_of (coll s')"
  using save_effect save_conflict by (fastforce simp: map_le_def dom_def)

lemma saves_kept: "fold_res save rs s = Inr s' \<Longrightarrow> map_of (coll s) \<subseteq>\<^sub>m map_of (coll s')"
proof (induction rs arbitrary: s)
  case Nil
  then show ?case by simp
next
  case (Cons r rs)
  then obtain s1 where "save r s = Inr s1" "fold_res save rs s1 = Inr s'" by (auto split: sum.splits)
  with Cons.IH save_kept show ?case by (meson map_le_trans)
qed

lemma saved_lookup: "save r s = Inr s' \<Longrightarrow> map_of (coll s') (ident r) = Some r"
  by (simp add: save_effect)

end

text \<open>Definitions, messages, receipts, certificates and preemption results keep this contract.\<close>

interpretation wo_resource_definitions: write_once save_resource_definition "\<lambda>u. st_resource_definitions (working u)" rd_name
  by unfold_locales (auto simp: save_resource_definition_def mark_dirty_def guards.simps split: if_splits)

interpretation wo_store_definitions: write_once save_store_definition "\<lambda>u. st_store_definitions (working u)" sd_name
  by unfold_locales (auto simp: save_store_definition_def mark_dirty_def guards.simps split: if_splits)

interpretation wo_container_definitions: write_once save_container_definition "\<lambda>u. st_container_definitions (working u)" cd_name
  by unfold_locales (auto simp: save_container_definition_def mark_dirty_def guards.simps split: if_splits)

interpretation wo_preemptive_resource_definitions: write_once save_preemptive_resource_definition "\<lambda>u. st_preemptive_resource_definitions (working u)" pd_name
  by unfold_locales (auto simp: save_preemptive_resource_definition_def mark_dirty_def guards.simps split: if_splits)

interpretation wo_boundary_messages: write_once save_boundary_message "\<lambda>u. st_boundary_messages (working u)" bm_message_id
  by unfold_locales (auto simp: save_boundary_message_def mark_dirty_def guards.simps split: if_splits)

interpretation wo_boundary_consumptions: write_once save_boundary_consumption "\<lambda>u. st_boundary_consumptions (working u)" bc_delivery_id
  by unfold_locales (auto simp: save_boundary_consumption_def mark_dirty_def guards.simps split: if_splits)

interpretation wo_business_effects: write_once save_business_effect "\<lambda>u. st_business_effects (working u)" be_effect_id
  by unfold_locales (auto simp: save_business_effect_def mark_dirty_def guards.simps split: if_splits)

interpretation wo_resource_preemption_results: write_once save_resource_preemption_result "\<lambda>u. st_resource_preemption_results (working u)" pr_result_id
  by unfold_locales (auto simp: save_resource_preemption_result_def mark_dirty_def guards.simps split: if_splits)

text \<open>So do the two collections whose save leaves an equal record untouched.\<close>

interpretation wo_store_get_results: write_once save_store_get_result
  "\<lambda>u. st_store_get_results (working u)" gr_request_id
  by unfold_locales (auto simp: save_store_get_result_def mark_dirty_def split: if_splits option.splits)

interpretation wo_container_operation_results: write_once save_container_operation_result
  "\<lambda>u. st_container_operation_results (working u)" cr_request_id
  by unfold_locales (auto simp: save_container_operation_result_def mark_dirty_def split: if_splits option.splits)

text \<open>The ledgers: collections with no delete, and the event log, which only grows.\<close>

definition ledgers_kept :: "'v state \<Rightarrow> 'v state \<Rightarrow> bool" where
  "ledgers_kept s t \<longleftrightarrow>
     map_of (st_resource_definitions s) \<subseteq>\<^sub>m map_of (st_resource_definitions t) \<and>
     map_of (st_store_definitions s) \<subseteq>\<^sub>m map_of (st_store_definitions t) \<and>
     map_of (st_container_definitions s) \<subseteq>\<^sub>m map_of (st_container_definitions t) \<and>
     map_of (st_preemptive_resource_definitions s) \<subseteq>\<^sub>m map_of (st_preemptive_resource_definitions t) \<and>
     map_of (st_boundary_messages s) \<subseteq>\<^sub>m map_of (st_boundary_messages t) \<and>
     map_of (st_boundary_consumptions s) \<subseteq>\<^sub>m map_of (st_boundary_consumptions t) \<and>
     map_of (st_business_effects s) \<subseteq>\<^sub>m map_of (st_business_effects t) \<and>
     map_of (st_resource_preemption_results s) \<subseteq>\<^sub>m map_of (st_resource_preemption_results t) \<and>
     map_of (st_store_get_results s) \<subseteq>\<^sub>m map_of (st_store_get_results t) \<and>
     map_of (st_container_operation_results s) \<subseteq>\<^sub>m map_of (st_container_operation_results t) \<and>
     map_of (st_customer_settlement_bindings s) \<subseteq>\<^sub>m map_of (st_customer_settlement_bindings t) \<and>
     (\<exists>es. st_events t = st_events s @ es)"

lemma save_binding_kept:
  assumes "save_customer_settlement_binding b u = Inr u'"
  shows "map_of (st_customer_settlement_bindings (working u)) \<subseteq>\<^sub>m map_of (st_customer_settlement_bindings (working u'))"
  unfolding map_le_def dom_def save_binding_lookup [OF assms] using save_binding_effect(2) [OF assms] by auto

lemma ledgers_kept_refl [simp]: "ledgers_kept s s"
  by (simp add: ledgers_kept_def)

lemma ledgers_kept_trans: "ledgers_kept s t \<Longrightarrow> ledgers_kept t r \<Longrightarrow> ledgers_kept s r"
  unfolding ledgers_kept_def by ((erule (1) conj_merge, erule (1) map_le_trans)+, auto)

text \<open>The mutators that write a ledger.\<close>

lemmas ledger_saves =
  wo_resource_definitions.save_kept
  wo_store_definitions.save_kept
  wo_container_definitions.save_kept
  wo_preemptive_resource_definitions.save_kept
  wo_boundary_messages.save_kept
  wo_boundary_consumptions.save_kept
  wo_business_effects.save_kept
  wo_resource_preemption_results.save_kept
  wo_store_get_results.save_kept
  wo_container_operation_results.save_kept
  save_binding_kept

lemma ledgers_kept_step: "uow_step u u' \<Longrightarrow> ledgers_kept (working u) (working u')"
proof (induction rule: uow_step.induct)
qed (frule ledger_saves, clarsimp simp: plain_mutators ledgers_kept_def dest!: special_effects
      | clarsimp simp: plain_mutators ledgers_kept_def)+

lemma ledgers_kept_steps: "uow_step\<^sup>*\<^sup>* u u' \<Longrightarrow> ledgers_kept (working u) (working u')"
  by (induction rule: rtranclp_induct) (auto intro: ledgers_kept_trans ledgers_kept_step)

section \<open>The persistence object\<close>

record 'v persistence =
  pstate :: "'v state"
  read_only :: bool

definition new_persistence :: "'v persistence" where
  "new_persistence = \<lparr>pstate = empty_state, read_only = False\<rparr>"

text \<open>\<open>_read_view\<close>: a facade on a captured state that refuses transactions.\<close>

definition read_view :: "'v state \<Rightarrow> 'v persistence" where
  "read_view s = \<lparr>pstate = s, read_only = True\<rparr>"

type_synonym ('v, 'a) tx_body = "'v uow \<Rightarrow> ('a \<times> 'v uow) res"

text \<open>
  \<open>transaction\<close> as a context manager: fork, run the body, commit; an exception of the body or
  of the commit propagates and leaves the published state alone.
\<close>

definition transaction ::
  "string option \<Rightarrow> ('v, 'a) tx_body \<Rightarrow> 'v persistence \<Rightarrow> 'a res \<times> 'v persistence" where
  "transaction owner_id body p =
     (if read_only p then (Inl (RuntimeError ''read snapshot is read-only''), p)
      else if owner_id = Some [] then (Inl (ValueError ''owner_id must not be empty''), p)
      else case body (new_uow (fork_state (pstate p))) of
        Inl e \<Rightarrow> (Inl e, p)
      | Inr (a, u) \<Rightarrow> (case commit u of
            Inl e \<Rightarrow> (Inl e, p)
          | Inr s \<Rightarrow> (Inr a, p\<lparr>pstate := s\<rparr>)))"

text \<open>A body that performs mutators one after the other and returns nothing.\<close>

definition run_ops :: "('v uow \<Rightarrow> 'v uow res) list \<Rightarrow> ('v, unit) tx_body" where
  "run_ops ops u = bind_res (fold_res (\<lambda>f u. f u) ops u) (\<lambda>u'. Inr ((), u'))"

section \<open>Reads\<close>


definition job_state :: "string \<Rightarrow> 'v persistence \<Rightarrow> ('v simulation_job_state) option" where
  "job_state k p = dget (st_job_states (pstate p)) k"

definition job_states :: "'v persistence \<Rightarrow> ('v simulation_job_state) list" where
  "job_states p = by_key (st_job_states (pstate p))"

definition business_effect :: "string \<Rightarrow> 'v persistence \<Rightarrow> (business_effect_applied) option" where
  "business_effect k p = dget (st_business_effects (pstate p)) k"

definition business_effects :: "'v persistence \<Rightarrow> (business_effect_applied) list" where
  "business_effects p = by_key (st_business_effects (pstate p))"

definition domain_delivery_of :: "string \<Rightarrow> 'v persistence \<Rightarrow> ('v domain_delivery) option" where
  "domain_delivery_of k p = dget (st_domain_deliveries (pstate p)) k"

definition domain_deliveries :: "'v persistence \<Rightarrow> ('v domain_delivery) list" where
  "domain_deliveries p = by_key (st_domain_deliveries (pstate p))"

definition sink_delivery_of :: "string \<Rightarrow> 'v persistence \<Rightarrow> ('v sink_delivery) option" where
  "sink_delivery_of k p = dget (st_sink_deliveries (pstate p)) k"

definition sink_deliveries :: "string option \<Rightarrow> string option \<Rightarrow> 'v persistence \<Rightarrow> ('v sink_delivery) list" where
  "sink_deliveries job_id sink_name p =
     filter (\<lambda>d. (case job_id of None \<Rightarrow> True | Some j \<Rightarrow> ab_job_id (sl_batch d) = j) \<and>
                 (case sink_name of None \<Rightarrow> True | Some n \<Rightarrow> sl_sink_name d = n))
       (sort_key sl_delivery_id (dvalues (st_sink_deliveries (pstate p))))"

definition sink_checkpoint_of :: "string \<Rightarrow> string \<Rightarrow> 'v persistence \<Rightarrow> sink_checkpoint option" where
  "sink_checkpoint_of job_id sink_name p = dget (st_sink_checkpoints (pstate p)) (job_id, sink_name)"

definition sink_checkpoints :: "string option \<Rightarrow> 'v persistence \<Rightarrow> sink_checkpoint list" where
  "sink_checkpoints job_id p =
     filter (\<lambda>c. case job_id of None \<Rightarrow> True | Some j \<Rightarrow> sc_job_id c = j)
       (sort_key (\<lambda>c. (sc_job_id c, sc_sink_name c)) (dvalues (st_sink_checkpoints (pstate p))))"

definition committed_tick :: "string \<Rightarrow> 'v persistence \<Rightarrow> int res" where
  "committed_tick owner_id p = guards [(blank owner_id, ValueError ''owner_id must not be empty'')]
     (case dget (st_committed_ticks (pstate p)) owner_id of None \<Rightarrow> - 1 | Some t \<Rightarrow> t)"

definition count_events :: "string \<Rightarrow> 'v persistence \<Rightarrow> nat res" where
  "count_events owner_id p = guards [(blank owner_id, ValueError ''owner_id must not be empty'')]
     (length (filter (\<lambda>e. ev_owner_id e = Some owner_id) (st_events (pstate p))))"

definition events :: "'v persistence \<Rightarrow> ('v domain_event) list" where
  "events p = st_events (pstate p)"

definition entity_of :: "string \<Rightarrow> string \<Rightarrow> 'v persistence \<Rightarrow> ('v entity) option" where
  "entity_of entity_type entity_id p = dget (st_entities (pstate p)) (entity_type, entity_id)"

definition entities :: "'v persistence \<Rightarrow> ('v entity) list" where
  "entities p = dvalues (st_entities (pstate p))"

definition command_of :: "string \<Rightarrow> 'v persistence \<Rightarrow> ('v command) option" where
  "command_of command_id p = dget (st_commands (pstate p)) command_id"

definition missing_command_ids :: "string list \<Rightarrow> 'v persistence \<Rightarrow> string set" where
  "missing_command_ids command_ids p = set command_ids - fst ` set (st_commands (pstate p))"

definition scheduled_work_of :: "'v persistence \<Rightarrow> scheduled_work list" where
  "scheduled_work_of p = sort (dvalues (st_scheduled_work (pstate p)))"

definition due_scheduled_work :: "datetime \<Rightarrow> 'v persistence \<Rightarrow> scheduled_work list" where
  "due_scheduled_work t p = filter (\<lambda>w. sw_due_at w \<le> t) (scheduled_work_of p)"

definition simulation_position_of :: "string \<Rightarrow> 'v persistence \<Rightarrow> (simulation_position option) res" where
  "simulation_position_of owner_id p = guards [(blank owner_id, ValueError ''owner_id must not be empty'')]
     (dget (st_simulation_positions (pstate p)) owner_id)"

definition scenario_state_of :: "string \<Rightarrow> 'v persistence \<Rightarrow> (('v scenario_runtime_state) option) res" where
  "scenario_state_of owner_id p = guards [(blank owner_id, ValueError ''owner_id must not be empty'')]
     (dget (st_scenario_states (pstate p)) owner_id)"

definition boundary_protocol_snapshot ::
  "'v persistence \<Rightarrow> boundary_message list \<times> boundary_delivery list \<times> boundary_consumption list" where
  "boundary_protocol_snapshot p =
     (let u = new_uow (fork_state (pstate p))
      in (uow_boundary_messages u, uow_boundary_deliveries u, uow_boundary_consumptions u))"

definition resource_definitions :: "'v persistence \<Rightarrow> (resource_definition) list" where
  "resource_definitions p = by_key (st_resource_definitions (pstate p))"

definition resource_demands :: "'v persistence \<Rightarrow> resource_demand list" where
  "resource_demands p = sort (dvalues (st_resource_demands (pstate p)))"

definition resource_reservations :: "'v persistence \<Rightarrow> (resource_reservation) list" where
  "resource_reservations p = by_key (st_resource_reservations (pstate p))"

definition resource_release_intents :: "'v persistence \<Rightarrow> (resource_release_intent) list" where
  "resource_release_intents p = by_key (st_resource_release_intents (pstate p))"

definition store_definitions :: "'v persistence \<Rightarrow> (store_definition) list" where
  "store_definitions p = by_key (st_store_definitions (pstate p))"

definition store_items :: "'v persistence \<Rightarrow> ('v durable_store_item) list" where
  "store_items p = sort_key (\<lambda>i. (si_store_name i, si_sequence i, si_item_id i)) (dvalues (st_store_items (pstate p)))"

definition store_put_intents :: "'v persistence \<Rightarrow> ('v store_put_intent) list" where
  "store_put_intents p = sort_key (\<lambda>i. (pi_sequence i, pi_item_id i)) (dvalues (st_store_put_intents (pstate p)))"

definition store_get_requests :: "'v persistence \<Rightarrow> (store_get_request) list" where
  "store_get_requests p = sort_key (\<lambda>q. (gq_sequence q, gq_request_id q)) (dvalues (st_store_get_requests (pstate p)))"

definition store_get_results :: "'v persistence \<Rightarrow> ('v store_get_result) list" where
  "store_get_results p = sort_key (\<lambda>r. (gr_sequence r, gr_request_id r)) (dvalues (st_store_get_results (pstate p)))"

definition container_definitions :: "'v persistence \<Rightarrow> (container_definition) list" where
  "container_definitions p = by_key (st_container_definitions (pstate p))"

definition container_states :: "'v persistence \<Rightarrow> (container_state) list" where
  "container_states p = by_key (st_container_states (pstate p))"

definition container_operation_intents :: "'v persistence \<Rightarrow> (container_operation_intent) list" where
  "container_operation_intents p = sort_key (\<lambda>i. (ci_sequence i, ci_request_id i)) (dvalues (st_container_operation_intents (pstate p)))"

definition container_operation_results :: "'v persistence \<Rightarrow> (container_operation_result) list" where
  "container_operation_results p = sort_key (\<lambda>r. (cr_sequence r, cr_request_id r)) (dvalues (st_container_operation_results (pstate p)))"

definition preemptive_resource_definitions :: "'v persistence \<Rightarrow> (preemptive_resource_definition) list" where
  "preemptive_resource_definitions p = by_key (st_preemptive_resource_definitions (pstate p))"

definition preemptive_resource_demands :: "'v persistence \<Rightarrow> preemptive_resource_demand list" where
  "preemptive_resource_demands p = sort (dvalues (st_preemptive_resource_demands (pstate p)))"

definition preemptive_resource_reservations :: "'v persistence \<Rightarrow> (preemptive_resource_reservation) list" where
  "preemptive_resource_reservations p = sort_key (\<lambda>r. (pv_resource_name r, pv_sequence r, pv_reservation_id r)) (dvalues (st_preemptive_resource_reservations (pstate p)))"

definition preemptive_resource_release_intents :: "'v persistence \<Rightarrow> (preemptive_resource_release_intent) list" where
  "preemptive_resource_release_intents p = by_key (st_preemptive_resource_release_intents (pstate p))"

definition resource_preemption_results :: "'v persistence \<Rightarrow> (resource_preemption_result) list" where
  "resource_preemption_results p = sort_key (\<lambda>r. (pr_sequence r, pr_result_id r)) (dvalues (st_resource_preemption_results (pstate p)))"

section \<open>Histories\<close>

text \<open>
  A history is a sequence of transactions whose bodies act on the durable state through the unit
  of work only; any of them may raise.
\<close>

definition uow_body :: "('v, 'a) tx_body \<Rightarrow> bool" where
  "uow_body body \<longleftrightarrow> (\<forall>u a u'. body u = Inr (a, u') \<longrightarrow> uow_step\<^sup>*\<^sup>* u u')"

inductive history :: "'v persistence \<Rightarrow> 'v persistence \<Rightarrow> bool" where
  history_refl: "history p p"
| history_tx: "history p q \<Longrightarrow> uow_body (body :: ('v, unit) tx_body) \<Longrightarrow>
    transaction owner_id body q = (r, q') \<Longrightarrow> history p q'"

lemma transaction_cases:
  assumes "transaction owner_id body p = (r, p')"
  obtains e where "r = Inl e" and "p' = p"
  | a u where "r = Inr a" and "body (new_uow (pstate p)) = Inr (a, u)" and "commit u = Inr (working u)"
      and "p' = p\<lparr>pstate := working u\<rparr>" and "\<not> read_only p" and "owner_id \<noteq> Some []"
  using assms
  by (auto simp: transaction_def fork_state_def commit_Inr_iff split: if_splits sum.splits prod.splits)

lemma transaction_ok:
  assumes "body (new_uow (pstate p)) = Inr (a, u)" and "\<not> read_only p" and "settled_disjoint (working u)"
  shows "transaction None body p = (Inr a, p\<lparr>pstate := working u\<rparr>)"
proof -
  from assms(3) have "commit u = Inr (working u)" by (simp add: commit_Inr_iff settled_disjoint_def)
  with assms(1,2) show ?thesis by (simp add: transaction_def fork_state_def)
qed

lemma uow_body_transaction:
  assumes "transaction owner_id body p = (r, p')" and "uow_body body"
  shows "p' = p \<or> (\<exists>u. uow_step\<^sup>*\<^sup>* (new_uow (pstate p)) u \<and> p' = p\<lparr>pstate := working u\<rparr> \<and>
    settled_disjoint (working u))"
  using assms(1)
proof (cases rule: transaction_cases)
  case (2 a u)
  then show ?thesis
    using assms(2) unfolding uow_body_def settled_disjoint_def commit_Inr_iff by blast
qed simp

lemma history_wf:
  "history p q \<Longrightarrow> state_wf (pstate p) \<and> settled_disjoint (pstate p) \<Longrightarrow>
     state_wf (pstate q) \<and> settled_disjoint (pstate q)"
proof (induction rule: history.induct)
  case (history_tx p q body owner_id r q')
  from uow_body_transaction [OF history_tx.hyps(3,2)] history_tx.IH history_tx.prems show ?case
    by (auto dest: state_wf_steps simp: new_uow_def)
qed simp

lemma reachable_wf: "history new_persistence p \<Longrightarrow> state_wf (pstate p) \<and> settled_disjoint (pstate p)"
  using history_wf [of new_persistence p] by (simp add: new_persistence_def)

lemma history_ledgers: "history p q \<Longrightarrow> ledgers_kept (pstate p) (pstate q)"
proof (induction rule: history.induct)
  case (history_tx p q body owner_id r q')
  from uow_body_transaction [OF history_tx.hyps(3,2)] history_tx.IH show ?case
    by (auto dest!: ledgers_kept_steps simp: new_uow_def intro: ledgers_kept_trans)
qed simp

lemma run_ops_uow_body:
  assumes "\<And>f u u'. f \<in> set ops \<Longrightarrow> f u = Inr u' \<Longrightarrow> uow_step u u'"
  shows "uow_body (run_ops ops)"
proof -
  have "fold_res (\<lambda>f u. f u) ops u = Inr u' \<Longrightarrow> uow_step\<^sup>*\<^sup>* u u'" for u u'
    by (erule fold_res_invariant [where P = "\<lambda>v. uow_step\<^sup>*\<^sup>* u v"])
      (auto intro: rtranclp.rtrancl_into_rtrancl assms)
  then show ?thesis by (auto simp: uow_body_def run_ops_def)
qed

section \<open>Properties\<close>


definition sample_definition :: resource_definition where
  "sample_definition = \<lparr>rd_name = ''dock'', rd_capacity = 1\<rparr>"

lemma sample_save:
  "transaction None (run_ops [save_resource_definition sample_definition]) new_persistence =
     (Inr (), \<lparr>pstate = empty_state\<lparr>st_resource_definitions := [(''dock'', sample_definition)]\<rparr>, read_only = False\<rparr>)"
  by (simp add: transaction_def run_ops_def new_persistence_def fork_state_def new_uow_def commit_def
      overlap_def save_resource_definition_def mark_dirty_def empty_state_def sample_definition_def guards.simps)

lemma sample_body: "uow_body (run_ops [save_resource_definition sample_definition])"
  by (rule run_ops_uow_body) (auto intro: save_resource_definition_step)


text \<open>
  C10. Every state reachable from a new persistence object by transactions, failing ones included, is
  well formed: each record sits under its own identity; demands, reservations, items, intents,
  requests, results and levels refer to existing definitions; no request is both pending and
  reserved or completed; no request holds two reservations; no container level exceeds its capacity.
\<close>

theorem reachable_states_well_formed:
  assumes "history new_persistence p"
  shows "state_wf (pstate p) \<and> settled_disjoint (pstate p)"
  using assms by (rule reachable_wf)

lemma sample_history:
  "history new_persistence
     \<lparr>pstate = empty_state\<lparr>st_resource_definitions := [(''dock'', sample_definition)]\<rparr>, read_only = False\<rparr>"
  by (rule history_tx [OF history_refl sample_body sample_save])

theorem reachable_states_well_formed_witness:
  "\<exists>p. history new_persistence p \<and> st_resource_definitions (pstate p) \<noteq> [] \<and> state_wf (pstate p)"
  using sample_history reachable_states_well_formed [OF sample_history] by fastforce

text \<open>
  C28. The ledgers are write-once over any history: definitions, boundary messages and receipts,
  business-effect certificates, settlement bindings, preemption results and completed get and
  container results never change or disappear, and the event log only grows at its end.
\<close>

theorem ledgers_write_once:
  assumes "history p q"
  shows "ledgers_kept (pstate p) (pstate q)"
  using assms by (rule history_ledgers)

theorem ledgers_write_once_witness:
  "\<exists>p q :: nat persistence. history p q \<and> pstate p \<noteq> pstate q \<and> ledgers_kept (pstate p) (pstate q)"
proof -
  have "pstate (new_persistence :: nat persistence) \<noteq>
      empty_state\<lparr>st_resource_definitions := [(''dock'', sample_definition)]\<rparr>"
    by (simp add: new_persistence_def empty_state_def)
  then show ?thesis using sample_history ledgers_write_once [OF sample_history] by fastforce
qed

text \<open>
  The dirty set is sound: a record that differs between the forked state and the working state
  (added, changed or deleted, in any collection) is in it. The database adapters write only the
  dirty records, so nothing a transaction changed is lost.
\<close>

theorem dirty_records_cover_changes:
  assumes "uow_step\<^sup>*\<^sup>* (new_uow s) u" and "\<not> same_at c k s (working u)"
  shows "(c, k) \<in> dirty_records u"
  using steps_same_at [OF assms(1)] assms(2) by (auto simp: new_uow_def)

definition sample_entity :: "nat entity" where
  "sample_entity = \<lparr>en_id = ''1'', en_entity_type = ''order'', en_state = ''new'', en_attributes = Mapping.empty,
     en_created_at = None, en_updated_at = None, en_version = 0\<rparr>"

theorem dirty_records_cover_changes_witness:
  "\<exists>u :: nat uow. uow_step\<^sup>*\<^sup>* (new_uow empty_state) u \<and>
     \<not> same_at ''entities'' (KPair ''order'' ''1'') empty_state (working u) \<and>
     (''entities'', KPair ''order'' ''1'') \<in> dirty_records u"
proof -
  obtain u where u: "save_entity sample_entity (new_uow empty_state) = Inr u"
    by (simp add: save_entity_def guards.simps)
  then have step: "uow_step\<^sup>*\<^sup>* (new_uow empty_state) u" by (blast intro: save_entity_step)
  have "map_of (st_entities (working u)) (''order'', ''1'') = Some sample_entity"
    using u by (auto simp: save_entity_def mark_dirty_def new_uow_def empty_state_def sample_entity_def)
  moreover have "same_at ''entities'' (KPair a b) s t \<Longrightarrow>
      map_of (st_entities s) (a, b) = map_of (st_entities t) (a, b)" for a b and s t :: "nat state"
    by (drule same_at_def [THEN iffD1, THEN conjunct1]) simp
  ultimately have "\<not> same_at ''entities'' (KPair ''order'' ''1'') empty_state (working u)"
    by (force simp: empty_state_def)
  with step dirty_records_cover_changes [OF step] show ?thesis by blast
qed

text \<open>
  Settlement bindings are complete: on every reachable state a lookup by order, payment or journal
  never finds incomplete indices, and the three lookups of one binding agree.
\<close>

theorem settlement_lookups_agree:
  assumes "history new_persistence p" and "kind \<in> {''order'', ''payment'', ''journal''}"
  shows "\<exists>b. get_customer_settlement_binding kind i (new_uow (pstate p)) = Inr b \<and>
    (\<forall>c. b = Some c \<longrightarrow>
       get_customer_settlement_binding ''order'' (sb_order_id c) (new_uow (pstate p)) = Inr (Some c) \<and>
       get_customer_settlement_binding ''payment'' (sb_payment_id c) (new_uow (pstate p)) = Inr (Some c) \<and>
       get_customer_settlement_binding ''journal'' (sb_journal_id c) (new_uow (pstate p)) = Inr (Some c))"
proof -
  have "bindings_wf (pstate p)"
    using reachable_wf [OF assms(1)] by (simp add: state_wf_def)
  then have wf: "map_of (st_customer_settlement_bindings (pstate p)) key = Some c \<Longrightarrow>
      \<forall>key' \<in> set (binding_indices c). map_of (st_customer_settlement_bindings (pstate p)) key' = Some c" for key c
    unfolding bindings_wf_def by blast
  show ?thesis
  proof (cases "map_of (st_customer_settlement_bindings (pstate p)) (kind, i)")
    case None
    with assms(2) show ?thesis by (simp add: get_customer_settlement_binding_def new_uow_def)
  next
    case (Some c)
    from wf [OF Some] Some assms(2) show ?thesis
      by (simp add: get_customer_settlement_binding_def new_uow_def binding_indices_def)
  qed
qed

definition sample_binding :: customer_settlement_binding where
  "sample_binding = \<lparr>sb_binding_id = ''b'', sb_order_id = ''o1'', sb_payment_id = ''p1'', sb_journal_id = ''j1'',
     sb_amount = Fin 5, sb_currency = ''EUR'', sb_correlation_id = ''c''\<rparr>"

theorem settlement_lookups_agree_witness:
  "\<exists>p :: nat persistence. history new_persistence p \<and>
     get_customer_settlement_binding ''payment'' ''p1'' (new_uow (pstate p)) = Inr (Some sample_binding)"
proof -
  let ?body = "run_ops [save_customer_settlement_binding sample_binding]"
  obtain p :: "nat persistence" where tx: "transaction None ?body new_persistence = (Inr (), p)"
    and o: "get_customer_settlement_binding ''order'' ''o1'' (new_uow (pstate p)) = Inr (Some sample_binding)"
    by (simp add: transaction_def run_ops_def new_persistence_def fork_state_def new_uow_def commit_def
        overlap_def save_customer_settlement_binding_def get_customer_settlement_binding_def mark_dirty_def
        empty_state_def sample_binding_def guards.simps binding_indices_def)
  have "uow_body ?body" by (rule run_ops_uow_body) (auto intro: save_customer_settlement_binding_step)
  from history_tx [OF history_refl this tx] have h: "history new_persistence p" .
  from settlement_lookups_agree [OF h, of "''order''" "''o1''"] o
  have "get_customer_settlement_binding ''payment'' (sb_payment_id sample_binding) (new_uow (pstate p))
      = Inr (Some sample_binding)" by auto
  with h show ?thesis by (auto simp: sample_binding_def)
qed

end
