(* ===== verification/Domain_Warehouse.thy ===== *)
theory Domain_Warehouse
  imports Memory_Persistence Encoding
begin

text \<open>
  The simulated business state outside the engine's own store: \<open>domain/warehouse.py\<close> (the in-memory
  \<open>MemoryDomainWarehouse\<close>), \<open>domain/entity_store.py\<close> (reading a warehouse through the pending
  deliveries), \<open>domain/outbox.py\<close> (delivering them) and \<open>domain/projector.py\<close>. What a warehouse
  promises is the locale \<open>versioned_warehouse\<close>.
\<close>

section \<open>The in-memory warehouse\<close>

datatype domain_apply_result = APPLIED | REPLAYED | SUPERSEDED

record 'v memory_warehouse =
  mw_entities :: "((string \<times> string) \<times> 'v entity) list"
  mw_mutations :: "(string \<times> 'v domain_mutation) list"

definition new_warehouse :: "'v memory_warehouse" where
  "new_warehouse = \<lparr>mw_entities = [], mw_mutations = []\<rparr>"

abbreviation mu_key :: "'v domain_mutation \<Rightarrow> string \<times> string" where
  "mu_key m \<equiv> (en_entity_type (mu_entity m), en_id (mu_entity m))"

definition warehouse_entity :: "'v memory_warehouse \<Rightarrow> string \<Rightarrow> string \<Rightarrow> 'v entity option" where
  "warehouse_entity w entity_type entity_id = dget (mw_entities w) (entity_type, entity_id)"

definition warehouse_entities :: "'v memory_warehouse \<Rightarrow> string option \<Rightarrow> 'v entity list" where
  "warehouse_entities w entity_type = sort_key (\<lambda>e. (en_entity_type e, en_id e))
     (map snd (filter (\<lambda>((kind, _), _). case entity_type of None \<Rightarrow> True | Some t \<Rightarrow> kind = t) (mw_entities w)))"

definition warehouse_mutation :: "'v memory_warehouse \<Rightarrow> string \<Rightarrow> 'v domain_mutation option" where
  "warehouse_mutation w mutation_id = dget (mw_mutations w) mutation_id"

text \<open>The message of the last error also shows the version.\<close>

definition apply_mutation :: "'v domain_mutation \<Rightarrow> ('v memory_warehouse, domain_apply_result) meth" where
  "apply_mutation m w =
     (case dget (mw_mutations w) (mu_mutation_id m) of
        Some existing \<Rightarrow>
          if existing \<noteq> m then (Inl (ValueError (''domain mutation identity conflict: '' @ mu_mutation_id m)), w)
          else (Inr REPLAYED, w)
      | None \<Rightarrow>
          (let noted = w\<lparr>mw_mutations := dset (mu_mutation_id m) m (mw_mutations w)\<rparr>;
               applied = noted\<lparr>mw_entities := dset (mu_key m) (mu_entity m) (mw_entities w)\<rparr>
           in case dget (mw_entities w) (mu_key m) of
                None \<Rightarrow> (Inr APPLIED, applied)
              | Some current \<Rightarrow>
                  if en_version (mu_entity m) < en_version current then (Inr SUPERSEDED, noted)
                  else if en_version (mu_entity m) = en_version current then
                    (if mu_entity m \<noteq> current
                     then (Inl (ValueError (''conflicting domain entity version: '' @ en_entity_type (mu_entity m) @ ''/'' @
                             en_id (mu_entity m))), w)
                     else (Inr REPLAYED, noted))
                  else (Inr APPLIED, applied)))"

section \<open>Reading through the outbox\<close>

definition pending_entities_for :: "'v persistence \<Rightarrow> string \<Rightarrow> string \<Rightarrow> 'v entity list" where
  "pending_entities_for p entity_type entity_id =
     filter (\<lambda>e. en_entity_type e = entity_type \<and> en_id e = entity_id)
       (map (\<lambda>d. mu_entity (dd_mutation d)) (domain_deliveries p))"

text \<open>The candidates are never empty here; the message also shows the version.\<close>

definition latest_consistent_entity :: "'v entity list \<Rightarrow> string \<Rightarrow> string \<Rightarrow> 'v entity res" where
  "latest_consistent_entity candidates entity_type entity_id =
     (let max_version = Max (set (map en_version candidates));
          latest = filter (\<lambda>e. en_version e = max_version) candidates
      in if list_ex (\<lambda>e. e \<noteq> hd latest) (tl latest)
         then Inl (RuntimeError (''conflicting domain entity version: '' @ entity_type @ ''/'' @ entity_id))
         else Inr (hd latest))"

definition store_entity ::
  "(string \<Rightarrow> string \<Rightarrow> 'v entity option) \<Rightarrow> 'v persistence \<Rightarrow> string \<Rightarrow> string \<Rightarrow> 'v entity option res" where
  "store_entity warehouse p entity_type entity_id =
     (let candidates = (case warehouse entity_type entity_id of None \<Rightarrow> [] | Some e \<Rightarrow> [e]) @
            pending_entities_for p entity_type entity_id
      in if candidates = [] then Inr None
         else bind_res (latest_consistent_entity candidates entity_type entity_id) (\<lambda>e. Inr (Some e)))"

section \<open>The outbox\<close>

definition entity_mutation :: "digest \<Rightarrow> 'v entity \<Rightarrow> 'v domain_mutation res" where
  "entity_mutation uuid5 e =
     bind_res (deterministic_id uuid5 ''domain-entity-version'' [PStr (en_entity_type e), PStr (en_id e), PInt (en_version e)])
       (\<lambda>i. mk_domain_mutation \<lparr>mu_mutation_id = i, mu_entity = e\<rparr>)"

definition enqueue :: "'v domain_mutation \<Rightarrow> ('v, 'v domain_delivery) tx_body" where
  "enqueue m u =
     (case get_domain_delivery (mu_mutation_id m) u of
        Some existing \<Rightarrow>
          if dd_mutation existing \<noteq> m
          then Inl (ValueError (''domain mutation identity conflict: '' @ mu_mutation_id m))
          else Inr (existing, u)
      | None \<Rightarrow>
          (let d = \<lparr>dd_mutation = m, dd_attempts = 0, dd_last_error = None\<rparr>
           in bind_res (save_domain_delivery d u) (\<lambda>u. Inr (d, u))))"

definition prepare :: "'v domain_mutation \<Rightarrow> ('v persistence, 'v domain_delivery) meth" where
  "prepare m = transaction None (enqueue m)"

text \<open>
  Delivering one mutation to a warehouse with state \<open>'s\<close>. On an error of the warehouse the attempt is
  recorded (with the text of the error, which the parameter \<open>show_error\<close> gives) and the error raised.
\<close>

record ('v, 's) outbox_world =
  ob_persistence :: "'v persistence"
  ob_warehouse :: 's

definition record_failure :: "'v domain_delivery \<Rightarrow> string \<Rightarrow> ('v, unit) tx_body" where
  "record_failure current message u =
     (case get_domain_delivery (dd_mutation_id current) u of
        None \<Rightarrow> Inr ((), u)
      | Some _ \<Rightarrow>
          bind_res (mk_domain_delivery (current\<lparr>dd_attempts := dd_attempts current + 1, dd_last_error := Some message\<rparr>))
            (\<lambda>failed. bind_res (save_domain_delivery failed u) (\<lambda>u. Inr ((), u))))"

definition acknowledge :: "string \<Rightarrow> ('v, unit) tx_body" where
  "acknowledge mutation_id u = bind_res (delete_domain_delivery mutation_id u) (\<lambda>u. Inr ((), u))"

definition deliver ::
  "(pyerror \<Rightarrow> string) \<Rightarrow> ('v domain_mutation \<Rightarrow> ('s, domain_apply_result) meth) \<Rightarrow> 'v domain_delivery
     \<Rightarrow> (('v, 's) outbox_world, domain_apply_result option) meth" where
  "deliver show_error apply_to delivery w =
     (case domain_delivery_of (dd_mutation_id delivery) (ob_persistence w) of
        None \<Rightarrow> (Inr None, w)
      | Some current \<Rightarrow> (case apply_to (dd_mutation current) (ob_warehouse w) of
            (Inl e, s) \<Rightarrow> (case transaction None (record_failure current (show_error e)) (ob_persistence w) of
                (Inl e', p) \<Rightarrow> (Inl e', w\<lparr>ob_persistence := p, ob_warehouse := s\<rparr>)
              | (Inr _, p) \<Rightarrow> (Inl e, w\<lparr>ob_persistence := p, ob_warehouse := s\<rparr>))
          | (Inr result, s) \<Rightarrow> (case transaction None (acknowledge (dd_mutation_id current)) (ob_persistence w) of
                (Inl e', p) \<Rightarrow> (Inl e', w\<lparr>ob_persistence := p, ob_warehouse := s\<rparr>)
              | (Inr _, p) \<Rightarrow> (Inr (Some result), w\<lparr>ob_persistence := p, ob_warehouse := s\<rparr>))))"

definition flush ::
  "(pyerror \<Rightarrow> string) \<Rightarrow> ('v domain_mutation \<Rightarrow> ('s, domain_apply_result) meth) \<Rightarrow> (('v, 's) outbox_world, nat) meth" where
  "flush show_error apply_to w =
     (let pending = domain_deliveries (ob_persistence w)
      in bind_m (each_m (\<lambda>d. bind_m (deliver show_error apply_to d) (\<lambda>_. return_m ())) pending)
           (\<lambda>_. return_m (length pending)) w)"

section \<open>The projector\<close>

fun prepare_entities :: "digest \<Rightarrow> (string \<times> string) list \<Rightarrow> ('v persistence, nat) meth" where
  "prepare_entities uuid5 [] p = (Inr 0, p)"
| "prepare_entities uuid5 ((entity_type, entity_id) # rest) p =
     (case entity_of entity_type entity_id p of
        None \<Rightarrow> prepare_entities uuid5 rest p
      | Some e \<Rightarrow> (case entity_mutation uuid5 e of
            Inl err \<Rightarrow> (Inl err, p)
          | Inr m \<Rightarrow> (case prepare m p of
                (Inl err, p) \<Rightarrow> (Inl err, p)
              | (Inr _, p) \<Rightarrow> (case prepare_entities uuid5 rest p of
                    (Inl err, p) \<Rightarrow> (Inl err, p)
                  | (Inr n, p) \<Rightarrow> (Inr (Suc n), p)))))"

definition sync_entities ::
  "digest \<Rightarrow> (pyerror \<Rightarrow> string) \<Rightarrow> ('v domain_mutation \<Rightarrow> ('s, domain_apply_result) meth) \<Rightarrow> (string \<times> string) list
     \<Rightarrow> (('v, 's) outbox_world, nat) meth" where
  "sync_entities uuid5 show_error apply_to identities w =
     (case prepare_entities uuid5 identities (ob_persistence w) of
        (Inl e, p) \<Rightarrow> (Inl e, w\<lparr>ob_persistence := p\<rparr>)
      | (Inr _, p) \<Rightarrow> flush show_error apply_to (w\<lparr>ob_persistence := p\<rparr>))"

section \<open>The entity store as a function of the candidates\<close>

text \<open>The newest of a set of entities, if the newest version is unambiguous.\<close>

definition newest :: "'v entity \<Rightarrow> 'v entity set \<Rightarrow> bool" where
  "newest e es \<longleftrightarrow> e \<in> es \<and> (\<forall>x \<in> es. en_version x < en_version e \<or> x = e)"

definition candidates ::
  "(string \<Rightarrow> string \<Rightarrow> 'v entity option) \<Rightarrow> 'v persistence \<Rightarrow> string \<Rightarrow> string \<Rightarrow> 'v entity set" where
  "candidates warehouse p t i = set_option (warehouse t i) \<union> set (pending_entities_for p t i)"

lemma latest_consistent_newest:
  assumes "xs \<noteq> []"
  shows "latest_consistent_entity xs t i = Inr e \<longleftrightarrow> newest e (set xs)"
proof -
  let ?mx = "Max (set (map en_version xs))"
  let ?latest = "filter (\<lambda>e. en_version e = ?mx) xs"
  have "?mx \<in> set (map en_version xs)" using assms by (intro Max_in) auto
  then obtain a where a: "a \<in> set xs" "en_version a = ?mx" by auto
  have le: "en_version x \<le> ?mx" if "x \<in> set xs" for x using that by (intro Max_ge) auto
  have "?latest \<noteq> []" using a by (auto simp: filter_empty_conv)
  then obtain y ys where l: "?latest = y # ys" by (cases ?latest) auto
  then have yin: "set (y # ys) = {x \<in> set xs. en_version x = ?mx}" by (metis set_filter)
  then have y: "y \<in> set xs" "en_version y = ?mx" by auto
  have "latest_consistent_entity xs t i = Inr e \<longleftrightarrow> e = y \<and> (\<forall>x \<in> set ys. x = y)"
    unfolding latest_consistent_entity_def Let_def l by (auto simp: list_ex_iff)
  also have "\<dots> \<longleftrightarrow> newest e (set xs)"
  proof
    assume e: "e = y \<and> (\<forall>x \<in> set ys. x = y)"
    have "en_version x < en_version y \<or> x = y" if x: "x \<in> set xs" for x
    proof (cases "en_version x = ?mx")
      case True
      then have "x \<in> set (y # ys)" using x yin by blast
      with e show ?thesis by auto
    next
      case False
      with le [OF x] have "en_version x < ?mx" by linarith
      with y(2) show ?thesis by simp
    qed
    with e y(1) show "newest e (set xs)" by (auto simp: newest_def)
  next
    assume n: "newest e (set xs)"
    then have e: "e \<in> set xs" "\<And>x. x \<in> set xs \<Longrightarrow> en_version x < en_version e \<or> x = e" by (simp_all add: newest_def)
    have "x = e" if "x \<in> set (y # ys)" for x
    proof -
      have x: "x \<in> set xs" "en_version x = ?mx" using that yin by blast+
      with le [OF e(1)] e(2) [OF x(1)] show ?thesis by linarith
    qed
    then show "e = y \<and> (\<forall>x \<in> set ys. x = y)" by (metis list.set_intros)
  qed
  finally show ?thesis .
qed

lemma store_entity_iff:
  "store_entity warehouse p t i = Inr (Some e) \<longleftrightarrow> newest e (candidates warehouse p t i)"
  "store_entity warehouse p t i = Inr None \<longleftrightarrow> candidates warehouse p t i = {}"
proof -
  let ?xs = "(case warehouse t i of None \<Rightarrow> [] | Some e \<Rightarrow> [e]) @ pending_entities_for p t i"
  have s: "set ?xs = candidates warehouse p t i" by (auto simp: candidates_def split: option.splits)
  show "store_entity warehouse p t i = Inr (Some e) \<longleftrightarrow> newest e (candidates warehouse p t i)"
  proof (cases "?xs = []")
    case True
    then have "candidates warehouse p t i = {}" using s by simp
    with True show ?thesis by (simp add: store_entity_def newest_def)
  next
    case False
    have "store_entity warehouse p t i = bind_res (latest_consistent_entity ?xs t i) (\<lambda>e. Inr (Some e))"
      using False unfolding store_entity_def Let_def by (simp only: if_False)
    then show ?thesis
      using latest_consistent_newest [OF False, of t i e] unfolding s by (simp add: bind_res_eq_Inr_iff)
  qed
  show "store_entity warehouse p t i = Inr None \<longleftrightarrow> candidates warehouse p t i = {}"
  proof -
    have "store_entity warehouse p t i = Inr None \<longleftrightarrow> ?xs = []"
      unfolding store_entity_def Let_def by (auto simp only: bind_res_eq_Inr_iff split: if_splits)
    also have "\<dots> \<longleftrightarrow> candidates warehouse p t i = {}" unfolding s [symmetric] by (rule set_empty [symmetric])
    finally show ?thesis .
  qed
qed

section \<open>What a warehouse promises\<close>

definition as_current :: "'v domain_mutation \<Rightarrow> 'v entity option \<Rightarrow> 'v entity option" where
  "as_current m current = (case current of
     None \<Rightarrow> Some (mu_entity m)
   | Some e \<Rightarrow> if en_version e < en_version (mu_entity m) then Some (mu_entity m) else Some e)"

text \<open>
  Delivering does not change what a reader of the entity store sees: whatever the outcome, the newest
  candidate stays the newest.
\<close>

lemma newest_delivered:
  assumes "newest e (set_option c \<union> P)" and "mu_entity m \<in> P" and "P - {mu_entity m} \<subseteq> Q" and "Q \<subseteq> P"
  shows "newest e (set_option (as_current m c) \<union> Q)"
proof -
  have sub: "set_option (as_current m c) \<union> Q \<subseteq> set_option c \<union> P"
    using assms(2,4) by (auto simp: as_current_def split: option.splits if_splits)
  have e: "e \<in> set_option c \<union> P" "\<And>x. x \<in> set_option c \<union> P \<Longrightarrow> en_version x < en_version e \<or> x = e"
    using assms(1) by (auto simp: newest_def)
  have "e \<in> set_option (as_current m c) \<union> Q"
  proof (cases "e \<in> P - {mu_entity m}")
    case True
    with assms(3) show ?thesis by blast
  next
    case False
    with e(1) have "c = Some e \<or> e = mu_entity m" by (cases c) auto
    with e(2) assms(2) show ?thesis
      by (cases c) (force simp: as_current_def)+
  qed
  with e(2) sub show ?thesis unfolding newest_def by blast
qed

definition pending_set :: "'v persistence \<Rightarrow> 'v entity set" where
  "pending_set p = (\<lambda>d. mu_entity (dd_mutation d)) ` ran (map_of (st_domain_deliveries (pstate p)))"

lemma pending_set_iff:
  "e \<in> pending_set p \<longleftrightarrow> (\<exists>k y. map_of (st_domain_deliveries (pstate p)) k = Some y \<and> e = mu_entity (dd_mutation y))"
  by (auto simp: pending_set_def ran_def)

lemma pending_entities_set:
  assumes "state_wf (pstate p)"
  shows "set (pending_entities_for p t i) = {e \<in> pending_set p. en_entity_type e = t \<and> en_id e = i}"
proof -
  have "distinct (map fst (st_domain_deliveries (pstate p)))" using assms by (simp add: state_wf_def ids_wf_def keyed_def)
  then have "ran (map_of (st_domain_deliveries (pstate p))) = set (domain_deliveries p)"
    by (simp add: ran_distinct domain_deliveries_def)
  then show ?thesis by (auto simp: pending_entities_for_def pending_set_def)
qed

lemma record_failure_pending:
  assumes "transaction None (record_failure c msg) p = (r, p')" and "map_of (st_domain_deliveries (pstate p)) (dd_mutation_id c) = Some c"
  shows "pending_set p' = pending_set p"
  using assms(1)
proof (cases rule: transaction_cases)
  case (2 a u)
  let ?D = "st_domain_deliveries (pstate p)"
  define x where "x = c\<lparr>dd_attempts := dd_attempts c + 1, dd_last_error := Some msg\<rparr>"
  have x: "dd_mutation x = dd_mutation c" by (simp add: x_def)
  have "st_domain_deliveries (pstate p') = dset (dd_mutation_id c) x ?D"
    using 2 assms(2)
    by (auto simp: record_failure_def get_domain_delivery_def new_uow_def save_domain_delivery_def mark_dirty_def
        mk_domain_delivery_def x_def)
  then have at: "map_of (st_domain_deliveries (pstate p')) k = (if k = dd_mutation_id c then Some x else map_of ?D k)" for k
    by simp
  show ?thesis
  proof (intro set_eqI iffI)
    fix e assume "e \<in> pending_set p'"
    then obtain k y where "(if k = dd_mutation_id c then Some x else map_of ?D k) = Some y" "e = mu_entity (dd_mutation y)"
      unfolding pending_set_iff at by blast
    with x assms(2) show "e \<in> pending_set p" unfolding pending_set_iff by (cases "k = dd_mutation_id c") auto
  next
    fix e assume "e \<in> pending_set p"
    then obtain k y where "map_of ?D k = Some y" "e = mu_entity (dd_mutation y)" unfolding pending_set_iff by blast
    with x assms(2) show "e \<in> pending_set p'" unfolding pending_set_iff at
      by (intro exI [of _ k] exI [of _ "if k = dd_mutation_id c then x else y"]) auto
  qed
qed simp

lemma acknowledge_pending:
  assumes "transaction None (acknowledge k) p = (r, p')" and "map_of (st_domain_deliveries (pstate p)) k = Some c"
  shows "pending_set p - {mu_entity (dd_mutation c)} \<subseteq> pending_set p' \<and> pending_set p' \<subseteq> pending_set p"
  using assms(1)
proof (cases rule: transaction_cases)
  case (2 a u)
  then have D: "st_domain_deliveries (pstate p') = dpop k (st_domain_deliveries (pstate p))"
    by (auto simp: acknowledge_def delete_domain_delivery_def mark_dirty_def new_uow_def)
  show ?thesis
  proof
    show "pending_set p - {mu_entity (dd_mutation c)} \<subseteq> pending_set p'"
    proof
      fix e assume "e \<in> pending_set p - {mu_entity (dd_mutation c)}"
      then obtain j y where y: "e = mu_entity (dd_mutation y)" "map_of (st_domain_deliveries (pstate p)) j = Some y"
        "e \<noteq> mu_entity (dd_mutation c)" by (auto simp: pending_set_def ran_def)
      then have "map_of (st_domain_deliveries (pstate p')) j = Some y" using assms(2) D by auto
      with y(1) show "e \<in> pending_set p'" unfolding pending_set_def by (metis imageI ranI)
    qed
    show "pending_set p' \<subseteq> pending_set p"
    proof
      fix e assume "e \<in> pending_set p'"
      then obtain j y where y: "e = mu_entity (dd_mutation y)" "map_of (st_domain_deliveries (pstate p')) j = Some y"
        by (auto simp: pending_set_def ran_def)
      then have "map_of (st_domain_deliveries (pstate p)) j = Some y" unfolding D dget_dpop by (auto split: if_splits)
      with y(1) show "e \<in> pending_set p" unfolding pending_set_def by (metis imageI ranI)
    qed
  qed
qed auto

text \<open>What a delivery does to the pending set and to the warehouse.\<close>

lemma deliver_effect:
  assumes "deliver show_error f d w = (r, w')" and "state_wf (pstate (ob_persistence w))"
  shows "w' = w \<or> (\<exists>m q. mu_entity m \<in> pending_set (ob_persistence w) \<and>
    f m (ob_warehouse w) = (q, ob_warehouse w') \<and> state_wf (pstate (ob_persistence w')) \<and>
    (if isl q then pending_set (ob_persistence w') = pending_set (ob_persistence w)
     else pending_set (ob_persistence w) - {mu_entity m} \<subseteq> pending_set (ob_persistence w') \<and>
       pending_set (ob_persistence w') \<subseteq> pending_set (ob_persistence w)))"
proof (cases "domain_delivery_of (dd_mutation_id d) (ob_persistence w)")
  case None
  with assms(1) show ?thesis by (simp add: deliver_def)
next
  case (Some c)
  let ?p = "ob_persistence w"
  have c: "map_of (st_domain_deliveries (pstate ?p)) (dd_mutation_id d) = Some c"
    using Some by (simp add: domain_delivery_of_def)
  have id: "dd_mutation_id c = dd_mutation_id d"
    using c assms(2) keyed_lookup [of "\<lambda>d. dd_mutation_id d"] by (fastforce simp: state_wf_def ids_wf_def)
  have mem: "mu_entity (dd_mutation c) \<in> pending_set ?p" using c by (auto simp: pending_set_def ran_def)
  obtain q s where q: "f (dd_mutation c) (ob_warehouse w) = (q, s)" by (cases "f (dd_mutation c) (ob_warehouse w)")
  define body where "body = (case q of Inl e \<Rightarrow> record_failure c (show_error e) | Inr x \<Rightarrow> acknowledge (dd_mutation_id c))"
  obtain r' p' where tx: "transaction None body ?p = (r', p')" by (cases "transaction None body ?p")
  have w': "w' = w\<lparr>ob_persistence := p', ob_warehouse := s\<rparr>"
    using assms(1) Some q tx by (auto simp: deliver_def body_def split: sum.splits)
  have "uow_body body"
    unfolding uow_body_def body_def
    by (auto simp: record_failure_def acknowledge_def split: sum.splits option.splits intro: save_domain_delivery_step
        delete_domain_delivery_step)
  from uow_body_transaction [OF tx this] assms(2) have "state_wf (pstate p')"
    by (auto simp: new_uow_def dest: state_wf_steps)
  moreover have "if isl q then pending_set p' = pending_set ?p
      else pending_set ?p - {mu_entity (dd_mutation c)} \<subseteq> pending_set p' \<and> pending_set p' \<subseteq> pending_set ?p"
    using tx record_failure_pending [of c _ ?p r' p'] acknowledge_pending [of "dd_mutation_id c" ?p r' p' c] c id
    by (cases q) (auto simp: body_def)
  ultimately show ?thesis using w' mem q by (intro disjI2 exI [of _ "dd_mutation c"] exI [of _ q]) simp
qed

text \<open>
  Applying a mutation makes its entity current if its version is newer, and never disturbs another
  entity; an error changes no entity; two different entities of the same version are an error.
\<close>

locale versioned_warehouse =
  fixes entity_in :: "'s \<Rightarrow> string \<Rightarrow> string \<Rightarrow> 'v entity option"
    and apply_to :: "'v domain_mutation \<Rightarrow> ('s, domain_apply_result) meth"
    and inv :: "'s \<Rightarrow> bool"
  assumes apply_inv: "inv s \<Longrightarrow> inv (snd (apply_to m s))"
    and apply_other: "inv s \<Longrightarrow> (t, i) \<noteq> mu_key m \<Longrightarrow> entity_in (snd (apply_to m s)) t i = entity_in s t i"
    and apply_error: "inv s \<Longrightarrow> apply_to m s = (Inl e, s') \<Longrightarrow> entity_in s' = entity_in s"
    and apply_current: "inv s \<Longrightarrow> apply_to m s = (Inr r, s') \<Longrightarrow>
      entity_in s' (fst (mu_key m)) (snd (mu_key m)) = as_current m (entity_in s (fst (mu_key m)) (snd (mu_key m)))"
begin

lemma applied_version:
  assumes "inv s" and "apply_to m s = (Inr r, s')"
  shows "\<exists>e. entity_in s' (fst (mu_key m)) (snd (mu_key m)) = Some e \<and> en_version (mu_entity m) \<le> en_version e"
  using apply_current [OF assms] by (auto simp: as_current_def split: option.splits if_splits)

lemma versions_grow:
  assumes "inv s" and "entity_in s t i = Some e"
  shows "\<exists>e'. entity_in (snd (apply_to m s)) t i = Some e' \<and> en_version e \<le> en_version e'"
proof -
  obtain r s' where run: "apply_to m s = (r, s')" by (cases "apply_to m s")
  show ?thesis
  proof (cases "(t, i) = mu_key m")
    case False
    with assms apply_other [OF assms(1) False] show ?thesis by simp
  next
    case True
    show ?thesis
    proof (cases r)
      case (Inl err)
      with run apply_error [OF assms(1)] assms(2) show ?thesis by auto
    next
      case (Inr a)
      with run have "apply_to m s = (Inr a, s')" by simp
      from apply_current [OF assms(1) this] True assms(2) run show ?thesis
        by (auto simp: as_current_def)
    qed
  qed
qed

lemma deliver_keeps_view:
  assumes "inv (ob_warehouse w)" and "state_wf (pstate (ob_persistence w))"
    and "deliver show_error apply_to d w = (r, w')"
    and "store_entity (entity_in (ob_warehouse w)) (ob_persistence w) t i = Inr v"
  shows "store_entity (entity_in (ob_warehouse w')) (ob_persistence w') t i = Inr v"
  using deliver_effect [OF assms(3,2)]
proof (elim disjE exE conjE)
  fix m q assume mem: "mu_entity m \<in> pending_set (ob_persistence w)"
    and run: "apply_to m (ob_warehouse w) = (q, ob_warehouse w')" and wf: "state_wf (pstate (ob_persistence w'))"
    and pend: "if isl q then pending_set (ob_persistence w') = pending_set (ob_persistence w)
     else pending_set (ob_persistence w) - {mu_entity m} \<subseteq> pending_set (ob_persistence w') \<and>
       pending_set (ob_persistence w') \<subseteq> pending_set (ob_persistence w)"
  let ?P = "set (pending_entities_for (ob_persistence w) t i)" and ?Q = "set (pending_entities_for (ob_persistence w') t i)"
  note sets = pending_entities_set [OF assms(2), of t i] pending_entities_set [OF wf, of t i]
  show ?thesis
  proof (cases "isl q \<or> (t, i) \<noteq> mu_key m")
    case True
    have "entity_in (ob_warehouse w') t i = entity_in (ob_warehouse w) t i"
    proof (cases "(t, i) = mu_key m")
      case True
      with \<open>isl q \<or> (t, i) \<noteq> mu_key m\<close> obtain e where "q = Inl e" by (auto simp: isl_def)
      with apply_error [OF assms(1)] run show ?thesis by simp
    next
      case False
      with apply_other [OF assms(1) False] run show ?thesis by simp
    qed
    moreover have "?Q = ?P"
    proof (cases "isl q")
      case True
      with pend show ?thesis unfolding sets by simp
    next
      case no: False
      then have "\<not> (en_entity_type (mu_entity m) = t \<and> en_id (mu_entity m) = i)" using True by auto
      with pend no show ?thesis unfolding sets by auto
    qed
    ultimately have "candidates (entity_in (ob_warehouse w')) (ob_persistence w') t i =
        candidates (entity_in (ob_warehouse w)) (ob_persistence w) t i" by (simp add: candidates_def)
    with assms(4) show ?thesis by (cases v) (simp_all add: store_entity_iff)
  next
    case False
    then obtain a where a: "apply_to m (ob_warehouse w) = (Inr a, ob_warehouse w')" and key: "(t, i) = mu_key m"
      using run by (cases q) auto
    have cur: "entity_in (ob_warehouse w') t i = as_current m (entity_in (ob_warehouse w) t i)"
      using apply_current [OF assms(1) a] key by simp
    have m: "mu_entity m \<in> ?P" "?P - {mu_entity m} \<subseteq> ?Q" "?Q \<subseteq> ?P" using mem pend False key unfolding sets by auto
    show ?thesis
    proof (cases v)
      case None
      with assms(4) m(1) show ?thesis by (auto simp: store_entity_iff candidates_def)
    next
      case (Some e)
      with assms(4) newest_delivered [OF _ m, of e] show ?thesis
        by (simp add: store_entity_iff candidates_def cur)
    qed
  qed
qed (use assms(4) in simp)

end

text \<open>The entity current in the memory warehouse has at least the version of every mutation noted for it.\<close>

definition warehouse_inv :: "'v memory_warehouse \<Rightarrow> bool" where
  "warehouse_inv w \<longleftrightarrow> (\<forall>k m. map_of (mw_mutations w) k = Some m \<longrightarrow>
     (\<exists>e. map_of (mw_entities w) (mu_key m) = Some e \<and> en_version (mu_entity m) \<le> en_version e))"

lemma apply_mutation_effect:
  assumes "apply_mutation m w = (r, w')"
  shows "w' = w \<and> (\<forall>x. r = Inr x \<longrightarrow> map_of (mw_mutations w) (mu_mutation_id m) = Some m) \<or>
    mw_mutations w' = dset (mu_mutation_id m) m (mw_mutations w) \<and> (\<exists>x. r = Inr x) \<and>
    map_of (mw_entities w') = (map_of (mw_entities w))(mu_key m := as_current m (map_of (mw_entities w) (mu_key m)))"
  using assms
  by (auto simp: apply_mutation_def as_current_def Let_def fun_upd_idem split: option.splits if_splits)

lemma apply_mutation_inv:
  assumes "warehouse_inv w"
  shows "warehouse_inv (snd (apply_mutation m w))"
proof -
  obtain r w' where run: "apply_mutation m w = (r, w')" by (cases "apply_mutation m w")
  have grow: "\<exists>e'. as_current m (map_of (mw_entities w) k) = Some e' \<and> en_version e \<le> en_version e'"
    if "map_of (mw_entities w) k = Some e" for k e
    using that by (auto simp: as_current_def)
  have "warehouse_inv w'"
    using apply_mutation_effect [OF run]
  proof (elim disjE conjE)
    assume mut: "mw_mutations w' = dset (mu_mutation_id m) m (mw_mutations w)"
      and ent: "map_of (mw_entities w') = (map_of (mw_entities w))(mu_key m := as_current m (map_of (mw_entities w) (mu_key m)))"
    show ?thesis
      unfolding warehouse_inv_def mut ent
    proof (intro allI impI)
      fix k n assume n: "map_of (dset (mu_mutation_id m) m (mw_mutations w)) k = Some n"
      show "\<exists>e. ((map_of (mw_entities w))(mu_key m := as_current m (map_of (mw_entities w) (mu_key m)))) (mu_key n) = Some e \<and>
          en_version (mu_entity n) \<le> en_version e"
      proof (cases "k = mu_mutation_id m")
        case True
        with n show ?thesis by (auto simp: as_current_def split: option.splits)
      next
        case False
        with n assms obtain e where e: "map_of (mw_entities w) (mu_key n) = Some e" "en_version (mu_entity n) \<le> en_version e"
          unfolding warehouse_inv_def by (metis dget_dset fun_upd_other)
        show ?thesis
        proof (cases "mu_key n = mu_key m")
          case same: True
          with grow [OF e(1)] e(2) show ?thesis by fastforce
        qed (use e in auto)
      qed
    qed
  qed (use assms in simp)
  with run show ?thesis by simp
qed

interpretation mem_warehouse: versioned_warehouse warehouse_entity apply_mutation warehouse_inv
proof
  fix s :: "'a memory_warehouse" and m :: "'a domain_mutation" and r :: domain_apply_result and s'
  assume inv: "warehouse_inv s" and run: "apply_mutation m s = (Inr r, s')"
  show "warehouse_entity s' (fst (mu_key m)) (snd (mu_key m)) = as_current m (warehouse_entity s (fst (mu_key m)) (snd (mu_key m)))"
    using apply_mutation_effect [OF run]
  proof (elim disjE conjE)
    assume s': "s' = s" and "\<forall>x. Inr r = Inr x \<longrightarrow> map_of (mw_mutations s) (mu_mutation_id m) = Some m"
    then obtain e where "map_of (mw_entities s) (mu_key m) = Some e" "en_version (mu_entity m) \<le> en_version e"
      using inv unfolding warehouse_inv_def by blast
    with s' show ?thesis by (simp add: warehouse_entity_def as_current_def)
  qed (simp add: warehouse_entity_def)
next
  fix s :: "'a memory_warehouse" and m :: "'a domain_mutation" and t i
  assume "(t, i) \<noteq> mu_key m"
  then show "warehouse_entity (snd (apply_mutation m s)) t i = warehouse_entity s t i"
    using apply_mutation_effect [of m s "fst (apply_mutation m s)" "snd (apply_mutation m s)"]
    by (auto simp: warehouse_entity_def)
next
  fix s :: "'a memory_warehouse" and m :: "'a domain_mutation" and e s'
  assume "apply_mutation m s = (Inl e, s')"
  then have "s' = s" by (auto simp: apply_mutation_def Let_def split: option.splits if_splits)
  then show "warehouse_entity s' = warehouse_entity s" by simp
qed (rule apply_mutation_inv)

section \<open>Properties\<close>

text \<open>
  C21. Delivering a pending mutation is invisible to readers: whatever the outcome of a delivery (applied,
  replayed, superseded, refused by the warehouse, or interrupted before it is acknowledged), an entity
  read through the entity store before it reads the same after it.
\<close>

theorem delivery_invisible:
  assumes "warehouse_inv (ob_warehouse w)" and "history new_persistence (ob_persistence w)"
    and "deliver show_error apply_mutation d w = (r, w')"
    and "store_entity (warehouse_entity (ob_warehouse w)) (ob_persistence w) t i = Inr v"
  shows "store_entity (warehouse_entity (ob_warehouse w')) (ob_persistence w') t i = Inr v"
  using mem_warehouse.deliver_keeps_view [OF assms(1) _ assms(3,4)] reachable_wf [OF assms(2)] by blast

definition crate :: "int \<Rightarrow> nat entity" where
  "crate v = \<lparr>en_id = ''b'', en_entity_type = ''box'', en_state = ''packed'', en_attributes = Mapping.empty,
     en_created_at = None, en_updated_at = None, en_version = v\<rparr>"

definition crate_delivery :: "nat domain_delivery" where
  "crate_delivery = \<lparr>dd_mutation = \<lparr>mu_mutation_id = ''m2'', mu_entity = crate 2\<rparr>, dd_attempts = 0, dd_last_error = None\<rparr>"

definition crate_world :: "(nat, nat memory_warehouse) outbox_world" where
  "crate_world = \<lparr>ob_persistence = new_persistence\<lparr>pstate := empty_state\<lparr>st_domain_deliveries := [(''m2'', crate_delivery)]\<rparr>\<rparr>,
     ob_warehouse = \<lparr>mw_entities = [((''box'', ''b''), crate 1)], mw_mutations = []\<rparr>\<rparr>"

lemma crate_history: "history new_persistence (ob_persistence crate_world)"
proof -
  let ?body = "run_ops [save_domain_delivery crate_delivery]"
  have tx: "transaction None ?body new_persistence = (Inr (), ob_persistence crate_world)"
    by (simp add: transaction_def run_ops_def new_persistence_def fork_state_def new_uow_def commit_def overlap_def
        save_domain_delivery_def mark_dirty_def empty_state_def crate_delivery_def crate_world_def guards.simps)
  have "uow_body ?body" by (rule run_ops_uow_body) (auto intro: save_domain_delivery_step)
  from history_tx [OF history_refl this tx] show ?thesis .
qed

theorem delivery_invisible_witness:
  "\<exists>w'. deliver (\<lambda>e. []) apply_mutation crate_delivery crate_world = (Inr (Some APPLIED), w') \<and>
     store_entity (warehouse_entity (ob_warehouse w')) (ob_persistence w') ''box'' ''b'' = Inr (Some (crate 2))"
proof -
  have inv: "warehouse_inv (ob_warehouse crate_world)" by (simp add: warehouse_inv_def crate_world_def)
  have view: "store_entity (warehouse_entity (ob_warehouse crate_world)) (ob_persistence crate_world) ''box'' ''b'' =
      Inr (Some (crate 2))"
    by (simp add: store_entity_def warehouse_entity_def crate_world_def pending_entities_for_def domain_deliveries_def
        by_key_def crate_delivery_def latest_consistent_entity_def crate_def new_persistence_def)
  obtain w' where run: "deliver (\<lambda>e. []) apply_mutation crate_delivery crate_world = (Inr (Some APPLIED), w')"
    by (simp add: deliver_def crate_world_def crate_delivery_def domain_delivery_of_def apply_mutation_def crate_def
        acknowledge_def delete_domain_delivery_def mark_dirty_def transaction_def fork_state_def new_uow_def commit_def
        overlap_def empty_state_def new_persistence_def)
  from delivery_invisible [OF inv crate_history run view] run show ?thesis by blast
qed

end
