(* ===== verification/Recoverable.thy ===== *)
theory Recoverable
  imports Sose_Prelude
begin

text \<open>
  The contract of a durable manager: an invariant of the durable records that holds initially, that
  every operation (and everything else that may happen between two operations) keeps, and that is
  enough for the checks the manager makes before it rebuilds an ephemeral backend.
\<close>

locale recoverable =
  fixes init :: 'p
    and step :: "'p \<Rightarrow> 'p \<Rightarrow> bool"
    and inv :: "'p \<Rightarrow> bool"
    and validate :: "'p \<Rightarrow> unit res"
  assumes init_inv: "inv init"
    and step_inv: "step p q \<Longrightarrow> inv p \<Longrightarrow> inv q"
    and inv_valid: "inv p \<Longrightarrow> validate p = Inr ()"
begin

lemma steps_inv: "step\<^sup>*\<^sup>* p q \<Longrightarrow> inv p \<Longrightarrow> inv q"
  by (induction rule: rtranclp_induct) (auto intro: step_inv)

lemma reachable_inv: "step\<^sup>*\<^sup>* init p \<Longrightarrow> inv p"
  using init_inv by (rule steps_inv [rotated])

lemma reachable_valid: "step\<^sup>*\<^sup>* init p \<Longrightarrow> validate p = Inr ()"
  by (rule inv_valid [OF reachable_inv])

text \<open>A validated state stays recoverable, however the run goes on.\<close>

lemma always_valid: "step\<^sup>*\<^sup>* p q \<Longrightarrow> inv p \<Longrightarrow> validate q = Inr ()"
  by (rule inv_valid [OF steps_inv])

end

end
