(* ===== verification/Durable_Scheduler.thy ===== *)
theory Durable_Scheduler
  imports Memory_Persistence Encoding Recoverable
begin

text \<open>
  \<open>core/durable.py\<close>: \<open>DurableScheduler\<close>, which keeps future commands durable, independent of
  any backend queue, and \<open>RuntimeRebuilder\<close>, which reconstructs a runtime from durable state in
  a fixed order. The persistence is the in-memory one (the branch for an open SQLite transaction does
  not apply to it). The backend is a parameter; the closure the scheduler hands to it carries the
  scheduled item, so the item stands for it.
\<close>

section \<open>Scheduled items\<close>

record 'v durable_scheduled_item =
  di_work :: scheduled_work
  di_command :: "'v command"

record ('v, 'b) schedule_backend =
  hb_now :: "'b \<Rightarrow> datetime"
  hb_schedule_at :: "datetime \<Rightarrow> 'v durable_scheduled_item \<Rightarrow> int \<Rightarrow> string \<Rightarrow> ('b, unit) meth"

text \<open>The scheduler object: its persistence, its owner and the attached backend, if any.\<close>

record ('v, 'b) scheduler_world =
  hw_persistence :: "'v persistence"
  hw_owner_id :: string
  hw_backend :: "'b option"

definition new_scheduler :: "'v persistence \<Rightarrow> string \<Rightarrow> ('v, 'b) scheduler_world res" where
  "new_scheduler p owner_id = guards [(blank owner_id, ValueError ''owner_id must not be empty'')]
     \<lparr>hw_persistence = p, hw_owner_id = owner_id, hw_backend = None\<rparr>"

definition attach_backend :: "'b \<Rightarrow> ('v, 'b) scheduler_world \<Rightarrow> ('v, 'b) scheduler_world" where
  "attach_backend b w = w\<lparr>hw_backend := Some b\<rparr>"

definition detach_backend :: "('v, 'b) scheduler_world \<Rightarrow> ('v, 'b) scheduler_world" where
  "detach_backend w = w\<lparr>hw_backend := None\<rparr>"

section \<open>Scheduling\<close>

text \<open>\<open>max((...), default=0) + 1\<close> over the sequence numbers of one owner.\<close>

definition next_work_sequence :: "string \<Rightarrow> scheduled_work list \<Rightarrow> int" where
  "next_work_sequence owner_id existing =
     (case map sw_sequence (filter (\<lambda>w. sw_owner_id w = owner_id) existing) of
        [] \<Rightarrow> 0 | x # xs \<Rightarrow> fold max xs x) + 1"

definition work_id_of :: "digest \<Rightarrow> string \<Rightarrow> string \<Rightarrow> string" where
  "work_id_of uuid5 owner_id command_id = mint_id uuid5 ''scheduled-work'' [owner_id, command_id]"

definition schedule_body :: "digest \<Rightarrow> string \<Rightarrow> 'v command \<Rightarrow> int \<Rightarrow> ('v, scheduled_work) tx_body" where
  "schedule_body uuid5 owner_id command priority u =
     (if get_command (cm_command_id command) u \<noteq> None
      then Inl (ValueError (''command already scheduled: '' @ cm_command_id command))
      else bind_res (mk_scheduled_work (work_id_of uuid5 owner_id (cm_command_id command)) (cm_due_at command) priority
             (next_work_sequence owner_id (uow_scheduled_work u)) (cm_command_id command) owner_id) (\<lambda>work.
           bind_res (save_command command u) (\<lambda>u.
           bind_res (save_scheduled_work work u) (\<lambda>u. Inr (work, u)))))"

text \<open>The checks of \<open>schedule\<close> and its transaction, given the logical time of the backend.\<close>

definition record_schedule ::
  "digest \<Rightarrow> string \<Rightarrow> datetime option \<Rightarrow> 'v command \<Rightarrow> int \<Rightarrow> ('v persistence, scheduled_work) meth" where
  "record_schedule uuid5 owner_id now command priority p =
     (if cm_owner_id command \<noteq> Some owner_id
      then (Inl (PermissionError ''command belongs to a different or missing owner''), p)
      else if command_of (cm_command_id command) p \<noteq> None
      then (Inl (ValueError (''command already scheduled: '' @ cm_command_id command)), p)
      else if (case now of None \<Rightarrow> False | Some t \<Rightarrow> cm_due_at command < t)
      then (Inl (ValueError ''scheduled work cannot be created before backend logical time''), p)
      else transaction (Some owner_id) (schedule_body uuid5 owner_id command priority) p)"

definition schedule ::
  "digest \<Rightarrow> ('v, 'b) schedule_backend \<Rightarrow> 'v command \<Rightarrow> int \<Rightarrow> (('v, 'b) scheduler_world, scheduled_work) meth" where
  "schedule uuid5 B command priority w =
     (case record_schedule uuid5 (hw_owner_id w) (map_option (hb_now B) (hw_backend w)) command priority (hw_persistence w) of
        (Inl e, p) \<Rightarrow> (Inl e, w\<lparr>hw_persistence := p\<rparr>)
      | (Inr work, p) \<Rightarrow> (case hw_backend w of
            None \<Rightarrow> (Inr work, w\<lparr>hw_persistence := p\<rparr>)
          | Some b \<Rightarrow>
              (case hb_schedule_at B (sw_due_at work) \<lparr>di_work = work, di_command = command\<rparr> (sw_priority work)
                      (sw_work_id work) b of
                 (Inl e, b) \<Rightarrow> (Inl e, w\<lparr>hw_persistence := p, hw_backend := Some b\<rparr>)
               | (Inr _, b) \<Rightarrow> (Inr work, w\<lparr>hw_persistence := p, hw_backend := Some b\<rparr>))))"

section \<open>Pending work\<close>

definition missing_command :: "scheduled_work \<Rightarrow> pyerror" where
  "missing_command work =
     RuntimeError (''scheduled work references missing command: '' @ sw_work_id work @ ''/'' @ sw_command_id work)"

fun collect_items ::
  "string \<Rightarrow> (string \<Rightarrow> 'v command option) \<Rightarrow> scheduled_work list \<Rightarrow> ('v durable_scheduled_item list) res" where
  "collect_items owner_id lookup [] = Inr []"
| "collect_items owner_id lookup (work # works) =
     (if sw_owner_id work \<noteq> owner_id then collect_items owner_id lookup works
      else case lookup (sw_command_id work) of
          None \<Rightarrow> Inl (missing_command work)
        | Some command \<Rightarrow> bind_res (collect_items owner_id lookup works) (\<lambda>items.
            Inr (\<lparr>di_work = work, di_command = command\<rparr> # items)))"

definition pending_body :: "string \<Rightarrow> ('v, 'v durable_scheduled_item list) tx_body" where
  "pending_body owner_id u =
     bind_res (collect_items owner_id (\<lambda>k. get_command k u) (uow_scheduled_work u)) (\<lambda>items. Inr (items, u))"

definition pending :: "string \<Rightarrow> ('v persistence, 'v durable_scheduled_item list) meth" where
  "pending owner_id = transaction (Some owner_id) (pending_body owner_id)"

definition due :: "string \<Rightarrow> datetime \<Rightarrow> ('v persistence, 'v durable_scheduled_item list) meth" where
  "due owner_id t = bind_m (pending owner_id) (\<lambda>items. return_m (filter (\<lambda>i. sw_due_at (di_work i) \<le> t) items))"

definition matches_target :: "string \<Rightarrow> string \<Rightarrow> string \<Rightarrow> 'v durable_scheduled_item \<Rightarrow> bool" where
  "matches_target entity_type entity_id name item \<longleftrightarrow> cm_entity_type (di_command item) = entity_type \<and>
     cm_entity_id (di_command item) = entity_id \<and> cm_name (di_command item) = name"

definition find_pending ::
  "string \<Rightarrow> string \<Rightarrow> string \<Rightarrow> string \<Rightarrow> ('v persistence, 'v durable_scheduled_item option) meth" where
  "find_pending owner_id entity_type entity_id name =
     bind_m (pending owner_id) (\<lambda>items.
       case filter (matches_target entity_type entity_id name) items of
         [] \<Rightarrow> return_m None
       | [item] \<Rightarrow> return_m (Some item)
       | _ \<Rightarrow> raise_m (RuntimeError (''multiple pending scheduled commands match '' @ entity_type @ ''/'' @ entity_id @
             '':'' @ name)))"

section \<open>Cancellation\<close>

definition cancel_work_body :: "string \<Rightarrow> string \<Rightarrow> ('v, bool) tx_body" where
  "cancel_work_body owner_id work_id u =
     (case get_scheduled_work work_id u of
        None \<Rightarrow> Inr (False, u)
      | Some work \<Rightarrow>
          if sw_owner_id work \<noteq> owner_id then Inl (PermissionError ''scheduled work belongs to a different owner'')
          else (case get_command (sw_command_id work) u of
              None \<Rightarrow> Inl (missing_command work)
            | Some command \<Rightarrow>
                if cm_owner_id command \<noteq> Some owner_id
                then Inl (PermissionError ''scheduled command belongs to a different owner'')
                else bind_res (delete_scheduled_work (sw_work_id work) u) (\<lambda>u.
                     bind_res (delete_command (cm_command_id command) u) (\<lambda>u. Inr (True, u)))))"

definition cancel_work :: "string \<Rightarrow> string \<Rightarrow> ('v persistence, bool) meth" where
  "cancel_work owner_id work_id = transaction (Some owner_id) (cancel_work_body owner_id work_id)"

definition cancel_pending_work :: "string \<Rightarrow> string \<Rightarrow> string \<Rightarrow> string \<Rightarrow> ('v persistence, bool) meth" where
  "cancel_pending_work owner_id entity_type entity_id name =
     bind_m (find_pending owner_id entity_type entity_id name) (\<lambda>item. case item of
         None \<Rightarrow> return_m False
       | Some i \<Rightarrow> cancel_work owner_id (sw_work_id (di_work i)))"

section \<open>Rebuilding a runtime\<close>

text \<open>
  A participant: whether it has \<open>rebuild_backend\<close>, its optional \<open>validate_rebuild\<close> (which only
  reads), and the rebuild itself on the durable state and the backend. A participant that returns
  nothing counts as restoring nothing.
\<close>

record ('v, 'b) recovery_participant =
  pt_name :: string
  pt_validate :: "('v persistence \<Rightarrow> unit res) option"
  pt_rebuild :: "('v persistence \<times> 'b, int option) meth option"

definition participant_error :: "('v, 'b) recovery_participant \<Rightarrow> pyerror" where
  "participant_error pt = TypeError (''recovery participant '' @ [CHR 0x27] @ pt_name pt @ [CHR 0x27] @
     '' has no rebuild_backend()'')"

definition participant_validate :: "'v persistence \<Rightarrow> ('v, 'b) recovery_participant \<Rightarrow> unit res" where
  "participant_validate p pt = (case pt_rebuild pt of
     None \<Rightarrow> Inl (participant_error pt)
   | Some _ \<Rightarrow> (case pt_validate pt of None \<Rightarrow> Inr () | Some validate \<Rightarrow> validate p))"

definition participant_rebuild :: "('v, 'b) recovery_participant \<Rightarrow> ('v persistence \<times> 'b, int) meth" where
  "participant_rebuild pt = (case pt_rebuild pt of
     None \<Rightarrow> raise_m (participant_error pt)
   | Some rebuild \<Rightarrow> bind_m rebuild (\<lambda>restored. return_m (case restored of None \<Rightarrow> 0 | Some n \<Rightarrow> n)))"

text \<open>The parts of the simulation context a rebuild restores.\<close>

record 'v restored_context =
  cx_now :: datetime
  cx_tick :: int
  cx_scenarios :: "'v scenario_runtime_state option"

record ('v, 'b) rebuild_world =
  rbw_persistence :: "'v persistence"
  rbw_backend :: 'b
  rbw_context :: "'v restored_context option"

definition phase_names :: "('v, 'b) recovery_participant list \<Rightarrow> string list" where
  "phase_names participants = [''context''] @ map pt_name participants @ [''scheduled-work'']"

fun snapshot_items ::
  "string \<Rightarrow> 'v uow \<Rightarrow> scheduled_work list \<Rightarrow> ('v durable_scheduled_item list) res" where
  "snapshot_items owner_id u [] = Inr []"
| "snapshot_items owner_id u (work # works) =
     (if sw_owner_id work \<noteq> owner_id then snapshot_items owner_id u works
      else case get_command (sw_command_id work) u of
          None \<Rightarrow> Inl (missing_command work)
        | Some command \<Rightarrow>
            if cm_owner_id command \<noteq> Some owner_id
            then Inl (PermissionError ''scheduled command belongs to a different owner'')
            else bind_res (snapshot_items owner_id u works) (\<lambda>items.
                   Inr (\<lparr>di_work = work, di_command = command\<rparr> # items)))"

definition snapshot_body ::
  "string \<Rightarrow> ('v, simulation_position option \<times> 'v scenario_runtime_state option \<times> 'v durable_scheduled_item list) tx_body" where
  "snapshot_body owner_id u =
     bind_res (get_simulation_position owner_id u) (\<lambda>position.
     bind_res (get_scenario_state owner_id u) (\<lambda>scenario_state.
     bind_res (snapshot_items owner_id u (uow_scheduled_work u)) (\<lambda>items.
       Inr ((position, scenario_state, items), u))))"

definition recovery_snapshot where
  "recovery_snapshot owner_id = transaction (Some owner_id) (snapshot_body owner_id)"

definition validate_scheduled_items :: "datetime \<Rightarrow> 'v durable_scheduled_item list \<Rightarrow> unit res" where
  "validate_scheduled_items boundary items = each_ok (\<lambda>item. guards
     [(sw_due_at (di_work item) < boundary,
       RuntimeError (''scheduled work '' @ sw_work_id (di_work item) @ '' is before recovery boundary''))] ()) items"

definition schedule_pending_items ::
  "('v, 'b) schedule_backend \<Rightarrow> 'v durable_scheduled_item list \<Rightarrow> ('b, unit) meth" where
  "schedule_pending_items B items = each_m (\<lambda>item. hb_schedule_at B (sw_due_at (di_work item)) item
     (sw_priority (di_work item)) (sw_work_id (di_work item))) items"

definition restore_context ::
  "simulation_position option \<Rightarrow> 'v scenario_runtime_state option \<Rightarrow> 'v restored_context \<Rightarrow> 'v restored_context" where
  "restore_context position scenario_state c =
     (case position of None \<Rightarrow> c | Some s \<Rightarrow> c\<lparr>cx_now := sp_logical_time s, cx_tick := sp_logical_tick s\<rparr>)
       \<lparr>cx_scenarios := scenario_state\<rparr>"

text \<open>What a rebuild checks before it changes anything, and the plan it then carries out.\<close>

definition rebuild_plan ::
  "string \<Rightarrow> ('v, 'b) schedule_backend \<Rightarrow> ('v, 'b) recovery_participant list \<Rightarrow> ('v durable_scheduled_item \<Rightarrow> bool)
     \<Rightarrow> simulation_position option \<Rightarrow> 'v durable_scheduled_item list \<Rightarrow> ('v, 'b) rebuild_world
     \<Rightarrow> ('v durable_scheduled_item list) res" where
  "rebuild_plan owner_id B participants work_filter position items w =
     (let boundary = (case position of Some s \<Rightarrow> sp_logical_time s | None \<Rightarrow> hb_now B (rbw_backend w));
          items = filter work_filter items
      in bind_res (guards
           [(case position of None \<Rightarrow> False | Some s \<Rightarrow> hb_now B (rbw_backend w) \<noteq> sp_logical_time s,
             RuntimeError ''backend logical time does not match persisted recovery boundary'')] ()) (\<lambda>_.
         bind_res (validate_scheduled_items boundary items) (\<lambda>_.
         bind_res (each_ok (participant_validate (rbw_persistence w)) participants) (\<lambda>_. Inr items))))"

definition rebuild_participants ::
  "('v, 'b) recovery_participant list \<Rightarrow> (('v, 'b) rebuild_world, unit) meth" where
  "rebuild_participants participants = each_m (\<lambda>pt w.
     (case participant_rebuild pt (rbw_persistence w, rbw_backend w) of
        (Inl e, (p, b)) \<Rightarrow> (Inl e, w\<lparr>rbw_persistence := p, rbw_backend := b\<rparr>)
      | (Inr _, (p, b)) \<Rightarrow> (Inr (), w\<lparr>rbw_persistence := p, rbw_backend := b\<rparr>))) participants"

definition rebuild_runtime ::
  "string \<Rightarrow> ('v, 'b) schedule_backend \<Rightarrow> ('v, 'b) recovery_participant list \<Rightarrow> ('v durable_scheduled_item \<Rightarrow> bool)
     \<Rightarrow> (('v, 'b) rebuild_world, nat) meth" where
  "rebuild_runtime owner_id B participants work_filter w =
     (case recovery_snapshot owner_id (rbw_persistence w) of
        (Inl e, p) \<Rightarrow> (Inl e, w\<lparr>rbw_persistence := p\<rparr>)
      | (Inr (position, scenario_state, items), p) \<Rightarrow>
          (let w = w\<lparr>rbw_persistence := p\<rparr>
           in case rebuild_plan owner_id B participants work_filter position items w of
                Inl e \<Rightarrow> (Inl e, w)
              | Inr items \<Rightarrow>
                  bind_m (rebuild_participants participants) (\<lambda>_ w.
                    (case schedule_pending_items B items (rbw_backend w) of
                       (Inl e, b) \<Rightarrow> (Inl e, w\<lparr>rbw_backend := b\<rparr>)
                     | (Inr _, b) \<Rightarrow> (Inr (length items), w\<lparr>rbw_backend := b\<rparr>)))
                  (w\<lparr>rbw_context := map_option (restore_context position scenario_state) (rbw_context w)\<rparr>)))"

section \<open>The invariant\<close>

text \<open>Every scheduled work has its command, of the same owner and due time, and shares it with no other.\<close>

definition work_ok :: "'v state \<Rightarrow> bool" where
  "work_ok s \<longleftrightarrow>
     (\<forall>k w. map_of (st_scheduled_work s) k = Some w \<longrightarrow>
        (\<exists>c. map_of (st_commands s) (sw_command_id w) = Some c \<and> cm_owner_id c = Some (sw_owner_id w) \<and>
           cm_due_at c = sw_due_at w)) \<and>
     (\<forall>k k' w w'. map_of (st_scheduled_work s) k = Some w \<longrightarrow> map_of (st_scheduled_work s) k' = Some w' \<longrightarrow>
        sw_command_id w = sw_command_id w' \<longrightarrow> k = k')"

definition schedule_inv :: "'v persistence \<Rightarrow> bool" where
  "schedule_inv p \<longleftrightarrow> state_wf (pstate p) \<and> settled_disjoint (pstate p) \<and> \<not> read_only p \<and> work_ok (pstate p)"

lemma schedule_keys:
  assumes "state_wf s"
  shows "keyed cm_command_id (st_commands s)" and "keyed sw_work_id (st_scheduled_work s)"
  using assms by (simp_all add: state_wf_def ids_wf_def)

lemma record_schedule_effect:
  assumes "record_schedule uuid5 owner now c prio p = (r, p')"
  shows "(\<exists>e. r = Inl e) \<and> p' = p \<or>
    (\<exists>work. r = Inr work \<and> cm_owner_id c = Some owner \<and> map_of (st_commands (pstate p)) (cm_command_id c) = None \<and>
       work = ScheduledWork (cm_due_at c) prio (next_work_sequence owner (scheduled_work_of p))
         (work_id_of uuid5 owner (cm_command_id c)) (cm_command_id c) owner \<and> \<not> blank owner \<and>
       p' = p\<lparr>pstate := (pstate p)\<lparr>st_commands := st_commands (pstate p) @ [(cm_command_id c, c)],
         st_scheduled_work := dset (sw_work_id work) work (st_scheduled_work (pstate p))\<rparr>\<rparr>)"
proof (cases "r")
  case (Inl e)
  with assms have "p' = p"
    by (auto simp: record_schedule_def split: if_splits elim: transaction_cases)
  with Inl show ?thesis by blast
next
  case (Inr work)
  with assms have owner: "cm_owner_id c = Some owner" and fresh: "map_of (st_commands (pstate p)) (cm_command_id c) = None"
    and tx: "transaction (Some owner) (schedule_body uuid5 owner c prio) p = (Inr work, p')"
    by (auto simp: record_schedule_def command_of_def split: if_splits)
  from tx obtain u where "schedule_body uuid5 owner c prio (new_uow (pstate p)) = Inr (work, u)"
    and p': "p' = p\<lparr>pstate := working u\<rparr>" by (cases rule: transaction_cases) auto
  with fresh have w: "work = ScheduledWork (cm_due_at c) prio (next_work_sequence owner (scheduled_work_of p))
         (work_id_of uuid5 owner (cm_command_id c)) (cm_command_id c) owner" "\<not> blank owner"
    "working u = (pstate p)\<lparr>st_commands := st_commands (pstate p) @ [(cm_command_id c, c)],
         st_scheduled_work := dset (sw_work_id work) work (st_scheduled_work (pstate p))\<rparr>"
    by (auto simp: schedule_body_def mk_scheduled_work_def save_command_def save_scheduled_work_def mark_dirty_def
        new_uow_def uow_scheduled_work_def scheduled_work_of_def update_new get_command_def)
  show ?thesis
    by (rule disjI2, rule exI [of _ work], intro conjI) (fact Inr owner fresh w(1,2) p' [unfolded w(3)])+
qed

lemma cancel_work_effect:
  assumes "cancel_work owner k p = (r, p')" and keys: "keyed sw_work_id (st_scheduled_work (pstate p))"
    "keyed cm_command_id (st_commands (pstate p))"
  shows "p' = p \<or>
    (\<exists>w c. r = Inr True \<and> map_of (st_scheduled_work (pstate p)) k = Some w \<and> sw_owner_id w = owner \<and>
       map_of (st_commands (pstate p)) (sw_command_id w) = Some c \<and>
       p' = p\<lparr>pstate := (pstate p)\<lparr>st_scheduled_work := dpop k (st_scheduled_work (pstate p)),
         st_commands := dpop (sw_command_id w) (st_commands (pstate p))\<rparr>\<rparr>)"
  using assms(1) unfolding cancel_work_def
proof (cases rule: transaction_cases)
  case (2 a u)
  show ?thesis
  proof (cases "map_of (st_scheduled_work (pstate p)) k")
    case None
    with 2 show ?thesis by (auto simp: cancel_work_body_def get_scheduled_work_def new_uow_def)
  next
    case (Some w)
    then have k: "sw_work_id w = k" using keys(1) by (auto dest: keyed_lookup)
    from 2(2) Some obtain c where c: "map_of (st_commands (pstate p)) (sw_command_id w) = Some c" "sw_owner_id w = owner"
      by (auto simp: cancel_work_body_def get_scheduled_work_def get_command_def new_uow_def split: if_splits option.splits)
    then have ck: "cm_command_id c = sw_command_id w" using keys(2) by (auto dest: keyed_lookup)
    have "a" "working u = (pstate p)\<lparr>st_scheduled_work := dpop k (st_scheduled_work (pstate p)),
         st_commands := dpop (sw_command_id w) (st_commands (pstate p))\<rparr>"
      using 2(2) Some c k ck
      by (auto simp: cancel_work_body_def get_scheduled_work_def get_command_def new_uow_def
          delete_scheduled_work_def delete_command_def mark_dirty_def split: if_splits)
    with 2 Some c show ?thesis by auto
  qed
qed simp

lemma schedule_uow_bodies:
  "uow_body (schedule_body uuid5 owner c prio)" "uow_body (cancel_work_body owner k)"
  unfolding uow_body_def
  by (auto simp: schedule_body_def cancel_work_body_def split: if_splits option.splits)
    (meson converse_rtranclp_into_rtranclp rtranclp.rtrancl_refl save_command_step save_scheduled_work_step
      delete_command_step delete_scheduled_work_step)+

lemma transaction_wf:
  assumes "transaction owner body p = (r, p')" and "uow_body body" and "schedule_inv p"
  shows "state_wf (pstate p') \<and> settled_disjoint (pstate p') \<and> \<not> read_only p'"
  using uow_body_transaction [OF assms(1,2)] assms(3)
  by (auto simp: schedule_inv_def new_uow_def dest: state_wf_steps)

lemma record_schedule_wf:
  assumes "record_schedule uuid5 owner now c prio p = (r, p')" and "schedule_inv p"
  shows "state_wf (pstate p') \<and> settled_disjoint (pstate p') \<and> \<not> read_only p'"
proof -
  consider "p' = p" | "transaction (Some owner) (schedule_body uuid5 owner c prio) p = (r, p')"
    using assms(1) by (auto simp: record_schedule_def split: if_splits)
  then show ?thesis
  proof cases
    case 1
    with assms(2) show ?thesis by (simp add: schedule_inv_def)
  next
    case 2
    from transaction_wf [OF this schedule_uow_bodies(1) assms(2)] show ?thesis .
  qed
qed

lemma record_schedule_keeps:
  assumes sched: "record_schedule uuid5 owner now c prio p = (r, p')" and inv: "schedule_inv p"
  shows "schedule_inv p'"
proof -
  let ?s = "pstate p"
  from inv have ok: "work_ok ?s" by (simp add: schedule_inv_def)
  have "work_ok (pstate p')"
    using record_schedule_effect [OF sched]
  proof (elim disjE exE conjE)
    fix work assume c: "cm_owner_id c = Some owner" "map_of (st_commands ?s) (cm_command_id c) = None"
      and work: "work = ScheduledWork (cm_due_at c) prio (next_work_sequence owner (scheduled_work_of p))
         (work_id_of uuid5 owner (cm_command_id c)) (cm_command_id c) owner"
      and p': "p' = p\<lparr>pstate := ?s\<lparr>st_commands := st_commands ?s @ [(cm_command_id c, c)],
         st_scheduled_work := dset (sw_work_id work) work (st_scheduled_work ?s)\<rparr>\<rparr>"
    have works: "map_of (st_scheduled_work (pstate p')) = (map_of (st_scheduled_work ?s))(sw_work_id work \<mapsto> work)"
      using p' by simp
    have cmds: "map_of (st_commands (pstate p')) k =
        (if k = cm_command_id c then Some c else map_of (st_commands ?s) k)" for k
      using p' c(2) by (auto simp: map_add_def split: option.splits)
    have other: "sw_command_id w \<noteq> cm_command_id c" if "map_of (st_scheduled_work ?s) k = Some w" for k w
      using that ok c(2) unfolding work_ok_def by force
    show "work_ok (pstate p')"
      unfolding work_ok_def works cmds
    proof (intro conjI allI impI)
      fix k w assume w: "((map_of (st_scheduled_work ?s))(sw_work_id work \<mapsto> work)) k = Some w"
      show "\<exists>d. (if sw_command_id w = cm_command_id c then Some c else map_of (st_commands ?s) (sw_command_id w)) = Some d \<and>
          cm_owner_id d = Some (sw_owner_id w) \<and> cm_due_at d = sw_due_at w"
      proof (cases "k = sw_work_id work")
        case True
        with w work c(1) show ?thesis by auto
      next
        case False
        with w have k: "map_of (st_scheduled_work ?s) k = Some w" by simp
        with ok obtain d where "map_of (st_commands ?s) (sw_command_id w) = Some d" "cm_owner_id d = Some (sw_owner_id w)"
          "cm_due_at d = sw_due_at w" unfolding work_ok_def by blast
        with other [OF k] show ?thesis by simp
      qed
    next
      fix k k' w w' assume w: "((map_of (st_scheduled_work ?s))(sw_work_id work \<mapsto> work)) k = Some w"
        "((map_of (st_scheduled_work ?s))(sw_work_id work \<mapsto> work)) k' = Some w'" "sw_command_id w = sw_command_id w'"
      show "k = k'"
      proof (cases "k = sw_work_id work \<or> k' = sw_work_id work")
        case True
        then show ?thesis using w other [of k w] other [of k' w'] work by (auto split: if_splits)
      next
        case False
        with w ok show ?thesis unfolding work_ok_def by (metis fun_upd_other)
      qed
    qed
  qed (use ok in simp)
  with record_schedule_wf [OF assms] show ?thesis by (simp add: schedule_inv_def)
qed

text \<open>Removing a work together with its command keeps the others intact.\<close>

lemma work_ok_remove:
  assumes ok: "work_ok s" and w: "map_of (st_scheduled_work s) k = Some w"
    and works: "st_scheduled_work s' = dpop k (st_scheduled_work s)"
    and cmds: "st_commands s' = dpop (sw_command_id w) (st_commands s)"
  shows "work_ok s'"
proof -
  have other: "sw_command_id v \<noteq> sw_command_id w" if "map_of (st_scheduled_work s) j = Some v" "j \<noteq> k" for j v
    using that w ok unfolding work_ok_def by blast
  show ?thesis
    unfolding work_ok_def
  proof (intro conjI allI impI)
    fix j v assume "map_of (st_scheduled_work s') j = Some v"
    then have j: "j \<noteq> k" "map_of (st_scheduled_work s) j = Some v" using works by (auto split: if_splits)
    then obtain d where "map_of (st_commands s) (sw_command_id v) = Some d" "cm_owner_id d = Some (sw_owner_id v)"
      "cm_due_at d = sw_due_at v" using ok unfolding work_ok_def by blast
    with other [OF j(2,1)] cmds
    show "\<exists>d. map_of (st_commands s') (sw_command_id v) = Some d \<and> cm_owner_id d = Some (sw_owner_id v) \<and>
        cm_due_at d = sw_due_at v" by simp
  next
    fix j j' v v' assume "map_of (st_scheduled_work s') j = Some v"
      "map_of (st_scheduled_work s') j' = Some v'" and same: "sw_command_id v = sw_command_id v'"
    then have "map_of (st_scheduled_work s) j = Some v" "map_of (st_scheduled_work s) j' = Some v'"
      using works by (auto split: if_splits)
    with ok same show "j = j'" unfolding work_ok_def by blast
  qed
qed

lemma cancel_work_keeps:
  assumes cancel: "cancel_work owner k p = (r, p')" and inv: "schedule_inv p"
  shows "schedule_inv p'"
proof -
  from inv have ok: "work_ok (pstate p)" and wf: "state_wf (pstate p)" by (simp_all add: schedule_inv_def)
  have "work_ok (pstate p')"
    using cancel_work_effect [OF cancel schedule_keys(2,1) [OF wf]] ok by (auto intro: work_ok_remove)
  with transaction_wf [OF cancel [unfolded cancel_work_def] schedule_uow_bodies(2) inv] show ?thesis
    by (simp add: schedule_inv_def)
qed

section \<open>Reading pending work\<close>

lemma commit_settled: "settled_disjoint (working u) \<Longrightarrow> commit u = Inr (working u)"
  by (simp add: commit_Inr_iff settled_disjoint_def)

definition item_of :: "'v state \<Rightarrow> scheduled_work \<Rightarrow> 'v durable_scheduled_item" where
  "item_of s w = \<lparr>di_work = w, di_command = the (map_of (st_commands s) (sw_command_id w))\<rparr>"

lemma collect_items_ok:
  assumes "\<forall>w \<in> set works. sw_owner_id w = owner \<longrightarrow> map_of (st_commands s) (sw_command_id w) \<noteq> None"
  shows "collect_items owner (\<lambda>k. map_of (st_commands s) k) works =
    Inr (map (item_of s) (filter (\<lambda>w. sw_owner_id w = owner) works))"
  using assms by (induction works) (auto simp: item_of_def split: option.splits)

lemma work_member:
  assumes "schedule_inv p" and "w \<in> set (scheduled_work_of p)"
  shows "map_of (st_scheduled_work (pstate p)) (sw_work_id w) = Some w"
    and "\<exists>c. map_of (st_commands (pstate p)) (sw_command_id w) = Some c \<and> cm_owner_id c = Some (sw_owner_id w) \<and>
      cm_due_at c = sw_due_at w \<and> cm_command_id c = sw_command_id w"
proof -
  from assms(1) have wf: "state_wf (pstate p)" and ok: "work_ok (pstate p)" by (simp_all add: schedule_inv_def)
  show w: "map_of (st_scheduled_work (pstate p)) (sw_work_id w) = Some w"
    using assms(2) keyed_mem_iff [OF schedule_keys(2) [OF wf]] by (simp add: scheduled_work_of_def)
  then obtain c where c: "map_of (st_commands (pstate p)) (sw_command_id w) = Some c" "cm_owner_id c = Some (sw_owner_id w)"
    "cm_due_at c = sw_due_at w" using ok unfolding work_ok_def by blast
  moreover have "cm_command_id c = sw_command_id w" using c(1) schedule_keys(1) [OF wf] by (auto dest: keyed_lookup)
  ultimately show "\<exists>c. map_of (st_commands (pstate p)) (sw_command_id w) = Some c \<and> cm_owner_id c = Some (sw_owner_id w) \<and>
      cm_due_at c = sw_due_at w \<and> cm_command_id c = sw_command_id w" by blast
qed

lemma pending_ok:
  assumes inv: "schedule_inv p" and "owner \<noteq> []"
  shows "pending owner p =
    (Inr (map (item_of (pstate p)) (filter (\<lambda>w. sw_owner_id w = owner) (scheduled_work_of p))), p)"
proof -
  have "collect_items owner (\<lambda>k. map_of (st_commands (pstate p)) k) (scheduled_work_of p) =
      Inr (map (item_of (pstate p)) (filter (\<lambda>w. sw_owner_id w = owner) (scheduled_work_of p)))"
    using work_member [OF inv] by (intro collect_items_ok) force
  moreover have "commit (new_uow (pstate p)) = Inr (pstate p)"
    using inv commit_settled [of "new_uow (pstate p)"] by (simp add: schedule_inv_def new_uow_def)
  ultimately show ?thesis
    using assms
    by (simp add: pending_def transaction_def fork_state_def pending_body_def get_command_def new_uow_def
        uow_scheduled_work_def scheduled_work_of_def schedule_inv_def)
qed

lemma snapshot_items_ok:
  assumes "\<forall>w \<in> set works. sw_owner_id w = owner \<longrightarrow>
    (\<exists>c. map_of (st_commands (working u)) (sw_command_id w) = Some c \<and> cm_owner_id c = Some owner)"
  shows "snapshot_items owner u works = Inr (map (item_of (working u)) (filter (\<lambda>w. sw_owner_id w = owner) works))"
  using assms by (induction works) (auto simp: item_of_def get_command_def)

lemma recovery_snapshot_ok:
  assumes inv: "schedule_inv p" and "\<not> blank owner" and pend: "pending owner p = (Inr items, p)"
  shows "recovery_snapshot owner p = (Inr (map_of (st_simulation_positions (pstate p)) owner,
    map_of (st_scenario_states (pstate p)) owner, items), p)"
proof -
  have "owner \<noteq> []" using assms(2) by auto
  then have items: "items = map (item_of (pstate p)) (filter (\<lambda>w. sw_owner_id w = owner) (scheduled_work_of p))"
    using pending_ok [OF inv] pend by simp
  have "snapshot_items owner (new_uow (pstate p)) (scheduled_work_of p) =
      Inr (map (item_of (working (new_uow (pstate p)))) (filter (\<lambda>w. sw_owner_id w = owner) (scheduled_work_of p)))"
    using work_member(2) [OF inv] by (intro snapshot_items_ok) (force simp: new_uow_def)
  moreover have "commit (new_uow (pstate p)) = Inr (pstate p)"
    using inv commit_settled [of "new_uow (pstate p)"] by (simp add: schedule_inv_def new_uow_def)
  ultimately show ?thesis
    using assms(2) inv \<open>owner \<noteq> []\<close>
    by (simp add: recovery_snapshot_def transaction_def fork_state_def snapshot_body_def get_simulation_position_def
        get_scenario_state_def items new_uow_def uow_scheduled_work_def scheduled_work_of_def schedule_inv_def guards.simps)
qed

section \<open>Runs\<close>

inductive schedule_step :: "digest \<Rightarrow> 'v persistence \<Rightarrow> 'v persistence \<Rightarrow> bool" for uuid5 where
  sstep_schedule: "record_schedule uuid5 owner now c prio p = (r, p') \<Longrightarrow> schedule_step uuid5 p p'"
| sstep_cancel: "cancel_work owner k p = (r', p') \<Longrightarrow> schedule_step uuid5 p p'"
| sstep_other: "history p p' \<Longrightarrow> read_only p' = read_only p \<Longrightarrow> st_commands (pstate p') = st_commands (pstate p) \<Longrightarrow>
    st_scheduled_work (pstate p') = st_scheduled_work (pstate p) \<Longrightarrow> schedule_step uuid5 p p'"

lemma schedule_is_step:
  assumes "schedule uuid5 B c prio w = (r, w')"
  shows "schedule_step uuid5 (hw_persistence w) (hw_persistence w')"
  using assms by (auto simp: schedule_def intro: sstep_schedule split: prod.splits sum.splits option.splits)

lemma schedule_step_keeps: "schedule_step uuid5 p p' \<Longrightarrow> schedule_inv p \<Longrightarrow> schedule_inv p'"
proof (induction rule: schedule_step.induct)
  case (sstep_schedule owner now c prio p r p')
  then show ?case by (rule record_schedule_keeps)
next
  case (sstep_cancel owner k p r' p')
  then show ?case by (rule cancel_work_keeps)
next
  case (sstep_other p p')
  then show ?case using history_wf [of p p'] by (simp add: schedule_inv_def work_ok_def)
qed

lemma schedule_inv_init: "schedule_inv new_persistence"
  by (simp add: schedule_inv_def new_persistence_def work_ok_def) (simp add: empty_state_def)

interpretation schedules: recoverable new_persistence "schedule_step uuid5" schedule_inv
  "\<lambda>p. case fst (pending (c # cs) p) of Inl e \<Rightarrow> Inl e | Inr _ \<Rightarrow> Inr ()"
  for uuid5 c cs
  by unfold_locales (auto simp: schedule_inv_init pending_ok intro: schedule_step_keeps)

section \<open>Order\<close>

lemma fold_max_le: "(y :: int) \<in> set (x # xs) \<Longrightarrow> y \<le> fold max xs x"
  using fold_max_ge [of x xs] by auto

lemma next_work_sequence_gt:
  assumes "w \<in> set works" and "sw_owner_id w = owner"
  shows "sw_sequence w < next_work_sequence owner works"
proof -
  let ?xs = "map sw_sequence (filter (\<lambda>w. sw_owner_id w = owner) works)"
  have "sw_sequence w \<in> set ?xs" using assms by auto
  then show ?thesis
    unfolding next_work_sequence_def by (cases ?xs) (use fold_max_le in fastforce)+
qed

lemma sw_due_mono: "a \<le> b \<Longrightarrow> sw_due_at a \<le> sw_due_at b"
  by (cases a; cases b) (auto simp: less_eq_scheduled_work_def less_eq_prod_def)

lemma filter_takeWhile_mono:
  assumes "sorted xs" and "\<And>a b. a \<le> b \<Longrightarrow> P b \<Longrightarrow> P a"
  shows "filter P xs = takeWhile P xs"
  using assms(1)
proof (induction xs)
  case (Cons x xs)
  show ?case
  proof (cases "P x")
    case False
    then have "\<forall>y \<in> set xs. \<not> P y" using Cons.prems assms(2) by auto
    with False show ?thesis by simp
  qed (use Cons in simp)
qed simp

lemma dpop_appended: "map_of d k = None \<Longrightarrow> dpop k (d @ [(k, v)]) = d"
  by (force simp: AList.delete_eq map_of_eq_None_iff filter_id_conv)

section \<open>A recording backend and a sample schedule\<close>

definition recording_schedule :: "('v, ('v durable_scheduled_item \<times> int) list) schedule_backend" where
  "recording_schedule = \<lparr>hb_now = (\<lambda>b. 0), hb_schedule_at = (\<lambda>t item prio key b. (Inr (), b @ [(item, prio)]))\<rparr>"

lemma recording_schedule_items:
  "schedule_pending_items recording_schedule items b =
     (Inr (), b @ map (\<lambda>i. (i, sw_priority (di_work i))) items)"
  by (induction items arbitrary: b) (simp_all add: schedule_pending_items_def recording_schedule_def)

definition ping :: "string \<Rightarrow> datetime \<Rightarrow> nat command" where
  "ping k t = \<lparr>cm_command_id = k, cm_name = ''ping'', cm_entity_type = ''host'', cm_entity_id = ''h'', cm_due_at = t,
     cm_issued_at = None, cm_tick = None, cm_payload = Mapping.empty, cm_causation_id = None, cm_correlation_id = None,
     cm_owner_id = Some ''me''\<rparr>"

definition ping_work :: "digest \<Rightarrow> scheduled_work" where
  "ping_work uuid5 = ScheduledWork 7 100 1 (work_id_of uuid5 ''me'' ''k'') ''k'' ''me''"

definition ping_state :: "digest \<Rightarrow> nat persistence" where
  "ping_state uuid5 = new_persistence\<lparr>pstate := empty_state\<lparr>st_commands := [(''k'', ping ''k'' 7)],
     st_scheduled_work := [(sw_work_id (ping_work uuid5), ping_work uuid5)]\<rparr>\<rparr>"

lemma blank_me: "\<not> blank ''me''"
  by (simp add: blank_def ascii_space_def space2_def)

lemma ping_scheduled:
  "record_schedule uuid5 ''me'' None (ping ''k'' 7) 100 new_persistence = (Inr (ping_work uuid5), ping_state uuid5)"
  by (simp add: record_schedule_def ping_def command_of_def new_persistence_def empty_state_def transaction_def
      fork_state_def new_uow_def schedule_body_def get_command_def mk_scheduled_work_def blank_me uow_scheduled_work_def
      next_work_sequence_def save_command_def save_scheduled_work_def mark_dirty_def commit_def overlap_def guards.simps
      ping_work_def ping_state_def)

lemma ping_run: "(schedule_step uuid5)\<^sup>*\<^sup>* new_persistence (ping_state uuid5)"
  using sstep_schedule [OF ping_scheduled] by blast

section \<open>Properties\<close>

text \<open>
  C15. Pending work is always readable: in every reachable state and for every owner, listing the pending
  work succeeds without changing anything and returns exactly the owner's scheduled work in due order,
  each with its own command, of the same owner and due time.
\<close>

theorem pending_work_intact:
  assumes "(schedule_step uuid5)\<^sup>*\<^sup>* new_persistence p" and "owner \<noteq> []"
  shows "\<exists>items. pending owner p = (Inr items, p) \<and>
    map di_work items = filter (\<lambda>w. sw_owner_id w = owner) (scheduled_work_of p) \<and> sorted (map di_work items) \<and>
    (\<forall>i \<in> set items. cm_command_id (di_command i) = sw_command_id (di_work i) \<and>
       cm_owner_id (di_command i) = Some owner \<and> cm_due_at (di_command i) = sw_due_at (di_work i))"
proof -
  have inv: "schedule_inv p" by (rule schedules.reachable_inv [OF assms(1)])
  let ?works = "filter (\<lambda>w. sw_owner_id w = owner) (scheduled_work_of p)"
  let ?items = "map (item_of (pstate p)) ?works"
  have "map di_work ?items = ?works" by (simp add: item_of_def comp_def)
  moreover have "sorted ?works" by (simp add: scheduled_work_of_def sorted_filter [of "\<lambda>x. x", simplified])
  moreover have "cm_command_id (di_command i) = sw_command_id (di_work i) \<and> cm_owner_id (di_command i) = Some owner \<and>
      cm_due_at (di_command i) = sw_due_at (di_work i)" if "i \<in> set ?items" for i
    using that work_member(2) [OF inv] by (fastforce simp: item_of_def)
  ultimately show ?thesis using pending_ok [OF inv assms(2)] by metis
qed

theorem pending_work_intact_witness:
  "pending ''me'' (ping_state (\<lambda>n s. s)) =
     (Inr [\<lparr>di_work = ping_work (\<lambda>n s. s), di_command = ping ''k'' 7\<rparr>], ping_state (\<lambda>n s. s))"
proof -
  have inv: "(schedule_step (\<lambda>n s. s))\<^sup>*\<^sup>* new_persistence (ping_state (\<lambda>n s. s))" by (rule ping_run)
  obtain items where items: "pending ''me'' (ping_state (\<lambda>n s. s)) = (Inr items, ping_state (\<lambda>n s. s))"
    "map di_work items = [ping_work (\<lambda>n s. s)]"
    using pending_work_intact [OF inv, of "''me''"] by (auto simp: scheduled_work_of_def ping_state_def ping_work_def)
  have "items = [\<lparr>di_work = ping_work (\<lambda>n s. s), di_command = ping ''k'' 7\<rparr>]"
    using items(1) pending_ok [OF schedules.reachable_inv [OF inv], of "''me''"]
    by (auto simp: scheduled_work_of_def ping_state_def ping_work_def item_of_def)
  with items(1) show ?thesis by simp
qed

text \<open>
  Due work is served in order: what is due at a time is the initial part of the pending list, so that
  nothing later overtakes it, and newly scheduled work comes after all pending work of its owner with
  the same due time and priority.
\<close>

theorem due_work_in_order:
  assumes "(schedule_step uuid5)\<^sup>*\<^sup>* new_persistence p" and "owner \<noteq> []" and "pending owner p = (Inr items, p)"
    and "record_schedule uuid5 owner now c prio p = (Inr work, p')"
  shows "due owner t p = (Inr (takeWhile (\<lambda>i. sw_due_at (di_work i) \<le> t) items), p) \<and>
    (\<forall>i \<in> set items. sw_due_at (di_work i) = sw_due_at work \<longrightarrow> sw_priority (di_work i) = sw_priority work \<longrightarrow>
       di_work i < work)"
proof
  have inv: "schedule_inv p" by (rule schedules.reachable_inv [OF assms(1)])
  let ?works = "filter (\<lambda>w. sw_owner_id w = owner) (scheduled_work_of p)"
  have items: "items = map (item_of (pstate p)) ?works" using pending_ok [OF inv assms(2)] assms(3) by simp
  have "sorted ?works" by (simp add: scheduled_work_of_def sorted_filter [of "\<lambda>x. x", simplified])
  then have "filter (\<lambda>w. sw_due_at w \<le> t) ?works = takeWhile (\<lambda>w. sw_due_at w \<le> t) ?works"
    by (rule filter_takeWhile_mono) (use sw_due_mono order_trans in blast)
  then have "filter (\<lambda>i. sw_due_at (di_work i) \<le> t) items = takeWhile (\<lambda>i. sw_due_at (di_work i) \<le> t) items"
    by (simp add: items filter_map takeWhile_map comp_def item_of_def)
  then show "due owner t p = (Inr (takeWhile (\<lambda>i. sw_due_at (di_work i) \<le> t) items), p)"
    using assms(3) by (simp add: due_def bind_m_def return_m_def)
  have work: "work = ScheduledWork (cm_due_at c) prio (next_work_sequence owner (scheduled_work_of p))
      (work_id_of uuid5 owner (cm_command_id c)) (cm_command_id c) owner"
    using record_schedule_effect [OF assms(4)] by auto
  show "\<forall>i \<in> set items. sw_due_at (di_work i) = sw_due_at work \<longrightarrow> sw_priority (di_work i) = sw_priority work \<longrightarrow>
       di_work i < work"
  proof (intro ballI impI)
    fix i assume i: "i \<in> set items" "sw_due_at (di_work i) = sw_due_at work" "sw_priority (di_work i) = sw_priority work"
    then have "sw_sequence (di_work i) < sw_sequence work"
      using next_work_sequence_gt work by (auto simp: items item_of_def)
    with i(2,3) show "di_work i < work"
      by (cases "di_work i"; cases work) (auto simp: less_scheduled_work_def less_prod_def)
  qed
qed

theorem due_work_in_order_witness:
  "\<exists>work p'. record_schedule (\<lambda>n s. s) ''me'' None (ping ''l'' 7) 100 (ping_state (\<lambda>n s. s)) = (Inr work, p') \<and>
     ping_work (\<lambda>n s. s) < work \<and> fst (due ''me'' 6 (ping_state (\<lambda>n s. s))) = Inr []"
proof -
  let ?U = "\<lambda>n s :: string. s" and ?p = "ping_state (\<lambda>n s. s)"
  have inv: "(schedule_step ?U)\<^sup>*\<^sup>* new_persistence ?p" by (rule ping_run)
  have pend: "pending ''me'' ?p = (Inr [item_of (pstate ?p) (ping_work ?U)], ?p)"
    using pending_ok [OF schedules.reachable_inv [OF inv], of "''me''"]
    by (simp add: scheduled_work_of_def ping_state_def ping_work_def)
  obtain work p' where new: "record_schedule ?U ''me'' None (ping ''l'' 7) 100 ?p = (Inr work, p')"
    by (simp add: record_schedule_def ping_def command_of_def ping_state_def new_persistence_def empty_state_def
        transaction_def fork_state_def new_uow_def schedule_body_def get_command_def mk_scheduled_work_def blank_me
        save_command_def save_scheduled_work_def mark_dirty_def commit_def overlap_def guards.simps)
  have "sw_due_at work = 7" "sw_priority work = 100"
    using record_schedule_effect [OF new] by (auto simp: ping_def)
  moreover have "di_work (item_of (pstate ?p) (ping_work ?U)) = ping_work ?U" "sw_due_at (ping_work ?U) = 7"
    "sw_priority (ping_work ?U) = 100" by (simp_all add: item_of_def ping_work_def)
  ultimately show ?thesis using due_work_in_order [OF inv _ pend new, of 6] new by simp
qed

text \<open>
  Cancelling undoes scheduling: if the work identity was free, cancelling newly scheduled work
  succeeds and restores exactly the durable state before it was scheduled; cancelling it once more
  reports a miss and changes nothing.
\<close>

theorem cancel_undoes_schedule:
  assumes "(schedule_step uuid5)\<^sup>*\<^sup>* new_persistence p" and "owner \<noteq> []"
    and "record_schedule uuid5 owner now c prio p = (Inr work, p')"
    and "map_of (st_scheduled_work (pstate p)) (sw_work_id work) = None"
  shows "cancel_work owner (sw_work_id work) p' = (Inr True, p) \<and> cancel_work owner (sw_work_id work) p = (Inr False, p)"
proof
  have inv: "schedule_inv p" by (rule schedules.reachable_inv [OF assms(1)])
  then have settled: "settled_disjoint (pstate p)" "\<not> read_only p" by (simp_all add: schedule_inv_def)
  have work: "sw_owner_id work = owner" "sw_command_id work = cm_command_id c"
    and c: "cm_owner_id c = Some owner" "map_of (st_commands (pstate p)) (cm_command_id c) = None"
    and p': "p' = p\<lparr>pstate := (pstate p)\<lparr>st_commands := st_commands (pstate p) @ [(cm_command_id c, c)],
      st_scheduled_work := st_scheduled_work (pstate p) @ [(sw_work_id work, work)]\<rparr>\<rparr>"
    using record_schedule_effect [OF assms(3)] assms(4) by (auto simp: update_new)
  note gone = dpop_appended [OF assms(4), of work] dpop_appended [OF c(2), of c]
  show "cancel_work owner (sw_work_id work) p' = (Inr True, p)"
    using assms(2,4) work c p' gone settled
    by (simp add: cancel_work_def transaction_def fork_state_def cancel_work_body_def get_scheduled_work_def get_command_def
        new_uow_def delete_scheduled_work_def delete_command_def mark_dirty_def map_add_def commit_settled)
  show "cancel_work owner (sw_work_id work) p = (Inr False, p)"
    using assms(2,4) settled
    by (simp add: cancel_work_def transaction_def fork_state_def cancel_work_body_def get_scheduled_work_def new_uow_def
        commit_settled)
qed

theorem cancel_undoes_schedule_witness:
  "cancel_work ''me'' (sw_work_id (ping_work (\<lambda>n s. s))) (ping_state (\<lambda>n s. s)) = (Inr True, new_persistence)"
proof -
  have "map_of (st_scheduled_work (pstate (new_persistence :: nat persistence))) (sw_work_id (ping_work (\<lambda>n s. s))) = None"
    by (simp add: new_persistence_def empty_state_def)
  from cancel_undoes_schedule [OF rtranclp.rtrancl_refl _ ping_scheduled this] show ?thesis by simp
qed


definition late_backend :: "(nat, (nat durable_scheduled_item \<times> int) list) schedule_backend" where
  "late_backend = recording_schedule\<lparr>hb_now := (\<lambda>b. 50)\<rparr>"


end
