(* ===== verification/Simulation_Engine.thy ===== *)
theory Simulation_Engine
  imports Clock_Scheduler Scenario_Engine Domain_Warehouse Durable_Scheduler
begin

text \<open>
  \<open>core/engine.py\<close>: the kernel that executes commands on entities. A command is run by the statechart of its
  entity inside one transaction that also saves the entity, appends the emitted events, lets scenarios
  react to them and stores the scenario state; a scheduled command is consumed in the same transaction.
  The parts of \<open>core/context.py\<close> that the engine changes (clock, pending events, scenarios, the legacy
  scheduler) are the record \<open>live\<close>.

  Parameters (\<open>engine_config\<close>): the statechart of a domain (python-statemachine and domain code) is a
  function of the clock, the scenario memory, the entity and the command that says whether it raised,
  how it left the entity and which events it emitted; \<open>TransitionAuthority.seal\<close> is a function of its
  arguments; a domain warehouse is its \<open>entity\<close> method.
\<close>

section \<open>State and configuration\<close>

record ('v, 'c) live =
  lv_clock :: simulation_clock
  lv_pending_events :: "'v domain_event list"
  lv_scenarios :: "('v, 'c) scenario_engine"
  lv_scheduler :: "'v heap_scheduler"

record ('v, 'c) sim_world =
  wd_persistence :: "'v persistence"
  wd_live :: "('v, 'c) live"

type_synonym 'v statechart =
  "simulation_clock \<Rightarrow> 'v scenario_memory \<Rightarrow> 'v entity \<Rightarrow> 'v command \<Rightarrow> unit res \<times> 'v entity \<times> 'v domain_event list"

record ('v, 'c) engine_config =
  eg_owner_id :: string
  eg_env :: scenario_env
  eg_context :: 'c
  eg_supports :: "string \<Rightarrow> bool"
  eg_chart :: "'v statechart"
  eg_seal :: "('v entity \<Rightarrow> 'v entity \<Rightarrow> 'v domain_event \<Rightarrow> 'v command \<Rightarrow> 'v domain_event res) option"
  eg_warehouse :: "(string \<Rightarrow> string \<Rightarrow> 'v entity option) option"

text \<open>The checks of the constructor; the rest of it binds the objects together.\<close>

definition mk_engine_config :: "('v, 'c) engine_config \<Rightarrow> ('v, 'c) engine_config res" where
  "mk_engine_config cfg = guards
     [(blank (eg_owner_id cfg), ValueError ''owner_id must not be empty''),
      (eg_seal cfg \<noteq> None \<and> eg_warehouse cfg \<noteq> None,
        ValueError ''transition proof requires entity and event in one store'')] cfg"

abbreviation memory_of :: "('v, 'c) live \<Rightarrow> 'v scenario_memory" where
  "memory_of l \<equiv> se_memory (lv_scenarios l)"

definition set_memory :: "'v scenario_memory \<Rightarrow> ('v, 'c) live \<Rightarrow> ('v, 'c) live" where
  "set_memory m l = l\<lparr>lv_scenarios := (lv_scenarios l)\<lparr>se_memory := m\<rparr>\<rparr>"

definition set_now :: "datetime \<Rightarrow> ('v, 'c) live \<Rightarrow> ('v, 'c) live" where
  "set_now t l = l\<lparr>lv_clock := (lv_clock l)\<lparr>ck_now := t\<rparr>\<rparr>"

definition set_time :: "datetime \<Rightarrow> int \<Rightarrow> ('v, 'c) live \<Rightarrow> ('v, 'c) live" where
  "set_time t tick l = l\<lparr>lv_clock := (lv_clock l)\<lparr>ck_now := t, ck_tick := tick\<rparr>\<rparr>"

definition emit :: "'v domain_event \<Rightarrow> ('v, 'c) live \<Rightarrow> ('v, 'c) live" where
  "emit event l = l\<lparr>lv_pending_events := lv_pending_events l @ [event]\<rparr>"

definition drain_events :: "('v, 'c) live \<Rightarrow> 'v domain_event list \<times> ('v, 'c) live" where
  "drain_events l = (lv_pending_events l, l\<lparr>lv_pending_events := []\<rparr>)"

section \<open>Executing a command\<close>

text \<open>The warehouse store reads the committed state, also inside a transaction.\<close>

definition load_entity ::
  "('v, 'c) engine_config \<Rightarrow> 'v persistence \<Rightarrow> string \<Rightarrow> string \<Rightarrow> 'v uow \<Rightarrow> 'v entity option res" where
  "load_entity cfg p entity_type entity_id u = (case eg_warehouse cfg of
     Some warehouse \<Rightarrow> store_entity warehouse p entity_type entity_id
   | None \<Rightarrow> Inr (get_entity entity_type entity_id u))"

definition save_entity_version :: "('v, 'c) engine_config \<Rightarrow> 'v entity \<Rightarrow> 'v uow \<Rightarrow> 'v uow res" where
  "save_entity_version cfg entity u = (case eg_warehouse cfg of
     None \<Rightarrow> save_entity entity u
   | Some _ \<Rightarrow>
       bind_res (entity_mutation (sv_uuid5 (eg_env cfg)) entity) (\<lambda>mutation.
         case get_domain_delivery (mu_mutation_id mutation) u of
           Some existing \<Rightarrow>
             if dd_mutation existing \<noteq> mutation
             then Inl (ValueError (''domain mutation identity conflict: '' @ mu_mutation_id mutation))
             else Inr u
         | None \<Rightarrow> save_domain_delivery \<lparr>dd_mutation = mutation, dd_attempts = 0, dd_last_error = None\<rparr> u))"

text \<open>\<open>statecharts.bind(...)\<close> (an unregistered entity type is a \<open>KeyError\<close>) and \<open>chart.send(...)\<close>.\<close>

definition run_chart ::
  "('v, 'c) engine_config \<Rightarrow> 'v entity \<Rightarrow> 'v command \<Rightarrow> ('v, 'c) live \<Rightarrow> 'v entity res \<times> ('v, 'c) live" where
  "run_chart cfg entity command l =
     (if \<not> eg_supports cfg (en_entity_type entity) then (Inl (KeyError (en_entity_type entity)), l)
      else case eg_chart cfg (lv_clock l) (memory_of l) entity command of
        (r, entity', emitted) \<Rightarrow>
          (case r of Inl e \<Rightarrow> Inl e | Inr _ \<Rightarrow> Inr entity', fold emit emitted l))"

definition transition_event :: string where
  "transition_event = ''entity.state_transition''"

text \<open>The event, its seal where there is one, and the scenarios' reaction.\<close>

definition append_sealed ::
  "('v, 'c) engine_config \<Rightarrow> 'v entity \<Rightarrow> 'v entity \<Rightarrow> 'v command \<Rightarrow> 'v domain_event \<Rightarrow> 'v uow \<Rightarrow> 'v uow res" where
  "append_sealed cfg before after command event u =
     bind_res (append_event event u) (\<lambda>u. case eg_seal cfg of
         Some seal \<Rightarrow> if ev_name event = transition_event
           then bind_res (seal before after event command) (\<lambda>proof_event. append_event proof_event u)
           else Inr u
       | None \<Rightarrow> Inr u)"

fun record_events ::
  "('v, 'c) engine_config \<Rightarrow> 'v entity \<Rightarrow> 'v entity \<Rightarrow> 'v command \<Rightarrow> 'v domain_event list \<Rightarrow> 'v uow
     \<Rightarrow> ('v, 'c) live \<Rightarrow> 'v uow res \<times> ('v, 'c) live" where
  "record_events cfg before after command [] u l = (Inr u, l)"
| "record_events cfg before after command (event # rest) u l =
     (case append_sealed cfg before after command event u of
        Inl e \<Rightarrow> (Inl e, l)
      | Inr u \<Rightarrow>
          (case on_event (eg_env cfg) (eg_context cfg) (ck_now (lv_clock l)) (ck_tick (lv_clock l)) event (lv_scenarios l) of
             (Inl e, s) \<Rightarrow> (Inl e, l\<lparr>lv_scenarios := s\<rparr>)
           | (Inr _, s) \<Rightarrow> record_events cfg before after command rest u (l\<lparr>lv_scenarios := s\<rparr>)))"

definition save_scenarios :: "('v, 'c) engine_config \<Rightarrow> ('v, 'c) live \<Rightarrow> 'v uow \<Rightarrow> 'v uow res" where
  "save_scenarios cfg l u = set_scenario_state (snapshot_state (memory_of l)) (eg_owner_id cfg) u"

text \<open>From the loaded entity on: run the chart, save, drain and record.\<close>

definition execute_on ::
  "('v, 'c) engine_config \<Rightarrow> 'v command \<Rightarrow> 'v entity \<Rightarrow> 'v uow \<Rightarrow> ('v, 'c) live \<Rightarrow> 'v uow res \<times> ('v, 'c) live" where
  "execute_on cfg command entity u l =
     (if eg_seal cfg \<noteq> None \<and> lv_pending_events l \<noteq> []
      then (Inl (ValueError ''cannot attest preexisting pending source events''), l)
      else case run_chart cfg entity command l of
          (Inl e, l) \<Rightarrow> (Inl e, l)
        | (Inr after, l) \<Rightarrow> (case save_entity_version cfg after u of
              Inl e \<Rightarrow> (Inl e, l)
            | Inr u \<Rightarrow>
                (let (emitted, l) = drain_events l
                 in if eg_seal cfg \<noteq> None \<and> (length emitted \<noteq> 1 \<or> ev_name (hd emitted) \<noteq> transition_event)
                    then (Inl (ValueError ''attested dispatch requires exactly one recorder-produced transition''), l)
                    else (case record_events cfg entity after command emitted u l of
                        (Inl e, l) \<Rightarrow> (Inl e, l)
                      | (Inr u, l) \<Rightarrow> (save_scenarios cfg l u, l)))))"

definition execute_command ::
  "('v, 'c) engine_config \<Rightarrow> 'v persistence \<Rightarrow> 'v command \<Rightarrow> 'v uow \<Rightarrow> ('v, 'c) live \<Rightarrow> 'v uow res \<times> ('v, 'c) live" where
  "execute_command cfg p command u l =
     (case load_entity cfg p (cm_entity_type command) (cm_entity_id command) u of
        Inl e \<Rightarrow> (Inl e, l)
      | Inr None \<Rightarrow> (Inl (KeyError (''entity not found: '' @ cm_entity_type command @ ''/'' @ cm_entity_id command)), l)
      | Inr (Some entity) \<Rightarrow> execute_on cfg command entity u l)"

section \<open>Transactions around live state\<close>

text \<open>
  \<open>with self.persistence.transaction(owner_id=...) as uow\<close>: the body sees the live state too, and what it
  did to the live state stays, whether or not the transaction succeeds.
\<close>

definition live_transaction ::
  "string \<Rightarrow> ('v persistence \<Rightarrow> 'v uow \<Rightarrow> ('v, 'c) live \<Rightarrow> ('a \<times> 'v uow) res \<times> ('v, 'c) live)
     \<Rightarrow> (('v, 'c) sim_world, 'a) meth" where
  "live_transaction owner_id body w =
     (let p = wd_persistence w; l = wd_live w
      in case transaction (Some owner_id) (\<lambda>u. fst (body p u l)) p of
           (r, p') \<Rightarrow> (r, \<lparr>wd_persistence = p',
             wd_live = (if read_only p \<or> owner_id = [] then l else snd (body p (new_uow (fork_state (pstate p))) l))\<rparr>))"

definition then_return :: "'a \<Rightarrow> 'v uow res \<times> 'l \<Rightarrow> ('a \<times> 'v uow) res \<times> 'l" where
  "then_return a r = (case r of (Inl e, l) \<Rightarrow> (Inl e, l) | (Inr u, l) \<Rightarrow> (Inr (a, u), l))"

definition dispatch :: "('v, 'c) engine_config \<Rightarrow> 'v command \<Rightarrow> (('v, 'c) sim_world, unit) meth" where
  "dispatch cfg command w =
     (if cm_owner_id command \<noteq> Some (eg_owner_id cfg)
      then (Inl (PermissionError ''command belongs to a different or missing owner''), w)
      else let scenario_before = snapshot_state (memory_of (wd_live w))
           in case live_transaction (eg_owner_id cfg) (\<lambda>p u l. then_return () (execute_command cfg p command u l)) w of
                (Inr _, w') \<Rightarrow> (Inr (), w')
              | (Inl e, w') \<Rightarrow> (Inl e, w'\<lparr>wd_live := set_memory (restore_state (Some scenario_before)) (wd_live w')\<rparr>))"

section \<open>Scheduled commands\<close>

definition check_item :: "('v, 'c) engine_config \<Rightarrow> 'v durable_scheduled_item \<Rightarrow> unit res" where
  "check_item cfg item = guards
     [(cm_owner_id (di_command item) \<noteq> Some (eg_owner_id cfg),
        PermissionError ''command belongs to a different or missing owner''),
      (sw_owner_id (di_work item) \<noteq> eg_owner_id cfg, PermissionError ''scheduled work belongs to a different owner''),
      (cm_command_id (di_command item) \<noteq> sw_command_id (di_work item), ValueError ''scheduled work does not match command''),
      (sw_due_at (di_work item) \<noteq> cm_due_at (di_command item),
        ValueError ''scheduled work due time does not match command'')] ()"

definition dispatch_scheduled_in_uow ::
  "('v, 'c) engine_config \<Rightarrow> 'v persistence \<Rightarrow> 'v durable_scheduled_item \<Rightarrow> 'v uow \<Rightarrow> ('v, 'c) live
     \<Rightarrow> (bool \<times> 'v uow) res \<times> ('v, 'c) live" where
  "dispatch_scheduled_in_uow cfg p item u l =
     (let command = di_command item; work = di_work item
      in case check_item cfg item of
           Inl e \<Rightarrow> (Inl e, l)
         | Inr _ \<Rightarrow>
             if get_scheduled_work (sw_work_id work) u \<noteq> Some work \<or> get_command (cm_command_id command) u \<noteq> Some command
             then (Inr (False, u), l)
             else if sw_due_at work < ck_now (lv_clock l)
             then (Inl (ValueError ''scheduled work cannot execute before current logical time''), l)
             else case execute_command cfg p command u (set_now (sw_due_at work) l) of
                 (Inl e, l) \<Rightarrow> (Inl e, l)
               | (Inr u, l) \<Rightarrow>
                   (bind_res (delete_scheduled_work (sw_work_id work) u) (\<lambda>u.
                    bind_res (delete_command (cm_command_id command) u) (\<lambda>u. Inr (True, u))), l))"

text \<open>The handler of \<open>except Exception\<close>: clock, pending events and scenarios as they were.\<close>

definition undo_live :: "('v, 'c) live \<Rightarrow> ('v, 'c) sim_world \<Rightarrow> ('v, 'c) sim_world" where
  "undo_live before w = w\<lparr>wd_live := set_memory (restore_state (Some (snapshot_state (memory_of before))))
     ((set_time (ck_now (lv_clock before)) (ck_tick (lv_clock before)) (wd_live w))
        \<lparr>lv_pending_events := lv_pending_events before\<rparr>)\<rparr>"

definition save_position ::
  "('v, 'c) engine_config \<Rightarrow> datetime \<Rightarrow> int \<Rightarrow> int \<Rightarrow> 'v uow \<Rightarrow> 'v uow res" where
  "save_position cfg logical_time next_sequence logical_tick u =
     bind_res (mk_simulation_position \<lparr>sp_logical_time = logical_time, sp_execution_sequence = next_sequence,
         sp_committed_sequence = next_sequence, sp_logical_tick = logical_tick\<rparr>)
       (\<lambda>position. set_simulation_position position (eg_owner_id cfg) u)"

definition scheduled_body ::
  "('v, 'c) engine_config \<Rightarrow> 'v durable_scheduled_item \<Rightarrow> 'v persistence \<Rightarrow> 'v uow \<Rightarrow> ('v, 'c) live
     \<Rightarrow> (bool \<times> 'v uow) res \<times> ('v, 'c) live" where
  "scheduled_body cfg item p u l =
     (case dispatch_scheduled_in_uow cfg p item u l of
        (Inl e, l) \<Rightarrow> (Inl e, l)
      | (Inr (False, u), l) \<Rightarrow> (Inr (False, u), l)
      | (Inr (True, u), l) \<Rightarrow>
          (bind_res (get_simulation_position (eg_owner_id cfg) u) (\<lambda>previous.
           bind_res (save_position cfg (ck_now (lv_clock l))
               (case previous of None \<Rightarrow> 1 | Some s \<Rightarrow> sp_execution_sequence s + 1) (ck_tick (lv_clock l)) u)
             (\<lambda>u. Inr (True, u))), l))"

definition dispatch_scheduled ::
  "('v, 'c) engine_config \<Rightarrow> 'v durable_scheduled_item \<Rightarrow> (('v, 'c) sim_world, bool) meth" where
  "dispatch_scheduled cfg item w =
     (if sw_owner_id (di_work item) \<noteq> eg_owner_id cfg
      then (Inl (PermissionError ''scheduled work belongs to a different owner''), w)
      else if cm_owner_id (di_command item) \<noteq> Some (eg_owner_id cfg)
      then (Inl (PermissionError ''command belongs to a different or missing owner''), w)
      else case live_transaction (eg_owner_id cfg) (scheduled_body cfg item) w of
          (Inr b, w') \<Rightarrow> (Inr b, w')
        | (Inl e, w') \<Rightarrow> (Inl e, undo_live (wd_live w) w'))"

section \<open>Ticks\<close>

text \<open>The loop over the due items; the result counts those that were executed.\<close>

fun execute_due ::
  "('v, 'c) engine_config \<Rightarrow> 'v persistence \<Rightarrow> 'v durable_scheduled_item list \<Rightarrow> int \<Rightarrow> 'v uow \<Rightarrow> ('v, 'c) live
     \<Rightarrow> (int \<times> 'v uow) res \<times> ('v, 'c) live" where
  "execute_due cfg p [] executed u l = (Inr (executed, u), l)"
| "execute_due cfg p (item # rest) executed u l =
     (case dispatch_scheduled_in_uow cfg p item u l of
        (Inl e, l) \<Rightarrow> (Inl e, l)
      | (Inr (b, u), l) \<Rightarrow> execute_due cfg p rest (if b then executed + 1 else executed) u l)"

text \<open>\<open>scheduler.due\<close> opens a transaction of its own on the committed state.\<close>

definition tick_body ::
  "('v, 'c) engine_config \<Rightarrow> datetime \<Rightarrow> int \<Rightarrow> simulation_position option \<Rightarrow> 'v persistence \<Rightarrow> 'v uow \<Rightarrow> ('v, 'c) live
     \<Rightarrow> (unit \<times> 'v uow) res \<times> ('v, 'c) live" where
  "tick_body cfg tick_end current_tick position_before p u l =
     (case bind_res (get_simulation_position (eg_owner_id cfg) u) (\<lambda>position.
         bind_res (guards [(position \<noteq> position_before,
           RuntimeError ''stale owner simulation position at tick admission'')] ()) (\<lambda>_.
         bind_res (save_scenarios cfg l u) (\<lambda>u.
         bind_res (fst (due (eg_owner_id cfg) tick_end p)) (\<lambda>items. Inr (items, u))))) of
        Inl e \<Rightarrow> (Inl e, l)
      | Inr (items, u) \<Rightarrow>
          (case execute_due cfg p items 0 u l of
             (Inl e, l) \<Rightarrow> (Inl e, l)
           | (Inr (executed, u), l) \<Rightarrow>
               (bind_res (set_committed_tick current_tick (eg_owner_id cfg) u) (\<lambda>u.
                bind_res (save_position cfg tick_end
                    ((case position_before of None \<Rightarrow> 0 | Some s \<Rightarrow> sp_execution_sequence s) + executed) (current_tick + 1) u)
                  (\<lambda>u. Inr ((), u))), l)))"

definition advance_tick :: "('v, 'c) engine_config \<Rightarrow> (('v, 'c) sim_world, unit) meth" where
  "advance_tick cfg w =
     (let before = wd_live w; clock = lv_clock before; current_tick = ck_tick clock
      in case bind_res (dt_add (ck_now clock) (ck_step clock)) (\<lambda>tick_end.
           bind_res (guards [(heap_len (lv_scheduler before) \<noteq> 0,
             RuntimeError ''unowned in-memory scheduling is not supported'')] ()) (\<lambda>_.
           bind_res (simulation_position_of (eg_owner_id cfg) (wd_persistence w)) (\<lambda>position_before.
             Inr (tick_end, position_before)))) of
           Inl e \<Rightarrow> (Inl e, w)
         | Inr (tick_end, position_before) \<Rightarrow>
             (case on_tick (eg_env cfg) (eg_context cfg) (ck_now clock) current_tick (lv_scenarios before) of
                (Inl e, s) \<Rightarrow> (Inl e, undo_live before (w\<lparr>wd_live := before\<lparr>lv_scenarios := s\<rparr>\<rparr>))
              | (Inr _, s) \<Rightarrow>
                  (case live_transaction (eg_owner_id cfg) (tick_body cfg tick_end current_tick position_before)
                          (w\<lparr>wd_live := before\<lparr>lv_scenarios := s\<rparr>\<rparr>) of
                     (Inl e, w') \<Rightarrow> (Inl e, undo_live before w')
                   | (Inr _, w') \<Rightarrow> (Inr (), w'\<lparr>wd_live := set_time tick_end (current_tick + 1) (wd_live w')\<rparr>))))"

section \<open>What an execution leaves alone\<close>

text \<open>A unit of work that took steps, none of them on commands, scheduled work or positions.\<close>

definition work_kept :: "'v uow \<Rightarrow> 'v uow \<Rightarrow> bool" where
  "work_kept u u' \<longleftrightarrow> uow_step\<^sup>*\<^sup>* u u' \<and> st_commands (working u') = st_commands (working u) \<and>
     st_scheduled_work (working u') = st_scheduled_work (working u) \<and>
     st_simulation_positions (working u') = st_simulation_positions (working u)"

lemma work_kept_refl [simp]: "work_kept u u"
  by (simp add: work_kept_def)

lemma work_kept_trans: "work_kept u v \<Longrightarrow> work_kept v w \<Longrightarrow> work_kept u w"
  by (auto simp: work_kept_def)

lemma work_kept_mutators:
  "save_entity e u = Inr u' \<Longrightarrow> work_kept u u'"
  "save_domain_delivery d u = Inr u' \<Longrightarrow> work_kept u u'"
  "append_event ev u = Inr u' \<Longrightarrow> work_kept u u'"
  "set_scenario_state s ow u = Inr u' \<Longrightarrow> work_kept u u'"
proof -
  show "save_entity e u = Inr u' \<Longrightarrow> work_kept u u'"
    by (frule save_entity_step) (auto simp: work_kept_def save_entity_def mark_dirty_def)
  show "save_domain_delivery d u = Inr u' \<Longrightarrow> work_kept u u'"
    by (frule save_domain_delivery_step) (auto simp: work_kept_def save_domain_delivery_def mark_dirty_def)
  show "append_event ev u = Inr u' \<Longrightarrow> work_kept u u'"
    by (frule append_event_step) (auto simp: work_kept_def append_event_def mark_dirty_def)
  show "set_scenario_state s ow u = Inr u' \<Longrightarrow> work_kept u u'"
    by (frule set_scenario_state_step) (auto simp: work_kept_def set_scenario_state_def mark_dirty_def)
qed

lemma save_entity_version_kept: "save_entity_version cfg e u = Inr u' \<Longrightarrow> work_kept u u'"
  by (auto simp: save_entity_version_def split: option.splits if_splits intro: work_kept_mutators)

lemma append_sealed_kept: "append_sealed cfg a b c ev u = Inr u' \<Longrightarrow> work_kept u u'"
  by (auto simp: append_sealed_def split: option.splits if_splits dest!: work_kept_mutators(3) intro: work_kept_trans)

lemma record_events_kept: "record_events cfg a b c evs u l = (Inr u', l') \<Longrightarrow> work_kept u u'"
  by (induction evs arbitrary: u l)
    (auto split: sum.splits prod.splits intro: work_kept_trans dest!: append_sealed_kept)

lemma execute_on_kept: "execute_on cfg c e u l = (Inr u', l') \<Longrightarrow> work_kept u u'"
  by (auto simp: execute_on_def drain_events_def save_scenarios_def split: if_splits sum.splits prod.splits
      dest!: save_entity_version_kept record_events_kept work_kept_mutators(4) intro: work_kept_trans)

lemma execute_command_kept: "execute_command cfg p c u l = (Inr u', l') \<Longrightarrow> work_kept u u'"
  by (auto simp: execute_command_def split: sum.splits option.splits dest: execute_on_kept)

text \<open>Live state that changed at most in the time, the pending events and the scenario memory.\<close>

definition live_frame :: "('v, 'c) live \<Rightarrow> ('v, 'c) live \<Rightarrow> bool" where
  "live_frame l l' \<longleftrightarrow> (\<exists>t es m. l' = (set_memory m (set_now t l))\<lparr>lv_pending_events := es\<rparr>) \<and>
     (memory_keyed (memory_of l) \<longrightarrow> memory_keyed (memory_of l'))"

lemma live_frameI:
  assumes "l' = (set_memory m (set_now t l))\<lparr>lv_pending_events := es\<rparr>" and "memory_keyed (memory_of l) \<Longrightarrow> memory_keyed m"
  shows "live_frame l l'"
  using assms unfolding live_frame_def by (auto simp: set_memory_def)

lemma live_frame_refl [simp]: "live_frame l l"
  by (rule live_frameI [where m = "memory_of l" and t = "ck_now (lv_clock l)" and es = "lv_pending_events l"])
    (simp_all add: set_memory_def set_now_def)

lemma live_frame_trans: "live_frame l m \<Longrightarrow> live_frame m n \<Longrightarrow> live_frame l n"
proof -
  assume a: "live_frame l m" "live_frame m n"
  then obtain t es x t' es' y where "m = (set_memory x (set_now t l))\<lparr>lv_pending_events := es\<rparr>"
    "n = (set_memory y (set_now t' m))\<lparr>lv_pending_events := es'\<rparr>" unfolding live_frame_def by blast
  then have "n = (set_memory y (set_now t' l))\<lparr>lv_pending_events := es'\<rparr>" by (simp add: set_memory_def set_now_def)
  with a show ?thesis unfolding live_frame_def by blast
qed

lemma evaluate_keyed:
  assumes "evaluate env c signal e = (r, e')"
  shows "se_scenarios e' = se_scenarios e" and "memory_keyed (se_memory e) \<Longrightarrow> memory_keyed (se_memory e')"
proof -
  obtain m where run: "evaluate_all env c signal (scenario_order e) (snd (expire_due (sg_now signal) (se_memory e))) = (r, m)"
    and e': "e' = e\<lparr>se_memory := m\<rparr>"
    using assms by (auto simp: evaluate_def split: prod.splits)
  show "se_scenarios e' = se_scenarios e" by (simp add: e')
  show "memory_keyed (se_memory e')" if k: "memory_keyed (se_memory e)"
    unfolding e' using k
    by (simp, intro evaluate_all_invariant [OF run, where P = memory_keyed] expire_due_keyed)
      (auto simp: memory_keyed_def elim!: memory_stepE)
qed

lemma live_frame_scenarios:
  assumes "evaluate env c signal (lv_scenarios l) = (r, s)"
  shows "live_frame l (l\<lparr>lv_scenarios := s\<rparr>)"
  by (rule live_frameI [where m = "se_memory s" and t = "ck_now (lv_clock l)" and es = "lv_pending_events l"])
    (use evaluate_keyed [OF assms] in \<open>simp_all add: set_memory_def set_now_def\<close>)

lemma live_frame_pending: "live_frame l (l\<lparr>lv_pending_events := es\<rparr>)"
  by (rule live_frameI [where m = "memory_of l" and t = "ck_now (lv_clock l)" and es = es]) (simp_all add: set_memory_def set_now_def)

lemma live_frame_now: "live_frame l (set_now t l)"
  by (rule live_frameI [where m = "memory_of l" and t = t and es = "lv_pending_events l"]) (simp_all add: set_memory_def set_now_def)

lemma fold_emit: "fold emit es l = l\<lparr>lv_pending_events := lv_pending_events l @ es\<rparr>"
  by (induction es arbitrary: l) (auto simp: emit_def)

lemma run_chart_live: "run_chart cfg e c l = (r, l') \<Longrightarrow> \<exists>es. l' = l\<lparr>lv_pending_events := lv_pending_events l @ es\<rparr>"
  by (auto simp: run_chart_def fold_emit split: if_splits prod.splits)
    (metis append_Nil2 live.surjective live.update_convs(2))+

lemma record_events_live:
  "record_events cfg a b c evs u l = (r, l') \<Longrightarrow>
     live_frame l l' \<and> lv_clock l' = lv_clock l \<and> lv_pending_events l' = lv_pending_events l"
proof (induction evs arbitrary: u l)
  case (Cons ev evs)
  show ?case
  proof (cases "append_sealed cfg a b c ev u")
    case (Inl e)
    with Cons.prems show ?thesis by simp
  next
    case (Inr v)
    obtain q s where q: "on_event (eg_env cfg) (eg_context cfg) (ck_now (lv_clock l)) (ck_tick (lv_clock l)) ev (lv_scenarios l) = (q, s)"
      by (cases "on_event (eg_env cfg) (eg_context cfg) (ck_now (lv_clock l)) (ck_tick (lv_clock l)) ev (lv_scenarios l)")
    have f: "live_frame l (l\<lparr>lv_scenarios := s\<rparr>)" using q by (auto simp: on_event_def intro: live_frame_scenarios)
    show ?thesis
    proof (cases q)
      case (Inl e)
      with Cons.prems q Inr f show ?thesis by auto
    next
      case (Inr ds)
      with Cons.prems q \<open>append_sealed cfg a b c ev u = Inr v\<close>
      have "record_events cfg a b c evs v (l\<lparr>lv_scenarios := s\<rparr>) = (r, l')" by simp
      from Cons.IH [OF this] f show ?thesis by (auto intro: live_frame_trans)
    qed
  qed
qed simp

lemma execute_on_live:
  assumes "execute_on cfg c e u l = (r, l')"
  shows "live_frame l l' \<and> lv_clock l' = lv_clock l \<and> ((\<exists>u'. r = Inr u') \<longrightarrow> lv_pending_events l' = [])"
proof -
  obtain q l1 where q: "run_chart cfg e c l = (q, l1)" by (cases "run_chart cfg e c l")
  then obtain es where l1: "l1 = l\<lparr>lv_pending_events := es\<rparr>" using run_chart_live by blast
  have f1: "live_frame l l1" "live_frame l (l1\<lparr>lv_pending_events := []\<rparr>)" "lv_clock l1 = lv_clock l"
    by (simp_all add: l1 live_frame_pending)
  show ?thesis
    using assms q f1
    by (auto simp: execute_on_def drain_events_def split: if_splits sum.splits prod.splits
        dest!: record_events_live intro: live_frame_trans)
qed

lemma execute_command_live:
  "execute_command cfg p c u l = (r, l') \<Longrightarrow>
     live_frame l l' \<and> lv_clock l' = lv_clock l \<and> ((\<exists>u'. r = Inr u') \<longrightarrow> lv_pending_events l' = [])"
  by (auto simp: execute_command_def split: sum.splits option.splits dest!: execute_on_live)

section \<open>One scheduled item\<close>

text \<open>The item's own records, as the unit of work has them.\<close>

definition item_present :: "('v, 'c) engine_config \<Rightarrow> 'v state \<Rightarrow> 'v durable_scheduled_item \<Rightarrow> bool" where
  "item_present cfg s i \<longleftrightarrow> map_of (st_scheduled_work s) (sw_work_id (di_work i)) = Some (di_work i) \<and>
     map_of (st_commands s) (cm_command_id (di_command i)) = Some (di_command i) \<and> check_item cfg i = Inr ()"

text \<open>A unit of work that took steps and consumed exactly one item.\<close>

definition consumed :: "'v durable_scheduled_item \<Rightarrow> 'v uow \<Rightarrow> 'v uow \<Rightarrow> bool" where
  "consumed i u u' \<longleftrightarrow> uow_step\<^sup>*\<^sup>* u u' \<and>
     st_scheduled_work (working u') = dpop (sw_work_id (di_work i)) (st_scheduled_work (working u)) \<and>
     st_commands (working u') = dpop (cm_command_id (di_command i)) (st_commands (working u)) \<and>
     st_simulation_positions (working u') = st_simulation_positions (working u)"

lemma dispatch_in_uow_effect:
  assumes "dispatch_scheduled_in_uow cfg p i u l = (Inr (b, u'), l')"
  shows "check_item cfg i = Inr () \<and>
    (if b then item_present cfg (working u) i \<and> consumed i u u' \<and> ck_now (lv_clock l) \<le> sw_due_at (di_work i) \<and>
       lv_clock l' = (lv_clock l)\<lparr>ck_now := sw_due_at (di_work i)\<rparr> \<and> lv_pending_events l' = []
     else u' = u \<and> l' = l \<and> \<not> item_present cfg (working u) i)"
proof (cases "check_item cfg i")
  case (Inl e)
  with assms show ?thesis by (simp add: dispatch_scheduled_in_uow_def)
next
  case (Inr x)
  show ?thesis
  proof (cases "item_present cfg (working u) i")
    case False
    with assms Inr show ?thesis
      by (auto simp: dispatch_scheduled_in_uow_def item_present_def get_scheduled_work_def get_command_def)
  next
    case True
    then have present: "get_scheduled_work (sw_work_id (di_work i)) u = Some (di_work i)"
      "get_command (cm_command_id (di_command i)) u = Some (di_command i)"
      by (simp_all add: item_present_def get_scheduled_work_def get_command_def)
    with assms Inr have now: "ck_now (lv_clock l) \<le> sw_due_at (di_work i)"
      by (auto simp: dispatch_scheduled_in_uow_def Let_def split: if_splits)
    from assms Inr present now obtain v where run: "execute_command cfg p (di_command i) u (set_now (sw_due_at (di_work i)) l) = (Inr v, l')"
      and del: "b" "bind_res (delete_scheduled_work (sw_work_id (di_work i)) v) (delete_command (cm_command_id (di_command i))) = Inr u'"
      by (auto simp: dispatch_scheduled_in_uow_def Let_def split: sum.splits prod.splits)
    from del(2) obtain x where x: "delete_scheduled_work (sw_work_id (di_work i)) v = Inr x"
      "delete_command (cm_command_id (di_command i)) x = Inr u'" by auto
    have kept: "work_kept u v" by (rule execute_command_kept [OF run])
    have "uow_step\<^sup>*\<^sup>* v u'"
      using delete_scheduled_work_step [OF x(1)] delete_command_step [OF x(2)] by (meson rtranclp.simps)
    then have "consumed i u u'"
      using kept x by (auto simp: consumed_def work_kept_def delete_scheduled_work_def delete_command_def mark_dirty_def)
    with execute_command_live [OF run] True now del(1) Inr show ?thesis by (auto simp: set_now_def)
  qed
qed

lemma dispatch_in_uow_frame: "dispatch_scheduled_in_uow cfg p i u l = (r, l') \<Longrightarrow> live_frame l l'"
  by (auto simp: dispatch_scheduled_in_uow_def Let_def split: sum.splits if_splits prod.splits dest!: execute_command_live
      intro: live_frame_now live_frame_trans)

lemma dispatch_absent:
  assumes "check_item cfg i = Inr ()" and "\<not> item_present cfg (working u) i"
  shows "dispatch_scheduled_in_uow cfg p i u l = (Inr (False, u), l)"
  using assms by (auto simp: dispatch_scheduled_in_uow_def item_present_def get_scheduled_work_def get_command_def)

lemma consumed_absent: "consumed i u u' \<Longrightarrow> \<not> item_present cfg (working u') i"
  by (simp add: consumed_def item_present_def)

section \<open>Bodies\<close>

lemma execute_due_frame: "execute_due cfg p is n u l = (r, l') \<Longrightarrow> live_frame l l'"
  by (induction "is" arbitrary: n u l)
    (auto split: sum.splits prod.splits if_splits dest!: dispatch_in_uow_frame intro: live_frame_trans)

lemma scheduled_body_frame: "scheduled_body cfg i p u l = (r, l') \<Longrightarrow> live_frame l l'"
  by (auto simp: scheduled_body_def split: sum.splits prod.splits bool.splits dest!: dispatch_in_uow_frame)

lemma tick_body_frame: "tick_body cfg te ct pos p u l = (r, l') \<Longrightarrow> live_frame l l'"
  by (auto simp: tick_body_def split: sum.splits prod.splits dest!: execute_due_frame)

lemma save_position_effect:
  assumes "save_position cfg t n k u = Inr u'"
  shows "uow_step u u' \<and> \<not> blank (eg_owner_id cfg) \<and> 0 \<le> n \<and> 0 \<le> k \<and>
    working u' = (working u)\<lparr>st_simulation_positions := dset (eg_owner_id cfg)
      \<lparr>sp_logical_time = t, sp_execution_sequence = n, sp_committed_sequence = n, sp_logical_tick = k\<rparr>
      (st_simulation_positions (working u))\<rparr>"
proof -
  from assms have set: "set_simulation_position \<lparr>sp_logical_time = t, sp_execution_sequence = n, sp_committed_sequence = n,
      sp_logical_tick = k\<rparr> (eg_owner_id cfg) u = Inr u'" and "0 \<le> n" "0 \<le> k"
    by (auto simp: save_position_def mk_simulation_position_def)
  from set_simulation_position_step [OF set] set this(2,3) show ?thesis
    by (auto simp: set_simulation_position_def mark_dirty_def)
qed

lemma scheduled_body_effect:
  assumes "scheduled_body cfg i p u l = (Inr (b, u'), l')"
  shows "check_item cfg i = Inr () \<and>
    (if b then item_present cfg (working u) i \<and> uow_step\<^sup>*\<^sup>* u u' \<and>
       st_scheduled_work (working u') = dpop (sw_work_id (di_work i)) (st_scheduled_work (working u)) \<and>
       st_commands (working u') = dpop (cm_command_id (di_command i)) (st_commands (working u)) \<and>
       lv_clock l' = (lv_clock l)\<lparr>ck_now := sw_due_at (di_work i)\<rparr> \<and> lv_pending_events l' = [] \<and>
       map_of (st_simulation_positions (working u')) (eg_owner_id cfg) = Some
         \<lparr>sp_logical_time = sw_due_at (di_work i),
          sp_execution_sequence = (case map_of (st_simulation_positions (working u)) (eg_owner_id cfg) of
             None \<Rightarrow> 1 | Some s \<Rightarrow> sp_execution_sequence s + 1),
          sp_committed_sequence = (case map_of (st_simulation_positions (working u)) (eg_owner_id cfg) of
             None \<Rightarrow> 1 | Some s \<Rightarrow> sp_execution_sequence s + 1),
          sp_logical_tick = ck_tick (lv_clock l)\<rparr>
     else u' = u \<and> l' = l \<and> \<not> item_present cfg (working u) i)"
proof -
  obtain c v m where run: "dispatch_scheduled_in_uow cfg p i u l = (Inr (c, v), m)"
    using assms by (cases "dispatch_scheduled_in_uow cfg p i u l") (auto simp: scheduled_body_def split: sum.splits)
  note eff = dispatch_in_uow_effect [OF run]
  show ?thesis
  proof (cases c)
    case False
    with assms run eff show ?thesis by (auto simp: scheduled_body_def)
  next
    case True
    with eff have eff: "check_item cfg i = Inr ()" "item_present cfg (working u) i" "consumed i u v"
      "lv_clock m = (lv_clock l)\<lparr>ck_now := sw_due_at (di_work i)\<rparr>" "lv_pending_events m = []" by simp_all
    let ?pos = "map_of (st_simulation_positions (working u)) (eg_owner_id cfg)"
    have pos: "b \<and> l' = m \<and> save_position cfg (sw_due_at (di_work i)) (case ?pos of None \<Rightarrow> 1 | Some s \<Rightarrow> sp_execution_sequence s + 1)
        (ck_tick (lv_clock l)) v = Inr u'"
      using assms run True eff(3,4)
      by (auto simp: scheduled_body_def get_simulation_position_def consumed_def bind_res_eq_Inr_iff)
    note saved = save_position_effect [OF pos [THEN conjunct2, THEN conjunct2]]
    have "uow_step\<^sup>*\<^sup>* u u'" using eff(3) saved by (auto simp: consumed_def)
    with pos saved eff show ?thesis by (auto simp: consumed_def)
  qed
qed

section \<open>Due items\<close>

definition items_ready :: "('v, 'c) engine_config \<Rightarrow> 'v state \<Rightarrow> 'v durable_scheduled_item list \<Rightarrow> bool" where
  "items_ready cfg s items \<longleftrightarrow> distinct (map (sw_work_id \<circ> di_work) items) \<and> (\<forall>i \<in> set items. item_present cfg s i)"

lemma check_itemD:
  "check_item cfg i = Inr () \<Longrightarrow> cm_command_id (di_command i) = sw_command_id (di_work i) \<and>
     sw_owner_id (di_work i) = eg_owner_id cfg \<and> cm_owner_id (di_command i) = Some (eg_owner_id cfg) \<and>
     sw_due_at (di_work i) = cm_due_at (di_command i)"
  by (simp add: check_item_def)

lemma consumed_work_ok:
  assumes "consumed i u u'" and "item_present cfg (working u) i" and "work_ok (working u)"
  shows "work_ok (working u')"
  using assms check_itemD [of cfg i]
  by (intro work_ok_remove [OF assms(3), of "sw_work_id (di_work i)" "di_work i"]) (simp_all add: consumed_def item_present_def)

lemma consumed_items_ready:
  assumes "consumed i u u'" and "items_ready cfg (working u) (i # items)" and ok: "work_ok (working u)"
  shows "items_ready cfg (working u') items"
proof -
  have "item_present cfg (working u') j" if j: "j \<in> set items" for j
  proof -
    have pres: "item_present cfg (working u) i" "item_present cfg (working u) j" and ne: "sw_work_id (di_work j) \<noteq> sw_work_id (di_work i)"
      using assms(2) j by (auto simp: items_ready_def) (metis imageI)
    then have "sw_command_id (di_work j) \<noteq> sw_command_id (di_work i)"
      using ok unfolding work_ok_def item_present_def by blast
    then have "cm_command_id (di_command j) \<noteq> cm_command_id (di_command i)"
      using pres check_itemD unfolding item_present_def by metis
    with pres ne assms(1) show ?thesis by (simp add: item_present_def consumed_def)
  qed
  with assms(2) show ?thesis by (simp add: items_ready_def)
qed

lemma execute_due_effect:
  assumes "execute_due cfg p items n u l = (Inr (k, u'), l')" and "items_ready cfg (working u) items" and "work_ok (working u)"
  shows "k = n + int (length items) \<and> uow_step\<^sup>*\<^sup>* u u' \<and> work_ok (working u') \<and>
    st_simulation_positions (working u') = st_simulation_positions (working u) \<and>
    st_scheduled_work (working u') = fold (\<lambda>i d. dpop (sw_work_id (di_work i)) d) items (st_scheduled_work (working u)) \<and>
    st_commands (working u') = fold (\<lambda>i d. dpop (cm_command_id (di_command i)) d) items (st_commands (working u))"
  using assms
proof (induction items arbitrary: n u l)
  case (Cons i items)
  obtain b v m where run: "dispatch_scheduled_in_uow cfg p i u l = (Inr (b, v), m)"
    using Cons.prems(1) by (cases "dispatch_scheduled_in_uow cfg p i u l") (auto split: sum.splits)
  have pres: "item_present cfg (working u) i" using Cons.prems(2) by (simp add: items_ready_def)
  with dispatch_in_uow_effect [OF run] have b: "b" and v: "consumed i u v" by (auto split: if_splits)
  have rest: "execute_due cfg p items (n + 1) v m = (Inr (k, u'), l')" using Cons.prems(1) run b by simp
  note IH = Cons.IH [OF rest consumed_items_ready [OF v Cons.prems(2,3)] consumed_work_ok [OF v pres Cons.prems(3)]]
  have "uow_step\<^sup>*\<^sup>* u u'" using v IH by (auto simp: consumed_def)
  with IH v show ?case by (simp add: consumed_def)
qed simp

lemma due_items:
  assumes inv: "schedule_inv p" and "eg_owner_id cfg \<noteq> []"
  shows "\<exists>items. due (eg_owner_id cfg) t p = (Inr items, p) \<and> items_ready cfg (pstate p) items \<and>
    map di_work items = filter (\<lambda>w. sw_owner_id w = eg_owner_id cfg \<and> sw_due_at w \<le> t) (scheduled_work_of p)"
proof -
  let ?works = "filter (\<lambda>w. sw_owner_id w = eg_owner_id cfg \<and> sw_due_at w \<le> t) (scheduled_work_of p)"
  let ?items = "map (item_of (pstate p)) ?works"
  have "due (eg_owner_id cfg) t p = (Inr ?items, p)"
    using pending_ok [OF inv assms(2)]
    by (simp add: due_def bind_m_def return_m_def filter_map comp_def item_of_def conj_commute)
  moreover have work: "map di_work ?items = ?works" by (simp add: item_of_def comp_def)
  moreover have "items_ready cfg (pstate p) ?items"
  proof -
    have key: "keyed sw_work_id (st_scheduled_work (pstate p))"
      using inv by (simp add: schedule_inv_def schedule_keys)
    then have "distinct (map sw_work_id (scheduled_work_of p))"
      by (rule keyed_distinct_view) (simp add: scheduled_work_of_def)
    then have "distinct (map sw_work_id ?works)" by (simp add: distinct_map_filter)
    then have "distinct (map (sw_work_id \<circ> di_work) ?items)" by (simp add: item_of_def comp_def)
    moreover have "item_present cfg (pstate p) i" if "i \<in> set ?items" for i
    proof -
      from that obtain w where w: "i = item_of (pstate p) w" "w \<in> set (scheduled_work_of p)" "sw_owner_id w = eg_owner_id cfg"
        by auto
      from work_member [OF inv w(2)] w show ?thesis
        by (auto simp: item_present_def item_of_def check_item_def)
    qed
    ultimately show ?thesis by (simp add: items_ready_def)
  qed
  ultimately show ?thesis by blast
qed

section \<open>Runs\<close>

lemma live_transaction_cases:
  assumes "live_transaction ow body w = (r, w')"
  obtains e where "r = Inl e" and "wd_persistence w' = wd_persistence w"
      and "wd_live w' = wd_live w \<or> (\<exists>u q. body (wd_persistence w) u (wd_live w) = (q, wd_live w'))"
  | a u where "r = Inr a" and "body (wd_persistence w) (new_uow (pstate (wd_persistence w))) (wd_live w) = (Inr (a, u), wd_live w')"
      and "settled_disjoint (working u)" and "wd_persistence w' = (wd_persistence w)\<lparr>pstate := working u\<rparr>"
      and "\<not> read_only (wd_persistence w)" and "ow \<noteq> []"
proof -
  let ?p = "wd_persistence w" and ?l = "wd_live w"
  obtain p' where tx: "transaction (Some ow) (\<lambda>u. fst (body ?p u ?l)) ?p = (r, p')"
    and w': "w' = \<lparr>wd_persistence = p', wd_live = (if read_only ?p \<or> ow = [] then ?l else snd (body ?p (new_uow (fork_state (pstate ?p))) ?l))\<rparr>"
    using assms by (auto simp: live_transaction_def Let_def split: prod.splits)
  show thesis
    using tx
  proof (cases rule: transaction_cases)
    case (1 e)
    have "wd_live w' = ?l \<or> (\<exists>u q. body ?p u ?l = (q, wd_live w'))"
      unfolding w' by (cases "read_only ?p \<or> ow = []") (auto intro: prod.collapse [symmetric])
    with 1 that(1) [of e] show ?thesis by (simp add: w')
  next
    case (2 a u)
    have "body ?p (new_uow (pstate ?p)) ?l = (Inr (a, u), wd_live w')"
      using 2 by (simp add: w' fork_state_def) (metis prod.collapse)
    with 2 that(2) [of a u] show ?thesis by (simp add: w' commit_Inr_iff settled_disjoint_def)
  qed
qed

lemma committed_schedule_inv:
  assumes "schedule_inv p" and "uow_step\<^sup>*\<^sup>* (new_uow (pstate p)) u" and "settled_disjoint (working u)" and "work_ok (working u)"
  shows "schedule_inv (p\<lparr>pstate := working u\<rparr>)"
  using assms state_wf_steps [OF assms(2)] by (simp add: schedule_inv_def new_uow_def)

lemma work_ok_cong:
  "st_scheduled_work s' = st_scheduled_work s \<Longrightarrow> st_commands s' = st_commands s \<Longrightarrow> work_ok s' \<longleftrightarrow> work_ok s"
  by (simp add: work_ok_def)

lemma work_kept_ok: "work_kept u u' \<Longrightarrow> work_ok (working u) \<Longrightarrow> work_ok (working u')"
  by (simp add: work_kept_def work_ok_def)

definition world_inv :: "('v, 'c) sim_world \<Rightarrow> bool" where
  "world_inv w \<longleftrightarrow> schedule_inv (wd_persistence w) \<and> memory_keyed (memory_of (wd_live w))"

text \<open>The effect of a successful tick.\<close>

lemma tick_body_effect:
  assumes "tick_body cfg te ct pos p (new_uow (pstate p)) l = (Inr ((), u), l')" and inv: "schedule_inv p"
    and owner: "eg_owner_id cfg \<noteq> []"
  shows "\<exists>items. due (eg_owner_id cfg) te p = (Inr items, p) \<and>
    map di_work items = filter (\<lambda>w. sw_owner_id w = eg_owner_id cfg \<and> sw_due_at w \<le> te) (scheduled_work_of p) \<and>
    uow_step\<^sup>*\<^sup>* (new_uow (pstate p)) u \<and> work_ok (working u) \<and> \<not> blank (eg_owner_id cfg) \<and> pos = map_of (st_simulation_positions (pstate p)) (eg_owner_id cfg) \<and>
    st_scheduled_work (working u) = fold (\<lambda>i d. dpop (sw_work_id (di_work i)) d) items (st_scheduled_work (pstate p)) \<and>
    st_commands (working u) = fold (\<lambda>i d. dpop (cm_command_id (di_command i)) d) items (st_commands (pstate p)) \<and>
    map_of (st_committed_ticks (working u)) (eg_owner_id cfg) = Some ct \<and>
    map_of (st_simulation_positions (working u)) (eg_owner_id cfg) = Some
      \<lparr>sp_logical_time = te,
       sp_execution_sequence = (case pos of None \<Rightarrow> 0 | Some s \<Rightarrow> sp_execution_sequence s) + int (length items),
       sp_committed_sequence = (case pos of None \<Rightarrow> 0 | Some s \<Rightarrow> sp_execution_sequence s) + int (length items),
       sp_logical_tick = ct + 1\<rparr>"
proof -
  let ?u = "new_uow (pstate p)"
  obtain items where due: "due (eg_owner_id cfg) te p = (Inr items, p)" "items_ready cfg (pstate p) items"
    "map di_work items = filter (\<lambda>w. sw_owner_id w = eg_owner_id cfg \<and> sw_due_at w \<le> te) (scheduled_work_of p)"
    using due_items [OF inv owner] by blast
  obtain v k x m y where sc: "save_scenarios cfg l ?u = Inr v"
    and pos: "pos = map_of (st_simulation_positions (pstate p)) (eg_owner_id cfg)"
    and run: "execute_due cfg p items 0 v l = (Inr (k, x), m)"
    and tick: "set_committed_tick ct (eg_owner_id cfg) x = Inr y"
    and save: "save_position cfg te ((case pos of None \<Rightarrow> 0 | Some s \<Rightarrow> sp_execution_sequence s) + k) (ct + 1) y = Inr u"
    using assms(1) due(1)
    by (auto simp: tick_body_def get_simulation_position_def new_uow_def bind_res_eq_Inr_iff split: sum.splits prod.splits)
  have kept: "work_kept ?u v" using sc by (auto simp: save_scenarios_def intro: work_kept_mutators(4))
  then have v: "items_ready cfg (working v) items" "work_ok (working v)"
    using due(2) inv by (simp_all add: work_kept_def new_uow_def items_ready_def item_present_def schedule_inv_def work_ok_def)
  note ex = execute_due_effect [OF run v]
  have y: "uow_step x y" "working y = (working x)\<lparr>st_committed_ticks := dset (eg_owner_id cfg) ct (st_committed_ticks (working x))\<rparr>"
    using set_committed_tick_step [OF tick] tick by (auto simp: set_committed_tick_def mark_dirty_def)
  note pu = save_position_effect [OF save]
  have "uow_step\<^sup>*\<^sup>* ?u u" using kept ex y(1) pu by (auto simp: work_kept_def)
  moreover have "work_ok (working u)"
    by (rule iffD2 [OF work_ok_cong [of _ "working x"]]) (use ex y(2) pu in simp_all)
  ultimately show ?thesis
    using due pos ex y(2) pu kept by (intro exI [of _ items]) (simp add: work_kept_def new_uow_def)
qed

definition new_world :: "simulation_clock \<Rightarrow> (string \<times> ('v, 'c) scenario) list \<Rightarrow> ('v, 'c) sim_world" where
  "new_world clock scenarios = \<lparr>wd_persistence = new_persistence,
     wd_live = \<lparr>lv_clock = clock, lv_pending_events = [], lv_scenarios = \<lparr>se_scenarios = scenarios, se_memory = empty_memory\<rparr>,
       lv_scheduler = new_heap_scheduler\<rparr>\<rparr>"

text \<open>
  A run of the engine: it dispatches commands and scheduled items and advances ticks, any of which may
  raise; in between, work is scheduled or cancelled and other components commit transactions that
  leave commands and scheduled work alone.
\<close>

inductive engine_step :: "digest \<Rightarrow> ('v, 'c) engine_config \<Rightarrow> ('v, 'c) sim_world \<Rightarrow> ('v, 'c) sim_world \<Rightarrow> bool" for uuid5 cfg where
  estep_durable: "schedule_step uuid5 (wd_persistence w) p' \<Longrightarrow> engine_step uuid5 cfg w (w\<lparr>wd_persistence := p'\<rparr>)"
| estep_dispatch: "dispatch cfg c w = (r, w') \<Longrightarrow> engine_step uuid5 cfg w w'"
| estep_scheduled: "dispatch_scheduled cfg i w = (r', w') \<Longrightarrow> engine_step uuid5 cfg w w'"
| estep_tick: "advance_tick cfg w = (r'', w') \<Longrightarrow> engine_step uuid5 cfg w w'"

lemma live_frame_keyed: "live_frame l l' \<Longrightarrow> memory_keyed (memory_of l) \<Longrightarrow> memory_keyed (memory_of l')"
  by (simp add: live_frame_def)

lemma undone:
  assumes "live_frame (wd_live w) (wd_live w')" and "memory_keyed (memory_of (wd_live w))"
  shows "undo_live (wd_live w) w' = w'\<lparr>wd_live := (wd_live w)\<lparr>lv_scenarios :=
      (lv_scenarios (wd_live w))\<lparr>se_memory := restore_state (Some (snapshot_state (memory_of (wd_live w))))\<rparr>\<rparr>\<rparr>"
  using assms by (auto simp: live_frame_def undo_live_def set_memory_def set_time_def set_now_def)

text \<open>Everything a caller can see of two worlds is the same: only the order inside the memory may differ.\<close>

definition same_world :: "('v, 'c) sim_world \<Rightarrow> ('v, 'c) sim_world \<Rightarrow> bool" where
  "same_world w w' \<longleftrightarrow> wd_persistence w' = wd_persistence w \<and> lv_clock (wd_live w') = lv_clock (wd_live w) \<and>
     lv_pending_events (wd_live w') = lv_pending_events (wd_live w) \<and> lv_scheduler (wd_live w') = lv_scheduler (wd_live w) \<and>
     se_scenarios (lv_scenarios (wd_live w')) = se_scenarios (lv_scenarios (wd_live w)) \<and>
     map_of (sm_decisions (memory_of (wd_live w'))) = map_of (sm_decisions (memory_of (wd_live w))) \<and>
     map_of (sm_activations (memory_of (wd_live w'))) = map_of (sm_activations (memory_of (wd_live w))) \<and>
     snapshot_state (memory_of (wd_live w')) = snapshot_state (memory_of (wd_live w)) \<and>
     memory_keyed (memory_of (wd_live w'))"

lemma same_world_refl: "memory_keyed (memory_of (wd_live w)) \<Longrightarrow> same_world w w"
  by (simp add: same_world_def)

lemma undone_same:
  assumes "live_frame (wd_live w) (wd_live w')" and "memory_keyed (memory_of (wd_live w))" and "wd_persistence w' = wd_persistence w"
  shows "same_world w (undo_live (wd_live w) w')"
  using restored_lookups [OF assms(2)] restored_snapshot [OF assms(2)] assms(3)
  by (simp add: undone [OF assms(1,2)] same_world_def restored_keyed)

lemma live_transaction_error:
  assumes "live_transaction ow body w = (Inl e, w')" and "\<And>u q l'. body (wd_persistence w) u (wd_live w) = (q, l') \<Longrightarrow> live_frame (wd_live w) l'"
  shows "wd_persistence w' = wd_persistence w \<and> live_frame (wd_live w) (wd_live w')"
  using assms(1)
proof (cases rule: live_transaction_cases)
  case (1 e)
  then show ?thesis using assms(2) by (auto simp: live_frame_refl)
qed simp

lemma dispatch_scheduled_error:
  assumes "dispatch_scheduled cfg i w = (Inl e, w')" and "memory_keyed (memory_of (wd_live w))"
  shows "same_world w w'"
proof (cases "w' = w")
  case False
  with assms(1) obtain w1 where tx: "live_transaction (eg_owner_id cfg) (scheduled_body cfg i) w = (Inl e, w1)"
    and w': "w' = undo_live (wd_live w) w1"
    by (auto simp: dispatch_scheduled_def split: if_splits sum.splits prod.splits)
  from live_transaction_error [OF tx] scheduled_body_frame undone_same [of w w1] assms(2) show ?thesis
    unfolding w' by blast
qed (simp add: same_world_refl assms(2))

lemma advance_tick_error:
  assumes "advance_tick cfg w = (Inl e, w')" and keyed: "memory_keyed (memory_of (wd_live w))"
  shows "same_world w w'"
proof -
  let ?l = "wd_live w"
  let ?s = "snd (on_tick (eg_env cfg) (eg_context cfg) (ck_now (lv_clock ?l)) (ck_tick (lv_clock ?l)) (lv_scenarios ?l))"
  let ?w = "w\<lparr>wd_live := ?l\<lparr>lv_scenarios := ?s\<rparr>\<rparr>"
  have frame: "live_frame ?l (?l\<lparr>lv_scenarios := ?s\<rparr>)"
    by (rule live_frame_scenarios [where r = "fst (on_tick (eg_env cfg) (eg_context cfg) (ck_now (lv_clock ?l)) (ck_tick (lv_clock ?l)) (lv_scenarios ?l))"])
      (simp add: on_tick_def)
  have cases: "w' = w \<or> w' = undo_live ?l ?w \<or>
      (\<exists>te pos w1. live_transaction (eg_owner_id cfg) (tick_body cfg te (ck_tick (lv_clock ?l)) pos) ?w = (Inl e, w1) \<and>
         w' = undo_live ?l w1)"
    using assms(1) by (auto simp: advance_tick_def Let_def split: sum.splits prod.splits)
  from cases show ?thesis
  proof (elim disjE exE conjE)
    assume "w' = undo_live ?l ?w"
    then show ?thesis using undone_same [of w ?w] frame keyed by simp
  next
    fix te pos w1 assume tx: "live_transaction (eg_owner_id cfg) (tick_body cfg te (ck_tick (lv_clock ?l)) pos) ?w = (Inl e, w1)"
      and w': "w' = undo_live ?l w1"
    have "wd_persistence w1 = wd_persistence w \<and> live_frame (wd_live ?w) (wd_live w1)"
      using live_transaction_error [OF tx tick_body_frame] by simp
    then have "wd_persistence w1 = wd_persistence w" "live_frame (wd_live ?w) (wd_live w1)" by blast+
    moreover from this(2) frame have "live_frame ?l (wd_live w1)" by (auto intro: live_frame_trans)
    ultimately show ?thesis using undone_same [of w w1] keyed w' by simp
  qed (simp add: same_world_refl keyed)
qed

lemma same_world_inv: "same_world w w' \<Longrightarrow> world_inv w \<Longrightarrow> world_inv w'"
  by (simp add: same_world_def world_inv_def)

lemma scheduled_success_inv:
  assumes "dispatch_scheduled cfg i w = (Inr b, w')" and inv: "world_inv w"
  shows "world_inv w'"
proof -
  from assms(1) have tx: "live_transaction (eg_owner_id cfg) (scheduled_body cfg i) w = (Inr b, w')"
    by (auto simp: dispatch_scheduled_def split: if_splits sum.splits prod.splits)
  then show ?thesis
  proof (cases rule: live_transaction_cases)
    case (2 a u)
    have keyed: "memory_keyed (memory_of (wd_live w'))"
      using scheduled_body_frame [OF 2(2)] inv by (auto simp: world_inv_def dest: live_frame_keyed)
    have sch: "schedule_inv (wd_persistence w)" using inv by (simp add: world_inv_def)
    then have ok: "work_ok (pstate (wd_persistence w))" by (simp add: schedule_inv_def)
    note eff = scheduled_body_effect [OF 2(2)]
    have "uow_step\<^sup>*\<^sup>* (new_uow (pstate (wd_persistence w))) u \<and> work_ok (working u)"
    proof (cases a)
      case True
      then have e: "item_present cfg (pstate (wd_persistence w)) i"
        "st_scheduled_work (working u) = dpop (sw_work_id (di_work i)) (st_scheduled_work (pstate (wd_persistence w)))"
        "st_commands (working u) = dpop (sw_command_id (di_work i)) (st_commands (pstate (wd_persistence w)))"
        "uow_step\<^sup>*\<^sup>* (new_uow (pstate (wd_persistence w))) u"
        using eff check_itemD [of cfg i] by (simp_all add: new_uow_def)
      from work_ok_remove [OF ok _ e(2,3)] e(1,4) show ?thesis by (simp add: item_present_def)
    next
      case False
      with eff ok show ?thesis by (simp add: new_uow_def)
    qed
    with committed_schedule_inv [OF sch _ 2(3)] keyed 2(4) show ?thesis by (simp add: world_inv_def)
  qed simp
qed

lemma advance_tick_success:
  assumes "advance_tick cfg w = (Inr (), w')"
  obtains te pos s w1 where
    "te = ck_now (lv_clock (wd_live w)) + ck_step (lv_clock (wd_live w))"
    "live_frame (wd_live w) ((wd_live w)\<lparr>lv_scenarios := s\<rparr>)"
    "live_transaction (eg_owner_id cfg) (tick_body cfg te (ck_tick (lv_clock (wd_live w))) pos)
       (w\<lparr>wd_live := (wd_live w)\<lparr>lv_scenarios := s\<rparr>\<rparr>) = (Inr (), w1)"
    "w' = w1\<lparr>wd_live := set_time te (ck_tick (lv_clock (wd_live w)) + 1) (wd_live w1)\<rparr>"
proof -
  from assms obtain te pos s q w1 where
    "dt_add (ck_now (lv_clock (wd_live w))) (ck_step (lv_clock (wd_live w))) = Inr te"
    and s: "on_tick (eg_env cfg) (eg_context cfg) (ck_now (lv_clock (wd_live w))) (ck_tick (lv_clock (wd_live w))) (lv_scenarios (wd_live w)) = (q, s)"
    and "live_transaction (eg_owner_id cfg) (tick_body cfg te (ck_tick (lv_clock (wd_live w))) pos)
       (w\<lparr>wd_live := (wd_live w)\<lparr>lv_scenarios := s\<rparr>\<rparr>) = (Inr (), w1)"
    "w' = w1\<lparr>wd_live := set_time te (ck_tick (lv_clock (wd_live w)) + 1) (wd_live w1)\<rparr>"
    by (auto simp: advance_tick_def Let_def bind_res_eq_Inr_iff split: sum.splits prod.splits)
  moreover from s have "live_frame (wd_live w) ((wd_live w)\<lparr>lv_scenarios := s\<rparr>)"
    by (auto simp: on_tick_def intro: live_frame_scenarios)
  ultimately show thesis using that by (auto simp: dt_add_Inr_iff)
qed

lemma advance_tick_inv:
  assumes "advance_tick cfg w = (Inr (), w')" and inv: "world_inv w"
  shows "world_inv w'"
  using assms(1)
proof (cases rule: advance_tick_success)
  case (1 te pos s w1)
  let ?l = "(wd_live w)\<lparr>lv_scenarios := s\<rparr>" and ?p = "wd_persistence w"
  have sch: "schedule_inv ?p" using inv by (simp add: world_inv_def)
  from 1(3) show ?thesis
  proof (cases rule: live_transaction_cases)
    case (2 a u)
    then have body: "tick_body cfg te (ck_tick (lv_clock (wd_live w))) pos ?p (new_uow (pstate ?p)) ?l = (Inr ((), u), wd_live w1)"
      and owner: "eg_owner_id cfg \<noteq> []" and p1: "wd_persistence w1 = ?p\<lparr>pstate := working u\<rparr>" by simp_all
    have "uow_step\<^sup>*\<^sup>* (new_uow (pstate ?p)) u" "work_ok (working u)"
      using tick_body_effect [OF body sch owner] by blast+
    then have "schedule_inv (wd_persistence w1)" using committed_schedule_inv [OF sch _ 2(3)] p1 by simp
    moreover have "memory_keyed (memory_of (wd_live w1))"
      using live_frame_trans [OF 1(2) tick_body_frame [OF body]] inv by (auto simp: world_inv_def dest: live_frame_keyed)
    ultimately show ?thesis by (simp add: 1(4) world_inv_def set_time_def)
  qed simp
qed

lemma dispatch_inv:
  assumes "dispatch cfg c w = (r, w')" and inv: "world_inv w"
  shows "world_inv w'"
proof (cases "w' = w")
  case False
  let ?body = "\<lambda>p u l. then_return () (execute_command cfg p c u l)"
  from False assms(1) obtain q w1 where tx: "live_transaction (eg_owner_id cfg) ?body w = (q, w1)"
    and w': "w' = (case q of Inr _ \<Rightarrow> w1 | Inl e \<Rightarrow>
      w1\<lparr>wd_live := set_memory (restore_state (Some (snapshot_state (memory_of (wd_live w))))) (wd_live w1)\<rparr>)"
    by (auto simp: dispatch_def Let_def split: if_splits sum.splits prod.splits)
  from tx show ?thesis
  proof (cases rule: live_transaction_cases)
    case (1 e)
    with w' inv show ?thesis by (simp add: world_inv_def set_memory_def restored_keyed)
  next
    case (2 a u)
    then have run: "execute_command cfg (wd_persistence w) c (new_uow (pstate (wd_persistence w))) (wd_live w) = (Inr u, wd_live w1)"
      by (auto simp: then_return_def split: prod.splits sum.splits)
    have sch: "schedule_inv (wd_persistence w)" using inv by (simp add: world_inv_def)
    have kept: "work_kept (new_uow (pstate (wd_persistence w))) u" by (rule execute_command_kept [OF run])
    then have "work_ok (working u)" using sch work_kept_ok [OF kept] by (simp add: schedule_inv_def new_uow_def)
    with committed_schedule_inv [OF sch _ 2(3)] kept 2(4) have "schedule_inv (wd_persistence w1)" by (simp add: work_kept_def)
    moreover have "memory_keyed (memory_of (wd_live w1))"
      using execute_command_live [OF run] inv by (auto simp: world_inv_def dest: live_frame_keyed)
    ultimately show ?thesis using w' 2(1) by (simp add: world_inv_def)
  qed
qed (simp add: inv)

lemma engine_step_inv: "engine_step uuid5 cfg w w' \<Longrightarrow> world_inv w \<Longrightarrow> world_inv w'"
proof (induction rule: engine_step.induct)
  case (estep_durable w p')
  then show ?case using schedule_step_keeps [OF estep_durable.hyps] by (simp add: world_inv_def)
next
  case (estep_dispatch c w r w')
  then show ?case by (rule dispatch_inv)
next
  case (estep_scheduled i w r w')
  show ?case
  proof (cases r)
    case (Inl e)
    with estep_scheduled have "dispatch_scheduled cfg i w = (Inl e, w')" by simp
    from dispatch_scheduled_error [OF this] estep_scheduled(2) have "same_world w w'" by (simp add: world_inv_def)
    then show ?thesis using estep_scheduled(2) by (rule same_world_inv)
  next
    case (Inr b)
    with estep_scheduled show ?thesis by (auto intro: scheduled_success_inv)
  qed
next
  case (estep_tick w r w')
  show ?case
  proof (cases r)
    case (Inl e)
    with estep_tick have "advance_tick cfg w = (Inl e, w')" by simp
    from advance_tick_error [OF this] estep_tick(2) have "same_world w w'" by (simp add: world_inv_def)
    then show ?thesis using estep_tick(2) by (rule same_world_inv)
  next
    case (Inr b)
    with estep_tick show ?thesis by (auto intro: advance_tick_inv)
  qed
qed

lemma new_world_inv: "world_inv (new_world clock ss)"
  by (simp add: world_inv_def new_world_def schedule_inv_init memory_keyed_def empty_memory_def)

interpretation engine: recoverable "new_world clock ss" "engine_step uuid5 cfg" world_inv
  "\<lambda>w. case fst (pending (c # cs) (wd_persistence w)) of Inl e \<Rightarrow> Inl e | Inr _ \<Rightarrow> Inr ()"
  for clock ss uuid5 cfg c cs
proof unfold_locales
  show "world_inv (new_world clock ss)" by (rule new_world_inv)
  show "world_inv q" if "engine_step uuid5 cfg p q" "world_inv p" for p q
    using that by (rule engine_step_inv)
qed (simp add: pending_ok world_inv_def)

text \<open>Removing the items of some works from a keyed collection removes exactly those works.\<close>

lemma fold_dpop_values:
  "keyed f d \<Longrightarrow> dvalues (fold (\<lambda>i d. dpop (g i) d) xs d) = filter (\<lambda>v. f v \<notin> g ` set xs) (dvalues d)"
proof (induction xs arbitrary: d)
  case (Cons x xs)
  have "dvalues (dpop (g x) d) = filter (\<lambda>v. f v \<noteq> g x) (dvalues d)"
    using Cons.prems by (auto simp: AList.delete_eq keyed_def filter_map comp_def case_prod_beta intro!: arg_cong [of _ _ "map snd"] filter_cong)
  with Cons show ?case by (auto intro: filter_cong)
qed simp

lemma remaining_work:
  assumes inv: "schedule_inv p" and "map di_work items = filter Q (scheduled_work_of p)"
    and "st_scheduled_work (pstate p') = fold (\<lambda>i d. dpop (sw_work_id (di_work i)) d) items (st_scheduled_work (pstate p))"
  shows "scheduled_work_of p' = filter (\<lambda>w. \<not> Q w) (scheduled_work_of p)"
proof -
  have key: "keyed sw_work_id (st_scheduled_work (pstate p))" using inv by (simp add: schedule_inv_def schedule_keys)
  let ?vs = "dvalues (st_scheduled_work (pstate p))"
  have ids: "(\<lambda>i. sw_work_id (di_work i)) ` set items = sw_work_id ` {w \<in> set ?vs. Q w}"
  proof -
    have "(\<lambda>i. sw_work_id (di_work i)) ` set items = sw_work_id ` set (map di_work items)" by auto
    then show ?thesis by (simp add: assms(2) scheduled_work_of_def)
  qed
  have "sw_work_id w \<in> sw_work_id ` {w \<in> set ?vs. Q w} \<longleftrightarrow> Q w" if "w \<in> set ?vs" for w
    using that keyed_values_inj [OF key] by (auto dest: inj_onD)
  then have "dvalues (st_scheduled_work (pstate p')) = filter (\<lambda>w. \<not> Q w) ?vs"
    unfolding assms(3) fold_dpop_values [OF key] ids by (intro filter_cong) auto
  then show ?thesis by (simp add: scheduled_work_of_def filter_sort)
qed

section \<open>Examples\<close>

text \<open>A lamp whose chart counts versions and emits one event per command.\<close>

definition lamp :: "nat entity" where
  "lamp = \<lparr>en_id = ''l'', en_entity_type = ''lamp'', en_state = ''off'', en_attributes = Mapping.empty,
     en_created_at = None, en_updated_at = None, en_version = 0\<rparr>"

definition lit_event :: "nat domain_event" where
  "lit_event = \<lparr>ev_event_id = ''e'', ev_name = transition_event, ev_entity_type = ''lamp'', ev_entity_id = ''l'',
     ev_occurred_at = 7, ev_tick = None, ev_payload = Mapping.empty, ev_causation_id = None, ev_correlation_id = None,
     ev_owner_id = Some ''me''\<rparr>"

definition lamp_config :: "(nat, unit) engine_config" where
  "lamp_config = \<lparr>eg_owner_id = ''me'', eg_env = storm_env, eg_context = (), eg_supports = (\<lambda>t. t = ''lamp''),
     eg_chart = (\<lambda>clock m e c. (Inr (), (touch (ck_now clock) e)\<lparr>en_state := ''on''\<rparr>, [lit_event])), eg_seal = None, eg_warehouse = None\<rparr>"

definition lamp_command :: "nat command" where
  "lamp_command = (ping ''k'' 7)\<lparr>cm_entity_type := ''lamp'', cm_entity_id := ''l''\<rparr>"

definition lamp_work :: scheduled_work where
  "lamp_work = ScheduledWork 7 100 1 ''w'' ''k'' ''me''"

definition lamp_item :: "nat durable_scheduled_item" where
  "lamp_item = \<lparr>di_work = lamp_work, di_command = lamp_command\<rparr>"

definition lamp_clock :: simulation_clock where
  "lamp_clock = \<lparr>ck_now = 0, ck_step = 10, ck_tick = 0\<rparr>"

text \<open>The work identities of the example are constant: the hash function gives ''w''.\<close>

definition lamp_digest :: digest where
  "lamp_digest = (\<lambda>n s. ''w'')"

definition lamp_stored :: "nat persistence" where
  "lamp_stored = new_persistence\<lparr>pstate := empty_state\<lparr>st_entities := [((''lamp'', ''l''), lamp)]\<rparr>\<rparr>"

definition lamp_scheduled :: "nat persistence" where
  "lamp_scheduled = lamp_stored\<lparr>pstate := (pstate lamp_stored)\<lparr>st_commands := [(''k'', lamp_command)],
     st_scheduled_work := [(''w'', lamp_work)]\<rparr>\<rparr>"

definition lamp_world :: "(nat, unit) sim_world" where
  "lamp_world = (new_world lamp_clock [])\<lparr>wd_persistence := lamp_scheduled\<rparr>"

lemma lamp_saved: "transaction None (run_ops [save_entity lamp]) new_persistence = (Inr (), lamp_stored)"
  by (simp add: transaction_def run_ops_def new_persistence_def fork_state_def new_uow_def commit_def overlap_def
      save_entity_def mark_dirty_def empty_state_def lamp_def lamp_stored_def guards.simps)

lemma lamp_recorded: "record_schedule lamp_digest ''me'' None lamp_command 100 lamp_stored = (Inr lamp_work, lamp_scheduled)"
  by (simp add: record_schedule_def lamp_command_def ping_def command_of_def lamp_stored_def new_persistence_def
      empty_state_def transaction_def fork_state_def new_uow_def schedule_body_def get_command_def mk_scheduled_work_def
      blank_me uow_scheduled_work_def next_work_sequence_def save_command_def save_scheduled_work_def mark_dirty_def
      commit_def overlap_def guards.simps lamp_work_def lamp_scheduled_def work_id_of_def mint_id_def lamp_digest_def)

lemma lamp_run: "(engine_step lamp_digest cfg)\<^sup>*\<^sup>* (new_world lamp_clock []) lamp_world"
proof -
  let ?w = "new_world lamp_clock [] :: (nat, unit) sim_world"
  have "history new_persistence lamp_stored"
    by (rule history_tx [OF history_refl run_ops_uow_body lamp_saved]) (auto intro: save_entity_step)
  then have "schedule_step lamp_digest new_persistence lamp_stored"
    by (rule sstep_other) (simp_all add: lamp_stored_def new_persistence_def empty_state_def)
  then have one: "engine_step lamp_digest cfg ?w (?w\<lparr>wd_persistence := lamp_stored\<rparr>)"
    by (intro estep_durable) (simp add: new_world_def)
  have "schedule_step lamp_digest (wd_persistence (?w\<lparr>wd_persistence := lamp_stored\<rparr>)) lamp_scheduled"
    using sstep_schedule [OF lamp_recorded] by simp
  from estep_durable [OF this, of cfg] have two: "engine_step lamp_digest cfg (?w\<lparr>wd_persistence := lamp_stored\<rparr>) lamp_world"
    by (simp add: lamp_world_def)
  from one have "(engine_step lamp_digest cfg)\<^sup>*\<^sup>* ?w (?w\<lparr>wd_persistence := lamp_stored\<rparr>)" by (rule r_into_rtranclp)
  from this two show ?thesis by (rule rtranclp.rtrancl_into_rtrancl)
qed

lemmas engine_eval =
  dispatch_scheduled_def live_transaction_def scheduled_body_def dispatch_scheduled_in_uow_def execute_command_def
  execute_on_def load_entity_def run_chart_def save_entity_version_def drain_events_def append_sealed_def on_event_def
  on_tick_def evaluate_def scenario_order_def save_scenarios_def save_position_def check_item_def set_now_def emit_def
  transaction_def fork_state_def new_uow_def commit_def overlap_def get_scheduled_work_def get_command_def get_entity_def
  save_entity_def append_event_def set_scenario_state_def delete_scheduled_work_def delete_command_def
  get_simulation_position_def set_simulation_position_def mk_simulation_position_def mark_dirty_def guards.simps
  expire_due_def ordered_activations_def by_key_def blank_owner_def

lemmas lamp_defs =
  lamp_world_def lamp_scheduled_def lamp_stored_def lamp_config_def lamp_item_def lamp_work_def lamp_command_def lamp_clock_def
  lamp_def lit_event_def ping_def new_world_def new_persistence_def empty_state_def empty_memory_def blank_me

lemma lamp_dispatched: "\<exists>w'. dispatch_scheduled lamp_config lamp_item lamp_world = (Inr True, w')"
  by (simp add: engine_eval lamp_defs Let_def)

section \<open>Properties\<close>

text \<open>
  C2. A scheduled command runs exactly once: in every run of the engine, when dispatching a scheduled item
  succeeds, its work and its command are gone from the durable state, everything else scheduled is as
  before, the clock stands at its due time and the stored position counts one more execution; dispatching
  the same item again, as a duplicated callback does, reports a miss and changes nothing at all.
\<close>

theorem scheduled_command_runs_once:
  assumes "(engine_step uuid5 cfg)\<^sup>*\<^sup>* (new_world clock ss) w" and "dispatch_scheduled cfg i w = (Inr b, w')"
  defines "s \<equiv> pstate (wd_persistence w)" and "s' \<equiv> pstate (wd_persistence w')"
  shows "dispatch_scheduled cfg i w' = (Inr False, w') \<and>
    (if b then map_of (st_scheduled_work s') = (map_of (st_scheduled_work s))(sw_work_id (di_work i) := None) \<and>
       map_of (st_commands s') = (map_of (st_commands s))(cm_command_id (di_command i) := None) \<and>
       map_of (st_scheduled_work s) (sw_work_id (di_work i)) = Some (di_work i) \<and>
       ck_now (lv_clock (wd_live w')) = sw_due_at (di_work i) \<and> ck_tick (lv_clock (wd_live w')) = ck_tick (lv_clock (wd_live w)) \<and>
       (\<exists>q. map_of (st_simulation_positions s') (eg_owner_id cfg) = Some q \<and> sp_logical_time q = sw_due_at (di_work i) \<and>
          sp_execution_sequence q = (case map_of (st_simulation_positions s) (eg_owner_id cfg) of
             None \<Rightarrow> 1 | Some r \<Rightarrow> sp_execution_sequence r + 1))
     else w' = w)"
proof -
  have inv: "world_inv w" by (rule engine.reachable_inv [OF assms(1)])
  have tx: "live_transaction (eg_owner_id cfg) (scheduled_body cfg i) w = (Inr b, w')"
    and owners: "sw_owner_id (di_work i) = eg_owner_id cfg" "cm_owner_id (di_command i) = Some (eg_owner_id cfg)"
    using assms(2) by (auto simp: dispatch_scheduled_def split: if_splits sum.splits prod.splits)
  from tx obtain u where body: "scheduled_body cfg i (wd_persistence w) (new_uow s) (wd_live w) = (Inr (b, u), wd_live w')"
    and p': "wd_persistence w' = (wd_persistence w)\<lparr>pstate := working u\<rparr>" and owner: "eg_owner_id cfg \<noteq> []"
    by (cases rule: live_transaction_cases) (auto simp: s_def)
  have u: "working u = s'" using p' by (simp add: s'_def)
  note eff = scheduled_body_effect [OF body, unfolded u]
  have absent: "\<not> item_present cfg s' i"
  proof (cases b)
    case True
    with eff show ?thesis by (simp add: item_present_def)
  next
    case False
    with eff have "u = new_uow s" "\<not> item_present cfg s i" by (simp_all add: new_uow_def)
    then show ?thesis using u by (simp add: new_uow_def)
  qed
  have inv': "world_inv w'" by (rule scheduled_success_inv [OF assms(2) inv])
  then have settled: "settled_disjoint s'" "\<not> read_only (wd_persistence w')"
    by (simp_all add: world_inv_def schedule_inv_def s'_def)
  have "dispatch_scheduled_in_uow cfg (wd_persistence w') i (new_uow s') (wd_live w') = (Inr (False, new_uow s'), wd_live w')"
    by (rule dispatch_absent) (use eff absent in \<open>simp_all add: new_uow_def\<close>)
  then have "live_transaction (eg_owner_id cfg) (scheduled_body cfg i) w' = (Inr False, w')"
    using settled owner commit_settled [of "new_uow s'"]
    by (simp add: live_transaction_def scheduled_body_def transaction_def fork_state_def s'_def Let_def) (simp add: new_uow_def)
  then have again: "dispatch_scheduled cfg i w' = (Inr False, w')" using owners by (simp add: dispatch_scheduled_def)
  show ?thesis
  proof (cases b)
    case True
    with eff have e: "item_present cfg s i" "st_scheduled_work s' = dpop (sw_work_id (di_work i)) (st_scheduled_work s)"
      "st_commands s' = dpop (cm_command_id (di_command i)) (st_commands s)"
      "lv_clock (wd_live w') = (lv_clock (wd_live w))\<lparr>ck_now := sw_due_at (di_work i)\<rparr>" by (simp_all add: new_uow_def)
    from eff True obtain q where "map_of (st_simulation_positions s') (eg_owner_id cfg) = Some q"
      "sp_logical_time q = sw_due_at (di_work i)"
      "sp_execution_sequence q = (case map_of (st_simulation_positions s) (eg_owner_id cfg) of
             None \<Rightarrow> 1 | Some r \<Rightarrow> sp_execution_sequence r + 1)" by (simp add: new_uow_def)
    with e again True show ?thesis by (simp add: item_present_def)
  next
    case False
    with eff have "u = new_uow s" "wd_live w' = wd_live w" by simp_all
    with p' have "wd_live w' = wd_live w" "wd_persistence w' = wd_persistence w" by (simp_all add: new_uow_def s_def)
    then have "w' = w" by (cases w; cases w') simp
    with again False show ?thesis by simp
  qed
qed

theorem scheduled_command_runs_once_witness:
  "\<exists>w'. dispatch_scheduled lamp_config lamp_item lamp_world = (Inr True, w') \<and>
     dispatch_scheduled lamp_config lamp_item w' = (Inr False, w') \<and> ck_now (lv_clock (wd_live w')) = 7 \<and>
     map_of (st_scheduled_work (pstate (wd_persistence w'))) ''w'' = None"
proof -
  obtain w' where run: "dispatch_scheduled lamp_config lamp_item lamp_world = (Inr True, w')" using lamp_dispatched by blast
  from scheduled_command_runs_once [OF lamp_run run] run show ?thesis
    by (auto simp: lamp_item_def lamp_work_def)
qed

text \<open>
  C4. A failed dispatch of scheduled work or a failed tick leaves no trace: whatever raises in it (a chart, a
  scenario condition, a check, the commit), the durable state, the clock, the pending events and the
  scenarios are as they were, down to the snapshot that would be stored.
\<close>

theorem failed_steps_leave_no_trace:
  assumes "(engine_step uuid5 cfg)\<^sup>*\<^sup>* (new_world clock ss) w"
    and "dispatch_scheduled cfg i w = (Inl e, w') \<or> advance_tick cfg w = (Inl e, w')"
  shows "wd_persistence w' = wd_persistence w \<and> lv_clock (wd_live w') = lv_clock (wd_live w) \<and>
    lv_pending_events (wd_live w') = lv_pending_events (wd_live w) \<and>
    se_scenarios (lv_scenarios (wd_live w')) = se_scenarios (lv_scenarios (wd_live w)) \<and>
    map_of (sm_decisions (memory_of (wd_live w'))) = map_of (sm_decisions (memory_of (wd_live w))) \<and>
    map_of (sm_activations (memory_of (wd_live w'))) = map_of (sm_activations (memory_of (wd_live w))) \<and>
    snapshot_state (memory_of (wd_live w')) = snapshot_state (memory_of (wd_live w))"
proof -
  have "memory_keyed (memory_of (wd_live w))" using engine.reachable_inv [OF assms(1)] by (simp add: world_inv_def)
  then have "same_world w w'" using assms(2) dispatch_scheduled_error advance_tick_error by blast
  then show ?thesis by (simp add: same_world_def)
qed

text \<open>A chart that emits its event and then raises.\<close>

definition dark_config :: "(nat, unit) engine_config" where
  "dark_config = lamp_config\<lparr>eg_chart := (\<lambda>clock m e c. (Inl (ValueError ''dark''), e, [lit_event]))\<rparr>"

lemma dark_dispatched: "\<exists>w'. dispatch_scheduled dark_config lamp_item lamp_world = (Inl (ValueError ''dark''), w')"
  by (simp add: engine_eval lamp_defs dark_config_def Let_def)

theorem failed_steps_leave_no_trace_witness:
  "\<exists>w'. dispatch_scheduled dark_config lamp_item lamp_world = (Inl (ValueError ''dark''), w') \<and>
     wd_persistence w' = lamp_scheduled \<and> lv_pending_events (wd_live w') = [] \<and> lv_clock (wd_live w') = lamp_clock"
proof -
  obtain w' where run: "dispatch_scheduled dark_config lamp_item lamp_world = (Inl (ValueError ''dark''), w')"
    using dark_dispatched by blast
  from failed_steps_leave_no_trace [OF lamp_run disjI1 [OF run]] run show ?thesis
    by (auto simp: lamp_world_def new_world_def)
qed

text \<open>
  C3. A tick does exactly the due work: when a tick succeeds, the clock has moved by one step and one tick, the
  owner's work due by the end of the tick is consumed, all of it and in due order, with its commands,
  other work is untouched, and the stored position and committed tick say so, counting every execution.
\<close>

theorem tick_consumes_due_work:
  assumes "(engine_step uuid5 cfg)\<^sup>*\<^sup>* (new_world clock ss) w" and "advance_tick cfg w = (Inr (), w')"
  defines "p \<equiv> wd_persistence w" and "p' \<equiv> wd_persistence w'" and "c \<equiv> lv_clock (wd_live w)"
  shows "\<exists>items. let te = ck_now c + ck_step c; seq = (case map_of (st_simulation_positions (pstate p)) (eg_owner_id cfg) of
        None \<Rightarrow> 0 | Some s \<Rightarrow> sp_execution_sequence s) + int (length items) in
    due (eg_owner_id cfg) te p = (Inr items, p) \<and>
    map di_work items = filter (\<lambda>w. sw_owner_id w = eg_owner_id cfg \<and> sw_due_at w \<le> te) (scheduled_work_of p) \<and>
    scheduled_work_of p' = filter (\<lambda>w. \<not> (sw_owner_id w = eg_owner_id cfg \<and> sw_due_at w \<le> te)) (scheduled_work_of p) \<and>
    lv_clock (wd_live w') = c\<lparr>ck_now := te, ck_tick := ck_tick c + 1\<rparr> \<and>
    committed_tick (eg_owner_id cfg) p' = Inr (ck_tick c) \<and>
    simulation_position_of (eg_owner_id cfg) p' = Inr (Some \<lparr>sp_logical_time = te, sp_execution_sequence = seq,
      sp_committed_sequence = seq, sp_logical_tick = ck_tick c + 1\<rparr>)"
proof -
  have inv: "world_inv w" by (rule engine.reachable_inv [OF assms(1)])
  then have sch: "schedule_inv p" by (simp add: world_inv_def p_def)
  from assms(2) obtain te pos s w1 where te: "te = ck_now c + ck_step c"
    and frame: "live_frame (wd_live w) ((wd_live w)\<lparr>lv_scenarios := s\<rparr>)"
    and tx: "live_transaction (eg_owner_id cfg) (tick_body cfg te (ck_tick c) pos)
       (w\<lparr>wd_live := (wd_live w)\<lparr>lv_scenarios := s\<rparr>\<rparr>) = (Inr (), w1)"
    and w': "w' = w1\<lparr>wd_live := set_time te (ck_tick c + 1) (wd_live w1)\<rparr>"
    unfolding c_def by (cases rule: advance_tick_success) blast
  from tx obtain u where body: "tick_body cfg te (ck_tick c) pos p (new_uow (pstate p)) ((wd_live w)\<lparr>lv_scenarios := s\<rparr>) =
      (Inr ((), u), wd_live w1)" and p1: "p' = p\<lparr>pstate := working u\<rparr>" and owner: "eg_owner_id cfg \<noteq> []"
    using w' by (cases rule: live_transaction_cases) (auto simp: p_def p'_def)
  obtain items where items: "due (eg_owner_id cfg) te p = (Inr items, p)"
    "map di_work items = filter (\<lambda>w. sw_owner_id w = eg_owner_id cfg \<and> sw_due_at w \<le> te) (scheduled_work_of p)"
    and blank: "\<not> blank (eg_owner_id cfg)" and pos: "pos = map_of (st_simulation_positions (pstate p)) (eg_owner_id cfg)"
    and works: "st_scheduled_work (working u) = fold (\<lambda>i d. dpop (sw_work_id (di_work i)) d) items (st_scheduled_work (pstate p))"
    and tick: "map_of (st_committed_ticks (working u)) (eg_owner_id cfg) = Some (ck_tick c)"
    and position: "map_of (st_simulation_positions (working u)) (eg_owner_id cfg) = Some
      \<lparr>sp_logical_time = te,
       sp_execution_sequence = (case pos of None \<Rightarrow> 0 | Some s \<Rightarrow> sp_execution_sequence s) + int (length items),
       sp_committed_sequence = (case pos of None \<Rightarrow> 0 | Some s \<Rightarrow> sp_execution_sequence s) + int (length items),
       sp_logical_tick = ck_tick c + 1\<rparr>"
    using tick_body_effect [OF body sch owner] by blast
  have "scheduled_work_of p' = filter (\<lambda>w. \<not> (sw_owner_id w = eg_owner_id cfg \<and> sw_due_at w \<le> te)) (scheduled_work_of p)"
    by (rule remaining_work [OF sch items(2)]) (simp add: p1 works)
  moreover have "lv_clock (wd_live w') = c\<lparr>ck_now := te, ck_tick := ck_tick c + 1\<rparr>"
    using live_frame_trans [OF frame tick_body_frame [OF body]]
    by (auto simp: w' live_frame_def set_time_def set_memory_def set_now_def c_def)
  ultimately show ?thesis
    using items position tick blank pos p1
    by (intro exI [of _ items]) (simp add: te Let_def committed_tick_def simulation_position_of_def guards.simps)
qed

lemma lamp_ticked: "\<exists>w'. advance_tick lamp_config lamp_world = (Inr (), w')"
  by (simp add: engine_eval lamp_defs Let_def advance_tick_def tick_body_def dt_add_def datetime_max_def
      simulation_position_of_def heap_len_def new_heap_scheduler_def due_def pending_def pending_body_def
      uow_scheduled_work_def bind_m_def return_m_def set_committed_tick_def)

theorem tick_consumes_due_work_witness:
  "\<exists>w'. advance_tick lamp_config lamp_world = (Inr (), w') \<and> scheduled_work_of (wd_persistence w') = [] \<and>
     committed_tick ''me'' (wd_persistence w') = Inr 0 \<and> ck_now (lv_clock (wd_live w')) = 10"
proof -
  obtain w' where run: "advance_tick lamp_config lamp_world = (Inr (), w')" using lamp_ticked by blast
  from tick_consumes_due_work [OF lamp_run run] run show ?thesis
    by (auto simp: lamp_defs Let_def scheduled_work_of_def)
qed

section \<open>Limits of the kernel\<close>

text \<open>
  Unlike \<open>dispatch_scheduled\<close> and \<open>advance_tick\<close>, \<open>dispatch\<close> does not restore the pending events when it
  fails: an event that the chart emitted before it raised stays pending although the transition was
  rolled back, and the next successful dispatch writes it to the durable log as its own.
\<close>

lemma failed_dispatch_leaks_events:
  "\<exists>w' w''. dispatch dark_config lamp_command lamp_world = (Inl (ValueError ''dark''), w') \<and>
     wd_persistence w' = wd_persistence lamp_world \<and> lv_pending_events (wd_live w') = [lit_event] \<and>
     dispatch lamp_config lamp_command w' = (Inr (), w'') \<and> events (wd_persistence w'') = [lit_event, lit_event]"
  by (simp add: engine_eval lamp_defs dark_config_def Let_def dispatch_def then_return_def set_memory_def restore_state_def
      snapshot_state_def decisions_of_def dict_of_def events_def)

text \<open>
  Work can be scheduled for a time that has passed (\<open>DurableScheduler.schedule\<close> checks the due time only
  against an attached backend), and from then on every tick of its owner raises.
\<close>

lemma execute_due_first:
  assumes "execute_due cfg p (i # items) n u l = (Inr x, l')" and "item_present cfg (working u) i"
  shows "ck_now (lv_clock l) \<le> sw_due_at (di_work i)"
proof -
  obtain b v m where run: "dispatch_scheduled_in_uow cfg p i u l = (Inr (b, v), m)"
    using assms(1) by (cases "dispatch_scheduled_in_uow cfg p i u l") (auto split: sum.splits)
  with dispatch_in_uow_effect [OF run] assms(2) show ?thesis by (auto split: if_splits)
qed

lemma past_due_work_blocks_ticks:
  assumes "(engine_step uuid5 cfg)\<^sup>*\<^sup>* (new_world clock ss) w" and "work \<in> set (scheduled_work_of (wd_persistence w))"
    and "sw_owner_id work = eg_owner_id cfg" and "sw_due_at work < ck_now (lv_clock (wd_live w))"
    and "0 \<le> ck_step (lv_clock (wd_live w))"
  shows "\<exists>e w'. advance_tick cfg w = (Inl e, w')"
proof (rule ccontr)
  let ?p = "wd_persistence w" and ?c = "lv_clock (wd_live w)"
  assume "\<not> ?thesis"
  then obtain w' where "advance_tick cfg w = (Inr (), w')" by (cases "advance_tick cfg w"; cases "fst (advance_tick cfg w)") auto
  then obtain te pos s w1 where te: "te = ck_now ?c + ck_step ?c"
    and tx: "live_transaction (eg_owner_id cfg) (tick_body cfg te (ck_tick ?c) pos)
       (w\<lparr>wd_live := (wd_live w)\<lparr>lv_scenarios := s\<rparr>\<rparr>) = (Inr (), w1)"
    by (cases rule: advance_tick_success) blast
  let ?l = "(wd_live w)\<lparr>lv_scenarios := s\<rparr>"
  from tx obtain u where body: "tick_body cfg te (ck_tick ?c) pos ?p (new_uow (pstate ?p)) ?l = (Inr ((), u), wd_live w1)"
    and owner: "eg_owner_id cfg \<noteq> []"
    by (cases rule: live_transaction_cases) auto
  have sch: "schedule_inv ?p" using engine.reachable_inv [OF assms(1)] by (simp add: world_inv_def)
  obtain items where due: "due (eg_owner_id cfg) te ?p = (Inr items, ?p)" "items_ready cfg (pstate ?p) items"
    "map di_work items = filter (\<lambda>w. sw_owner_id w = eg_owner_id cfg \<and> sw_due_at w \<le> te) (scheduled_work_of ?p)"
    using due_items [OF sch owner] by blast
  have "work \<in> set (map di_work items)" unfolding due(3) using assms(2,3,4,5) te by simp
  then obtain i rest where items: "items = i # rest" by (cases items) auto
  have "sorted (map di_work items)" unfolding due(3) by (simp add: scheduled_work_of_def sorted_filter [of "\<lambda>x. x", simplified])
  then have "di_work i \<le> work" using \<open>work \<in> set (map di_work items)\<close> items by auto
  then have early: "sw_due_at (di_work i) < ck_now ?c" using sw_due_mono assms(4) by fastforce
  obtain v x m where sc: "save_scenarios cfg ?l (new_uow (pstate ?p)) = Inr v"
    and run: "execute_due cfg ?p items 0 v ?l = (Inr x, m)"
    using body due(1)
    by (auto simp: tick_body_def get_simulation_position_def new_uow_def bind_res_eq_Inr_iff split: sum.splits prod.splits)
  have "work_kept (new_uow (pstate ?p)) v" using sc by (auto simp: save_scenarios_def intro: work_kept_mutators(4))
  then have "item_present cfg (working v) i"
    using due(2) items by (simp add: work_kept_def new_uow_def items_ready_def item_present_def)
  from execute_due_first [OF run [unfolded items] this] early show False by simp
qed

text \<open>
  With a domain warehouse the entity is read from the committed deliveries, not from the unit of work.
  Two commands for one entity in the same tick therefore both start from the same version, and the
  second one conflicts with the first: the tick raises. Without a warehouse the same tick succeeds.
\<close>

definition dim_command :: "nat command" where
  "dim_command = lamp_command\<lparr>cm_command_id := ''k2'', cm_due_at := 8\<rparr>"

definition two_commands :: "nat persistence" where
  "two_commands = lamp_stored\<lparr>pstate := (pstate lamp_stored)\<lparr>st_commands := [(''k'', lamp_command), (''k2'', dim_command)],
     st_scheduled_work := [(''w'', lamp_work), (''w2'', ScheduledWork 8 100 2 ''w2'' ''k2'' ''me'')]\<rparr>\<rparr>"

definition two_commands_world :: "(nat, unit) sim_world" where
  "two_commands_world = (new_world lamp_clock [])\<lparr>wd_persistence := two_commands\<rparr>"

definition stored_lamp :: "(nat, unit) engine_config" where
  "stored_lamp = lamp_config\<lparr>eg_env := storm_env\<lparr>sv_uuid5 := (\<lambda>n s. CHR ''u'' # s)\<rparr>, eg_warehouse := Some (\<lambda>t i. if t = ''lamp'' \<and> i = ''l'' then Some lamp else None)\<rparr>"

lemmas tick_eval =
  engine_eval Let_def advance_tick_def tick_body_def dt_add_def datetime_max_def simulation_position_of_def heap_len_def
  new_heap_scheduler_def due_def pending_def pending_body_def uow_scheduled_work_def bind_m_def return_m_def
  set_committed_tick_def

lemma warehouse_same_tick_conflict:
  "\<exists>w'. advance_tick lamp_config two_commands_world = (Inr (), w')"
  "\<exists>m w'. advance_tick stored_lamp two_commands_world = (Inl (ValueError m), w')"
  by (simp_all add: tick_eval lamp_defs two_commands_world_def two_commands_def dim_command_def stored_lamp_def
      less_eq_scheduled_work_def touch_def store_entity_def pending_entities_for_def domain_deliveries_def
      latest_consistent_entity_def entity_mutation_def deterministic_id_def encode_deterministic_parts_def frame_of_def
      encode_scalar_def dec_int_def dec_nat_small storm_env_def mk_domain_mutation_def get_domain_delivery_def
      save_domain_delivery_def)

end
