(* ===== verification/Boundary_Protocol.thy ===== *)
theory Boundary_Protocol
  imports Memory_Persistence Encoding Recoverable
begin

text \<open>
  \<open>composition/boundary.py\<close>: the durable message boundary between simulated organisations.
  \<open>BoundaryService\<close> publishes messages, leases their deliveries to workers under increasing fencing
  epochs and consumes each delivery in one transaction with the effect of its handler;
  \<open>BoundaryConsumerRegistry\<close> finds the handler. A handler is a function of the message and the
  unit of work it shares with the acknowledgement. The persistence is the in-memory one, whose
  transaction serves as the boundary transaction.
\<close>

section \<open>Records\<close>

text \<open>\<open>BoundaryMessage.contract_key\<close>.\<close>

definition contract_key :: "boundary_message \<Rightarrow> string" where
  "contract_key m = bm_contract_name m @ ''.v'' @ dec_int (bm_contract_version m)"

definition pending_delivery :: "digest \<Rightarrow> boundary_message \<Rightarrow> boundary_delivery res" where
  "pending_delivery uuid5 m =
     bind_res (deterministic_id uuid5 ''boundary-delivery''
         [PStr (bm_message_id m), PStr (bm_destination_domain m), PStr (bm_contract_name m), PInt (bm_contract_version m)])
       (\<lambda>i. mk_boundary_delivery
          \<lparr>bd_delivery_id = i, bd_message_id = bm_message_id m, bd_destination_domain = bm_destination_domain m,
           bd_contract_name = bm_contract_name m, bd_contract_version = bm_contract_version m,
           bd_status = PENDING, bd_attempts = 0, bd_claim_owner_id = None, bd_claim_epoch = 0, bd_claimed_at = None,
           bd_lease_expires_at = None, bd_consumed_at = None, bd_consumer_effect_id = None, bd_last_error = None\<rparr>)"

definition consumption_id :: "digest \<Rightarrow> boundary_delivery \<Rightarrow> string res" where
  "consumption_id uuid5 d = deterministic_id uuid5 ''boundary-consumption''
     [PStr (bd_delivery_id d), PStr (bd_message_id d), PStr (bd_destination_domain d), PStr (bd_contract_name d),
      PInt (bd_contract_version d)]"

definition create_consumption :: "digest \<Rightarrow> boundary_delivery \<Rightarrow> string \<Rightarrow> datetime \<Rightarrow> boundary_consumption res" where
  "create_consumption uuid5 d effect_id consumed_at =
     bind_res (consumption_id uuid5 d)
       (\<lambda>i. mk_boundary_consumption
          \<lparr>bc_consumption_id = i, bc_delivery_id = bd_delivery_id d, bc_message_id = bd_message_id d,
           bc_destination_domain = bd_destination_domain d, bc_contract_name = bd_contract_name d,
           bc_contract_version = bd_contract_version d, bc_consumer_effect_id = effect_id, bc_consumed_at = consumed_at\<rparr>)"

section \<open>Consumers\<close>

type_synonym 'v boundary_handler = "boundary_message \<Rightarrow> ('v, string) tx_body"
type_synonym consumer_key = "string option \<times> string \<times> string \<times> int"
type_synonym 'v consumer_registry = "(consumer_key \<times> 'v boundary_handler) list"

definition register_consumer ::
  "string option \<Rightarrow> string \<Rightarrow> string \<Rightarrow> int \<Rightarrow> 'v boundary_handler \<Rightarrow> 'v consumer_registry \<Rightarrow> 'v consumer_registry res" where
  "register_consumer source_domain destination_domain contract_name contract_version handler reg = guards
     [(case source_domain of None \<Rightarrow> False | Some s \<Rightarrow> blank s, ValueError ''source_domain must be nonempty''),
      (contract_version < 1, ValueError ''contract_version must be a positive integer''),
      (destination_domain = [] \<or> contract_name = [], ValueError ''invalid boundary consumer contract''),
      (dhas reg (source_domain, destination_domain, contract_name, contract_version),
        ValueError (''boundary consumer already registered: '' @ (case source_domain of None \<Rightarrow> ''None'' | Some s \<Rightarrow> s) @ '':'' @
          destination_domain @ '':'' @ contract_name @ ''.v'' @ dec_int contract_version))]
     (dset (source_domain, destination_domain, contract_name, contract_version) handler reg)"

definition contracts_for :: "string \<Rightarrow> 'v consumer_registry \<Rightarrow> (string \<times> int) set" where
  "contracts_for destination_domain reg =
     set (map (\<lambda>((_, _, name, version), _). (name, version))
       (filter (\<lambda>((_, domain, _, _), _). domain = destination_domain) reg))"

definition contracts_for_source :: "string \<Rightarrow> string \<Rightarrow> 'v consumer_registry \<Rightarrow> (string \<times> int) set" where
  "contracts_for_source source_domain destination_domain reg =
     set (map (\<lambda>((_, _, name, version), _). (name, version))
       (filter (\<lambda>((src, dst, _, _), _). src = Some source_domain \<and> dst = destination_domain) reg))"

text \<open>
  A destination-only consumer is used only when no consumer of any named producer exists for the contract.
\<close>

definition resolve :: "boundary_message \<Rightarrow> 'v consumer_registry \<Rightarrow> 'v boundary_handler res" where
  "resolve m reg =
     (let contract = (bm_destination_domain m, bm_contract_name m, bm_contract_version m) in
      case dget reg (Some (bm_source_domain m), contract) of
        Some handler \<Rightarrow> Inr handler
      | None \<Rightarrow>
          if list_ex (\<lambda>((source, c), _). source \<noteq> None \<and> c = contract) reg
          then Inl (UnsupportedBoundaryContractError (''unsupported producer boundary contract: '' @ bm_source_domain m @
            '':'' @ bm_destination_domain m @ '':'' @ contract_key m))
          else (case dget reg (None, contract) of
              Some handler \<Rightarrow> Inr handler
            | None \<Rightarrow> Inl (UnsupportedBoundaryContractError (''unsupported boundary contract: '' @
                bm_destination_domain m @ '':'' @ contract_key m))))"

section \<open>Causality\<close>

text \<open>The message a message depends on, when its cause is not a domain event.\<close>

definition causal_parent :: "boundary_message \<Rightarrow> string option" where
  "causal_parent m = (if bm_causation_kind m = Some ''event'' then None else bm_causation_id m)"

text \<open>
  The walk of \<open>_validate_causation\<close> along the stored messages. The loop ends because it visits a
  stored message at most once.
\<close>

function causation_walk ::
  "boundary_message \<Rightarrow> 'v uow \<Rightarrow> string set \<Rightarrow> string option \<Rightarrow> string option \<Rightarrow> unit res" where
  "causation_walk m u visited cursor kind =
     (case cursor of
        None \<Rightarrow> Inr ()
      | Some c \<Rightarrow>
          if kind = Some ''event''
          then bind_res (get_event c u) (\<lambda>event. case event of
              None \<Rightarrow> Inl (ValueError (''missing durable domain event cause: '' @ c))
            | Some e \<Rightarrow> guards
                [(ev_correlation_id e \<noteq> Some (bm_correlation_id m), ValueError ''domain event causation correlation mismatch''),
                 (ev_occurred_at e > bm_produced_at m, ValueError ''boundary causal logical time precedes domain event'')] ())
          else if c \<in> visited then Inl (ValueError ''boundary causal cycle detected'')
          else (case get_boundary_message c u of
              None \<Rightarrow> Inr ()
            | Some q \<Rightarrow>
                if bm_correlation_id q \<noteq> bm_correlation_id m
                then Inl (ValueError ''boundary causation correlation mismatch'')
                else if bm_produced_at q > bm_produced_at m
                then Inl (ValueError ''boundary causal logical time precedes predecessor'')
                else causation_walk m u (insert c visited) (bm_causation_id q) (bm_causation_kind q)))"
  by pat_completeness auto

termination
proof (relation "measure (\<lambda>(m, u, visited, cursor, kind). card (fst ` set (st_boundary_messages (working u)) - visited))", goal_cases)
  case (2 m u visited cursor kind c q)
  then have "c \<in> fst ` set (st_boundary_messages (working u)) - visited"
    by (auto simp: get_boundary_message_def dest!: map_of_SomeD intro: rev_image_eqI)
  then show ?case by (simp only: in_measure prod.case) (rule psubset_card_mono, auto)
qed simp

declare causation_walk.simps [simp del]

definition validate_causation :: "boundary_message \<Rightarrow> 'v uow \<Rightarrow> unit res" where
  "validate_causation m u = causation_walk m u {bm_message_id m} (bm_causation_id m) (bm_causation_kind m)"

definition validate_existing_descendants :: "boundary_message \<Rightarrow> 'v uow \<Rightarrow> unit res" where
  "validate_existing_descendants m u =
     each_ok (\<lambda>d. case get_boundary_message (bd_message_id d) u of
         None \<Rightarrow> Inr ()
       | Some child \<Rightarrow>
           if bm_causation_kind child = Some ''event'' then Inr ()
           else if bm_causation_id child \<noteq> Some (bm_message_id m) then Inr ()
           else guards
             [(bm_correlation_id child \<noteq> bm_correlation_id m, ValueError ''boundary causation correlation mismatch''),
              (bm_produced_at child < bm_produced_at m, ValueError ''boundary causal logical time precedes predecessor''),
              (bd_status d = CONSUMED, ValueError ''causal descendant already consumed before predecessor'')] ())
       (uow_boundary_deliveries u)"

text \<open>
  \<open>_CERTIFIED_TERMINALS\<close> of \<open>composition/effects.py\<close>: for each command with a certified outcome, its
  entity type and terminal state, and the contract key, source, destination and payload field of the message
  that causes it.
\<close>

record certified_terminal =
  ct_entity_type :: string
  ct_terminal_state :: string
  ct_contract_key :: string
  ct_source_domain :: string
  ct_destination_domain :: string
  ct_payload_field :: string

definition CERTIFIED_TERMINALS :: "(string \<times> certified_terminal) list" where
  "CERTIFIED_TERMINALS =
     [(''composition.deliver_shipment'',
        \<lparr>ct_entity_type = ''shipment'', ct_terminal_state = ''delivered'', ct_contract_key = ''warehouse.dispatch_ready.v1'',
         ct_source_domain = ''warehouse_fulfillment'', ct_destination_domain = ''logistics'', ct_payload_field = ''shipment_id''\<rparr>),
      (''composition.complete_external_fulfillment'',
        \<lparr>ct_entity_type = ''sales_order'', ct_terminal_state = ''invoiced'', ct_contract_key = ''logistics.delivery_completed.v1'',
         ct_source_domain = ''logistics'', ct_destination_domain = ''order_to_cash'', ct_payload_field = ''order_id''\<rparr>),
      (''composition.settle_customer_payment'',
        \<lparr>ct_entity_type = ''card_payment'', ct_terminal_state = ''settled'', ct_contract_key = ''o2c.payment_requested.v1'',
         ct_source_domain = ''order_to_cash'', ct_destination_domain = ''cards_payments'', ct_payload_field = ''payment_id''\<rparr>),
      (''composition.post_customer_journal'',
        \<lparr>ct_entity_type = ''journal_entry'', ct_terminal_state = ''posted'', ct_contract_key = ''accounting.entry_requested.v1'',
         ct_source_domain = ''cards_payments'', ct_destination_domain = ''record_to_report'', ct_payload_field = ''journal_id''\<rparr>),
      (''composition.post_replenishment_journal'',
        \<lparr>ct_entity_type = ''journal_entry'', ct_terminal_state = ''posted'', ct_contract_key = ''accounting.entry_requested.v1'',
         ct_source_domain = ''procure_to_pay'', ct_destination_domain = ''record_to_report'', ct_payload_field = ''journal_id''\<rparr>)]"

definition certified_contracts :: "string set" where
  "certified_contracts = (\<lambda>(_, t). ct_contract_key t) ` set CERTIFIED_TERMINALS"

text \<open>The certificate a typed successor of a certified contract waits for.\<close>

definition certificate_applied :: "boundary_message \<Rightarrow> boundary_consumption \<Rightarrow> 'v uow \<Rightarrow> bool res" where
  "certificate_applied q receipt u =
     (case get_business_effect (bc_consumer_effect_id receipt) u of
        None \<Rightarrow> Inr False
      | Some proof' \<Rightarrow> guards
          [(be_effect_id proof' \<noteq> bc_consumer_effect_id receipt \<or> be_boundary_message_id proof' \<noteq> bm_message_id q \<or>
            be_correlation_id proof' \<noteq> bm_correlation_id q,
             RuntimeError ''typed causal predecessor certificate contradicts ACK''),
           (case get_entity (be_entity_type proof') (be_entity_id proof') u of
              None \<Rightarrow> True
            | Some e \<Rightarrow> en_version e < be_entity_version proof' \<or> en_state e \<noteq> be_terminal_state proof',
             RuntimeError ''typed causal predecessor certificate lacks durable terminal state'')] True)"

definition causal_predecessor_applied :: "digest \<Rightarrow> boundary_message \<Rightarrow> 'v uow \<Rightarrow> bool res" where
  "causal_predecessor_applied uuid5 m u =
     bind_res (validate_causation m u) (\<lambda>_.
       if bm_causation_kind m = Some ''event'' then Inr True
       else case Option.bind (bm_causation_id m) (\<lambda>parent_id. get_boundary_message parent_id u) of
           None \<Rightarrow> Inr (bm_causation_kind m = None)
         | Some q \<Rightarrow>
             bind_res (pending_delivery uuid5 q) (\<lambda>expected.
               case get_boundary_delivery (bd_delivery_id expected) u of
                 None \<Rightarrow> Inr False
               | Some d \<Rightarrow>
                   if bd_status d \<noteq> CONSUMED then Inr False
                   else case get_boundary_consumption (bd_delivery_id d) u of
                       None \<Rightarrow> Inl (RuntimeError (''consumed causal predecessor lacks consumption: '' @ bd_delivery_id d))
                     | Some receipt \<Rightarrow>
                         if get_command (bc_consumer_effect_id receipt) u \<noteq> None then Inr False
                         else if bm_causation_kind m = Some ''boundary'' \<and> contract_key q \<in> certified_contracts
                         then certificate_applied q receipt u
                         else Inr True))"

section \<open>Publication\<close>

text \<open>The charge of a recovery publication to the active trigger of its job.\<close>

definition charge_recovery :: "boundary_message \<Rightarrow> string option \<Rightarrow> 'v uow \<Rightarrow> 'v uow res" where
  "charge_recovery m recovery_job_id u =
     (case recovery_job_id of
        None \<Rightarrow> Inr u
      | Some job_id \<Rightarrow> (case get_job_state job_id u of
            None \<Rightarrow> Inl (RuntimeError ''recovery publication lost its active recurring trigger'')
          | Some job \<Rightarrow>
              if js_active_trigger_id job = None
              then Inl (RuntimeError ''recovery publication lost its active recurring trigger'')
              else if bm_message_id m \<in> set (js_active_publication_message_ids job)
              then Inl (RuntimeError ''enrolled recovery publication is missing its message'')
              else bind_res (mk_simulation_job_state
                  (job\<lparr>js_active_publication_message_ids := js_active_publication_message_ids job @ [bm_message_id m]\<rparr>))
                (\<lambda>job. save_job_state job u)))"

definition same_contract :: "boundary_delivery \<Rightarrow> boundary_message \<Rightarrow> bool" where
  "same_contract d m \<longleftrightarrow> bd_message_id d = bm_message_id m \<and> bd_destination_domain d = bm_destination_domain m \<and>
     bd_contract_name d = bm_contract_name m \<and> bd_contract_version d = bm_contract_version m"

definition publish_body ::
  "boundary_message \<Rightarrow> boundary_delivery \<Rightarrow> string option \<Rightarrow> ('v, boundary_delivery) tx_body" where
  "publish_body m delivery recovery_job_id u =
     bind_res (validate_causation m u) (\<lambda>_.
     bind_res (case get_boundary_message (bm_message_id m) u of
         Some existing \<Rightarrow> guards [(existing \<noteq> m, ValueError (''boundary message identity conflict: '' @ bm_message_id m))] u
       | None \<Rightarrow>
           bind_res (validate_existing_descendants m u) (\<lambda>_.
           bind_res (charge_recovery m recovery_job_id u) (\<lambda>u. save_boundary_message m u))) (\<lambda>u.
     case get_boundary_delivery (bd_delivery_id delivery) u of
       Some existing \<Rightarrow> guards
         [(\<not> same_contract existing m, ValueError (''boundary delivery identity conflict: '' @ bd_delivery_id delivery))] (existing, u)
     | None \<Rightarrow> bind_res (save_boundary_delivery delivery u) (\<lambda>u. Inr (delivery, u))))"

definition publish ::
  "digest \<Rightarrow> boundary_message \<Rightarrow> string option \<Rightarrow> ('v persistence, boundary_delivery) meth" where
  "publish uuid5 m recovery_job_id p =
     (case pending_delivery uuid5 m of
        Inl e \<Rightarrow> (Inl e, p)
      | Inr delivery \<Rightarrow> transaction None (publish_body m delivery recovery_job_id) p)"

definition delivery_lookup :: "string \<Rightarrow> ('v persistence, boundary_delivery option) meth" where
  "delivery_lookup delivery_id = transaction None (\<lambda>u. Inr (get_boundary_delivery delivery_id u, u))"

definition consumption_lookup :: "string \<Rightarrow> ('v persistence, boundary_consumption option) meth" where
  "consumption_lookup delivery_id = transaction None (\<lambda>u. Inr (get_boundary_consumption delivery_id u, u))"

section \<open>Claims\<close>

text \<open>The keyword arguments of \<open>claim_next\<close>.\<close>

record claim_query =
  cq_owner_id :: string
  cq_now :: datetime
  cq_lease_duration :: timedelta
  cq_destination_domain :: "string option"
  cq_accepted_contracts :: "(string \<times> int) list option"
  cq_message_id :: "string option"
  cq_correlation_id :: "string option"

definition check_query :: "claim_query \<Rightarrow> unit res" where
  "check_query q = guards
     [(blank (cq_owner_id q), ValueError ''owner_id must be a nonblank string''),
      (cq_destination_domain q = Some [], ValueError ''destination_domain must be nonempty when specified''),
      (cq_message_id q = Some [], ValueError ''message_id must be nonempty when specified''),
      (cq_correlation_id q = Some [], ValueError ''correlation_id must be nonempty when specified''),
      (cq_lease_duration q \<le> 0, ValueError ''lease_duration must be positive''),
      (case cq_accepted_contracts q of None \<Rightarrow> False
        | Some cs \<Rightarrow> list_ex (\<lambda>(name, version). name = [] \<or> version \<le> 0) cs,
        ValueError ''accepted_contracts requires nonempty names and positive versions'')] ()"

text \<open>The conditions under which the loop skips a delivery before it reads the message.\<close>

definition selects :: "claim_query \<Rightarrow> boundary_delivery \<Rightarrow> bool" where
  "selects q d \<longleftrightarrow>
     (case cq_message_id q of None \<Rightarrow> True | Some i \<Rightarrow> bd_message_id d = i) \<and>
     (case cq_destination_domain q of None \<Rightarrow> True | Some i \<Rightarrow> bd_destination_domain d = i) \<and>
     (case cq_accepted_contracts q of None \<Rightarrow> True | Some cs \<Rightarrow> (bd_contract_name d, bd_contract_version d) \<in> set cs) \<and>
     bd_status d \<noteq> CONSUMED \<and>
     \<not> (bd_status d = CLAIMED \<and> (case bd_lease_expires_at d of None \<Rightarrow> False | Some t \<Rightarrow> t > cq_now q))"

definition correlates :: "claim_query \<Rightarrow> boundary_message \<Rightarrow> bool" where
  "correlates q m \<longleftrightarrow> (case cq_correlation_id q of None \<Rightarrow> True | Some c \<Rightarrow> bm_correlation_id m = c)"

fun claim_candidates ::
  "digest \<Rightarrow> claim_query \<Rightarrow> 'v uow \<Rightarrow> boundary_delivery list \<Rightarrow> ((datetime \<times> string) \<times> boundary_delivery) list res" where
  "claim_candidates uuid5 q u [] = Inr []"
| "claim_candidates uuid5 q u (d # ds) =
     (if \<not> selects q d then claim_candidates uuid5 q u ds
      else case get_boundary_message (bd_message_id d) u of
          None \<Rightarrow> Inl (RuntimeError (''boundary delivery missing message: '' @ bd_delivery_id d))
        | Some m \<Rightarrow>
            if \<not> correlates q m
            then claim_candidates uuid5 q u ds
            else bind_res (causal_predecessor_applied uuid5 m u) (\<lambda>applied.
              bind_res (claim_candidates uuid5 q u ds) (\<lambda>cs.
                Inr (if applied then ((bm_produced_at m, bd_delivery_id d), d) # cs else cs))))"

text \<open>\<open>min(xs, key=...)\<close> of a non-empty list: the first element with the least key.\<close>

fun first_min :: "'k :: linorder \<times> 'a \<Rightarrow> ('k \<times> 'a) list \<Rightarrow> 'k \<times> 'a" where
  "first_min best [] = best"
| "first_min best (x # xs) = first_min (if fst x < fst best then x else best) xs"

definition claimed_by :: "claim_query \<Rightarrow> boundary_delivery \<Rightarrow> boundary_delivery res" where
  "claimed_by q d =
     bind_res (dt_add (cq_now q) (cq_lease_duration q)) (\<lambda>expires. mk_boundary_delivery
       (d\<lparr>bd_status := CLAIMED, bd_attempts := bd_attempts d + 1, bd_claim_owner_id := Some (cq_owner_id q),
          bd_claim_epoch := bd_claim_epoch d + 1, bd_claimed_at := Some (cq_now q), bd_lease_expires_at := Some expires,
          bd_consumed_at := None, bd_consumer_effect_id := None, bd_last_error := None\<rparr>))"

definition claim_body :: "digest \<Rightarrow> claim_query \<Rightarrow> ('v, boundary_lease option) tx_body" where
  "claim_body uuid5 q u =
     bind_res (claim_candidates uuid5 q u (uow_boundary_deliveries u)) (\<lambda>candidates.
       case candidates of
         [] \<Rightarrow> Inr (None, u)
       | c # cs \<Rightarrow>
           bind_res (claimed_by q (snd (first_min c cs))) (\<lambda>claimed.
           bind_res (save_boundary_delivery claimed u) (\<lambda>u.
           bind_res (mk_boundary_lease
               \<lparr>bl_delivery_id = bd_delivery_id claimed, bl_message_id = bd_message_id claimed, bl_owner_id = cq_owner_id q,
                bl_epoch = bd_claim_epoch claimed, bl_lease_expires_at = the (bd_lease_expires_at claimed)\<rparr>) (\<lambda>lease.
           Inr (Some lease, u)))))"

definition claim_next :: "digest \<Rightarrow> claim_query \<Rightarrow> ('v persistence, boundary_lease option) meth" where
  "claim_next uuid5 q p =
     (case check_query q of Inl e \<Rightarrow> (Inl e, p) | Inr _ \<Rightarrow> transaction None (claim_body uuid5 q) p)"

section \<open>Consumption\<close>

definition assert_current_claim :: "boundary_delivery \<Rightarrow> boundary_lease \<Rightarrow> datetime \<Rightarrow> unit res" where
  "assert_current_claim d lease now = guards
     [(bd_status d \<noteq> CLAIMED, StaleBoundaryClaimError (''boundary delivery is not claimed: '' @ bd_delivery_id d)),
      (bd_message_id d \<noteq> bl_message_id lease \<or> bd_claim_owner_id d \<noteq> Some (bl_owner_id lease) \<or>
        bd_claim_epoch d \<noteq> bl_epoch lease, StaleBoundaryClaimError (''stale boundary claim: '' @ bd_delivery_id d)),
      (case bd_claimed_at d of None \<Rightarrow> True | Some t \<Rightarrow> now < t,
        StaleBoundaryClaimError (''boundary claim clock regressed: '' @ bd_delivery_id d)),
      (case bd_lease_expires_at d of None \<Rightarrow> True | Some t \<Rightarrow> t \<le> now,
        StaleBoundaryClaimError (''expired boundary claim: '' @ bd_delivery_id d))] ()"

text \<open>The second half of \<open>consume\<close>: the handler's effect and its acknowledgement in the same unit of work.\<close>

definition acknowledge_delivery ::
  "digest \<Rightarrow> boundary_delivery \<Rightarrow> boundary_consumption option \<Rightarrow> string \<Rightarrow> datetime \<Rightarrow> ('v, boundary_consumption) tx_body" where
  "acknowledge_delivery uuid5 current existing effect_id now u =
     (if blank effect_id then Inl (ValueError ''boundary consumer effect identity must be a nonblank string'')
      else bind_res (create_consumption uuid5 current effect_id now) (\<lambda>consumption.
        bind_res (case existing of
            Some c \<Rightarrow> guards [(c \<noteq> consumption, ValueError (''boundary consumption identity conflict: '' @ bd_delivery_id current))] u
          | None \<Rightarrow> save_boundary_consumption consumption u) (\<lambda>u.
        bind_res (mk_boundary_delivery
            (current\<lparr>bd_status := CONSUMED, bd_consumed_at := Some now, bd_consumer_effect_id := Some effect_id\<rparr>)) (\<lambda>consumed.
        bind_res (save_boundary_delivery consumed u) (\<lambda>u. Inr (consumption, u))))))"

definition consume_body ::
  "digest \<Rightarrow> boundary_lease \<Rightarrow> 'v consumer_registry \<Rightarrow> datetime \<Rightarrow> ('v, boundary_consumption) tx_body" where
  "consume_body uuid5 lease registry now u =
     (case get_boundary_delivery (bl_delivery_id lease) u of
        None \<Rightarrow> Inl (KeyError (''unknown boundary delivery: '' @ bl_delivery_id lease))
      | Some current \<Rightarrow>
          let existing = get_boundary_consumption (bd_delivery_id current) u in
          if bd_status current = CONSUMED
          then (case existing of
              None \<Rightarrow> Inl (RuntimeError (''consumed delivery lacks consumption record: '' @ bd_delivery_id current))
            | Some receipt \<Rightarrow> Inr (receipt, u))
          else bind_res (assert_current_claim current lease now) (\<lambda>_.
            case get_boundary_message (bd_message_id current) u of
              None \<Rightarrow> Inl (RuntimeError (''boundary delivery missing message: '' @ bd_delivery_id current))
            | Some m \<Rightarrow>
                bind_res (causal_predecessor_applied uuid5 m u) (\<lambda>applied.
                  if \<not> applied then Inl (StaleBoundaryClaimError (''causal predecessor not applied: '' @ bd_delivery_id current))
                  else bind_res (resolve m registry) (\<lambda>handler.
                    bind_res (handler m u) (\<lambda>(effect_id, u). acknowledge_delivery uuid5 current existing effect_id now u)))))"

definition consume ::
  "digest \<Rightarrow> boundary_lease \<Rightarrow> 'v consumer_registry \<Rightarrow> datetime \<Rightarrow> ('v persistence, boundary_consumption) meth" where
  "consume uuid5 lease registry now = transaction None (consume_body uuid5 lease registry now)"

section \<open>The protocol invariant\<close>

text \<open>The reads the protocol depends on, as functions of the durable state.\<close>

abbreviation message_at :: "'v state \<Rightarrow> string \<Rightarrow> boundary_message option" where
  "message_at s \<equiv> map_of (st_boundary_messages s)"

abbreviation delivery_at :: "'v state \<Rightarrow> string \<Rightarrow> boundary_delivery option" where
  "delivery_at s \<equiv> map_of (st_boundary_deliveries s)"

abbreviation receipt_at :: "'v state \<Rightarrow> string \<Rightarrow> boundary_consumption option" where
  "receipt_at s \<equiv> map_of (st_boundary_consumptions s)"

text \<open>
  What the record of one delivery says: no claim before the first lease, one attempt per epoch, and a lease whose
  interval contains the acknowledgement.
\<close>

definition delivery_ok :: "boundary_delivery \<Rightarrow> bool" where
  "delivery_ok d \<longleftrightarrow> mk_boundary_delivery d = Inr d \<and> bd_attempts d = bd_claim_epoch d \<and>
     (case bd_status d of
        PENDING \<Rightarrow> bd_claim_epoch d = 0
      | _ \<Rightarrow> 1 \<le> bd_claim_epoch d \<and>
          (\<exists>w t x. bd_claim_owner_id d = Some w \<and> \<not> blank w \<and> bd_claimed_at d = Some t \<and>
             bd_lease_expires_at d = Some x \<and> t < x \<and>
             (bd_status d = CONSUMED \<longrightarrow> (\<exists>a e. bd_consumed_at d = Some a \<and> t \<le> a \<and> a < x \<and>
                bd_consumer_effect_id d = Some e \<and> \<not> blank e))))"

text \<open>A receipt exists exactly for the consumed deliveries and repeats what the delivery records.\<close>

definition receipt_ok :: "digest \<Rightarrow> 'v state \<Rightarrow> boundary_delivery \<Rightarrow> bool" where
  "receipt_ok uuid5 s d \<longleftrightarrow> (if bd_status d = CONSUMED
     then \<exists>c. receipt_at s (bd_delivery_id d) = Some c \<and>
       create_consumption uuid5 d (the (bd_consumer_effect_id d)) (the (bd_consumed_at d)) = Inr c
     else receipt_at s (bd_delivery_id d) = None)"

definition deliveries_ok :: "digest \<Rightarrow> 'v state \<Rightarrow> bool" where
  "deliveries_ok uuid5 s \<longleftrightarrow>
     (\<forall>k d. delivery_at s k = Some d \<longrightarrow> bd_delivery_id d = k \<and> delivery_ok d \<and> receipt_ok uuid5 s d \<and>
        (\<exists>m x. message_at s (bd_message_id d) = Some m \<and> same_contract d m \<and>
           pending_delivery uuid5 m = Inr x \<and> bd_delivery_id x = k)) \<and>
     (\<forall>k m. message_at s k = Some m \<longrightarrow> bm_message_id m = k \<and>
        (\<exists>x d. pending_delivery uuid5 m = Inr x \<and> delivery_at s (bd_delivery_id x) = Some d \<and> bd_message_id d = k)) \<and>
     (\<forall>k c. receipt_at s k = Some c \<longrightarrow> delivery_at s k \<noteq> None)"

text \<open>The stored causal links.\<close>

definition causes :: "'v state \<Rightarrow> (string \<times> string) set" where
  "causes s = {(i, j). \<exists>m. message_at s i = Some m \<and> causal_parent m = Some j}"

definition message_consumed :: "digest \<Rightarrow> 'v state \<Rightarrow> boundary_message \<Rightarrow> bool" where
  "message_consumed uuid5 s m \<longleftrightarrow> (\<exists>x d. pending_delivery uuid5 m = Inr x \<and>
     delivery_at s (bd_delivery_id x) = Some d \<and> bd_status d = CONSUMED)"

definition link_ok :: "digest \<Rightarrow> 'v state \<Rightarrow> boundary_message \<Rightarrow> boundary_message \<Rightarrow> bool" where
  "link_ok uuid5 s m q \<longleftrightarrow> bm_correlation_id q = bm_correlation_id m \<and> bm_produced_at q \<le> bm_produced_at m \<and>
     (message_consumed uuid5 s m \<longrightarrow> message_consumed uuid5 s q)"

definition causality_ok :: "digest \<Rightarrow> 'v state \<Rightarrow> bool" where
  "causality_ok uuid5 s \<longleftrightarrow> acyclic (causes s) \<and>
     (\<forall>i m j q. message_at s i = Some m \<longrightarrow> causal_parent m = Some j \<longrightarrow> message_at s j = Some q \<longrightarrow> link_ok uuid5 s m q)"

definition boundary_inv :: "digest \<Rightarrow> 'v state \<Rightarrow> bool" where
  "boundary_inv uuid5 s \<longleftrightarrow> deliveries_ok uuid5 s \<and> causality_ok uuid5 s"

text \<open>Everything above depends on the three boundary collections only.\<close>

definition same_boundary :: "'v state \<Rightarrow> 'v state \<Rightarrow> bool" where
  "same_boundary s t \<longleftrightarrow> st_boundary_messages s = st_boundary_messages t \<and>
     st_boundary_deliveries s = st_boundary_deliveries t \<and> st_boundary_consumptions s = st_boundary_consumptions t"

lemma boundary_inv_same: "same_boundary s t \<Longrightarrow> boundary_inv uuid5 s = boundary_inv uuid5 t"
  by (simp add: boundary_inv_def deliveries_ok_def causality_ok_def receipt_ok_def causes_def link_ok_def
      message_consumed_def same_boundary_def)

text \<open>A handler acts on its unit of work without touching the protocol records.\<close>

definition handler_ok :: "'v boundary_handler \<Rightarrow> bool" where
  "handler_ok h \<longleftrightarrow> (\<forall>m u e u'. h m u = Inr (e, u') \<longrightarrow> same_boundary (working u) (working u'))"

definition registry_ok :: "'v consumer_registry \<Rightarrow> bool" where
  "registry_ok reg \<longleftrightarrow> (\<forall>(k, h) \<in> set reg. handler_ok h)"

lemma resolve_handler_ok: "registry_ok reg \<Longrightarrow> resolve m reg = Inr h \<Longrightarrow> handler_ok h"
  by (auto simp: registry_ok_def resolve_def Let_def split: option.splits if_splits dest!: map_of_SomeD)

section \<open>Effects of the operations\<close>

lemma mk_boundary_delivery_iff:
  "mk_boundary_delivery d = Inr d' \<longleftrightarrow> d' = d \<and> bd_delivery_id d \<noteq> [] \<and> bd_message_id d \<noteq> [] \<and>
     bd_destination_domain d \<noteq> [] \<and> bd_contract_name d \<noteq> [] \<and> 0 < bd_contract_version d \<and>
     0 \<le> bd_attempts d \<and> 0 \<le> bd_claim_epoch d \<and>
     (case bd_status d of
        PENDING \<Rightarrow> bd_claim_owner_id d = None \<and> bd_claimed_at d = None \<and> bd_lease_expires_at d = None \<and>
          bd_consumed_at d = None \<and> bd_consumer_effect_id d = None
      | CLAIMED \<Rightarrow> \<not> none_or_empty (bd_claim_owner_id d) \<and> bd_claimed_at d \<noteq> None \<and> bd_lease_expires_at d \<noteq> None \<and>
          0 < bd_claim_epoch d \<and> bd_consumed_at d = None \<and> bd_consumer_effect_id d = None
      | CONSUMED \<Rightarrow> bd_consumed_at d \<noteq> None \<and> \<not> none_or_empty (bd_consumer_effect_id d))"
  unfolding mk_boundary_delivery_def bind_res_eq_Inr_iff by (cases "bd_status d") auto

lemma pending_delivery_fields:
  assumes "pending_delivery uuid5 m = Inr d"
  shows "same_contract d m" "bd_status d = PENDING" "bd_attempts d = 0" "bd_claim_epoch d = 0"
    "mk_boundary_delivery d = Inr d" "delivery_ok d"
  using assms by (auto simp: pending_delivery_def mk_boundary_delivery_iff same_contract_def delivery_ok_def)

lemma get_boundary_at:
  "get_boundary_message k u = message_at (working u) k"
  "get_boundary_delivery k u = delivery_at (working u) k"
  "get_boundary_consumption k u = receipt_at (working u) k"
  by (simp_all add: uow_readers)

lemma set_deliveries_at:
  assumes "deliveries_ok uuid5 (working u)" and "delivery_at (working u) k = Some d"
  shows "d \<in> set (uow_boundary_deliveries u)"
  using assms(2) by (force simp: uow_boundary_deliveries_def dest!: map_of_SomeD)

text \<open>A successful walk never comes back to where it started.\<close>

lemma walk_avoids:
  assumes "causation_walk m u visited cursor kind = Inr ()" and "kind \<noteq> Some ''event''" and "cursor = Some c"
    and "(c, j) \<in> (causes (working u))\<^sup>*"
  shows "j \<notin> visited"
  using assms
proof (induction m u visited cursor kind arbitrary: c rule: causation_walk.induct)
  case (1 m u visited cursor kind)
  from 1(2-4) have c: "c \<notin> visited" by (auto simp: causation_walk.simps [of m u visited] split: if_splits)
  show ?case
  proof (cases "c = j")
    case False
    then obtain c' where edge: "(c, c') \<in> causes (working u)" and rest: "(c', j) \<in> (causes (working u))\<^sup>*"
      using 1(5) by (meson converse_rtranclE)
    then obtain q where q: "message_at (working u) c = Some q" "bm_causation_kind q \<noteq> Some ''event''"
      "bm_causation_id q = Some c'" by (auto simp: causes_def causal_parent_def split: if_splits)
    have get: "get_boundary_message c u = Some q" using q(1) by (simp add: get_boundary_at)
    from 1(2-4) get have ok: "bm_correlation_id q = bm_correlation_id m" "\<not> bm_produced_at q > bm_produced_at m"
      "causation_walk m u (insert c visited) (bm_causation_id q) (bm_causation_kind q) = Inr ()"
      by (auto simp: causation_walk.simps [of m u visited] split: if_splits)
    from 1(1) [OF 1(4) 1(3) c get _ ok(2) ok(3) q(2,3) rest] ok(1) show ?thesis by simp
  qed (use c in simp)
qed

lemma validate_causation_parent:
  assumes "validate_causation m u = Inr ()" and "causal_parent m = Some j"
  shows "(j, bm_message_id m) \<notin> (causes (working u))\<^sup>*"
    and "message_at (working u) j = Some q \<Longrightarrow>
      bm_correlation_id q = bm_correlation_id m \<and> bm_produced_at q \<le> bm_produced_at m"
proof -
  have k: "bm_causation_kind m \<noteq> Some ''event''" "bm_causation_id m = Some j"
    using assms(2) by (auto simp: causal_parent_def split: if_splits)
  note w = assms(1) [unfolded validate_causation_def]
  show "(j, bm_message_id m) \<notin> (causes (working u))\<^sup>*" using walk_avoids [OF w k] by blast
  show "message_at (working u) j = Some q \<Longrightarrow>
      bm_correlation_id q = bm_correlation_id m \<and> bm_produced_at q \<le> bm_produced_at m"
    using w k by (auto simp: causation_walk.simps [of m u] get_boundary_at split: if_splits)
qed

lemma message_consumed_mono:
  assumes "\<And>k d. delivery_at s k = Some d \<Longrightarrow> bd_status d = CONSUMED \<Longrightarrow>
    \<exists>d'. delivery_at t k = Some d' \<and> bd_status d' = CONSUMED"
  shows "message_consumed uuid5 s m \<Longrightarrow> message_consumed uuid5 t m"
  using assms by (fastforce simp: message_consumed_def)

lemma predecessor_applied_consumed:
  assumes "causal_predecessor_applied uuid5 m u = Inr True" and "causal_parent m = Some j"
    and "message_at (working u) j = Some q"
  shows "message_consumed uuid5 (working u) q"
  using assms by (auto simp: causal_predecessor_applied_def causal_parent_def get_boundary_at message_consumed_def
      split: if_splits option.splits)

text \<open>A new message.\<close>

definition children_ok :: "'v state \<Rightarrow> boundary_message \<Rightarrow> bool" where
  "children_ok s m \<longleftrightarrow> (\<forall>k d child. delivery_at s k = Some d \<longrightarrow> message_at s (bd_message_id d) = Some child \<longrightarrow>
     causal_parent child = Some (bm_message_id m) \<longrightarrow> bm_correlation_id child = bm_correlation_id m \<and>
       bm_produced_at m \<le> bm_produced_at child \<and> bd_status d \<noteq> CONSUMED)"

lemma descendants_children_ok:
  assumes "validate_existing_descendants m u = Inr ()"
  shows "children_ok (working u) m"
proof -
  have "d \<in> set (uow_boundary_deliveries u)" if "delivery_at (working u) k = Some d" for k d
    using that by (force simp: uow_boundary_deliveries_def dest!: map_of_SomeD)
  with assms show ?thesis
    by (fastforce simp: validate_existing_descendants_def each_ok_iff children_ok_def causal_parent_def get_boundary_at
        split: if_splits)
qed

text \<open>The state after the publication of a new message.\<close>

definition new_publication ::
  "digest \<Rightarrow> 'v state \<Rightarrow> 'v state \<Rightarrow> boundary_message \<Rightarrow> boundary_delivery \<Rightarrow> bool" where
  "new_publication uuid5 s t m x \<longleftrightarrow>
     pending_delivery uuid5 m = Inr x \<and> message_at s (bm_message_id m) = None \<and> delivery_at s (bd_delivery_id x) = None \<and>
     message_at t = (message_at s)(bm_message_id m \<mapsto> m) \<and> delivery_at t = (delivery_at s)(bd_delivery_id x \<mapsto> x) \<and>
     receipt_at t = receipt_at s \<and> children_ok s m \<and>
     (\<forall>j. causal_parent m = Some j \<longrightarrow> (j, bm_message_id m) \<notin> (causes s)\<^sup>* \<and>
        (\<forall>q. message_at s j = Some q \<longrightarrow> bm_correlation_id q = bm_correlation_id m \<and> bm_produced_at q \<le> bm_produced_at m))"

lemma new_publicationD:
  assumes "new_publication uuid5 s t m x"
  shows "pending_delivery uuid5 m = Inr x" "message_at s (bm_message_id m) = None" "delivery_at s (bd_delivery_id x) = None"
    "message_at t = (message_at s)(bm_message_id m \<mapsto> m)" "delivery_at t = (delivery_at s)(bd_delivery_id x \<mapsto> x)"
    "receipt_at t = receipt_at s" "children_ok s m"
    "causal_parent m = Some j \<Longrightarrow> (j, bm_message_id m) \<notin> (causes s)\<^sup>*"
    "causal_parent m = Some j \<Longrightarrow> message_at s j = Some q \<Longrightarrow>
       bm_correlation_id q = bm_correlation_id m \<and> bm_produced_at q \<le> bm_produced_at m"
  using assms by (auto simp: new_publication_def)

lemma publication_deliveries_ok:
  assumes "new_publication uuid5 s t m x" and old: "deliveries_ok uuid5 s"
  shows "deliveries_ok uuid5 t"
proof -
  note P = new_publicationD [OF assms(1)]
  have none: "receipt_at s (bd_delivery_id x) = None"
    using old P(3) unfolding deliveries_ok_def by (metis not_None_eq)
  have a: "bd_delivery_id e = i \<and> delivery_ok e \<and> receipt_ok uuid5 t e \<and>
      (\<exists>m x. message_at t (bd_message_id e) = Some m \<and> same_contract e m \<and> pending_delivery uuid5 m = Inr x \<and> bd_delivery_id x = i)"
    if "delivery_at t i = Some e" for i e
  proof (cases "i = bd_delivery_id x")
    case True
    with that have "e = x" by (simp add: P(5))
    with True none pending_delivery_fields [OF P(1)] P(1) show ?thesis
      by (auto simp: P(4,6) receipt_ok_def same_contract_def)
  next
    case False
    with that old have "bd_delivery_id e = i \<and> delivery_ok e \<and> receipt_ok uuid5 s e \<and>
      (\<exists>m x. message_at s (bd_message_id e) = Some m \<and> same_contract e m \<and> pending_delivery uuid5 m = Inr x \<and> bd_delivery_id x = i)"
      unfolding deliveries_ok_def P(5) by auto
    then show ?thesis using P(2) unfolding receipt_ok_def P(4,6) by (metis fun_upd_other option.distinct(1))
  qed
  have b: "bm_message_id n = i \<and> (\<exists>x e. pending_delivery uuid5 n = Inr x \<and> delivery_at t (bd_delivery_id x) = Some e \<and> bd_message_id e = i)"
    if "message_at t i = Some n" for i n
  proof (cases "i = bm_message_id m")
    case True
    with that P(1) pending_delivery_fields(1) [OF P(1)] show ?thesis by (auto simp: P(4,5) same_contract_def)
  next
    case False
    with that old obtain y e where "bm_message_id n = i" "pending_delivery uuid5 n = Inr y"
      "delivery_at s (bd_delivery_id y) = Some e" "bd_message_id e = i"
      unfolding deliveries_ok_def P(4) by (metis fun_upd_other)
    with P(3) show ?thesis by (auto simp: P(5))
  qed
  have c: "delivery_at t i \<noteq> None" if "receipt_at t i = Some r" for i r
    using that old unfolding deliveries_ok_def P(5,6) by auto
  from a b c show ?thesis unfolding deliveries_ok_def by blast
qed

lemma publication_consumed_iff:
  assumes "new_publication uuid5 s t m x"
  shows "message_consumed uuid5 t q \<longleftrightarrow> message_consumed uuid5 s q"
proof -
  note P = new_publicationD [OF assms]
  have "(\<exists>d. delivery_at t k = Some d \<and> bd_status d = CONSUMED) \<longleftrightarrow> (\<exists>d. delivery_at s k = Some d \<and> bd_status d = CONSUMED)" for k
    using pending_delivery_fields(2) [OF P(1)] P(3) by (simp add: P(5))
  then show ?thesis unfolding message_consumed_def by blast
qed

lemma publication_acyclic:
  assumes "new_publication uuid5 s t m x" and "acyclic (causes s)"
  shows "acyclic (causes t)"
proof -
  note P = new_publicationD [OF assms(1)]
  have ins: "causes t = causes s \<union> {(bm_message_id m, j) | j. causal_parent m = Some j}"
    using P(2) unfolding causes_def P(4) by (auto split: if_splits)
  show ?thesis
  proof (cases "causal_parent m")
    case None
    then show ?thesis using assms(2) by (simp add: ins)
  next
    case (Some j)
    then have "causes t = insert (bm_message_id m, j) (causes s)" by (auto simp: ins)
    with P(8) [OF Some] assms(2) show ?thesis by (simp add: acyclic_insert)
  qed
qed

lemma publication_child:
  assumes "new_publication uuid5 s t m x" and "deliveries_ok uuid5 s"
    and "message_at s i = Some c" and "causal_parent c = Some (bm_message_id m)"
  shows "bm_correlation_id c = bm_correlation_id m \<and> bm_produced_at m \<le> bm_produced_at c \<and> \<not> message_consumed uuid5 s c"
proof -
  obtain y d where y: "pending_delivery uuid5 c = Inr y" "delivery_at s (bd_delivery_id y) = Some d" "bd_message_id d = i"
    using assms(2,3) unfolding deliveries_ok_def by blast
  with new_publicationD(7) [OF assms(1)] assms(3,4) show ?thesis by (auto simp: children_ok_def message_consumed_def)
qed

lemma publication_inv:
  assumes "new_publication uuid5 s t m x" and "boundary_inv uuid5 s"
  shows "boundary_inv uuid5 t"
proof -
  note P = new_publicationD [OF assms(1)]
  have old: "deliveries_ok uuid5 s" and cs: "causality_ok uuid5 s" using assms(2) by (auto simp: boundary_inv_def)
  have own: "\<not> message_consumed uuid5 s m" using P(1,3) by (auto simp: message_consumed_def)
  have "link_ok uuid5 t c q"
    if h: "message_at t i = Some c" "causal_parent c = Some j" "message_at t j = Some q" for i c j q
  proof (cases "i = bm_message_id m")
    case True
    with h have c: "c = m" by (simp add: P(4))
    with h(2) P(8) have "j \<noteq> bm_message_id m" by auto
    with h(3) have "message_at s j = Some q" by (simp add: P(4))
    with P(9) h(2) c own show ?thesis by (auto simp: link_ok_def publication_consumed_iff [OF assms(1)])
  next
    case False
    with h have c: "message_at s i = Some c" by (simp add: P(4))
    show ?thesis
    proof (cases "j = bm_message_id m")
      case True
      with h(3) have "q = m" by (simp add: P(4))
      with publication_child [OF assms(1) old c] h(2) True show ?thesis
        by (auto simp: link_ok_def publication_consumed_iff [OF assms(1)])
    next
      case False
      with h(3) have "message_at s j = Some q" by (simp add: P(4))
      with cs c h(2) have "link_ok uuid5 s c q" unfolding causality_ok_def by blast
      then show ?thesis by (simp add: link_ok_def publication_consumed_iff [OF assms(1)])
    qed
  qed
  with publication_deliveries_ok [OF assms(1) old] publication_acyclic [OF assms(1)] cs show ?thesis
    unfolding boundary_inv_def causality_ok_def by blast
qed

text \<open>The state after the change of one open delivery, by a claim or an acknowledgement.\<close>

definition same_identity :: "boundary_delivery \<Rightarrow> boundary_delivery \<Rightarrow> bool" where
  "same_identity d d' \<longleftrightarrow> bd_delivery_id d' = bd_delivery_id d \<and> bd_message_id d' = bd_message_id d \<and>
     bd_destination_domain d' = bd_destination_domain d \<and> bd_contract_name d' = bd_contract_name d \<and>
     bd_contract_version d' = bd_contract_version d"

definition delivery_update ::
  "digest \<Rightarrow> 'v state \<Rightarrow> 'v state \<Rightarrow> string \<Rightarrow> boundary_delivery \<Rightarrow> boundary_delivery \<Rightarrow> bool" where
  "delivery_update uuid5 s t k d d' \<longleftrightarrow>
     delivery_at s k = Some d \<and> bd_status d \<noteq> CONSUMED \<and> same_identity d d' \<and> delivery_ok d' \<and>
     message_at t = message_at s \<and> delivery_at t = (delivery_at s)(k \<mapsto> d') \<and>
     (\<forall>i. i \<noteq> k \<longrightarrow> receipt_at t i = receipt_at s i) \<and> receipt_ok uuid5 t d' \<and>
     (bd_status d' = CONSUMED \<longrightarrow> (\<forall>m j q. message_at s (bd_message_id d) = Some m \<longrightarrow> causal_parent m = Some j \<longrightarrow>
        message_at s j = Some q \<longrightarrow> message_consumed uuid5 s q))"

lemma delivery_updateD:
  assumes "delivery_update uuid5 s t k d d'"
  shows "delivery_at s k = Some d" "bd_status d \<noteq> CONSUMED" "same_identity d d'" "delivery_ok d'"
    "message_at t = message_at s" "delivery_at t = (delivery_at s)(k \<mapsto> d')"
    "i \<noteq> k \<Longrightarrow> receipt_at t i = receipt_at s i" "receipt_ok uuid5 t d'"
    "bd_status d' = CONSUMED \<Longrightarrow> message_at s (bd_message_id d) = Some m \<Longrightarrow> causal_parent m = Some j \<Longrightarrow>
       message_at s j = Some q \<Longrightarrow> message_consumed uuid5 s q"
  using assms unfolding delivery_update_def by blast+

lemma update_deliveries_ok:
  assumes "delivery_update uuid5 s t k d d'" and old: "deliveries_ok uuid5 s"
  shows "deliveries_ok uuid5 t"
proof -
  note U = delivery_updateD [OF assms(1)]
  have a: "bd_delivery_id e = i \<and> delivery_ok e \<and> receipt_ok uuid5 t e \<and>
      (\<exists>m x. message_at t (bd_message_id e) = Some m \<and> same_contract e m \<and> pending_delivery uuid5 m = Inr x \<and> bd_delivery_id x = i)"
    if "delivery_at t i = Some e" for i e
  proof (cases "i = k")
    case True
    with that have e: "e = d'" by (simp add: U(6))
    obtain m x where "message_at s (bd_message_id d) = Some m" "same_contract d m" "pending_delivery uuid5 m = Inr x"
      "bd_delivery_id x = k" "bd_delivery_id d = k" using old U(1) unfolding deliveries_ok_def by blast
    with e True U(3,4,8) show ?thesis by (auto simp: U(5) same_contract_def same_identity_def)
  next
    case False
    with that old have e: "bd_delivery_id e = i \<and> delivery_ok e \<and> receipt_ok uuid5 s e \<and>
      (\<exists>m x. message_at s (bd_message_id e) = Some m \<and> same_contract e m \<and> pending_delivery uuid5 m = Inr x \<and> bd_delivery_id x = i)"
      unfolding deliveries_ok_def U(6) by auto
    with False have "receipt_ok uuid5 t e = receipt_ok uuid5 s e" by (simp add: receipt_ok_def U(7))
    with e show ?thesis by (simp add: U(5))
  qed
  have b: "bm_message_id m = i \<and> (\<exists>x e. pending_delivery uuid5 m = Inr x \<and> delivery_at t (bd_delivery_id x) = Some e \<and> bd_message_id e = i)"
    if msg: "message_at t i = Some m" for i m
  proof -
    obtain x e where "bm_message_id m = i" "pending_delivery uuid5 m = Inr x" "delivery_at s (bd_delivery_id x) = Some e" "bd_message_id e = i"
      using msg old unfolding U(5) deliveries_ok_def by blast
    with U(1,3) show ?thesis by (cases "bd_delivery_id x = k") (auto simp: U(6) same_identity_def)
  qed
  have c: "delivery_at t i \<noteq> None" if "receipt_at t i = Some r" for i r
    using that old U(7) [of i] by (cases "i = k") (auto simp: U(6) deliveries_ok_def)
  from a b c show ?thesis unfolding deliveries_ok_def by blast
qed

lemma update_consumed_mono:
  assumes "delivery_update uuid5 s t k d d'"
  shows "message_consumed uuid5 s m \<Longrightarrow> message_consumed uuid5 t m"
proof (rule message_consumed_mono [of s])
  note U = delivery_updateD [OF assms]
  show "\<exists>e'. delivery_at t i = Some e' \<and> bd_status e' = CONSUMED" if "delivery_at s i = Some e" "bd_status e = CONSUMED" for i e
    using that U(1,2) by (auto simp: U(6))
qed

lemma update_consumed_new:
  assumes "delivery_update uuid5 s t k d d'" and "deliveries_ok uuid5 s"
    and "message_consumed uuid5 t m" and "message_at s i = Some m"
  shows "message_consumed uuid5 s m \<or> (bd_status d' = CONSUMED \<and> message_at s (bd_message_id d) = Some m)"
proof -
  note U = delivery_updateD [OF assms(1)]
  obtain x e where x: "pending_delivery uuid5 m = Inr x" "delivery_at t (bd_delivery_id x) = Some e" "bd_status e = CONSUMED"
    using assms(3) by (auto simp: message_consumed_def)
  obtain e' where e': "delivery_at s (bd_delivery_id x) = Some e'" "bd_message_id e' = i"
    using assms(2,4) x(1) unfolding deliveries_ok_def by (metis Inr_inject)
  show ?thesis
  proof (cases "bd_delivery_id x = k")
    case True
    with x(2,3) e' U(1) assms(4) show ?thesis by (auto simp: U(6))
  next
    case False
    with x show ?thesis by (auto simp: U(6) message_consumed_def)
  qed
qed

lemma update_inv:
  assumes "delivery_update uuid5 s t k d d'" and "boundary_inv uuid5 s"
  shows "boundary_inv uuid5 t"
proof -
  note U = delivery_updateD [OF assms(1)]
  have old: "deliveries_ok uuid5 s" and cs: "causality_ok uuid5 s" using assms(2) by (auto simp: boundary_inv_def)
  have c: "causes t = causes s" by (simp add: causes_def U(5))
  have "link_ok uuid5 t m q" if h: "message_at s i = Some m" "causal_parent m = Some j" "message_at s j = Some q" for i m j q
  proof -
    have "link_ok uuid5 s m q" using cs h unfolding causality_ok_def by blast
    then show ?thesis
      using update_consumed_mono [OF assms(1)] update_consumed_new [OF assms(1) old _ h(1)] U(9) [OF _ _ h(2,3)]
      unfolding link_ok_def by blast
  qed
  with cs update_deliveries_ok [OF assms(1) old] show ?thesis by (simp add: boundary_inv_def causality_ok_def c U(5))
qed

lemma save_boundary_effects:
  "save_boundary_message m u = Inr u' \<Longrightarrow> working u' = (working u)\<lparr>st_boundary_messages :=
     dset (bm_message_id m) m (st_boundary_messages (working u))\<rparr>"
  "save_boundary_delivery d u = Inr u' \<Longrightarrow> working u' = (working u)\<lparr>st_boundary_deliveries :=
     dset (bd_delivery_id d) d (st_boundary_deliveries (working u))\<rparr>"
  "save_boundary_consumption c u = Inr u' \<Longrightarrow> working u' = (working u)\<lparr>st_boundary_consumptions :=
     dset (bc_delivery_id c) c (st_boundary_consumptions (working u))\<rparr>"
  "save_job_state j u = Inr u' \<Longrightarrow> same_boundary (working u) (working u')"
  by (auto simp: uow_mutators same_boundary_def)

lemma charge_recovery_boundary: "charge_recovery m job u = Inr u' \<Longrightarrow> same_boundary (working u) (working u')"
  by (auto simp: charge_recovery_def same_boundary_def split: option.splits if_splits dest!: save_boundary_effects(4))

lemma publish_body_effect:
  assumes run: "publish_body m x job u = Inr (d, u')" and x: "pending_delivery uuid5 m = Inr x"
    and inv: "boundary_inv uuid5 (working u)"
  shows "(u' = u \<and> message_at (working u) (bm_message_id m) = Some m \<and> delivery_at (working u) (bd_delivery_id x) = Some d) \<or>
    (d = x \<and> new_publication uuid5 (working u) (working u') m x)"
proof (cases "message_at (working u) (bm_message_id m)")
  case (Some m')
  with run have m': "m' = m" by (auto simp: publish_body_def get_boundary_at)
  with inv Some x obtain e where "delivery_at (working u) (bd_delivery_id x) = Some e"
    unfolding boundary_inv_def deliveries_ok_def by (metis Inr_inject)
  with run Some m' show ?thesis by (auto simp: publish_body_def get_boundary_at)
next
  case None
  with run obtain u1 u2 where ok: "validate_causation m u = Inr ()" "validate_existing_descendants m u = Inr ()"
    and u1: "charge_recovery m job u = Inr u1" and u2: "save_boundary_message m u1 = Inr u2"
    and rest: "(case get_boundary_delivery (bd_delivery_id x) u2 of
       Some existing \<Rightarrow> guards [(\<not> same_contract existing m, ValueError (''boundary delivery identity conflict: '' @ bd_delivery_id x))] (existing, u2)
     | None \<Rightarrow> bind_res (save_boundary_delivery x u2) (\<lambda>u. Inr (x, u))) = Inr (d, u')"
    by (auto simp: publish_body_def get_boundary_at)
  have w2: "message_at (working u2) = (message_at (working u))(bm_message_id m \<mapsto> m)"
    "delivery_at (working u2) = delivery_at (working u)" "receipt_at (working u2) = receipt_at (working u)"
    using charge_recovery_boundary [OF u1] save_boundary_effects(1) [OF u2] by (auto simp: same_boundary_def)
  have fresh: "delivery_at (working u) (bd_delivery_id x) = None"
  proof (rule ccontr)
    assume "\<not> ?thesis"
    then obtain e where e: "delivery_at (working u) (bd_delivery_id x) = Some e" by auto
    with rest w2(2) have "same_contract e m" by (auto simp: get_boundary_at)
    moreover obtain n where "message_at (working u) (bd_message_id e) = Some n"
      using inv e unfolding boundary_inv_def deliveries_ok_def by blast
    ultimately show False using None by (simp add: same_contract_def)
  qed
  with rest w2(2) have d: "d = x" and u': "save_boundary_delivery x u2 = Inr u'" by (auto simp: get_boundary_at)
  have "new_publication uuid5 (working u) (working u') m x"
    unfolding new_publication_def
    using x None fresh w2 save_boundary_effects(2) [OF u'] descendants_children_ok [OF ok(2)]
      validate_causation_parent [OF ok(1)] by auto
  with d show ?thesis by simp
qed

text \<open>Candidates are the selected deliveries with an applied predecessor; the least key wins.\<close>

definition eligible :: "digest \<Rightarrow> claim_query \<Rightarrow> 'v uow \<Rightarrow> boundary_delivery \<Rightarrow> boundary_message \<Rightarrow> bool" where
  "eligible uuid5 q u d m \<longleftrightarrow> selects q d \<and> get_boundary_message (bd_message_id d) u = Some m \<and> correlates q m \<and>
     causal_predecessor_applied uuid5 m u = Inr True"

lemma claim_candidates_iff:
  assumes "claim_candidates uuid5 q u ds = Inr cs"
  shows "c \<in> set cs \<longleftrightarrow> (\<exists>d m. d \<in> set ds \<and> eligible uuid5 q u d m \<and> c = ((bm_produced_at m, bd_delivery_id d), d))"
  using assms
proof (induction ds arbitrary: cs)
  case (Cons d ds)
  show ?case
  proof (cases "\<exists>m. eligible uuid5 q u d m")
    case True
    then obtain m where m: "eligible uuid5 q u d m" by blast
    with Cons.prems obtain cs' where cs': "claim_candidates uuid5 q u ds = Inr cs'"
      "cs = ((bm_produced_at m, bd_delivery_id d), d) # cs'" by (auto simp: eligible_def)
    have "eligible uuid5 q u d m' \<longleftrightarrow> m' = m" for m' using m by (auto simp: eligible_def)
    then show ?thesis unfolding cs'(2) using Cons.IH [OF cs'(1)] by auto
  next
    case False
    with Cons.prems have "claim_candidates uuid5 q u ds = Inr cs"
      by (auto simp: eligible_def split: if_splits option.splits)
    with Cons.IH False show ?thesis by auto
  qed
qed simp

lemma first_min_least:
  "first_min best xs \<in> insert best (set xs) \<and> (\<forall>y \<in> insert best (set xs). fst (first_min best xs) \<le> fst y)"
proof (induction xs arbitrary: best)
  case (Cons x xs)
  from Cons.IH [of x] Cons.IH [of best] show ?case by auto
qed simp

lemma claimed_by_effect:
  assumes "claimed_by q d = Inr d'" and "check_query q = Inr ()" and "delivery_ok d" and "bd_status d \<noteq> CONSUMED"
  shows "delivery_ok d'" "same_identity d d'" "bd_status d' = CLAIMED" "bd_claim_epoch d' = bd_claim_epoch d + 1"
    "bd_claim_owner_id d' = Some (cq_owner_id q)" "bd_lease_expires_at d' = Some (cq_now q + cq_lease_duration q)"
    "bd_claimed_at d' = Some (cq_now q)"
proof -
  have q: "\<not> blank (cq_owner_id q)" "0 < cq_lease_duration q" using assms(2) by (auto simp: check_query_def)
  have d': "d' = d\<lparr>bd_status := CLAIMED, bd_attempts := bd_attempts d + 1, bd_claim_owner_id := Some (cq_owner_id q),
      bd_claim_epoch := bd_claim_epoch d + 1, bd_claimed_at := Some (cq_now q),
      bd_lease_expires_at := Some (cq_now q + cq_lease_duration q), bd_consumed_at := None, bd_consumer_effect_id := None,
      bd_last_error := None\<rparr>" and mk: "mk_boundary_delivery d' = Inr d'"
    using assms(1) by (auto simp: claimed_by_def dt_add_Inr_iff mk_boundary_delivery_iff)
  have "bd_attempts d = bd_claim_epoch d" "0 \<le> bd_claim_epoch d"
    using assms(3) by (auto simp: delivery_ok_def mk_boundary_delivery_iff)
  with mk q show "delivery_ok d'" unfolding delivery_ok_def by (simp add: d')
qed (use assms(1) in \<open>auto simp: claimed_by_def dt_add_Inr_iff mk_boundary_delivery_iff same_identity_def\<close>)

text \<open>What a lease says about the claim it stands for.\<close>

definition lease_of :: "boundary_delivery \<Rightarrow> boundary_lease" where
  "lease_of d = \<lparr>bl_delivery_id = bd_delivery_id d, bl_message_id = bd_message_id d, bl_owner_id = the (bd_claim_owner_id d),
     bl_epoch = bd_claim_epoch d, bl_lease_expires_at = the (bd_lease_expires_at d)\<rparr>"

lemma deliveries_uow_iff:
  assumes "keyed bd_delivery_id (st_boundary_deliveries (working u))"
  shows "d \<in> set (uow_boundary_deliveries u) \<longleftrightarrow> delivery_at (working u) (bd_delivery_id d) = Some d"
  using assms by (force simp: uow_boundary_deliveries_def keyed_def dest: map_of_SomeD intro: map_of_is_SomeI)

lemma claim_body_effect:
  assumes run: "claim_body uuid5 q u = Inr (r, u')" and q: "check_query q = Inr ()"
    and inv: "boundary_inv uuid5 (working u)" and keyed: "keyed bd_delivery_id (st_boundary_deliveries (working u))"
  obtains (nothing) "r = None" and "u' = u" and "\<And>d m. d \<in> set (uow_boundary_deliveries u) \<Longrightarrow> \<not> eligible uuid5 q u d m"
  | (leased) d d' m where "r = Some (lease_of d')"
      and "delivery_update uuid5 (working u) (working u') (bd_delivery_id d) d d'" and "eligible uuid5 q u d m"
      and "bd_status d' = CLAIMED" and "bd_claim_epoch d' = bd_claim_epoch d + 1" and "bd_claim_owner_id d' = Some (cq_owner_id q)"
      and "bd_lease_expires_at d' = Some (cq_now q + cq_lease_duration q)"
      and "\<And>e n. e \<in> set (uow_boundary_deliveries u) \<Longrightarrow> eligible uuid5 q u e n \<Longrightarrow>
             (bm_produced_at m, bd_delivery_id d) \<le> (bm_produced_at n, bd_delivery_id e)"
proof -
  obtain cs where cs: "claim_candidates uuid5 q u (uow_boundary_deliveries u) = Inr cs"
    using run by (auto simp: claim_body_def)
  note iff = claim_candidates_iff [OF cs]
  show ?thesis
  proof (cases cs)
    case Nil
    with iff have "d \<in> set (uow_boundary_deliveries u) \<Longrightarrow> \<not> eligible uuid5 q u d m" for d m by fastforce
    with Nil run cs show ?thesis by (intro that(1)) (auto simp: claim_body_def)
  next
    case (Cons c cs')
    define best where "best = first_min c cs'"
    have best: "best \<in> set cs" "\<And>y. y \<in> set cs \<Longrightarrow> fst best \<le> fst y" using first_min_least [of c cs'] Cons by (auto simp: best_def)
    obtain d m where d: "best = ((bm_produced_at m, bd_delivery_id d), d)" "d \<in> set (uow_boundary_deliveries u)"
      "eligible uuid5 q u d m" using best(1) iff by blast
    obtain d' lease where d': "claimed_by q d = Inr d'" "save_boundary_delivery d' u = Inr u'" "r = Some lease"
      and lease: "lease = \<lparr>bl_delivery_id = bd_delivery_id d', bl_message_id = bd_message_id d', bl_owner_id = cq_owner_id q,
         bl_epoch = bd_claim_epoch d', bl_lease_expires_at = the (bd_lease_expires_at d')\<rparr>"
      using run cs Cons d(1) by (auto simp: claim_body_def best_def [symmetric] mk_boundary_lease_def)
    have at: "delivery_at (working u) (bd_delivery_id d) = Some d" using d(2) by (simp add: deliveries_uow_iff [OF keyed])
    have ok: "delivery_ok d" "receipt_ok uuid5 (working u) d" using inv at unfolding boundary_inv_def deliveries_ok_def by blast+
    have open': "bd_status d \<noteq> CONSUMED" using d(3) by (simp add: eligible_def selects_def)
    note eff = claimed_by_effect [OF d'(1) q ok(1) open']
    have "delivery_update uuid5 (working u) (working u') (bd_delivery_id d) d d'"
      unfolding delivery_update_def
      using at open' eff ok(2) save_boundary_effects(2) [OF d'(2)] by (auto simp: receipt_ok_def same_identity_def)
    moreover have "(bm_produced_at m, bd_delivery_id d) \<le> (bm_produced_at n, bd_delivery_id e)"
      if "e \<in> set (uow_boundary_deliveries u)" "eligible uuid5 q u e n" for e n
      using best(2) [of "((bm_produced_at n, bd_delivery_id e), e)"] that iff d(1) by auto
    moreover have "lease = lease_of d'" using eff lease by (simp add: lease_of_def)
    ultimately show ?thesis using d(3) d'(3) eff by (intro that(2) [of d' d m]) auto
  qed
qed

lemma create_consumption_identity:
  "same_identity d d' \<Longrightarrow> create_consumption uuid5 d' = create_consumption uuid5 d"
  by (simp add: create_consumption_def consumption_id_def same_identity_def fun_eq_iff)

lemma create_consumption_fields:
  assumes "create_consumption uuid5 d e now = Inr c"
  shows "bc_delivery_id c = bd_delivery_id d" "bc_message_id c = bd_message_id d" "bc_consumer_effect_id c = e"
    "bc_consumed_at c = now"
  using assms by (auto simp: create_consumption_def mk_boundary_consumption_def)

lemma acknowledge_delivery_effect:
  assumes run: "acknowledge_delivery uuid5 d None e now u = Inr (c, u')" and ok: "delivery_ok d" and claim: "assert_current_claim d lease now = Inr ()"
  obtains d' where "same_identity d d'" and "delivery_ok d'" and "bd_status d' = CONSUMED"
    and "bd_consumer_effect_id d' = Some e" and "bd_consumed_at d' = Some now" and "create_consumption uuid5 d e now = Inr c"
    and "bd_claim_epoch d' = bd_claim_epoch d"
    and "working u' = (working u)\<lparr>st_boundary_consumptions := dset (bd_delivery_id d) c (st_boundary_consumptions (working u)),
       st_boundary_deliveries := dset (bd_delivery_id d) d' (st_boundary_deliveries (working u))\<rparr>"
proof -
  let ?d = "d\<lparr>bd_status := CONSUMED, bd_consumed_at := Some now, bd_consumer_effect_id := Some e\<rparr>"
  obtain u1 where e: "\<not> blank e" and c: "create_consumption uuid5 d e now = Inr c"
    and u1: "save_boundary_consumption c u = Inr u1" and mk: "mk_boundary_delivery ?d = Inr ?d"
    and u': "save_boundary_delivery ?d u1 = Inr u'"
    using run by (auto simp: acknowledge_delivery_def mk_boundary_delivery_iff split: if_splits)
  have "\<exists>t x. bd_claimed_at d = Some t \<and> bd_lease_expires_at d = Some x \<and> t \<le> now \<and> now < x" and "bd_status d = CLAIMED"
    using claim by (auto simp: assert_current_claim_def split: option.splits)
  with ok e mk have "delivery_ok ?d" by (auto simp: delivery_ok_def)
  moreover have "working u' = (working u)\<lparr>st_boundary_consumptions := dset (bd_delivery_id d) c (st_boundary_consumptions (working u)),
       st_boundary_deliveries := dset (bd_delivery_id d) ?d (st_boundary_deliveries (working u))\<rparr>"
    using save_boundary_effects(3) [OF u1] save_boundary_effects(2) [OF u'] create_consumption_fields(1) [OF c] by simp
  ultimately show ?thesis using c by (intro that [of ?d]) (auto simp: same_identity_def)
qed

lemma consume_body_effect:
  assumes run: "consume_body uuid5 lease reg now u = Inr (c, u')" and reg: "registry_ok reg"
    and inv: "boundary_inv uuid5 (working u)"
  obtains (repeated) d where "u' = u" and "delivery_at (working u) (bl_delivery_id lease) = Some d" and "bd_status d = CONSUMED"
      and "receipt_at (working u) (bl_delivery_id lease) = Some c"
  | (fresh) d d' m h u1 where "delivery_at (working u) (bl_delivery_id lease) = Some d"
      and "assert_current_claim d lease now = Inr ()" and "message_at (working u) (bd_message_id d) = Some m"
      and "causal_predecessor_applied uuid5 m u = Inr True" and "resolve m reg = Inr h"
      and "h m u = Inr (bc_consumer_effect_id c, u1)" and "same_boundary (working u) (working u1)"
      and "working u' = (working u1)\<lparr>st_boundary_consumptions := dset (bd_delivery_id d) c (st_boundary_consumptions (working u1)),
         st_boundary_deliveries := dset (bd_delivery_id d) d' (st_boundary_deliveries (working u1))\<rparr>"
      and "delivery_update uuid5 (working u) (working u') (bl_delivery_id lease) d d'" and "bd_status d' = CONSUMED"
      and "receipt_at (working u') (bl_delivery_id lease) = Some c" and "bd_delivery_id d = bl_delivery_id lease"
      and "bd_claim_epoch d' = bd_claim_epoch d"
proof -
  obtain d where d: "delivery_at (working u) (bl_delivery_id lease) = Some d"
    using run by (auto simp: consume_body_def get_boundary_at split: option.splits)
  then have D: "bd_delivery_id d = bl_delivery_id lease" "delivery_ok d" "receipt_ok uuid5 (working u) d"
    using inv unfolding boundary_inv_def deliveries_ok_def by blast+
  show ?thesis
  proof (cases "bd_status d = CONSUMED")
    case True
    with run d D show ?thesis by (intro that(1) [of d]) (auto simp: consume_body_def get_boundary_at Let_def split: option.splits)
  next
    case False
    with D have none: "receipt_at (working u) (bl_delivery_id lease) = None" by (simp add: receipt_ok_def)
    with run d D(1) False obtain m h e u1 where m: "message_at (working u) (bd_message_id d) = Some m"
      and claim: "assert_current_claim d lease now = Inr ()" and app: "causal_predecessor_applied uuid5 m u = Inr True"
      and h: "resolve m reg = Inr h" "h m u = Inr (e, u1)" and ack: "acknowledge_delivery uuid5 d None e now u1 = Inr (c, u')"
      by (auto simp: consume_body_def get_boundary_at Let_def split: option.splits if_splits)
    from resolve_handler_ok [OF reg h(1)] h(2) have same: "same_boundary (working u) (working u1)" by (auto simp: handler_ok_def)
    from ack D(2) claim obtain d' where d': "same_identity d d'" "delivery_ok d'" "bd_status d' = CONSUMED"
      "bd_consumer_effect_id d' = Some e" "bd_consumed_at d' = Some now" "create_consumption uuid5 d e now = Inr c"
      "bd_claim_epoch d' = bd_claim_epoch d"
      and w: "working u' = (working u1)\<lparr>st_boundary_consumptions := dset (bd_delivery_id d) c (st_boundary_consumptions (working u1)),
       st_boundary_deliveries := dset (bd_delivery_id d) d' (st_boundary_deliveries (working u1))\<rparr>"
      by (rule acknowledge_delivery_effect)
    have receipt: "receipt_at (working u') (bl_delivery_id lease) = Some c" using w D(1) by simp
    have "receipt_ok uuid5 (working u') d'"
      using d' receipt D(1) create_consumption_identity [OF d'(1)] by (simp add: receipt_ok_def same_identity_def)
    then have upd: "delivery_update uuid5 (working u) (working u') (bl_delivery_id lease) d d'"
      unfolding delivery_update_def
      using d False d' w same D(1) predecessor_applied_consumed [OF app] m by (auto simp: same_boundary_def)
    have "h m u = Inr (bc_consumer_effect_id c, u1)" using h(2) create_consumption_fields(3) [OF d'(6)] by simp
    from that(2) [OF d claim m app h(1) this same w upd d'(3) receipt D(1) d'(7)] show ?thesis .
  qed
qed

section \<open>Reachable states\<close>

text \<open>
  What may happen to a durable state: publications, claims and acknowledgements by any workers at any time, and any
  other transaction that leaves the protocol records alone. Each of them may also fail.
\<close>

inductive boundary_step :: "digest \<Rightarrow> 'v persistence \<Rightarrow> 'v persistence \<Rightarrow> bool" for uuid5 where
  publish_step: "publish uuid5 m job p = (r, p') \<Longrightarrow> boundary_step uuid5 p p'"
| claim_step: "claim_next uuid5 q p = (r, p') \<Longrightarrow> boundary_step uuid5 p p'"
| consume_step: "consume uuid5 lease reg now p = (r, p') \<Longrightarrow> registry_ok reg \<Longrightarrow> boundary_step uuid5 p p'"
| other_step: "transaction owner_id (body :: ('v, unit) tx_body) p = (r, p') \<Longrightarrow>
    (\<And>u a u'. body u = Inr (a, u') \<Longrightarrow> same_boundary (working u) (working u')) \<Longrightarrow> boundary_step uuid5 p p'"

definition boundary_keyed :: "'v state \<Rightarrow> bool" where
  "boundary_keyed s \<longleftrightarrow> keyed bm_message_id (st_boundary_messages s) \<and> keyed bd_delivery_id (st_boundary_deliveries s) \<and>
     keyed bc_delivery_id (st_boundary_consumptions s)"

definition protocol_inv :: "digest \<Rightarrow> 'v persistence \<Rightarrow> bool" where
  "protocol_inv uuid5 p \<longleftrightarrow> boundary_inv uuid5 (pstate p) \<and> boundary_keyed (pstate p) \<and>
     settled_disjoint (pstate p) \<and> \<not> read_only p"

lemma boundary_keyed_same: "same_boundary s t \<Longrightarrow> boundary_keyed s = boundary_keyed t"
  by (simp add: boundary_keyed_def same_boundary_def)

lemma publish_body_keyed:
  assumes "publish_body m x job u = Inr (d, u')" and "boundary_keyed (working u)"
  shows "boundary_keyed (working u')"
  using assms
  by (auto simp: publish_body_def boundary_keyed_def same_boundary_def split: option.splits
      dest!: save_boundary_effects(1,2) charge_recovery_boundary)

lemma claim_body_keyed:
  assumes "claim_body uuid5 q u = Inr (r, u')" and "boundary_keyed (working u)"
  shows "boundary_keyed (working u')"
  using assms by (auto simp: claim_body_def boundary_keyed_def split: list.splits dest!: save_boundary_effects(2))

lemma transaction_settled:
  assumes "transaction owner_id body p = (r, p')" and "settled_disjoint (pstate p)"
  shows "settled_disjoint (pstate p')" and "read_only p' = read_only p"
  using assms(1)
  by (cases rule: transaction_cases; use assms(2) in \<open>simp add: commit_Inr_iff settled_disjoint_def\<close>)+

lemma publish_cases:
  assumes "publish uuid5 m job p = (r, p')"
  obtains (fails) e where "r = Inl e" and "p' = p"
  | (runs) x d u where "pending_delivery uuid5 m = Inr x" and "r = Inr d"
      and "publish_body m x job (new_uow (pstate p)) = Inr (d, u)" and "p' = p\<lparr>pstate := working u\<rparr>"
      and "settled_disjoint (working u)"
proof (cases "pending_delivery uuid5 m")
  case (Inl e)
  then show ?thesis using assms by (intro that(1) [of e]) (auto simp: publish_def)
next
  case (Inr x)
  with assms that show ?thesis by (auto simp: publish_def commit_Inr_iff settled_disjoint_def elim!: transaction_cases)
qed

lemma claim_cases:
  assumes "claim_next uuid5 q p = (r, p')"
  obtains (fails) e where "r = Inl e" and "p' = p"
  | (runs) l u where "check_query q = Inr ()" and "r = Inr l" and "claim_body uuid5 q (new_uow (pstate p)) = Inr (l, u)"
      and "p' = p\<lparr>pstate := working u\<rparr>" and "settled_disjoint (working u)"
  using assms by (auto simp: claim_next_def commit_Inr_iff settled_disjoint_def split: sum.splits elim!: transaction_cases)

lemma consume_cases:
  assumes "consume uuid5 lease reg now p = (r, p')"
  obtains (fails) e where "r = Inl e" and "p' = p"
  | (runs) c u where "r = Inr c" and "consume_body uuid5 lease reg now (new_uow (pstate p)) = Inr (c, u)"
      and "p' = p\<lparr>pstate := working u\<rparr>" and "settled_disjoint (working u)"
  using assms by (auto simp: consume_def commit_Inr_iff settled_disjoint_def elim!: transaction_cases)

lemma working_new_uow [simp]: "working (new_uow s) = s"
  by (simp add: new_uow_def)

text \<open>
  How the boundary records of a durable state change in one step: not at all, by a new message, or at one open
  delivery. An epoch grows with every claim, and a receipt appears only with the acknowledgement.
\<close>

definition claim_advances :: "boundary_delivery \<Rightarrow> boundary_delivery \<Rightarrow> bool" where
  "claim_advances d d' \<longleftrightarrow> (case bd_status d' of PENDING \<Rightarrow> False
     | CLAIMED \<Rightarrow> bd_claim_epoch d' = bd_claim_epoch d + 1 | CONSUMED \<Rightarrow> bd_claim_epoch d' = bd_claim_epoch d)"

definition protocol_change :: "digest \<Rightarrow> 'v persistence \<Rightarrow> 'v persistence \<Rightarrow> bool" where
  "protocol_change uuid5 p p' \<longleftrightarrow> boundary_keyed (pstate p') \<and> settled_disjoint (pstate p') \<and> read_only p' = read_only p \<and>
     (same_boundary (pstate p) (pstate p') \<or>
      (\<exists>m x. new_publication uuid5 (pstate p) (pstate p') m x) \<or>
      (\<exists>k d d'. delivery_update uuid5 (pstate p) (pstate p') k d d' \<and> claim_advances d d'))"

lemma unchanged_protocol: "protocol_inv uuid5 p \<Longrightarrow> protocol_change uuid5 p p"
  by (simp add: protocol_change_def protocol_inv_def same_boundary_def)

lemma publish_step_change: "publish uuid5 m job p = (r, p') \<Longrightarrow> protocol_inv uuid5 p \<Longrightarrow> protocol_change uuid5 p p'"
proof (erule publish_cases)
  fix x d u
  assume inv: "protocol_inv uuid5 p" and x: "pending_delivery uuid5 m = Inr x" and settled: "settled_disjoint (working u)"
    and run: "publish_body m x job (new_uow (pstate p)) = Inr (d, u)" and p': "p' = p\<lparr>pstate := working u\<rparr>"
  from publish_body_effect [OF run x] publish_body_keyed [OF run] inv settled show "protocol_change uuid5 p p'"
    by (auto simp: protocol_inv_def protocol_change_def p' same_boundary_def)
qed (simp add: unchanged_protocol)

lemma claim_step_change: "claim_next uuid5 q p = (r, p') \<Longrightarrow> protocol_inv uuid5 p \<Longrightarrow> protocol_change uuid5 p p'"
proof (erule claim_cases)
  fix l u
  assume inv: "protocol_inv uuid5 p" and q: "check_query q = Inr ()" and settled: "settled_disjoint (working u)"
    and run: "claim_body uuid5 q (new_uow (pstate p)) = Inr (l, u)" and p': "p' = p\<lparr>pstate := working u\<rparr>"
  have b: "boundary_inv uuid5 (working (new_uow (pstate p)))" "boundary_keyed (working (new_uow (pstate p)))"
    "keyed bd_delivery_id (st_boundary_deliveries (working (new_uow (pstate p))))"
    using inv by (auto simp: protocol_inv_def boundary_keyed_def)
  from run q b(1,3) claim_body_keyed [OF run b(2)] settled show "protocol_change uuid5 p p'"
    by (elim claim_body_effect) (fastforce simp: protocol_change_def p' same_boundary_def claim_advances_def)+
qed (simp add: unchanged_protocol)

lemma consume_step_change:
  "consume uuid5 lease reg now p = (r, p') \<Longrightarrow> registry_ok reg \<Longrightarrow> protocol_inv uuid5 p \<Longrightarrow> protocol_change uuid5 p p'"
proof (erule consume_cases)
  fix c u
  assume inv: "protocol_inv uuid5 p" and reg: "registry_ok reg" and settled: "settled_disjoint (working u)"
    and run: "consume_body uuid5 lease reg now (new_uow (pstate p)) = Inr (c, u)" and p': "p' = p\<lparr>pstate := working u\<rparr>"
  have b: "boundary_inv uuid5 (working (new_uow (pstate p)))" "boundary_keyed (pstate p)"
    using inv by (auto simp: protocol_inv_def)
  from run reg b(1) show "protocol_change uuid5 p p'"
  proof (cases rule: consume_body_effect)
    case (fresh d d' m h u1)
    have "same_identity d d'" using fresh(9) by (simp add: delivery_update_def)
    moreover have "bc_delivery_id c = bd_delivery_id d"
      using fresh(9,10,11,12) by (auto simp: delivery_update_def receipt_ok_def same_identity_def dest!: create_consumption_fields(1))
    ultimately have k: "boundary_keyed (working u)"
      using b(2) fresh(7,8) by (auto simp: boundary_keyed_def same_boundary_def same_identity_def)
    have "claim_advances d d'" using fresh(10,13) by (simp add: claim_advances_def)
    with fresh(9) have "\<exists>k d d'. delivery_update uuid5 (pstate p) (working u) k d d' \<and> claim_advances d d'"
      unfolding working_new_uow by blast
    with k settled show ?thesis by (simp add: protocol_change_def p')
  qed (use inv unchanged_protocol in \<open>simp add: p' protocol_inv_def protocol_change_def same_boundary_def\<close>)
qed (simp add: unchanged_protocol)

lemma other_step_change:
  assumes "transaction owner_id body p = (r, p')"
    and "\<And>u a u'. body u = Inr (a, u') \<Longrightarrow> same_boundary (working u) (working u')" and "protocol_inv uuid5 p"
  shows "protocol_change uuid5 p p'"
  using assms(1)
proof (cases rule: transaction_cases)
  case (2 a u)
  from assms(2) [OF 2(2)] have "same_boundary (pstate p) (working u)" by simp
  with 2 assms(3) boundary_keyed_same show ?thesis
    by (auto simp: protocol_inv_def protocol_change_def commit_Inr_iff settled_disjoint_def)
qed (use assms(3) unchanged_protocol in simp)

lemma boundary_step_change: "boundary_step uuid5 p p' \<Longrightarrow> protocol_inv uuid5 p \<Longrightarrow> protocol_change uuid5 p p'"
  by (induction rule: boundary_step.induct)
    (blast intro: publish_step_change claim_step_change consume_step_change other_step_change)+

lemma protocol_change_inv: "protocol_change uuid5 p p' \<Longrightarrow> protocol_inv uuid5 p \<Longrightarrow> protocol_inv uuid5 p'"
  unfolding protocol_change_def protocol_inv_def using boundary_inv_same publication_inv update_inv by blast

lemma boundary_step_inv: "boundary_step uuid5 p p' \<Longrightarrow> protocol_inv uuid5 p \<Longrightarrow> protocol_inv uuid5 p'"
  by (blast intro: boundary_step_change protocol_change_inv)

lemma new_persistence_protocol: "protocol_inv uuid5 new_persistence"
  by (simp add: protocol_inv_def new_persistence_def empty_state_def boundary_inv_def deliveries_ok_def causality_ok_def
      boundary_keyed_def causes_def acyclic_def settled_disjoint_def)

text \<open>Receipts and epochs only move forward.\<close>

definition moved_on :: "boundary_delivery \<Rightarrow> boundary_delivery \<Rightarrow> bool" where
  "moved_on d d' \<longleftrightarrow> bd_message_id d' = bd_message_id d \<and> bd_claim_epoch d \<le> bd_claim_epoch d' \<and>
     (bd_status d = CONSUMED \<longrightarrow> d' = d)"

definition delivery_kept :: "'v state \<Rightarrow> 'v state \<Rightarrow> bool" where
  "delivery_kept s t \<longleftrightarrow> (\<forall>k d. delivery_at s k = Some d \<longrightarrow> (\<exists>d'. delivery_at t k = Some d' \<and> moved_on d d')) \<and>
     receipt_at s \<subseteq>\<^sub>m receipt_at t \<and> message_at s \<subseteq>\<^sub>m message_at t"

lemma moved_on_refl [simp]: "moved_on d d"
  by (simp add: moved_on_def)

lemma moved_on_trans: "moved_on d d' \<Longrightarrow> moved_on d' d'' \<Longrightarrow> moved_on d d''"
  by (auto simp: moved_on_def)

lemma delivery_kept_refl: "delivery_kept s s"
  by (simp add: delivery_kept_def)

lemma delivery_kept_trans: "delivery_kept s t \<Longrightarrow> delivery_kept t r \<Longrightarrow> delivery_kept s r"
  unfolding delivery_kept_def by (meson map_le_trans moved_on_trans)

lemma update_kept:
  assumes "delivery_update uuid5 s t k d d'" and "claim_advances d d'" and "deliveries_ok uuid5 s"
  shows "delivery_kept s t"
proof -
  note U = delivery_updateD [OF assms(1)]
  have "bd_delivery_id d = k" "receipt_ok uuid5 s d" using assms(3) U(1) unfolding deliveries_ok_def by blast+
  with U(2) have "receipt_at s k = None" by (simp add: receipt_ok_def)
  then have "receipt_at s i = receipt_at t i \<or> receipt_at s i = None" for i using U(7) [of i] by (cases "i = k") auto
  then have "receipt_at s \<subseteq>\<^sub>m receipt_at t" unfolding map_le_def by (metis domIff)
  moreover have "moved_on d d'"
    using assms(2) U(2,3) by (auto simp: moved_on_def claim_advances_def same_identity_def split: delivery_status.splits)
  ultimately show ?thesis using U(1) by (simp add: delivery_kept_def U(5,6))
qed

lemma publication_kept: "new_publication uuid5 s t m x \<Longrightarrow> delivery_kept s t"
  by (auto simp: new_publication_def delivery_kept_def map_le_def)

lemma same_boundary_kept: "same_boundary s t \<Longrightarrow> delivery_kept s t"
  by (simp add: same_boundary_def delivery_kept_def)

lemma change_kept: "protocol_change uuid5 p p' \<Longrightarrow> protocol_inv uuid5 p \<Longrightarrow> delivery_kept (pstate p) (pstate p')"
  unfolding protocol_change_def protocol_inv_def boundary_inv_def
  using update_kept publication_kept same_boundary_kept by blast

lemma steps_kept:
  assumes "(boundary_step uuid5)\<^sup>*\<^sup>* p q" and "protocol_inv uuid5 p"
  shows "protocol_inv uuid5 q \<and> delivery_kept (pstate p) (pstate q)"
  using assms(1)
proof (induction rule: rtranclp_induct)
  case (step q r)
  with boundary_step_change [OF step(2)] show ?case
    by (blast intro: protocol_change_inv delivery_kept_trans change_kept)
qed (use assms(2) delivery_kept_refl in blast)

section \<open>Properties\<close>

lemma reachable_protocol: "(boundary_step uuid5)\<^sup>*\<^sup>* new_persistence p \<Longrightarrow> protocol_inv uuid5 p"
  using steps_kept [OF _ new_persistence_protocol] by blast

lemma consumed_receipt:
  assumes "consume uuid5 lease reg now p = (Inr c, p')" and "registry_ok reg" and "protocol_inv uuid5 p"
  shows "\<exists>d. delivery_at (pstate p') (bl_delivery_id lease) = Some d \<and> bd_status d = CONSUMED \<and>
    receipt_at (pstate p') (bl_delivery_id lease) = Some c"
  using assms(1)
proof (cases rule: consume_cases)
  case (runs c' u)
  then have run: "consume_body uuid5 lease reg now (new_uow (pstate p)) = Inr (c, u)" by simp
  have inv: "boundary_inv uuid5 (working (new_uow (pstate p)))" using assms(3) by (simp add: protocol_inv_def)
  from run assms(2) inv show ?thesis
  proof (cases rule: consume_body_effect)
    case (fresh d d' m h u1)
    then show ?thesis using delivery_updateD(6) [OF fresh(9)] by (simp add: runs(3))
  qed (simp add: runs(3))
qed simp

lemma consume_repeats:
  assumes "protocol_inv uuid5 q" and "delivery_at (pstate q) (bl_delivery_id lease) = Some d" and "bd_status d = CONSUMED"
    and "receipt_at (pstate q) (bl_delivery_id lease) = Some c"
  shows "consume uuid5 lease reg now q = (Inr c, q)"
proof -
  have "bd_delivery_id d = bl_delivery_id lease"
    using assms(1,2) unfolding protocol_inv_def boundary_inv_def deliveries_ok_def by blast
  with assms(2-4) have "consume_body uuid5 lease reg now (new_uow (pstate q)) = Inr (c, new_uow (pstate q))"
    by (simp add: consume_body_def get_boundary_at Let_def)
  with transaction_ok [of "consume_body uuid5 lease reg now" q c "new_uow (pstate q)"] assms(1) show ?thesis
    by (simp add: consume_def protocol_inv_def)
qed

text \<open>
  C6. A message takes effect at most once: once a consumption has succeeded, then after any run of publications, claims,
  consumptions by other workers and unrelated transactions, consuming that delivery again (with any lease, handler
  registry and time) returns the same receipt, runs no handler and changes nothing.
\<close>

theorem boundary_effect_once:
  assumes "(boundary_step uuid5)\<^sup>*\<^sup>* new_persistence p" and "registry_ok reg"
    and "consume uuid5 lease reg now p = (Inr c, p')" and "(boundary_step uuid5)\<^sup>*\<^sup>* p' q"
    and "bl_delivery_id lease' = bl_delivery_id lease"
  shows "consume uuid5 lease' reg' now' q = (Inr c, q)"
proof -
  have inv: "protocol_inv uuid5 p" by (rule reachable_protocol [OF assms(1)])
  have inv': "protocol_inv uuid5 p'" by (rule protocol_change_inv [OF consume_step_change [OF assms(3,2) inv] inv])
  obtain d where d: "delivery_at (pstate p') (bl_delivery_id lease) = Some d" "bd_status d = CONSUMED"
    "receipt_at (pstate p') (bl_delivery_id lease) = Some c" using consumed_receipt [OF assms(3,2) inv] by blast
  have "protocol_inv uuid5 q" and kept: "delivery_kept (pstate p') (pstate q)" using steps_kept [OF assms(4) inv'] by auto
  moreover have "delivery_at (pstate q) (bl_delivery_id lease) = Some d"
    using kept d(1,2) unfolding delivery_kept_def moved_on_def by blast
  moreover have "receipt_at (pstate q) (bl_delivery_id lease) = Some c"
    using kept d(3) unfolding delivery_kept_def map_le_def by (metis domI)
  ultimately show ?thesis using consume_repeats [of uuid5 q lease'] d(2) assms(5) by simp
qed

lemma stale_epoch_refused:
  "bd_claim_epoch d \<noteq> bl_epoch lease \<Longrightarrow> \<exists>msg. assert_current_claim d lease now = Inl (StaleBoundaryClaimError msg)"
  by (cases "bd_status d = CLAIMED") (simp_all add: assert_current_claim_def guards.simps)

lemma claim_lease:
  assumes "claim_next uuid5 q p = (Inr (Some l), p')" and "protocol_inv uuid5 p"
  obtains d d' where "delivery_at (pstate p) (bl_delivery_id l) = Some d" and "delivery_at (pstate p') (bl_delivery_id l) = Some d'"
    and "bd_status d' = CLAIMED" and "bl_epoch l = bd_claim_epoch d'" and "bd_claim_epoch d' = bd_claim_epoch d + 1" and "selects q d"
proof -
  from assms(1) obtain u where q: "check_query q = Inr ()" and run: "claim_body uuid5 q (new_uow (pstate p)) = Inr (Some l, u)"
    and p': "p' = p\<lparr>pstate := working u\<rparr>" by (rule claim_cases) auto
  have b: "boundary_inv uuid5 (working (new_uow (pstate p)))" "keyed bd_delivery_id (st_boundary_deliveries (working (new_uow (pstate p))))"
    using assms(2) by (auto simp: protocol_inv_def boundary_keyed_def)
  from run q b obtain d d' m where l: "Some l = Some (lease_of d')" and upd: "delivery_update uuid5 (pstate p) (working u) (bd_delivery_id d) d d'"
    and el: "eligible uuid5 q (new_uow (pstate p)) d m" and st: "bd_status d' = CLAIMED" "bd_claim_epoch d' = bd_claim_epoch d + 1"
    by (rule claim_body_effect) auto
  note U = delivery_updateD [OF upd]
  have k: "bl_delivery_id l = bd_delivery_id d" using l U(3) by (simp add: lease_of_def same_identity_def)
  show ?thesis
  proof (rule that [of d d'])
    show "delivery_at (pstate p) (bl_delivery_id l) = Some d" using U(1) by (simp add: k)
    show "delivery_at (pstate p') (bl_delivery_id l) = Some d'" by (simp add: p' k U(6))
    show "selects q d" using el by (simp add: eligible_def)
  qed (use l st in \<open>simp_all add: lease_of_def\<close>)
qed

text \<open>
  C7. Claims are fenced: when a delivery is leased again, the new lease has a greater epoch, and from then on the old
  lease is useless however the run goes on. Consuming with it raises StaleBoundaryClaimError, or returns the
  receipt of whoever consumed the delivery meanwhile; in both cases nothing changes.
\<close>

theorem stale_claims_fenced:
  assumes "(boundary_step uuid5)\<^sup>*\<^sup>* new_persistence p"
    and "claim_next uuid5 q1 p = (Inr (Some l1), p1)" and "(boundary_step uuid5)\<^sup>*\<^sup>* p1 p2"
    and "claim_next uuid5 q2 p2 = (Inr (Some l2), p3)" and "(boundary_step uuid5)\<^sup>*\<^sup>* p3 p4"
    and "bl_delivery_id l2 = bl_delivery_id l1"
  shows "bl_epoch l1 < bl_epoch l2 \<and> (\<exists>r. consume uuid5 l1 reg now p4 = (r, p4) \<and>
    ((\<exists>msg. r = Inl (StaleBoundaryClaimError msg)) \<or> (\<exists>c. r = Inr c \<and> receipt_at (pstate p4) (bl_delivery_id l1) = Some c)))"
proof -
  let ?k = "bl_delivery_id l1"
  have i0: "protocol_inv uuid5 p" by (rule reachable_protocol [OF assms(1)])
  have i1: "protocol_inv uuid5 p1" by (rule protocol_change_inv [OF claim_step_change [OF assms(2) i0] i0])
  note k2 = steps_kept [OF assms(3) i1]
  have i3: "protocol_inv uuid5 p3" using claim_step_change [OF assms(4)] k2 by (blast intro: protocol_change_inv)
  note k4 = steps_kept [OF assms(5) i3]
  obtain d1 where d1: "delivery_at (pstate p1) ?k = Some d1" "bl_epoch l1 = bd_claim_epoch d1"
    using assms(2) i0 by (rule claim_lease)
  obtain d2 d3 where d2: "delivery_at (pstate p2) ?k = Some d2" "delivery_at (pstate p3) ?k = Some d3"
    "bl_epoch l2 = bd_claim_epoch d3" "bd_claim_epoch d3 = bd_claim_epoch d2 + 1"
    using claim_lease [OF assms(4)] k2 assms(6) by metis
  have "moved_on d1 d2" using k2 d1(1) d2(1) unfolding delivery_kept_def by fastforce
  then have less: "bl_epoch l1 < bl_epoch l2" using d1 d2 by (simp add: moved_on_def)
  obtain d4 where d4: "delivery_at (pstate p4) ?k = Some d4" "moved_on d3 d4" using k4 d2(2) unfolding delivery_kept_def by blast
  have D: "bd_delivery_id d4 = ?k" "receipt_ok uuid5 (pstate p4) d4"
    using k4 d4(1) unfolding protocol_inv_def boundary_inv_def deliveries_ok_def by blast+
  show ?thesis
  proof (cases "bd_status d4 = CONSUMED")
    case True
    with D obtain c where "receipt_at (pstate p4) ?k = Some c" by (auto simp: receipt_ok_def)
    with consume_repeats [of uuid5 p4 l1 d4 c] k4 d4(1) True less show ?thesis by blast
  next
    case False
    have "bd_claim_epoch d4 \<noteq> bl_epoch l1" using d4(2) d2(3) less by (simp add: moved_on_def)
    then obtain msg where "assert_current_claim d4 l1 now = Inl (StaleBoundaryClaimError msg)"
      using stale_epoch_refused by blast
    with False d4(1) have "consume_body uuid5 l1 reg now (new_uow (pstate p4)) = Inl (StaleBoundaryClaimError msg)"
      by (simp add: consume_body_def get_boundary_at Let_def)
    then show ?thesis using k4 less by (auto simp: consume_def transaction_def fork_state_def protocol_inv_def)
  qed
qed

text \<open>
  C8. Causal order: in every reachable state the stored causal links have no cycle, and a message and the stored message
  that caused it agree on the correlation, are ordered in logical time, and are consumed in that order (a consumed
  message has a consumed cause), also when the cause was published after its successor.
\<close>

theorem causal_order_kept:
  assumes "(boundary_step uuid5)\<^sup>*\<^sup>* new_persistence p"
  shows "acyclic (causes (pstate p)) \<and>
    (\<forall>i m j q. message_at (pstate p) i = Some m \<longrightarrow> causal_parent m = Some j \<longrightarrow> message_at (pstate p) j = Some q \<longrightarrow>
       bm_correlation_id q = bm_correlation_id m \<and> bm_produced_at q \<le> bm_produced_at m \<and>
       (message_consumed uuid5 (pstate p) m \<longrightarrow> message_consumed uuid5 (pstate p) q))"
  using reachable_protocol [OF assms] by (simp add: protocol_inv_def boundary_inv_def causality_ok_def link_ok_def)

text \<open>
  C23. A claim takes the earliest eligible delivery: when claim_next returns, it has either found no eligible
  delivery and changed nothing, or leased the eligible delivery with the least logical time and identity under the
  next epoch, until exactly the end of the lease, and changed no other delivery.
\<close>

theorem claim_takes_earliest:
  assumes "(boundary_step uuid5)\<^sup>*\<^sup>* new_persistence p" and "claim_next uuid5 q p = (Inr r, p')"
  shows "case r of
      None \<Rightarrow> p' = p \<and> (\<forall>k d m. delivery_at (pstate p) k = Some d \<longrightarrow> \<not> eligible uuid5 q (new_uow (pstate p)) d m)
    | Some lease \<Rightarrow> \<exists>k d m d'. delivery_at (pstate p) k = Some d \<and> eligible uuid5 q (new_uow (pstate p)) d m \<and>
        (\<forall>i e n. delivery_at (pstate p) i = Some e \<longrightarrow> eligible uuid5 q (new_uow (pstate p)) e n \<longrightarrow>
           (bm_produced_at m, k) \<le> (bm_produced_at n, i)) \<and>
        delivery_at (pstate p') = (delivery_at (pstate p))(k \<mapsto> d') \<and> bd_status d' = CLAIMED \<and>
        bd_claim_epoch d' = bd_claim_epoch d + 1 \<and>
        lease = \<lparr>bl_delivery_id = k, bl_message_id = bd_message_id d, bl_owner_id = cq_owner_id q, bl_epoch = bd_claim_epoch d',
          bl_lease_expires_at = cq_now q + cq_lease_duration q\<rparr>"
proof -
  have inv: "protocol_inv uuid5 p" by (rule reachable_protocol [OF assms(1)])
  from assms(2) obtain u where q: "check_query q = Inr ()" and run: "claim_body uuid5 q (new_uow (pstate p)) = Inr (r, u)"
    and p': "p' = p\<lparr>pstate := working u\<rparr>" by (rule claim_cases) auto
  have b: "boundary_inv uuid5 (working (new_uow (pstate p)))" "keyed bd_delivery_id (st_boundary_deliveries (working (new_uow (pstate p))))"
    using inv by (auto simp: protocol_inv_def boundary_keyed_def)
  have key: "e \<in> set (uow_boundary_deliveries (new_uow (pstate p))) \<and> bd_delivery_id e = i" if "delivery_at (pstate p) i = Some e" for i e
    using that b inv unfolding protocol_inv_def boundary_inv_def deliveries_ok_def deliveries_uow_iff [OF b(2)] by simp
  from run q b show ?thesis
  proof (cases rule: claim_body_effect)
    case nothing
    then show ?thesis using key by (auto simp: p')
  next
    case (leased d d' m)
    note U = delivery_updateD [OF leased(2)]
    have "r = Some \<lparr>bl_delivery_id = bd_delivery_id d, bl_message_id = bd_message_id d, bl_owner_id = cq_owner_id q,
        bl_epoch = bd_claim_epoch d', bl_lease_expires_at = cq_now q + cq_lease_duration q\<rparr>"
      using leased(1,6,7) U(3) by (simp add: lease_of_def same_identity_def)
    moreover have "(bm_produced_at m, bd_delivery_id d) \<le> (bm_produced_at n, i)"
      if "delivery_at (pstate p) i = Some e" "eligible uuid5 q (new_uow (pstate p)) e n" for i e n
      using leased(8) [of e n] key [OF that(1)] that(2) by simp
    ultimately show ?thesis using leased(3-5) U(1,6)
      by (simp only: option.case working_new_uow p' persistence.simps)
        (rule exI [of _ "bd_delivery_id d"], rule exI [of _ d], rule exI [of _ m], rule exI [of _ d'], simp)
  qed
qed

section \<open>A sample run\<close>

definition one_digest :: digest where
  "one_digest = (\<lambda>_ _. ''u'')"

definition hello :: boundary_message where
  "hello = \<lparr>bm_message_id = ''u'', bm_contract_name = ''ship'', bm_contract_version = 1, bm_source_domain = ''a'',
     bm_source_identity = ''i'', bm_destination_domain = ''b'', bm_occurrence_key = ''o'', bm_correlation_id = ''c'',
     bm_causation_id = None, bm_produced_at = 0, bm_payload_json = ''{}'', bm_payload_hash = ''h'', bm_causation_kind = None\<rparr>"

definition hello_delivery :: "delivery_status \<Rightarrow> int \<Rightarrow> datetime option \<Rightarrow> datetime option \<Rightarrow> boundary_delivery" where
  "hello_delivery st n start done = \<lparr>bd_delivery_id = ''u'', bd_message_id = ''u'', bd_destination_domain = ''b'',
     bd_contract_name = ''ship'', bd_contract_version = 1, bd_status = st, bd_attempts = n,
     bd_claim_owner_id = map_option (\<lambda>_. ''w'') start, bd_claim_epoch = n, bd_claimed_at = start,
     bd_lease_expires_at = map_option (\<lambda>t. t + 10) start, bd_consumed_at = done,
     bd_consumer_effect_id = map_option (\<lambda>_. ''e'') done, bd_last_error = None\<rparr>"

definition hello_state :: "boundary_delivery \<Rightarrow> (string \<times> boundary_consumption) list \<Rightarrow> nat persistence" where
  "hello_state d cs = new_persistence\<lparr>pstate := empty_state\<lparr>st_boundary_messages := [(''u'', hello)],
     st_boundary_deliveries := [(''u'', d)], st_boundary_consumptions := cs\<rparr>\<rparr>"

definition worker_query :: "datetime \<Rightarrow> claim_query" where
  "worker_query now = \<lparr>cq_owner_id = ''w'', cq_now = now, cq_lease_duration = 10, cq_destination_domain = None,
     cq_accepted_contracts = None, cq_message_id = None, cq_correlation_id = None\<rparr>"

definition hello_lease :: "int \<Rightarrow> datetime \<Rightarrow> boundary_lease" where
  "hello_lease n now = \<lparr>bl_delivery_id = ''u'', bl_message_id = ''u'', bl_owner_id = ''w'', bl_epoch = n, bl_lease_expires_at = now + 10\<rparr>"

definition hello_registry :: "nat consumer_registry" where
  "hello_registry = [((None, ''b'', ''ship'', 1), \<lambda>m u. Inr (''e'', u))]"

definition hello_receipt :: boundary_consumption where
  "hello_receipt = \<lparr>bc_consumption_id = ''u'', bc_delivery_id = ''u'', bc_message_id = ''u'', bc_destination_domain = ''b'',
     bc_contract_name = ''ship'', bc_contract_version = 1, bc_consumer_effect_id = ''e'', bc_consumed_at = 25\<rparr>"

lemmas hello_eval =
  one_digest_def hello_def hello_delivery_def hello_state_def worker_query_def hello_lease_def hello_registry_def hello_receipt_def
  new_persistence_def empty_state_def new_uow_def fork_state_def commit_def overlap_def transaction_def guards.simps
  get_boundary_at uow_boundary_deliveries_def by_key_def mark_dirty_def deterministic_id_def encode_deterministic_parts_def
  frame_of_def encode_scalar_def dec_int_def dec_nat_small pending_delivery_def mk_boundary_delivery_def create_consumption_def consumption_id_def
  mk_boundary_consumption_def mk_boundary_lease_def none_or_empty_def require_non_empty_def

lemma hello_published:
  "publish one_digest hello None new_persistence = (Inr (hello_delivery PENDING 0 None None), hello_state (hello_delivery PENDING 0 None None) [])"
  by (simp add: hello_eval publish_def publish_body_def validate_causation_def causation_walk.simps validate_existing_descendants_def
      charge_recovery_def save_boundary_message_def save_boundary_delivery_def)

lemmas claim_eval = hello_eval claim_next_def check_query_def claim_body_def selects_def correlates_def causal_predecessor_applied_def
  validate_causation_def causation_walk.simps claimed_by_def dt_add_def datetime_max_def save_boundary_delivery_def blank_def ascii_space_def

lemma hello_claimed:
  "claim_next one_digest (worker_query 10) (hello_state (hello_delivery PENDING 0 None None) []) =
     (Inr (Some (hello_lease 1 10)), hello_state (hello_delivery CLAIMED 1 (Some 10) None) [])"
  by (simp add: claim_eval)

lemma hello_reclaimed:
  "claim_next one_digest (worker_query 20) (hello_state (hello_delivery CLAIMED 1 (Some 10) None) []) =
     (Inr (Some (hello_lease 2 20)), hello_state (hello_delivery CLAIMED 2 (Some 20) None) [])"
  by (simp add: claim_eval)

lemma hello_consumed:
  "consume one_digest (hello_lease 2 20) hello_registry 25 (hello_state (hello_delivery CLAIMED 2 (Some 20) None) []) =
     (Inr hello_receipt, hello_state (hello_delivery CONSUMED 2 (Some 20) (Some 25)) [(''u'', hello_receipt)])"
  by (simp add: claim_eval consume_def consume_body_def assert_current_claim_def resolve_def acknowledge_delivery_def Let_def
      save_boundary_consumption_def)

lemma hello_registry_ok: "registry_ok hello_registry"
  by (simp add: registry_ok_def hello_registry_def handler_ok_def same_boundary_def)

lemma hello_reachable:
  "(boundary_step one_digest)\<^sup>*\<^sup>* new_persistence (hello_state (hello_delivery PENDING 0 None None) [])"
  "(boundary_step one_digest)\<^sup>*\<^sup>* new_persistence (hello_state (hello_delivery CLAIMED 1 (Some 10) None) [])"
  "(boundary_step one_digest)\<^sup>*\<^sup>* new_persistence (hello_state (hello_delivery CLAIMED 2 (Some 20) None) [])"
proof -
  show a: "(boundary_step one_digest)\<^sup>*\<^sup>* new_persistence (hello_state (hello_delivery PENDING 0 None None) [])"
    using publish_step [OF hello_published] by blast
  with claim_step [OF hello_claimed]
  show b: "(boundary_step one_digest)\<^sup>*\<^sup>* new_persistence (hello_state (hello_delivery CLAIMED 1 (Some 10) None) [])"
    by (rule rtranclp.rtrancl_into_rtrancl [rotated])
  with claim_step [OF hello_reclaimed]
  show "(boundary_step one_digest)\<^sup>*\<^sup>* new_persistence (hello_state (hello_delivery CLAIMED 2 (Some 20) None) [])"
    by (rule rtranclp.rtrancl_into_rtrancl [rotated])
qed

theorem boundary_effect_once_witness:
  "consume one_digest (hello_lease 1 10) [] 99 (hello_state (hello_delivery CONSUMED 2 (Some 20) (Some 25)) [(''u'', hello_receipt)]) =
     (Inr hello_receipt, hello_state (hello_delivery CONSUMED 2 (Some 20) (Some 25)) [(''u'', hello_receipt)])"
  by (rule boundary_effect_once [OF hello_reachable(3) hello_registry_ok hello_consumed]) (simp_all add: hello_lease_def)

theorem stale_claims_fenced_witness:
  "\<exists>r. consume one_digest (hello_lease 1 10) hello_registry 25 (hello_state (hello_delivery CLAIMED 2 (Some 20) None) []) =
     (r, hello_state (hello_delivery CLAIMED 2 (Some 20) None) []) \<and>
   ((\<exists>msg. r = Inl (StaleBoundaryClaimError msg)) \<or>
    (\<exists>c. r = Inr c \<and> receipt_at (pstate (hello_state (hello_delivery CLAIMED 2 (Some 20) None) [])) ''u'' = Some c))"
  using stale_claims_fenced [OF hello_reachable(1) hello_claimed rtranclp.rtrancl_refl hello_reclaimed rtranclp.rtrancl_refl,
      where reg = hello_registry and now = 25] by (simp add: hello_lease_def)

theorem causal_order_kept_witness:
  "\<exists>p :: nat persistence. (boundary_step one_digest)\<^sup>*\<^sup>* new_persistence p \<and> message_at (pstate p) ''u'' = Some hello \<and>
     acyclic (causes (pstate p))"
  using hello_reachable(1) causal_order_kept [OF hello_reachable(1)] by (auto simp: hello_state_def)

theorem claim_takes_earliest_witness:
  "\<exists>k d m. delivery_at (pstate (hello_state (hello_delivery PENDING 0 None None) [])) k = Some d \<and>
     eligible one_digest (worker_query 10) (new_uow (pstate (hello_state (hello_delivery PENDING 0 None None) []))) d m"
  using claim_takes_earliest [OF hello_reachable(1) hello_claimed] by auto

end
