(* ===== verification/Boundary_Observation.thy ===== *)
theory Boundary_Observation
  imports Boundary_Protocol
begin

text \<open>
  \<open>composition/boundary_observation.py\<close>: the read-only reconciliation of selected publications, deliveries and
  acknowledgements against each other, and the cycle check of \<open>composition/audit.py\<close>. The admission of the
  organisation (\<open>validate_organization_admission\<close>) has already produced the admitted edges, which are an argument.
  The main theorem is the promise made at \<open>_assert_current_claim\<close>: the writer never produces a record that the
  observer cannot audit.
\<close>

section \<open>Selection\<close>

record boundary_edge =
  eg_producer_id :: string
  eg_consumer_id :: string

type_synonym admitted_edges = "((string \<times> string \<times> string \<times> int) \<times> boundary_edge) list"

record selected_boundary_receipt =
  sr_message_id :: string
  sr_producer_component_id :: string
  sr_consumer_component_id :: string
  sr_contract_name :: string
  sr_contract_version :: int
  sr_correlation_id :: string
  sr_causation_id :: "string option"
  sr_causation_kind :: "string option"
  sr_delivery_id :: string
  sr_status :: delivery_status
  sr_attempts :: int
  sr_claim_epoch :: int
  sr_claim_worker_id :: "string option"
  sr_consumption_id :: "string option"
  sr_consumer_effect_id :: "string option"

text \<open>\<open>BoundaryMessage.create\<close> derives the identity of a message from these fields.\<close>

definition message_identity :: "digest \<Rightarrow> boundary_message \<Rightarrow> string res" where
  "message_identity uuid5 m = deterministic_id uuid5 ''boundary-message''
     [PStr (bm_source_domain m), PStr (bm_source_identity m), PStr (bm_contract_name m), PInt (bm_contract_version m),
      PStr (bm_destination_domain m), PStr (bm_occurrence_key m)]"

text \<open>
  The shape of the three selection loops: check an element that matches, refuse a second one with the same key, and
  file it in a dict.
\<close>

definition select_into ::
  "('a \<Rightarrow> bool) \<Rightarrow> ('a \<Rightarrow> unit res) \<Rightarrow> ('a \<Rightarrow> string) \<Rightarrow> string \<Rightarrow> 'a \<Rightarrow> (string \<times> 'a) list \<Rightarrow> (string \<times> 'a) list res" where
  "select_into matches check key dup x acc =
     (if \<not> matches x then Inr acc
      else bind_res (check x) (\<lambda>_. guards [(dhas acc (key x), ValueError dup)] (dset (key x) x acc)))"

definition check_publication :: "digest \<Rightarrow> boundary_message \<Rightarrow> unit res" where
  "check_publication uuid5 m =
     (if bm_contract_version m < 1 then Inl (ValueError ''selected boundary publication requires integer contract version'')
      else bind_res (message_identity uuid5 m) (\<lambda>identity. guards
        [(bm_message_id m \<noteq> identity, ValueError ''selected boundary publication has forged deterministic identity'')] ()))"

definition select_messages :: "digest \<Rightarrow> string set \<Rightarrow> boundary_message list \<Rightarrow> (string \<times> boundary_message) list res" where
  "select_messages uuid5 selected ms =
     bind_res (fold_res (select_into (\<lambda>m. bm_message_id m \<in> selected) (check_publication uuid5) bm_message_id
         ''duplicate selected durable boundary message'') ms []) (\<lambda>by_message.
       guards [(\<exists>i \<in> selected. \<not> dhas by_message i, ValueError ''selected durable boundary message missing'')] by_message)"

definition expected_ids :: "digest \<Rightarrow> boundary_message list \<Rightarrow> (string set \<times> string set) res" where
  "expected_ids uuid5 ms =
     fold_res (\<lambda>m (ds, cs). bind_res (pending_delivery uuid5 m) (\<lambda>x. bind_res (consumption_id uuid5 x) (\<lambda>c.
       Inr (insert (bd_delivery_id x) ds, insert c cs)))) ms ({}, {})"

definition check_delivery :: "digest \<Rightarrow> (string \<times> boundary_message) list \<Rightarrow> boundary_delivery \<Rightarrow> unit res" where
  "check_delivery uuid5 by_message d =
     (if bd_contract_version d < 1 then Inl (ValueError ''selected boundary delivery requires integer contract version'')
      else case dget by_message (bd_message_id d) of
          None \<Rightarrow> Inl (ValueError ''selected delivery references another durable message'')
        | Some m \<Rightarrow> bind_res (pending_delivery uuid5 m) (\<lambda>x. guards
            [(bd_delivery_id d \<noteq> bd_delivery_id x, ValueError ''selected delivery identity contradicts publication'')] ()))"

definition select_deliveries ::
  "digest \<Rightarrow> string set \<Rightarrow> string set \<Rightarrow> (string \<times> boundary_message) list \<Rightarrow> boundary_delivery list \<Rightarrow>
     (string \<times> boundary_delivery) list res" where
  "select_deliveries uuid5 selected delivery_ids by_message ds =
     fold_res (select_into (\<lambda>d. bd_message_id d \<in> selected \<or> bd_delivery_id d \<in> delivery_ids) (check_delivery uuid5 by_message)
       bd_delivery_id ''duplicate selected durable boundary delivery'') ds []"

definition check_receipt :: "string set \<Rightarrow> (string \<times> boundary_delivery) list \<Rightarrow> boundary_consumption \<Rightarrow> unit res" where
  "check_receipt delivery_ids by_delivery c = guards
     [(bc_contract_version c < 1, ValueError ''selected boundary ACK requires integer contract version''),
      (bc_delivery_id c \<notin> delivery_ids, ValueError ''selected ACK identity references foreign delivery''),
      (case dget by_delivery (bc_delivery_id c) of None \<Rightarrow> True | Some d \<Rightarrow> bc_message_id c \<noteq> bd_message_id d,
        ValueError ''selected ACK contradicts durable delivery identity'')] ()"

definition select_receipts ::
  "string set \<Rightarrow> string set \<Rightarrow> string set \<Rightarrow> (string \<times> boundary_delivery) list \<Rightarrow> boundary_consumption list \<Rightarrow>
     (string \<times> boundary_consumption) list res" where
  "select_receipts selected delivery_ids consumption_ids by_delivery cs =
     fold_res (select_into (\<lambda>c. bc_message_id c \<in> selected \<or> bc_delivery_id c \<in> delivery_ids \<or> bc_consumption_id c \<in> consumption_ids)
       (check_receipt delivery_ids by_delivery) bc_delivery_id ''duplicate selected durable boundary ACK'') cs []"

section \<open>Reconciliation of one message\<close>

definition check_claim :: "boundary_message \<Rightarrow> boundary_delivery \<Rightarrow> boundary_delivery \<Rightarrow> boundary_consumption option \<Rightarrow> unit res" where
  "check_claim m expected d receipt = guards
     [(d \<noteq> expected \<and> (bd_delivery_id d \<noteq> bd_delivery_id expected \<or> \<not> same_contract d m),
        ValueError ''selected delivery contradicts immutable publication''),
      (case bd_consumer_effect_id d of None \<Rightarrow> False | Some e \<Rightarrow> blank e,
        ValueError ''selected delivery has invalid consumer effect identity''),
      (case receipt of None \<Rightarrow> False | Some c \<Rightarrow> blank (bc_consumer_effect_id c),
        ValueError ''selected ACK has invalid consumer effect identity''),
      (bd_status d = PENDING \<and> (bd_attempts d \<noteq> 0 \<or> bd_claim_epoch d \<noteq> 0),
        ValueError ''pending selected delivery carries impossible claim history''),
      (bd_status d \<in> {CLAIMED, CONSUMED} \<and>
         (bd_attempts d < 1 \<or> bd_claim_epoch d \<noteq> bd_attempts d \<or> blank_owner (bd_claim_owner_id d) \<or>
          (case (bd_claimed_at d, bd_lease_expires_at d) of (Some t, Some x) \<Rightarrow> \<not> t < x | _ \<Rightarrow> True)),
        ValueError ''selected delivery lacks original claim provenance'')] ()"

definition check_acknowledgement :: "digest \<Rightarrow> boundary_delivery \<Rightarrow> boundary_consumption option \<Rightarrow> unit res" where
  "check_acknowledgement uuid5 d receipt =
     (if bd_status d = CONSUMED
      then if (case (bd_claimed_at d, bd_consumed_at d, bd_lease_expires_at d) of
               (Some t, Some a, Some x) \<Rightarrow> \<not> (t \<le> a \<and> a < x) | _ \<Rightarrow> True)
           then Inl (ValueError ''consumed selected delivery violates claim time fence'')
           else (case receipt of
               None \<Rightarrow> Inl (ValueError ''consumed selected delivery lacks durable ACK'')
             | Some c \<Rightarrow> bind_res (create_consumption uuid5 d (the (bd_consumer_effect_id d)) (the (bd_consumed_at d))) (\<lambda>expected.
                 guards [(c \<noteq> expected, ValueError ''durable selected ACK contradicts delivery'')] ()))
      else guards [(receipt \<noteq> None, ValueError ''unconsumed selected delivery unexpectedly has ACK'')] ())"

definition receipt_record ::
  "boundary_edge \<Rightarrow> boundary_message \<Rightarrow> boundary_delivery \<Rightarrow> boundary_consumption option \<Rightarrow> selected_boundary_receipt" where
  "receipt_record edge m d receipt =
     \<lparr>sr_message_id = bm_message_id m, sr_producer_component_id = eg_producer_id edge, sr_consumer_component_id = eg_consumer_id edge,
      sr_contract_name = bm_contract_name m, sr_contract_version = bm_contract_version m, sr_correlation_id = bm_correlation_id m,
      sr_causation_id = bm_causation_id m, sr_causation_kind = bm_causation_kind m, sr_delivery_id = bd_delivery_id d,
      sr_status = bd_status d, sr_attempts = bd_attempts d, sr_claim_epoch = bd_claim_epoch d,
      sr_claim_worker_id = bd_claim_owner_id d, sr_consumption_id = map_option bc_consumption_id receipt,
      sr_consumer_effect_id = bd_consumer_effect_id d\<rparr>"

definition inspect_message ::
  "digest \<Rightarrow> admitted_edges \<Rightarrow> (string \<times> boundary_message) list \<Rightarrow> (string \<times> boundary_delivery) list \<Rightarrow>
     (string \<times> boundary_consumption) list \<Rightarrow> string \<Rightarrow> selected_boundary_receipt res" where
  "inspect_message uuid5 edges by_message by_delivery by_receipt i =
     (case dget by_message i of
        None \<Rightarrow> Inl (KeyError i)
      | Some m \<Rightarrow> (case dget edges (bm_source_domain m, bm_destination_domain m, bm_contract_name m, bm_contract_version m) of
          None \<Rightarrow> Inl (ValueError ''selected boundary message has no exact admitted edge'')
        | Some edge \<Rightarrow> bind_res (pending_delivery uuid5 m) (\<lambda>expected.
            case dget by_delivery (bd_delivery_id expected) of
              None \<Rightarrow> Inl (ValueError ''selected published message lacks durable delivery'')
            | Some d \<Rightarrow>
                (let receipt = dget by_receipt (bd_delivery_id d) in
                 bind_res (check_claim m expected d receipt) (\<lambda>_.
                 bind_res (check_acknowledgement uuid5 d receipt) (\<lambda>_.
                 Inr (receipt_record edge m d receipt)))))))"

fun inspect_all :: "(string \<Rightarrow> 'r res) \<Rightarrow> string list \<Rightarrow> 'r list res" where
  "inspect_all f [] = Inr []"
| "inspect_all f (i # is) = bind_res (f i) (\<lambda>r. bind_res (inspect_all f is) (\<lambda>rs. Inr (r # rs)))"

text \<open>\<open>inspect_selected_boundary_protocol\<close> after the admission of the organisation.\<close>

definition protocol_evidence ::
  "digest \<Rightarrow> admitted_edges \<Rightarrow> string list \<Rightarrow> 'v persistence \<Rightarrow> selected_boundary_receipt list res" where
  "protocol_evidence uuid5 edges message_ids p =
     (let selected = set message_ids; (messages, deliveries, consumptions) = boundary_protocol_snapshot p in
      bind_res (select_messages uuid5 selected messages) (\<lambda>by_message.
      bind_res (expected_ids uuid5 (dvalues by_message)) (\<lambda>(delivery_ids, consumption_ids).
      bind_res (select_deliveries uuid5 selected delivery_ids by_message deliveries) (\<lambda>by_delivery.
      bind_res (select_receipts selected delivery_ids consumption_ids by_delivery consumptions) (\<lambda>by_receipt.
      inspect_all (inspect_message uuid5 edges by_message by_delivery by_receipt) (sort (remdups message_ids)))))))"

section \<open>The observer accepts every reachable state\<close>

lemma fold_select:
  assumes "distinct (map key xs)" and "\<And>x. x \<in> set xs \<Longrightarrow> matches x \<Longrightarrow> check x = Inr ()"
    and "\<And>x. x \<in> set xs \<Longrightarrow> map_of acc (key x) = None"
  shows "\<exists>acc'. fold_res (select_into matches check key dup) xs acc = Inr acc' \<and>
    (\<forall>k. map_of acc' k = (case find (\<lambda>x. matches x \<and> key x = k) xs of Some x \<Rightarrow> Some x | None \<Rightarrow> map_of acc k)) \<and>
    (distinct (map fst acc) \<longrightarrow> distinct (map fst acc'))"
  using assms
proof (induction xs arbitrary: acc)
  case (Cons x xs)
  show ?case
  proof (cases "matches x")
    case False
    with Cons.prems Cons.IH [of acc] show ?thesis by (simp add: select_into_def)
  next
    case True
    have new: "select_into matches check key dup x acc = Inr (dset (key x) x acc)"
      using True Cons.prems(2,3) [of x] by (simp add: select_into_def map_of_eq_None_iff)
    have fresh: "find (\<lambda>y. matches y \<and> key y = key x) xs = None"
      using Cons.prems(1) unfolding find_None_iff by (metis distinct.simps(2) image_eqI list.simps(9) set_map)
    have "\<exists>acc'. fold_res (select_into matches check key dup) xs (dset (key x) x acc) = Inr acc' \<and>
      (\<forall>k. map_of acc' k = (case find (\<lambda>y. matches y \<and> key y = k) xs of Some y \<Rightarrow> Some y | None \<Rightarrow> map_of (dset (key x) x acc) k)) \<and>
      (distinct (map fst (dset (key x) x acc)) \<longrightarrow> distinct (map fst acc'))"
      using Cons.prems by (intro Cons.IH) (auto simp: image_iff)
    with new fresh True show ?thesis by (fastforce simp: distinct_update split: option.splits)
  qed
qed simp

text \<open>Selecting from a sorted view of a keyed dictionary gives the restriction of the dictionary.\<close>

lemma find_by_key:
  assumes "keyed key d"
  shows "find (\<lambda>x. matches x \<and> key x = k) (by_key d) =
    (case map_of d k of Some x \<Rightarrow> if matches x then Some x else None | None \<Rightarrow> None)"
proof -
  have iff: "x \<in> set (by_key d) \<and> key x = k \<longleftrightarrow> map_of d k = Some x" for x
    using assms by (force simp: keyed_def dest: map_of_SomeD intro: map_of_is_SomeI)
  show ?thesis
  proof (cases "find (\<lambda>x. matches x \<and> key x = k) (by_key d)")
    case None
    then have "\<not> matches x" if "map_of d k = Some x" for x using iff that unfolding find_None_iff by blast
    with None show ?thesis by (auto split: option.splits)
  next
    case (Some x)
    then have "x \<in> set (by_key d)" "matches x" "key x = k"
      unfolding find_Some_iff by (metis nth_mem, blast+)
    with iff have "map_of d k = Some x" by blast
    with Some \<open>matches x\<close> show ?thesis by simp
  qed
qed

lemma distinct_by_key:
  assumes "keyed key d"
  shows "distinct (map key (by_key d))"
proof -
  have "map key (by_key d) = map fst (sort_key fst d)" unfolding by_key_def map_map
    by (rule map_cong) (use assms in \<open>auto simp: keyed_def\<close>)
  moreover have "distinct (map fst (sort_key fst d))"
    using assms by (simp add: keyed_def distinct_map inj_on_def)
  ultimately show ?thesis by simp
qed

lemma select_by_key:
  assumes "keyed key d" and "\<And>k x. map_of d k = Some x \<Longrightarrow> matches x \<Longrightarrow> check x = Inr ()"
  obtains acc where "fold_res (select_into matches check key dup) (by_key d) [] = Inr acc" and "distinct (map fst acc)"
    and "\<And>k. map_of acc k = (case map_of d k of Some x \<Rightarrow> if matches x then Some x else None | None \<Rightarrow> None)"
proof -
  have "check x = Inr ()" if "x \<in> set (by_key d)" "matches x" for x
  proof -
    from that(1) assms(1) have "map_of d (key x) = Some x" by (force simp: keyed_def intro: map_of_is_SomeI)
    with assms(2) that(2) show ?thesis by blast
  qed
  with fold_select [of key "by_key d" matches check "[]" dup] distinct_by_key [OF assms(1)] obtain acc
    where "fold_res (select_into matches check key dup) (by_key d) [] = Inr acc" "distinct (map fst acc)"
      and acc: "\<forall>k. map_of acc k = (case find (\<lambda>x. matches x \<and> key x = k) (by_key d) of Some x \<Rightarrow> Some x | None \<Rightarrow> map_of [] k)"
    by (auto simp del: set_by_key)
  moreover have "map_of acc k = (case map_of d k of Some x \<Rightarrow> if matches x then Some x else None | None \<Rightarrow> None)" for k
    using acc by (auto simp: find_by_key [OF assms(1)] split: option.splits)
  ultimately show ?thesis by (intro that [of acc])
qed

lemma mem_dvalues_iff: "distinct (map fst d) \<Longrightarrow> v \<in> set (dvalues d) \<longleftrightarrow> (\<exists>k. map_of d k = Some v)"
  by (force dest: map_of_SomeD intro: map_of_is_SomeI)

text \<open>The selection is admissible: every selected message is stored, genuine and on an admitted edge.\<close>

definition admissible :: "digest \<Rightarrow> admitted_edges \<Rightarrow> 'v state \<Rightarrow> string \<Rightarrow> bool" where
  "admissible uuid5 edges s i \<longleftrightarrow> (case message_at s i of None \<Rightarrow> False | Some m \<Rightarrow> message_identity uuid5 m = Inr i \<and>
     dhas edges (bm_source_domain m, bm_destination_domain m, bm_contract_name m, bm_contract_version m))"

lemma snapshot_reads:
  "boundary_protocol_snapshot p = (by_key (st_boundary_messages (pstate p)), by_key (st_boundary_deliveries (pstate p)),
     by_key (st_boundary_consumptions (pstate p)))"
  by (simp add: boundary_protocol_snapshot_def uow_boundary_messages_def uow_boundary_deliveries_def
      uow_boundary_consumptions_def fork_state_def new_uow_def)

lemma expected_ids_iff:
  assumes "expected_ids uuid5 ms = Inr (ds, cs)"
  shows "i \<in> ds \<longleftrightarrow> (\<exists>m \<in> set ms. \<exists>x. pending_delivery uuid5 m = Inr x \<and> bd_delivery_id x = i)"
    and "c \<in> cs \<longleftrightarrow> (\<exists>m \<in> set ms. \<exists>x. pending_delivery uuid5 m = Inr x \<and> consumption_id uuid5 x = Inr c)"
proof -
  define f where "f = (\<lambda>m (ds, cs). bind_res (pending_delivery uuid5 m) (\<lambda>x. bind_res (consumption_id uuid5 x) (\<lambda>c.
       Inr (insert (bd_delivery_id x) ds, insert c cs))))"
  have gen: "fold_res f ms (ds0, cs0) = Inr (ds, cs) \<Longrightarrow>
      (i \<in> ds \<longleftrightarrow> i \<in> ds0 \<or> (\<exists>m \<in> set ms. \<exists>x. pending_delivery uuid5 m = Inr x \<and> bd_delivery_id x = i)) \<and>
      (c \<in> cs \<longleftrightarrow> c \<in> cs0 \<or> (\<exists>m \<in> set ms. \<exists>x. pending_delivery uuid5 m = Inr x \<and> consumption_id uuid5 x = Inr c))" for ds0 cs0
  proof (induction ms arbitrary: ds0 cs0)
    case (Cons m ms)
    then obtain x k where xk: "pending_delivery uuid5 m = Inr x" "consumption_id uuid5 x = Inr k"
      "fold_res f ms (insert (bd_delivery_id x) ds0, insert k cs0) = Inr (ds, cs)"
      by (auto simp: f_def split: sum.splits)
    from Cons.IH [OF xk(3)] xk(1,2) show ?case by auto
  qed simp
  show "i \<in> ds \<longleftrightarrow> (\<exists>m \<in> set ms. \<exists>x. pending_delivery uuid5 m = Inr x \<and> bd_delivery_id x = i)"
    "c \<in> cs \<longleftrightarrow> (\<exists>m \<in> set ms. \<exists>x. pending_delivery uuid5 m = Inr x \<and> consumption_id uuid5 x = Inr c)"
    using gen [of "{}" "{}"] assms by (auto simp: expected_ids_def f_def)
qed

text \<open>
  What the theorem asks of the digest: the receipts of the stored deliveries have identities, and different ones.
\<close>

definition receipts_distinct :: "digest \<Rightarrow> 'v state \<Rightarrow> bool" where
  "receipts_distinct uuid5 s \<longleftrightarrow>
     (\<forall>k d. delivery_at s k = Some d \<longrightarrow> (\<exists>c. consumption_id uuid5 d = Inr c)) \<and>
     (\<forall>k d k' d'. delivery_at s k = Some d \<longrightarrow> delivery_at s k' = Some d' \<longrightarrow> consumption_id uuid5 d = consumption_id uuid5 d' \<longrightarrow> k = k')"

lemma stored_delivery:
  assumes "boundary_inv uuid5 s" and "delivery_at s k = Some d"
  obtains m x where "bd_delivery_id d = k" and "delivery_ok d" and "receipt_ok uuid5 s d" and "same_contract d m"
    and "message_at s (bd_message_id d) = Some m" and "pending_delivery uuid5 m = Inr x" and "bd_delivery_id x = k"
    and "consumption_id uuid5 x = consumption_id uuid5 d" and "0 < bd_contract_version d"
proof -
  obtain m x where a: "bd_delivery_id d = k" "delivery_ok d" "receipt_ok uuid5 s d" "message_at s (bd_message_id d) = Some m"
    "same_contract d m" "pending_delivery uuid5 m = Inr x" "bd_delivery_id x = k"
    using assms unfolding boundary_inv_def deliveries_ok_def by blast
  moreover have "consumption_id uuid5 x = consumption_id uuid5 d"
    using a pending_delivery_fields(1) [OF a(6)] by (simp add: consumption_id_def same_contract_def)
  moreover have "0 < bd_contract_version d" using a(2) by (simp add: delivery_ok_def mk_boundary_delivery_iff)
  ultimately show ?thesis by (intro that [of m x])
qed

lemma stored_message:
  assumes "boundary_inv uuid5 s" and "message_at s i = Some m"
  obtains x d where "bm_message_id m = i" and "pending_delivery uuid5 m = Inr x" and "delivery_at s (bd_delivery_id x) = Some d"
    and "bd_message_id d = i" and "0 < bm_contract_version m" and "consumption_id uuid5 x = consumption_id uuid5 d"
proof -
  obtain x d where a: "bm_message_id m = i" "pending_delivery uuid5 m = Inr x" "delivery_at s (bd_delivery_id x) = Some d" "bd_message_id d = i"
    using assms unfolding boundary_inv_def deliveries_ok_def by blast
  moreover have "0 < bm_contract_version m" using a(2) by (auto simp: pending_delivery_def mk_boundary_delivery_iff)
  moreover obtain m' x' where "message_at s (bd_message_id d) = Some m'" "pending_delivery uuid5 m' = Inr x'"
    "consumption_id uuid5 x' = consumption_id uuid5 d" using assms(1) a(3) by (rule stored_delivery)
  ultimately show ?thesis using assms(2) by (intro that [of x d]) auto
qed

lemma stored_receipt:
  assumes "boundary_inv uuid5 s" and "receipt_at s k = Some c"
  obtains d where "delivery_at s k = Some d" and "bd_status d = CONSUMED" and "bc_message_id c = bd_message_id d"
    and "consumption_id uuid5 d = Inr (bc_consumption_id c)" and "bc_delivery_id c = k" and "bc_contract_version c = bd_contract_version d"
proof -
  obtain d where d: "delivery_at s k = Some d" using assms unfolding boundary_inv_def deliveries_ok_def by blast
  obtain m x where D: "bd_delivery_id d = k" "receipt_ok uuid5 s d" using assms(1) d by (rule stored_delivery)
  with assms(2) have "bd_status d = CONSUMED" and "create_consumption uuid5 d (the (bd_consumer_effect_id d)) (the (bd_consumed_at d)) = Inr c"
    by (auto simp: receipt_ok_def split: if_splits)
  with that [OF d] D(1) show ?thesis by (auto simp: create_consumption_def mk_boundary_consumption_def)
qed

text \<open>The three dictionaries the observer builds.\<close>

definition restricted :: "('a \<Rightarrow> bool) \<Rightarrow> (string \<times> 'a) list \<Rightarrow> (string \<rightharpoonup> 'a) \<Rightarrow> bool" where
  "restricted P d m \<longleftrightarrow> distinct (map fst d) \<and> (\<forall>k. map_of d k = (case m k of Some x \<Rightarrow> if P x then Some x else None | None \<Rightarrow> None))"

lemma messages_selected:
  assumes "boundary_inv uuid5 s" and "boundary_keyed s" and "\<forall>i \<in> sel. admissible uuid5 edges s i"
  obtains bm where "select_messages uuid5 sel (by_key (st_boundary_messages s)) = Inr bm"
    and "restricted (\<lambda>m. bm_message_id m \<in> sel) bm (message_at s)"
proof -
  have "check_publication uuid5 m = Inr ()" if k: "message_at s k = Some m" "bm_message_id m \<in> sel" for k m
  proof -
    obtain x d where m: "bm_message_id m = k" "0 < bm_contract_version m" using assms(1) k(1) by (rule stored_message)
    with assms(3) k show ?thesis by (auto simp: check_publication_def admissible_def)
  qed
  then obtain bm where bm: "fold_res (select_into (\<lambda>m. bm_message_id m \<in> sel) (check_publication uuid5) bm_message_id
      ''duplicate selected durable boundary message'') (by_key (st_boundary_messages s)) [] = Inr bm" "distinct (map fst bm)"
    "\<And>k. map_of bm k = (case message_at s k of Some x \<Rightarrow> if bm_message_id x \<in> sel then Some x else None | None \<Rightarrow> None)"
    using assms(2) by (elim select_by_key [rotated]) (auto simp: boundary_keyed_def)
  have "dhas bm i" if i: "i \<in> sel" for i
  proof -
    from assms(3) i obtain m where m: "message_at s i = Some m" by (auto simp: admissible_def split: option.splits)
    obtain x d where "bm_message_id m = i" using assms(1) m by (rule stored_message)
    with m i show ?thesis by (simp add: dhas_iff bm(3))
  qed
  with bm show ?thesis by (intro that [of bm]) (auto simp: select_messages_def restricted_def)
qed

lemma expected_computed:
  assumes "boundary_inv uuid5 s" and "receipts_distinct uuid5 s" and "restricted (\<lambda>m. bm_message_id m \<in> sel) bm (message_at s)"
  obtains ids cids where "expected_ids uuid5 (dvalues bm) = Inr (ids, cids)"
    and "\<And>k d. delivery_at s k = Some d \<Longrightarrow> k \<in> ids \<longleftrightarrow> bd_message_id d \<in> sel"
    and "\<And>k d c. delivery_at s k = Some d \<Longrightarrow> consumption_id uuid5 d = Inr c \<Longrightarrow> c \<in> cids \<Longrightarrow> k \<in> ids"
proof -
  have vals: "m \<in> set (dvalues bm) \<longleftrightarrow> message_at s (bm_message_id m) = Some m \<and> bm_message_id m \<in> sel" for m
  proof -
    have "m \<in> set (dvalues bm) \<longleftrightarrow> (\<exists>k. map_of bm k = Some m)"
      using assms(3) by (simp only: restricted_def mem_dvalues_iff)
    also have "\<dots> \<longleftrightarrow> (\<exists>k. message_at s k = Some m \<and> bm_message_id m \<in> sel)"
      using assms(3) by (fastforce simp: restricted_def split: option.splits if_splits)
    also have "\<dots> \<longleftrightarrow> message_at s (bm_message_id m) = Some m \<and> bm_message_id m \<in> sel"
      using assms(1) unfolding boundary_inv_def deliveries_ok_def by metis
    finally show ?thesis .
  qed
  have total: "\<exists>r. fold_res (\<lambda>m (ds, cs). bind_res (pending_delivery uuid5 m) (\<lambda>x. bind_res (consumption_id uuid5 x) (\<lambda>c.
       Inr (insert (bd_delivery_id x) ds, insert c cs)))) ms acc = Inr r" if "set ms \<subseteq> set (dvalues bm)" for ms and acc :: "string set \<times> string set"
    using that
  proof (induction ms arbitrary: acc)
    case (Cons m ms)
    then have "message_at s (bm_message_id m) = Some m" using vals by auto
    with assms(1) obtain x d where x: "pending_delivery uuid5 m = Inr x" "delivery_at s (bd_delivery_id x) = Some d"
      "consumption_id uuid5 x = consumption_id uuid5 d" by (rule stored_message)
    with assms(2) obtain c where "consumption_id uuid5 x = Inr c" unfolding receipts_distinct_def by metis
    with x(1) Cons show ?case by (cases acc) simp
  qed simp
  obtain ids cids where e: "expected_ids uuid5 (dvalues bm) = Inr (ids, cids)"
    using total [of "dvalues bm" "({}, {})"] by (auto simp: expected_ids_def)
  have sel: "k \<in> ids \<longleftrightarrow> bd_message_id d \<in> sel" if kd: "delivery_at s k = Some d" for k d
  proof -
    obtain m x where d: "bd_delivery_id d = k" "message_at s (bd_message_id d) = Some m" "same_contract d m"
      "pending_delivery uuid5 m = Inr x" "bd_delivery_id x = k" using assms(1) kd by (rule stored_delivery)
    show ?thesis
    proof
      assume "k \<in> ids"
      then obtain n y where n: "n \<in> set (dvalues bm)" "pending_delivery uuid5 n = Inr y" "bd_delivery_id y = k"
        unfolding expected_ids_iff(1) [OF e] by blast
      then have "message_at s (bm_message_id n) = Some n" "bm_message_id n \<in> sel" using vals by auto
      with assms(1) n(2,3) kd have "bd_message_id d = bm_message_id n" by (metis Inr_inject option.inject stored_message)
      with \<open>bm_message_id n \<in> sel\<close> show "bd_message_id d \<in> sel" by simp
    next
      assume "bd_message_id d \<in> sel"
      with d vals have "m \<in> set (dvalues bm)" by (simp add: same_contract_def)
      with d show "k \<in> ids" unfolding expected_ids_iff(1) [OF e] by blast
    qed
  qed
  have "k \<in> ids" if k: "delivery_at s k = Some d" "consumption_id uuid5 d = Inr c" "c \<in> cids" for k d c
  proof -
    obtain n y where n: "n \<in> set (dvalues bm)" "pending_delivery uuid5 n = Inr y" "consumption_id uuid5 y = Inr c"
      using k(3) unfolding expected_ids_iff(2) [OF e] by blast
    then have "message_at s (bm_message_id n) = Some n" using vals by auto
    with assms(1) obtain x d' where x: "pending_delivery uuid5 n = Inr x" "delivery_at s (bd_delivery_id x) = Some d'"
      "consumption_id uuid5 x = consumption_id uuid5 d'" by (rule stored_message)
    with n have "consumption_id uuid5 d' = Inr c" by simp
    with assms(2) k(1,2) x(2) have "k = bd_delivery_id x" unfolding receipts_distinct_def by metis
    with n(1) x(1) show ?thesis unfolding expected_ids_iff(1) [OF e] by blast
  qed
  with e sel show ?thesis by (intro that [of ids cids])
qed

lemma deliveries_selected:
  assumes "boundary_inv uuid5 s" and "boundary_keyed s" and "restricted (\<lambda>m. bm_message_id m \<in> sel) bm (message_at s)"
    and "\<And>k d. delivery_at s k = Some d \<Longrightarrow> k \<in> ids \<longleftrightarrow> bd_message_id d \<in> sel"
  obtains bd where "select_deliveries uuid5 sel ids bm (by_key (st_boundary_deliveries s)) = Inr bd"
    and "restricted (\<lambda>d. bd_message_id d \<in> sel) bd (delivery_at s)"
proof -
  have matches: "bd_message_id d \<in> sel \<or> bd_delivery_id d \<in> ids \<longleftrightarrow> bd_message_id d \<in> sel" if kd: "delivery_at s k = Some d" for k d
  proof -
    obtain m x where "bd_delivery_id d = k" using assms(1) kd by (rule stored_delivery)
    with assms(4) [OF kd] show ?thesis by blast
  qed
  have "check_delivery uuid5 bm d = Inr ()" if kd: "delivery_at s k = Some d" "bd_message_id d \<in> sel \<or> bd_delivery_id d \<in> ids" for k d
  proof -
    obtain m x where d: "bd_delivery_id d = k" "message_at s (bd_message_id d) = Some m" "same_contract d m"
      "pending_delivery uuid5 m = Inr x" "bd_delivery_id x = k" "0 < bd_contract_version d"
      using assms(1) kd(1) by (rule stored_delivery)
    moreover have "map_of bm (bd_message_id d) = Some m"
      using assms(3) d(2,3) kd matches [OF kd(1)] by (simp add: restricted_def same_contract_def)
    ultimately show ?thesis by (simp add: check_delivery_def)
  qed
  then obtain bd where bd: "select_deliveries uuid5 sel ids bm (by_key (st_boundary_deliveries s)) = Inr bd" "distinct (map fst bd)"
    "\<And>k. map_of bd k = (case delivery_at s k of Some x \<Rightarrow> if bd_message_id x \<in> sel \<or> bd_delivery_id x \<in> ids then Some x else None | None \<Rightarrow> None)"
    using assms(2) unfolding select_deliveries_def by (elim select_by_key [rotated]) (auto simp: boundary_keyed_def)
  with matches show ?thesis by (intro that [of bd]) (auto simp: restricted_def split: option.splits)
qed

lemma receipts_selected:
  assumes "boundary_inv uuid5 s" and "boundary_keyed s" and "restricted (\<lambda>d. bd_message_id d \<in> sel) bd (delivery_at s)"
    and "\<And>k d. delivery_at s k = Some d \<Longrightarrow> k \<in> ids \<longleftrightarrow> bd_message_id d \<in> sel"
    and "\<And>k d c. delivery_at s k = Some d \<Longrightarrow> consumption_id uuid5 d = Inr c \<Longrightarrow> c \<in> cids \<Longrightarrow> k \<in> ids"
  obtains bc where "select_receipts sel ids cids bd (by_key (st_boundary_consumptions s)) = Inr bc"
    and "restricted (\<lambda>c. bc_delivery_id c \<in> ids) bc (receipt_at s)"
proof -
  let ?P = "\<lambda>c. bc_message_id c \<in> sel \<or> bc_delivery_id c \<in> ids \<or> bc_consumption_id c \<in> cids"
  have both: "(?P c \<longleftrightarrow> bc_delivery_id c \<in> ids) \<and> (?P c \<longrightarrow> check_receipt ids bd c = Inr ())" if kc: "receipt_at s k = Some c" for k c
  proof -
    obtain d where d: "delivery_at s k = Some d" "bc_message_id c = bd_message_id d" "consumption_id uuid5 d = Inr (bc_consumption_id c)"
      "bc_delivery_id c = k" "bc_contract_version c = bd_contract_version d" using assms(1) kc by (rule stored_receipt)
    obtain m x where v: "0 < bd_contract_version d" using assms(1) d(1) by (rule stored_delivery)
    have iff: "?P c \<longleftrightarrow> k \<in> ids" using assms(4) [OF d(1)] assms(5) [OF d(1,3)] d(2,4) by auto
    have "check_receipt ids bd c = Inr ()" if "k \<in> ids"
      using that d v assms(3,4) by (simp add: check_receipt_def restricted_def)
    with iff d(4) show ?thesis by simp
  qed
  then have "check_receipt ids bd c = Inr ()" if "receipt_at s k = Some c" "?P c" for k c using that by blast
  then obtain bc where bc: "select_receipts sel ids cids bd (by_key (st_boundary_consumptions s)) = Inr bc" "distinct (map fst bc)"
    "\<And>k. map_of bc k = (case receipt_at s k of Some x \<Rightarrow> if ?P x then Some x else None | None \<Rightarrow> None)"
    using assms(2) unfolding select_receipts_def by (elim select_by_key [rotated]) (auto simp: boundary_keyed_def)
  with both show ?thesis by (intro that [of bc]) (auto simp: restricted_def split: option.splits)
qed

text \<open>What a returned record says about the state.\<close>

definition evidence_of :: "'v state \<Rightarrow> string \<Rightarrow> selected_boundary_receipt \<Rightarrow> bool" where
  "evidence_of s i r \<longleftrightarrow> sr_message_id r = i \<and> (\<exists>d. delivery_at s (sr_delivery_id r) = Some d \<and> bd_message_id d = i \<and>
     sr_status r = bd_status d \<and> sr_claim_epoch r = bd_claim_epoch d \<and>
     sr_consumption_id r = map_option bc_consumption_id (receipt_at s (sr_delivery_id r)) \<and>
     (sr_status r = CONSUMED \<longleftrightarrow> sr_consumption_id r \<noteq> None))"

lemma delivery_ok_checks:
  assumes "delivery_ok d" and "receipt_ok uuid5 s d" and "same_contract d m" and "bd_delivery_id d = bd_delivery_id x"
  shows "check_claim m x d (receipt_at s (bd_delivery_id d)) = Inr ()"
    and "check_acknowledgement uuid5 d (receipt_at s (bd_delivery_id d)) = Inr ()"
    and "bd_status d = CONSUMED \<longleftrightarrow> receipt_at s (bd_delivery_id d) \<noteq> None"
proof -
  have eff: "bc_consumer_effect_id c = the (bd_consumer_effect_id d)" "bd_status d = CONSUMED"
    if "receipt_at s (bd_delivery_id d) = Some c" for c
    using assms(2) that by (auto simp: receipt_ok_def dest!: create_consumption_fields(3) split: if_splits)
  show "check_claim m x d (receipt_at s (bd_delivery_id d)) = Inr ()"
    using assms(1,3,4) eff
    by (cases "bd_status d") (auto simp: check_claim_def delivery_ok_def mk_boundary_delivery_iff blank_owner_def split: option.splits)
  show "check_acknowledgement uuid5 d (receipt_at s (bd_delivery_id d)) = Inr ()"
    using assms(1,2) by (cases "bd_status d") (auto simp: check_acknowledgement_def delivery_ok_def receipt_ok_def)
  show "bd_status d = CONSUMED \<longleftrightarrow> receipt_at s (bd_delivery_id d) \<noteq> None"
    using assms(2) by (auto simp: receipt_ok_def split: if_splits)
qed

lemma inspect_stored:
  assumes inv: "boundary_inv uuid5 s" and adm: "admissible uuid5 edges s i" and sel: "i \<in> sel"
    and bm: "restricted (\<lambda>m. bm_message_id m \<in> sel) bm (message_at s)"
    and bd: "restricted (\<lambda>d. bd_message_id d \<in> sel) bd (delivery_at s)"
    and bc: "restricted (\<lambda>c. bc_delivery_id c \<in> ids) bc (receipt_at s)"
    and ids: "\<And>k d. delivery_at s k = Some d \<Longrightarrow> k \<in> ids \<longleftrightarrow> bd_message_id d \<in> sel"
  shows "\<exists>r. inspect_message uuid5 edges bm bd bc i = Inr r \<and> evidence_of s i r"
proof -
  obtain m edge where m: "message_at s i = Some m"
    and edge: "map_of edges (bm_source_domain m, bm_destination_domain m, bm_contract_name m, bm_contract_version m) = Some edge"
    using adm by (auto simp: admissible_def dhas_iff split: option.splits)
  obtain x d where x: "bm_message_id m = i" "pending_delivery uuid5 m = Inr x" "delivery_at s (bd_delivery_id x) = Some d" "bd_message_id d = i"
    using inv m by (rule stored_message)
  obtain m' x' where d: "bd_delivery_id d = bd_delivery_id x" "delivery_ok d" "receipt_ok uuid5 s d" "same_contract d m'"
    "message_at s (bd_message_id d) = Some m'" using inv x(3) by (rule stored_delivery)
  have c: "same_contract d m" using d(4,5) x(4) m by simp
  note chk = delivery_ok_checks [OF d(2,3) c d(1)]
  have "bc_delivery_id r = bd_delivery_id d" if r: "receipt_at s (bd_delivery_id d) = Some r" for r
  proof -
    obtain d' where "bc_delivery_id r = bd_delivery_id d" using inv r by (rule stored_receipt)
    then show ?thesis .
  qed
  then have rec: "map_of bc (bd_delivery_id d) = receipt_at s (bd_delivery_id d)"
    using bc ids [OF x(3)] x(4) sel d(1) by (auto simp: restricted_def split: option.splits)
  have "map_of bm i = Some m" "map_of bd (bd_delivery_id x) = Some d" using bm bd m x sel by (simp_all add: restricted_def)
  with edge x(2) chk rec have "inspect_message uuid5 edges bm bd bc i = Inr (receipt_record edge m d (receipt_at s (bd_delivery_id d)))"
    by (simp add: inspect_message_def Let_def)
  moreover have "evidence_of s i (receipt_record edge m d (receipt_at s (bd_delivery_id d)))"
    using x d(1) chk(3) by (simp add: evidence_of_def receipt_record_def)
  ultimately show ?thesis by blast
qed

lemma inspect_all_ok:
  assumes "\<And>i. i \<in> set is \<Longrightarrow> \<exists>r. f i = Inr r \<and> P i r"
  shows "\<exists>rs. inspect_all f is = Inr rs \<and> list_all2 P is rs"
  using assms
proof (induction "is")
  case (Cons i js)
  obtain r rs where "f i = Inr r" "P i r" "inspect_all f js = Inr rs" "list_all2 P js rs"
    using Cons.prems [of i] Cons.IH Cons.prems by force
  then show ?case by auto
qed simp


section \<open>The causal audit\<close>

text \<open>
  The first half of \<open>audit_causal_history\<close> (its \<open>CausalAuditError\<close> is a \<open>RuntimeError\<close>): every delivery has its
  message and agrees with it, no message has two deliveries, and the typed links have no cycle.
\<close>

definition audit_delivery ::
  "'v uow \<Rightarrow> boundary_delivery \<Rightarrow> (string \<times> boundary_message) list \<Rightarrow> (string \<times> boundary_message) list res" where
  "audit_delivery u d messages =
     (case get_boundary_message (bd_message_id d) u of
        None \<Rightarrow> Inl (RuntimeError (''boundary delivery has missing message '' @ bd_message_id d))
      | Some m \<Rightarrow> guards
          [(bm_destination_domain m \<noteq> bd_destination_domain d \<or> bm_contract_name m \<noteq> bd_contract_name d \<or>
            bm_contract_version m \<noteq> bd_contract_version d, RuntimeError ''boundary delivery contradicts immutable contract''),
           (dhas messages (bm_message_id m), RuntimeError ''duplicate durable boundary delivery for same message'')]
          (dset (bm_message_id m) m messages))"

definition audit_messages :: "'v uow \<Rightarrow> (string \<times> boundary_message) list res" where
  "audit_messages u = fold_res (audit_delivery u) (uow_boundary_deliveries u) []"

text \<open>The constructor of a message requires a cause when the causation is typed.\<close>

definition typed_parents :: "(string \<times> boundary_message) list \<Rightarrow> (string \<times> string) list" where
  "typed_parents messages =
     fold (\<lambda>m d. if bm_causation_kind m = Some ''boundary''
           then (case bm_causation_id m of None \<Rightarrow> d | Some cause \<Rightarrow> dset (bm_message_id m) cause d) else d)
       (dvalues messages) []"

function cycle_walk :: "(string \<times> string) list \<Rightarrow> string set \<Rightarrow> string set \<Rightarrow> string \<Rightarrow> string set res" where
  "cycle_walk parents visited path current =
     (case dget parents current of
        None \<Rightarrow> Inr path
      | Some parent \<Rightarrow>
          if current \<in> visited then Inr path
          else if current \<in> path then Inl (RuntimeError (''causal cycle detected at '' @ current))
          else cycle_walk parents visited (insert current path) parent)"
  by pat_completeness auto

termination
proof (relation "measure (\<lambda>(parents, visited, path, current). card (fst ` set parents - path))", goal_cases)
  case (2 parents visited path current parent)
  then have "current \<in> fst ` set parents - path" by (auto dest!: map_of_SomeD intro: rev_image_eqI)
  then show ?case by (simp only: in_measure prod.case) (rule psubset_card_mono, auto)
qed simp

declare cycle_walk.simps [simp del]

definition detect_cycle :: "(string \<times> string) list \<Rightarrow> unit res" where
  "detect_cycle parents =
     bind_res (fold_res (\<lambda>identity visited.
         if identity \<in> visited then Inr visited
         else bind_res (cycle_walk parents visited {} identity) (\<lambda>path. Inr (visited \<union> path)))
       (sort (remdups (map fst parents))) {}) (\<lambda>_. Inr ())"

text \<open>The graph of a parent dictionary. A node has at most one parent, so what a node on a cycle reaches is on it, too.\<close>

definition parent_rel :: "(string \<times> string) list \<Rightarrow> (string \<times> string) set" where
  "parent_rel parents = {(i, j). map_of parents i = Some j}"

lemma parent_rel_fun: "(i, j) \<in> parent_rel ps \<Longrightarrow> (i, k) \<in> parent_rel ps \<Longrightarrow> j = k"
  by (simp add: parent_rel_def)

lemma cycle_reaches_cycle:
  assumes "(a, b) \<in> (parent_rel ps)\<^sup>*" and "(a, a) \<in> (parent_rel ps)\<^sup>+"
  shows "(b, b) \<in> (parent_rel ps)\<^sup>+"
  using assms
proof (induction rule: rtrancl_induct)
  case (step b c)
  then obtain c' where c': "(b, c') \<in> parent_rel ps" "(c', b) \<in> (parent_rel ps)\<^sup>*" by (meson tranclD)
  with step(2) have "c' = c" by (blast dest: parent_rel_fun)
  with c' show ?case by (auto intro: rtrancl_into_trancl2 rtrancl_into_trancl1)
qed

lemma cycle_walk_ends:
  assumes "cycle_walk ps visited path c = Inr path'"
  shows "\<exists>f. (map_of ps f = None \<or> f \<in> visited) \<and> (c, f) \<in> (parent_rel ps)\<^sup>* \<and> path \<subseteq> path' \<and>
    (\<forall>a \<in> path' - path. (a, f) \<in> (parent_rel ps)\<^sup>*) \<and> (map_of ps c \<noteq> None \<longrightarrow> c \<in> visited \<union> path')"
  using assms
proof (induction ps visited path c rule: cycle_walk.induct)
  case (1 ps visited path c)
  show ?case
  proof (cases "map_of ps c = None \<or> c \<in> visited")
    case True
    with 1(2) have "path' = path" by (auto simp: cycle_walk.simps [of ps visited path] split: option.splits)
    with True show ?thesis by (intro exI [of _ c]) auto
  next
    case False
    then obtain p where p: "map_of ps c = Some p" "c \<notin> visited" by auto
    with 1(2) have c: "c \<notin> path" and run: "cycle_walk ps visited (insert c path) p = Inr path'"
      by (auto simp: cycle_walk.simps [of ps visited path] split: if_splits)
    from 1(1) [OF p c run] obtain f where f: "map_of ps f = None \<or> f \<in> visited" "(p, f) \<in> (parent_rel ps)\<^sup>*"
      "insert c path \<subseteq> path'" "\<forall>a \<in> path' - insert c path. (a, f) \<in> (parent_rel ps)\<^sup>*" by blast
    have "(c, f) \<in> (parent_rel ps)\<^sup>*" using p(1) f(2) by (auto simp: parent_rel_def intro: converse_rtrancl_into_rtrancl)
    with f show ?thesis by (intro exI [of _ f]) auto
  qed
qed

lemma cycle_walk_acyclic:
  assumes "acyclic (parent_rel ps)" and "\<forall>a \<in> path. (a, c) \<in> (parent_rel ps)\<^sup>+"
  shows "\<exists>path'. cycle_walk ps visited path c = Inr path'"
  using assms
proof (induction ps visited path c rule: cycle_walk.induct)
  case (1 ps visited path c)
  show ?case
  proof (cases "map_of ps c = None \<or> c \<in> visited")
    case True
    then show ?thesis by (auto simp: cycle_walk.simps [of ps visited path] split: option.splits)
  next
    case False
    then obtain p where p: "map_of ps c = Some p" "c \<notin> visited" by auto
    have c: "c \<notin> path" using 1(2,3) by (auto simp: acyclic_def)
    have "(c, p) \<in> parent_rel ps" using p(1) by (simp add: parent_rel_def)
    with 1(3) have "\<forall>a \<in> insert c path. (a, p) \<in> (parent_rel ps)\<^sup>+" by (auto intro: trancl_into_trancl)
    with 1(1) [OF p c 1(2)] p c show ?thesis by (simp add: cycle_walk.simps [of ps visited path])
  qed
qed

lemma detect_visits:
  assumes "fold_res (\<lambda>i visited. if i \<in> visited then Inr visited
      else bind_res (cycle_walk ps visited {} i) (\<lambda>path. Inr (visited \<union> path))) is visited = Inr visited'"
    and "set is \<subseteq> dom (map_of ps)" and "\<forall>a \<in> visited. (a, a) \<notin> (parent_rel ps)\<^sup>+"
  shows "visited \<union> set is \<subseteq> visited' \<and> (\<forall>a \<in> visited'. (a, a) \<notin> (parent_rel ps)\<^sup>+)"
  using assms
proof (induction "is" arbitrary: visited)
  case (Cons i js)
  show ?case
  proof (cases "i \<in> visited")
    case True
    with Cons show ?thesis by auto
  next
    case False
    with Cons.prems(1) obtain path where walk: "cycle_walk ps visited {} i = Inr path"
      and rest: "fold_res (\<lambda>i visited. if i \<in> visited then Inr visited
        else bind_res (cycle_walk ps visited {} i) (\<lambda>path. Inr (visited \<union> path))) js (visited \<union> path) = Inr visited'"
      by (auto split: sum.splits)
    from cycle_walk_ends [OF walk] obtain f where f: "map_of ps f = None \<or> f \<in> visited"
      "\<forall>a \<in> path. (a, f) \<in> (parent_rel ps)\<^sup>*" "map_of ps i \<noteq> None \<longrightarrow> i \<in> visited \<union> path" by auto
    have "(f, f) \<notin> (parent_rel ps)\<^sup>+"
    proof (cases "f \<in> visited")
      case False
      then show ?thesis using f(1) by (auto dest!: tranclD simp: parent_rel_def)
    qed (use Cons.prems(3) in blast)
    then have "\<forall>a \<in> visited \<union> path. (a, a) \<notin> (parent_rel ps)\<^sup>+" using Cons.prems(3) f(2) cycle_reaches_cycle by blast
    from Cons.IH [OF rest _ this] Cons.prems(2) f(3) show ?thesis by auto
  qed
qed simp

lemma detect_cycle_acyclic:
  assumes acyc: "acyclic (parent_rel parents)"
  shows "detect_cycle parents = Inr ()"
proof -
  have "\<exists>v. fold_res (\<lambda>i visited. if i \<in> visited then Inr visited
      else bind_res (cycle_walk parents visited {} i) (\<lambda>path. Inr (visited \<union> path))) is w = Inr v" for "is" w
  proof (induction "is" arbitrary: w)
    case (Cons i js)
    with cycle_walk_acyclic [OF acyc, of "{}" i w] show ?case by (cases "i \<in> w") auto
  qed simp
  then show ?thesis unfolding detect_cycle_def by (metis bind_res_Inr)
qed

text \<open>
  C25. The cycle check of the audit is exact: it ends on every dictionary of parents, and succeeds exactly if the
  links contain no cycle.
\<close>

theorem detect_cycle_iff_acyclic: "detect_cycle parents = Inr () \<longleftrightarrow> acyclic (parent_rel parents)"
proof
  assume "detect_cycle parents = Inr ()"
  then obtain visited where "fold_res (\<lambda>i visited. if i \<in> visited then Inr visited
      else bind_res (cycle_walk parents visited {} i) (\<lambda>path. Inr (visited \<union> path)))
    (sort (remdups (map fst parents))) {} = Inr visited" by (auto simp: detect_cycle_def)
  from detect_visits [OF this] have "fst ` set parents \<subseteq> visited" "\<forall>a \<in> visited. (a, a) \<notin> (parent_rel parents)\<^sup>+"
    by (auto simp: dom_map_of_conv_image_fst)
  moreover have "a \<in> fst ` set parents" if "(a, a) \<in> (parent_rel parents)\<^sup>+" for a
    using that by (auto simp: parent_rel_def dest!: tranclD map_of_SomeD intro: rev_image_eqI)
  ultimately show "acyclic (parent_rel parents)" unfolding acyclic_def by blast
qed (rule detect_cycle_acyclic)

text \<open>The cycle check of the audit passes in every reachable state.\<close>

definition audit_links :: "'v persistence \<Rightarrow> unit res" where
  "audit_links p = bind_res (audit_messages (new_uow (pstate p))) (\<lambda>messages. detect_cycle (typed_parents messages))"

lemma audit_fold:
  assumes "distinct (map bd_message_id ds)"
    and "\<And>d. d \<in> set ds \<Longrightarrow> \<exists>m. message_at (working u) (bd_message_id d) = Some m \<and> same_contract d m"
    and "\<And>d. d \<in> set ds \<Longrightarrow> map_of acc (bd_message_id d) = None"
    and "\<And>i m. map_of acc i = Some m \<Longrightarrow> message_at (working u) i = Some m" and "distinct (map fst acc)"
  shows "\<exists>ms. fold_res (audit_delivery u) ds acc = Inr ms \<and> distinct (map fst ms) \<and>
    (\<forall>i m. map_of ms i = Some m \<longrightarrow> message_at (working u) i = Some m)"
  using assms
proof (induction ds arbitrary: acc)
  case (Cons d ds)
  obtain m where m: "message_at (working u) (bd_message_id d) = Some m" "same_contract d m" using Cons.prems(2) [of d] by auto
  then have run: "audit_delivery u d acc = Inr (dset (bm_message_id m) m acc)"
    using Cons.prems(3) [of d] by (simp add: audit_delivery_def get_boundary_at same_contract_def map_of_eq_None_iff)
  have "\<exists>ms. fold_res (audit_delivery u) ds (dset (bm_message_id m) m acc) = Inr ms \<and> distinct (map fst ms) \<and>
    (\<forall>i m. map_of ms i = Some m \<longrightarrow> message_at (working u) i = Some m)"
    by (rule Cons.IH) (use Cons.prems m in \<open>auto simp: same_contract_def distinct_update image_iff split: if_splits\<close>)
  with run show ?case by simp
qed auto

lemma audit_messages_ok:
  assumes "boundary_inv uuid5 s" and "boundary_keyed s"
  shows "\<exists>ms. audit_messages (new_uow s) = Inr ms \<and> distinct (map fst ms) \<and> (\<forall>i m. map_of ms i = Some m \<longrightarrow> message_at s i = Some m)"
proof -
  let ?ds = "uow_boundary_deliveries (new_uow s)"
  have mem: "d \<in> set ?ds \<longleftrightarrow> delivery_at s (bd_delivery_id d) = Some d" for d
    using deliveries_uow_iff [of "new_uow s" d] assms(2) by (simp add: boundary_keyed_def)
  have one: "d = e" if de: "d \<in> set ?ds" "e \<in> set ?ds" "bd_message_id d = bd_message_id e" for d e
  proof -
    obtain m x where d: "message_at s (bd_message_id d) = Some m" "pending_delivery uuid5 m = Inr x" "bd_delivery_id x = bd_delivery_id d"
      using assms(1) de(1) [unfolded mem] by (rule stored_delivery)
    obtain n y where e: "message_at s (bd_message_id e) = Some n" "pending_delivery uuid5 n = Inr y" "bd_delivery_id y = bd_delivery_id e"
      using assms(1) de(2) [unfolded mem] by (rule stored_delivery)
    from d e de(3) have "bd_delivery_id d = bd_delivery_id e" by simp
    with de(1,2) show ?thesis unfolding mem by (metis option.inject)
  qed
  have "distinct (map bd_delivery_id ?ds)"
    using distinct_by_key [of bd_delivery_id "st_boundary_deliveries s"] assms(2)
    by (simp add: uow_boundary_deliveries_def new_uow_def boundary_keyed_def)
  then have "distinct ?ds" by (simp add: distinct_map)
  with one have "distinct (map bd_message_id ?ds)" by (simp add: distinct_map inj_on_def)
  moreover have "\<exists>m. message_at s (bd_message_id d) = Some m \<and> same_contract d m" if "d \<in> set ?ds" for d
    using assms(1) that [unfolded mem] unfolding boundary_inv_def deliveries_ok_def by blast
  ultimately show ?thesis using audit_fold [of ?ds "new_uow s" "[]"] unfolding audit_messages_def by simp
qed

lemma typed_parents_causes:
  assumes "\<And>i m. map_of ms i = Some m \<Longrightarrow> message_at s i = Some m" and "distinct (map fst ms)"
    and "\<And>i m. message_at s i = Some m \<Longrightarrow> bm_message_id m = i"
  shows "parent_rel (typed_parents ms) \<subseteq> causes s"
proof -
  have gen: "map_of (fold (\<lambda>m d. if bm_causation_kind m = Some ''boundary''
      then (case bm_causation_id m of None \<Rightarrow> d | Some cause \<Rightarrow> dset (bm_message_id m) cause d) else d) xs acc) i = Some j \<Longrightarrow>
    map_of acc i = Some j \<or> (\<exists>m \<in> set xs. bm_message_id m = i \<and> causal_parent m = Some j)" for xs acc i j
  proof (induction xs arbitrary: acc)
    case (Cons m xs)
    let ?f = "\<lambda>m d. if bm_causation_kind m = Some ''boundary''
      then (case bm_causation_id m of None \<Rightarrow> d | Some cause \<Rightarrow> dset (bm_message_id m) cause d) else d"
    have "map_of (?f m acc) i = Some j \<Longrightarrow> map_of acc i = Some j \<or> (bm_message_id m = i \<and> causal_parent m = Some j)"
      by (auto simp: causal_parent_def split: if_splits option.splits)
    with Cons.IH [of "?f m acc"] Cons.prems show ?case by (simp only: fold_simps) (meson list.set_intros)
  qed simp
  have "message_at s (bm_message_id m) = Some m" if v: "m \<in> set (dvalues ms)" for m
  proof -
    from v obtain k where "map_of ms k = Some m" unfolding mem_dvalues_iff [OF assms(2)] by blast
    from assms(1) [OF this] assms(3) show ?thesis by force
  qed
  with gen [where acc = "[]"] show ?thesis by (fastforce simp: parent_rel_def typed_parents_def causes_def simp del: set_map)
qed

lemma audit_links_ok: "protocol_inv uuid5 p \<Longrightarrow> audit_links p = Inr ()"
proof -
  assume "protocol_inv uuid5 p"
  then have inv: "boundary_inv uuid5 (pstate p)" and keyed: "boundary_keyed (pstate p)" by (auto simp: protocol_inv_def)
  obtain ms where ms: "audit_messages (new_uow (pstate p)) = Inr ms" "distinct (map fst ms)"
    "\<And>i m. map_of ms i = Some m \<Longrightarrow> message_at (pstate p) i = Some m" using audit_messages_ok [OF inv keyed] by blast
  have "parent_rel (typed_parents ms) \<subseteq> causes (pstate p)"
    by (rule typed_parents_causes [OF ms(3,2)]) (use inv in \<open>auto simp: boundary_inv_def deliveries_ok_def\<close>)
  moreover have "acyclic (causes (pstate p))" using inv by (simp add: boundary_inv_def causality_ok_def)
  ultimately show ?thesis using ms(1) acyclic_subset detect_cycle_acyclic by (simp add: audit_links_def) blast
qed

interpretation boundary: recoverable new_persistence "boundary_step uuid5" "protocol_inv uuid5" audit_links
  by unfold_locales (auto intro: new_persistence_protocol boundary_step_inv audit_links_ok)

text \<open>
  The loop of the audit over the links themselves. It refuses a typed cause at the same logical time, which
  \<open>publish\<close> accepts.
\<close>

definition audit_link :: "'v uow \<Rightarrow> (string \<times> boundary_message) list \<Rightarrow> boundary_message \<Rightarrow> unit res" where
  "audit_link u messages m =
     (if bm_causation_kind m = Some ''boundary''
      then (case Option.bind (bm_causation_id m) (dget messages) of
          None \<Rightarrow> Inl (RuntimeError (''missing typed boundary parent: '' @ (case bm_causation_id m of None \<Rightarrow> ''None'' | Some i \<Rightarrow> i)))
        | Some parent \<Rightarrow> guards
            [(bm_correlation_id parent \<noteq> bm_correlation_id m, RuntimeError ''typed boundary parent correlation mismatch''),
             (bm_produced_at parent \<ge> bm_produced_at m, RuntimeError ''typed boundary temporal inversion'')] ())
      else if bm_causation_kind m = Some ''event''
      then bind_res (case bm_causation_id m of None \<Rightarrow> Inr None | Some i \<Rightarrow> get_event i u) (\<lambda>event. case event of
          None \<Rightarrow> Inl (RuntimeError (''missing typed domain event: '' @ (case bm_causation_id m of None \<Rightarrow> ''None'' | Some i \<Rightarrow> i)))
        | Some e \<Rightarrow> guards
            [(ev_correlation_id e \<noteq> Some (bm_correlation_id m), RuntimeError ''typed domain event correlation mismatch''),
             (ev_occurred_at e > bm_produced_at m, RuntimeError ''typed domain event temporal inversion'')] ())
      else Inr ())"

definition audit_causality :: "'v uow \<Rightarrow> unit res" where
  "audit_causality u =
     bind_res (audit_messages u) (\<lambda>messages.
     bind_res (detect_cycle (typed_parents messages)) (\<lambda>_.
     each_ok (audit_link u messages) (dvalues messages)))"

lemma validate_accepts_simultaneous:
  assumes "message_at (working u) j = Some q" and "bm_causation_id m = Some j" and "bm_causation_kind m \<noteq> Some ''event''"
    and "j \<noteq> bm_message_id m" and "bm_causation_id q = None" and "bm_correlation_id q = bm_correlation_id m"
    and "bm_produced_at q = bm_produced_at m"
  shows "validate_causation m u = Inr ()"
  using assms by (simp add: validate_causation_def causation_walk.simps get_boundary_at)

lemma audit_refuses_simultaneous:
  assumes "audit_messages u = Inr ms" and "m \<in> set (dvalues ms)" and "bm_causation_kind m = Some ''boundary''"
    and "bm_causation_id m = Some j" and "map_of ms j = Some q" and "bm_produced_at q = bm_produced_at m"
  shows "\<exists>e. audit_causality u = Inl e"
proof -
  have "audit_link u ms m \<noteq> Inr ()" using assms(3-6) by (simp add: audit_link_def)
  then have "each_ok (audit_link u ms) (dvalues ms) \<noteq> Inr ()" using assms(2) by (auto simp: each_ok_iff)
  then show ?thesis using assms(1)
    by (cases "detect_cycle (typed_parents ms)"; cases "each_ok (audit_link u ms) (dvalues ms)") (auto simp: audit_causality_def)
qed


end
