(* ===== verification/Sink_Outbox.thy ===== *)
theory Sink_Outbox
  imports Memory_Persistence Encoding
begin

text \<open>
  \<open>sinks/outbox.py\<close>: the durable outbox that feeds analytical sinks with the event log, one cursor per job and
  sink. The sink is a parameter with a state of its own; publishing to it may raise. The text recorded for an error
  (\<open>type(exc).__name__: exc\<close>) is given by the parameter \<open>show_error\<close>.
\<close>

section \<open>Preparing a delivery\<close>

definition sink_pending :: "string \<Rightarrow> string \<Rightarrow> 'v persistence \<Rightarrow> 'v sink_delivery list" where
  "sink_pending job_id sink_name p =
     filter (\<lambda>d. sl_status d = ''pending'') (sink_deliveries (Some job_id) (Some sink_name) p)"

definition sink_offset :: "sink_checkpoint option \<Rightarrow> int" where
  "sink_offset c = (case c of None \<Rightarrow> 0 | Some c \<Rightarrow> sc_event_offset c)"

text \<open>The delivery of the events from the cursor to the end of the log.\<close>

definition next_delivery ::
  "digest \<Rightarrow> 'v simulation_job_state \<Rightarrow> string \<Rightarrow> int \<Rightarrow> 'v domain_event list \<Rightarrow> 'v sink_delivery res" where
  "next_delivery uuid5 state sink_name start es =
     (let selected = drop (nat start) es; to_offset = int (length es) in
      bind_res (deterministic_id uuid5 ''analytical-batch''
          [PStr (js_job_id state), PStr sink_name, PInt start, PInt to_offset,
           PStr (if selected = [] then [] else ev_event_id (last selected))]) (\<lambda>batch_id.
      bind_res (mk_analytical_batch
          \<lparr>ab_batch_id = batch_id, ab_job_id = js_job_id state, ab_domain_name = js_domain_name state,
           ab_config_revision = js_config_revision state, ab_logical_tick = js_next_tick state,
           ab_logical_time = js_logical_time state, ab_from_event_offset = start, ab_to_event_offset = to_offset,
           ab_events = selected\<rparr>) (\<lambda>batch.
      bind_res (deterministic_id uuid5 ''sink-delivery'' [PStr sink_name, PStr batch_id]) (\<lambda>delivery_id.
      mk_sink_delivery \<lparr>sl_delivery_id = delivery_id, sl_sink_name = sink_name, sl_batch = batch, sl_status = ''pending'',
        sl_attempts = 0, sl_last_error = None, sl_delivered_at = None\<rparr>))))"

text \<open>
  \<open>prepare\<close> reads first and writes in a transaction afterwards; the two halves are separate so that other workers
  can act between them. The first half returns a pending delivery, nothing to do, or a new delivery with the cursor it
  was planned for.
\<close>

datatype 'v sink_plan = Resume "'v sink_delivery" | Idle | Plan int "'v sink_delivery"

definition plan_delivery :: "digest \<Rightarrow> 'v simulation_job_state \<Rightarrow> string \<Rightarrow> 'v persistence \<Rightarrow> 'v sink_plan res" where
  "plan_delivery uuid5 state sink_name p =
     (case sink_pending (js_job_id state) sink_name p of
        d # _ \<Rightarrow> Inr (Resume d)
      | [] \<Rightarrow>
          bind_res (case sink_checkpoint_of (js_job_id state) sink_name p of
              Some c \<Rightarrow> Inr c
            | None \<Rightarrow> mk_sink_checkpoint
                \<lparr>sc_job_id = js_job_id state, sc_sink_name = sink_name, sc_event_offset = 0, sc_last_delivery_id = None\<rparr>) (\<lambda>checkpoint.
          if sc_event_offset checkpoint \<ge> int (length (events p)) then Inr Idle
          else bind_res (next_delivery uuid5 state sink_name (sc_event_offset checkpoint) (events p)) (\<lambda>d.
            Inr (Plan (sc_event_offset checkpoint) d))))"

definition commit_plan :: "string \<Rightarrow> string \<Rightarrow> int \<Rightarrow> 'v sink_delivery \<Rightarrow> ('v, 'v sink_delivery option) tx_body" where
  "commit_plan job_id sink_name start d u =
     (if sink_offset (get_sink_checkpoint job_id sink_name u) \<noteq> start then Inr (None, u)
      else case get_sink_delivery (sl_delivery_id d) u of
          Some existing \<Rightarrow> Inr (Some existing, u)
        | None \<Rightarrow> bind_res (save_sink_delivery d u) (\<lambda>u. Inr (Some d, u)))"

definition sink_prepare ::
  "digest \<Rightarrow> 'v simulation_job_state \<Rightarrow> string \<Rightarrow> ('v persistence, 'v sink_delivery option) meth" where
  "sink_prepare uuid5 state sink_name p =
     (case plan_delivery uuid5 state sink_name p of
        Inl e \<Rightarrow> (Inl e, p)
      | Inr (Resume d) \<Rightarrow> (Inr (Some d), p)
      | Inr Idle \<Rightarrow> (Inr None, p)
      | Inr (Plan start d) \<Rightarrow> transaction None (commit_plan (js_job_id state) sink_name start d) p)"

section \<open>Delivering\<close>

record ('v, 's) sink_world =
  sk_persistence :: "'v persistence"
  sk_sink :: 's

definition failed_delivery_body :: "'v sink_delivery \<Rightarrow> 'v sink_delivery \<Rightarrow> ('v, unit) tx_body" where
  "failed_delivery_body delivery failed u =
     (case get_sink_delivery (sl_delivery_id delivery) u of
        None \<Rightarrow> Inr ((), u)
      | Some current \<Rightarrow>
          if sl_status current \<noteq> ''delivered'' then bind_res (save_sink_delivery failed u) (\<lambda>u. Inr ((), u))
          else Inr ((), u))"

definition record_failed_delivery :: "'v sink_delivery \<Rightarrow> string \<Rightarrow> ('v persistence, unit) meth" where
  "record_failed_delivery delivery message p =
     (case mk_sink_delivery (delivery\<lparr>sl_attempts := sl_attempts delivery + 1, sl_last_error := Some message\<rparr>) of
        Inl e \<Rightarrow> (Inl e, p)
      | Inr failed \<Rightarrow> transaction None (failed_delivery_body delivery failed) p)"

definition completed_delivery :: "'v sink_delivery \<Rightarrow> 'v sink_delivery res" where
  "completed_delivery d = mk_sink_delivery (d\<lparr>sl_status := ''delivered'', sl_attempts := sl_attempts d + 1, sl_last_error := None,
     sl_delivered_at := Some (ab_logical_time (sl_batch d))\<rparr>)"

definition delivery_checkpoint :: "string \<Rightarrow> 'v sink_delivery \<Rightarrow> sink_checkpoint res" where
  "delivery_checkpoint binding_name d = mk_sink_checkpoint
     \<lparr>sc_job_id = ab_job_id (sl_batch d), sc_sink_name = binding_name, sc_event_offset = ab_to_event_offset (sl_batch d),
      sc_last_delivery_id = Some (sl_delivery_id d)\<rparr>"

definition complete_body ::
  "string \<Rightarrow> 'v sink_delivery \<Rightarrow> 'v sink_delivery \<Rightarrow> sink_checkpoint \<Rightarrow> ('v, 'v sink_delivery) tx_body" where
  "complete_body binding_name delivery completed checkpoint u =
     (let current = get_sink_delivery (sl_delivery_id delivery) u;
          existing = get_sink_checkpoint (ab_job_id (sl_batch delivery)) binding_name u;
          finish = (\<lambda>c. bind_res (save_sink_checkpoint c u) (\<lambda>u.
            bind_res (delete_sink_delivery (sl_delivery_id delivery) u) (\<lambda>u. Inr (completed, u)))) in
      if (case current of None \<Rightarrow> False | Some c \<Rightarrow> sl_status c = ''delivered'') then Inr (the current, u)
      else if sink_offset existing > ab_from_event_offset (sl_batch delivery) then finish (the existing)
      else if sink_offset existing < ab_from_event_offset (sl_batch delivery)
      then Inl (RuntimeError ''sink checkpoint is behind delivery start; an earlier delivery is unresolved'')
      else finish checkpoint)"

definition sink_deliver ::
  "(pyerror \<Rightarrow> string) \<Rightarrow> ('v analytical_batch \<Rightarrow> ('s, unit) meth) \<Rightarrow> string \<Rightarrow> 'v sink_delivery \<Rightarrow>
     (('v, 's) sink_world, 'v sink_delivery) meth" where
  "sink_deliver show_error publish binding_name delivery w =
     (if sl_sink_name delivery \<noteq> binding_name then (Inl (ValueError ''sink binding does not own delivery''), w)
      else if sl_status delivery = ''delivered'' then (Inr delivery, w)
      else case publish (sl_batch delivery) (sk_sink w) of
          (Inl e, s) \<Rightarrow> (case record_failed_delivery delivery (show_error e) (sk_persistence w) of
              (Inl e', p) \<Rightarrow> (Inl e', w\<lparr>sk_persistence := p, sk_sink := s\<rparr>)
            | (Inr _, p) \<Rightarrow> (Inl e, w\<lparr>sk_persistence := p, sk_sink := s\<rparr>))
        | (Inr _, s) \<Rightarrow>
            (case bind_res (completed_delivery delivery) (\<lambda>c. bind_res (delivery_checkpoint binding_name delivery) (\<lambda>k. Inr (c, k))) of
               Inl e \<Rightarrow> (Inl e, w\<lparr>sk_sink := s\<rparr>)
             | Inr (completed, checkpoint) \<Rightarrow>
                 (case transaction None (complete_body binding_name delivery completed checkpoint) (sk_persistence w) of
                    (r, p) \<Rightarrow> (r, w\<lparr>sk_persistence := p, sk_sink := s\<rparr>))))"

definition sink_flush ::
  "digest \<Rightarrow> (pyerror \<Rightarrow> string) \<Rightarrow> ('v analytical_batch \<Rightarrow> ('s, unit) meth) \<Rightarrow> string \<Rightarrow> 'v simulation_job_state \<Rightarrow>
     (('v, 's) sink_world, 'v sink_delivery option) meth" where
  "sink_flush uuid5 show_error publish binding_name state w =
     (case sink_prepare uuid5 state binding_name (sk_persistence w) of
        (Inl e, p) \<Rightarrow> (Inl e, w\<lparr>sk_persistence := p\<rparr>)
      | (Inr prepared, p) \<Rightarrow>
          (case (case prepared of Some d \<Rightarrow> [d] | None \<Rightarrow> sink_pending (js_job_id state) binding_name p) of
             [] \<Rightarrow> (Inr None, w\<lparr>sk_persistence := p\<rparr>)
           | d # _ \<Rightarrow> (case sink_deliver show_error publish binding_name d (w\<lparr>sk_persistence := p\<rparr>) of
               (Inl e, w) \<Rightarrow> (Inl e, w)
             | (Inr d, w) \<Rightarrow> (Inr (Some d), w))))"

section \<open>Effects\<close>

text \<open>The sink records and the log of two states.\<close>

definition same_sinks :: "'v persistence \<Rightarrow> 'v persistence \<Rightarrow> bool" where
  "same_sinks p q \<longleftrightarrow> st_sink_deliveries (pstate q) = st_sink_deliveries (pstate p) \<and>
     st_sink_checkpoints (pstate q) = st_sink_checkpoints (pstate p) \<and> events q = events p"

definition retried :: "'v sink_delivery \<Rightarrow> string \<Rightarrow> 'v sink_delivery" where
  "retried d message = d\<lparr>sl_attempts := sl_attempts d + 1, sl_last_error := Some message\<rparr>"

lemma mk_sink_delivery_same: "mk_sink_delivery d = Inr d' \<Longrightarrow> d' = d"
  by (simp add: mk_sink_delivery_def)

lemma prepare_effect:
  assumes "sink_prepare uuid5 state sink p = (r, p')"
  obtains (failed) e where "r = Inl e" and "p' = p"
  | (resumed) d where "r = Inr (Some d)" and "p' = p" and "d \<in> set (sink_pending (js_job_id state) sink p)"
  | (idle) "r = Inr None" and "p' = p" and "sink_pending (js_job_id state) sink p = []"
      and "int (length (events p)) \<le> sink_offset (sink_checkpoint_of (js_job_id state) sink p)"
  | (found) d where "r = Inr (Some d)" and "same_sinks p p'" and "sink_pending (js_job_id state) sink p = []"
      and "\<exists>k. map_of (st_sink_deliveries (pstate p)) k = Some d"
  | (planned) d where "r = Inr (Some d)" and "sink_pending (js_job_id state) sink p = []"
      and "next_delivery uuid5 state sink (sink_offset (sink_checkpoint_of (js_job_id state) sink p)) (events p) = Inr d"
      and "map_of (st_sink_deliveries (pstate p)) (sl_delivery_id d) = None"
      and "st_sink_deliveries (pstate p') = dset (sl_delivery_id d) d (st_sink_deliveries (pstate p))"
      and "st_sink_checkpoints (pstate p') = st_sink_checkpoints (pstate p)" and "events p' = events p"
proof (cases "sink_pending (js_job_id state) sink p")
  case (Cons d ds)
  with assms show ?thesis by (intro resumed [of d]) (auto simp: sink_prepare_def plan_delivery_def)
next
  case Nil
  let ?c = "sink_checkpoint_of (js_job_id state) sink p"
  show ?thesis
  proof (cases "plan_delivery uuid5 state sink p")
    case (Inl e)
    with assms show ?thesis by (intro failed [of e]) (auto simp: sink_prepare_def)
  next
    case (Inr plan)
    show ?thesis
    proof (cases plan)
      case (Resume d)
      with Inr Nil show ?thesis by (auto simp: plan_delivery_def split: option.splits if_splits)
    next
      case Idle
      with Inr Nil assms show ?thesis
        by (intro idle) (auto simp: sink_prepare_def plan_delivery_def sink_offset_def mk_sink_checkpoint_def split: option.splits if_splits)
    next
      case (Plan start d)
      with Inr Nil have start: "start = sink_offset ?c" and d: "next_delivery uuid5 state sink start (events p) = Inr d"
        by (auto simp: plan_delivery_def sink_offset_def mk_sink_checkpoint_def split: option.splits if_splits)
      from assms Inr Plan have "transaction None (commit_plan (js_job_id state) sink start d) p = (r, p')" by (simp add: sink_prepare_def)
      then show ?thesis
      proof (cases rule: transaction_cases)
        case (1 e)
        then show ?thesis by (intro failed)
      next
        case (2 a u)
        show ?thesis
        proof (cases "map_of (st_sink_deliveries (pstate p)) (sl_delivery_id d)")
          case None
          with 2 start d Nil show ?thesis
            by (intro planned [of d]) (auto simp: commit_plan_def get_sink_checkpoint_def get_sink_delivery_def sink_checkpoint_of_def
                new_uow_def save_sink_delivery_def mark_dirty_def events_def)
        next
          case (Some e)
          with 2 start d Nil show ?thesis
            by (intro found [of e]) (auto simp: commit_plan_def get_sink_checkpoint_def get_sink_delivery_def sink_checkpoint_of_def
                new_uow_def same_sinks_def events_def)
        qed
      qed
    qed
  qed
qed

lemma sink_deliver_effect:
  assumes run: "sink_deliver show_error publish sink d w = (r, w')"
    and d: "map_of (st_sink_deliveries (pstate (sk_persistence w))) (sl_delivery_id d) = Some d" "sl_status d = ''pending''" "0 \<le> ab_from_event_offset (sl_batch d)"
  obtains (failed) e msg where "r = Inl e" and "events (sk_persistence w') = events (sk_persistence w)"
      and "st_sink_checkpoints (pstate (sk_persistence w')) = st_sink_checkpoints (pstate (sk_persistence w))"
      and "st_sink_deliveries (pstate (sk_persistence w')) = st_sink_deliveries (pstate (sk_persistence w)) \<or>
        st_sink_deliveries (pstate (sk_persistence w')) =
          dset (sl_delivery_id d) (retried d msg) (st_sink_deliveries (pstate (sk_persistence w)))"
  | (acked) c k where "r = Inr c" and "sl_batch c = sl_batch d" and "sl_sink_name d = sink"
      and "publish (sl_batch d) (sk_sink w) = (Inr (), sk_sink w')" and "events (sk_persistence w') = events (sk_persistence w)"
      and "st_sink_deliveries (pstate (sk_persistence w')) = dpop (sl_delivery_id d) (st_sink_deliveries (pstate (sk_persistence w)))"
      and "st_sink_checkpoints (pstate (sk_persistence w')) =
        dset (sc_job_id k, sc_sink_name k) k (st_sink_checkpoints (pstate (sk_persistence w)))"
      and "if sink_offset (sink_checkpoint_of (ab_job_id (sl_batch d)) sink (sk_persistence w)) = ab_from_event_offset (sl_batch d)
        then delivery_checkpoint sink d = Inr k else sink_checkpoint_of (ab_job_id (sl_batch d)) sink (sk_persistence w) = Some k"
proof (cases "sl_sink_name d = sink")
  case False
  with run show ?thesis by (intro failed) (auto simp: sink_deliver_def)
next
  case True
  let ?p = "sk_persistence w"
  obtain a s where pub: "publish (sl_batch d) (sk_sink w) = (a, s)" by force
  show ?thesis
  proof (cases a)
    case (Inl e)
    let ?f = "retried d (show_error e)"
    obtain r' p' where rec: "record_failed_delivery d (show_error e) ?p = (r', p')" by force
    have "events p' = events ?p \<and> st_sink_checkpoints (pstate p') = st_sink_checkpoints (pstate ?p) \<and>
      (st_sink_deliveries (pstate p') = st_sink_deliveries (pstate ?p) \<or>
       st_sink_deliveries (pstate p') = dset (sl_delivery_id d) ?f (st_sink_deliveries (pstate ?p)))"
    proof (cases "mk_sink_delivery ?f")
      case (Inr f)
      moreover from Inr have "f = ?f" by (rule mk_sink_delivery_same)
      ultimately have "transaction None (failed_delivery_body d ?f) ?p = (r', p')"
        using rec by (simp add: record_failed_delivery_def retried_def)
      then show ?thesis
        by (cases rule: transaction_cases) (use d in \<open>auto simp: failed_delivery_body_def get_sink_delivery_def new_uow_def
            save_sink_delivery_def mark_dirty_def retried_def events_def\<close>)
    qed (use rec in \<open>simp add: record_failed_delivery_def retried_def\<close>)
    moreover have "\<exists>e'. r = Inl e' \<and> sk_persistence w' = p'"
      using run True d(2) pub Inl rec by (auto simp: sink_deliver_def split: sum.splits)
    ultimately show ?thesis using failed by blast
  next
    case (Inr x)
    show ?thesis
    proof (cases "bind_res (completed_delivery d) (\<lambda>c. bind_res (delivery_checkpoint sink d) (\<lambda>k. Inr (c, k)))")
      case (Inl e)
      with run True d(2) pub \<open>a = Inr x\<close> show ?thesis by (intro failed [of e]) (auto simp: sink_deliver_def)
    next
      case (Inr ck)
      then obtain c k where ck: "ck = (c, k)" "completed_delivery d = Inr c" "delivery_checkpoint sink d = Inr k" by auto
      obtain r' p' where tx: "transaction None (complete_body sink d c k) ?p = (r', p')" by force
      with run True d(2) pub \<open>a = Inr x\<close> Inr ck have res: "r = r'" "w' = w\<lparr>sk_persistence := p', sk_sink := s\<rparr>"
        by (auto simp: sink_deliver_def)
      from tx show ?thesis
      proof (cases rule: transaction_cases)
        case (1 e)
        with res show ?thesis by (intro failed [of e]) auto
      next
        case (2 b u)
        let ?e = "sink_checkpoint_of (ab_job_id (sl_batch d)) sink ?p"
        define k' where "k' = (if sink_offset ?e > ab_from_event_offset (sl_batch d) then the ?e else k)"
        from 2(2) d have body: "b = c" "\<not> sink_offset ?e < ab_from_event_offset (sl_batch d)"
          "st_sink_deliveries (working u) = dpop (sl_delivery_id d) (st_sink_deliveries (pstate ?p))"
          "st_sink_checkpoints (working u) = dset (sc_job_id k', sc_sink_name k') k' (st_sink_checkpoints (pstate ?p))"
          "st_events (working u) = st_events (pstate ?p)"
          by (auto simp: complete_body_def Let_def get_sink_delivery_def get_sink_checkpoint_def new_uow_def sink_checkpoint_of_def
              save_sink_checkpoint_def delete_sink_delivery_def mark_dirty_def k'_def split: if_splits)
        have "if sink_offset ?e = ab_from_event_offset (sl_batch d) then delivery_checkpoint sink d = Inr k' else ?e = Some k'"
          using body(2) ck(3) d(3) by (cases ?e) (auto simp: k'_def sink_offset_def)
        moreover have "sl_batch c = sl_batch d" using ck(2) by (auto simp: completed_delivery_def mk_sink_delivery_def)
        ultimately show ?thesis
          using body 2 res True pub \<open>a = Inr x\<close> by (intro acked [of c k']) (auto simp: events_def)
      qed
    qed
  qed
qed

section \<open>The cursor and the log\<close>

definition ours :: "string \<Rightarrow> string \<Rightarrow> 'v sink_delivery \<Rightarrow> bool" where
  "ours job sink d \<longleftrightarrow> ab_job_id (sl_batch d) = job \<and> sl_sink_name d = sink"

text \<open>A delivery of the events from the cursor on.\<close>

definition at_cursor :: "int \<Rightarrow> 'v domain_event list \<Rightarrow> 'v sink_delivery \<Rightarrow> bool" where
  "at_cursor n es d \<longleftrightarrow> sl_status d = ''pending'' \<and> ab_from_event_offset (sl_batch d) = n \<and>
     n \<le> ab_to_event_offset (sl_batch d) \<and> ab_to_event_offset (sl_batch d) \<le> int (length es) \<and>
     ab_events (sl_batch d) = take (nat (ab_to_event_offset (sl_batch d) - n)) (drop (nat n) es)"

abbreviation cursor_of :: "string \<Rightarrow> string \<Rightarrow> 'v persistence \<Rightarrow> int" where
  "cursor_of job sink p \<equiv> sink_offset (sink_checkpoint_of job sink p)"

abbreviation delivery_map :: "'v persistence \<Rightarrow> string \<rightharpoonup> 'v sink_delivery" where
  "delivery_map p \<equiv> map_of (st_sink_deliveries (pstate p))"

definition sinks_keyed :: "'v persistence \<Rightarrow> bool" where
  "sinks_keyed p \<longleftrightarrow> keyed sl_delivery_id (st_sink_deliveries (pstate p)) \<and>
     keyed (\<lambda>c. (sc_job_id c, sc_sink_name c)) (st_sink_checkpoints (pstate p)) \<and>
     (\<forall>k d. delivery_map p k = Some d \<longrightarrow> sl_status d = ''pending'' \<and> 0 \<le> ab_from_event_offset (sl_batch d))"

text \<open>At most one delivery of the pair is open, and it starts at the cursor.\<close>

definition sink_inv :: "string \<Rightarrow> string \<Rightarrow> 'v persistence \<Rightarrow> bool" where
  "sink_inv job sink p \<longleftrightarrow> sinks_keyed p \<and> 0 \<le> cursor_of job sink p \<and> cursor_of job sink p \<le> int (length (events p)) \<and>
     (\<forall>k d. delivery_map p k = Some d \<longrightarrow> ours job sink d \<longrightarrow> at_cursor (cursor_of job sink p) (events p) d) \<and>
     (\<forall>k d k' d'. delivery_map p k = Some d \<longrightarrow> ours job sink d \<longrightarrow> delivery_map p k' = Some d' \<longrightarrow> ours job sink d' \<longrightarrow> k = k')"

text \<open>What other transactions leave alone: the records of the pair; the log may grow.\<close>

definition pair_kept :: "string \<Rightarrow> string \<Rightarrow> 'v persistence \<Rightarrow> 'v persistence \<Rightarrow> bool" where
  "pair_kept job sink p q \<longleftrightarrow> (\<forall>k d. ours job sink d \<longrightarrow> (delivery_map q k = Some d \<longleftrightarrow> delivery_map p k = Some d)) \<and>
     sink_checkpoint_of job sink q = sink_checkpoint_of job sink p \<and> (sinks_keyed p \<longrightarrow> sinks_keyed q) \<and>
     (\<exists>es. events q = events p @ es)"

lemma at_cursor_append: "0 \<le> n \<Longrightarrow> at_cursor n es d \<Longrightarrow> at_cursor n (es @ fs) d"
  by (auto simp: at_cursor_def nat_diff_distrib')

lemma pair_kept_inv:
  assumes "pair_kept job sink p q" and "sink_inv job sink p"
  shows "sink_inv job sink q" and "cursor_of job sink q = cursor_of job sink p"
proof -
  have same: "delivery_map q k = Some d \<longleftrightarrow> delivery_map p k = Some d" if "ours job sink d" for k d
    using assms(1) that by (simp add: pair_kept_def)
  obtain es where es: "events q = events p @ es" and keyed: "sinks_keyed q"
    using assms by (auto simp: pair_kept_def sink_inv_def)
  show cur: "cursor_of job sink q = cursor_of job sink p" using assms(1) by (simp add: pair_kept_def)
  have "at_cursor (cursor_of job sink q) (events q) d" if "delivery_map q k = Some d" "ours job sink d" for k d
    using assms(2) that same [OF that(2)] unfolding cur es sink_inv_def by (blast intro: at_cursor_append)
  moreover have "k = k'" if "delivery_map q k = Some d" "ours job sink d" "delivery_map q k' = Some d'" "ours job sink d'" for k d k' d'
    using assms(2) that same unfolding sink_inv_def by blast
  ultimately show "sink_inv job sink q" using assms(2) keyed unfolding sink_inv_def cur es by auto
qed

lemma pending_mem:
  assumes "sinks_keyed p"
  shows "d \<in> set (sink_pending job sink p) \<longleftrightarrow> delivery_map p (sl_delivery_id d) = Some d \<and> ours job sink d"
proof -
  have "d \<in> set (dvalues (st_sink_deliveries (pstate p))) \<longleftrightarrow> delivery_map p (sl_delivery_id d) = Some d"
    using assms by (simp add: sinks_keyed_def keyed_mem_iff del: set_map)
  then show ?thesis using assms by (auto simp: sink_pending_def sink_deliveries_def ours_def sinks_keyed_def simp del: set_map)
qed

lemma next_delivery_fields:
  assumes "next_delivery uuid5 state sink n es = Inr d" and "0 \<le> n" and "n \<le> int (length es)"
  shows "ours (js_job_id state) sink d" "at_cursor n es d" "ab_from_event_offset (sl_batch d) = n"
  using assms by (auto simp: next_delivery_def Let_def mk_analytical_batch_def mk_sink_delivery_def ours_def at_cursor_def)

text \<open>After a preparation at most the new delivery is added; what it returns is on record.\<close>

lemma prepare_inv:
  assumes run: "sink_prepare uuid5 state sink p = (r, p')" and inv: "sink_inv (js_job_id state) sink p"
  shows "sink_inv (js_job_id state) sink p'" and "cursor_of (js_job_id state) sink p' = cursor_of (js_job_id state) sink p"
    and "events p' = events p" and "r = Inr (Some d) \<Longrightarrow> delivery_map p' (sl_delivery_id d) = Some d"
    and "r = Inr None \<Longrightarrow> p' = p \<and> sink_pending (js_job_id state) sink p = []"
proof -
  let ?job = "js_job_id state"
  have keyed: "sinks_keyed p" using inv by (simp add: sink_inv_def)
  have "sink_inv ?job sink p' \<and> cursor_of ?job sink p' = cursor_of ?job sink p \<and> events p' = events p \<and>
    (\<forall>d. r = Inr (Some d) \<longrightarrow> delivery_map p' (sl_delivery_id d) = Some d) \<and>
    (r = Inr None \<longrightarrow> p' = p \<and> sink_pending ?job sink p = [])"
    using run
  proof (cases rule: prepare_effect)
    case (resumed d)
    then show ?thesis using inv pending_mem [OF keyed] by simp
  next
    case (found d)
    then obtain k where k: "delivery_map p k = Some d" by blast
    then have "sl_delivery_id d = k" using keyed by (auto simp: sinks_keyed_def dest: keyed_lookup)
    with k found inv show ?thesis
      by (auto simp: same_sinks_def sink_inv_def sinks_keyed_def sink_checkpoint_of_def)
  next
    case (planned d)
    have cur: "sink_checkpoint_of ?job sink p' = sink_checkpoint_of ?job sink p" by (simp add: sink_checkpoint_of_def planned(6))
    note d = next_delivery_fields [OF planned(3)]
    have nobody: "\<not> ours ?job sink e" if "delivery_map p k = Some e" for k e
    proof -
      have "sl_delivery_id e = k" using keyed that by (auto simp: sinks_keyed_def dest: keyed_lookup)
      with that planned(2) pending_mem [OF keyed, of e ?job sink] show ?thesis by auto
    qed
    have "sinks_keyed p'" using keyed d inv by (auto simp: sinks_keyed_def planned(5,6) sink_inv_def at_cursor_def)
    with d nobody inv cur show ?thesis
      by (auto simp: sink_inv_def planned(1,5,7) split: if_splits)
  qed (use inv in auto)
  then show "sink_inv ?job sink p'" "cursor_of ?job sink p' = cursor_of ?job sink p" "events p' = events p"
    "r = Inr (Some d) \<Longrightarrow> delivery_map p' (sl_delivery_id d) = Some d"
    "r = Inr None \<Longrightarrow> p' = p \<and> sink_pending ?job sink p = []" by auto
qed

text \<open>Delivering the open delivery of the pair moves the cursor to its end; delivering another one keeps the pair.\<close>

lemma deliver_other:
  assumes run: "sink_deliver show_error publish sink d w = (r, w')" and inv: "sink_inv job sink (sk_persistence w)"
    and d: "delivery_map (sk_persistence w) (sl_delivery_id d) = Some d" and other: "\<not> ours job sink d"
  shows "pair_kept job sink (sk_persistence w) (sk_persistence w')" and "r = Inr c \<Longrightarrow> ab_job_id (sl_batch c) \<noteq> job"
    and "events (sk_persistence w') = events (sk_persistence w)"
proof -
  let ?p = "sk_persistence w" and ?q = "sk_persistence w'"
  have keyed: "sinks_keyed ?p" using inv by (simp add: sink_inv_def)
  then have st: "sl_status d = ''pending''" "0 \<le> ab_from_event_offset (sl_batch d)" using d by (auto simp: sinks_keyed_def)
  from run d st show "pair_kept job sink ?p ?q"
  proof (cases rule: sink_deliver_effect)
    case (failed e msg)
    then show ?thesis using keyed d other st
      by (auto simp: pair_kept_def sink_checkpoint_of_def sinks_keyed_def retried_def ours_def split: if_splits)
  next
    case (acked c k)
    have "(sc_job_id k, sc_sink_name k) \<noteq> (job, sink)"
      using acked(3,8) other keyed
      by (auto simp: ours_def delivery_checkpoint_def mk_sink_checkpoint_def sinks_keyed_def sink_checkpoint_of_def
          dest!: keyed_lookup split: if_splits)
    then have "sink_checkpoint_of job sink ?q = sink_checkpoint_of job sink ?p"
      by (auto simp: sink_checkpoint_of_def acked(7))
    moreover have "sinks_keyed ?q" using keyed by (auto simp: sinks_keyed_def acked(6,7) split: if_splits)
    moreover have "delivery_map ?q i = Some e \<longleftrightarrow> delivery_map ?p i = Some e" if "ours job sink e" for i e
      using d other that by (auto simp: acked(6))
    ultimately show ?thesis using acked(5) by (simp add: pair_kept_def)
  qed
  from run d st show "ab_job_id (sl_batch c) \<noteq> job" if "r = Inr c"
    by (cases rule: sink_deliver_effect) (use other that in \<open>auto simp: ours_def\<close>)
  from run d st show "events ?q = events ?p" by (cases rule: sink_deliver_effect) auto
qed

lemma deliver_ours:
  assumes run: "sink_deliver show_error publish sink d w = (r, w')" and inv: "sink_inv job sink (sk_persistence w)"
    and d: "delivery_map (sk_persistence w) (sl_delivery_id d) = Some d" and ours: "ours job sink d"
  shows "sink_inv job sink (sk_persistence w')" and "events (sk_persistence w') = events (sk_persistence w)"
    and "(\<exists>e. r = Inl e \<and> cursor_of job sink (sk_persistence w') = cursor_of job sink (sk_persistence w)) \<or>
      (\<exists>c. r = Inr c \<and> sl_batch c = sl_batch d \<and> cursor_of job sink (sk_persistence w') = ab_to_event_offset (sl_batch d) \<and>
         publish (sl_batch d) (sk_sink w) = (Inr (), sk_sink w'))"
proof -
  let ?p = "sk_persistence w" and ?q = "sk_persistence w'"
  have keyed: "sinks_keyed ?p" using inv by (simp add: sink_inv_def)
  have cur: "at_cursor (cursor_of job sink ?p) (events ?p) d" "0 \<le> cursor_of job sink ?p" using inv d ours by (auto simp: sink_inv_def)
  have unique: "k = sl_delivery_id d" if "delivery_map ?p k = Some e" "ours job sink e" for k e
    using inv d ours that unfolding sink_inv_def by blast
  have st: "sl_status d = ''pending''" "0 \<le> ab_from_event_offset (sl_batch d)" using cur by (auto simp: at_cursor_def)
  have "sink_inv job sink ?q \<and> events ?q = events ?p \<and> ((\<exists>e. r = Inl e \<and> cursor_of job sink ?q = cursor_of job sink ?p) \<or>
      (\<exists>c. r = Inr c \<and> sl_batch c = sl_batch d \<and> cursor_of job sink ?q = ab_to_event_offset (sl_batch d) \<and>
         publish (sl_batch d) (sk_sink w) = (Inr (), sk_sink w')))"
    using run d st
  proof (cases rule: sink_deliver_effect)
    case (failed e msg)
    have same: "cursor_of job sink ?q = cursor_of job sink ?p" by (simp add: sink_checkpoint_of_def failed(3))
    have retry: "at_cursor n es (retried d msg) = at_cursor n es d" for n es
      by (auto simp: at_cursor_def retried_def)
    note same
    moreover have "sink_inv job sink ?q" using failed(4)
    proof
      assume "st_sink_deliveries (pstate ?q) = st_sink_deliveries (pstate ?p)"
      with inv failed(2,3) show ?thesis by (simp add: sink_inv_def sinks_keyed_def sink_checkpoint_of_def)
    next
      assume upd: "st_sink_deliveries (pstate ?q) = dset (sl_delivery_id d) (retried d msg) (st_sink_deliveries (pstate ?p))"
      have map: "delivery_map ?q = (delivery_map ?p)(sl_delivery_id d \<mapsto> retried d msg)" by (simp add: upd)
      have "sinks_keyed ?q"
        using keyed st by (auto simp: sinks_keyed_def map) (auto simp: upd failed(3) retried_def)
      moreover have "at_cursor (cursor_of job sink ?p) (events ?p) e" if "delivery_map ?q i = Some e" "ours job sink e" for i e
        using that inv cur(1) retry(1) by (auto simp: map sink_inv_def split: if_splits)
      moreover have "i = sl_delivery_id d" if "delivery_map ?q i = Some e" "ours job sink e" for i e
        using that unique by (auto simp: map split: if_splits)
      ultimately show ?thesis using inv same failed(2) unfolding sink_inv_def by metis
    qed
    ultimately show ?thesis using failed(1,2) by blast
  next
    case (acked c k)
    have "delivery_checkpoint sink d = Inr k" using acked(8) cur ours by (simp add: at_cursor_def ours_def)
    then have k: "sc_job_id k = job" "sc_sink_name k = sink" "sc_event_offset k = ab_to_event_offset (sl_batch d)"
      using ours by (auto simp: delivery_checkpoint_def mk_sink_checkpoint_def ours_def)
    then have new: "cursor_of job sink ?q = ab_to_event_offset (sl_batch d)"
      by (simp add: sink_checkpoint_of_def acked(7) sink_offset_def)
    moreover have "sinks_keyed ?q" using keyed acked(6,7) by (auto simp: sinks_keyed_def split: if_splits)
    moreover have "\<not> ours job sink e" if "delivery_map ?q i = Some e" for i e
      using that unique acked(6) by (auto split: if_splits)
    ultimately show ?thesis using acked(1-5) cur by (auto simp: sink_inv_def at_cursor_def)
  qed
  then show "sink_inv job sink ?q" "events ?q = events ?p"
    "(\<exists>e. r = Inl e \<and> cursor_of job sink ?q = cursor_of job sink ?p) \<or>
      (\<exists>c. r = Inr c \<and> sl_batch c = sl_batch d \<and> cursor_of job sink ?q = ab_to_event_offset (sl_batch d) \<and>
         publish (sl_batch d) (sk_sink w) = (Inr (), sk_sink w'))" by auto
qed

text \<open>The batch of the pair that a flush has acknowledged, if any.\<close>

definition acknowledged :: "string \<Rightarrow> 'v sink_delivery option res \<Rightarrow> 'v analytical_batch list" where
  "acknowledged job r = (case r of Inr (Some c) \<Rightarrow> if ab_job_id (sl_batch c) = job then [sl_batch c] else [] | _ \<Rightarrow> [])"

lemma flush_advances:
  assumes run: "sink_flush uuid5 show_error publish sink state w = (r, w')" and inv: "sink_inv (js_job_id state) sink (sk_persistence w)"
  shows "sink_inv (js_job_id state) sink (sk_persistence w')" and "events (sk_persistence w') = events (sk_persistence w)"
    and "cursor_of (js_job_id state) sink (sk_persistence w) \<le> cursor_of (js_job_id state) sink (sk_persistence w')"
    and "concat (map ab_events (acknowledged (js_job_id state) r)) =
      take (nat (cursor_of (js_job_id state) sink (sk_persistence w') - cursor_of (js_job_id state) sink (sk_persistence w)))
        (drop (nat (cursor_of (js_job_id state) sink (sk_persistence w))) (events (sk_persistence w)))"
proof -
  let ?job = "js_job_id state" and ?p = "sk_persistence w" and ?q = "sk_persistence w'"
  let ?goal = "sink_inv ?job sink ?q \<and> events ?q = events ?p \<and> cursor_of ?job sink ?p \<le> cursor_of ?job sink ?q \<and>
    concat (map ab_events (acknowledged ?job r)) =
      take (nat (cursor_of ?job sink ?q - cursor_of ?job sink ?p)) (drop (nat (cursor_of ?job sink ?p)) (events ?p))"
  obtain r1 p1 where prep: "sink_prepare uuid5 state sink ?p = (r1, p1)" by force
  note P = prepare_inv [OF prep inv]
  have ?goal
  proof (cases "\<exists>d. r1 = Inr (Some d)")
    case False
    then have "acknowledged ?job r = [] \<and> ?q = p1"
      using run prep P(5) by (auto simp: sink_flush_def acknowledged_def split: sum.splits option.splits)
    then show ?thesis using P(1-3) by simp
  next
    case True
    then obtain d where d: "r1 = Inr (Some d)" by blast
    obtain r2 where del: "sink_deliver show_error publish sink d (w\<lparr>sk_persistence := p1\<rparr>) = (r2, w')"
      and r: "acknowledged ?job r = (case r2 of Inr c \<Rightarrow> if ab_job_id (sl_batch c) = ?job then [sl_batch c] else [] | Inl _ \<Rightarrow> [])"
      using run prep d by (auto simp: sink_flush_def acknowledged_def split: sum.splits prod.splits)
    have at: "delivery_map (sk_persistence (w\<lparr>sk_persistence := p1\<rparr>)) (sl_delivery_id d) = Some d"
      and inv1: "sink_inv ?job sink (sk_persistence (w\<lparr>sk_persistence := p1\<rparr>))" using P(1,4) d by simp_all
    show ?thesis
    proof (cases "ours ?job sink d")
      case False
      note O = deliver_other [OF del inv1 at False]
      from r O(2) have "acknowledged ?job r = []" by (cases r2) auto
      with pair_kept_inv [OF O(1) inv1] O(3) P(2,3) show ?thesis by simp
    next
      case True
      have cur: "at_cursor (cursor_of ?job sink p1) (events p1) d" using inv1 at True by (auto simp: sink_inv_def)
      from deliver_ours [OF del inv1 at True] r cur True P(2,3) show ?thesis by (auto simp: at_cursor_def ours_def)
    qed
  qed
  then show "sink_inv ?job sink ?q" "events ?q = events ?p" "cursor_of ?job sink ?p \<le> cursor_of ?job sink ?q"
    "concat (map ab_events (acknowledged ?job r)) =
      take (nat (cursor_of ?job sink ?q - cursor_of ?job sink ?p)) (drop (nat (cursor_of ?job sink ?p)) (events ?p))" by auto
qed

text \<open>
  A run for one job and sink: flushes (with any state of the job; the sink may raise) and any other transactions that
  leave the records of the pair alone and may append events, with the batches acknowledged so far.
\<close>

inductive sink_run ::
  "digest \<Rightarrow> (pyerror \<Rightarrow> string) \<Rightarrow> ('v analytical_batch \<Rightarrow> ('s, unit) meth) \<Rightarrow> string \<Rightarrow> string \<Rightarrow>
     ('v, 's) sink_world \<Rightarrow> 'v analytical_batch list \<Rightarrow> ('v, 's) sink_world \<Rightarrow> bool"
  for uuid5 show_error publish job sink w0 where
  run_start: "sink_run uuid5 show_error publish job sink w0 [] w0"
| run_flush: "sink_run uuid5 show_error publish job sink w0 bs w \<Longrightarrow> js_job_id state = job \<Longrightarrow>
    sink_flush uuid5 show_error publish sink state w = (r, w') \<Longrightarrow>
    sink_run uuid5 show_error publish job sink w0 (bs @ acknowledged job r) w'"
| run_other: "sink_run uuid5 show_error publish job sink w0 bs w \<Longrightarrow>
    transaction owner_id (body :: ('v, unit) tx_body) (sk_persistence w) = (r, p') \<Longrightarrow> pair_kept job sink (sk_persistence w) p' \<Longrightarrow>
    sink_run uuid5 show_error publish job sink w0 bs (w\<lparr>sk_persistence := p'\<rparr>)"

lemma take_add_drop: "0 \<le> a \<Longrightarrow> a \<le> b \<Longrightarrow> take (nat a) xs @ take (nat (b - a)) (drop (nat a) xs) = take (nat b) xs"
proof -
  assume "0 \<le> a" "a \<le> b"
  then have "nat b = nat a + nat (b - a)" by simp
  then show ?thesis by (simp only: take_add)
qed

lemma run_log:
  assumes "sink_run uuid5 show_error publish job sink w0 bs w" and "sk_persistence w0 = new_persistence"
  shows "sink_inv job sink (sk_persistence w) \<and>
    concat (map ab_events bs) = take (nat (cursor_of job sink (sk_persistence w))) (events (sk_persistence w))"
  using assms
proof (induction rule: sink_run.induct)
  case run_start
  then show ?case by (simp add: sink_inv_def sinks_keyed_def new_persistence_def empty_state_def sink_checkpoint_of_def sink_offset_def)
next
  case (run_flush bs w state r w')
  then have inv: "sink_inv (js_job_id state) sink (sk_persistence w)" by simp
  note F = flush_advances [OF run_flush(3) inv]
  have "0 \<le> cursor_of job sink (sk_persistence w)" using run_flush by (simp add: sink_inv_def)
  with F run_flush take_add_drop show ?case by simp
next
  case (run_other bs w owner_id body r p')
  then have inv: "sink_inv job sink (sk_persistence w)" by simp
  note K = pair_kept_inv [OF run_other(3) inv]
  obtain es where es: "events p' = events (sk_persistence w) @ es" using run_other(3) by (auto simp: pair_kept_def)
  have "nat (cursor_of job sink (sk_persistence w)) \<le> length (events (sk_persistence w))" using inv by (auto simp: sink_inv_def)
  with K es run_other show ?case by simp
qed

section \<open>Properties\<close>


definition tick_event :: "nat domain_event" where
  "tick_event = \<lparr>ev_event_id = ''e'', ev_name = ''t'', ev_entity_type = ''x'', ev_entity_id = ''i'', ev_occurred_at = 0,
     ev_tick = None, ev_payload = Mapping.empty, ev_causation_id = None, ev_correlation_id = None, ev_owner_id = Some ''o''\<rparr>"

definition tick_job :: "nat simulation_job_state" where
  "tick_job = \<lparr>js_job_id = ''j'', js_domain_name = ''d'', js_config_json = [], js_config_revision = 1, js_status = ''ready'',
     js_initialized = True, js_logical_time = 0, js_next_tick = 0, js_run_count = 0, js_bootstrap_state = None,
     js_last_triggered_at = None, js_active_trigger_id = None, js_last_completed_trigger_id = None, js_active_batch_trigger_id = None,
     js_active_batch_total_ticks = 0, js_active_batch_completed_ticks = 0, js_last_completed_batch_trigger_id = None,
     js_last_completed_batch_ticks = 0, js_completed_batch_triggers = [], js_phase = ''idle'', js_last_error = None,
     js_active_effect_ids = [], js_active_boundary_message_ids = [], js_active_publication_message_ids = []\<rparr>"

text \<open>A sink that keeps the batches it accepts and refuses the first attempt.\<close>

definition flaky_sink :: "nat analytical_batch \<Rightarrow> (nat \<times> nat analytical_batch list, unit) meth" where
  "flaky_sink b s = (case s of (0, bs) \<Rightarrow> (Inl (RuntimeError ''down''), (1, bs)) | (n, bs) \<Rightarrow> (Inr (), (n, bs @ [b])))"

definition empty_world :: "(nat, nat \<times> nat analytical_batch list) sink_world" where
  "empty_world = \<lparr>sk_persistence = new_persistence, sk_sink = (0, [])\<rparr>"

definition tick_flush :: "((nat, nat \<times> nat analytical_batch list) sink_world, nat sink_delivery option) meth" where
  "tick_flush = sink_flush (\<lambda>_ _. ''u'') (\<lambda>_. ''down'') flaky_sink ''s'' tick_job"

definition tick_append :: "(nat persistence, unit) meth" where
  "tick_append = transaction (Some ''o'') (run_ops [append_event tick_event])"

lemmas outbox_eval =
  tick_event_def tick_job_def flaky_sink_def empty_world_def tick_flush_def tick_append_def new_persistence_def empty_state_def
  new_uow_def fork_state_def commit_def overlap_def transaction_def guards.simps run_ops_def append_event_def blank_owner_def
  blank_def ascii_space_def mark_dirty_def events_def Let_def

definition tick_batch :: "nat analytical_batch" where
  "tick_batch = \<lparr>ab_batch_id = ''u'', ab_job_id = ''j'', ab_domain_name = ''d'', ab_config_revision = 1, ab_logical_tick = 0,
     ab_logical_time = 0, ab_from_event_offset = 0, ab_to_event_offset = 1, ab_events = [tick_event]\<rparr>"

definition tick_delivery :: "int \<Rightarrow> string option \<Rightarrow> nat sink_delivery" where
  "tick_delivery n err = \<lparr>sl_delivery_id = ''u'', sl_sink_name = ''s'', sl_batch = tick_batch, sl_status = ''pending'',
     sl_attempts = n, sl_last_error = err, sl_delivered_at = None\<rparr>"

definition tick_state :: "(string \<times> nat sink_delivery) list \<Rightarrow> nat domain_event list \<Rightarrow> ((string \<times> string) \<times> sink_checkpoint) list \<Rightarrow> nat persistence" where
  "tick_state ds es cs = new_persistence\<lparr>pstate := empty_state\<lparr>st_events := es, st_sink_deliveries := ds, st_sink_checkpoints := cs\<rparr>\<rparr>"

lemma tick_appended: "tick_append new_persistence = (Inr (), tick_state [] [tick_event] [])"
  by (simp add: outbox_eval tick_state_def)

lemmas tick_sink =
  sink_flush_def sink_prepare_def plan_delivery_def sink_pending_def sink_deliveries_def sink_checkpoint_of_def mk_sink_checkpoint_def
  next_delivery_def deterministic_id_def encode_deterministic_parts_def frame_of_def encode_scalar_def dec_int_def dec_nat_small
  mk_analytical_batch_def mk_sink_delivery_def commit_plan_def sink_offset_def get_sink_checkpoint_def get_sink_delivery_def
  save_sink_delivery_def sink_deliver_def record_failed_delivery_def failed_delivery_body_def completed_delivery_def
  delivery_checkpoint_def complete_body_def save_sink_checkpoint_def delete_sink_delivery_def

lemma tick_refused:
  "tick_flush (empty_world\<lparr>sk_persistence := tick_state [] [tick_event] []\<rparr>) =
     (Inl (RuntimeError ''down''), \<lparr>sk_persistence = tick_state [(''u'', tick_delivery 1 (Some ''down''))] [tick_event] [], sk_sink = (1, [])\<rparr>)"
  by (simp add: outbox_eval tick_state_def tick_delivery_def tick_batch_def tick_sink)

definition tick_world :: "(nat, nat \<times> nat analytical_batch list) sink_world" where
  "tick_world = \<lparr>sk_persistence = tick_state [] [tick_event]
        [((''j'', ''s''), \<lparr>sc_job_id = ''j'', sc_sink_name = ''s'', sc_event_offset = 1, sc_last_delivery_id = Some ''u''\<rparr>)],
      sk_sink = (1, [tick_batch])\<rparr>"

lemma tick_accepted:
  "tick_flush \<lparr>sk_persistence = tick_state [(''u'', tick_delivery 1 (Some ''down''))] [tick_event] [], sk_sink = (1, [])\<rparr> =
     (Inr (Some ((tick_delivery 2 None)\<lparr>sl_status := ''delivered'', sl_delivered_at := Some 0\<rparr>)),
      tick_world)"
  by (simp add: outbox_eval tick_state_def tick_delivery_def tick_batch_def tick_world_def tick_sink)

lemma tick_run:
  "sink_run (\<lambda>_ _. ''u'') (\<lambda>_. ''down'') flaky_sink ''j'' ''s'' empty_world [tick_batch]
     tick_world"
proof -
  let ?run = "sink_run (\<lambda>_ _. ''u'') (\<lambda>_. ''down'') flaky_sink ''j'' ''s'' empty_world"
  have job: "js_job_id tick_job = ''j''" by (simp add: tick_job_def)
  have "pair_kept ''j'' ''s'' new_persistence (tick_state [] [tick_event] [])"
    by (simp add: pair_kept_def tick_state_def new_persistence_def empty_state_def events_def sink_checkpoint_of_def sinks_keyed_def)
  then have "?run [] (empty_world\<lparr>sk_persistence := tick_state [] [tick_event] []\<rparr>)"
    using run_other [where w = empty_world and owner_id = "Some ''o''" and body = "run_ops [append_event tick_event]", OF run_start] tick_appended
    by (simp add: empty_world_def tick_append_def)
  from run_flush [OF this job tick_refused [unfolded tick_flush_def]]
  have "?run [] \<lparr>sk_persistence = tick_state [(''u'', tick_delivery 1 (Some ''down''))] [tick_event] [], sk_sink = (1, [])\<rparr>"
    by (simp add: acknowledged_def)
  from run_flush [OF this job tick_accepted [unfolded tick_flush_def]] show ?thesis
    by (simp add: acknowledged_def tick_delivery_def tick_batch_def)
qed


text \<open>
  \<open>prepare\<close> compares only the cursor before it writes: when the log grows between the reads of two workers, both
  persist a delivery that starts at the same cursor, so the events of the first are published again in the second batch,
  under another batch identity.
\<close>

lemma racing_plans_overlap:
  assumes plans: "plan_delivery uuid5 state sink p = Inr (Plan start d1)" "plan_delivery uuid5 state sink p' = Inr (Plan start d2)"
    and "sl_delivery_id d1 \<noteq> sl_delivery_id d2" and "\<not> read_only p'" and "settled_disjoint (pstate p')"
    and "delivery_map p' (sl_delivery_id d1) = None" and "delivery_map p' (sl_delivery_id d2) = None"
  obtains p1 p2 where "transaction None (commit_plan (js_job_id state) sink start d1) p' = (Inr (Some d1), p1)"
    and "transaction None (commit_plan (js_job_id state) sink start d2) p1 = (Inr (Some d2), p2)"
    and "delivery_map p2 (sl_delivery_id d1) = Some d1" and "delivery_map p2 (sl_delivery_id d2) = Some d2"
proof -
  let ?add = "\<lambda>d q. q\<lparr>pstate := (pstate q)\<lparr>st_sink_deliveries := dset (sl_delivery_id d) d (st_sink_deliveries (pstate q))\<rparr>\<rparr>"
  have commits: "transaction None (commit_plan (js_job_id state) sink start d) q = (Inr (Some d), ?add d q)"
    if "sink_offset (sink_checkpoint_of (js_job_id state) sink q) = start" "delivery_map q (sl_delivery_id d) = None" "\<not> read_only q"
      "settled_disjoint (pstate q)" for d q
    using that by (subst transaction_ok) (auto simp: commit_plan_def get_sink_checkpoint_def get_sink_delivery_def guards.simps
        sink_checkpoint_of_def new_uow_def save_sink_delivery_def mark_dirty_def settled_disjoint_def)
  have "sink_offset (sink_checkpoint_of (js_job_id state) sink p') = start"
    using plans(2) by (auto simp: plan_delivery_def sink_offset_def mk_sink_checkpoint_def split: list.splits option.splits if_splits)
  with assms that [of "?add d1 p'" "?add d2 (?add d1 p')"] commits [of p' d1] commits [of "?add d1 p'" d2]
  show thesis by (simp add: sink_checkpoint_of_def settled_disjoint_def)
qed

end
