(* ===== verification/System_Run.thy ===== *)
theory System_Run
  imports Simulation_Engine Boundary_Observation Sink_Outbox
begin

text \<open>
  The engine, the boundary protocol and the sink outbox on one durable state. Each of them writes its own collections;
  this theory shows what each leaves alone and composes their invariants over runs that interleave their operations.
\<close>

section \<open>What each component writes\<close>

text \<open>The writes of the scheduler and the engine.\<close>

inductive kernel_write :: "'v uow \<Rightarrow> 'v uow \<Rightarrow> bool" where
  kw_entity: "save_entity e u = Inr u' \<Longrightarrow> kernel_write u u'"
| kw_domain: "save_domain_delivery d u = Inr u' \<Longrightarrow> kernel_write u u'"
| kw_event: "append_event ev u = Inr u' \<Longrightarrow> kernel_write u u'"
| kw_scenario: "set_scenario_state s ow u = Inr u' \<Longrightarrow> kernel_write u u'"
| kw_command: "save_command c u = Inr u' \<Longrightarrow> kernel_write u u'"
| kw_work: "save_scheduled_work w u = Inr u' \<Longrightarrow> kernel_write u u'"
| kw_uncommand: "delete_command k u = Inr u' \<Longrightarrow> kernel_write u u'"
| kw_unwork: "delete_scheduled_work k u = Inr u' \<Longrightarrow> kernel_write u u'"
| kw_position: "set_simulation_position q ow u = Inr u' \<Longrightarrow> kernel_write u u'"
| kw_tick: "set_committed_tick n ow u = Inr u' \<Longrightarrow> kernel_write u u'"

text \<open>The writes of the protocol (a handler apart) and of the outbox.\<close>

inductive protocol_write :: "'v uow \<Rightarrow> 'v uow \<Rightarrow> bool" where
  pw_message: "save_boundary_message m u = Inr u' \<Longrightarrow> protocol_write u u'"
| pw_delivery: "save_boundary_delivery d u = Inr u' \<Longrightarrow> protocol_write u u'"
| pw_receipt: "save_boundary_consumption c u = Inr u' \<Longrightarrow> protocol_write u u'"
| pw_job: "save_job_state j u = Inr u' \<Longrightarrow> protocol_write u u'"

inductive sink_write :: "'v uow \<Rightarrow> 'v uow \<Rightarrow> bool" where
  sk_delivery: "save_sink_delivery d u = Inr u' \<Longrightarrow> sink_write u u'"
| sk_undelivery: "delete_sink_delivery k u = Inr u' \<Longrightarrow> sink_write u u'"
| sk_checkpoint: "save_sink_checkpoint c u = Inr u' \<Longrightarrow> sink_write u u'"

definition same_work :: "'v state \<Rightarrow> 'v state \<Rightarrow> bool" where
  "same_work s t \<longleftrightarrow> st_commands s = st_commands t \<and> st_scheduled_work s = st_scheduled_work t"

definition log_grows :: "'v state \<Rightarrow> 'v state \<Rightarrow> bool" where
  "log_grows s t \<longleftrightarrow> st_sink_deliveries t = st_sink_deliveries s \<and> st_sink_checkpoints t = st_sink_checkpoints s \<and>
     (\<exists>es. st_events t = st_events s @ es)"

lemma kernel_write_frame: "kernel_write u u' \<Longrightarrow> uow_step u u' \<and> same_boundary (working u) (working u') \<and> log_grows (working u) (working u')"
  by (induction rule: kernel_write.induct)
    (simp_all add: uow_step.intros, auto simp: uow_mutators same_boundary_def log_grows_def split: if_splits option.splits)

lemma protocol_write_frame: "protocol_write u u' \<Longrightarrow> uow_step u u' \<and> same_work (working u) (working u') \<and> log_grows (working u) (working u')"
  by (induction rule: protocol_write.induct)
    (simp_all add: uow_step.intros, auto simp: uow_mutators same_work_def log_grows_def split: if_splits option.splits)

lemma sink_write_frame: "sink_write u u' \<Longrightarrow> uow_step u u' \<and> same_work (working u) (working u') \<and> same_boundary (working u) (working u')"
  by (induction rule: sink_write.induct)
    (simp_all add: uow_step.intros, auto simp: uow_mutators same_work_def same_boundary_def split: if_splits option.splits)

lemma frame_refl [simp]: "same_work s s" "same_boundary s s" "log_grows s s"
  by (simp_all add: same_work_def same_boundary_def log_grows_def)

lemma frame_trans:
  "same_work r s \<Longrightarrow> same_work s t \<Longrightarrow> same_work r t"
  "same_boundary r s \<Longrightarrow> same_boundary s t \<Longrightarrow> same_boundary r t"
  "log_grows r s \<Longrightarrow> log_grows s t \<Longrightarrow> log_grows r t"
  by (auto simp: same_work_def same_boundary_def log_grows_def)

lemma kernel_writes_frame:
  "kernel_write\<^sup>*\<^sup>* u u' \<Longrightarrow> uow_step\<^sup>*\<^sup>* u u' \<and> same_boundary (working u) (working u') \<and> log_grows (working u) (working u')"
  by (induction rule: rtranclp_induct) (auto dest!: kernel_write_frame intro: frame_trans)

lemma protocol_writes_frame:
  "protocol_write\<^sup>*\<^sup>* u u' \<Longrightarrow> uow_step\<^sup>*\<^sup>* u u' \<and> same_work (working u) (working u') \<and> log_grows (working u) (working u')"
  by (induction rule: rtranclp_induct) (auto dest!: protocol_write_frame intro: frame_trans)

lemma sink_writes_frame:
  "sink_write\<^sup>*\<^sup>* u u' \<Longrightarrow> uow_step\<^sup>*\<^sup>* u u' \<and> same_work (working u) (working u') \<and> same_boundary (working u) (working u')"
  by (induction rule: rtranclp_induct) (auto dest!: sink_write_frame intro: frame_trans)

section \<open>The engine writes nothing else\<close>

lemmas kernel_writeI = kernel_write.intros [THEN r_into_rtranclp [of kernel_write]]

lemma save_entity_version_writes: "save_entity_version cfg e u = Inr u' \<Longrightarrow> kernel_write\<^sup>*\<^sup>* u u'"
  by (auto simp: save_entity_version_def split: option.splits if_splits intro: kernel_writeI)

lemma append_sealed_writes: "append_sealed cfg a b c ev u = Inr u' \<Longrightarrow> kernel_write\<^sup>*\<^sup>* u u'"
  by (auto simp: append_sealed_def split: option.splits if_splits dest!: kernel_writeI(3))

lemma record_events_writes: "record_events cfg a b c evs u l = (Inr u', l') \<Longrightarrow> kernel_write\<^sup>*\<^sup>* u u'"
  by (induction evs arbitrary: u l) (auto split: sum.splits prod.splits intro: rtranclp_trans dest!: append_sealed_writes)

lemma execute_on_writes: "execute_on cfg c e u l = (Inr u', l') \<Longrightarrow> kernel_write\<^sup>*\<^sup>* u u'"
  by (auto simp: execute_on_def drain_events_def save_scenarios_def split: if_splits sum.splits prod.splits
      dest!: save_entity_version_writes record_events_writes kernel_writeI(4))

lemma execute_command_writes: "execute_command cfg p c u l = (Inr u', l') \<Longrightarrow> kernel_write\<^sup>*\<^sup>* u u'"
  by (auto simp: execute_command_def split: sum.splits option.splits dest: execute_on_writes)

lemma dispatch_in_uow_writes: "dispatch_scheduled_in_uow cfg p i u l = (Inr (b, u'), l') \<Longrightarrow> kernel_write\<^sup>*\<^sup>* u u'"
  by (auto simp: dispatch_scheduled_in_uow_def Let_def split: sum.splits prod.splits if_splits
      dest!: execute_command_writes kernel_writeI(7,8))

lemma execute_due_writes: "execute_due cfg p is n u l = (Inr (k, u'), l') \<Longrightarrow> kernel_write\<^sup>*\<^sup>* u u'"
  by (induction "is" arbitrary: n u l) (auto split: sum.splits prod.splits intro: rtranclp_trans dest!: dispatch_in_uow_writes)

lemma save_position_writes: "save_position cfg t n k u = Inr u' \<Longrightarrow> kernel_write\<^sup>*\<^sup>* u u'"
  by (auto simp: save_position_def dest!: kernel_writeI(9))

lemma scheduled_body_writes: "scheduled_body cfg i p u l = (Inr (b, u'), l') \<Longrightarrow> kernel_write\<^sup>*\<^sup>* u u'"
  by (auto simp: scheduled_body_def split: sum.splits prod.splits bool.splits dest!: dispatch_in_uow_writes save_position_writes)

lemma tick_body_writes: "tick_body cfg te ct pos p u l = (Inr (a, u'), l') \<Longrightarrow> kernel_write\<^sup>*\<^sup>* u u'"
  by (auto simp: tick_body_def save_scenarios_def split: sum.splits prod.splits
      dest!: kernel_writeI(4) execute_due_writes kernel_writeI(10) save_position_writes)

section \<open>Commits\<close>

text \<open>A step of the durable state: nothing (the operation raised, or only read), or one commit of writes.\<close>

definition committed :: "('v uow \<Rightarrow> 'v uow \<Rightarrow> bool) \<Rightarrow> 'v persistence \<Rightarrow> 'v persistence \<Rightarrow> bool" where
  "committed W p p' \<longleftrightarrow> p' = p \<or>
     (\<exists>u. W (new_uow (pstate p)) u \<and> settled_disjoint (working u) \<and> p' = p\<lparr>pstate := working u\<rparr>)"

lemma transaction_committed:
  assumes "transaction ow body p = (r, p')" and "\<And>a u. body (new_uow (pstate p)) = Inr (a, u) \<Longrightarrow> W (new_uow (pstate p)) u"
  shows "committed W p p'"
  using assms(1) by (cases rule: transaction_cases)
    (use assms(2) in \<open>auto simp: committed_def commit_Inr_iff settled_disjoint_def\<close>)

lemma live_transaction_committed:
  assumes "live_transaction ow body w = (r, w')"
    and "\<And>a u l'. body (wd_persistence w) (new_uow (pstate (wd_persistence w))) (wd_live w) = (Inr (a, u), l') \<Longrightarrow>
      W (new_uow (pstate (wd_persistence w))) u"
  shows "committed W (wd_persistence w) (wd_persistence w')"
  using assms(1) by (cases rule: live_transaction_cases) (use assms(2) in \<open>auto simp: committed_def\<close>)

lemma committed_schedule:
  assumes "committed W p p'" and "\<And>u u'. W u u' \<Longrightarrow> uow_step\<^sup>*\<^sup>* u u' \<and> (work_ok (working u) \<longrightarrow> work_ok (working u'))"
    and "schedule_inv p"
  shows "schedule_inv p'"
  using assms committed_schedule_inv [OF assms(3)] by (auto simp: committed_def schedule_inv_def)

lemma committed_protocol:
  assumes "committed W p p'" and "\<And>u u'. W u u' \<Longrightarrow> same_boundary (working u) (working u')" and "protocol_inv uuid5 p"
  shows "protocol_inv uuid5 p'"
proof -
  have "same_boundary (pstate p) (pstate p')" using assms(1,2) by (fastforce simp: committed_def)
  moreover have "settled_disjoint (pstate p') \<and> \<not> read_only p'" using assms(1,3) by (auto simp: committed_def protocol_inv_def)
  ultimately show ?thesis using assms(3) boundary_inv_same boundary_keyed_same unfolding protocol_inv_def by blast
qed

text \<open>The batches acknowledged so far are the events before the cursor.\<close>

definition log_delivered :: "string \<Rightarrow> string \<Rightarrow> 'v analytical_batch list \<Rightarrow> 'v persistence \<Rightarrow> bool" where
  "log_delivered job sink bs p \<longleftrightarrow> sink_inv job sink p \<and> concat (map ab_events bs) = take (nat (cursor_of job sink p)) (events p)"

lemma committed_log:
  assumes "committed W p p'" and "\<And>u u'. W u u' \<Longrightarrow> log_grows (working u) (working u')" and "log_delivered job sink bs p"
  shows "log_delivered job sink bs p'"
proof -
  have "log_grows (pstate p) (pstate p')" using assms(1,2) by (fastforce simp: committed_def)
  then obtain es where es: "events p' = events p @ es" and "pair_kept job sink p p'"
    by (auto simp: log_grows_def pair_kept_def events_def sink_checkpoint_of_def sinks_keyed_def)
  then have "sink_inv job sink p'" "cursor_of job sink p' = cursor_of job sink p"
    using assms(3) pair_kept_inv by (auto simp: log_delivered_def)
  moreover have "nat (cursor_of job sink p) \<le> length (events p)" using assms(3) by (auto simp: log_delivered_def sink_inv_def)
  ultimately show ?thesis using assms(3) es by (simp add: log_delivered_def)
qed

section \<open>The operations of the three components\<close>

text \<open>Entities are created by transactions outside the engine.\<close>

inductive kernel_op :: "digest \<Rightarrow> ('v, 'c) engine_config \<Rightarrow> ('v, 'c) sim_world \<Rightarrow> ('v, 'c) sim_world \<Rightarrow> bool" for uuid5 cfg where
  kop_schedule: "record_schedule uuid5 owner now c prio (wd_persistence w) = (r, p') \<Longrightarrow> kernel_op uuid5 cfg w (w\<lparr>wd_persistence := p'\<rparr>)"
| kop_cancel: "cancel_work owner k (wd_persistence w) = (r', p') \<Longrightarrow> kernel_op uuid5 cfg w (w\<lparr>wd_persistence := p'\<rparr>)"
| kop_entity: "transaction None (run_ops [save_entity e]) (wd_persistence w) = (s, p') \<Longrightarrow> kernel_op uuid5 cfg w (w\<lparr>wd_persistence := p'\<rparr>)"
| kop_dispatch: "dispatch cfg c w = (r, w') \<Longrightarrow> kernel_op uuid5 cfg w w'"
| kop_scheduled: "dispatch_scheduled cfg i w = (r', w') \<Longrightarrow> kernel_op uuid5 cfg w w'"
| kop_tick: "advance_tick cfg w = (r'', w') \<Longrightarrow> kernel_op uuid5 cfg w w'"

lemma run_ops_single: "run_ops [f] u = Inr (a, u') \<longleftrightarrow> f u = Inr u'"
  by (cases "f u") (auto simp: run_ops_def)

lemma kernel_op_engine_step: "kernel_op uuid5 cfg w w' \<Longrightarrow> engine_step uuid5 cfg w w'"
proof (induction rule: kernel_op.induct)
  case (kop_entity e w r p')
  then have p': "p' = wd_persistence w \<or> (\<exists>u. save_entity e (new_uow (pstate (wd_persistence w))) = Inr u \<and> p' = (wd_persistence w)\<lparr>pstate := working u\<rparr>)"
    by (auto simp: run_ops_single elim!: transaction_cases)
  have "uow_body (run_ops [save_entity e])" by (auto simp: uow_body_def run_ops_single dest!: save_entity_step)
  then have "history (wd_persistence w) p'" using kop_entity by (blast intro: history.intros)
  then have "schedule_step uuid5 (wd_persistence w) p'"
    by (rule sstep_other) (use p' in \<open>auto simp: uow_mutators new_uow_def\<close>)
  then show ?case by (rule estep_durable)
qed (auto intro: engine_step.intros schedule_step.intros)

lemma undo_live_persistence [simp]: "wd_persistence (undo_live l w) = wd_persistence w"
  by (simp add: undo_live_def)

lemma kernel_op_committed:
  assumes "kernel_op uuid5 cfg w w'"
  shows "committed (kernel_write\<^sup>*\<^sup>*) (wd_persistence w) (wd_persistence w')"
  using assms
proof cases
  case (kop_schedule owner now c prio r p')
  then show ?thesis
    by (auto simp: record_schedule_def schedule_body_def committed_def [of _ p p for p] split: if_splits
        intro!: transaction_committed dest!: kernel_writeI(5,6))
next
  case (kop_cancel owner k r p')
  then show ?thesis unfolding cancel_work_def
    by (auto simp: cancel_work_body_def split: option.splits if_splits intro!: transaction_committed dest!: kernel_writeI(7,8))
next
  case (kop_entity e r p')
  then show ?thesis by (auto simp: run_ops_single intro!: transaction_committed dest!: kernel_writeI(1))
next
  case (kop_dispatch c r)
  obtain r1 w1 where tx: "live_transaction (eg_owner_id cfg) (\<lambda>p u l. then_return () (execute_command cfg p c u l)) w = (r1, w1)" by force
  then have "committed (kernel_write\<^sup>*\<^sup>*) (wd_persistence w) (wd_persistence w1)"
    by (rule live_transaction_committed) (auto simp: then_return_def split: prod.splits sum.splits dest: execute_command_writes)
  with tx kop_dispatch show ?thesis by (auto simp: dispatch_def Let_def committed_def split: if_splits sum.splits)
next
  case (kop_scheduled i r)
  obtain r1 w1 where tx: "live_transaction (eg_owner_id cfg) (scheduled_body cfg i) w = (r1, w1)" by force
  then have "committed (kernel_write\<^sup>*\<^sup>*) (wd_persistence w) (wd_persistence w1)"
    by (rule live_transaction_committed) (rule scheduled_body_writes)
  with tx kop_scheduled show ?thesis by (auto simp: dispatch_scheduled_def committed_def split: if_splits sum.splits)
next
  case (kop_tick r)
  have tx: "committed (kernel_write\<^sup>*\<^sup>*) (wd_persistence w) (wd_persistence w1)"
    if "live_transaction (eg_owner_id cfg) (tick_body cfg te ct pos) (w\<lparr>wd_live := l\<rparr>) = (r1, w1)" for te ct pos l r1 w1
    using live_transaction_committed [OF that, of "kernel_write\<^sup>*\<^sup>*"] tick_body_writes by fastforce
  from kop_tick show ?thesis
    by (auto simp: advance_tick_def Let_def committed_def split: sum.splits prod.splits dest!: tx)
qed

text \<open>
  A consumer may stage work of its own in the transaction it is given, but it leaves the protocol and sink records
  alone and keeps the scheduled work consistent.
\<close>

definition consumer_safe :: "'v boundary_handler \<Rightarrow> bool" where
  "consumer_safe h \<longleftrightarrow> (\<forall>m u e u'. h m u = Inr (e, u') \<longrightarrow> uow_step\<^sup>*\<^sup>* u u' \<and> same_boundary (working u) (working u') \<and>
     log_grows (working u) (working u') \<and> (work_ok (working u) \<longrightarrow> work_ok (working u')))"

inductive protocol_op :: "digest \<Rightarrow> 'v persistence \<Rightarrow> 'v persistence \<Rightarrow> bool" for uuid5 where
  pop_publish: "publish uuid5 m job p = (r, p') \<Longrightarrow> protocol_op uuid5 p p'"
| pop_claim: "claim_next uuid5 q p = (r', p') \<Longrightarrow> protocol_op uuid5 p p'"
| pop_consume: "consume uuid5 lease reg now p = (r'', p') \<Longrightarrow> \<forall>(k, h) \<in> set reg. consumer_safe h \<Longrightarrow> protocol_op uuid5 p p'"

lemma protocol_op_boundary_step: "protocol_op uuid5 p p' \<Longrightarrow> boundary_step uuid5 p p'"
proof (induction rule: protocol_op.induct)
  case (pop_consume lease reg now p r p')
  then show ?case by (intro consume_step) (auto simp: registry_ok_def handler_ok_def consumer_safe_def)
qed (auto intro: publish_step claim_step)

text \<open>What an operation of the protocol means for the other components.\<close>

definition beside_protocol :: "'v uow \<Rightarrow> 'v uow \<Rightarrow> bool" where
  "beside_protocol u u' \<longleftrightarrow> uow_step\<^sup>*\<^sup>* u u' \<and> log_grows (working u) (working u') \<and> (work_ok (working u) \<longrightarrow> work_ok (working u'))"

lemma protocol_writes_beside: "protocol_write\<^sup>*\<^sup>* u u' \<Longrightarrow> beside_protocol u u'"
  by (auto simp: beside_protocol_def same_work_def work_ok_def dest: protocol_writes_frame)

lemma beside_trans: "beside_protocol u v \<Longrightarrow> beside_protocol v w \<Longrightarrow> beside_protocol u w"
  by (auto simp: beside_protocol_def intro: frame_trans)

lemmas protocol_writeI = protocol_write.intros [THEN r_into_rtranclp [of protocol_write]]

lemma publish_writes: "publish_body m x job u = Inr (d, u') \<Longrightarrow> protocol_write\<^sup>*\<^sup>* u u'"
  by (auto simp: publish_body_def charge_recovery_def split: option.splits if_splits dest!: protocol_writeI)

lemma claim_writes: "claim_body uuid5 q u = Inr (l, u') \<Longrightarrow> protocol_write\<^sup>*\<^sup>* u u'"
  by (auto simp: claim_body_def split: list.splits dest!: protocol_writeI(2))

lemma acknowledge_writes: "acknowledge_delivery uuid5 d old e now u = Inr (c, u') \<Longrightarrow> protocol_write\<^sup>*\<^sup>* u u'"
  by (auto simp: acknowledge_delivery_def split: option.splits if_splits dest!: protocol_writeI(2,3))

lemma consume_beside:
  assumes "consume_body uuid5 lease reg now u = Inr (c, u')" and "\<forall>(k, h) \<in> set reg. consumer_safe h"
  shows "beside_protocol u u'"
proof (cases "u' = u")
  case False
  with assms(1) obtain m h e v d old where "resolve m reg = Inr h" and h: "h m u = Inr (e, v)"
    and ack: "acknowledge_delivery uuid5 d old e now v = Inr (c, u')"
    by (auto simp: consume_body_def Let_def split: option.splits if_splits)
  then have "consumer_safe h" using assms(2)
    by (auto simp: resolve_def Let_def split: option.splits if_splits dest!: map_of_SomeD)
  with h have "beside_protocol u v" by (auto simp: consumer_safe_def beside_protocol_def)
  with acknowledge_writes [OF ack] show ?thesis by (blast intro: beside_trans protocol_writes_beside)
qed (simp add: beside_protocol_def)

lemma protocol_op_committed:
  assumes "protocol_op uuid5 p p'"
  shows "committed beside_protocol p p'"
  using assms
proof cases
  case (pop_publish m job r)
  then show ?thesis
    by (auto simp: publish_def committed_def [of _ p p for p] split: sum.splits
        intro!: transaction_committed protocol_writes_beside dest: publish_writes)
next
  case (pop_claim q r)
  then show ?thesis
    by (auto simp: claim_next_def committed_def [of _ p p for p] split: sum.splits
        intro!: transaction_committed protocol_writes_beside dest: claim_writes)
next
  case (pop_consume lease reg now r)
  then show ?thesis by (auto simp: consume_def intro: transaction_committed consume_beside)
qed

section \<open>The outbox writes nothing else\<close>

lemmas sink_writeI = sink_write.intros [THEN r_into_rtranclp [of sink_write]]

lemma prepare_committed: "sink_prepare uuid5 state sink p = (r, p') \<Longrightarrow> committed (sink_write\<^sup>*\<^sup>*) p p'"
  by (auto simp: sink_prepare_def commit_plan_def committed_def [of _ p p for p] split: sum.splits sink_plan.splits if_splits option.splits
      intro!: transaction_committed dest!: sink_writeI(1))

lemma failure_committed: "record_failed_delivery d msg p = (r, p') \<Longrightarrow> committed (sink_write\<^sup>*\<^sup>*) p p'"
  by (auto simp: record_failed_delivery_def failed_delivery_body_def committed_def [of _ p p for p]
      split: sum.splits if_splits option.splits intro!: transaction_committed dest!: sink_writeI(1))

lemma complete_writes: "complete_body sink d c k u = Inr (x, u') \<Longrightarrow> sink_write\<^sup>*\<^sup>* u u'"
  by (auto simp: complete_body_def Let_def split: option.splits if_splits dest!: sink_writeI(2,3))

lemma complete_committed: "transaction None (complete_body sink d c k) p = (x, p') \<Longrightarrow> committed (sink_write\<^sup>*\<^sup>*) p p'"
  by (rule transaction_committed) (auto intro: complete_writes)

lemma deliver_committed:
  "sink_deliver show_error pub sink d w = (r, w') \<Longrightarrow> committed (sink_write\<^sup>*\<^sup>*) (sk_persistence w) (sk_persistence w')"
  by (auto simp: sink_deliver_def committed_def [of _ p p for p] split: if_splits sum.splits prod.splits
      dest!: failure_committed complete_committed)

lemma flush_committed:
  assumes "sink_flush uuid5 show_error pub sink state w = (r, w')"
  obtains p1 where "committed (sink_write\<^sup>*\<^sup>*) (sk_persistence w) p1" and "committed (sink_write\<^sup>*\<^sup>*) p1 (sk_persistence w')"
proof -
  obtain r1 p1 where prep: "sink_prepare uuid5 state sink (sk_persistence w) = (r1, p1)" by force
  have "committed (sink_write\<^sup>*\<^sup>*) p1 (sk_persistence w')"
    using assms prep deliver_committed [of show_error pub sink _ "w\<lparr>sk_persistence := p1\<rparr>"]
    by (auto simp: sink_flush_def committed_def [of _ p p for p] split: sum.splits option.splits list.splits prod.splits)
  with prepare_committed [OF prep] show ?thesis by (rule that)
qed

section \<open>Runs\<close>

text \<open>
  A deployment: the engine with its durable state, and a sink. A run interleaves the operations of the three components
  in any order, any of them may raise, and records the batches the sink has acknowledged for one job.
\<close>

record ('v, 'c, 's) deployment =
  dp_world :: "('v, 'c) sim_world"
  dp_sink :: 's

abbreviation dp_persistence :: "('v, 'c, 's) deployment \<Rightarrow> 'v persistence" where
  "dp_persistence d \<equiv> wd_persistence (dp_world d)"

definition set_persistence :: "'v persistence \<Rightarrow> ('v, 'c, 's) deployment \<Rightarrow> ('v, 'c, 's) deployment" where
  "set_persistence p d = d\<lparr>dp_world := (dp_world d)\<lparr>wd_persistence := p\<rparr>\<rparr>"

definition flush_sink ::
  "digest \<Rightarrow> (pyerror \<Rightarrow> string) \<Rightarrow> ('v analytical_batch \<Rightarrow> ('s, unit) meth) \<Rightarrow> string \<Rightarrow> 'v simulation_job_state \<Rightarrow>
     (('v, 'c, 's) deployment, 'v sink_delivery option) meth" where
  "flush_sink uuid5 show_error pub sink state d =
     (case sink_flush uuid5 show_error pub sink state \<lparr>sk_persistence = dp_persistence d, sk_sink = dp_sink d\<rparr> of
        (r, w) \<Rightarrow> (r, (set_persistence (sk_persistence w) d)\<lparr>dp_sink := sk_sink w\<rparr>))"

inductive system_run ::
  "digest \<Rightarrow> ('v, 'c) engine_config \<Rightarrow> (pyerror \<Rightarrow> string) \<Rightarrow> ('v analytical_batch \<Rightarrow> ('s, unit) meth) \<Rightarrow> string \<Rightarrow> string \<Rightarrow>
     ('v, 'c, 's) deployment \<Rightarrow> 'v analytical_batch list \<Rightarrow> ('v, 'c, 's) deployment \<Rightarrow> bool"
  for uuid5 cfg show_error pub job sink d0 where
  sys_start: "system_run uuid5 cfg show_error pub job sink d0 [] d0"
| sys_kernel: "system_run uuid5 cfg show_error pub job sink d0 bs d \<Longrightarrow> kernel_op uuid5 cfg (dp_world d) w' \<Longrightarrow>
    system_run uuid5 cfg show_error pub job sink d0 bs (d\<lparr>dp_world := w'\<rparr>)"
| sys_protocol: "system_run uuid5 cfg show_error pub job sink d0 bs d \<Longrightarrow> protocol_op uuid5 (dp_persistence d) p' \<Longrightarrow>
    system_run uuid5 cfg show_error pub job sink d0 bs (set_persistence p' d)"
| sys_flush: "system_run uuid5 cfg show_error pub job sink d0 bs d \<Longrightarrow> js_job_id state = job \<Longrightarrow>
    flush_sink uuid5 show_error pub sink state d = (r, d') \<Longrightarrow>
    system_run uuid5 cfg show_error pub job sink d0 (bs @ acknowledged job r) d'"

definition system_inv :: "digest \<Rightarrow> string \<Rightarrow> string \<Rightarrow> 'v analytical_batch list \<Rightarrow> ('v, 'c, 's) deployment \<Rightarrow> bool" where
  "system_inv uuid5 job sink bs d \<longleftrightarrow> world_inv (dp_world d) \<and> protocol_inv uuid5 (dp_persistence d) \<and>
     log_delivered job sink bs (dp_persistence d)"

lemma kernel_op_inv:
  assumes "kernel_op uuid5 cfg (dp_world d) w'" and "system_inv uuid5 job sink bs d"
  shows "system_inv uuid5 job sink bs (d\<lparr>dp_world := w'\<rparr>)"
proof -
  note c = kernel_op_committed [OF assms(1)]
  have "world_inv w'" using engine_step_inv [OF kernel_op_engine_step [OF assms(1)]] assms(2) by (simp add: system_inv_def)
  moreover have "protocol_inv uuid5 (wd_persistence w')"
    by (rule committed_protocol [OF c]) (use assms(2) kernel_writes_frame in \<open>auto simp: system_inv_def\<close>)
  moreover have "log_delivered job sink bs (wd_persistence w')"
    by (rule committed_log [OF c]) (use assms(2) kernel_writes_frame in \<open>auto simp: system_inv_def\<close>)
  ultimately show ?thesis by (simp add: system_inv_def)
qed

lemma protocol_op_inv:
  assumes "protocol_op uuid5 (dp_persistence d) p'" and "system_inv uuid5 job sink bs d"
  shows "system_inv uuid5 job sink bs (set_persistence p' d)"
proof -
  note c = protocol_op_committed [OF assms(1)]
  have "schedule_inv p'"
    by (rule committed_schedule [OF c]) (use assms(2) in \<open>auto simp: system_inv_def world_inv_def beside_protocol_def\<close>)
  moreover have "log_delivered job sink bs p'"
    by (rule committed_log [OF c]) (use assms(2) in \<open>auto simp: system_inv_def beside_protocol_def\<close>)
  moreover have "protocol_inv uuid5 p'"
    using boundary_step_inv [OF protocol_op_boundary_step [OF assms(1)]] assms(2) by (simp add: system_inv_def)
  ultimately show ?thesis using assms(2) by (simp add: system_inv_def world_inv_def set_persistence_def)
qed

lemma sink_write_work: "sink_write\<^sup>*\<^sup>* u u' \<Longrightarrow> uow_step\<^sup>*\<^sup>* u u' \<and> (work_ok (working u) \<longrightarrow> work_ok (working u'))"
  by (auto simp: same_work_def work_ok_def dest: sink_writes_frame)

lemma sink_committed_inv:
  assumes "committed (sink_write\<^sup>*\<^sup>*) p p'" and "schedule_inv p" and "protocol_inv uuid5 p"
  shows "schedule_inv p'" and "protocol_inv uuid5 p'"
  using committed_schedule [OF assms(1) _ assms(2)] committed_protocol [OF assms(1) _ assms(3)] sink_write_work sink_writes_frame
  by blast+

lemma flush_delivered:
  assumes "sink_flush uuid5 show_error pub sink state w = (r, w')" and "log_delivered (js_job_id state) sink bs (sk_persistence w)"
  shows "log_delivered (js_job_id state) sink (bs @ acknowledged (js_job_id state) r) (sk_persistence w')"
proof -
  have inv: "sink_inv (js_job_id state) sink (sk_persistence w)" using assms(2) by (simp add: log_delivered_def)
  then have "0 \<le> cursor_of (js_job_id state) sink (sk_persistence w)" by (simp add: sink_inv_def)
  with flush_advances [OF assms(1) inv] assms(2) take_add_drop show ?thesis by (simp add: log_delivered_def)
qed

lemma flush_op_inv:
  assumes "flush_sink uuid5 show_error pub sink state d = (r, d')" and "js_job_id state = job" and "system_inv uuid5 job sink bs d"
  shows "system_inv uuid5 job sink (bs @ acknowledged job r) d'"
proof -
  obtain w where run: "sink_flush uuid5 show_error pub sink state \<lparr>sk_persistence = dp_persistence d, sk_sink = dp_sink d\<rparr> = (r, w)"
    and d': "d' = (set_persistence (sk_persistence w) d)\<lparr>dp_sink := sk_sink w\<rparr>"
    using assms(1) by (auto simp: flush_sink_def split: prod.splits)
  obtain p1 where c: "committed (sink_write\<^sup>*\<^sup>*) (dp_persistence d) p1" "committed (sink_write\<^sup>*\<^sup>*) p1 (sk_persistence w)"
    using flush_committed [OF run] by auto
  have inv: "schedule_inv (dp_persistence d)" "protocol_inv uuid5 (dp_persistence d)"
    using assms(3) by (simp_all add: system_inv_def world_inv_def)
  have "schedule_inv (sk_persistence w)" "protocol_inv uuid5 (sk_persistence w)"
    using sink_committed_inv [OF c(2) sink_committed_inv [OF c(1) inv]] by auto
  moreover have "log_delivered job sink (bs @ acknowledged job r) (sk_persistence w)"
    using flush_delivered [OF run, of bs] assms(2,3) by (simp add: system_inv_def)
  ultimately show ?thesis using assms(3) by (simp add: d' system_inv_def world_inv_def set_persistence_def)
qed

lemma system_run_inv:
  assumes "system_run uuid5 cfg show_error pub job sink d0 bs d" and "dp_world d0 = new_world clock ss"
  shows "system_inv uuid5 job sink bs d"
  using assms
proof (induction rule: system_run.induct)
  case sys_start
  have "log_delivered job sink [] new_persistence"
    by (simp add: log_delivered_def sink_inv_def sinks_keyed_def new_persistence_def empty_state_def sink_checkpoint_of_def sink_offset_def)
  with sys_start show ?case
    by (simp add: system_inv_def new_world_inv) (simp add: new_world_def new_persistence_protocol)
qed (simp_all add: kernel_op_inv protocol_op_inv flush_op_inv)

end
