(* ===== verification/Job_Runner.thy ===== *)
theory Job_Runner
  imports System_Run
begin

text \<open>
  \<open>jobs/runner.py\<close>: \<open>SimulationJob\<close> drives the engine one tick at a time for an external recurring trigger. A trigger
  is a batch of ticks; its progress is checkpointed in the durable job state, so that a process that died or a tick that
  failed can be recovered by running the same trigger again.

  A process is a state transformer whose result is missing if the process was killed: the world has the number of
  durable steps the process will still live to make. A flush of an outbox, the rebuild of a backend and a tick of the
  engine count as one step each. Python's \<open>except Exception\<close> does not run when the process is killed.

  Parameters: the callbacks of a domain (\<open>DomainDefinition\<close>: the pydantic model of its configuration, seeding, runtime
  construction and reconciliation), the backend and its \<open>run_until\<close>, the recovery participants of the managers, sinks
  and warehouse, and the text of an exception.
\<close>

section \<open>Processes\<close>

type_synonym ('s, 'a) process = "'s \<Rightarrow> 'a res option \<times> 's"

definition p_return :: "'a \<Rightarrow> ('s, 'a) process" where
  "p_return a s = (Some (Inr a), s)"

definition p_raise :: "pyerror \<Rightarrow> ('s, 'a) process" where
  "p_raise e s = (Some (Inl e), s)"

definition p_of :: "'a res \<Rightarrow> ('s, 'a) process" where
  "p_of r s = (Some r, s)"

definition p_read :: "('s \<Rightarrow> 'a) \<Rightarrow> ('s, 'a) process" where
  "p_read f s = (Some (Inr (f s)), s)"

definition p_bind :: "('s, 'a) process \<Rightarrow> ('a \<Rightarrow> ('s, 'b) process) \<Rightarrow> ('s, 'b) process" where
  "p_bind m f s = (case m s of
       (None, s) \<Rightarrow> (None, s)
     | (Some (Inl e), s) \<Rightarrow> (Some (Inl e), s)
     | (Some (Inr a), s) \<Rightarrow> f a s)"

text \<open>\<open>try: ... except Exception as exc: ...\<close>.\<close>

definition p_catch :: "('s, 'a) process \<Rightarrow> (pyerror \<Rightarrow> ('s, 'a) process) \<Rightarrow> ('s, 'a) process" where
  "p_catch m h s = (case m s of (Some (Inl e), s) \<Rightarrow> h e s | r \<Rightarrow> r)"

section \<open>The world and the parameters of a job\<close>

record ('v, 'h, 's) job_world =
  jw_persistence :: "'v persistence"
  jw_warehouse :: 'h
  jw_sinks :: 's
  jw_life :: nat

text \<open>One durable step.\<close>

definition durable :: "(('v, 'h, 's) job_world \<Rightarrow> 'a res \<times> ('v, 'h, 's) job_world) \<Rightarrow> (('v, 'h, 's) job_world, 'a) process" where
  "durable m w = (if jw_life w = 0 then (None, w) else case m (w\<lparr>jw_life := jw_life w - 1\<rparr>) of (r, w) \<Rightarrow> (Some r, w))"

definition on_persistence :: "('v persistence, 'a) meth \<Rightarrow> (('v, 'h, 's) job_world, 'a) meth" where
  "on_persistence m w = (case m (jw_persistence w) of (r, p) \<Rightarrow> (r, w\<lparr>jw_persistence := p\<rparr>))"

definition durable_tx :: "('v, 'a) tx_body \<Rightarrow> (('v, 'h, 's) job_world, 'a) process" where
  "durable_tx body = durable (on_persistence (transaction None body))"

record ('v, 'c, 'b) job_runtime =
  rt_engine :: "('v, 'c) engine_config"
  rt_live :: "('v, 'c) live"
  rt_backend :: 'b

record ('v, 'h) warehouse_access =
  wa_entity :: "'h \<Rightarrow> string \<Rightarrow> string \<Rightarrow> 'v entity option"
  wa_apply :: "'v domain_mutation \<Rightarrow> ('h, domain_apply_result) meth"

text \<open>
  A configuration given to a job: an instance of the configuration model, or a dict of fields. \<open>jb_validate\<close>,
  \<open>jb_fields\<close>, \<open>jb_dump\<close> and \<open>jb_load\<close> stand for the pydantic model, \<open>jb_merge\<close> for \<open>model_dump\<close> updated by a dict.
\<close>

datatype ('f, 'd) config_arg = Config 'f | Fields 'd

record ('v, 'h, 's, 'f, 'd, 'c, 'b) simulation_job =
  jb_job_id :: string
  jb_domain_name :: string
  jb_ticks_per_trigger :: int
  jb_max_ticks_per_trigger :: int
  jb_default :: "'f res"
  jb_validate :: "'d \<Rightarrow> 'f res"
  jb_merge :: "'f \<Rightarrow> 'd \<Rightarrow> 'd"
  jb_fields :: "'f \<Rightarrow> (string \<times> pyval) list"
  jb_mutable :: "string list"
  jb_dump :: "'f \<Rightarrow> string"
  jb_load :: "string \<Rightarrow> 'f res"
  jb_start_at :: "'f \<Rightarrow> datetime"
  jb_seed :: "'f \<Rightarrow> (('v, 'h, 's) job_world, 'v) process"
  jb_build_runtime :: "'f \<Rightarrow> datetime \<Rightarrow> int \<Rightarrow> (('v, 'h, 's) job_world, ('v, 'c) engine_config \<times> ('v, 'c) live) process"
  jb_reconcile :: "('f \<Rightarrow> 'v option \<Rightarrow> ('v, 'c, 'b) job_runtime \<Rightarrow> (('v, 'h, 's) job_world, ('v, 'c, 'b) job_runtime) process) option"
  jb_backend :: "datetime \<Rightarrow> 'b res"
  jb_schedule_backend :: "('v, 'b) schedule_backend"
  jb_participants :: "('v, 'b) recovery_participant list"
  jb_run_until :: "(('v, 'c, 'b) job_runtime \<Rightarrow> (('v, 'h, 's) job_world, ('v, 'c, 'b) job_runtime) process) option"
  jb_sinks :: "(string \<times> ('v analytical_batch \<Rightarrow> ('s, unit) meth)) list"
  jb_warehouse :: "('v, 'h) warehouse_access option"
  jb_show_error :: "pyerror \<Rightarrow> string"
  jb_uuid5 :: digest

definition mk_simulation_job ::
  "('v, 'h, 's, 'f, 'd, 'c, 'b) simulation_job \<Rightarrow> ('v, 'h, 's, 'f, 'd, 'c, 'b) simulation_job res" where
  "mk_simulation_job job = guards
     [(blank (jb_job_id job), ValueError ''job_id cannot be empty''),
      (jb_ticks_per_trigger job < 1, ValueError ''ticks_per_trigger must be >= 1''),
      (jb_max_ticks_per_trigger job < 1, ValueError ''max_ticks_per_trigger must be >= 1''),
      (jb_ticks_per_trigger job > jb_max_ticks_per_trigger job,
        ValueError ''ticks_per_trigger cannot exceed max_ticks_per_trigger'')] job"

definition current_state :: "('v, 'h, 's, 'f, 'd, 'c, 'b) simulation_job \<Rightarrow> (('v, 'h, 's) job_world, 'v simulation_job_state option) process" where
  "current_state job = p_read (\<lambda>w. job_state (jb_job_id job) (jw_persistence w))"

text \<open>\<open>repr\<close> of an optional identity, as it appears in messages.\<close>

definition quoted :: "string \<Rightarrow> string" where
  "quoted s = [CHR 0x27] @ s @ [CHR 0x27]"

definition quoted_opt :: "string option \<Rightarrow> string" where
  "quoted_opt s = (case s of None \<Rightarrow> ''None'' | Some s \<Rightarrow> quoted s)"

section \<open>Outboxes\<close>

definition flush_domain_warehouse :: "('v, 'h, 's, 'f, 'd, 'c, 'b) simulation_job \<Rightarrow> (('v, 'h, 's) job_world, nat) process" where
  "flush_domain_warehouse job = (case jb_warehouse job of
     None \<Rightarrow> p_return 0
   | Some wa \<Rightarrow> durable (\<lambda>w. case flush (jb_show_error job) (wa_apply wa) \<lparr>ob_persistence = jw_persistence w, ob_warehouse = jw_warehouse w\<rparr> of
       (r, ob) \<Rightarrow> (r, w\<lparr>jw_persistence := ob_persistence ob, jw_warehouse := ob_warehouse ob\<rparr>)))"

definition flush_binding ::
  "('v, 'h, 's, 'f, 'd, 'c, 'b) simulation_job \<Rightarrow> 'v simulation_job_state \<Rightarrow> string \<times> ('v analytical_batch \<Rightarrow> ('s, unit) meth) \<Rightarrow>
     (('v, 'h, 's) job_world, string \<times> string option) process" where
  "flush_binding job state binding = (case binding of (name, pub) \<Rightarrow>
     p_catch
       (p_bind (durable (\<lambda>w. case sink_flush (jb_uuid5 job) (jb_show_error job) pub name state
              \<lparr>sk_persistence = jw_persistence w, sk_sink = jw_sinks w\<rparr> of
            (r, sk) \<Rightarrow> (r, w\<lparr>jw_persistence := sk_persistence sk, jw_sinks := sk_sink sk\<rparr>)))
         (\<lambda>delivery. p_return (name, map_option sl_delivery_id delivery)))
       (\<lambda>e. p_return (name, Some (jb_show_error job e))))"

fun flush_bindings ::
  "('v, 'h, 's, 'f, 'd, 'c, 'b) simulation_job \<Rightarrow> 'v simulation_job_state \<Rightarrow> (string \<times> ('v analytical_batch \<Rightarrow> ('s, unit) meth)) list \<Rightarrow>
     (('v, 'h, 's) job_world, (string \<times> string option) list) process" where
  "flush_bindings job state [] = p_return []"
| "flush_bindings job state (b # bs) =
     p_bind (flush_binding job state b) (\<lambda>r. p_bind (flush_bindings job state bs) (\<lambda>rs. p_return (r # rs)))"

definition flush_sinks :: "('v, 'h, 's, 'f, 'd, 'c, 'b) simulation_job \<Rightarrow> (('v, 'h, 's) job_world, (string \<times> string option) list) process" where
  "flush_sinks job =
     (if jb_sinks job = [] then p_return []
      else p_bind (current_state job) (\<lambda>state. case state of
          None \<Rightarrow> p_return []
        | Some state \<Rightarrow> if \<not> js_initialized state then p_return [] else flush_bindings job state (jb_sinks job)))"

section \<open>Initialization and configuration\<close>

definition parse_config :: "('v, 'h, 's, 'f, 'd, 'c, 'b) simulation_job \<Rightarrow> ('f, 'd) config_arg option \<Rightarrow> 'f res" where
  "parse_config job value = (case value of
     None \<Rightarrow> jb_default job
   | Some (Config c) \<Rightarrow> Inr c
   | Some (Fields d) \<Rightarrow> jb_validate job d)"

definition changed_config_fields :: "('v, 'h, 's, 'f, 'd, 'c, 'b) simulation_job \<Rightarrow> 'f \<Rightarrow> 'f \<Rightarrow> string list" where
  "changed_config_fields job before after =
     filter (\<lambda>name. map_of (jb_fields job before) name \<noteq> map_of (jb_fields job after) name) (map fst (jb_fields job before))"

text \<open>\<open>sep.join(xs)\<close>.\<close>

fun join_with :: "string \<Rightarrow> string list \<Rightarrow> string" where
  "join_with sep [] = []"
| "join_with sep [x] = x"
| "join_with sep (x # y # ys) = x @ sep @ join_with sep (y # ys)"

definition validate_runtime_config_change :: "('v, 'h, 's, 'f, 'd, 'c, 'b) simulation_job \<Rightarrow> 'f \<Rightarrow> 'f \<Rightarrow> string list res" where
  "validate_runtime_config_change job before after =
     (let changed = changed_config_fields job before after;
          blocked = filter (\<lambda>name. name \<notin> set (jb_mutable job)) changed
      in guards [(blocked \<noteq> [], ValueError (''configuration fields are bootstrap-only after initialization: '' @
           join_with '', '' (sort (remdups blocked))))] changed)"

definition finish_body :: "string \<Rightarrow> 'v simulation_job_state \<Rightarrow> ('v, 'v simulation_job_state) tx_body" where
  "finish_body job_id initialized u = (case get_job_state job_id u of
     None \<Rightarrow> Inl (RuntimeError (''job disappeared during initialization: '' @ job_id))
   | Some current \<Rightarrow>
       if js_initialized current then Inr (current, u)
       else bind_res (save_job_state initialized u) (\<lambda>u. Inr (initialized, u)))"

definition finish_initialization ::
  "('v, 'h, 's, 'f, 'd, 'c, 'b) simulation_job \<Rightarrow> 'v simulation_job_state \<Rightarrow> (('v, 'h, 's) job_world, 'v simulation_job_state) process" where
  "finish_initialization job pending' =
     p_bind (p_of (jb_load job (js_config_json pending'))) (\<lambda>config.
     p_bind (jb_seed job config) (\<lambda>bootstrap_state.
     p_bind (flush_domain_warehouse job) (\<lambda>_.
     p_bind (p_of (mk_simulation_job_state (pending'\<lparr>js_initialized := True, js_bootstrap_state := Some bootstrap_state,
         js_status := ''ready'', js_last_error := None\<rparr>))) (\<lambda>initialized.
     durable_tx (finish_body (jb_job_id job) initialized)))))"

definition foreign_job :: "string \<Rightarrow> 'v simulation_job_state \<Rightarrow> pyerror" where
  "foreign_job job_id existing = ValueError (''job '' @ job_id @ '' already belongs to '' @ quoted (js_domain_name existing))"

definition new_job_state :: "('v, 'h, 's, 'f, 'd, 'c, 'b) simulation_job \<Rightarrow> 'f \<Rightarrow> 'v simulation_job_state" where
  "new_job_state job config = \<lparr>js_job_id = jb_job_id job, js_domain_name = jb_domain_name job, js_config_json = jb_dump job config,
     js_config_revision = 1, js_status = ''ready'', js_initialized = False, js_logical_time = jb_start_at job config,
     js_next_tick = 0, js_run_count = 0, js_bootstrap_state = None, js_last_triggered_at = None, js_active_trigger_id = None,
     js_last_completed_trigger_id = None, js_active_batch_trigger_id = None, js_active_batch_total_ticks = 0,
     js_active_batch_completed_ticks = 0, js_last_completed_batch_trigger_id = None, js_last_completed_batch_ticks = 0,
     js_completed_batch_triggers = [], js_phase = ''idle'', js_last_error = None, js_active_effect_ids = [],
     js_active_boundary_message_ids = [], js_active_publication_message_ids = []\<rparr>"

definition claim_identity :: "string \<Rightarrow> string \<Rightarrow> 'v simulation_job_state \<Rightarrow> ('v, 'v simulation_job_state) tx_body" where
  "claim_identity job_id domain_name pending' u = (case get_job_state job_id u of
     Some concurrent \<Rightarrow>
       if js_domain_name concurrent \<noteq> domain_name then Inl (foreign_job job_id concurrent) else Inr (concurrent, u)
   | None \<Rightarrow> bind_res (save_job_state pending' u) (\<lambda>u. Inr (pending', u)))"

definition initialize ::
  "('v, 'h, 's, 'f, 'd, 'c, 'b) simulation_job \<Rightarrow> ('f, 'd) config_arg option \<Rightarrow> (('v, 'h, 's) job_world, 'v simulation_job_state) process" where
  "initialize job config =
     p_bind (current_state job) (\<lambda>existing. case existing of
       Some existing \<Rightarrow>
         if js_domain_name existing \<noteq> jb_domain_name job then p_raise (foreign_job (jb_job_id job) existing)
         else if \<not> js_initialized existing then finish_initialization job existing
         else p_return existing
     | None \<Rightarrow>
         p_bind (p_of (parse_config job config)) (\<lambda>resolved.
         p_bind (p_of (mk_simulation_job_state (new_job_state job resolved))) (\<lambda>pending'.
         p_bind (durable_tx (claim_identity (jb_job_id job) (jb_domain_name job) pending')) (\<lambda>pending'.
         if js_initialized pending' then p_return pending' else finish_initialization job pending'))))"

definition not_initialized :: "('v, 'h, 's, 'f, 'd, 'c, 'b) simulation_job \<Rightarrow> pyerror" where
  "not_initialized job = RuntimeError (''job is not initialized: '' @ jb_job_id job)"

definition update_body :: "string \<Rightarrow> int \<Rightarrow> 'v simulation_job_state \<Rightarrow> ('v, 'v simulation_job_state) tx_body" where
  "update_body job_id revision updated u = (case get_job_state job_id u of
     None \<Rightarrow> Inl (RuntimeError (''job disappeared while updating config: '' @ job_id))
   | Some latest \<Rightarrow>
       if js_config_revision latest \<noteq> revision then Inl (RuntimeError (''job config changed concurrently: '' @ job_id))
       else bind_res (save_job_state updated u) (\<lambda>u. Inr (updated, u)))"

definition update_config ::
  "('v, 'h, 's, 'f, 'd, 'c, 'b) simulation_job \<Rightarrow> ('f, 'd) config_arg \<Rightarrow> (('v, 'h, 's) job_world, 'v simulation_job_state) process" where
  "update_config job config =
     p_bind (current_state job) (\<lambda>current. case current of
       None \<Rightarrow> p_raise (not_initialized job)
     | Some current \<Rightarrow>
         if js_active_trigger_id current \<noteq> None \<or> js_active_batch_trigger_id current \<noteq> None
         then p_raise (RuntimeError (''cannot change config while trigger is unresolved: '' @ jb_job_id job))
         else
           p_bind (p_of (jb_load job (js_config_json current))) (\<lambda>previous.
           p_bind (p_of (parse_config job (Some (case config of Fields d \<Rightarrow> Fields (jb_merge job previous d) | Config c \<Rightarrow> Config c)))) (\<lambda>resolved.
           p_bind (p_of (if js_initialized current then validate_runtime_config_change job previous resolved else Inr [])) (\<lambda>_.
           p_bind (p_of (mk_simulation_job_state (current\<lparr>js_config_json := jb_dump job resolved,
               js_config_revision := js_config_revision current + 1, js_last_error := None\<rparr>))) (\<lambda>updated.
           durable_tx (update_body (jb_job_id job) (js_config_revision current) updated))))))"

definition apply_config ::
  "('v, 'h, 's, 'f, 'd, 'c, 'b) simulation_job \<Rightarrow> ('f, 'd) config_arg \<Rightarrow> (('v, 'h, 's) job_world, 'v simulation_job_state) process" where
  "apply_config job config =
     p_bind (current_state job) (\<lambda>current. case current of
       None \<Rightarrow> initialize job (Some config)
     | Some current \<Rightarrow>
         p_bind (p_of (parse_config job (Some config))) (\<lambda>resolved.
         p_bind (p_of (jb_load job (js_config_json current))) (\<lambda>persisted.
         if resolved = persisted then p_return current else update_config job (Config resolved))))"

definition save_body :: "'v simulation_job_state \<Rightarrow> ('v, 'v simulation_job_state) tx_body" where
  "save_body state u = bind_res (save_job_state state u) (\<lambda>u. Inr (state, u))"

definition set_status ::
  "('v, 'h, 's, 'f, 'd, 'c, 'b) simulation_job \<Rightarrow> string \<Rightarrow> (('v, 'h, 's) job_world, 'v simulation_job_state) process" where
  "set_status job status =
     p_bind (current_state job) (\<lambda>current. case current of
       None \<Rightarrow> p_raise (not_initialized job)
     | Some current \<Rightarrow>
         if js_status current = ''running'' \<or> js_active_batch_trigger_id current \<noteq> None
         then p_raise (RuntimeError (''cannot change status while job trigger is active: '' @ jb_job_id job))
         else if status = ''ready'' \<and> js_status current = ''failed'' \<and> js_active_trigger_id current \<noteq> None
         then p_raise (RuntimeError (''failed trigger must be recovered before resume: '' @ jb_job_id job))
         else p_bind (p_of (mk_simulation_job_state (current\<lparr>js_status := status\<rparr>))) (\<lambda>updated. durable_tx (save_body updated)))"

definition pause where
  "pause job = set_status job ''paused''"

definition resume where
  "resume job = set_status job ''ready''"

definition initialized_state ::
  "('v, 'h, 's, 'f, 'd, 'c, 'b) simulation_job \<Rightarrow> (('v, 'h, 's) job_world, 'v simulation_job_state) process" where
  "initialized_state job =
     p_bind (current_state job) (\<lambda>state. case state of
       None \<Rightarrow> initialize job None
     | Some state \<Rightarrow> if \<not> js_initialized state then finish_initialization job state else p_return state)"

section \<open>One tick\<close>

record job_tick_result =
  tr_job_id :: string
  tr_domain_name :: string
  tr_config_revision :: int
  tr_logical_time :: datetime
  tr_logical_tick :: int
  tr_run_count :: int
  tr_trigger_id :: "string option"

definition result_from_state :: "('v, 'h, 's, 'f, 'd, 'c, 'b) simulation_job \<Rightarrow> 'v simulation_job_state \<Rightarrow> job_tick_result" where
  "result_from_state job state = \<lparr>tr_job_id = jb_job_id job, tr_domain_name = jb_domain_name job,
     tr_config_revision = js_config_revision state, tr_logical_time = js_logical_time state, tr_logical_tick = js_next_tick state,
     tr_run_count = js_run_count state, tr_trigger_id = js_last_completed_trigger_id state\<rparr>"

definition tick_trigger_id :: "string \<Rightarrow> 'v simulation_job_state \<Rightarrow> string option \<Rightarrow> string" where
  "tick_trigger_id job_id state trigger_id =
     (if trigger_id = None \<or> trigger_id = Some []
      then job_id @ '':tick:'' @ dec_int (js_next_tick state) @ '':run:'' @ dec_int (js_run_count state + 1)
      else the trigger_id)"

definition expected_batch_child :: "string \<Rightarrow> int \<Rightarrow> string" where
  "expected_batch_child batch_trigger_id completed_ticks = batch_trigger_id @ '':tick:'' @ dec_int (completed_ticks + 1)"

text \<open>
  \<open>_ensure_tick_matches_batch\<close> on the state read first, and \<open>_validate_batch_ownership_for_tick\<close> on the latest state:
  the same check.
\<close>

definition ensure_tick_matches_batch :: "string \<Rightarrow> 'v simulation_job_state \<Rightarrow> string \<Rightarrow> unit res" where
  "ensure_tick_matches_batch job_id state effective = (case js_active_batch_trigger_id state of
     None \<Rightarrow> Inr ()
   | Some batch \<Rightarrow>
       let expected_child = expected_batch_child batch (js_active_batch_completed_ticks state)
       in guards [(effective \<noteq> expected_child, RuntimeError (''job has unresolved batch trigger: '' @ job_id @ '' (trigger='' @
            quoted batch @ '', expected_child='' @ quoted expected_child @ '')''))] ())"

definition claim_tick_state ::
  "string \<Rightarrow> 'v simulation_job_state \<Rightarrow> string \<Rightarrow> datetime option \<Rightarrow> bool \<Rightarrow> 'v simulation_job_state res" where
  "claim_tick_state job_id latest effective triggered_at recover =
     (if \<not> (js_active_trigger_id latest \<noteq> None \<and> js_status latest \<in> {''running'', ''failed''})
      then mk_simulation_job_state (latest\<lparr>js_status := ''running'', js_phase := ''advance'', js_active_trigger_id := Some effective,
        js_last_triggered_at := Some (case triggered_at of None \<Rightarrow> js_logical_time latest | Some t \<Rightarrow> t), js_last_error := None\<rparr>)
      else if \<not> (recover \<and> js_active_trigger_id latest = Some effective)
      then Inl (RuntimeError (''job has unresolved trigger: '' @ job_id @ '' (trigger='' @ quoted_opt (js_active_trigger_id latest) @
        '', phase='' @ quoted (js_phase latest) @ '')''))
      else mk_simulation_job_state (latest\<lparr>js_status := ''running'',
        js_last_triggered_at := (case triggered_at of None \<Rightarrow> js_last_triggered_at latest | Some t \<Rightarrow> Some t), js_last_error := None\<rparr>))"

datatype 'v tick_claim = TickDone job_tick_result | TickClaimed "'v simulation_job_state"

definition claim_tick_body ::
  "('v, 'h, 's, 'f, 'd, 'c, 'b) simulation_job \<Rightarrow> 'v simulation_job_state \<Rightarrow> string \<Rightarrow> datetime option \<Rightarrow> bool \<Rightarrow> ('v, 'v tick_claim) tx_body" where
  "claim_tick_body job state effective triggered_at recover u = (case get_job_state (jb_job_id job) u of
     None \<Rightarrow> Inl (RuntimeError (''job disappeared before trigger claim: '' @ jb_job_id job))
   | Some latest \<Rightarrow>
       if js_last_completed_trigger_id latest = Some effective then Inr (TickDone (result_from_state job latest), u)
       else bind_res (ensure_tick_matches_batch (jb_job_id job) latest effective) (\<lambda>_.
         if js_active_batch_trigger_id latest = None \<and> js_active_batch_trigger_id state \<noteq> None
         then Inl (RuntimeError (''batch trigger ownership changed before tick claim: '' @ jb_job_id job))
         else if js_status latest = ''paused'' then Inl (RuntimeError (''job is paused: '' @ jb_job_id job))
         else bind_res (claim_tick_state (jb_job_id job) latest effective triggered_at recover) (\<lambda>claimed.
           bind_res (save_job_state claimed u) (\<lambda>u. Inr (TickClaimed claimed, u)))))"

definition save_owned_body :: "string \<Rightarrow> string \<Rightarrow> 'v simulation_job_state \<Rightarrow> ('v, unit) tx_body" where
  "save_owned_body job_id effective state u =
     (if (case get_job_state job_id u of None \<Rightarrow> True | Some latest \<Rightarrow> js_active_trigger_id latest \<noteq> Some effective)
      then Inl (RuntimeError (''job trigger ownership was lost: '' @ job_id))
      else bind_res (save_job_state state u) (\<lambda>u. Inr ((), u)))"

text \<open>The state after \<open>replace(...)\<close>, saved if the trigger is still owned.\<close>

definition save_tick_if_owned ::
  "('v, 'h, 's, 'f, 'd, 'c, 'b) simulation_job \<Rightarrow> string \<Rightarrow> 'v simulation_job_state \<Rightarrow> (('v, 'h, 's) job_world, 'v simulation_job_state) process" where
  "save_tick_if_owned job effective state =
     p_bind (p_of (mk_simulation_job_state state)) (\<lambda>state.
     p_bind (durable_tx (save_owned_body (jb_job_id job) effective state)) (\<lambda>_. p_return state))"

definition position_of ::
  "('v, 'h, 's, 'f, 'd, 'c, 'b) simulation_job \<Rightarrow> (('v, 'h, 's) job_world, simulation_position option) process" where
  "position_of job = p_bind (p_read (\<lambda>w. simulation_position_of (jb_job_id job) (jw_persistence w))) p_of"

definition recover_reconcile_state ::
  "('v, 'h, 's, 'f, 'd, 'c, 'b) simulation_job \<Rightarrow> 'v simulation_job_state \<Rightarrow> string \<Rightarrow> simulation_position option \<Rightarrow>
     (('v, 'h, 's) job_world, 'v simulation_job_state) process" where
  "recover_reconcile_state job claimed effective position = (case position of
     None \<Rightarrow> p_return claimed
   | Some q \<Rightarrow>
       if js_phase claimed \<noteq> ''advance'' \<or> sp_logical_tick q \<le> js_next_tick claimed then p_return claimed
       else save_tick_if_owned job effective (claimed\<lparr>js_phase := ''reconcile'', js_logical_time := sp_logical_time q,
         js_next_tick := sp_logical_tick q\<rparr>))"

text \<open>\<open>Engine.rebuild_backend\<close>: the rebuild of the durable scheduler, which also restores the context.\<close>

definition rebuild_backend ::
  "('v, 'h, 's, 'f, 'd, 'c, 'b) simulation_job \<Rightarrow> ('v, 'c, 'b) job_runtime \<Rightarrow> ('v persistence, ('v, 'c, 'b) job_runtime) meth" where
  "rebuild_backend job rt p =
     (let cfg = rt_engine rt; clock = lv_clock (rt_live rt) in
      case rebuild_runtime (eg_owner_id cfg) (jb_schedule_backend job) (jb_participants job)
             (\<lambda>item. eg_supports cfg (cm_entity_type (di_command item)))
             \<lparr>rbw_persistence = p, rbw_backend = rt_backend rt,
              rbw_context = Some \<lparr>cx_now = ck_now clock, cx_tick = ck_tick clock, cx_scenarios = None\<rparr>\<rparr> of
        (Inl e, rw) \<Rightarrow> (Inl e, rbw_persistence rw)
      | (Inr _, rw) \<Rightarrow>
          (Inr (case rbw_context rw of
              None \<Rightarrow> rt\<lparr>rt_backend := rbw_backend rw\<rparr>
            | Some cx \<Rightarrow> rt\<lparr>rt_backend := rbw_backend rw,
                rt_live := set_memory (restore_state (cx_scenarios cx)) (set_time (cx_now cx) (cx_tick cx) (rt_live rt))\<rparr>), rbw_persistence rw))"

definition attach_domain_warehouse ::
  "('v, 'h, 's, 'f, 'd, 'c, 'b) simulation_job \<Rightarrow> 'h \<Rightarrow> ('v, 'c) engine_config \<Rightarrow> ('v, 'c) engine_config" where
  "attach_domain_warehouse job h cfg = (case jb_warehouse job of
     None \<Rightarrow> cfg
   | Some wa \<Rightarrow> cfg\<lparr>eg_warehouse := Some (wa_entity wa h)\<rparr>)"

definition build_runtime_for_tick ::
  "('v, 'h, 's, 'f, 'd, 'c, 'b) simulation_job \<Rightarrow> 'f \<Rightarrow> datetime \<Rightarrow> int \<Rightarrow> (('v, 'h, 's) job_world, ('v, 'c, 'b) job_runtime) process" where
  "build_runtime_for_tick job config logical_time logical_tick =
     p_bind (jb_build_runtime job config logical_time logical_tick) (\<lambda>(cfg, live).
     if eg_owner_id cfg \<noteq> jb_job_id job then p_raise (RuntimeError ''domain runtime owner does not match configured job_id'')
     else
       p_bind (p_read jw_warehouse) (\<lambda>h.
       p_bind (p_of (jb_backend job logical_time)) (\<lambda>backend.
       durable (on_persistence (rebuild_backend job
         \<lparr>rt_engine = attach_domain_warehouse job h cfg, rt_live = live, rt_backend = backend\<rparr>)))))"

definition run_until ::
  "('v, 'h, 's, 'f, 'd, 'c, 'b) simulation_job \<Rightarrow> ('v, 'c, 'b) job_runtime \<Rightarrow> (('v, 'h, 's) job_world, ('v, 'c, 'b) job_runtime) process" where
  "run_until job rt = (case jb_run_until job of None \<Rightarrow> p_return rt | Some run \<Rightarrow> run rt)"

definition advance_engine :: "('v, 'c, 'b) job_runtime \<Rightarrow> ('v persistence, ('v, 'c, 'b) job_runtime) meth" where
  "advance_engine rt p =
     (case advance_tick (rt_engine rt) \<lparr>wd_persistence = p, wd_live = rt_live rt\<rparr> of
        (Inl e, w) \<Rightarrow> (Inl e, wd_persistence w)
      | (Inr _, w) \<Rightarrow> (Inr (rt\<lparr>rt_live := wd_live w\<rparr>), wd_persistence w))"

definition advance_tick_runtime ::
  "('v, 'h, 's, 'f, 'd, 'c, 'b) simulation_job \<Rightarrow> 'f \<Rightarrow> 'v simulation_job_state \<Rightarrow> string \<Rightarrow> simulation_position option \<Rightarrow>
     (('v, 'h, 's) job_world, 'v simulation_job_state \<times> ('v, 'c, 'b) job_runtime) process" where
  "advance_tick_runtime job config running effective position =
     (let logical_time = (case position of None \<Rightarrow> jb_start_at job config | Some q \<Rightarrow> sp_logical_time q);
          logical_tick = (case position of None \<Rightarrow> 0 | Some q \<Rightarrow> sp_logical_tick q)
      in p_bind (save_tick_if_owned job effective (running\<lparr>js_logical_time := logical_time, js_next_tick := logical_tick\<rparr>)) (\<lambda>running.
         p_bind (build_runtime_for_tick job config logical_time logical_tick) (\<lambda>rt.
         p_bind (durable (on_persistence (advance_engine rt))) (\<lambda>rt.
         p_bind (run_until job rt) (\<lambda>rt.
         p_bind (position_of job) (\<lambda>committed. case committed of
             None \<Rightarrow> p_raise (RuntimeError ''tick advance completed without durable simulation position'')
           | Some q \<Rightarrow>
               p_bind (save_tick_if_owned job effective (running\<lparr>js_phase := ''reconcile'', js_logical_time := sp_logical_time q,
                   js_next_tick := sp_logical_tick q\<rparr>)) (\<lambda>running. p_return (running, rt))))))))"

definition build_reconcile_runtime ::
  "('v, 'h, 's, 'f, 'd, 'c, 'b) simulation_job \<Rightarrow> 'f \<Rightarrow> 'v simulation_job_state \<Rightarrow>
     (('v, 'h, 's) job_world, 'v simulation_job_state \<times> ('v, 'c, 'b) job_runtime) process" where
  "build_reconcile_runtime job config running =
     p_bind (position_of job) (\<lambda>committed. case committed of
       None \<Rightarrow> p_raise (RuntimeError ''reconcile phase requires durable simulation position'')
     | Some q \<Rightarrow>
         p_bind (build_runtime_for_tick job config (sp_logical_time q) (sp_logical_tick q)) (\<lambda>rt.
         p_bind (run_until job rt) (\<lambda>rt. p_return (running, rt))))"

definition execute_tick_phase ::
  "('v, 'h, 's, 'f, 'd, 'c, 'b) simulation_job \<Rightarrow> 'f \<Rightarrow> 'v simulation_job_state \<Rightarrow> string \<Rightarrow>
     (('v, 'h, 's) job_world, 'v simulation_job_state \<times> ('v, 'c, 'b) job_runtime) process" where
  "execute_tick_phase job config claimed effective =
     p_bind (position_of job) (\<lambda>position.
     p_bind (recover_reconcile_state job claimed effective position) (\<lambda>running.
     if js_phase running \<noteq> ''advance'' then build_reconcile_runtime job config running
     else advance_tick_runtime job config running effective position))"

definition run_reconcile_tick ::
  "('v, 'h, 's, 'f, 'd, 'c, 'b) simulation_job \<Rightarrow> 'f \<Rightarrow> 'v simulation_job_state \<Rightarrow> ('v, 'c, 'b) job_runtime \<Rightarrow> (('v, 'h, 's) job_world, unit) process" where
  "run_reconcile_tick job config running rt = (case jb_reconcile job of
     None \<Rightarrow> p_return ()
   | Some reconcile \<Rightarrow>
       p_bind (reconcile config (js_bootstrap_state running) rt) (\<lambda>rt.
       p_bind (run_until job rt) (\<lambda>_. p_return ())))"

definition persist_completed_tick ::
  "('v, 'h, 's, 'f, 'd, 'c, 'b) simulation_job \<Rightarrow> 'v simulation_job_state \<Rightarrow> string \<Rightarrow> (('v, 'h, 's) job_world, 'v simulation_job_state) process" where
  "persist_completed_tick job running effective =
     p_bind (position_of job) (\<lambda>committed. case committed of
       None \<Rightarrow> p_raise (RuntimeError ''tick completed without a durable simulation position'')
     | Some q \<Rightarrow> save_tick_if_owned job effective (running\<lparr>js_status := ''ready'', js_phase := ''idle'',
         js_logical_time := sp_logical_time q, js_next_tick := sp_logical_tick q,
         js_run_count := max (js_run_count running + 1) (sp_logical_tick q), js_active_trigger_id := None,
         js_last_completed_trigger_id := Some effective, js_last_error := None\<rparr>))"

definition persist_failed_tick ::
  "('v, 'h, 's, 'f, 'd, 'c, 'b) simulation_job \<Rightarrow> 'v simulation_job_state \<Rightarrow> pyerror \<Rightarrow> (('v, 'h, 's) job_world, unit) process" where
  "persist_failed_tick job claimed e =
     p_bind (current_state job) (\<lambda>state.
     let latest = (case state of None \<Rightarrow> claimed | Some s \<Rightarrow> s)
     in p_bind (p_of (mk_simulation_job_state (latest\<lparr>js_status := ''failed'', js_last_error := Some (jb_show_error job e)\<rparr>))) (\<lambda>failed.
        p_bind (durable_tx (save_body failed)) (\<lambda>_. p_return ())))"

definition run_claimed_tick ::
  "('v, 'h, 's, 'f, 'd, 'c, 'b) simulation_job \<Rightarrow> 'f \<Rightarrow> 'v simulation_job_state \<Rightarrow> string \<Rightarrow> (('v, 'h, 's) job_world, job_tick_result) process" where
  "run_claimed_tick job config claimed effective =
     p_bind (execute_tick_phase job config claimed effective) (\<lambda>(running, rt).
     p_bind (run_reconcile_tick job config running rt) (\<lambda>_.
     p_bind (persist_completed_tick job running effective) (\<lambda>completed.
     p_bind (flush_domain_warehouse job) (\<lambda>_.
     p_bind (flush_sinks job) (\<lambda>_. p_return (result_from_state job completed))))))"

definition run_tick ::
  "('v, 'h, 's, 'f, 'd, 'c, 'b) simulation_job \<Rightarrow> datetime option \<Rightarrow> string option \<Rightarrow> bool \<Rightarrow> (('v, 'h, 's) job_world, job_tick_result) process" where
  "run_tick job triggered_at trigger_id recover =
     p_bind (initialized_state job) (\<lambda>state.
     p_bind (flush_domain_warehouse job) (\<lambda>_.
     p_bind (flush_sinks job) (\<lambda>_.
     let effective = tick_trigger_id (jb_job_id job) state trigger_id in
     p_bind (p_of (ensure_tick_matches_batch (jb_job_id job) state effective)) (\<lambda>_.
     p_bind (durable_tx (claim_tick_body job state effective triggered_at recover)) (\<lambda>claim. case claim of
         TickDone result \<Rightarrow> p_return result
       | TickClaimed claimed \<Rightarrow>
           p_bind (p_of (jb_load job (js_config_json claimed))) (\<lambda>config.
           p_catch (run_claimed_tick job config claimed effective)
             (\<lambda>e. p_bind (persist_failed_tick job claimed e) (\<lambda>_. p_raise e))))))))"

section \<open>Batches of ticks\<close>

record job_trigger_result =
  jt_job_id :: string
  jt_domain_name :: string
  jt_trigger_id :: string
  jt_requested_ticks :: int
  jt_completed_ticks :: int
  jt_start_tick :: int
  jt_end_tick :: int
  jt_config_revision :: int
  jt_logical_time :: datetime
  jt_run_count :: int

definition batch_record :: "'v simulation_job_state \<Rightarrow> string \<Rightarrow> completed_job_trigger option" where
  "batch_record state trigger_id = find (\<lambda>t. ct_trigger_id t = trigger_id) (js_completed_batch_triggers state)"

definition batch_result :: "('v, 'h, 's, 'f, 'd, 'c, 'b) simulation_job \<Rightarrow> completed_job_trigger \<Rightarrow> job_trigger_result" where
  "batch_result job t = \<lparr>jt_job_id = jb_job_id job, jt_domain_name = jb_domain_name job, jt_trigger_id = ct_trigger_id t,
     jt_requested_ticks = ct_requested_ticks t, jt_completed_ticks = ct_requested_ticks t, jt_start_tick = ct_start_tick t,
     jt_end_tick = ct_end_tick t, jt_config_revision = ct_config_revision t, jt_logical_time = ct_logical_time t,
     jt_run_count = ct_run_count t\<rparr>"

definition requested_ticks_of ::
  "('v, 'h, 's, 'f, 'd, 'c, 'b) simulation_job \<Rightarrow> 'v simulation_job_state \<Rightarrow> string \<Rightarrow> int option \<Rightarrow> int res" where
  "requested_ticks_of job state trigger_id ticks =
     (if js_active_batch_trigger_id state = Some trigger_id
      then guards [(ticks \<noteq> None \<and> ticks \<noteq> Some (js_active_batch_total_ticks state),
        RuntimeError ''cannot recover batch trigger with a different tick count'')] (js_active_batch_total_ticks state)
      else let requested = (case ticks of None \<Rightarrow> jb_ticks_per_trigger job | Some n \<Rightarrow> n)
           in guards
             [(requested < 1, ValueError ''ticks must be >= 1''),
              (requested > jb_max_ticks_per_trigger job,
                ValueError (''ticks exceeds max_ticks_per_trigger='' @ dec_int (jb_max_ticks_per_trigger job)))] requested)"

datatype 'v batch_claim = BatchDone completed_job_trigger | BatchClaimed "'v simulation_job_state" int

definition claim_existing_batch ::
  "string \<Rightarrow> 'v simulation_job_state \<Rightarrow> string \<Rightarrow> int option \<Rightarrow> bool \<Rightarrow> 'v batch_claim option res" where
  "claim_existing_batch job_id latest trigger_id ticks recover = (case js_active_batch_trigger_id latest of
     None \<Rightarrow> Inr None
   | Some batch \<Rightarrow> guards
       [(batch \<noteq> trigger_id, RuntimeError (''job has unresolved batch trigger: '' @ job_id @ '' (trigger='' @ quoted batch @ '')'')),
        (ticks \<noteq> None \<and> ticks \<noteq> Some (js_active_batch_total_ticks latest),
          RuntimeError ''cannot recover batch trigger with a different tick count''),
        (\<not> recover \<and> js_active_batch_completed_ticks latest < js_active_batch_total_ticks latest,
          RuntimeError (''batch trigger requires explicit recovery: '' @ trigger_id))]
       (Some (BatchClaimed latest (js_active_batch_total_ticks latest))))"

definition validate_idle_for_batch_trigger :: "string \<Rightarrow> 'v simulation_job_state \<Rightarrow> unit res" where
  "validate_idle_for_batch_trigger job_id latest = guards
     [(\<not> (js_status latest = ''ready'' \<and> js_phase latest = ''idle'' \<and> js_active_trigger_id latest = None),
       RuntimeError (''job is not idle for batch trigger: '' @ job_id @ '' (status='' @ quoted (js_status latest) @ '', phase='' @
         quoted (js_phase latest) @ '', trigger='' @ quoted_opt (js_active_trigger_id latest) @ '')''))] ()"

definition claim_batch_body ::
  "string \<Rightarrow> string \<Rightarrow> int \<Rightarrow> int option \<Rightarrow> bool \<Rightarrow> ('v, 'v batch_claim) tx_body" where
  "claim_batch_body job_id trigger_id requested_ticks ticks recover u = (case get_job_state job_id u of
     None \<Rightarrow> Inl (RuntimeError (''job disappeared before batch trigger claim: '' @ job_id))
   | Some latest \<Rightarrow> (case batch_record latest trigger_id of
         Some completed \<Rightarrow> Inr (BatchDone completed, u)
       | None \<Rightarrow>
           bind_res (claim_existing_batch job_id latest trigger_id ticks recover) (\<lambda>active. case active of
             Some claim \<Rightarrow> Inr (claim, u)
           | None \<Rightarrow>
               bind_res (validate_idle_for_batch_trigger job_id latest) (\<lambda>_.
               bind_res (mk_simulation_job_state (latest\<lparr>js_active_batch_trigger_id := Some trigger_id,
                   js_active_batch_total_ticks := requested_ticks, js_active_batch_completed_ticks := 0\<rparr>)) (\<lambda>claimed.
               bind_res (save_job_state claimed u) (\<lambda>u. Inr (BatchClaimed claimed requested_ticks, u)))))))"

text \<open>The checks both later transactions of a batch start with.\<close>

definition owned_batch :: "string \<Rightarrow> string \<Rightarrow> string \<Rightarrow> 'v uow \<Rightarrow> 'v simulation_job_state res" where
  "owned_batch gone job_id trigger_id u = (case get_job_state job_id u of
     None \<Rightarrow> Inl (RuntimeError (gone @ job_id))
   | Some latest \<Rightarrow> guards [(js_active_batch_trigger_id latest \<noteq> Some trigger_id,
       RuntimeError (''batch trigger ownership was lost: '' @ job_id))] latest)"

definition save_batch_progress_body :: "string \<Rightarrow> string \<Rightarrow> int \<Rightarrow> ('v, unit) tx_body" where
  "save_batch_progress_body job_id trigger_id completed u =
     bind_res (owned_batch ''job disappeared during batch trigger: '' job_id trigger_id u) (\<lambda>latest.
     bind_res (mk_simulation_job_state (latest\<lparr>js_active_batch_completed_ticks := completed\<rparr>)) (\<lambda>state.
     bind_res (save_job_state state u) (\<lambda>u. Inr ((), u))))"

definition finalize_batch_body :: "string \<Rightarrow> string \<Rightarrow> int \<Rightarrow> int \<Rightarrow> ('v, 'v simulation_job_state) tx_body" where
  "finalize_batch_body job_id trigger_id requested_ticks start_tick u =
     bind_res (owned_batch ''job disappeared while completing batch trigger: '' job_id trigger_id u) (\<lambda>latest.
     bind_res (mk_completed_job_trigger \<lparr>ct_trigger_id = trigger_id, ct_requested_ticks = requested_ticks, ct_start_tick = start_tick,
         ct_end_tick = js_next_tick latest, ct_config_revision = js_config_revision latest, ct_logical_time = js_logical_time latest,
         ct_run_count = js_run_count latest\<rparr>) (\<lambda>completed_record.
     bind_res (mk_simulation_job_state (latest\<lparr>js_active_batch_trigger_id := None, js_active_batch_total_ticks := 0,
         js_active_batch_completed_ticks := 0, js_last_completed_batch_trigger_id := Some trigger_id,
         js_last_completed_batch_ticks := requested_ticks,
         js_completed_batch_triggers := js_completed_batch_triggers latest @ [completed_record]\<rparr>)) (\<lambda>finished.
     bind_res (save_job_state finished u) (\<lambda>u. Inr (finished, u)))))"

function run_batch ::
  "('v, 'h, 's, 'f, 'd, 'c, 'b) simulation_job \<Rightarrow> string \<Rightarrow> datetime option \<Rightarrow> bool \<Rightarrow> int \<Rightarrow> int \<Rightarrow> (('v, 'h, 's) job_world, unit) process" where
  "run_batch job trigger_id triggered_at recover requested_ticks completed =
     (if completed < requested_ticks
      then p_bind (run_tick job triggered_at (Some (trigger_id @ '':tick:'' @ dec_int (completed + 1))) recover) (\<lambda>_.
           p_bind (durable_tx (save_batch_progress_body (jb_job_id job) trigger_id (completed + 1))) (\<lambda>_.
           run_batch job trigger_id triggered_at recover requested_ticks (completed + 1)))
      else p_return ())"
  by pat_completeness auto

termination
  by (relation "measure (\<lambda>(job, trigger_id, triggered_at, recover, requested_ticks, completed). nat (requested_ticks - completed))") auto

declare run_batch.simps [simp del]

definition trigger_result ::
  "('v, 'h, 's, 'f, 'd, 'c, 'b) simulation_job \<Rightarrow> string \<Rightarrow> int \<Rightarrow> int \<Rightarrow> 'v simulation_job_state \<Rightarrow> job_trigger_result" where
  "trigger_result job trigger_id requested_ticks start_tick finished = \<lparr>jt_job_id = jb_job_id job, jt_domain_name = jb_domain_name job,
     jt_trigger_id = trigger_id, jt_requested_ticks = requested_ticks, jt_completed_ticks = requested_ticks, jt_start_tick = start_tick,
     jt_end_tick = js_next_tick finished, jt_config_revision = js_config_revision finished, jt_logical_time = js_logical_time finished,
     jt_run_count = js_run_count finished\<rparr>"

definition run_trigger ::
  "('v, 'h, 's, 'f, 'd, 'c, 'b) simulation_job \<Rightarrow> string \<Rightarrow> int option \<Rightarrow> datetime option \<Rightarrow> bool \<Rightarrow> (('v, 'h, 's) job_world, job_trigger_result) process" where
  "run_trigger job trigger_id ticks triggered_at recover =
     (if trigger_id = [] then p_raise (ValueError ''trigger_id cannot be empty'')
      else
        p_bind (initialized_state job) (\<lambda>state.
        p_bind (p_of (requested_ticks_of job state trigger_id ticks)) (\<lambda>requested_ticks.
        case batch_record state trigger_id of
          Some completed \<Rightarrow> p_return (batch_result job completed)
        | None \<Rightarrow>
            p_bind (durable_tx (claim_batch_body (jb_job_id job) trigger_id requested_ticks ticks recover)) (\<lambda>claim. case claim of
                BatchDone completed \<Rightarrow> p_return (batch_result job completed)
              | BatchClaimed claimed requested_ticks \<Rightarrow>
                  let start_tick = js_next_tick claimed - js_active_batch_completed_ticks claimed in
                  p_bind (run_batch job trigger_id triggered_at recover requested_ticks (js_active_batch_completed_ticks claimed)) (\<lambda>_.
                  p_bind (durable_tx (finalize_batch_body (jb_job_id job) trigger_id requested_ticks start_tick)) (\<lambda>finished.
                  p_return (trigger_result job trigger_id requested_ticks start_tick finished)))))))"

section \<open>Scheduled occurrences\<close>

text \<open>The civil date of a day, counted from 0001-01-01, and \<open>isoformat\<close> of a UTC datetime, its offset written as \<open>Z\<close>.\<close>

definition leap_year :: "nat \<Rightarrow> bool" where
  "leap_year y \<longleftrightarrow> y mod 4 = 0 \<and> (y mod 100 \<noteq> 0 \<or> y mod 400 = 0)"

definition month_lengths :: "nat \<Rightarrow> nat list" where
  "month_lengths y = [31, if leap_year y then 29 else 28, 31, 30, 31, 30, 31, 31, 30, 31, 30, 31]"

fun month_day :: "nat \<Rightarrow> nat list \<Rightarrow> nat \<Rightarrow> nat \<times> nat" where
  "month_day m [] n = (m, n + 1)"
| "month_day m (k # ks) n = (if n < k then (m, n + 1) else month_day (m + 1) ks (n - k))"

function civil_date :: "nat \<Rightarrow> nat \<Rightarrow> nat \<times> nat \<times> nat" where
  "civil_date y n = (if n < sum_list (month_lengths y) then (y, month_day 1 (month_lengths y) n)
     else civil_date (y + 1) (n - sum_list (month_lengths y)))"
  by pat_completeness auto

termination
  by (relation "measure snd") (auto simp: month_lengths_def)

declare civil_date.simps [simp del]

definition iso_utc :: "datetime \<Rightarrow> string" where
  "iso_utc t = (let us = nat t; secs = us div 1000000 in
     case civil_date 1 (secs div 86400) of (y, mo, d) \<Rightarrow>
       iso_date y mo d @ ''T'' @ dec_pad 2 (secs div 3600 mod 24) @ '':'' @ dec_pad 2 (secs div 60 mod 60) @ '':'' @
       dec_pad 2 (secs mod 60) @ iso_micros (us mod 1000000) @ ''Z'')"

definition scheduled_trigger_id :: "string \<Rightarrow> datetime \<Rightarrow> string res" where
  "scheduled_trigger_id job_id scheduled_for = guards [(blank job_id, ValueError ''job_id cannot be empty'')]
     (job_id @ '':scheduled:'' @ iso_utc scheduled_for)"

definition run_scheduled_trigger ::
  "('v, 'h, 's, 'f, 'd, 'c, 'b) simulation_job \<Rightarrow> datetime \<Rightarrow> int option \<Rightarrow> bool \<Rightarrow> (('v, 'h, 's) job_world, job_trigger_result) process" where
  "run_scheduled_trigger job scheduled_for ticks recover =
     p_bind (p_of (scheduled_trigger_id (jb_job_id job) scheduled_for)) (\<lambda>trigger_id.
     run_trigger job trigger_id ticks (Some scheduled_for) recover)"

definition pending_sink_deliveries ::
  "('v, 'h, 's, 'f, 'd, 'c, 'b) simulation_job \<Rightarrow> (('v, 'h, 's) job_world, 'v sink_delivery list) process" where
  "pending_sink_deliveries job = p_read (\<lambda>w. filter (\<lambda>d. sl_status d = ''pending'') (sink_deliveries (Some (jb_job_id job)) None (jw_persistence w)))"

end
