(* ===== verification/Job_Recovery.thy ===== *)
theory Job_Recovery
  imports Job_Runner
begin

text \<open>
  What the checkpoints of \<open>jobs/runner.py\<close> achieve: a trigger that is killed or fails anywhere and is run again until it
  succeeds advances the simulation by exactly the requested number of ticks.
\<close>

section \<open>Triples\<close>

text \<open>
  From a state with \<open>P\<close> the process ends, however it ends, in a state with \<open>I\<close>, and if it returns \<open>a\<close> in one with \<open>G a\<close>.
\<close>

definition triple :: "('s \<Rightarrow> bool) \<Rightarrow> ('s \<Rightarrow> bool) \<Rightarrow> ('s, 'a) process \<Rightarrow> ('a \<Rightarrow> 's \<Rightarrow> bool) \<Rightarrow> bool" where
  "triple P I m G \<longleftrightarrow> (\<forall>s r s'. P s \<longrightarrow> m s = (r, s') \<longrightarrow> I s' \<and> (\<forall>a. r = Some (Inr a) \<longrightarrow> G a s'))"

lemma tripleI: "(\<And>s r s'. P s \<Longrightarrow> m s = (r, s') \<Longrightarrow> I s' \<and> (\<forall>a. r = Some (Inr a) \<longrightarrow> G a s')) \<Longrightarrow> triple P I m G"
  by (simp add: triple_def)

lemma tripleD: "triple P I m G \<Longrightarrow> P s \<Longrightarrow> m s = (r, s') \<Longrightarrow> I s'"
  "triple P I m G \<Longrightarrow> P s \<Longrightarrow> m s = (Some (Inr a), s') \<Longrightarrow> G a s'"
  by (auto simp: triple_def)

lemma triple_conseq:
  "triple P I m G \<Longrightarrow> (\<And>s. P' s \<Longrightarrow> P s) \<Longrightarrow> (\<And>s. I s \<Longrightarrow> I' s) \<Longrightarrow> (\<And>a s. G a s \<Longrightarrow> G' a s) \<Longrightarrow> triple P' I' m G'"
  unfolding triple_def by blast

lemma triple_return: "(\<And>s. P s \<Longrightarrow> I s) \<Longrightarrow> (\<And>s. P s \<Longrightarrow> G a s) \<Longrightarrow> triple P I (p_return a) G"
  by (simp add: triple_def p_return_def)

lemma triple_raise: "(\<And>s. P s \<Longrightarrow> I s) \<Longrightarrow> triple P I (p_raise e) G"
  by (simp add: triple_def p_raise_def)

lemma triple_of: "(\<And>s. P s \<Longrightarrow> I s) \<Longrightarrow> triple P I (p_of r) (\<lambda>a s. P s \<and> r = Inr a)"
  by (auto simp: triple_def p_of_def)

lemma triple_read: "(\<And>s. P s \<Longrightarrow> I s) \<Longrightarrow> triple P I (p_read f) (\<lambda>a s. P s \<and> a = f s)"
  by (simp add: triple_def p_read_def)

lemma triple_bind:
  assumes "triple P I m R" and "\<And>a. triple (R a) I (f a) G"
  shows "triple P I (p_bind m f) G"
proof (rule tripleI)
  fix s r s'
  assume P: "P s" and run: "p_bind m f s = (r, s')"
  obtain r1 s1 where m: "m s = (r1, s1)" by force
  show "I s' \<and> (\<forall>a. r = Some (Inr a) \<longrightarrow> G a s')"
  proof (cases "\<exists>a. r1 = Some (Inr a)")
    case True
    then obtain a where a: "r1 = Some (Inr a)" by blast
    then have "R a s1" using tripleD(2) [OF assms(1) P] m by simp
    moreover have "f a s1 = (r, s')" using run m a by (simp add: p_bind_def)
    ultimately show ?thesis using assms(2) unfolding triple_def by blast
  next
    case False
    then have "r = (case r1 of Some (Inl e) \<Rightarrow> Some (Inl e) | _ \<Rightarrow> None)" "s' = s1"
      using run m by (auto simp: p_bind_def split: option.splits sum.splits)
    moreover have "I s1" using tripleD(1) [OF assms(1) P m] .
    ultimately show ?thesis by (auto split: option.splits sum.splits)
  qed
qed

lemma triple_catch:
  assumes "triple P I m G" and "\<And>e. triple I I (h e) G"
  shows "triple P I (p_catch m h) G"
proof (rule tripleI)
  fix s r s'
  assume P: "P s" and run: "p_catch m h s = (r, s')"
  obtain r1 s1 where m: "m s = (r1, s1)" by force
  note I = tripleD(1) [OF assms(1) P m]
  show "I s' \<and> (\<forall>a. r = Some (Inr a) \<longrightarrow> G a s')"
  proof (cases "\<exists>e. r1 = Some (Inl e)")
    case True
    with run m I assms(2) show ?thesis unfolding triple_def by (auto simp: p_catch_def)
  next
    case False
    with run m have "r1 = r" "s1 = s'" by (auto simp: p_catch_def split: option.splits sum.splits)
    with m P assms(1) show ?thesis unfolding triple_def by blast
  qed
qed

lemma triple_case_option:
  "(x = None \<Longrightarrow> triple P I m G) \<Longrightarrow> (\<And>a. x = Some a \<Longrightarrow> triple P I (f a) G) \<Longrightarrow> triple P I (case x of None \<Rightarrow> m | Some a \<Rightarrow> f a) G"
  by (cases x) auto

lemma triple_if: "(c \<Longrightarrow> triple P I m G) \<Longrightarrow> (\<not> c \<Longrightarrow> triple P I n G) \<Longrightarrow> triple P I (if c then m else n) G"
  by simp

text \<open>The effect of a durable transaction.\<close>

lemma triple_tx:
  assumes "\<And>w. P w \<Longrightarrow> I w" and "\<And>w n. P w \<Longrightarrow> P (w\<lparr>jw_life := n\<rparr>)"
    and "\<And>w a u. P w \<Longrightarrow> body (new_uow (pstate (jw_persistence w))) = Inr (a, u) \<Longrightarrow>
      I (w\<lparr>jw_persistence := (jw_persistence w)\<lparr>pstate := working u\<rparr>\<rparr>) \<and> G a (w\<lparr>jw_persistence := (jw_persistence w)\<lparr>pstate := working u\<rparr>\<rparr>)"
  shows "triple P I (durable_tx body) G"
proof (rule tripleI)
  fix w r w'
  assume P: "P w" and run: "durable_tx body w = (r, w')"
  show "I w' \<and> (\<forall>a. r = Some (Inr a) \<longrightarrow> G a w')"
  proof (cases "jw_life w = 0")
    case True
    with run P assms(1) show ?thesis by (auto simp: durable_tx_def durable_def)
  next
    case False
    let ?w = "w\<lparr>jw_life := jw_life w - 1\<rparr>"
    obtain q p' where tx: "transaction None body (jw_persistence w) = (q, p')" by force
    with run False have r: "r = Some q" "w' = ?w\<lparr>jw_persistence := p'\<rparr>"
      by (auto simp: durable_tx_def durable_def on_persistence_def)
    have P': "P ?w" using P assms(2) by blast
    from tx show ?thesis
    proof (cases rule: transaction_cases)
      case (1 e)
      then have "w' = ?w" using r by (simp add: job_world.equality)
      with 1 r P' assms(1) show ?thesis by simp
    next
      case (2 a u)
      with r assms(3) [OF P'] show ?thesis by simp
    qed
  qed
qed

section \<open>The checkpoint of a job\<close>

abbreviation job_at :: "string \<Rightarrow> ('v, 'h, 's) job_world \<Rightarrow> 'v simulation_job_state option" where
  "job_at j w \<equiv> job_state j (jw_persistence w)"

abbreviation position_at :: "string \<Rightarrow> ('v, 'h, 's) job_world \<Rightarrow> simulation_position option" where
  "position_at j w \<equiv> map_of (st_simulation_positions (pstate (jw_persistence w))) j"

text \<open>The number of ticks the engine has committed for the owner.\<close>

definition tick_of :: "simulation_position option \<Rightarrow> int" where
  "tick_of q = (case q of None \<Rightarrow> 0 | Some q \<Rightarrow> sp_logical_tick q)"

text \<open>Nothing happened to the job: its state and its tick are the same, and a position stays one.\<close>

definition undisturbed_state :: "string \<Rightarrow> 'v persistence \<Rightarrow> 'v persistence \<Rightarrow> bool" where
  "undisturbed_state j p p' \<longleftrightarrow> job_state j p' = job_state j p \<and>
     tick_of (map_of (st_simulation_positions (pstate p')) j) = tick_of (map_of (st_simulation_positions (pstate p)) j) \<and>
     (map_of (st_simulation_positions (pstate p)) j \<noteq> None \<longrightarrow> map_of (st_simulation_positions (pstate p')) j \<noteq> None)"

abbreviation undisturbed :: "string \<Rightarrow> ('v, 'h, 's) job_world \<Rightarrow> ('v, 'h, 's) job_world \<Rightarrow> bool" where
  "undisturbed j w w' \<equiv> undisturbed_state j (jw_persistence w) (jw_persistence w')"

lemma undisturbed_refl [simp]: "undisturbed_state j p p"
  by (simp add: undisturbed_state_def)

lemma undisturbed_trans: "undisturbed_state j p q \<Longrightarrow> undisturbed_state j q r \<Longrightarrow> undisturbed_state j p r"
  by (auto simp: undisturbed_state_def)

text \<open>A property of worlds that only depends on the job.\<close>

definition about_job :: "string \<Rightarrow> (('v, 'h, 's) job_world \<Rightarrow> bool) \<Rightarrow> bool" where
  "about_job j P \<longleftrightarrow> (\<forall>w w'. undisturbed j w w' \<longrightarrow> P w \<longrightarrow> P w')"

definition keeps_job :: "string \<Rightarrow> (('v, 'h, 's) job_world, 'a) process \<Rightarrow> bool" where
  "keeps_job j m \<longleftrightarrow> (\<forall>w r w'. m w = (r, w') \<longrightarrow> undisturbed j w w')"

lemma keeps_triple: "keeps_job j m \<Longrightarrow> about_job j P \<Longrightarrow> (\<And>w. P w \<Longrightarrow> I w) \<Longrightarrow> triple P I m (\<lambda>_. P)"
  unfolding triple_def keeps_job_def about_job_def by blast

lemma keeps_return: "keeps_job j (p_return a)" "keeps_job j (p_raise e)" "keeps_job j (p_of r)" "keeps_job j (p_read f)"
  by (auto simp: keeps_job_def p_return_def p_raise_def p_of_def p_read_def)

lemma keeps_bind:
  assumes "keeps_job j m" and "\<And>a. keeps_job j (f a)"
  shows "keeps_job j (p_bind m f)"
  using assms unfolding keeps_job_def p_bind_def
  by (fastforce split: prod.splits option.splits sum.splits intro: undisturbed_trans)

lemma keeps_catch:
  assumes "keeps_job j m" and "\<And>e. keeps_job j (h e)"
  shows "keeps_job j (p_catch m h)"
  using assms unfolding keeps_job_def p_catch_def
  by (fastforce split: prod.splits option.splits sum.splits intro: undisturbed_trans)

lemma keeps_durable:
  assumes "\<And>w r w'. m w = (r, w') \<Longrightarrow> undisturbed j w w'"
  shows "keeps_job j (durable m)"
proof -
  have "undisturbed j w w'" if "m (w\<lparr>jw_life := n\<rparr>) = (r, w')" for w n r w'
    using assms [OF that] by simp
  then show ?thesis unfolding keeps_job_def durable_def by (auto split: if_splits prod.splits)
qed

text \<open>What the job relies on: the callbacks of the domain and the backend leave the job and its tick alone, and a new
  runtime starts at the tick it is built for.\<close>

definition participant_keeps :: "string \<Rightarrow> ('v, 'b) recovery_participant \<Rightarrow> bool" where
  "participant_keeps j pt \<longleftrightarrow> (\<forall>f p b r p' b'. pt_rebuild pt = Some f \<longrightarrow> f (p, b) = (r, (p', b')) \<longrightarrow> undisturbed_state j p p')"

definition domain_ok :: "('v, 'h, 's, 'f, 'd, 'c, 'b) simulation_job \<Rightarrow> bool" where
  "domain_ok job \<longleftrightarrow> \<not> blank (jb_job_id job) \<and>
     (\<forall>f t n. keeps_job (jb_job_id job) (jb_build_runtime job f t n)) \<and>
     (\<forall>f t n w c l w'. jb_build_runtime job f t n w = (Some (Inr (c, l)), w') \<longrightarrow> ck_tick (lv_clock l) = n) \<and>
     (\<forall>g f b rt. jb_reconcile job = Some g \<longrightarrow> keeps_job (jb_job_id job) (g f b rt)) \<and>
     (\<forall>g rt. jb_run_until job = Some g \<longrightarrow> keeps_job (jb_job_id job) (g rt)) \<and>
     list_all (participant_keeps (jb_job_id job)) (jb_participants job)"

section \<open>What the outboxes and the engine leave alone\<close>

lemma sink_write_job: "sink_write u u' \<Longrightarrow> st_job_states (working u') = st_job_states (working u) \<and>
    st_simulation_positions (working u') = st_simulation_positions (working u)"
  by (induction rule: sink_write.induct) (auto simp: uow_mutators split: if_splits option.splits)

lemma sink_writes_job: "sink_write\<^sup>*\<^sup>* u u' \<Longrightarrow> st_job_states (working u') = st_job_states (working u) \<and>
    st_simulation_positions (working u') = st_simulation_positions (working u)"
  by (induction rule: rtranclp_induct) (auto dest: sink_write_job)

lemma sink_committed_job: "committed (sink_write\<^sup>*\<^sup>*) p p' \<Longrightarrow> undisturbed_state j p p'"
  by (auto simp: committed_def undisturbed_state_def job_state_def dest!: sink_writes_job)

lemma sink_flush_job:
  "sink_flush uuid5 show_error pub sink state w = (r, w') \<Longrightarrow> undisturbed_state j (sk_persistence w) (sk_persistence w')"
  by (metis flush_committed sink_committed_job undisturbed_trans)

lemma flush_binding_keeps: "keeps_job j (flush_binding job state b)"
proof -
  have "keeps_job j (durable (\<lambda>w. case sink_flush (jb_uuid5 job) (jb_show_error job) pub name state
      \<lparr>sk_persistence = jw_persistence w, sk_sink = jw_sinks w\<rparr> of
      (r, sk) \<Rightarrow> (r, w\<lparr>jw_persistence := sk_persistence sk, jw_sinks := sk_sink sk\<rparr>)))" for name pub
    by (rule keeps_durable) (auto split: prod.splits dest!: sink_flush_job [where j = j])
  then show ?thesis
    by (auto simp: flush_binding_def split: prod.splits intro!: keeps_catch keeps_bind keeps_return)
qed

lemma flush_sinks_keeps: "keeps_job j (flush_sinks job)"
proof -
  have "keeps_job j (flush_bindings job state bs)" for state bs
    by (induction bs) (auto intro!: keeps_bind keeps_return flush_binding_keeps)
  then show ?thesis
    by (auto simp: flush_sinks_def current_state_def split: option.splits intro!: keeps_bind keeps_return)
qed

text \<open>The outbox of the warehouse.\<close>

lemma domain_tx_job:
  assumes "transaction None body p = (r, p')"
    and "\<And>u a u'. body u = Inr (a, u') \<Longrightarrow> st_job_states (working u') = st_job_states (working u) \<and>
      st_simulation_positions (working u') = st_simulation_positions (working u)"
  shows "undisturbed_state j p p'"
  using assms(1)
proof (cases rule: transaction_cases)
  case (2 a u)
  with assms(2) [OF 2(2)] show ?thesis by (simp add: undisturbed_state_def job_state_def)
qed simp

lemma deliver_job:
  assumes "deliver show_error apply_to d w = (r, w')"
  shows "undisturbed_state j (ob_persistence w) (ob_persistence w')"
proof -
  have "undisturbed_state j p p'" if "transaction None (record_failure c msg) p = (q, p')" for c msg p q p'
    using that by (rule domain_tx_job) (auto simp: record_failure_def uow_mutators split: option.splits)
  moreover have "undisturbed_state j p p'" if "transaction None (acknowledge k) p = (q, p')" for k p q p'
    using that by (rule domain_tx_job) (auto simp: acknowledge_def uow_mutators)
  ultimately show ?thesis using assms
    by (auto simp: deliver_def split: option.splits prod.splits sum.splits)
qed

lemma each_deliver_job:
  "each_m (\<lambda>d. bind_m (deliver show_error apply_to d) (\<lambda>_. return_m ())) ds w = (r, w') \<Longrightarrow>
     undisturbed_state j (ob_persistence w) (ob_persistence w')"
proof (induction ds arbitrary: w)
  case (Cons d ds)
  obtain r1 w1 where d: "deliver show_error apply_to d w = (r1, w1)" by force
  from deliver_job [OF d, of j] Cons.prems Cons.IH [of w1] d show ?case
    by (cases r1) (auto simp: bind_m_def return_m_def intro: undisturbed_trans)
qed (simp add: return_m_def)

lemma flush_domain_keeps: "keeps_job j (flush_domain_warehouse job)"
proof (cases "jb_warehouse job")
  case None
  then show ?thesis by (simp add: flush_domain_warehouse_def keeps_return)
next
  case (Some wa)
  have "undisturbed_state j (ob_persistence w) (ob_persistence w')" if "flush show_error apply_to w = (r, w')" for show_error apply_to w r w'
    using that by (auto simp: flush_def Let_def bind_m_def return_m_def split: prod.splits sum.splits dest!: each_deliver_job [where j = j])
  with Some show ?thesis
    by (fastforce simp: flush_domain_warehouse_def split: prod.splits intro!: keeps_durable)
qed

text \<open>The rebuild of a backend.\<close>

lemma participant_job:
  assumes "participant_rebuild pt (p, b) = (r, (p', b'))" and "participant_keeps j pt"
  shows "undisturbed_state j p p'"
proof (cases "pt_rebuild pt")
  case None
  with assms(1) show ?thesis by (simp add: participant_rebuild_def raise_m_def)
next
  case (Some f)
  obtain q p1 b1 where f: "f (p, b) = (q, (p1, b1))" by (metis prod.exhaust)
  with assms(1) Some have "p1 = p'" by (cases q) (auto simp: participant_rebuild_def bind_m_def return_m_def)
  with f Some assms(2) show ?thesis unfolding participant_keeps_def by blast
qed

lemma participants_job:
  assumes "each_m (\<lambda>pt w. (case participant_rebuild pt (rbw_persistence w, rbw_backend w) of
        (Inl e, (p, b)) \<Rightarrow> (Inl e, w\<lparr>rbw_persistence := p, rbw_backend := b\<rparr>)
      | (Inr _, (p, b)) \<Rightarrow> (Inr (), w\<lparr>rbw_persistence := p, rbw_backend := b\<rparr>))) pts w = (r, w')"
    and "list_all (participant_keeps j) pts"
  shows "undisturbed_state j (rbw_persistence w) (rbw_persistence w') \<and> rbw_context w' = rbw_context w"
  using assms
proof (induction pts arbitrary: w)
  case (Cons pt pts)
  obtain q p b where pt: "participant_rebuild pt (rbw_persistence w, rbw_backend w) = (q, (p, b))" by (metis prod.exhaust)
  have "undisturbed_state j (rbw_persistence w) p"
    using participant_job [OF pt] Cons.prems(2) by simp
  with pt Cons.prems Cons.IH [of "w\<lparr>rbw_persistence := p, rbw_backend := b\<rparr>"] show ?case
    by (cases q) (auto simp: bind_m_def return_m_def intro: undisturbed_trans)
qed (simp add: return_m_def)

lemma snapshot_job:
  assumes "recovery_snapshot owner p = (r, p')"
  shows "p' = p" and "r = Inr (position, sc, items) \<Longrightarrow> position = map_of (st_simulation_positions (pstate p)) owner"
proof -
  from assms show "p' = p" unfolding recovery_snapshot_def
    by (cases rule: transaction_cases) (auto simp: snapshot_body_def new_uow_def)
  from assms show "position = map_of (st_simulation_positions (pstate p)) owner" if "r = Inr (position, sc, items)"
    unfolding recovery_snapshot_def
    by (cases rule: transaction_cases) (use that in \<open>auto simp: snapshot_body_def get_simulation_position_def new_uow_def\<close>)
qed

lemma rebuild_job:
  assumes "rebuild_backend job rt p = (r, p')" and "list_all (participant_keeps j) (jb_participants job)" and "eg_owner_id (rt_engine rt) = j"
  shows "undisturbed_state j p p'" and "r = Inr rt' \<Longrightarrow> rt_engine rt' = rt_engine rt \<and>
    (ck_tick (lv_clock (rt_live rt)) = tick_of (map_of (st_simulation_positions (pstate p)) j) \<longrightarrow>
     ck_tick (lv_clock (rt_live rt')) = tick_of (map_of (st_simulation_positions (pstate p)) j))"
proof -
  let ?w = "\<lparr>rbw_persistence = p, rbw_backend = rt_backend rt, rbw_context = Some \<lparr>cx_now = ck_now (lv_clock (rt_live rt)),
    cx_tick = ck_tick (lv_clock (rt_live rt)), cx_scenarios = None\<rparr>\<rparr>"
  obtain q rw where run: "rebuild_runtime j (jb_schedule_backend job) (jb_participants job)
      (\<lambda>item. eg_supports (rt_engine rt) (cm_entity_type (di_command item))) ?w = (q, rw)" by force
  obtain s p1 where snap: "recovery_snapshot j p = (s, p1)" by force
  note S = snapshot_job [OF snap]
  have main: "undisturbed_state j p (rbw_persistence rw) \<and> (\<forall>n. q = Inr n \<longrightarrow> (\<exists>position sc items cx. s = Inr (position, sc, items) \<and>
      rbw_context rw = Some (restore_context position sc \<lparr>cx_now = ck_now (lv_clock (rt_live rt)), cx_tick = ck_tick (lv_clock (rt_live rt)), cx_scenarios = None\<rparr>)))"
  proof (cases s)
    case (Inl e)
    with run snap S(1) show ?thesis by (auto simp: rebuild_runtime_def)
  next
    case (Inr t)
    obtain position sc items where t: "t = (position, sc, items)" by (metis prod.exhaust)
    let ?w1 = "?w\<lparr>rbw_context := Some (restore_context position sc \<lparr>cx_now = ck_now (lv_clock (rt_live rt)), cx_tick = ck_tick (lv_clock (rt_live rt)), cx_scenarios = None\<rparr>)\<rparr>"
    obtain r2 w2 where parts: "rebuild_participants (jb_participants job) ?w1 = (r2, w2)" by force
    from participants_job [OF parts [unfolded rebuild_participants_def] assms(2)]
    have "undisturbed_state j p (rbw_persistence w2)" "rbw_context w2 = rbw_context ?w1" by auto
    with run snap S(1) Inr t parts show ?thesis
      by (auto simp: rebuild_runtime_def Let_def bind_m_def split: sum.splits prod.splits)
  qed
  show "undisturbed_state j p p'" using assms(1,3) run main
    by (auto simp: rebuild_backend_def Let_def split: sum.splits)
  show "rt_engine rt' = rt_engine rt \<and>
    (ck_tick (lv_clock (rt_live rt)) = tick_of (map_of (st_simulation_positions (pstate p)) j) \<longrightarrow>
     ck_tick (lv_clock (rt_live rt')) = tick_of (map_of (st_simulation_positions (pstate p)) j))" if "r = Inr rt'"
    using assms(1,3) run main S(2) that
    by (auto simp: rebuild_backend_def Let_def restore_context_def set_memory_def set_time_def tick_of_def split: sum.splits option.splits)
qed

text \<open>A tick of the engine.\<close>

lemma kernel_job: "kernel_write u u' \<Longrightarrow> st_job_states (working u') = st_job_states (working u)"
  by (induction rule: kernel_write.induct) (auto simp: uow_mutators split: if_splits option.splits)

lemma kernel_writes_job: "kernel_write\<^sup>*\<^sup>* u u' \<Longrightarrow> st_job_states (working u') = st_job_states (working u)"
  by (induction rule: rtranclp_induct) (auto dest: kernel_job)

lemma tick_body_position:
  "tick_body cfg te ct pos p u l = (Inr (a, u'), l') \<Longrightarrow>
     \<exists>q. map_of (st_simulation_positions (working u')) (eg_owner_id cfg) = Some q \<and> sp_logical_tick q = ct + 1"
  by (auto simp: tick_body_def save_position_def mk_simulation_position_def set_simulation_position_def mark_dirty_def
      split: sum.splits prod.splits if_splits)

lemma advance_job:
  assumes "advance_engine rt p = (r, p')"
  shows "job_state j p' = job_state j p" and "r = Inl e \<Longrightarrow> p' = p"
    and "r = Inr rt' \<Longrightarrow> \<exists>q. map_of (st_simulation_positions (pstate p')) (eg_owner_id (rt_engine rt)) = Some q \<and>
      sp_logical_tick q = ck_tick (lv_clock (rt_live rt)) + 1"
proof -
  let ?w = "\<lparr>wd_persistence = p, wd_live = rt_live rt\<rparr>" and ?cfg = "rt_engine rt"
  obtain r1 w1 where run: "advance_tick ?cfg ?w = (r1, w1)" and p': "p' = wd_persistence w1"
    and r: "r = (case r1 of Inl e \<Rightarrow> Inl e | Inr _ \<Rightarrow> Inr (rt\<lparr>rt_live := wd_live w1\<rparr>))"
    using assms by (auto simp: advance_engine_def split: prod.splits sum.splits)
  from kernel_op_committed [OF kop_tick [OF run]] show "job_state j p' = job_state j p"
    by (auto simp: p' committed_def job_state_def dest!: kernel_writes_job)
  show "p' = p" if "r = Inl e"
    using run that unfolding p' r
    by (auto simp: advance_tick_def Let_def undo_live_def split: sum.splits prod.splits elim!: live_transaction_cases)
  show "\<exists>q. map_of (st_simulation_positions (pstate p')) (eg_owner_id ?cfg) = Some q \<and> sp_logical_tick q = ck_tick (lv_clock (rt_live rt)) + 1"
    if "r = Inr rt'"
    using run that unfolding p' r
    by (auto simp: advance_tick_def Let_def split: sum.splits prod.splits elim!: live_transaction_cases dest!: tick_body_position)
qed

section \<open>Stages of a batch\<close>

text \<open>
  Where the tick \<open>c + 1\<close> of a batch that started at tick \<open>S\<close> stands: not claimed yet, claimed, committed by the engine but
  not recorded, recorded and to be reconciled, completed but not counted.
\<close>

datatype batch_stage = Waiting | Claimed | Advanced | Reconciling | Ticked

definition stage_at :: "string \<Rightarrow> int \<Rightarrow> int \<Rightarrow> batch_stage \<Rightarrow> 'v simulation_job_state \<Rightarrow> int \<Rightarrow> bool" where
  "stage_at b S c st J T \<longleftrightarrow>
     js_phase J = (case st of Waiting \<Rightarrow> ''idle'' | Claimed \<Rightarrow> ''advance'' | Advanced \<Rightarrow> ''advance'' | Reconciling \<Rightarrow> ''reconcile'' | Ticked \<Rightarrow> ''idle'') \<and>
     js_active_trigger_id J = (if st \<in> {Waiting, Ticked} then None else Some (expected_batch_child b c)) \<and>
     (js_last_completed_trigger_id J = Some (expected_batch_child b c) \<longleftrightarrow> st = Ticked) \<and>
     (st \<notin> {Waiting, Ticked} \<longrightarrow> js_status J \<in> {''running'', ''failed''}) \<and>
     js_next_tick J = (if st \<in> {Reconciling, Ticked} then S + c + 1 else S + c) \<and>
     T = (if st \<in> {Waiting, Claimed} then S + c else S + c + 1)"

definition in_batch ::
  "string \<Rightarrow> string \<Rightarrow> int \<Rightarrow> int \<Rightarrow> int \<Rightarrow> batch_stage \<Rightarrow> 'v simulation_job_state \<Rightarrow> ('v, 'h, 's) job_world \<Rightarrow> bool" where
  "in_batch j b N S c st J w \<longleftrightarrow> job_at j w = Some J \<and> js_job_id J = j \<and> js_initialized J \<and>
     js_active_batch_trigger_id J = Some b \<and> js_active_batch_total_ticks J = N \<and> js_active_batch_completed_ticks J = c \<and>
     batch_record J b = None \<and> 0 \<le> c \<and> c \<le> N \<and> (st \<noteq> Waiting \<longrightarrow> c < N) \<and>
     stage_at b S c st J (tick_of (position_at j w)) \<and> (st \<in> {Advanced, Reconciling, Ticked} \<longrightarrow> position_at j w \<noteq> None)"

definition open_tick :: "string \<Rightarrow> string \<Rightarrow> int \<Rightarrow> int \<Rightarrow> int \<Rightarrow> ('v, 'h, 's) job_world \<Rightarrow> bool" where
  "open_tick j b N S c w \<longleftrightarrow> (\<exists>st J. in_batch j b N S c st J w)"

lemma open_tickI: "in_batch j b N S c st J w \<Longrightarrow> open_tick j b N S c w"
  by (auto simp: open_tick_def)

lemma in_batch_about: "about_job j (in_batch j b N S c st J)"
  unfolding about_job_def undisturbed_state_def in_batch_def by simp

lemma about_jobD: "about_job j P \<Longrightarrow> undisturbed j w w' \<Longrightarrow> P w \<Longrightarrow> P w'"
  unfolding about_job_def by blast

lemma about_life: "about_job j P \<Longrightarrow> P w \<Longrightarrow> P (w\<lparr>jw_life := n\<rparr>)"
  by (erule about_jobD) simp_all

lemma about_conj: "about_job j P \<Longrightarrow> about_job j (\<lambda>w. P w \<and> C)"
  unfolding about_job_def by blast

lemma about_tick: "about_job j P \<Longrightarrow> about_job j (\<lambda>w. P w \<and> tick_of (position_at j w) = n)"
  unfolding about_job_def by (metis undisturbed_state_def)

lemma expected_child_inj: "expected_batch_child b c = expected_batch_child b d \<longleftrightarrow> c = d"
  by (auto simp: expected_batch_child_def dest: dec_int_inj)

lemma mk_job_same: "mk_simulation_job_state s = Inr s' \<Longrightarrow> s' = s"
  by (simp add: mk_simulation_job_state_def)

lemma save_job_effect:
  "save_job_state s u = Inr u' \<Longrightarrow> working u' = (working u)\<lparr>st_job_states := dset (js_job_id s) s (st_job_states (working u))\<rparr>"
  by (auto simp: save_job_state_def mark_dirty_def)

text \<open>Storing a state in place of the job's.\<close>

lemma stored_job:
  assumes "save_job_state s u = Inr u'" and "working u = pstate (jw_persistence w)" and "js_job_id s = j"
  shows "job_at j (w\<lparr>jw_persistence := (jw_persistence w)\<lparr>pstate := working u'\<rparr>\<rparr>) = Some s"
    and "position_at j (w\<lparr>jw_persistence := (jw_persistence w)\<lparr>pstate := working u'\<rparr>\<rparr>) = position_at j w"
  using save_job_effect [OF assms(1)] assms(2,3) by (auto simp: job_state_def)

lemma get_job_new: "get_job_state j (new_uow (pstate p)) = job_state j p"
  by (simp add: get_job_state_def job_state_def new_uow_def)

lemma triple_state:
  assumes "\<And>w. P w \<Longrightarrow> I w" and "\<And>w. P w \<Longrightarrow> job_at (jb_job_id job) w = Some J" and "js_initialized J"
  shows "triple P I (initialized_state job) (\<lambda>a w. P w \<and> a = J)"
  using assms by (auto simp: triple_def initialized_state_def current_state_def p_bind_def p_read_def p_return_def)

lemma triple_position:
  assumes "\<And>w. P w \<Longrightarrow> I w" and "\<not> blank (jb_job_id job)"
  shows "triple P I (position_of job) (\<lambda>a w. P w \<and> a = position_at (jb_job_id job) w)"
  using assms by (auto simp: triple_def position_of_def p_bind_def p_read_def p_of_def simulation_position_of_def guards.simps split: prod.splits)

lemma save_owned_triple:
  assumes "\<And>w. P w \<Longrightarrow> I w" and "about_job (jb_job_id job) P" and "js_job_id J' = jb_job_id job"
    and "\<And>w w'. P w \<Longrightarrow> job_at (jb_job_id job) w' = Some J' \<Longrightarrow> position_at (jb_job_id job) w' = position_at (jb_job_id job) w \<Longrightarrow> Q w' \<and> I w'"
  shows "triple P I (save_tick_if_owned job eff J') (\<lambda>a w. a = J' \<and> Q w)"
  unfolding save_tick_if_owned_def
proof (rule triple_bind [OF triple_of])
  fix s
  show "triple (\<lambda>w. P w \<and> mk_simulation_job_state J' = Inr s) I
      (p_bind (durable_tx (save_owned_body (jb_job_id job) eff s)) (\<lambda>_. p_return s)) (\<lambda>a w. a = J' \<and> Q w)"
  proof (rule triple_bind [where R = "\<lambda>_ w. s = J' \<and> Q w \<and> I w", OF triple_tx])
    fix w and a :: unit and u
    assume w: "P w \<and> mk_simulation_job_state J' = Inr s"
      and run: "save_owned_body (jb_job_id job) eff s (new_uow (pstate (jw_persistence w))) = Inr (a, u)"
    then have s: "s = J'" by (auto dest: mk_job_same)
    from run have "save_job_state s (new_uow (pstate (jw_persistence w))) = Inr u" by (auto simp: save_owned_body_def split: if_splits)
    note st = stored_job [OF this _ assms(3) [folded s], of w]
    show "I (w\<lparr>jw_persistence := (jw_persistence w)\<lparr>pstate := working u\<rparr>\<rparr>) \<and>
        s = J' \<and> Q (w\<lparr>jw_persistence := (jw_persistence w)\<lparr>pstate := working u\<rparr>\<rparr>) \<and>
        I (w\<lparr>jw_persistence := (jw_persistence w)\<lparr>pstate := working u\<rparr>\<rparr>)"
      using assms(4) [of w] w st s by simp
  qed (use assms(1,2) about_life in \<open>auto intro: triple_return\<close>)
qed (use assms(1) in auto)

section \<open>A tick of a batch\<close>

lemma claim_triple:
  fixes job :: "('v, 'h, 's, 'f, 'd, 'c, 'b) simulation_job"
  assumes "c < N" and "js_active_batch_trigger_id J0 = Some b"
  shows "triple (in_batch (jb_job_id job) b N S c st J) (open_tick (jb_job_id job) b N S c)
     (durable_tx (claim_tick_body job J0 (expected_batch_child b c) triggered_at recover) :: (('v, 'h, 's) job_world, 'v tick_claim) process)
     (\<lambda>a w. case a of
          TickDone _ \<Rightarrow> in_batch (jb_job_id job) b N S c Ticked J w
        | TickClaimed J' \<Rightarrow> \<exists>st' \<in> {Claimed, Advanced, Reconciling}. in_batch (jb_job_id job) b N S c st' J' w)"
    (is "triple ?P ?I _ ?G")
proof (rule triple_tx)
  show "?I w" if "?P w" for w using that by (rule open_tickI)
  show "?P (w\<lparr>jw_life := n\<rparr>)" if "?P w" for w n using that about_life [OF in_batch_about] by blast
next
  fix w :: "('v, 'h, 's) job_world" and a and u :: "'v uow"
  let ?j = "jb_job_id job" and ?ch = "expected_batch_child b c" and ?w = "w\<lparr>jw_persistence := (jw_persistence w)\<lparr>pstate := working u\<rparr>\<rparr>"
  assume w: "?P w" and run: "claim_tick_body job J0 ?ch triggered_at recover (new_uow (pstate (jw_persistence w))) = Inr (a, u)"
  from w have J: "job_at ?j w = Some J" by (simp add: in_batch_def)
  show "?I ?w \<and> ?G a ?w"
  proof (cases "js_last_completed_trigger_id J = Some ?ch")
    case True
    with w have "st = Ticked" by (simp add: in_batch_def stage_at_def)
    moreover from run J True have "u = new_uow (pstate (jw_persistence w))" "\<exists>r. a = TickDone r"
      by (auto simp: claim_tick_body_def get_job_new)
    ultimately show ?thesis using w by (auto simp: job_world.equality intro: open_tickI)
  next
    case False
    with run J w assms(2) obtain J' where cl: "claim_tick_state ?j J ?ch triggered_at recover = Inr J'"
      and sv: "save_job_state J' (new_uow (pstate (jw_persistence w))) = Inr u" and a: "a = TickClaimed J'"
      by (auto simp: claim_tick_body_def get_job_new in_batch_def split: if_splits)
    have id: "js_job_id J' = ?j" using cl w by (auto simp: claim_tick_state_def in_batch_def split: if_splits dest!: mk_job_same)
    note st' = stored_job [OF sv _ id, of w]
    have "in_batch ?j b N S c (if st = Waiting then Claimed else st) J' ?w \<and> st \<noteq> Ticked"
    proof (cases "st = Waiting")
      case True
      with cl w have J': "J' = J\<lparr>js_status := ''running'', js_phase := ''advance'', js_active_trigger_id := Some ?ch,
        js_last_triggered_at := Some (case triggered_at of None \<Rightarrow> js_logical_time J | Some t \<Rightarrow> t), js_last_error := None\<rparr>"
        by (auto simp: claim_tick_state_def in_batch_def stage_at_def dest!: mk_job_same)
      show ?thesis using True w st' assms(1) by (simp add: in_batch_def stage_at_def J' batch_record_def)
    next
      case other: False
      from w False have tk: "st \<noteq> Ticked" by (auto simp: in_batch_def stage_at_def)
      with other cl w have J': "J' = J\<lparr>js_status := ''running'',
        js_last_triggered_at := (case triggered_at of None \<Rightarrow> js_last_triggered_at J | Some t \<Rightarrow> Some t), js_last_error := None\<rparr>"
        by (auto simp: claim_tick_state_def in_batch_def stage_at_def split: if_splits dest!: mk_job_same)
      show ?thesis using other tk w st' assms(1) by (simp add: in_batch_def stage_at_def J' batch_record_def)
    qed
    then have "open_tick ?j b N S c ?w \<and> (\<exists>st' \<in> {Claimed, Advanced, Reconciling}. in_batch ?j b N S c st' J' ?w)"
      by (cases st) (auto intro: open_tickI)
    then show ?thesis by (simp add: a)
  qed
qed

lemma build_triple:
  fixes job :: "('v, 'h, 's, 'f, 'd, 'c, 'b) simulation_job"
  assumes "domain_ok job" and "about_job (jb_job_id job) P" and "\<And>w. P w \<Longrightarrow> I w"
  shows "triple (\<lambda>w. P w \<and> tick_of (position_at (jb_job_id job) w) = n) I (build_runtime_for_tick job f t n)
     (\<lambda>rt w. P w \<and> eg_owner_id (rt_engine rt) = jb_job_id job \<and> ck_tick (lv_clock (rt_live rt)) = tick_of (position_at (jb_job_id job) w))"
    (is "triple ?P I _ ?G")
proof (rule tripleI)
  fix w w' :: "('v, 'h, 's) job_world" and r
  let ?j = "jb_job_id job"
  assume w: "?P w" and run: "build_runtime_for_tick job f t n w = (r, w')"
  note dom = assms(1) [unfolded domain_ok_def]
  obtain q w1 where b: "jb_build_runtime job f t n w = (q, w1)" by force
  have "keeps_job ?j (jb_build_runtime job f t n)" using dom by blast
  then have "undisturbed ?j w w1" using b unfolding keeps_job_def by blast
  then have w1: "?P w1" using w assms(2) about_jobD about_tick by blast
  show "I w' \<and> (\<forall>a. r = Some (Inr a) \<longrightarrow> ?G a w')"
  proof (cases "\<exists>x. q = Some (Inr x)")
    case False
    then have "w' = w1 \<and> (\<forall>a. r \<noteq> Some (Inr a))"
      using run b by (auto simp: build_runtime_for_tick_def p_bind_def split: option.splits sum.splits)
    with w1 assms(3) show ?thesis by simp
  next
    case True
    then obtain cfg l where q: "q = Some (Inr (cfg, l))" by auto
    with dom b have tick: "ck_tick (lv_clock l) = n" by blast
    show ?thesis
    proof (cases "eg_owner_id cfg = ?j \<and> jw_life w1 \<noteq> 0 \<and> (\<exists>bk. jb_backend job t = Inr bk)")
      case False
      then have "w' = w1 \<and> (\<forall>a. r \<noteq> Some (Inr a))"
        using run b q by (cases "jb_backend job t")
          (auto simp: build_runtime_for_tick_def p_bind_def p_raise_def p_read_def p_of_def durable_def split: if_splits)
      with w1 assms(3) show ?thesis by simp
    next
      case True
      then obtain bk where bk: "jb_backend job t = Inr bk" by blast
      let ?rt = "\<lparr>rt_engine = attach_domain_warehouse job (jw_warehouse w1) cfg, rt_live = l, rt_backend = bk\<rparr>"
      obtain x p' where rb: "rebuild_backend job ?rt (jw_persistence w1) = (x, p')" by force
      have own: "eg_owner_id (rt_engine ?rt) = ?j" using True by (simp add: attach_domain_warehouse_def split: option.splits)
      have res: "r = Some x" "w' = w1\<lparr>jw_life := jw_life w1 - 1, jw_persistence := p'\<rparr>"
        using run b q True bk rb
        by (auto simp: build_runtime_for_tick_def p_bind_def p_read_def p_of_def durable_def on_persistence_def)
      note R = rebuild_job [OF rb _ own]
      have und: "undisturbed ?j w1 w'" using R(1) dom res by simp
      then have "?P w'" using w1 assms(2) about_jobD about_tick by blast
      moreover have "ck_tick (lv_clock (rt_live a)) = tick_of (position_at ?j w')" "eg_owner_id (rt_engine a) = ?j" if "r = Some (Inr a)" for a
        using R(2) [of a] dom that res own tick w1 und unfolding undisturbed_state_def by auto
      ultimately show ?thesis using assms(3) by auto
    qed
  qed
qed

lemma p_bind_Inr [simp]: "p_bind (p_of (Inr a)) f = f a"
  by (simp add: p_bind_def p_of_def fun_eq_iff)

lemma triple_ex: "(\<And>x. triple (P x) I m G) \<Longrightarrow> triple (\<lambda>s. \<exists>x. P x s) I m G"
  unfolding triple_def by blast

lemma triple_assume: "(c \<Longrightarrow> triple P I m G) \<Longrightarrow> triple (\<lambda>s. P s \<and> c) I m G"
  unfolding triple_def by blast

lemma run_until_keeps: "domain_ok job \<Longrightarrow> keeps_job (jb_job_id job) (run_until job rt)"
  by (auto simp: run_until_def domain_ok_def keeps_return split: option.splits)

lemma run_until_triple:
  assumes "domain_ok job"
  shows "triple (in_batch (jb_job_id job) b N S c st J) (open_tick (jb_job_id job) b N S c) (run_until job rt)
    (\<lambda>_. in_batch (jb_job_id job) b N S c st J)"
  by (rule keeps_triple [OF run_until_keeps [OF assms] in_batch_about open_tickI])

text \<open>The step that commits the tick.\<close>

lemma engine_triple:
  fixes job :: "('v, 'h, 's, 'f, 'd, 'c, 'b) simulation_job" and rt :: "('v, 'c, 'b) job_runtime"
  shows "triple (\<lambda>w. in_batch (jb_job_id job) b N S c Claimed J w \<and> eg_owner_id (rt_engine rt) = jb_job_id job \<and>
        ck_tick (lv_clock (rt_live rt)) = tick_of (position_at (jb_job_id job) w))
     (open_tick (jb_job_id job) b N S c)
     (durable (on_persistence (advance_engine rt)) :: (('v, 'h, 's) job_world, ('v, 'c, 'b) job_runtime) process)
     (\<lambda>_. in_batch (jb_job_id job) b N S c Advanced J)" (is "triple ?P ?I _ ?G")
proof (rule tripleI)
  fix w w' :: "('v, 'h, 's) job_world" and r
  let ?j = "jb_job_id job"
  assume w: "?P w" and run: "durable (on_persistence (advance_engine rt)) w = (r, w')"
  show "?I w' \<and> (\<forall>a. r = Some (Inr a) \<longrightarrow> ?G a w')"
  proof (cases "jw_life w = 0")
    case True
    with run w show ?thesis by (auto simp: durable_def intro: open_tickI)
  next
    case False
    obtain x p' where adv: "advance_engine rt (jw_persistence w) = (x, p')" by force
    with run False have res: "r = Some x" "w' = w\<lparr>jw_life := jw_life w - 1, jw_persistence := p'\<rparr>"
      by (auto simp: durable_def on_persistence_def)
    note A = advance_job [OF adv]
    show ?thesis
    proof (cases x)
      case (Inl e)
      with A(2) res have "undisturbed ?j w w'" by simp
      with w about_jobD [OF in_batch_about] have "in_batch ?j b N S c Claimed J w'" by blast
      with res Inl show ?thesis by (auto intro: open_tickI)
    next
      case (Inr rt')
      from A(3) [OF this] w obtain q where "position_at ?j w' = Some q" "sp_logical_tick q = tick_of (position_at ?j w) + 1"
        using res by auto
      moreover have "job_at ?j w' = job_at ?j w" using A(1) res by simp
      ultimately have "in_batch ?j b N S c Advanced J w'" using w by (simp add: in_batch_def stage_at_def tick_of_def)
      with res show ?thesis by (auto intro: open_tickI)
    qed
  qed
qed

text \<open>A checkpoint that moves the tick to another stage.\<close>

lemma save_stage_triple:
  fixes job :: "('v, 'h, 's, 'f, 'd, 'c, 'b) simulation_job"
  assumes "js_job_id J' = js_job_id J"
    and "\<And>(w :: ('v, 'h, 's) job_world) (w' :: ('v, 'h, 's) job_world). in_batch (jb_job_id job) b N S c st J w \<Longrightarrow> tick_of (position_at (jb_job_id job) w) = sp_logical_tick q \<Longrightarrow>
      job_at (jb_job_id job) w' = Some J' \<Longrightarrow> position_at (jb_job_id job) w' = position_at (jb_job_id job) w \<Longrightarrow>
      in_batch (jb_job_id job) b N S c st' J' w'"
  shows "triple (\<lambda>w. in_batch (jb_job_id job) b N S c st J w \<and> Some q = position_at (jb_job_id job) w) (open_tick (jb_job_id job) b N S c)
     (save_tick_if_owned job eff J') (\<lambda>a. in_batch (jb_job_id job) b N S c st' a)" (is "triple ?P ?I ?m ?G")
proof (rule tripleI)
  fix w w' r
  let ?j = "jb_job_id job"
  let ?A = "\<lambda>w. in_batch ?j b N S c st J w \<and> tick_of (position_at ?j w) = sp_logical_tick q"
  assume w: "?P w" and run: "?m w = (r, w')"
  have id: "js_job_id J' = ?j" using w assms(1) by (simp add: in_batch_def)
  have "triple ?A ?I ?m (\<lambda>a w. a = J' \<and> in_batch ?j b N S c st' J' w)"
  proof (rule save_owned_triple [OF _ about_tick [OF in_batch_about] id])
    fix w w' :: "('v, 'h, 's) job_world"
    assume "?A w" "job_at ?j w' = Some J'" "position_at ?j w' = position_at ?j w"
    with assms(2) have "in_batch ?j b N S c st' J' w'" by blast
    then show "in_batch ?j b N S c st' J' w' \<and> ?I w'" by (auto intro: open_tickI)
  qed (auto intro: open_tickI)
  moreover have "?A w" using w by (auto simp: tick_of_def split: option.splits)
  ultimately show "?I w' \<and> (\<forall>a. r = Some (Inr a) \<longrightarrow> ?G a w')" using run unfolding triple_def by blast
qed

lemma save_reconcile_triple:
  assumes "st \<in> {Advanced, Reconciling}"
  shows "triple (\<lambda>w. in_batch (jb_job_id job) b N S c st J w \<and> Some q = position_at (jb_job_id job) w) (open_tick (jb_job_id job) b N S c)
     (save_tick_if_owned job eff (J\<lparr>js_phase := ''reconcile'', js_logical_time := sp_logical_time q, js_next_tick := sp_logical_tick q\<rparr>))
     (\<lambda>a. in_batch (jb_job_id job) b N S c Reconciling a)"
proof (rule save_stage_triple, goal_cases)
  case (2 w w')
  then show ?case using assms unfolding in_batch_def stage_at_def batch_record_def by (cases st) simp_all
qed simp

lemma recover_triple:
  assumes "st \<in> {Claimed, Advanced, Reconciling}"
  shows "triple (\<lambda>w. in_batch (jb_job_id job) b N S c st J w \<and> position = position_at (jb_job_id job) w) (open_tick (jb_job_id job) b N S c)
     (recover_reconcile_state job J eff position)
     (\<lambda>a w. if js_phase a = ''advance'' then a = J \<and> in_batch (jb_job_id job) b N S c Claimed J w \<and> position = position_at (jb_job_id job) w
       else in_batch (jb_job_id job) b N S c Reconciling a w)"
    (is "triple ?P ?I _ ?G")
proof (cases "st = Advanced")
  case False
  have "triple ?P ?I (p_return J) ?G"
  proof (rule triple_return)
    show "?I w" if "?P w" for w using that by (auto intro: open_tickI)
    show "?G J w" if "?P w" for w using that False assms by (auto simp: in_batch_def stage_at_def)
  qed
  moreover have "recover_reconcile_state job J eff position w = p_return J w" if "?P w" for w
    using that False assms
    by (auto simp: recover_reconcile_state_def in_batch_def stage_at_def tick_of_def split: option.splits)
  ultimately show ?thesis unfolding triple_def by metis
next
  case True
  have save: "triple (\<lambda>w. in_batch (jb_job_id job) b N S c Advanced J w \<and> Some q = position_at (jb_job_id job) w) ?I
     (save_tick_if_owned job eff (J\<lparr>js_phase := ''reconcile'', js_logical_time := sp_logical_time q, js_next_tick := sp_logical_tick q\<rparr>)) ?G" for q
    by (rule triple_conseq [OF save_reconcile_triple [of Advanced]]) (auto simp: in_batch_def stage_at_def)
  show ?thesis
  proof (rule tripleI)
    fix w w' r
    assume w: "?P w" and run: "recover_reconcile_state job J eff position w = (r, w')"
    from w True obtain q where q: "position = Some q" "\<not> (js_phase J \<noteq> ''advance'' \<or> sp_logical_tick q \<le> js_next_tick J)"
      by (auto simp: in_batch_def stage_at_def tick_of_def)
    with run have "save_tick_if_owned job eff (J\<lparr>js_phase := ''reconcile'', js_logical_time := sp_logical_time q,
        js_next_tick := sp_logical_tick q\<rparr>) w = (r, w')" by (simp add: recover_reconcile_state_def)
    moreover have "in_batch (jb_job_id job) b N S c Advanced J w \<and> Some q = position_at (jb_job_id job) w" using w True q by simp
    ultimately show "?I w' \<and> (\<forall>a. r = Some (Inr a) \<longrightarrow> ?G a w')"
      using save [of q] unfolding triple_def by blast
  qed
qed

lemma advance_triple:
  fixes job :: "('v, 'h, 's, 'f, 'd, 'c, 'b) simulation_job"
  assumes "domain_ok job"
  shows "triple (\<lambda>w. in_batch (jb_job_id job) b N S c Claimed J w \<and> position = position_at (jb_job_id job) w) (open_tick (jb_job_id job) b N S c)
     (advance_tick_runtime job f J eff position) (\<lambda>(a, _). in_batch (jb_job_id job) b N S c Reconciling a)"
    (is "triple ?P ?I _ ?G")
proof -
  let ?j = "jb_job_id job"
  let ?time = "case position of None \<Rightarrow> jb_start_at job f | Some q \<Rightarrow> sp_logical_time q"
  let ?tick = "case position of None \<Rightarrow> 0 | Some q \<Rightarrow> sp_logical_tick q"
  let ?J = "J\<lparr>js_logical_time := ?time, js_next_tick := ?tick\<rparr>"
  let ?A = "\<lambda>w. in_batch ?j b N S c Claimed J w \<and> tick_of (position_at ?j w) = ?tick"
  let ?B = "in_batch ?j b N S c Claimed ?J"
  have blank: "\<not> blank ?j" using assms by (simp add: domain_ok_def)
  have saved: "triple ?A ?I (save_tick_if_owned job eff ?J) (\<lambda>a w. a = ?J \<and> ?B w \<and> tick_of (position_at ?j w) = ?tick)" if "js_job_id J = ?j"
  proof (rule save_owned_triple)
    fix w w' :: "('v, 'h, 's) job_world"
    assume "?A w" "job_at ?j w' = Some ?J" "position_at ?j w' = position_at ?j w"
    then have "?B w' \<and> tick_of (position_at ?j w') = ?tick" by (auto simp: in_batch_def stage_at_def batch_record_def)
    then show "(?B w' \<and> tick_of (position_at ?j w') = ?tick) \<and> ?I w'" by (auto intro: open_tickI)
  qed (use that in \<open>auto intro: open_tickI about_tick in_batch_about\<close>)
  have committed: "triple (in_batch ?j b N S c Advanced ?J) ?I
      (p_bind (run_until job rt) (\<lambda>rt. p_bind (position_of job) (\<lambda>committed. case committed of
         None \<Rightarrow> p_raise (RuntimeError ''tick advance completed without durable simulation position'')
       | Some q \<Rightarrow> p_bind (save_tick_if_owned job eff (?J\<lparr>js_phase := ''reconcile'', js_logical_time := sp_logical_time q,
           js_next_tick := sp_logical_tick q\<rparr>)) (\<lambda>running. p_return (running, rt))))) ?G" for rt
    by (intro triple_bind [OF run_until_triple [OF assms]] triple_bind [OF triple_position] triple_case_option triple_raise
        triple_bind [OF triple_conseq [OF save_reconcile_triple [of Advanced]]] triple_return)
      (auto simp: blank intro: open_tickI)
  have "triple ?P ?I (advance_tick_runtime job f J eff position) ?G" if "js_job_id J = ?j"
    unfolding advance_tick_runtime_def Let_def
  proof (rule triple_bind)
    show "triple ?P ?I (save_tick_if_owned job eff ?J) (\<lambda>a w. a = ?J \<and> ?B w \<and> tick_of (position_at ?j w) = ?tick)"
      by (rule triple_conseq [OF saved [OF that]]) (auto simp: tick_of_def split: option.splits)
    fix a
    show "triple (\<lambda>w. a = ?J \<and> ?B w \<and> tick_of (position_at ?j w) = ?tick) ?I
      (p_bind (build_runtime_for_tick job f ?time ?tick) (\<lambda>rt. p_bind (durable (on_persistence (advance_engine rt)))
        (\<lambda>rt. p_bind (run_until job rt) (\<lambda>rt. p_bind (position_of job) (\<lambda>committed. case committed of
         None \<Rightarrow> p_raise (RuntimeError ''tick advance completed without durable simulation position'')
       | Some q \<Rightarrow> p_bind (save_tick_if_owned job eff (a\<lparr>js_phase := ''reconcile'', js_logical_time := sp_logical_time q,
           js_next_tick := sp_logical_tick q\<rparr>)) (\<lambda>running. p_return (running, rt))))))) ?G"
    proof (cases "a = ?J")
      case True
      show ?thesis unfolding True
        by (rule triple_bind [OF _ triple_bind [OF engine_triple committed]],
            rule triple_conseq [OF build_triple [OF assms in_batch_about open_tickI]]) auto
    next
      case False
      then show ?thesis by (simp add: triple_def)
    qed
  qed
  moreover have "triple ?P ?I m G" if "js_job_id J \<noteq> ?j" for m G
    using that unfolding triple_def in_batch_def by blast
  ultimately show ?thesis by blast
qed

lemma reconcile_runtime_triple:
  fixes job :: "('v, 'h, 's, 'f, 'd, 'c, 'b) simulation_job"
  assumes "domain_ok job"
  shows "triple (in_batch (jb_job_id job) b N S c Reconciling J) (open_tick (jb_job_id job) b N S c)
     (build_reconcile_runtime job f J) (\<lambda>(a, _). in_batch (jb_job_id job) b N S c Reconciling a)" (is "triple ?P ?I _ ?G")
  unfolding build_reconcile_runtime_def
proof (rule triple_bind [OF triple_position])
  fix position
  let ?Q = "\<lambda>w. ?P w \<and> position = position_at (jb_job_id job) w"
  have "triple ?Q ?I (p_bind (build_runtime_for_tick job f (sp_logical_time q) (sp_logical_tick q)) (\<lambda>rt.
      p_bind (run_until job rt) (\<lambda>rt. p_return (J, rt)))) ?G" if "position = Some q" for q
  proof (rule triple_bind)
    show "triple ?Q ?I (build_runtime_for_tick job f (sp_logical_time q) (sp_logical_tick q)) (\<lambda>_. ?P)"
      by (rule triple_conseq [OF build_triple [OF assms in_batch_about open_tickI]]) (use that in \<open>auto simp: tick_of_def split: option.splits\<close>)
    show "triple ?P ?I (p_bind (run_until job rt) (\<lambda>rt. p_return (J, rt))) ?G" for rt
      by (rule triple_bind [OF run_until_triple [OF assms] triple_return]) (auto intro: open_tickI)
  qed
  then show "triple ?Q ?I (case position of
      None \<Rightarrow> p_raise (RuntimeError ''reconcile phase requires durable simulation position'')
    | Some q \<Rightarrow> p_bind (build_runtime_for_tick job f (sp_logical_time q) (sp_logical_tick q)) (\<lambda>rt.
        p_bind (run_until job rt) (\<lambda>rt. p_return (J, rt)))) ?G"
    by (intro triple_case_option triple_raise) (auto intro: open_tickI)
qed (use assms in \<open>auto simp: domain_ok_def intro: open_tickI\<close>)

lemma execute_triple:
  fixes job :: "('v, 'h, 's, 'f, 'd, 'c, 'b) simulation_job"
  assumes "domain_ok job" and "st \<in> {Claimed, Advanced, Reconciling}"
  shows "triple (in_batch (jb_job_id job) b N S c st J) (open_tick (jb_job_id job) b N S c)
     (execute_tick_phase job f J eff) (\<lambda>(a, _). in_batch (jb_job_id job) b N S c Reconciling a)" (is "triple ?P ?I _ ?G")
  unfolding execute_tick_phase_def
proof (rule triple_bind [OF triple_position triple_bind [OF recover_triple [OF assms(2)]]])
  fix position a
  let ?Q = "\<lambda>w. if js_phase a = ''advance'' then a = J \<and> in_batch (jb_job_id job) b N S c Claimed J w \<and> position = position_at (jb_job_id job) w
       else in_batch (jb_job_id job) b N S c Reconciling a w"
  show "triple ?Q ?I (if js_phase a \<noteq> ''advance'' then build_reconcile_runtime job f a else advance_tick_runtime job f a eff position) ?G"
  proof (cases "js_phase a = ''advance''")
    case True
    have "triple ?Q ?I (advance_tick_runtime job f a eff position) ?G"
    proof (cases "a = J")
      case a: True
      show ?thesis unfolding a by (rule triple_conseq [OF advance_triple [OF assms(1), where J = J]]) (use a True in auto)
    qed (use True in \<open>simp add: triple_def\<close>)
    then show ?thesis using True by simp
  next
    case False
    then show ?thesis using reconcile_runtime_triple [OF assms(1), of b N S c a f] by simp
  qed
qed (use assms in \<open>auto simp: domain_ok_def intro: open_tickI\<close>)

lemma run_reconcile_keeps:
  assumes "domain_ok job"
  shows "keeps_job (jb_job_id job) (run_reconcile_tick job f J rt)"
  using assms unfolding run_reconcile_tick_def
  by (auto split: option.splits simp: domain_ok_def intro!: keeps_bind keeps_return run_until_keeps [OF assms])

lemma persist_completed_triple:
  assumes "domain_ok job"
  shows "triple (in_batch (jb_job_id job) b N S c Reconciling J) (open_tick (jb_job_id job) b N S c)
     (persist_completed_tick job J (expected_batch_child b c)) (\<lambda>a. in_batch (jb_job_id job) b N S c Ticked a)"
  unfolding persist_completed_tick_def
proof (rule triple_bind [OF triple_position], goal_cases)
  case (3 position)
  show ?case
  proof (intro triple_case_option triple_raise, goal_cases)
    case (2 q)
    show ?case
      by (rule triple_conseq [OF save_stage_triple [where q = q and J = J and st = Reconciling and st' = Ticked]])
        (simp_all add: 2 in_batch_def stage_at_def batch_record_def)
  qed (auto intro: open_tickI)
qed (use assms in \<open>auto simp: domain_ok_def intro: open_tickI\<close>)

lemma persist_failed_triple:
  fixes job :: "('v, 'h, 's, 'f, 'd, 'c, 'b) simulation_job"
  shows "triple (open_tick (jb_job_id job) b N S c) (open_tick (jb_job_id job) b N S c) (persist_failed_tick job J0 e)
    (\<lambda>_. open_tick (jb_job_id job) b N S c)" (is "triple ?I ?I ?m ?G")
proof (rule tripleI)
  fix w w' :: "('v, 'h, 's) job_world" and r
  let ?j = "jb_job_id job"
  assume "?I w" and run: "?m w = (r, w')"
  then obtain st J where w: "in_batch ?j b N S c st J w" by (auto simp: open_tick_def)
  let ?F = "J\<lparr>js_status := ''failed'', js_last_error := Some (jb_show_error job e)\<rparr>"
  have "triple (in_batch ?j b N S c st J) ?I (p_bind (p_of (mk_simulation_job_state ?F)) (\<lambda>failed.
      p_bind (durable_tx (save_body failed)) (\<lambda>_. p_return ()))) ?G"
  proof (rule triple_bind [OF triple_of], goal_cases)
    case (2 F)
    show ?case
    proof (rule triple_bind [OF triple_tx [where G = "\<lambda>_. ?I"]], goal_cases)
      case (3 w a u)
      then have F: "F = ?F" and id: "js_job_id ?F = ?j" and sv: "save_job_state F (new_uow (pstate (jw_persistence w))) = Inr u"
        by (auto simp: save_body_def in_batch_def dest: mk_job_same)
      note st' = stored_job [OF sv [unfolded F] _ id, of w]
      have "in_batch ?j b N S c st ?F (w\<lparr>jw_persistence := (jw_persistence w)\<lparr>pstate := working u\<rparr>\<rparr>)"
        using 3(1) st' by (simp add: in_batch_def stage_at_def batch_record_def)
      then show ?case by (auto intro: open_tickI)
    qed (auto intro: open_tickI triple_return about_life [OF in_batch_about])
  qed (auto intro: open_tickI)
  moreover have "job_at ?j w = Some J" using w by (simp add: in_batch_def)
  ultimately show "?I w' \<and> (\<forall>a. r = Some (Inr a) \<longrightarrow> ?G a w')"
    using run w unfolding triple_def by (simp add: persist_failed_tick_def current_state_def p_bind_def [of "p_read _"] p_read_def)
qed

lemma run_claimed_triple:
  fixes job :: "('v, 'h, 's, 'f, 'd, 'c, 'b) simulation_job"
  assumes "domain_ok job" and "st \<in> {Claimed, Advanced, Reconciling}"
  shows "triple (in_batch (jb_job_id job) b N S c st J) (open_tick (jb_job_id job) b N S c)
     (run_claimed_tick job f J (expected_batch_child b c)) (\<lambda>_ w. \<exists>J'. in_batch (jb_job_id job) b N S c Ticked J' w)"
    (is "triple _ ?I _ ?G")
proof -
  let ?j = "jb_job_id job"
  have finish: "triple (in_batch ?j b N S c Ticked J') ?I (p_bind (flush_domain_warehouse job) (\<lambda>_.
      p_bind (flush_sinks job) (\<lambda>_. p_return x))) ?G" for J' and x :: job_tick_result
    by (rule triple_bind [OF keeps_triple [OF flush_domain_keeps in_batch_about]
        triple_bind [OF keeps_triple [OF flush_sinks_keeps in_batch_about] triple_return]]) (auto intro: open_tickI)
  show ?thesis unfolding run_claimed_tick_def
  proof (rule triple_bind [OF execute_triple [OF assms]], goal_cases)
    case (1 a)
    obtain J1 rt where a: "a = (J1, rt)" by force
    have "triple (in_batch ?j b N S c Reconciling J1) ?I (p_bind (run_reconcile_tick job f J1 rt) (\<lambda>_.
       p_bind (persist_completed_tick job J1 (expected_batch_child b c)) (\<lambda>completed.
       p_bind (flush_domain_warehouse job) (\<lambda>_. p_bind (flush_sinks job) (\<lambda>_. p_return (result_from_state job completed)))))) ?G"
      by (rule triple_bind [OF keeps_triple [OF run_reconcile_keeps [OF assms(1)] in_batch_about]
          triple_bind [OF persist_completed_triple [OF assms(1)] finish]]) (rule open_tickI)
    then show ?case by (simp add: a)
  qed
qed

lemma run_tick_triple:
  fixes job :: "('v, 'h, 's, 'f, 'd, 'c, 'b) simulation_job"
  assumes "domain_ok job" and "c < N"
  shows "triple (in_batch (jb_job_id job) b N S c st J) (open_tick (jb_job_id job) b N S c)
     (run_tick job triggered_at (Some (expected_batch_child b c)) recover) (\<lambda>_ w. \<exists>J'. in_batch (jb_job_id job) b N S c Ticked J' w)"
    (is "triple ?P ?I _ ?G")
proof (cases "js_active_batch_trigger_id J = Some b \<and> js_active_batch_completed_ticks J = c \<and> js_initialized J")
  case False
  then show ?thesis unfolding triple_def in_batch_def by blast
next
  case True
  let ?j = "jb_job_id job" and ?ch = "expected_batch_child b c"
  have ch: "tick_trigger_id ?j J (Some ?ch) = ?ch" by (simp add: tick_trigger_id_def expected_batch_child_def)
  have run: "triple (\<lambda>w. \<exists>st' \<in> {Claimed, Advanced, Reconciling}. in_batch ?j b N S c st' J' w) ?I
     (p_bind (p_of (jb_load job (js_config_json J'))) (\<lambda>config. p_catch (run_claimed_tick job config J' ?ch)
        (\<lambda>e. p_bind (persist_failed_tick job J' e) (\<lambda>_. p_raise e)))) ?G" for J'
  proof -
    have "triple (in_batch ?j b N S c st' J') ?I
     (p_bind (p_of (jb_load job (js_config_json J'))) (\<lambda>config. p_catch (run_claimed_tick job config J' ?ch)
        (\<lambda>e. p_bind (persist_failed_tick job J' e) (\<lambda>_. p_raise e)))) ?G" if "st' \<in> {Claimed, Advanced, Reconciling}" for st'
      by (rule triple_bind [OF triple_of triple_catch [OF triple_conseq [OF run_claimed_triple [OF assms(1) that]]
            triple_bind [OF persist_failed_triple triple_raise]]]) (auto intro: open_tickI)
    then show ?thesis unfolding triple_def by blast
  qed
  have claim: "triple ?P ?I (p_bind (durable_tx (claim_tick_body job J ?ch triggered_at recover)) (\<lambda>claim. case claim of
         TickDone result \<Rightarrow> p_return result
       | TickClaimed claimed \<Rightarrow> p_bind (p_of (jb_load job (js_config_json claimed))) (\<lambda>config.
           p_catch (run_claimed_tick job config claimed ?ch)
             (\<lambda>e. p_bind (persist_failed_tick job claimed e) (\<lambda>_. p_raise e))))) ?G"
  proof (rule triple_bind [OF claim_triple [OF assms(2), of J]], goal_cases)
    case (2 a)
    show ?case by (cases a) (use run in \<open>auto intro!: triple_return intro: open_tickI\<close>)
  qed (use True in simp)
  have ensure: "ensure_tick_matches_batch ?j J ?ch = Inr ()"
    using True by (simp add: ensure_tick_matches_batch_def guards.simps)
  have "triple ?P ?I (run_tick job triggered_at (Some ?ch) recover) ?G"
    unfolding run_tick_def
  proof (rule triple_bind [OF triple_state [where J = J]], goal_cases)
    case (4 a)
    show ?case
    proof (cases "a = J")
      case a: True
      have p: "about_job ?j (\<lambda>w. ?P w \<and> a = J)" by (rule about_conj [OF in_batch_about])
      show ?thesis
        by (rule triple_bind [OF keeps_triple [OF flush_domain_keeps p] triple_bind [OF keeps_triple [OF flush_sinks_keeps p]]])
          (use claim in \<open>auto simp: a ch ensure Let_def intro: open_tickI\<close>)
    qed (simp add: triple_def)
  qed (use True in \<open>auto simp: in_batch_def intro: open_tickI\<close>)
  then show ?thesis .
qed

section \<open>A trigger\<close>

definition open_batch :: "string \<Rightarrow> string \<Rightarrow> int \<Rightarrow> int \<Rightarrow> ('v, 'h, 's) job_world \<Rightarrow> bool" where
  "open_batch j b N S w \<longleftrightarrow> (\<exists>c. open_tick j b N S c w)"

lemma open_batchI: "in_batch j b N S c st J w \<Longrightarrow> open_batch j b N S w"
  by (auto simp: open_batch_def open_tick_def)

lemma open_batch_tick: "open_tick j b N S c w \<Longrightarrow> open_batch j b N S w"
  by (auto simp: open_batch_def)

lemma progress_triple:
  fixes job :: "('v, 'h, 's, 'f, 'd, 'c, 'b) simulation_job"
  shows "triple (in_batch j b N S c Ticked J) (open_batch j b N S)
    (durable_tx (save_batch_progress_body j b (c + 1)) :: (('v, 'h, 's) job_world, unit) process)
    (\<lambda>_ w. \<exists>J'. in_batch j b N S (c + 1) Waiting J' w)"
proof (rule triple_tx, goal_cases)
  case (3 w a u)
  let ?J = "J\<lparr>js_active_batch_completed_ticks := c + 1\<rparr>"
  from 3 have sv: "save_job_state ?J (new_uow (pstate (jw_persistence w))) = Inr u" and id: "js_job_id ?J = j"
    by (auto simp: save_batch_progress_body_def owned_batch_def in_batch_def get_job_new guards.simps split: if_splits dest!: mk_job_same)
  note st' = stored_job [OF sv _ id, of w]
  have "in_batch j b N S (c + 1) Waiting ?J (w\<lparr>jw_persistence := (jw_persistence w)\<lparr>pstate := working u\<rparr>\<rparr>)"
    using 3(1) st' by (simp add: in_batch_def stage_at_def batch_record_def expected_child_inj)
  then show ?case by (auto intro: open_batchI)
qed (auto intro: open_batchI about_life [OF in_batch_about])

lemma run_batch_triple:
  assumes "domain_ok job"
  shows "triple (in_batch (jb_job_id job) b N S c st J) (open_batch (jb_job_id job) b N S)
    (run_batch job b triggered_at recover N c) (\<lambda>_ w. \<exists>J'. in_batch (jb_job_id job) b N S N Waiting J' w)"
proof (induction "nat (N - c)" arbitrary: c st J rule: less_induct)
  case less
  let ?j = "jb_job_id job" let ?I = "open_batch ?j b N S" and ?G = "\<lambda>_ w. \<exists>J'. in_batch ?j b N S N Waiting J' w"
  show ?case
  proof (cases "c < N")
    case True
    have IH: "triple (in_batch ?j b N S (c + 1) st J) ?I (run_batch job b triggered_at recover N (c + 1)) ?G" for st J
      using less True by simp
    have "triple (in_batch ?j b N S c st J) ?I (p_bind (run_tick job triggered_at (Some (expected_batch_child b c)) recover) (\<lambda>_.
           p_bind (durable_tx (save_batch_progress_body ?j b (c + 1))) (\<lambda>_. run_batch job b triggered_at recover N (c + 1)))) ?G"
      by (rule triple_bind [OF triple_conseq [OF run_tick_triple [OF assms True]] triple_ex [OF triple_bind [OF progress_triple triple_ex [OF IH]]]])
        (auto intro: open_batch_tick)
    then show ?thesis using True by (subst run_batch.simps) (simp add: expected_batch_child_def)
  next
    case False
    then have "in_batch ?j b N S c st J w \<Longrightarrow> in_batch ?j b N S N Waiting J w" for w by (cases st) (auto simp: in_batch_def)
    with False show ?thesis by (subst run_batch.simps) (auto intro!: triple_return intro: open_batchI)
  qed
qed

text \<open>The trigger has not been claimed yet, or is complete.\<close>

definition fresh_trigger :: "string \<Rightarrow> string \<Rightarrow> int \<Rightarrow> 'v simulation_job_state \<Rightarrow> ('v, 'h, 's) job_world \<Rightarrow> bool" where
  "fresh_trigger j b S J w \<longleftrightarrow> job_at j w = Some J \<and> js_job_id J = j \<and> js_initialized J \<and> js_active_batch_trigger_id J = None \<and>
     batch_record J b = None \<and> js_last_completed_trigger_id J \<noteq> Some (expected_batch_child b 0) \<and>
     js_next_tick J = S \<and> tick_of (position_at j w) = S"

definition done_trigger :: "string \<Rightarrow> string \<Rightarrow> int \<Rightarrow> int \<Rightarrow> 'v simulation_job_state \<Rightarrow> ('v, 'h, 's) job_world \<Rightarrow> bool" where
  "done_trigger j b N S J w \<longleftrightarrow> job_at j w = Some J \<and> js_job_id J = j \<and> js_initialized J \<and> js_active_batch_trigger_id J = None \<and>
     (\<exists>t. batch_record J b = Some t \<and> ct_requested_ticks t = N \<and> ct_end_tick t = S + N) \<and> 0 \<le> N \<and> tick_of (position_at j w) = S + N"

definition trigger_inv :: "string \<Rightarrow> string \<Rightarrow> int \<Rightarrow> int \<Rightarrow> ('v, 'h, 's) job_world \<Rightarrow> bool" where
  "trigger_inv j b N S w \<longleftrightarrow> (\<exists>J. fresh_trigger j b S J w) \<or> open_batch j b N S w \<or> (\<exists>J. done_trigger j b N S J w)"

lemma trigger_invI [intro]:
  "fresh_trigger j b S J w \<Longrightarrow> trigger_inv j b N S w"
  "in_batch j b N S c st J w \<Longrightarrow> trigger_inv j b N S w"
  "open_batch j b N S w \<Longrightarrow> trigger_inv j b N S w"
  "done_trigger j b N S J w \<Longrightarrow> trigger_inv j b N S w"
  by (auto simp: trigger_inv_def intro: open_batchI)

lemma fresh_about: "about_job j (fresh_trigger j b S J)"
  unfolding about_job_def undisturbed_state_def fresh_trigger_def by simp

lemma done_about: "about_job j (done_trigger j b N S J)"
  unfolding about_job_def undisturbed_state_def done_trigger_def by simp

lemma trigger_inv_about: "about_job j (trigger_inv j b N S)"
  using fresh_about done_about in_batch_about
  unfolding trigger_inv_def open_batch_def open_tick_def about_job_def by metis

text \<open>What a successful attempt returns.\<close>

definition trigger_done :: "string \<Rightarrow> string \<Rightarrow> int \<Rightarrow> int \<Rightarrow> job_trigger_result \<Rightarrow> ('v, 'h, 's) job_world \<Rightarrow> bool" where
  "trigger_done j b N S res w \<longleftrightarrow> jt_requested_ticks res = N \<and> jt_completed_ticks res = N \<and> jt_end_tick res = S + N \<and>
     (\<exists>J. done_trigger j b N S J w)"

lemma find_append: "find P (xs @ ys) = (case find P xs of None \<Rightarrow> find P ys | Some x \<Rightarrow> Some x)"
  by (induction xs) auto

lemma finalize_triple:
  "triple (in_batch j b N S N Waiting J) (trigger_inv j b N S)
    (durable_tx (finalize_batch_body j b N start) :: (('v, 'h, 's) job_world, 'v simulation_job_state) process)
    (\<lambda>a w. js_next_tick a = S + N \<and> done_trigger j b N S a w)"
proof (rule triple_tx, goal_cases)
  case (3 w a u)
  define t where "t = \<lparr>ct_trigger_id = b, ct_requested_ticks = N, ct_start_tick = start, ct_end_tick = js_next_tick J,
    ct_config_revision = js_config_revision J, ct_logical_time = js_logical_time J, ct_run_count = js_run_count J\<rparr>"
  from 3 have t: "ct_trigger_id t = b" "ct_requested_ticks t = N" "ct_end_tick t = js_next_tick J"
    and a: "a = J\<lparr>js_active_batch_trigger_id := None, js_active_batch_total_ticks := 0,
         js_active_batch_completed_ticks := 0, js_last_completed_batch_trigger_id := Some b,
         js_last_completed_batch_ticks := N, js_completed_batch_triggers := js_completed_batch_triggers J @ [t]\<rparr>"
    and sv: "save_job_state a (new_uow (pstate (jw_persistence w))) = Inr u"
    by (auto simp: finalize_batch_body_def owned_batch_def in_batch_def get_job_new guards.simps mk_completed_job_trigger_def t_def
        split: if_splits dest!: mk_job_same)
  have id: "js_job_id a = j" using 3(1) by (simp add: a in_batch_def)
  note st' = stored_job [OF sv _ id, of w]
  have "batch_record a b = Some t" using 3(1) t(1) by (simp add: a in_batch_def batch_record_def find_append)
  then have "js_next_tick a = S + N \<and> done_trigger j b N S a (w\<lparr>jw_persistence := (jw_persistence w)\<lparr>pstate := working u\<rparr>\<rparr>)"
    using 3(1) st' t id by (simp add: done_trigger_def in_batch_def stage_at_def) (simp add: a)
  then show ?case by auto
qed (auto intro: about_life [OF in_batch_about])

text \<open>An attempt once the batch is claimed.\<close>

lemma batch_triple:
  assumes "domain_ok job"
  shows "triple (in_batch (jb_job_id job) b N S c st J) (trigger_inv (jb_job_id job) b N S)
    (p_bind (run_batch job b triggered_at recover N c) (\<lambda>_.
     p_bind (durable_tx (finalize_batch_body (jb_job_id job) b N start)) (\<lambda>finished. p_return (trigger_result job b N start finished))))
    (trigger_done (jb_job_id job) b N S)"
  by (rule triple_bind [OF triple_conseq [OF run_batch_triple [OF assms]] triple_ex [OF triple_bind [OF finalize_triple triple_return]]])
    (auto simp: trigger_done_def trigger_result_def)

lemma in_batch_job: "in_batch j b N S c st J w \<Longrightarrow> job_at j w = Some J"
  by (simp add: in_batch_def)

lemma claim_existing_of:
  assumes "in_batch j b N S c st J w" and "claim_existing_batch j J b ticks recover = Inr x"
  shows "x = Some (BatchClaimed J N)"
  using assms by (auto simp: claim_existing_batch_def in_batch_def guards.simps split: if_splits)

lemma trigger_open_triple:
  assumes "domain_ok job"
  shows "triple (in_batch (jb_job_id job) b N S c st J) (trigger_inv (jb_job_id job) b N S)
    (run_trigger job b ticks triggered_at recover) (trigger_done (jb_job_id job) b N S)" (is "triple ?P ?I _ ?G")
proof (cases "js_initialized J \<and> batch_record J b = None \<and> js_active_batch_completed_ticks J = c")
  case False
  then show ?thesis unfolding triple_def in_batch_def by blast
next
  case J: True
  let ?j = "jb_job_id job"
  have claim: "triple ?P ?I (durable_tx (claim_batch_body ?j b n ticks recover)) (\<lambda>a w. a = BatchClaimed J N \<and> ?P w)" for n
  proof (rule triple_tx, goal_cases)
    case (3 w a u)
    then have "u = new_uow (pstate (jw_persistence w)) \<and> a = BatchClaimed J N"
      by (auto simp: claim_batch_body_def get_job_new in_batch_def [of _ _ _ _ _ _ _ w] split: option.splits dest!: claim_existing_of [OF 3(1)])
    with 3(1) show ?case by (auto simp: job_world.equality)
  qed (auto intro: about_life [OF in_batch_about])
  show ?thesis unfolding run_trigger_def
  proof (intro triple_if triple_raise triple_bind [OF triple_state [where J = J]] triple_bind [OF triple_of], goal_cases)
    case (6 a n)
    show ?case
    proof (cases "a = J")
      case True
      have "triple ?P ?I (p_bind (durable_tx (claim_batch_body ?j b n ticks recover)) (\<lambda>claim. case claim of
           BatchDone completed \<Rightarrow> p_return (batch_result job completed)
         | BatchClaimed claimed requested_ticks \<Rightarrow>
             let start_tick = js_next_tick claimed - js_active_batch_completed_ticks claimed in
             p_bind (run_batch job b triggered_at recover requested_ticks (js_active_batch_completed_ticks claimed)) (\<lambda>_.
             p_bind (durable_tx (finalize_batch_body ?j b requested_ticks start_tick)) (\<lambda>finished.
             p_return (trigger_result job b requested_ticks start_tick finished))))) ?G"
      proof (rule triple_bind [OF claim], goal_cases)
        case (1 x)
        show ?case by (cases "x = BatchClaimed J N") (use batch_triple [OF assms] J in \<open>auto simp: Let_def triple_def\<close>)
      qed
      then show ?thesis using True J by (auto intro: triple_conseq)
    qed (simp add: triple_def)
  qed (use J in \<open>auto dest: in_batch_job\<close>)
qed

lemma trigger_done_triple:
  assumes "N = (case ticks of None \<Rightarrow> jb_ticks_per_trigger job | Some n \<Rightarrow> n)"
  shows "triple (done_trigger (jb_job_id job) b N S J) (trigger_inv (jb_job_id job) b N S)
    (run_trigger job b ticks triggered_at recover) (trigger_done (jb_job_id job) b N S)"
proof (rule tripleI)
  fix w r w'
  assume w: "done_trigger (jb_job_id job) b N S J w" and run: "run_trigger job b ticks triggered_at recover w = (r, w')"
  then have "w' = w \<and> (\<forall>a. r = Some (Inr a) \<longrightarrow> trigger_done (jb_job_id job) b N S a w)"
    by (auto simp: run_trigger_def initialized_state_def current_state_def done_trigger_def trigger_done_def batch_result_def
        p_bind_def p_read_def p_of_def p_return_def p_raise_def split: if_splits sum.splits)
  with w show "trigger_inv (jb_job_id job) b N S w' \<and> (\<forall>a. r = Some (Inr a) \<longrightarrow> trigger_done (jb_job_id job) b N S a w')" by auto
qed

lemma fresh_job: "fresh_trigger j b S J w \<Longrightarrow> job_at j w = Some J"
  by (simp add: fresh_trigger_def)

lemma trigger_fresh_triple:
  assumes "domain_ok job" and "N = (case ticks of None \<Rightarrow> jb_ticks_per_trigger job | Some n \<Rightarrow> n)"
  shows "triple (fresh_trigger (jb_job_id job) b S J) (trigger_inv (jb_job_id job) b N S)
    (run_trigger job b ticks triggered_at recover) (trigger_done (jb_job_id job) b N S)" (is "triple ?P ?I _ ?G")
proof (cases "js_initialized J \<and> batch_record J b = None \<and> js_active_batch_trigger_id J = None")
  case False
  then show ?thesis unfolding triple_def fresh_trigger_def by blast
next
  case J: True
  let ?j = "jb_job_id job"
  let ?C = "J\<lparr>js_active_batch_trigger_id := Some b, js_active_batch_total_ticks := N, js_active_batch_completed_ticks := 0\<rparr>"
  have claim: "triple ?P ?I (durable_tx (claim_batch_body ?j b N ticks recover)) (\<lambda>a w. a = BatchClaimed ?C N \<and> in_batch ?j b N S 0 Waiting ?C w)"
    if "1 \<le> N"
  proof (rule triple_tx, goal_cases)
    case (3 w a u)
    from 3 J have a: "a = BatchClaimed ?C N" and idle: "js_phase J = ''idle''" "js_active_trigger_id J = None"
      and sv: "save_job_state ?C (new_uow (pstate (jw_persistence w))) = Inr u" and id: "js_job_id ?C = ?j"
      by (auto simp: claim_batch_body_def get_job_new fresh_trigger_def claim_existing_batch_def validate_idle_for_batch_trigger_def guards.simps
          split: if_splits dest!: mk_job_same)
    note st' = stored_job [OF sv _ id, of w]
    have "in_batch ?j b N S 0 Waiting ?C (w\<lparr>jw_persistence := (jw_persistence w)\<lparr>pstate := working u\<rparr>\<rparr>)"
      using 3(1) st' that J idle by (simp add: fresh_trigger_def in_batch_def stage_at_def batch_record_def)
    with a show ?case by auto
  qed (auto intro: about_life [OF fresh_about])
  show ?thesis unfolding run_trigger_def
  proof (intro triple_if triple_raise triple_bind [OF triple_state [where J = J]] triple_bind [OF triple_of], goal_cases)
    case (6 a n)
    show ?case
    proof (cases "a = J \<and> n = N \<and> 1 \<le> N")
      case True
      have "triple ?P ?I (p_bind (durable_tx (claim_batch_body ?j b N ticks recover)) (\<lambda>claim. case claim of
           BatchDone completed \<Rightarrow> p_return (batch_result job completed)
         | BatchClaimed claimed requested_ticks \<Rightarrow>
             let start_tick = js_next_tick claimed - js_active_batch_completed_ticks claimed in
             p_bind (run_batch job b triggered_at recover requested_ticks (js_active_batch_completed_ticks claimed)) (\<lambda>_.
             p_bind (durable_tx (finalize_batch_body ?j b requested_ticks start_tick)) (\<lambda>finished.
             p_return (trigger_result job b requested_ticks start_tick finished))))) ?G"
      proof (rule triple_bind [OF claim], goal_cases)
        case (2 x)
        show ?case by (cases "x = BatchClaimed ?C N") (use batch_triple [OF assms(1)] in \<open>auto simp: Let_def triple_def\<close>)
      qed (use True in simp)
      then show ?thesis using True J by (auto intro: triple_conseq)
    next
      case False
      then show ?thesis using assms(2) J unfolding triple_def
        by (auto simp: requested_ticks_of_def Let_def guards.simps split: if_splits)
    qed
  qed (use J in \<open>auto dest: fresh_job\<close>)
qed

lemma run_trigger_triple:
  assumes "domain_ok job" and "N = (case ticks of None \<Rightarrow> jb_ticks_per_trigger job | Some n \<Rightarrow> n)"
  shows "triple (trigger_inv (jb_job_id job) b N S) (trigger_inv (jb_job_id job) b N S)
    (run_trigger job b ticks triggered_at recover) (trigger_done (jb_job_id job) b N S)"
  using trigger_fresh_triple [OF assms] trigger_open_triple [OF assms(1)] trigger_done_triple [OF assms(2)]
  unfolding trigger_inv_def [of _ _ _ _ "_ :: ('a, 'b, 'c) job_world"] open_batch_def open_tick_def triple_def by metis

section \<open>Pauses and configuration changes\<close>

text \<open>An edit of the job state that leaves the trigger's bookkeeping alone, while no batch is open.\<close>

definition same_progress :: "'v simulation_job_state \<Rightarrow> 'v simulation_job_state \<Rightarrow> bool" where
  "same_progress J J' \<longleftrightarrow> js_job_id J' = js_job_id J \<and> js_initialized J' = js_initialized J \<and>
     js_active_batch_trigger_id J' = js_active_batch_trigger_id J \<and> js_completed_batch_triggers J' = js_completed_batch_triggers J \<and>
     js_last_completed_trigger_id J' = js_last_completed_trigger_id J \<and> js_next_tick J' = js_next_tick J"

lemma trigger_inv_edit:
  assumes "trigger_inv j b N S w" and "job_at j w = Some J" and "js_active_batch_trigger_id J = None" and "same_progress J J'"
    and "job_at j w' = Some J'" and "position_at j w' = position_at j w"
  shows "trigger_inv j b N S w'"
proof -
  have rec: "batch_record J' b = batch_record J b" using assms(4) by (simp add: same_progress_def batch_record_def)
  have "\<not> open_batch j b N S w" using assms(2,3) by (auto simp: open_batch_def open_tick_def in_batch_def)
  with assms(1,2) consider "fresh_trigger j b S J w" | "done_trigger j b N S J w"
    by (auto simp: trigger_inv_def fresh_trigger_def done_trigger_def)
  then show ?thesis
  proof cases
    case 1
    with assms rec have "fresh_trigger j b S J' w'" by (simp add: fresh_trigger_def same_progress_def)
    then show ?thesis ..
  next
    case 2
    with assms rec have "done_trigger j b N S J' w'" by (simp add: done_trigger_def same_progress_def)
    then show ?thesis ..
  qed
qed

lemma trigger_inv_job: "trigger_inv j b N S w \<Longrightarrow> \<exists>J. job_at j w = Some J \<and> js_job_id J = j"
  by (auto simp: trigger_inv_def fresh_trigger_def done_trigger_def open_batch_def open_tick_def in_batch_def)

lemma edit_triple:
  assumes "same_progress J J'" and "\<And>u a u'. get_job_state j u = Some J \<Longrightarrow> body u = Inr (a, u') \<Longrightarrow> save_job_state J' u = Inr u'"
    and "js_active_batch_trigger_id J = None"
  shows "triple (\<lambda>w :: ('v, 'h, 's) job_world. trigger_inv j b N S w \<and> job_at j w = Some J) (trigger_inv j b N S) (durable_tx body)
    (\<lambda>_. trigger_inv j b N S)"
proof (rule triple_tx, goal_cases)
  case (2 w n)
  then show ?case using about_life [OF trigger_inv_about] by force
next
  case (3 w a u)
  then have J: "job_at j w = Some J" and inv: "trigger_inv j b N S w" by auto
  have sv: "save_job_state J' (new_uow (pstate (jw_persistence w))) = Inr u"
    using assms(2) [OF _ 3(2)] J by (auto simp: get_job_new)
  from trigger_inv_job [OF inv] J assms(1) have id: "js_job_id J' = j" by (auto simp: same_progress_def)
  note st' = stored_job [OF sv _ id, of w]
  show ?case by (intro conjI trigger_inv_edit [OF inv J assms(3,1)] st') (simp_all add: new_uow_def)
qed auto

lemma read_job_triple:
  assumes "\<And>J. triple (\<lambda>w. trigger_inv (jb_job_id job) b N S w \<and> job_at (jb_job_id job) w = Some J) (trigger_inv (jb_job_id job) b N S) (f (Some J)) G"
  shows "triple (trigger_inv (jb_job_id job) b N S) (trigger_inv (jb_job_id job) b N S) (p_bind (current_state job) f) G"
proof (rule tripleI)
  fix w r w'
  assume w: "trigger_inv (jb_job_id job) b N S w" and run: "p_bind (current_state job) f w = (r, w')"
  from trigger_inv_job [OF w] obtain J where J: "job_at (jb_job_id job) w = Some J" by blast
  with run have "f (Some J) w = (r, w')" by (simp add: p_bind_def current_state_def p_read_def)
  with assms [of J] w J show "trigger_inv (jb_job_id job) b N S w' \<and> (\<forall>a. r = Some (Inr a) \<longrightarrow> G a w')"
    unfolding triple_def by blast
qed

lemma set_status_triple:
  "triple (trigger_inv (jb_job_id job) b N S) (trigger_inv (jb_job_id job) b N S) (set_status job status) (\<lambda>_. trigger_inv (jb_job_id job) b N S)"
  unfolding set_status_def
proof (rule read_job_triple)
  fix J
  have "triple (\<lambda>w. (trigger_inv (jb_job_id job) b N S w \<and> job_at (jb_job_id job) w = Some J) \<and> mk_simulation_job_state (J\<lparr>js_status := status\<rparr>) = Inr a)
      (trigger_inv (jb_job_id job) b N S) (durable_tx (save_body a)) (\<lambda>_. trigger_inv (jb_job_id job) b N S)"
    if "js_active_batch_trigger_id J = None" for a
    by (rule triple_assume, rule edit_triple [OF _ _ that, where J' = "J\<lparr>js_status := status\<rparr>"])
      (auto simp: save_body_def same_progress_def dest!: mk_job_same)
  then show "triple (\<lambda>w. trigger_inv (jb_job_id job) b N S w \<and> job_at (jb_job_id job) w = Some J) (trigger_inv (jb_job_id job) b N S)
      (case Some J of None \<Rightarrow> p_raise (not_initialized job)
       | Some current \<Rightarrow>
         if js_status current = ''running'' \<or> js_active_batch_trigger_id current \<noteq> None
         then p_raise (RuntimeError (''cannot change status while job trigger is active: '' @ jb_job_id job))
         else if status = ''ready'' \<and> js_status current = ''failed'' \<and> js_active_trigger_id current \<noteq> None
         then p_raise (RuntimeError (''failed trigger must be recovered before resume: '' @ jb_job_id job))
         else p_bind (p_of (mk_simulation_job_state (current\<lparr>js_status := status\<rparr>))) (\<lambda>updated. durable_tx (save_body updated)))
      (\<lambda>_. trigger_inv (jb_job_id job) b N S)"
    by (auto intro!: triple_if triple_raise triple_bind [OF triple_of])
qed

lemma update_body_triple:
  assumes "same_progress J J'" and "js_active_batch_trigger_id J = None"
  shows "triple (\<lambda>w. trigger_inv j b N S w \<and> job_at j w = Some J) (trigger_inv j b N S) (durable_tx (update_body j revision J'))
    (\<lambda>_. trigger_inv j b N S)"
  by (rule edit_triple [OF assms(1) _ assms(2)]) (auto simp: update_body_def split: option.splits if_splits)

lemma update_config_triple:
  "triple (trigger_inv (jb_job_id job) b N S) (trigger_inv (jb_job_id job) b N S) (update_config job config) (\<lambda>_. trigger_inv (jb_job_id job) b N S)"
  unfolding update_config_def
proof (rule read_job_triple)
  fix J
  let ?P = "\<lambda>w. trigger_inv (jb_job_id job) b N S w \<and> job_at (jb_job_id job) w = Some J"
  have edit: "triple ?P (trigger_inv (jb_job_id job) b N S) (durable_tx (update_body (jb_job_id job) m a)) (\<lambda>_. trigger_inv (jb_job_id job) b N S)"
    if "js_active_batch_trigger_id J = None"
      and "mk_simulation_job_state (J\<lparr>js_config_json := t, js_config_revision := n, js_last_error := None\<rparr>) = Inr a" for a t n m
    using that by (intro update_body_triple) (auto simp: same_progress_def dest!: mk_job_same)
  show "triple ?P (trigger_inv (jb_job_id job) b N S)
      (case Some J of None \<Rightarrow> p_raise (not_initialized job)
       | Some current \<Rightarrow>
         if js_active_trigger_id current \<noteq> None \<or> js_active_batch_trigger_id current \<noteq> None
         then p_raise (RuntimeError (''cannot change config while trigger is unresolved: '' @ jb_job_id job))
         else
           p_bind (p_of (jb_load job (js_config_json current))) (\<lambda>previous.
           p_bind (p_of (parse_config job (Some (case config of Fields d \<Rightarrow> Fields (jb_merge job previous d) | Config c \<Rightarrow> Config c)))) (\<lambda>resolved.
           p_bind (p_of (if js_initialized current then validate_runtime_config_change job previous resolved else Inr [])) (\<lambda>_.
           p_bind (p_of (mk_simulation_job_state (current\<lparr>js_config_json := jb_dump job resolved,
               js_config_revision := js_config_revision current + 1, js_last_error := None\<rparr>))) (\<lambda>updated.
           durable_tx (update_body (jb_job_id job) (js_config_revision current) updated))))))
      (\<lambda>_. trigger_inv (jb_job_id job) b N S)"
    unfolding option.case
    by (intro triple_if triple_raise triple_bind [OF triple_of] triple_assume) (auto intro: edit)
qed

section \<open>Exactly the requested ticks\<close>

text \<open>
  What may happen to a job around one trigger: attempts of the trigger, killed, failing or successful, with recovery or
  without; pauses, resumptions and configuration changes; anything that leaves the job and its tick alone, such as a new
  process, other jobs, deliveries to sinks and warehouse.
\<close>

inductive job_history ::
  "('v, 'h, 's, 'f, 'd, 'c, 'b) simulation_job \<Rightarrow> string \<Rightarrow> int option \<Rightarrow> ('v, 'h, 's) job_world \<Rightarrow> ('v, 'h, 's) job_world \<Rightarrow> bool"
  for job b ticks w0 where
  jh_start: "job_history job b ticks w0 w0"
| jh_attempt: "job_history job b ticks w0 w \<Longrightarrow> run_trigger job b ticks triggered_at recover w = (r, w') \<Longrightarrow> job_history job b ticks w0 w'"
| jh_pause: "job_history job b ticks w0 w \<Longrightarrow> pause job w = (r, w') \<Longrightarrow> job_history job b ticks w0 w'"
| jh_resume: "job_history job b ticks w0 w \<Longrightarrow> resume job w = (r, w') \<Longrightarrow> job_history job b ticks w0 w'"
| jh_config: "job_history job b ticks w0 w \<Longrightarrow> update_config job config w = (r, w') \<Longrightarrow> job_history job b ticks w0 w'"
| jh_other: "job_history job b ticks w0 w \<Longrightarrow> undisturbed (jb_job_id job) w w' \<Longrightarrow> job_history job b ticks w0 w'"

lemma history_inv:
  assumes "job_history job b ticks w0 w" and "domain_ok job" and "N = (case ticks of None \<Rightarrow> jb_ticks_per_trigger job | Some n \<Rightarrow> n)"
    and "trigger_inv (jb_job_id job) b N S w0"
  shows "trigger_inv (jb_job_id job) b N S w"
  using assms(1)
proof (induction rule: job_history.induct)
  case (jh_attempt w triggered_at recover r w')
  with tripleD(1) [OF run_trigger_triple [OF assms(2,3)]] show ?case by blast
next
  case (jh_pause w r w')
  with tripleD(1) [OF set_status_triple] show ?case unfolding pause_def by blast
next
  case (jh_resume w r w')
  with tripleD(1) [OF set_status_triple] show ?case unfolding resume_def by blast
next
  case (jh_config w config r w')
  with tripleD(1) [OF update_config_triple] show ?case by blast
next
  case (jh_other w w')
  with about_jobD [OF trigger_inv_about] show ?case by blast
qed (rule assms(4))

lemma trigger_inv_ticks:
  assumes "trigger_inv j b N S w" and "0 \<le> N"
  shows "S \<le> tick_of (position_at j w) \<and> tick_of (position_at j w) \<le> S + N"
proof -
  have "S \<le> tick_of (position_at j w) \<and> tick_of (position_at j w) \<le> S + N" if "in_batch j b N S c st J w" for c st J
    using that by (cases st) (auto simp: in_batch_def stage_at_def)
  with assms show ?thesis
    by (auto simp: trigger_inv_def fresh_trigger_def done_trigger_def open_batch_def open_tick_def)
qed

text \<open>
  C5. A trigger advances the simulation by exactly the requested number of ticks, however often it is interrupted: whatever
  mixture of killed, failed, recovered and repeated attempts, pauses and configuration changes came before, the durable
  tick never leaves the range from the start of the trigger to the start plus the requested ticks, and an attempt that
  returns leaves it at the end of that range and reports it.
\<close>

theorem trigger_ticks_exactly_once:
  assumes "domain_ok job" and "fresh_trigger (jb_job_id job) b S J w0"
    and "N = (case ticks of None \<Rightarrow> jb_ticks_per_trigger job | Some n \<Rightarrow> n)" and "1 \<le> N"
    and "job_history job b ticks w0 w" and "run_trigger job b ticks triggered_at recover w = (r, w')"
  shows "S \<le> tick_of (position_at (jb_job_id job) w') \<and> tick_of (position_at (jb_job_id job) w') \<le> S + N \<and>
    (\<forall>res. r = Some (Inr res) \<longrightarrow> tick_of (position_at (jb_job_id job) w') = S + N \<and>
       jt_requested_ticks res = N \<and> jt_completed_ticks res = N \<and> jt_end_tick res = S + N)"
proof -
  have inv: "trigger_inv (jb_job_id job) b N S w"
    using assms(2) by (intro history_inv [OF assms(5,1,3)]) blast
  note run = run_trigger_triple [OF assms(1,3)]
  have "trigger_inv (jb_job_id job) b N S w'" by (rule tripleD(1) [OF run inv assms(6)])
  moreover have "trigger_done (jb_job_id job) b N S res w'" if "r = Some (Inr res)" for res
    using tripleD(2) [OF run inv] assms(6) that by blast
  ultimately show ?thesis using trigger_inv_ticks assms(4) by (fastforce simp: trigger_done_def done_trigger_def)
qed

text \<open>A job of one tick per trigger whose runtime is the lamp's engine.\<close>

definition lamp_job :: "(nat, unit, unit, unit, unit, unit, datetime) simulation_job" where
  "lamp_job = \<lparr>jb_job_id = ''me'', jb_domain_name = ''d'', jb_ticks_per_trigger = 1, jb_max_ticks_per_trigger = 3,
     jb_default = Inr (), jb_validate = Inr, jb_merge = (\<lambda>f d. d), jb_fields = (\<lambda>_. []), jb_mutable = [], jb_dump = (\<lambda>_. ''{}''),
     jb_load = (\<lambda>_. Inr ()), jb_start_at = (\<lambda>_. 0), jb_seed = (\<lambda>_. p_return 0),
     jb_build_runtime = (\<lambda>_ t n. p_return (lamp_config, wd_live (new_world \<lparr>ck_now = t, ck_step = 10, ck_tick = n\<rparr> []))),
     jb_reconcile = None, jb_backend = Inr, jb_schedule_backend = \<lparr>hb_now = id, hb_schedule_at = (\<lambda>t item prio key b. (Inr (), b))\<rparr>,
     jb_participants = [], jb_run_until = None, jb_sinks = [], jb_warehouse = None, jb_show_error = (\<lambda>_. ''failed''), jb_uuid5 = lamp_digest\<rparr>"

definition lamp_job_world :: "nat \<Rightarrow> (nat, unit, unit) job_world" where
  "lamp_job_world n = \<lparr>jw_persistence = new_persistence\<lparr>pstate := empty_state\<lparr>st_job_states := [(''me'', tick_job\<lparr>js_job_id := ''me''\<rparr>)]\<rparr>\<rparr>,
     jw_warehouse = (), jw_sinks = (), jw_life = n\<rparr>"

lemma lamp_job_simps [simp]:
  "jb_job_id lamp_job = ''me''" "jb_domain_name lamp_job = ''d''" "jb_ticks_per_trigger lamp_job = 1" "jb_max_ticks_per_trigger lamp_job = 3"
  "jb_load lamp_job = (\<lambda>_. Inr ())" "jb_start_at lamp_job = (\<lambda>_. 0)" "jb_reconcile lamp_job = None" "jb_backend lamp_job = Inr"
  "jb_build_runtime lamp_job = (\<lambda>_ t n. p_return (lamp_config, wd_live (new_world \<lparr>ck_now = t, ck_step = 10, ck_tick = n\<rparr> [])))"
  "jb_schedule_backend lamp_job = \<lparr>hb_now = id, hb_schedule_at = (\<lambda>t item prio key b. (Inr (), b))\<rparr>"
  "jb_participants lamp_job = []" "jb_run_until lamp_job = None" "jb_sinks lamp_job = []" "jb_warehouse lamp_job = None"
  by (simp_all add: lamp_job_def)

text \<open>Evaluation from the left: a continuation is looked at once its process has returned.\<close>

lemma p_bind_keep: "p_bind m f s = p_bind m f s"
  by (rule refl)

lemma p_catch_keep: "p_catch m h s = p_catch m h s"
  by (rule refl)

lemma run_batch_next:
  "c < n \<Longrightarrow> run_batch job b triggered_at recover n c = p_bind (run_tick job triggered_at (Some (b @ '':tick:'' @ dec_int (c + 1))) recover) (\<lambda>_.
     p_bind (durable_tx (save_batch_progress_body (jb_job_id job) b (c + 1))) (\<lambda>_. run_batch job b triggered_at recover n (c + 1)))"
  "\<not> c < n \<Longrightarrow> run_batch job b triggered_at recover n c = p_return ()"
  by (subst run_batch.simps, simp)+

lemmas job_eval = durable_def durable_tx_def on_persistence_def p_bind_def p_return_def p_raise_def p_of_def p_read_def p_catch_def
  current_state_def initialized_state_def job_state_def flush_domain_warehouse_def flush_sinks_def mk_simulation_job_state_def
  requested_ticks_of_def batch_record_def claim_batch_body_def claim_existing_batch_def validate_idle_for_batch_trigger_def
  get_job_state_def save_job_state_def run_tick_def tick_trigger_id_def ensure_tick_matches_batch_def expected_batch_child_def
  claim_tick_body_def claim_tick_state_def run_claimed_tick_def execute_tick_phase_def position_of_def recover_reconcile_state_def
  save_tick_if_owned_def save_owned_body_def advance_tick_runtime_def build_runtime_for_tick_def attach_domain_warehouse_def
  build_reconcile_runtime_def run_reconcile_tick_def persist_completed_tick_def run_until_def result_from_state_def
  save_batch_progress_body_def owned_batch_def finalize_batch_body_def mk_completed_job_trigger_def trigger_result_def
  simulation_position_of_def tick_of_def run_batch_next rebuild_backend_def rebuild_runtime_def recovery_snapshot_def snapshot_body_def
  rebuild_plan_def rebuild_participants_def schedule_pending_items_def advance_engine_def restore_context_def
  require_non_empty_def run_trigger_def blank_me validate_scheduled_items_def
  engine_eval advance_tick_def tick_body_def dt_add_def datetime_max_def uow_scheduled_work_def
  heap_len_def new_heap_scheduler_def due_def pending_def pending_body_def bind_m_def return_m_def set_committed_tick_def Let_def
  get_scenario_state_def set_time_def set_memory_def require_non_negative_def unique_nonempty_def
lemmas lamp_job_defs = lamp_job_world_def tick_job_def new_persistence_def empty_state_def new_world_def lamp_config_def empty_memory_def

text \<open>Without interruption the trigger takes nine durable steps.\<close>

lemma lamp_uninterrupted:
  "\<exists>w res. run_trigger lamp_job ''b'' None None True (lamp_job_world 9) = (Some (Inr res), w) \<and> jt_start_tick res = 0 \<and> jt_end_tick res = 1"
  by (simp add: job_eval lamp_job_defs cong: p_bind_keep p_catch_keep)

text \<open>Killed after six of them, the tick is committed and recorded, but not completed; the trigger is recovered by another process.\<close>

lemma lamp_interrupted:
  "\<exists>w1 res w2. run_trigger lamp_job ''b'' None None True (lamp_job_world 6) = (None, w1) \<and> tick_of (position_at ''me'' w1) = 1 \<and>
     run_trigger lamp_job ''b'' None None True (w1\<lparr>jw_life := 9\<rparr>) = (Some (Inr res), w2) \<and> jt_start_tick res = 1 \<and> jt_end_tick res = 1"
  by (simp add: job_eval lamp_job_defs cong: p_bind_keep p_catch_keep)

lemma lamp_job_ok: "domain_ok lamp_job"
  by (auto simp: domain_ok_def keeps_return p_return_def new_world_def blank_me)

lemma lamp_job_fresh: "fresh_trigger ''me'' ''b'' 0 (tick_job\<lparr>js_job_id := ''me''\<rparr>) (lamp_job_world n)"
  by (simp add: fresh_trigger_def lamp_job_world_def tick_job_def job_state_def tick_of_def batch_record_def new_persistence_def empty_state_def)

theorem trigger_ticks_exactly_once_witness:
  "\<exists>w1 res w2. run_trigger lamp_job ''b'' None None True (lamp_job_world 6) = (None, w1) \<and>
     run_trigger lamp_job ''b'' None None True (w1\<lparr>jw_life := 9\<rparr>) = (Some (Inr res), w2) \<and>
     tick_of (position_at ''me'' w1) = 1 \<and> tick_of (position_at ''me'' w2) = 1 \<and> jt_completed_ticks res = 1 \<and> jt_end_tick res = 1"
proof -
  obtain w1 res w2 where killed: "run_trigger lamp_job ''b'' None None True (lamp_job_world 6) = (None, w1)" "tick_of (position_at ''me'' w1) = 1"
    and run: "run_trigger lamp_job ''b'' None None True (w1\<lparr>jw_life := 9\<rparr>) = (Some (Inr res), w2)"
    using lamp_interrupted by blast
  have "job_history lamp_job ''b'' None (lamp_job_world 6) w1" by (rule jh_attempt [OF jh_start killed(1)])
  then have "job_history lamp_job ''b'' None (lamp_job_world 6) (w1\<lparr>jw_life := 9\<rparr>)" by (rule jh_other) simp
  from trigger_ticks_exactly_once [OF lamp_job_ok _ _ _ this run, of 0 "tick_job\<lparr>js_job_id := ''me''\<rparr>" 1] lamp_job_fresh killed run
  show ?thesis by auto
qed

section \<open>What the runner does not promise\<close>

text \<open>
  The start tick of a recovered trigger is computed from the tick of the job when it is recovered: if the interruption came
  after the tick was recorded, the result and the completed record name a start that is one tick late, although the same
  trigger without interruption reports the tick it started at.
\<close>

lemma recovered_start_is_late:
  "\<exists>w res w1 res' w2. run_trigger lamp_job ''b'' None None True (lamp_job_world 9) = (Some (Inr res), w) \<and> jt_start_tick res = 0 \<and>
     run_trigger lamp_job ''b'' None None True (lamp_job_world 6) = (None, w1) \<and>
     run_trigger lamp_job ''b'' None None True (w1\<lparr>jw_life := 9\<rparr>) = (Some (Inr res'), w2) \<and> jt_start_tick res' = 1"
  using lamp_uninterrupted lamp_interrupted by blast

text \<open>
  A failed tick has to be recovered before the job is resumed, but a pause hides the failure from that check: resuming is
  refused, pausing first and resuming then makes the job ready, and the next tick overwrites the failed one.
\<close>

definition failed_tick :: "nat simulation_job_state" where
  "failed_tick = tick_job\<lparr>js_job_id := ''me'', js_status := ''failed'', js_phase := ''reconcile'', js_active_trigger_id := Some ''t''\<rparr>"

definition failed_world :: "(nat, unit, unit) job_world" where
  "failed_world = (lamp_job_world 9)\<lparr>jw_persistence := new_persistence\<lparr>pstate := empty_state\<lparr>st_job_states := [(''me'', failed_tick)]\<rparr>\<rparr>\<rparr>"

lemmas failed_eval = job_eval lamp_job_defs failed_tick_def failed_world_def set_status_def pause_def resume_def save_body_def

lemma pause_hides_failure:
  "\<exists>e w1 J1 w2 J2. resume lamp_job failed_world = (Some (Inl e), failed_world) \<and>
     pause lamp_job failed_world = (Some (Inr J1), w1) \<and> resume lamp_job w1 = (Some (Inr J2), w2) \<and>
     js_status J2 = ''ready'' \<and> js_active_trigger_id J2 = Some ''t'' \<and>
     claim_tick_state ''me'' J2 ''u'' None False = Inr (J2\<lparr>js_status := ''running'', js_phase := ''advance'',
       js_active_trigger_id := Some ''u'', js_last_triggered_at := Some 0\<rparr>)"
  by (simp add: failed_eval cong: p_bind_keep p_catch_keep)

text \<open>
  If the delivery to the warehouse fails after the last tick of a trigger has completed, the job is marked as failed. The
  recovery of the trigger finds the tick completed and finishes the batch, but does not reset the status, so that the next
  trigger is refused.
\<close>

definition undelivered :: "(nat, unit, unit) job_world" where
  "undelivered = (lamp_job_world 9)\<lparr>jw_persistence := new_persistence\<lparr>pstate := empty_state\<lparr>st_job_states := [(''me'', tick_job\<lparr>
     js_job_id := ''me'', js_status := ''failed'', js_next_tick := 1, js_run_count := 1, js_last_completed_trigger_id := Some (expected_batch_child ''b'' 0),
     js_active_batch_trigger_id := Some ''b'', js_active_batch_total_ticks := 1, js_last_error := Some ''down''\<rparr>)]\<rparr>\<rparr>\<rparr>"

lemma recovered_trigger_stays_failed:
  "\<exists>res w1 e w2. run_trigger lamp_job ''b'' None None True undelivered = (Some (Inr res), w1) \<and>
     run_trigger lamp_job ''c'' None None True w1 = (Some (Inl e), w2)"
  by (simp add: failed_eval undelivered_def cong: p_bind_keep p_catch_keep)

section \<open>Scheduled occurrences\<close>

text \<open>The number of days before a year.\<close>

definition days_before :: "nat \<Rightarrow> nat" where
  "days_before y = (y - 1) * 365 + (y - 1) div 4 + (y - 1) div 400 - (y - 1) div 100"

lemma days_before_Suc:
  assumes "1 \<le> y"
  shows "days_before (y + 1) = days_before y + sum_list (month_lengths y)"
proof -
  obtain k where y: "y = Suc k" using assms by (cases y) auto
  have len: "sum_list (month_lengths y) = 365 + (if leap_year y then 1 else 0)" by (simp add: month_lengths_def)
  have le: "k div 100 \<le> k * 365" "y div 100 \<le> y * 365" by (auto intro: order_trans [OF div_le_dividend])
  have d4: "y div 4 = k div 4 + (if y mod 4 = 0 then 1 else 0)" and d100: "y div 100 = k div 100 + (if y mod 100 = 0 then 1 else 0)"
    and d400: "y div 400 = k div 400 + (if y mod 400 = 0 then 1 else 0)" by (simp_all add: y div_Suc)
  have m: "y mod 400 = 0 \<longrightarrow> y mod 100 = 0" "y mod 100 = 0 \<longrightarrow> y mod 4 = 0"
    using dvd_trans [of 100 400 y] dvd_trans [of 4 100 y] by (simp_all add: mod_eq_0_iff_dvd)
  have b: "days_before (y + 1) = y * 365 + y div 4 + y div 400 - y div 100" "days_before y = k * 365 + k div 4 + k div 400 - k div 100"
    by (simp_all add: days_before_def y)
  have "leap_year y \<longleftrightarrow> y mod 4 = 0 \<and> (y mod 100 \<noteq> 0 \<or> y mod 400 = 0)" by (simp add: leap_year_def)
  moreover have "y * 365 = k * 365 + 365" by (simp add: y)
  ultimately show ?thesis unfolding b len d4 d100 d400 using m le(1)
    by (cases "y mod 4 = 0"; cases "y mod 100 = 0"; cases "y mod 400 = 0") (simp_all add: ac_simps)
qed

lemma civil_date_year:
  "1 \<le> y \<Longrightarrow> civil_date y n = (y', md) \<Longrightarrow> y \<le> y' \<and> days_before y' \<le> days_before y + n"
proof (induction y n rule: civil_date.induct)
  case (1 y n)
  show ?case
  proof (cases "n < sum_list (month_lengths y)")
    case True
    with 1 show ?thesis by (simp add: civil_date.simps [of y n])
  next
    case False
    with 1 have "y + 1 \<le> y' \<and> days_before y' \<le> days_before (y + 1) + (n - sum_list (month_lengths y))"
      by (simp add: civil_date.simps [of y n])
    with False days_before_Suc [OF 1(2)] show ?thesis by linarith
  qed
qed

lemma days_before_mono: "1 \<le> y \<Longrightarrow> days_before y \<le> days_before (y + k)"
proof (induction k)
  case (Suc k)
  with days_before_Suc [of "y + k"] show ?case by simp
qed simp

lemma month_day_ge: "fst (month_day m ks n) \<ge> m"
  by (induction m ks n rule: month_day.induct) (auto intro: order_trans [rotated])

lemma month_day_inj: "month_day m ks n = month_day m ks n' \<Longrightarrow> n = n'"
proof (induction m ks n arbitrary: n' rule: month_day.induct)
  case (2 m k ks n)
  have ge: "month_day (m + 1) ks i \<noteq> (m, j)" for i j using month_day_ge [of "m + 1" ks i] by auto
  show ?case
  proof (cases "n < k \<or> n' < k")
    case True
    with 2(2) ge show ?thesis by (auto simp: eq_commute [of "(m, _)"] split: if_splits)
  next
    case False
    with 2 have "n - k = n' - k" by simp
    with False show ?thesis by arith
  qed
qed simp

lemma civil_date_inj: "1 \<le> y \<Longrightarrow> civil_date y n = civil_date y n' \<Longrightarrow> n = n'"
proof (induction y n arbitrary: n' rule: civil_date.induct)
  case (1 y n)
  have later: "civil_date (y + 1) i \<noteq> (y, md)" for i md using civil_date_year [of "y + 1" i y md] by auto
  show ?case
  proof (cases "n < sum_list (month_lengths y)"; cases "n' < sum_list (month_lengths y)")
    assume "n < sum_list (month_lengths y)" "n' < sum_list (month_lengths y)"
    with 1(3) show ?thesis by (auto simp: civil_date.simps [of y] dest: month_day_inj)
  next
    assume "n < sum_list (month_lengths y)" "\<not> n' < sum_list (month_lengths y)"
    with 1(3) later show ?thesis by (metis civil_date.simps)
  next
    assume "\<not> n < sum_list (month_lengths y)" "n' < sum_list (month_lengths y)"
    with 1(3) later show ?thesis by (metis civil_date.simps)
  next
    assume ge: "\<not> n < sum_list (month_lengths y)" "\<not> n' < sum_list (month_lengths y)"
    with 1(3) have "civil_date (y + 1) (n - sum_list (month_lengths y)) = civil_date (y + 1) (n' - sum_list (month_lengths y))"
      by (simp add: civil_date.simps [of y])
    from 1(1) [OF ge(1) _ this] ge show ?thesis by simp
  qed
qed

text \<open>The day lies within its month.\<close>

lemma month_day_range:
  "n < sum_list ks \<Longrightarrow> month_day m ks n = (mo, d) \<Longrightarrow> m \<le> mo \<and> mo < m + length ks \<and> 1 \<le> d \<and> d \<le> Max (set ks)"
proof (induction m ks n rule: month_day.induct)
  case (2 m k ks n)
  show ?case
  proof (cases "n < k")
    case True
    with 2 show ?thesis by (auto intro: Max_ge [THEN order_trans [rotated]] simp: Suc_le_eq)
  next
    case False
    with 2 have "m + 1 \<le> mo \<and> mo < m + 1 + length ks \<and> 1 \<le> d \<and> d \<le> Max (set ks)" by auto
    moreover have "ks \<noteq> []" using 2 False by auto
    ultimately show ?thesis by (auto simp: max_def)
  qed
qed simp

lemma civil_date_in_month: "civil_date y n = (y', mo, d) \<Longrightarrow> \<exists>i < sum_list (month_lengths y'). month_day 1 (month_lengths y') i = (mo, d)"
  by (induction y n rule: civil_date.induct) (auto simp: civil_date.simps split: if_splits)

lemma civil_date_ok:
  assumes "n < 3652059" and "civil_date 1 n = (y, mo, d)"
  shows "date_ok y mo d"
proof -
  have "1 \<le> y" and before: "days_before y \<le> n" using civil_date_year [OF _ assms(2)] by (auto simp: days_before_def)
  have "y < 10000"
  proof (rule ccontr)
    assume "\<not> y < 10000"
    then have "days_before 10000 \<le> days_before y" using days_before_mono [of 10000 "y - 10000"] by simp
    with before assms(1) show False by (simp add: days_before_def)
  qed
  obtain i where i: "i < sum_list (month_lengths y)" "month_day 1 (month_lengths y) i = (mo, d)"
    using civil_date_in_month [OF assms(2)] by blast
  have "1 \<le> mo \<and> mo < 13 \<and> 1 \<le> d \<and> d \<le> 31" using month_day_range [OF i] by (auto simp: month_lengths_def split: if_splits)
  with \<open>y < 10000\<close> \<open>1 \<le> y\<close> show ?thesis by (simp add: date_ok_def)
qed

lemma clock_fields: "(a :: nat) = 86400 * (a div 86400) + 3600 * (a div 3600 mod 24) + 60 * (a div 60 mod 60) + a mod 60"
proof -
  have "a div 86400 = a div 3600 div 24" "a div 3600 = a div 60 div 60" by (simp_all add: div_mult2_eq [symmetric])
  then show ?thesis
    using mult_div_mod_eq [of 60 a] mult_div_mod_eq [of 60 "a div 60"] mult_div_mod_eq [of 24 "a div 3600"] by linarith
qed

lemma iso_utc_inj:
  assumes "0 \<le> t" "t \<le> datetime_max" "0 \<le> t'" "t' \<le> datetime_max" and "iso_utc t = iso_utc t'"
  shows "t = t'"
proof -
  let ?u = "nat t" and ?v = "nat t'"
  let ?a = "?u div 1000000" and ?b = "?v div 1000000"
  obtain y mo d where c: "civil_date 1 (?a div 86400) = (y, mo, d)" by (metis prod.exhaust)
  obtain y' mo' d' where c': "civil_date 1 (?b div 86400) = (y', mo', d')" by (metis prod.exhaust)
  have "?a div 86400 < 3652059" "?b div 86400 < 3652059" using assms by (auto simp: datetime_max_def)
  with c c' have ok: "date_ok y mo d" "date_ok y' mo' d'" using civil_date_ok by blast+
  have eq: "iso_date y mo d = iso_date y' mo' d'" "dec_pad 2 (?a div 3600 mod 24) = dec_pad 2 (?b div 3600 mod 24)"
    "dec_pad 2 (?a div 60 mod 60) = dec_pad 2 (?b div 60 mod 60)" "dec_pad 2 (?a mod 60) = dec_pad 2 (?b mod 60)"
    "iso_micros (?u mod 1000000) = iso_micros (?v mod 1000000)"
    using assms(5) c c' by (auto simp: iso_utc_def Let_def iso_date_def)
  have small: "i mod 24 < 10 ^ 2" "i mod 60 < 10 ^ 2" for i :: nat
    by (rule order_less_trans [OF mod_less_divisor], simp_all)+
  have "?a div 86400 = ?b div 86400" using civil_date_inj [of 1] c c' iso_date_inj [OF ok] eq(1) by simp
  moreover have "?a div 3600 mod 24 = ?b div 3600 mod 24" "?a div 60 mod 60 = ?b div 60 mod 60" "?a mod 60 = ?b mod 60"
    using eq(2-4) dec_pad_inj [OF small(1) small(1)] dec_pad_inj [OF small(2) small(2)] by blast+
  ultimately have "?a = ?b" using clock_fields [of ?a] clock_fields [of ?b] by linarith
  moreover have "?u mod 1000000 = ?v mod 1000000" using eq(5) iso_micros_inj by simp
  ultimately have "?u = ?v" by (metis div_mult_mod_eq)
  with assms show ?thesis by simp
qed

text \<open>Two occurrences of a schedule have different triggers, so each of them runs.\<close>

lemma scheduled_triggers_distinct:
  assumes "scheduled_trigger_id j t = Inr i" and "scheduled_trigger_id j t' = Inr i"
    and "0 \<le> t" "t \<le> datetime_max" "0 \<le> t'" "t' \<le> datetime_max"
  shows "t = t'"
  using assms by (intro iso_utc_inj) (auto simp: scheduled_trigger_id_def guards.simps split: if_splits)

end
