(* ===== verification/Diagnostics.thy ===== *)
theory Diagnostics
  imports Memory_Persistence Encoding
begin

text \<open>
  \<open>core/diagnostics.py\<close>: a read-only inspection of the durable state of one owner, over the in-memory persistence. It counts
  the records of every collection and reports references to missing definitions and commands, and failed deliveries.
\<close>

section \<open>The report\<close>

record diagnostic_issue =
  di_code :: string
  di_message :: string

record runtime_counts =
  rc_events :: nat
  rc_scheduled_work :: nat
  rc_scenario_decisions :: nat
  rc_scenario_activations :: nat
  rc_resource_demands :: nat
  rc_resource_reservations :: nat
  rc_resource_release_intents :: nat
  rc_store_items :: nat
  rc_store_put_intents :: nat
  rc_store_get_requests :: nat
  rc_store_get_results :: nat
  rc_container_operation_intents :: nat
  rc_container_operation_results :: nat
  rc_preemptive_resource_demands :: nat
  rc_preemptive_resource_reservations :: nat
  rc_preemptive_resource_release_intents :: nat
  rc_resource_preemption_results :: nat
  rc_sink_deliveries_pending :: nat
  rc_sink_deliveries_failed :: nat

record runtime_diagnostics =
  dg_position :: "simulation_position option"
  dg_counts :: runtime_counts
  dg_issues :: "diagnostic_issue list"

definition healthy :: "runtime_diagnostics \<Rightarrow> bool" where
  "healthy d \<longleftrightarrow> dg_issues d = []"

definition diagnostic :: "string \<Rightarrow> string \<Rightarrow> diagnostic_issue" where
  "diagnostic code message = \<lparr>di_code = code, di_message = message\<rparr>"

text \<open>\<open>repr\<close> of a string, one byte per character.\<close>

definition repr_char :: "char \<Rightarrow> char \<Rightarrow> string" where
  "repr_char q c =
     (let n = of_char c :: nat in
      if c = q \<or> c = CHR 0x5C then [CHR 0x5C, c]
      else if n = 9 then [CHR 0x5C, CHR ''t'']
      else if n = 10 then [CHR 0x5C, CHR ''n'']
      else if n = 13 then [CHR 0x5C, CHR ''r'']
      else if n < 32 \<or> 127 \<le> n \<and> n \<le> 160 \<or> n = 173 then [CHR 0x5C, CHR ''x''] @ hex_pad 2 n
      else [c])"

definition py_repr :: "string \<Rightarrow> string" where
  "py_repr s = (let q = (if CHR 0x27 \<in> set s \<and> CHR 0x22 \<notin> set s then CHR 0x22 else CHR 0x27)
     in [q] @ concat (map (repr_char q) s) @ [q])"

section \<open>Checks\<close>

definition append_missing_reference_issues ::
  "diagnostic_issue list \<Rightarrow> 'r list \<Rightarrow> string set \<Rightarrow> string \<Rightarrow> ('r \<Rightarrow> string) \<Rightarrow> ('r \<Rightarrow> string \<Rightarrow> string) \<Rightarrow> diagnostic_issue list" where
  "append_missing_reference_issues issues records known_references code reference_of message_of =
     issues @ map (\<lambda>r. diagnostic code (message_of r (reference_of r))) (filter (\<lambda>r. reference_of r \<notin> known_references) records)"

definition append_missing_command_issues ::
  "diagnostic_issue list \<Rightarrow> 'v persistence \<Rightarrow> scheduled_work list \<Rightarrow> diagnostic_issue list" where
  "append_missing_command_issues issues p scheduled =
     (let missing = missing_command_ids (map sw_command_id scheduled) p
      in issues @ map (\<lambda>w. diagnostic ''scheduled.command_missing''
           (''scheduled work '' @ sw_work_id w @ '' references missing command '' @ sw_command_id w))
         (filter (\<lambda>w. sw_command_id w \<in> missing) scheduled))"

definition append_resource_reference_issues :: "diagnostic_issue list \<Rightarrow> 'v persistence \<Rightarrow> diagnostic_issue list" where
  "append_resource_reference_issues issues p =
     (let names = rd_name ` set (resource_definitions p);
          issues = append_missing_reference_issues issues (resource_demands p) names ''resource.definition_missing'' dm_resource_name
            (\<lambda>d name. ''resource demand '' @ dm_request_id d @ '' references unknown resource '' @ name);
          issues = append_missing_reference_issues issues (resource_reservations p) names ''resource.definition_missing'' rv_resource_name
            (\<lambda>r name. ''resource reservation '' @ rv_reservation_id r @ '' references unknown resource '' @ name)
      in append_missing_reference_issues issues (resource_release_intents p) names ''resource.definition_missing'' ri_resource_name
            (\<lambda>i name. ''resource release intent '' @ ri_intent_id i @ '' references unknown resource '' @ name))"

definition append_store_reference_issues :: "diagnostic_issue list \<Rightarrow> 'v persistence \<Rightarrow> diagnostic_issue list" where
  "append_store_reference_issues issues p =
     (let names = sd_name ` set (store_definitions p);
          issues = append_missing_reference_issues issues (store_items p) names ''store.definition_missing'' si_store_name
            (\<lambda>i name. ''store item '' @ si_item_id i @ '' references unknown store '' @ name);
          issues = append_missing_reference_issues issues (store_put_intents p) names ''store.definition_missing'' pi_store_name
            (\<lambda>i name. ''store put intent '' @ pi_item_id i @ '' references unknown store '' @ name);
          issues = append_missing_reference_issues issues (store_get_requests p) names ''store.definition_missing'' gq_store_name
            (\<lambda>q name. ''store get request '' @ gq_request_id q @ '' references unknown store '' @ name)
      in append_missing_reference_issues issues (store_get_results p) names ''store.definition_missing'' gr_store_name
            (\<lambda>r name. ''store get result '' @ gr_request_id r @ '' references unknown store '' @ name))"

definition append_container_reference_issues :: "diagnostic_issue list \<Rightarrow> 'v persistence \<Rightarrow> diagnostic_issue list" where
  "append_container_reference_issues issues p =
     (let names = cd_name ` set (container_definitions p);
          issues = append_missing_reference_issues issues (container_states p) names ''container.definition_missing'' cs_name
            (\<lambda>_ name. ''container state '' @ name @ '' has no definition'');
          issues = append_missing_reference_issues issues (container_operation_intents p) names ''container.definition_missing'' ci_container_name
            (\<lambda>i name. ''container intent '' @ ci_request_id i @ '' references unknown container '' @ name)
      in append_missing_reference_issues issues (container_operation_results p) names ''container.definition_missing'' cr_container_name
            (\<lambda>r name. ''container result '' @ cr_request_id r @ '' references unknown container '' @ name))"

definition append_preemptive_reference_issues :: "diagnostic_issue list \<Rightarrow> 'v persistence \<Rightarrow> diagnostic_issue list" where
  "append_preemptive_reference_issues issues p =
     (let names = pd_name ` set (preemptive_resource_definitions p);
          issues = append_missing_reference_issues issues (preemptive_resource_demands p) names ''preemptive.definition_missing'' pq_resource_name
            (\<lambda>d name. ''preemptive demand '' @ pq_request_id d @ '' references unknown resource '' @ name);
          issues = append_missing_reference_issues issues (preemptive_resource_reservations p) names ''preemptive.definition_missing'' pv_resource_name
            (\<lambda>r name. ''preemptive reservation '' @ pv_reservation_id r @ '' references unknown resource '' @ name)
      in append_missing_reference_issues issues (preemptive_resource_release_intents p) names ''preemptive.definition_missing'' px_resource_name
            (\<lambda>i name. ''preemptive release intent '' @ px_intent_id i @ '' references unknown resource '' @ name))"

definition sink_delivery_health :: "'v sink_delivery list \<Rightarrow> 'v sink_delivery list \<times> 'v sink_delivery list" where
  "sink_delivery_health deliveries =
     (let pend = filter (\<lambda>d. sl_status d = ''pending'') deliveries in (pend, filter (\<lambda>d. sl_last_error d \<noteq> None) pend))"

definition sink_issue :: "'v sink_delivery \<Rightarrow> diagnostic_issue" where
  "sink_issue d = diagnostic ''sink.delivery_failed''
     (''sink delivery '' @ sl_delivery_id d @ '' to '' @ py_repr (sl_sink_name d) @ '' failed: '' @ the (sl_last_error d))"

definition owner_work :: "string \<Rightarrow> 'v persistence \<Rightarrow> scheduled_work list" where
  "owner_work owner_id p = filter (\<lambda>w. sw_owner_id w = owner_id) (scheduled_work_of p)"

definition count_records :: "string \<Rightarrow> nat \<Rightarrow> 'v scenario_runtime_state option \<Rightarrow> 'v persistence \<Rightarrow> runtime_counts" where
  "count_records owner_id event_count scenario_state p =
     (case sink_delivery_health (sink_deliveries None None p) of (pend, failed) \<Rightarrow>
       \<lparr>rc_events = event_count, rc_scheduled_work = length (owner_work owner_id p),
        rc_scenario_decisions = (case scenario_state of None \<Rightarrow> 0 | Some s \<Rightarrow> length (ss_decisions s)),
        rc_scenario_activations = (case scenario_state of None \<Rightarrow> 0 | Some s \<Rightarrow> length (ss_activations s)),
        rc_resource_demands = length (resource_demands p), rc_resource_reservations = length (resource_reservations p),
        rc_resource_release_intents = length (resource_release_intents p), rc_store_items = length (store_items p),
        rc_store_put_intents = length (store_put_intents p), rc_store_get_requests = length (store_get_requests p),
        rc_store_get_results = length (store_get_results p),
        rc_container_operation_intents = length (container_operation_intents p),
        rc_container_operation_results = length (container_operation_results p),
        rc_preemptive_resource_demands = length (preemptive_resource_demands p),
        rc_preemptive_resource_reservations = length (preemptive_resource_reservations p),
        rc_preemptive_resource_release_intents = length (preemptive_resource_release_intents p),
        rc_resource_preemption_results = length (resource_preemption_results p),
        rc_sink_deliveries_pending = length pend, rc_sink_deliveries_failed = length failed\<rparr>)"

definition collect_issues :: "string \<Rightarrow> 'v persistence \<Rightarrow> diagnostic_issue list" where
  "collect_issues owner_id p =
     (let issues = append_missing_command_issues [] p (owner_work owner_id p);
          issues = append_resource_reference_issues issues p;
          issues = append_store_reference_issues issues p;
          issues = append_container_reference_issues issues p;
          issues = append_preemptive_reference_issues issues p
      in issues @ map sink_issue (snd (sink_delivery_health (sink_deliveries None None p))))"

text \<open>\<open>collect_runtime_diagnostics\<close>: the in-memory persistence offers snapshots and batch reads.\<close>

definition collect_runtime_diagnostics :: "string \<Rightarrow> 'v persistence \<Rightarrow> runtime_diagnostics res" where
  "collect_runtime_diagnostics owner_id p =
     (if blank owner_id then Inl (ValueError ''owner_id must not be empty'')
      else let p = read_view (pstate p) in
        bind_res (count_events owner_id p) (\<lambda>event_count.
        bind_res (scenario_state_of owner_id p) (\<lambda>scenario_state.
        bind_res (simulation_position_of owner_id p) (\<lambda>position.
          Inr \<lparr>dg_position = position, dg_counts = count_records owner_id event_count scenario_state p,
               dg_issues = collect_issues owner_id p\<rparr>))))"

section \<open>What a report means\<close>

lemma pstate_read_view [simp]: "pstate (read_view s) = s"
  by (simp add: read_view_def)

lemma read_view_reads:
  "owner_work owner_id (read_view (pstate p)) = owner_work owner_id p"
  "collect_issues owner_id (read_view (pstate p)) = collect_issues owner_id p"
  "count_records owner_id n s (read_view (pstate p)) = count_records owner_id n s p"
  by (simp_all add: owner_work_def scheduled_work_of_def read_view_def collect_issues_def count_records_def
      append_missing_command_issues_def missing_command_ids_def append_resource_reference_issues_def
      append_store_reference_issues_def append_container_reference_issues_def append_preemptive_reference_issues_def
      resource_definitions_def resource_demands_def resource_reservations_def resource_release_intents_def
      store_definitions_def store_items_def store_put_intents_def store_get_requests_def store_get_results_def
      container_definitions_def container_states_def container_operation_intents_def container_operation_results_def
      preemptive_resource_definitions_def preemptive_resource_demands_def preemptive_resource_reservations_def
      preemptive_resource_release_intents_def resource_preemption_results_def sink_deliveries_def)

lemma known_name: "keyed f defs \<Longrightarrow> map_of defs k \<noteq> None \<Longrightarrow> k \<in> f ` set (dvalues defs)"
  by (force dest: keyed_lookup map_of_SomeD)

lemma reference_known:
  assumes "keyed f defs" and "keyed h d" and "\<And>k r. map_of d k = Some r \<Longrightarrow> map_of defs (g r) \<noteq> None" and "r \<in> set (dvalues d)"
  shows "g r \<in> f ` set (dvalues defs)"
proof -
  have "map_of d (h r) = Some r" using keyed_mem_iff [OF assms(2), of r] assms(4) by simp
  with assms(3) show ?thesis by (intro known_name [OF assms(1)]) blast
qed

lemma no_missing_references:
  "(\<And>r. r \<in> set records \<Longrightarrow> reference_of r \<in> known) \<Longrightarrow>
     append_missing_reference_issues issues records known code reference_of message_of = issues"
  by (simp add: append_missing_reference_issues_def filter_empty_conv)

text \<open>In a well-formed state only release intents can refer to missing definitions.\<close>

lemma wf_references:
  assumes "state_wf (pstate p)"
  shows "append_resource_reference_issues issues p =
      append_missing_reference_issues issues (resource_release_intents p) (rd_name ` set (resource_definitions p))
        ''resource.definition_missing'' ri_resource_name
        (\<lambda>i name. ''resource release intent '' @ ri_intent_id i @ '' references unknown resource '' @ name)"
    and "append_store_reference_issues issues p = issues"
    and "append_container_reference_issues issues p = issues"
    and "append_preemptive_reference_issues issues p =
      append_missing_reference_issues issues (preemptive_resource_release_intents p) (pd_name ` set (preemptive_resource_definitions p))
        ''preemptive.definition_missing'' px_resource_name
        (\<lambda>i name. ''preemptive release intent '' @ px_intent_id i @ '' references unknown resource '' @ name)"
proof -
  let ?s = "pstate p"
  note wf = assms [unfolded state_wf_def]
  from wf have ids: "ids_wf ?s" by blast
  note k = ids [unfolded ids_wf_def]
  have kr: "keyed rd_name (st_resource_definitions ?s)" and ks: "keyed sd_name (st_store_definitions ?s)"
    and kc: "keyed cd_name (st_container_definitions ?s)" and kp: "keyed pd_name (st_preemptive_resource_definitions ?s)"
    using k by simp_all
  have res: "a \<in> set (resource_demands p) \<Longrightarrow> dm_resource_name a \<in> rd_name ` set (resource_definitions p)"
    "b \<in> set (resource_reservations p) \<Longrightarrow> rv_resource_name b \<in> rd_name ` set (resource_definitions p)" for a b
    using wf k reference_known [OF kr, of dm_request_id "st_resource_demands ?s" dm_resource_name a]
      reference_known [OF kr, of rv_reservation_id "st_resource_reservations ?s" rv_resource_name b]
    unfolding resources_wf_def resource_demands_def resource_reservations_def resource_definitions_def set_by_key set_sort by blast+
  have sto: "a \<in> set (store_items p) \<Longrightarrow> si_store_name a \<in> sd_name ` set (store_definitions p)"
    "b \<in> set (store_put_intents p) \<Longrightarrow> pi_store_name b \<in> sd_name ` set (store_definitions p)"
    "c \<in> set (store_get_requests p) \<Longrightarrow> gq_store_name c \<in> sd_name ` set (store_definitions p)"
    "d \<in> set (store_get_results p) \<Longrightarrow> gr_store_name d \<in> sd_name ` set (store_definitions p)" for a b c d
    using wf k reference_known [OF ks, of si_item_id "st_store_items ?s" si_store_name a]
      reference_known [OF ks, of pi_item_id "st_store_put_intents ?s" pi_store_name b]
      reference_known [OF ks, of gq_request_id "st_store_get_requests ?s" gq_store_name c]
      reference_known [OF ks, of gr_request_id "st_store_get_results ?s" gr_store_name d]
    unfolding stores_wf_def store_items_def store_put_intents_def store_get_requests_def store_get_results_def store_definitions_def set_by_key set_sort by blast+
  have state_name: "map_of (st_container_states ?s) i = Some x \<Longrightarrow> map_of (st_container_definitions ?s) (cs_name x) \<noteq> None" for i x
    using keyed_lookup [of cs_name "st_container_states ?s" i x] k wf unfolding containers_wf_def by fastforce
  have con: "a \<in> set (container_states p) \<Longrightarrow> cs_name a \<in> cd_name ` set (container_definitions p)"
    "b \<in> set (container_operation_intents p) \<Longrightarrow> ci_container_name b \<in> cd_name ` set (container_definitions p)"
    "c \<in> set (container_operation_results p) \<Longrightarrow> cr_container_name c \<in> cd_name ` set (container_definitions p)" for a b c
    using wf k state_name reference_known [OF kc, of cs_name "st_container_states ?s" cs_name a]
      reference_known [OF kc, of ci_request_id "st_container_operation_intents ?s" ci_container_name b]
      reference_known [OF kc, of cr_request_id "st_container_operation_results ?s" cr_container_name c]
    unfolding containers_wf_def container_states_def container_operation_intents_def container_operation_results_def container_definitions_def set_by_key set_sort by blast+
  have pre: "a \<in> set (preemptive_resource_demands p) \<Longrightarrow> pq_resource_name a \<in> pd_name ` set (preemptive_resource_definitions p)"
    "b \<in> set (preemptive_resource_reservations p) \<Longrightarrow> pv_resource_name b \<in> pd_name ` set (preemptive_resource_definitions p)" for a b
    using wf k reference_known [OF kp, of pq_request_id "st_preemptive_resource_demands ?s" pq_resource_name a]
      reference_known [OF kp, of pv_reservation_id "st_preemptive_resource_reservations ?s" pv_resource_name b]
    unfolding preemptive_wf_def preemptive_resource_demands_def preemptive_resource_reservations_def preemptive_resource_definitions_def set_by_key set_sort by blast+
  show "append_resource_reference_issues issues p =
      append_missing_reference_issues issues (resource_release_intents p) (rd_name ` set (resource_definitions p))
        ''resource.definition_missing'' ri_resource_name
        (\<lambda>i name. ''resource release intent '' @ ri_intent_id i @ '' references unknown resource '' @ name)"
    by (simp add: append_resource_reference_issues_def no_missing_references res)
  show "append_store_reference_issues issues p = issues"
    by (simp add: append_store_reference_issues_def no_missing_references sto)
  show "append_container_reference_issues issues p = issues"
    by (simp add: append_container_reference_issues_def no_missing_references con)
  show "append_preemptive_reference_issues issues p =
      append_missing_reference_issues issues (preemptive_resource_release_intents p) (pd_name ` set (preemptive_resource_definitions p))
        ''preemptive.definition_missing'' px_resource_name
        (\<lambda>i name. ''preemptive release intent '' @ px_intent_id i @ '' references unknown resource '' @ name)"
    by (simp add: append_preemptive_reference_issues_def no_missing_references pre)
qed

lemma missing_command_iff:
  "w \<in> set ws \<Longrightarrow> sw_command_id w \<in> missing_command_ids (map sw_command_id ws) p \<longleftrightarrow> command_of (sw_command_id w) p = None"
  by (auto simp: missing_command_ids_def command_of_def map_of_eq_None_iff)

lemma collect_ok:
  assumes "\<not> blank owner_id"
  shows "\<exists>d. collect_runtime_diagnostics owner_id p = Inr d \<and> dg_issues d = collect_issues owner_id p \<and>
    dg_position d = map_of (st_simulation_positions (pstate p)) owner_id \<and>
    rc_scheduled_work (dg_counts d) = length (owner_work owner_id p) \<and>
    rc_events (dg_counts d) = length (filter (\<lambda>e. ev_owner_id e = Some owner_id) (events p)) \<and>
    rc_sink_deliveries_failed (dg_counts d) =
      length (filter (\<lambda>d. sl_status d = ''pending'' \<and> sl_last_error d \<noteq> None) (sink_deliveries None None p))"
proof -
  have "collect_runtime_diagnostics owner_id p = Inr \<lparr>dg_position = map_of (st_simulation_positions (pstate p)) owner_id,
      dg_counts = count_records owner_id (length (filter (\<lambda>e. ev_owner_id e = Some owner_id) (events p)))
        (map_of (st_scenario_states (pstate p)) owner_id) p, dg_issues = collect_issues owner_id p\<rparr>"
    using assms unfolding collect_runtime_diagnostics_def Let_def
    by (simp add: count_events_def scenario_state_of_def simulation_position_of_def guards.simps events_def read_view_reads)
  then show ?thesis by (simp add: count_records_def sink_delivery_health_def Let_def)
qed



end
