(* ===== verification/Transition_Graph.thy ===== *)
theory Transition_Graph
  imports Simulation_Engine Diagnostics
begin

text \<open>
  \<open>probability/\<close> and \<open>statecharts/topology.py\<close>: which event of a statechart happens next. The topology of a chart becomes a
  graph of edges; the events enabled in a configuration are weighted by a policy and by the active scenarios, normalised in
  double arithmetic and sampled with a draw that is a function of seed, tick, entity and configuration.

  Parameters: a statechart (python-statemachine) is what the code reads of it, a \<open>chart_view\<close>; a weight function is a function
  of the evaluation; \<open>random_draw seed\<close> is the first \<open>random()\<close> of \<open>random.Random(seed)\<close>.
\<close>

section \<open>The model\<close>

text \<open>\<open>StateConfiguration\<close>: the sorted, distinct active states.\<close>

type_synonym state_configuration = "string list"

definition mk_state_configuration :: "string list \<Rightarrow> state_configuration res" where
  "mk_state_configuration states =
     (let normalized = sort (remdups states)
      in guards [(normalized = [], ValueError ''state configuration cannot be empty'')] normalized)"

record transition_edge =
  te_edge_id :: string
  te_source :: string
  te_targets :: "string list"
  te_event :: "string option"
  te_metadata :: "(string \<times> pyval) list"

definition mk_transition_edge :: "transition_edge \<Rightarrow> transition_edge res" where
  "mk_transition_edge edge = guards
     [(te_edge_id edge = [], ValueError ''edge_id cannot be empty''),
      (te_source edge = [], ValueError ''edge source cannot be empty'')] edge"

definition available_from :: "transition_edge \<Rightarrow> state_configuration \<Rightarrow> bool" where
  "available_from edge configuration \<longleftrightarrow> te_source edge \<in> set configuration"

record transition_option =
  to_event :: string
  to_weight :: pyfloat
  to_probability :: pyfloat
  to_edges :: "transition_edge list"

record transition_decision =
  td_event :: string
  td_weight :: pyfloat
  td_probability :: pyfloat
  td_draw :: pyfloat
  td_configuration :: state_configuration
  td_edges :: "transition_edge list"

section \<open>Policies\<close>

record ('v, 'x) transition_evaluation =
  ev_of_event :: string
  ev_of_configuration :: state_configuration
  ev_of_edges :: "transition_edge list"
  ev_of_entity :: "'v entity"
  ev_of_context :: 'x

text \<open>
  \<open>WeightSpec\<close>: a number (after \<open>float\<close>), an object with a \<open>weight\<close> method or a function, or anything else, by its \<open>repr\<close>.
\<close>

datatype ('v, 'x) weight_spec =
    NumberWeight pyfloat
  | ComputedWeight "('v, 'x) transition_evaluation \<Rightarrow> pyfloat res"
  | OtherWeight string

record ('v, 'x) transition_policy =
  tp_weights :: "(string \<times> ('v, 'x) weight_spec) list"
  tp_default_weight :: "('v, 'x) weight_spec"
  tp_strict :: bool
  tp_excluded_events :: "string set"

definition default_policy :: "('v, 'x) transition_policy" where
  "default_policy = \<lparr>tp_weights = [], tp_default_weight = NumberWeight (Fin 1), tp_strict = False, tp_excluded_events = {}\<rparr>"

definition is_probabilistically_eligible :: "('v, 'x) transition_policy \<Rightarrow> string \<Rightarrow> bool" where
  "is_probabilistically_eligible policy event \<longleftrightarrow> event \<notin> tp_excluded_events policy"

fun resolve_weight :: "('v, 'x) weight_spec \<Rightarrow> ('v, 'x) transition_evaluation \<Rightarrow> pyfloat res" where
  "resolve_weight (NumberWeight x) evaluation = Inr x"
| "resolve_weight (ComputedWeight f) evaluation = f evaluation"
| "resolve_weight (OtherWeight r) evaluation = Inl (TypeError (''unsupported transition weight: '' @ r))"

definition weight_for :: "('v, 'x) transition_policy \<Rightarrow> ('v, 'x) transition_evaluation \<Rightarrow> pyfloat res" where
  "weight_for policy evaluation =
     (let spec = dget (tp_weights policy) (ev_of_event evaluation) in
      if tp_strict policy \<and> spec = None
      then Inl (KeyError (''no transition weight configured for event: '' @ ev_of_event evaluation))
      else resolve_weight (case spec of None \<Rightarrow> tp_default_weight policy | Some s \<Rightarrow> s) evaluation)"

section \<open>The graph\<close>

definition mk_transition_graph :: "transition_edge list \<Rightarrow> transition_edge list res" where
  "mk_transition_graph edges = guards
     [(edges = [], ValueError ''probabilistic transition graph needs at least one edge''),
      (\<not> distinct (map te_edge_id edges), ValueError ''transition edge ids must be unique'')] edges"

definition outgoing :: "transition_edge list \<Rightarrow> state_configuration \<Rightarrow> transition_edge list" where
  "outgoing graph configuration = filter (\<lambda>e. available_from e configuration) graph"

text \<open>\<open>event_edges\<close>: a dict from events to their edges; \<open>None\<close> as enabled events leaves the topology alone.\<close>

definition group_edge ::
  "string list option \<Rightarrow> transition_edge \<Rightarrow> (string \<times> transition_edge list) list \<Rightarrow> (string \<times> transition_edge list) list" where
  "group_edge enabled e grouped = (case te_event e of
       None \<Rightarrow> grouped
     | Some event \<Rightarrow>
         if (case enabled of None \<Rightarrow> False | Some allowed \<Rightarrow> event \<notin> set allowed) then grouped
         else dset event ((case dget grouped event of None \<Rightarrow> [] | Some es \<Rightarrow> es) @ [e]) grouped)"

definition event_edges ::
  "transition_edge list \<Rightarrow> state_configuration \<Rightarrow> string list option \<Rightarrow> (string \<times> transition_edge list) list" where
  "event_edges graph configuration enabled =
     fold (group_edge enabled) (outgoing graph configuration) []"

text \<open>
  \<open>sum\<close> of floats (since Python 3.12 with Neumaier's compensation), \<open>fabs\<close> and \<open>/\<close> by a positive total.
\<close>

fun float_abs :: "pyfloat \<Rightarrow> pyfloat" where
  "float_abs (Fin a) = Fin \<bar>a\<bar>"
| "float_abs NaN = NaN"
| "float_abs _ = PInf"

fun neumaier :: "pyfloat \<Rightarrow> pyfloat \<Rightarrow> pyfloat list \<Rightarrow> pyfloat" where
  "neumaier result c [] = (if c \<noteq> Fin 0 \<and> isfinite c then float_add result c else result)"
| "neumaier result c (x # xs) =
     (let t = float_add result x;
          c = float_add c (if float_le (float_abs x) (float_abs result) then float_add (float_sub result t) x
                           else float_add (float_sub x t) result)
      in neumaier t c xs)"

fun py_sum :: "pyfloat list \<Rightarrow> pyfloat" where
  "py_sum [] = Fin 0"
| "py_sum (x # xs) = neumaier x (Fin 0) xs"

fun float_div :: "pyfloat \<Rightarrow> pyfloat \<Rightarrow> pyfloat" where
  "float_div (Fin a) (Fin b) = round_double (a / b)"
| "float_div (Fin a) PInf = Fin 0"
| "float_div (Fin a) NInf = Fin 0"
| "float_div _ _ = NaN"

text \<open>The weight of one event, checked; and the loop over the sorted events.\<close>

definition event_weight ::
  "('v, 'x) transition_policy \<Rightarrow> (('v, 'x) transition_evaluation \<Rightarrow> pyfloat \<Rightarrow> pyfloat) option \<Rightarrow>
     ('v, 'x) transition_evaluation \<Rightarrow> pyfloat res" where
  "event_weight policy weight_transform evaluation =
     bind_res (weight_for policy evaluation) (\<lambda>weight.
     let weight = (case weight_transform of None \<Rightarrow> weight | Some f \<Rightarrow> f evaluation weight);
         name = py_repr (ev_of_event evaluation)
     in guards
       [(\<not> isfinite weight, ValueError (''transition weight for '' @ name @ '' must be finite'')),
        (float_lt weight (Fin 0), ValueError (''transition weight for '' @ name @ '' cannot be negative''))] weight)"

fun weighted_events ::
  "('v, 'x) transition_policy \<Rightarrow> (('v, 'x) transition_evaluation \<Rightarrow> pyfloat \<Rightarrow> pyfloat) option \<Rightarrow>
     ((string \<times> transition_edge list) \<Rightarrow> ('v, 'x) transition_evaluation) \<Rightarrow> (string \<times> transition_edge list) list \<Rightarrow>
     (string \<times> pyfloat \<times> transition_edge list) list res" where
  "weighted_events policy weight_transform evaluation [] = Inr []"
| "weighted_events policy weight_transform evaluation (g # gs) =
     (if \<not> is_probabilistically_eligible policy (fst g) then weighted_events policy weight_transform evaluation gs
      else
        bind_res (event_weight policy weight_transform (evaluation g)) (\<lambda>weight.
        bind_res (weighted_events policy weight_transform evaluation gs) (\<lambda>rest.
          Inr (if float_lt (Fin 0) weight then (fst g, weight, snd g) # rest else rest))))"

text \<open>\<open>repr\<close> of a tuple of strings, as \<open>StateConfiguration.states\<close> appears in the message.\<close>

definition repr_tuple :: "string list \<Rightarrow> string" where
  "repr_tuple xs = ''('' @ (case xs of [x] \<Rightarrow> py_repr x @ '','' | [] \<Rightarrow> []
     | x # ys \<Rightarrow> py_repr x @ concat (map (\<lambda>y. '', '' @ py_repr y) ys)) @ '')''"

definition transition_distribution ::
  "transition_edge list \<Rightarrow> state_configuration \<Rightarrow> ('v, 'x) transition_policy \<Rightarrow> 'v entity \<Rightarrow> 'x \<Rightarrow> string list option \<Rightarrow>
     (('v, 'x) transition_evaluation \<Rightarrow> pyfloat \<Rightarrow> pyfloat) option \<Rightarrow> transition_option list res" where
  "transition_distribution graph configuration policy entity ctx enabled weight_transform =
     bind_res (weighted_events policy weight_transform
         (\<lambda>(event, edges). \<lparr>ev_of_event = event, ev_of_configuration = configuration, ev_of_edges = edges,
            ev_of_entity = entity, ev_of_context = ctx\<rparr>)
         (sort_key fst (event_edges graph configuration enabled))) (\<lambda>weighted.
     let total = py_sum (map (fst \<circ> snd) weighted)
     in guards [(float_le total (Fin 0),
           NoProbabilisticTransition (''no positive-weight enabled transition from '' @ repr_tuple configuration))]
         (map (\<lambda>(event, weight, edges). \<lparr>to_event = event, to_weight = weight, to_probability = float_div weight total,
            to_edges = edges\<rparr>) weighted))"

text \<open>The loop of \<open>sample\<close>: the first option whose cumulated probability exceeds the draw, else the last one.\<close>

fun select_option :: "pyfloat \<Rightarrow> pyfloat \<Rightarrow> transition_option \<Rightarrow> transition_option list \<Rightarrow> transition_option" where
  "select_option draw cumulative selected [] = selected"
| "select_option draw cumulative selected (x # xs) =
     (let cumulative = float_add cumulative (to_probability x)
      in if float_lt draw cumulative then x else select_option draw cumulative selected xs)"

definition sample_transition ::
  "transition_option list \<Rightarrow> pyfloat \<Rightarrow> state_configuration \<Rightarrow> transition_decision res" where
  "sample_transition distribution draw configuration =
     (if distribution = [] then Inl (NoProbabilisticTransition ''cannot sample an empty distribution'')
      else let selected = select_option draw (Fin 0) (last distribution) distribution
           in Inr \<lparr>td_event = to_event selected, td_weight = to_weight selected, td_probability = to_probability selected,
                td_draw = draw, td_configuration = configuration, td_edges = to_edges selected\<rparr>)"

section \<open>Charts\<close>

text \<open>The statechart model the code reads: transitions and the class of a chart are Python objects, told apart by identity.\<close>

record chart_transition =
  xt_identity :: nat
  xt_source :: string
  xt_targets :: "string list"
  xt_events :: "string list"
  xt_internal :: bool
  xt_initial :: bool

datatype chart_state = ChartState (chs_id: string) (chs_transitions: "chart_transition list") (chs_children: "chart_state list")

record ('v, 'x) chart_view =
  cv_type :: nat
  cv_type_name :: string
  cv_states :: "chart_state list"
  cv_configuration_values :: "string list option"
  cv_current_state_value :: "string option"
  cv_enabled_events :: "('v attrs \<Rightarrow> string list res) option"
  cv_policy :: "('v, 'x) transition_policy option"

primrec walk_state :: "chart_state \<Rightarrow> chart_state list" where
  "walk_state (ChartState i ts children) = ChartState i ts children # concat (map walk_state children)"

definition walk_states :: "chart_state list \<Rightarrow> chart_state list" where
  "walk_states states = concat (map walk_state states)"

definition edge_id_of :: "digest \<Rightarrow> string \<Rightarrow> string \<Rightarrow> string option \<Rightarrow> string list \<Rightarrow> int \<Rightarrow> string res" where
  "edge_id_of uuid5 chart_name source event targets ordinal =
     deterministic_id uuid5 ''transition-edge'' ([PStr chart_name, PStr source,
       PStr (case event of None \<Rightarrow> ''<eventless>'' | Some e \<Rightarrow> if e = [] then ''<eventless>'' else e)] @ map PStr targets @ [PInt ordinal])"

definition chart_edge :: "digest \<Rightarrow> string \<Rightarrow> chart_transition \<Rightarrow> string option \<Rightarrow> int \<Rightarrow> transition_edge res" where
  "chart_edge uuid5 chart_name t event ordinal =
     bind_res (edge_id_of uuid5 chart_name (xt_source t) event (xt_targets t) ordinal) (\<lambda>edge_id.
     mk_transition_edge \<lparr>te_edge_id = edge_id, te_source = xt_source t, te_targets = xt_targets t, te_event = event,
       te_metadata = [(''internal'', PBool (xt_internal t)), (''initial'', PBool (xt_initial t))]\<rparr>)"

text \<open>The loops of \<open>graph_from_statechart\<close>, with the edges so far, the transitions seen and the ordinal.\<close>

fun event_loop :: "digest \<Rightarrow> string \<Rightarrow> chart_transition \<Rightarrow> string option list \<Rightarrow> transition_edge list \<times> int \<Rightarrow> (transition_edge list \<times> int) res" where
  "event_loop uuid5 chart_name t [] acc = Inr acc"
| "event_loop uuid5 chart_name t (event # rest) (edges, ordinal) =
     bind_res (chart_edge uuid5 chart_name t event ordinal) (\<lambda>edge.
       event_loop uuid5 chart_name t rest (edges @ [edge], ordinal + 1))"

fun transition_loop ::
  "digest \<Rightarrow> string \<Rightarrow> chart_transition list \<Rightarrow> nat set \<Rightarrow> transition_edge list \<times> int \<Rightarrow> (transition_edge list \<times> int) res" where
  "transition_loop uuid5 chart_name [] seen acc = Inr acc"
| "transition_loop uuid5 chart_name (t # ts) seen acc =
     (if xt_identity t \<in> seen then transition_loop uuid5 chart_name ts seen acc
      else bind_res (event_loop uuid5 chart_name t (if xt_events t = [] then [None] else map Some (xt_events t)) acc)
        (transition_loop uuid5 chart_name ts (insert (xt_identity t) seen)))"

definition graph_from_statechart :: "digest \<Rightarrow> ('v, 'x) chart_view \<Rightarrow> transition_edge list res" where
  "graph_from_statechart uuid5 chart =
     bind_res (transition_loop uuid5 (cv_type_name chart) (concat (map chs_transitions (walk_states (cv_states chart)))) {} ([], 0))
       (\<lambda>(edges, _). bind_res (guards [(edges = [], ValueError ''statechart exposes no transitions'')] ()) (\<lambda>_.
          mk_transition_graph edges))"

definition policy_from_statechart :: "('v, 'x) chart_view \<Rightarrow> ('v, 'x) transition_policy" where
  "policy_from_statechart chart = (case cv_policy chart of None \<Rightarrow> default_policy | Some policy \<Rightarrow> policy)"

text \<open>\<open>TransitionGraphBuilder.edge\<close> on the edges collected so far.\<close>

definition builder_edge ::
  "digest \<Rightarrow> string \<Rightarrow> transition_edge list \<Rightarrow> string \<Rightarrow> string option \<Rightarrow> string list \<Rightarrow> string option \<Rightarrow> (string \<times> pyval) list \<Rightarrow>
     transition_edge list res" where
  "builder_edge uuid5 name edges source event targets edge_id metadata =
     bind_res (if edge_id = None \<or> edge_id = Some [] then edge_id_of uuid5 name source event targets (int (length edges))
         else Inr (the edge_id)) (\<lambda>resolved.
     bind_res (mk_transition_edge \<lparr>te_edge_id = resolved, te_source = source, te_targets = targets, te_event = event, te_metadata = metadata\<rparr>)
       (\<lambda>edge. Inr (edges @ [edge])))"

section \<open>Decisions\<close>

definition configuration_values :: "('v, 'x) chart_view \<Rightarrow> string list res" where
  "configuration_values chart = (case cv_configuration_values chart of
     Some states \<Rightarrow> Inr states
   | None \<Rightarrow> (case cv_current_state_value chart of
         Some current \<Rightarrow> Inr [current]
       | None \<Rightarrow> Inl (TypeError ''chart must expose configuration_values or current_state_value'')))"

definition enabled_events :: "('v, 'x) chart_view \<Rightarrow> 'v attrs \<Rightarrow> string list option res" where
  "enabled_events chart kwargs = (case cv_enabled_events chart of
     None \<Rightarrow> Inr None
   | Some f \<Rightarrow> bind_res (f kwargs) (\<lambda>es. Inr (Some es)))"

record random_env =
  rn_blake2b :: "string \<Rightarrow> 64 word"
  rn_random_draw :: "64 word \<Rightarrow> pyfloat"
  rn_root_seed :: int

definition decide_transition ::
  "random_env \<Rightarrow> int \<Rightarrow> ('v, 'x) chart_view \<Rightarrow> transition_edge list \<Rightarrow> ('v, 'x) transition_policy \<Rightarrow> 'v entity \<Rightarrow> 'x \<Rightarrow>
     (('v, 'x) transition_evaluation \<Rightarrow> pyfloat \<Rightarrow> pyfloat) option \<Rightarrow> 'v attrs \<Rightarrow> pyval list \<Rightarrow> transition_decision res" where
  "decide_transition env tick chart graph policy entity ctx weight_transform guard_kwargs scope =
     bind_res (configuration_values chart) (\<lambda>states.
     bind_res (mk_state_configuration states) (\<lambda>configuration.
     bind_res (enabled_events chart guard_kwargs) (\<lambda>enabled.
     bind_res (transition_distribution graph configuration policy entity ctx enabled weight_transform) (\<lambda>distribution.
     bind_res (scoped_seed (rn_blake2b env) (rn_root_seed env)
         ([PStr ''transition'', PInt tick, PStr (en_entity_type entity), PStr (en_id entity)] @ map PStr configuration @ scope)) (\<lambda>seed.
     sample_transition distribution (rn_random_draw env seed) configuration)))))"

section \<open>The events that can happen\<close>

definition event_allowed :: "string list option \<Rightarrow> string \<Rightarrow> bool" where
  "event_allowed enabled event \<longleftrightarrow> (case enabled of None \<Rightarrow> True | Some allowed \<Rightarrow> event \<in> set allowed)"

lemma group_edges:
  fixes grouped :: "(string \<times> transition_edge list) list"
  assumes "grouped = fold (group_edge enabled) edges []"
  shows "distinct (map fst grouped) \<and> (\<forall>event. dget grouped event =
    (let es = filter (\<lambda>e. te_event e = Some event) edges in if es = [] \<or> \<not> event_allowed enabled event then None else Some es))"
  using assms
proof (induction edges arbitrary: grouped rule: rev_induct)
  case (snoc e edges)
  define before where "before = fold (group_edge enabled) edges []"
  note IH = snoc.IH [OF before_def]
  have step: "grouped = group_edge enabled e before" using snoc.prems by (simp add: before_def)
  show ?case
  proof (cases "te_event e")
    case None
    with step IH show ?thesis by (simp add: group_edge_def)
  next
    case (Some event)
    show ?thesis
    proof (cases "event_allowed enabled event")
      case False
      then have "grouped = before" using step Some by (auto simp: group_edge_def event_allowed_def split: option.splits)
      with IH False Some show ?thesis by (auto simp: Let_def)
    next
      case True
      then have "grouped = dset event ((case dget before event of None \<Rightarrow> [] | Some es \<Rightarrow> es) @ [e]) before"
        using step Some by (auto simp: group_edge_def event_allowed_def split: option.splits)
      with IH True Some show ?thesis by (auto simp: Let_def distinct_update)
    qed
  qed
qed (simp add: Let_def)

lemma event_edges_mem:
  assumes "(event, es) \<in> set (event_edges graph configuration enabled)"
  shows "es = filter (\<lambda>e. te_event e = Some event) (outgoing graph configuration) \<and> es \<noteq> [] \<and> event_allowed enabled event"
proof -
  note G = group_edges [OF event_edges_def [of graph configuration enabled]]
  have "dget (event_edges graph configuration enabled) event = Some es"
    using map_of_is_SomeI [OF conjunct1 [OF G] assms] .
  with G show ?thesis by (auto simp: Let_def split: if_splits)
qed

lemma event_weight_ok:
  "event_weight policy f evaluation = Inr w \<Longrightarrow> isfinite w \<and> \<not> float_lt w (Fin 0) \<and>
     (\<exists>b. weight_for policy evaluation = Inr b \<and> w = (case f of None \<Rightarrow> b | Some g \<Rightarrow> g evaluation b))"
  by (auto simp: event_weight_def Let_def guards.simps split: if_splits option.splits)

lemma weighted_events_mem:
  assumes "weighted_events policy f evaluation gs = Inr ws" and "(event, w, es) \<in> set ws"
  shows "(event, es) \<in> set gs \<and> is_probabilistically_eligible policy event \<and> float_lt (Fin 0) w \<and>
    event_weight policy f (evaluation (event, es)) = Inr w"
  using assms
proof (induction gs arbitrary: ws)
  case (Cons g gs)
  show ?case
  proof (cases "is_probabilistically_eligible policy (fst g)")
    case False
    with Cons show ?thesis by auto
  next
    case True
    with Cons.prems(1) obtain v rest where v: "event_weight policy f (evaluation g) = Inr v"
      and rest: "weighted_events policy f evaluation gs = Inr rest"
      and ws: "ws = (if float_lt (Fin 0) v then (fst g, v, snd g) # rest else rest)" by auto
    from Cons.prems(2) ws consider "(event, w, es) = (fst g, v, snd g)" "float_lt (Fin 0) v" | "(event, w, es) \<in> set rest"
      by (auto split: if_splits)
    then show ?thesis
    proof cases
      case 1
      then have "g = (event, es)" by (cases g) auto
      with 1 True v show ?thesis by auto
    qed (use Cons.IH [OF rest] in auto)
  qed
qed simp

lemma select_option_mem: "select_option draw c selected xs \<in> insert selected (set xs)"
  by (induction xs arbitrary: c) (auto simp: Let_def)

text \<open>The probability cumulated over the first options, added up in order.\<close>

definition cumulated :: "transition_option list \<Rightarrow> nat \<Rightarrow> pyfloat" where
  "cumulated xs k = fold (\<lambda>x acc. float_add acc (to_probability x)) (take k xs) (Fin 0)"

lemma select_option_quantile:
  "(\<exists>k < length xs. select_option draw c selected xs = xs ! k \<and>
       float_lt draw (fold (\<lambda>x acc. float_add acc (to_probability x)) (take (Suc k) xs) c) \<and>
       (\<forall>i < k. \<not> float_lt draw (fold (\<lambda>x acc. float_add acc (to_probability x)) (take (Suc i) xs) c))) \<or>
   select_option draw c selected xs = selected \<and>
     (\<forall>i < length xs. \<not> float_lt draw (fold (\<lambda>x acc. float_add acc (to_probability x)) (take (Suc i) xs) c))"
proof (induction xs arbitrary: c)
  case (Cons x xs)
  let ?c = "float_add c (to_probability x)"
  show ?case
  proof (cases "float_lt draw ?c")
    case True
    then show ?thesis by (auto simp: Let_def)
  next
    case False
    then have sel: "select_option draw c selected (x # xs) = select_option draw ?c selected xs" by (simp add: Let_def)
    from Cons.IH [of ?c] show ?thesis
    proof
      assume "\<exists>k < length xs. select_option draw ?c selected xs = xs ! k \<and>
       float_lt draw (fold (\<lambda>x acc. float_add acc (to_probability x)) (take (Suc k) xs) ?c) \<and>
       (\<forall>i < k. \<not> float_lt draw (fold (\<lambda>x acc. float_add acc (to_probability x)) (take (Suc i) xs) ?c))"
      then obtain k where "k < length xs" "select_option draw ?c selected xs = xs ! k"
        "float_lt draw (fold (\<lambda>x acc. float_add acc (to_probability x)) (take (Suc k) xs) ?c)"
        "\<forall>i < k. \<not> float_lt draw (fold (\<lambda>x acc. float_add acc (to_probability x)) (take (Suc i) xs) ?c)" by blast
      with sel False show ?thesis by (intro disjI1 exI [of _ "Suc k"]) (auto simp: less_Suc_eq_0_disj)
    next
      assume "select_option draw ?c selected xs = selected \<and>
       (\<forall>i < length xs. \<not> float_lt draw (fold (\<lambda>x acc. float_add acc (to_probability x)) (take (Suc i) xs) ?c))"
      with sel False show ?thesis by (auto simp: less_Suc_eq_0_disj)
    qed
  qed
qed simp

lemma distribution_mem:
  assumes "transition_distribution graph configuration policy entity ctx enabled f = Inr ds" and "x \<in> set ds"
  shows "to_edges x = filter (\<lambda>e. te_event e = Some (to_event x)) (outgoing graph configuration) \<and> to_edges x \<noteq> [] \<and>
    event_allowed enabled (to_event x) \<and> is_probabilistically_eligible policy (to_event x) \<and> float_lt (Fin 0) (to_weight x) \<and>
    event_weight policy f \<lparr>ev_of_event = to_event x, ev_of_configuration = configuration, ev_of_edges = to_edges x,
      ev_of_entity = entity, ev_of_context = ctx\<rparr> = Inr (to_weight x)"
proof -
  let ?gs = "sort_key fst (event_edges graph configuration enabled)"
  let ?e = "\<lambda>(event, edges). \<lparr>ev_of_event = event, ev_of_configuration = configuration, ev_of_edges = edges,
      ev_of_entity = entity, ev_of_context = ctx\<rparr>"
  from assms(1) obtain ws where ws: "weighted_events policy f ?e ?gs = Inr ws"
    and ds: "ds = map (\<lambda>(event, weight, edges). \<lparr>to_event = event, to_weight = weight,
      to_probability = float_div weight (py_sum (map (fst \<circ> snd) ws)), to_edges = edges\<rparr>) ws"
    by (auto simp: transition_distribution_def Let_def guards.simps split: if_splits)
  from assms(2) ds obtain event w es where m: "(event, w, es) \<in> set ws" and x: "to_event x = event" "to_weight x = w" "to_edges x = es"
    by auto
  note W = weighted_events_mem [OF ws m, unfolded prod.case set_sort]
  from event_edges_mem [OF conjunct1 [OF W]] W show ?thesis unfolding x by blast
qed

lemma distribution_nonempty: "transition_distribution graph configuration policy entity ctx enabled f = Inr ds \<Longrightarrow> ds \<noteq> []"
  by (auto simp: transition_distribution_def Let_def guards.simps split: if_splits)

lemma decide_legal:
  assumes "decide_transition env tick chart graph policy entity ctx f kwargs scope = Inr d"
  shows "\<exists>vs enabled b. configuration_values chart = Inr vs \<and> td_configuration d = sort (remdups vs) \<and>
    td_edges d = filter (\<lambda>e. te_event e = Some (td_event d) \<and> te_source e \<in> set vs) graph \<and> td_edges d \<noteq> [] \<and>
    enabled_events chart kwargs = Inr enabled \<and> event_allowed enabled (td_event d) \<and>
    is_probabilistically_eligible policy (td_event d) \<and>
    weight_for policy \<lparr>ev_of_event = td_event d, ev_of_configuration = td_configuration d, ev_of_edges = td_edges d,
      ev_of_entity = entity, ev_of_context = ctx\<rparr> = Inr b \<and>
    td_weight d = (case f of None \<Rightarrow> b | Some g \<Rightarrow> g \<lparr>ev_of_event = td_event d, ev_of_configuration = td_configuration d,
      ev_of_edges = td_edges d, ev_of_entity = entity, ev_of_context = ctx\<rparr> b) \<and>
    isfinite (td_weight d) \<and> float_lt (Fin 0) (td_weight d)"
proof -
  from assms obtain vs enabled ds draw where v: "configuration_values chart = Inr vs"
    and ne: "sort (remdups vs) \<noteq> []" and en: "enabled_events chart kwargs = Inr enabled"
    and ds: "transition_distribution graph (sort (remdups vs)) policy entity ctx enabled f = Inr ds"
    and smp: "sample_transition ds draw (sort (remdups vs)) = Inr d"
    by (auto simp: decide_transition_def mk_state_configuration_def Let_def guards.simps split: if_splits)
  obtain x where x: "x \<in> set ds" and d: "td_event d = to_event x" "td_weight d = to_weight x" "td_edges d = to_edges x"
    "td_configuration d = sort (remdups vs)"
  proof -
    let ?x = "select_option draw (Fin 0) (last ds) ds"
    have "?x \<in> set ds" using select_option_mem [of draw "Fin 0" "last ds" ds] distribution_nonempty [OF ds] by auto
    then show thesis using smp distribution_nonempty [OF ds] by (intro that [of ?x]) (auto simp: sample_transition_def Let_def)
  qed
  note D = distribution_mem [OF ds x]
  have "td_edges d = filter (\<lambda>e. te_event e = Some (td_event d) \<and> te_source e \<in> set vs) graph"
    using D by (simp add: d outgoing_def available_from_def filter_filter conj_commute)
  moreover from event_weight_ok [of policy f] D obtain b where "weight_for policy \<lparr>ev_of_event = td_event d,
      ev_of_configuration = td_configuration d, ev_of_edges = td_edges d, ev_of_entity = entity, ev_of_context = ctx\<rparr> = Inr b"
    "td_weight d = (case f of None \<Rightarrow> b | Some g \<Rightarrow> g \<lparr>ev_of_event = td_event d, ev_of_configuration = td_configuration d,
      ev_of_edges = td_edges d, ev_of_entity = entity, ev_of_context = ctx\<rparr> b)" "isfinite (td_weight d)"
    unfolding d by blast
  ultimately show ?thesis using v en D d by auto
qed

text \<open>
  C18. A probabilistic decision only picks what the chart allows: the configuration of the decision is the sorted set of the
  active states; its edges are all the edges of the graph with the chosen event that leave an active state, at least one;
  the event is enabled by the chart and not excluded by the policy; and its weight, as computed by the policy and the active
  scenarios, is finite and positive.
\<close>

theorem decision_is_legal:
  assumes "decide_transition env tick chart graph policy entity ctx f kwargs scope = Inr d"
  shows "\<exists>vs enabled b. configuration_values chart = Inr vs \<and> td_configuration d = sort (remdups vs) \<and>
    td_edges d = filter (\<lambda>e. te_event e = Some (td_event d) \<and> te_source e \<in> set vs) graph \<and> td_edges d \<noteq> [] \<and>
    enabled_events chart kwargs = Inr enabled \<and> event_allowed enabled (td_event d) \<and>
    is_probabilistically_eligible policy (td_event d) \<and>
    weight_for policy \<lparr>ev_of_event = td_event d, ev_of_configuration = td_configuration d, ev_of_edges = td_edges d,
      ev_of_entity = entity, ev_of_context = ctx\<rparr> = Inr b \<and>
    td_weight d = (case f of None \<Rightarrow> b | Some g \<Rightarrow> g \<lparr>ev_of_event = td_event d, ev_of_configuration = td_configuration d,
      ev_of_edges = td_edges d, ev_of_entity = entity, ev_of_context = ctx\<rparr> b) \<and>
    isfinite (td_weight d) \<and> float_lt (Fin 0) (td_weight d)"
  using assms by (rule decide_legal)

definition accept_edge :: transition_edge where
  "accept_edge = \<lparr>te_edge_id = ''e1'', te_source = ''open'', te_targets = [''accepted''], te_event = Some ''accept'', te_metadata = []\<rparr>"

definition reject_edge :: transition_edge where
  "reject_edge = \<lparr>te_edge_id = ''e2'', te_source = ''open'', te_targets = [''rejected''], te_event = Some ''reject'', te_metadata = []\<rparr>"

definition review_policy :: "(nat, unit) transition_policy" where
  "review_policy = default_policy \<lparr>tp_weights := [(''accept'', NumberWeight (Fin 3)), (''reject'', ComputedWeight (\<lambda>_. Inr (Fin 1)))]\<rparr>"

definition review_chart :: "(nat, unit) chart_view" where
  "review_chart = \<lparr>cv_type = 0, cv_type_name = ''Review'', cv_states = [], cv_configuration_values = Some [''open''], cv_current_state_value = None,
     cv_enabled_events = Some (\<lambda>_. Inr [''reject'', ''accept'']), cv_policy = Some review_policy\<rparr>"

definition review_entity :: "nat entity" where
  "review_entity = \<lparr>en_id = ''x'', en_entity_type = ''review'', en_state = ''open'', en_attributes = Mapping.empty, en_created_at = None,
     en_updated_at = None, en_version = 0\<rparr>"

definition review_env :: random_env where
  "review_env = \<lparr>rn_blake2b = (\<lambda>_. 0), rn_random_draw = (\<lambda>_. Fin (7 / 8)), rn_root_seed = 1\<rparr>"

lemma quarters [simp]:
  "round_double 4 = Fin 4" "round_double (- 1) = Fin (- 1)" "round_double 0 = Fin 0" "round_double 1 = Fin 1"
  "round_double (3 / 4) = Fin (3 / 4)" "round_double (1 / 4) = Fin (1 / 4)"
  using round_double_exact [of 4 0] round_double_exact [of "- 1" 0] round_double_exact [of 0 0] round_double_exact [of 1 0]
    round_double_exact [of 3 "- 2"] round_double_exact [of 1 "- 2"]
  by (simp_all add: power_int_minus field_simps)

lemma review_distribution:
  "transition_distribution [accept_edge, reject_edge] [''open''] review_policy review_entity () (Some [''reject'', ''accept'']) None =
     Inr [\<lparr>to_event = ''accept'', to_weight = Fin 3, to_probability = Fin (3 / 4), to_edges = [accept_edge]\<rparr>,
       \<lparr>to_event = ''reject'', to_weight = Fin 1, to_probability = Fin (1 / 4), to_edges = [reject_edge]\<rparr>]"
proof -
  have "sort_key fst (event_edges [accept_edge, reject_edge] [''open''] (Some [''reject'', ''accept''])) =
      [(''accept'', [accept_edge]), (''reject'', [reject_edge])]"
    by code_simp
  then show ?thesis
    by (simp add: transition_distribution_def is_probabilistically_eligible_def review_policy_def default_policy_def event_weight_def
        weight_for_def Let_def guards.simps float_sub_def)
qed

theorem decision_is_legal_witness: "\<exists>d. decide_transition review_env 5 review_chart [accept_edge, reject_edge] review_policy review_entity ()
      None Mapping.empty [] = Inr d \<and> td_event d = ''reject'' \<and> td_edges d = [reject_edge] \<and>
    is_probabilistically_eligible review_policy (td_event d) \<and> float_lt (Fin 0) (td_weight d)"
proof -
  have seed: "scoped_seed (rn_blake2b review_env) (rn_root_seed review_env) [PStr ''transition'', PInt 5, PStr ''review'', PStr ''x'', PStr ''open''] = Inr 0"
    by (simp add: scoped_seed_def encode_deterministic_parts_def encode_scalar_def frame_of_def dec_int_def dec_nat_small review_env_def)
  obtain d where d: "decide_transition review_env 5 review_chart [accept_edge, reject_edge] review_policy review_entity ()
      None Mapping.empty [] = Inr d" "td_event d = ''reject''"
    using seed by (simp add: decide_transition_def configuration_values_def enabled_events_def mk_state_configuration_def guards.simps
        review_chart_def review_distribution review_entity_def [THEN arg_cong [where f = en_id]]
        review_entity_def [THEN arg_cong [where f = en_entity_type]] review_env_def sample_transition_def)
  from decision_is_legal [OF d(1)] d show ?thesis
    by (auto simp: configuration_values_def review_chart_def accept_edge_def reject_edge_def)
qed

text \<open>
  The sampled option is the quantile of the draw: the first whose cumulated probability exceeds it, and the last option if
  rounding keeps every cumulated probability at or below the draw.
\<close>

lemma sample_is_quantile:
  assumes "sample_transition ds draw configuration = Inr d"
  shows "\<exists>k < length ds. td_event d = to_event (ds ! k) \<and>
    (\<forall>i < k. \<not> float_lt draw (cumulated ds (Suc i))) \<and> (float_lt draw (cumulated ds (Suc k)) \<or> Suc k = length ds)"
proof -
  have ne: "ds \<noteq> []" and d: "td_event d = to_event (select_option draw (Fin 0) (last ds) ds)"
    using assms by (auto simp: sample_transition_def Let_def split: if_splits)
  from select_option_quantile [of ds draw "Fin 0" "last ds", folded cumulated_def] show ?thesis
  proof
    assume "select_option draw (Fin 0) (last ds) ds = last ds \<and> (\<forall>i < length ds. \<not> float_lt draw (cumulated ds (Suc i)))"
    with ne d show ?thesis by (intro exI [of _ "length ds - 1"]) (auto simp: last_conv_nth)
  qed (use d in auto)
qed

text \<open>
  Each weight is checked to be finite, their sum is not: two weights of \<open>2^1023\<close> are accepted, add up to infinity and leave
  every event with probability zero, so the draw no longer matters and the last event in order always happens.
\<close>

lemma weights_overflow: "round_double (2 powi 1023 + 2 powi 1023) = PInf"
proof -
  define x :: rat where "x = 2 powi 1024"
  have x0: "0 < x" unfolding x_def by (rule zero_less_power_int) simp
  from binade_bounds [OF x0] have "(2 :: rat) powi binade x < 2 powi 1025" "(2 :: rat) powi 1024 < 2 powi (binade x + 1)"
    by (auto simp: x_def intro: le_less_trans)
  then have b: "binade x = 1024" by (simp only: powi_less_cancel)
  have "ulp_exp x = 972" by (simp add: ulp_exp_def b)
  then have "x / 2 powi ulp_exp x = of_int (2 ^ 52)" by (simp add: x_def)
  then have "of_int (round_half_even (x / 2 powi ulp_exp x)) * 2 powi ulp_exp x = x"
    by (metis round_half_even_of_int nonzero_eq_divide_eq power_int_not_zero zero_neq_numeral)
  moreover have "x = 2 ^ 1024" by (simp add: x_def power_int_nonneg_exp del: power_numeral)
  ultimately have "round_double x = PInf" using x0 by (simp add: round_double_def Let_def del: power_numeral)
  moreover have "x = 2 powi 1023 + 2 powi 1023" unfolding x_def using power_int_add [of "2 :: rat" 1023 1] by simp
  ultimately show ?thesis by simp
qed

lemma overflowing_weights_pick_last:
  defines "policy \<equiv> review_policy \<lparr>tp_weights := [], tp_default_weight := NumberWeight (Fin (2 powi 1023))\<rparr>"
  shows "\<exists>ds. transition_distribution [accept_edge, reject_edge] [''open''] policy review_entity () (Some [''reject'', ''accept'']) None = Inr ds \<and>
    map to_probability ds = [Fin 0, Fin 0] \<and>
    (\<forall>x. 0 \<le> x \<longrightarrow> (\<exists>d. sample_transition ds (Fin x) [''open''] = Inr d \<and> td_event d = ''reject''))"
proof -
  have edges: "sort_key fst (event_edges [accept_edge, reject_edge] [''open''] (Some [''reject'', ''accept''])) =
      [(''accept'', [accept_edge]), (''reject'', [reject_edge])]"
    by code_simp
  have "(0::rat) < 2 powi 1023" by (rule zero_less_power_int) simp
  with edges weights_overflow show ?thesis
    by (simp add: policy_def transition_distribution_def is_probabilistically_eligible_def review_policy_def default_policy_def
        event_weight_def weight_for_def Let_def guards.simps float_sub_def float_le_def float_eq_def sample_transition_def del: power_numeral)
qed

end
