(* ===== verification/Factories.thy ===== *)
theory Factories
  imports Transition_Graph
begin

text \<open>
  \<open>factories/\<close>, \<open>domain/registry.py\<close>, \<open>statecharts/base.py\<close>, \<open>scenarios/rules.py\<close> and the methods of \<open>core/engine.py\<close> built on
  them: how commands, events and entities get their identities, how a command is put on the schedule, and how the engine
  chooses a transition and dispatches it.

  The callbacks \<open>now\<close> and \<open>tick\<close> of the factories read the clock of the context, which is an argument here. A chart factory
  gives the view of a chart (\<open>Transition_Graph\<close>); commands and events that a chart creates itself while it runs belong to
  the parameter \<open>eg_chart\<close>.
\<close>

section \<open>Causes and identities\<close>

datatype 'v cause = CommandCause "'v command" | EventCause "'v domain_event"

text \<open>Python's \<open>a or b\<close> on optional strings.\<close>

fun str_or :: "string option \<Rightarrow> string option \<Rightarrow> string option" where
  "str_or (Some (c # s)) other = Some (c # s)"
| "str_or _ other = other"

fun message_id :: "'v cause option \<Rightarrow> string option" where
  "message_id None = None"
| "message_id (Some (EventCause e)) = str_or (Some (ev_event_id e)) None"
| "message_id (Some (CommandCause c)) = Some (cm_command_id c)"

fun correlation_of :: "'v cause option \<Rightarrow> string option" where
  "correlation_of None = None"
| "correlation_of (Some (EventCause e)) = str_or (ev_correlation_id e) (message_id (Some (EventCause e)))"
| "correlation_of (Some (CommandCause c)) = str_or (cm_correlation_id c) (message_id (Some (CommandCause c)))"

text \<open>The state of \<open>CommandFactory\<close> and of \<open>EventFactory\<close>.\<close>

record message_factory =
  mf_sequence :: int
  mf_owner_id :: "string option"

definition new_message_factory :: message_factory where
  "new_message_factory = \<lparr>mf_sequence = 0, mf_owner_id = None\<rparr>"

definition bind_owner :: "string \<Rightarrow> string \<Rightarrow> (message_factory, unit) meth" where
  "bind_owner kind owner_id f =
     (if blank owner_id then (Inl (ValueError ''owner_id must not be empty''), f)
      else if mf_owner_id f \<noteq> None \<and> mf_owner_id f \<noteq> Some owner_id
      then (Inl (ValueError (kind @ '' factory cannot be rebound to another owner'')), f)
      else (Inr (), f\<lparr>mf_owner_id := Some owner_id\<rparr>))"

text \<open>\<open>key or (tick, type, id, name, cause or "root", sequence)\<close>, with the owner in front.\<close>

definition identity_parts ::
  "int \<Rightarrow> 'v entity \<Rightarrow> string \<Rightarrow> string option \<Rightarrow> pyval list option \<Rightarrow> message_factory \<Rightarrow> pyval list" where
  "identity_parts tick target name cause_id key f =
     (case mf_owner_id f of None \<Rightarrow> [] | Some owner_id \<Rightarrow> [PStr owner_id]) @
     (if key = None \<or> key = Some []
      then [PInt tick, PStr (en_entity_type target), PStr (en_id target), PStr name,
        PStr (the (str_or cause_id (Some ''root''))), PInt (mf_sequence f)]
      else the key)"

definition merge_payload :: "'v attrs \<Rightarrow> (string \<times> 'v) list \<Rightarrow> 'v attrs" where
  "merge_payload payload kwargs = fold (\<lambda>(k, v). Mapping.update k v) kwargs payload"

section \<open>Commands and events\<close>

record 'v message_request =
  mq_name :: string
  mq_target :: "'v entity"
  mq_due_at :: "datetime option"
  mq_caused_by :: "'v cause option"
  mq_correlation_id :: "string option"
  mq_payload :: "'v attrs"
  mq_key :: "pyval list option"
  mq_payload_fields :: "(string \<times> 'v) list"

definition create_command :: "digest \<Rightarrow> simulation_clock \<Rightarrow> 'v message_request \<Rightarrow> (message_factory, 'v command) meth" where
  "create_command uuid5 clock q f =
     (let f = f\<lparr>mf_sequence := mf_sequence f + 1\<rparr>;
          issued_at = ck_now clock;
          cause_id = message_id (mq_caused_by q);
          correlation = str_or (mq_correlation_id q) (correlation_of (mq_caused_by q))
      in (bind_res (deterministic_id uuid5 ''command''
             (identity_parts (ck_tick clock) (mq_target q) (mq_name q) cause_id (mq_key q) f)) (\<lambda>command_id.
           Inr \<lparr>cm_command_id = command_id, cm_name = mq_name q, cm_entity_type = en_entity_type (mq_target q),
             cm_entity_id = en_id (mq_target q), cm_due_at = (case mq_due_at q of None \<Rightarrow> issued_at | Some t \<Rightarrow> t),
             cm_issued_at = Some issued_at, cm_tick = Some (ck_tick clock),
             cm_payload = merge_payload (mq_payload q) (mq_payload_fields q), cm_causation_id = cause_id,
             cm_correlation_id = str_or correlation (Some command_id), cm_owner_id = mf_owner_id f\<rparr>), f))"

definition create_event :: "digest \<Rightarrow> simulation_clock \<Rightarrow> 'v message_request \<Rightarrow> (message_factory, 'v domain_event) meth" where
  "create_event uuid5 clock q f =
     (let f = f\<lparr>mf_sequence := mf_sequence f + 1\<rparr>;
          cause_id = message_id (mq_caused_by q);
          correlation = str_or (mq_correlation_id q) (correlation_of (mq_caused_by q))
      in (bind_res (deterministic_id uuid5 ''event''
             (identity_parts (ck_tick clock) (mq_target q) (mq_name q) cause_id (mq_key q) f)) (\<lambda>event_id.
           Inr \<lparr>ev_event_id = event_id, ev_name = mq_name q, ev_entity_type = en_entity_type (mq_target q),
             ev_entity_id = en_id (mq_target q), ev_occurred_at = ck_now clock, ev_tick = Some (ck_tick clock),
             ev_payload = merge_payload (mq_payload q) (mq_payload_fields q), ev_causation_id = cause_id,
             ev_correlation_id = str_or correlation (Some event_id), ev_owner_id = mf_owner_id f\<rparr>), f))"

text \<open>The payload values of a transition are strings; \<open>text\<close> embeds them into the values of the domain.\<close>

definition transition_message ::
  "digest \<Rightarrow> simulation_clock \<Rightarrow> (string \<Rightarrow> 'v) \<Rightarrow> 'v entity \<Rightarrow> string \<Rightarrow> string \<Rightarrow> string \<Rightarrow> 'v cause option
     \<Rightarrow> (message_factory, 'v domain_event) meth" where
  "transition_message uuid5 clock text entity trigger from_state to_state caused_by =
     create_event uuid5 clock \<lparr>mq_name = ''entity.state_transition'', mq_target = entity, mq_due_at = None,
       mq_caused_by = caused_by, mq_correlation_id = None, mq_payload = Mapping.empty,
       mq_key = Some [PInt (ck_tick clock), PStr (en_entity_type entity), PStr (en_id entity), PInt (en_version entity),
         PStr trigger, PStr from_state, PStr to_state],
       mq_payload_fields = [(''trigger'', text trigger), (''from_state'', text from_state), (''to_state'', text to_state)]\<rparr>"

definition exception_message ::
  "digest \<Rightarrow> simulation_clock \<Rightarrow> string \<Rightarrow> 'v entity \<Rightarrow> 'v cause option \<Rightarrow> (string \<times> 'v) list
     \<Rightarrow> (message_factory, 'v domain_event) meth" where
  "exception_message uuid5 clock name entity caused_by kwargs =
     create_event uuid5 clock \<lparr>mq_name = ''exception.'' @ name, mq_target = entity, mq_due_at = None,
       mq_caused_by = caused_by, mq_correlation_id = None, mq_payload = Mapping.empty, mq_key = None, mq_payload_fields = kwargs\<rparr>"

text \<open>\<open>TransitionRecorder.after_transition\<close>: the entity is touched first, so the event carries the new version.\<close>

definition after_transition ::
  "digest \<Rightarrow> simulation_clock \<Rightarrow> (string \<Rightarrow> 'v) \<Rightarrow> 'v cause option \<Rightarrow> string \<Rightarrow> string \<Rightarrow> string \<Rightarrow>
     ('v entity \<times> message_factory \<times> ('v, 'c) live, unit) meth" where
  "after_transition uuid5 clock text caused_by event source target = (\<lambda>(entity, f, l).
     let entity = touch (ck_now clock) entity
     in case transition_message uuid5 clock text entity event source target caused_by f of
          (Inl e, f) \<Rightarrow> (Inl e, (entity, f, l))
        | (Inr ev, f) \<Rightarrow> (Inr (), (entity, f, emit ev l)))"

section \<open>Entities\<close>

text \<open>
  \<open>EntityFactory.create\<close>. What it reads of the entity class is the value of the class attribute \<open>entity_type\<close>, if that is a
  string, and the default of the field: a string, missing, or no dataclass at all.
\<close>

datatype type_default = DefaultType string | MissingDefault | NotADataclass

definition resolve_entity_type :: "string option \<Rightarrow> string option \<Rightarrow> type_default \<Rightarrow> pyval res" where
  "resolve_entity_type entity_type class_attribute field_default =
     (case str_or entity_type class_attribute of
        Some (c # s) \<Rightarrow> Inr (PStr (c # s))
      | _ \<Rightarrow> (case field_default of
          DefaultType s \<Rightarrow> Inr (PStr s)
        | MissingDefault \<Rightarrow> Inr (POther ''dataclasses._MISSING_TYPE'')
        | NotADataclass \<Rightarrow> Inl (ValueError ''entity_type is required'')))"

definition create_entity ::
  "digest \<Rightarrow> simulation_clock \<Rightarrow> string option \<Rightarrow> type_default \<Rightarrow> pyval list \<Rightarrow> string option \<Rightarrow> string \<Rightarrow> 'v attrs \<Rightarrow>
     datetime option \<Rightarrow> 'v entity res" where
  "create_entity uuid5 clock class_attribute field_default key entity_type initial_state attributes created_at =
     (if key = [] then Inl (ValueError ''entity key must contain at least one part'')
      else
        bind_res (resolve_entity_type entity_type class_attribute field_default) (\<lambda>resolved.
        let created = (case created_at of None \<Rightarrow> ck_now clock | Some t \<Rightarrow> t)
        in bind_res (deterministic_id uuid5 ''entity'' (resolved # key)) (\<lambda>entity_id.
          case resolved of
            PStr t \<Rightarrow> Inr \<lparr>en_id = entity_id, en_entity_type = t, en_state = initial_state, en_attributes = attributes,
              en_created_at = Some created, en_updated_at = Some created, en_version = 0\<rparr>
          | _ \<Rightarrow> Inl (TypeError ''entity_type''))))"

section \<open>Schedules\<close>

definition schedule_at ::
  "digest \<Rightarrow> ('v, 'b) schedule_backend \<Rightarrow> datetime \<Rightarrow> 'v command \<Rightarrow> int \<Rightarrow> (('v, 'b) scheduler_world, 'v command) meth" where
  "schedule_at uuid5 B due_at command priority =
     (let command = (if cm_due_at command \<noteq> due_at then rescheduled command due_at else command)
      in bind_m (schedule uuid5 B command priority) (\<lambda>_. return_m command))"

text \<open>\<open>other\<close> is the duration built from \<open>hours\<close>, \<open>minutes\<close> and \<open>seconds\<close>; a zero delay is false in Python.\<close>

definition schedule_after ::
  "digest \<Rightarrow> ('v, 'b) schedule_backend \<Rightarrow> simulation_clock \<Rightarrow> timedelta option \<Rightarrow> timedelta \<Rightarrow> 'v command \<Rightarrow> int
     \<Rightarrow> (('v, 'b) scheduler_world, 'v command) meth" where
  "schedule_after uuid5 B clock delay other command priority w =
     (let delta = (case delay of None \<Rightarrow> other | Some d \<Rightarrow> if d = 0 then other else d)
      in if delta < 0 then (Inl (ValueError ''delay cannot be negative''), w)
         else case dt_add (ck_now clock) delta of
             Inl e \<Rightarrow> (Inl e, w)
           | Inr due_at \<Rightarrow> schedule_at uuid5 B due_at command priority w)"

section \<open>Charts of a domain\<close>

text \<open>\<open>DomainRegistry\<close>: entity types and their chart factories, in order of registration.\<close>

type_synonym ('v, 'c) domain_registry = "(string \<times> ('v entity \<Rightarrow> ('v, ('v, 'c) live) chart_view res)) list"

definition register_type ::
  "string \<Rightarrow> ('v entity \<Rightarrow> ('v, ('v, 'c) live) chart_view res) \<Rightarrow> ('v, 'c) domain_registry \<Rightarrow> ('v, 'c) domain_registry res" where
  "register_type name factory types =
     guards [(dget types name \<noteq> None, ValueError (''entity type already registered: '' @ name))] (dset name factory types)"

definition supports_type :: "string \<Rightarrow> ('v, 'c) domain_registry \<Rightarrow> bool" where
  "supports_type name types \<longleftrightarrow> dget types name \<noteq> None"

definition chart_for :: "('v, 'c) domain_registry \<Rightarrow> 'v entity \<Rightarrow> ('v, ('v, 'c) live) chart_view res" where
  "chart_for types entity = (case dget types (en_entity_type entity) of
     None \<Rightarrow> Inl (KeyError (en_entity_type entity))
   | Some factory \<Rightarrow> factory entity)"

text \<open>\<open>StateChartFactory.graph\<close>: one graph per chart class.\<close>

type_synonym graph_cache = "(nat \<times> transition_edge list) list"

definition chart_graph :: "digest \<Rightarrow> ('v, 'x) chart_view \<Rightarrow> (graph_cache, transition_edge list) meth" where
  "chart_graph uuid5 chart graphs = (case dget graphs (cv_type chart) of
     Some graph \<Rightarrow> (Inr graph, graphs)
   | None \<Rightarrow> (case graph_from_statechart uuid5 chart of
         Inl e \<Rightarrow> (Inl e, graphs)
       | Inr graph \<Rightarrow> (Inr graph, dset (cv_type chart) graph graphs)))"

text \<open>\<open>context.scenarios.transform_transition_weight\<close>.\<close>

definition scenario_weights :: "('v, 'c) live \<Rightarrow> ('v, 'x) transition_evaluation \<Rightarrow> pyfloat \<Rightarrow> pyfloat" where
  "scenario_weights l evaluation weight =
     transform_transition_weight (en_entity_type (ev_of_entity evaluation)) (ev_of_event evaluation) weight
       (ck_now (lv_clock l)) (memory_of l)"

record ('v, 'c) decision_env =
  de_uuid5 :: digest
  de_random :: random_env
  de_registry :: "('v, 'c) domain_registry"

definition chart_decide ::
  "('v, 'c) decision_env \<Rightarrow> ('v, 'c) live \<Rightarrow> 'v entity \<Rightarrow> 'v attrs \<Rightarrow> pyval list \<Rightarrow> (graph_cache, transition_decision) meth" where
  "chart_decide env l entity guard_kwargs scope graphs =
     (case chart_for (de_registry env) entity of
        Inl e \<Rightarrow> (Inl e, graphs)
      | Inr chart \<Rightarrow> (case chart_graph (de_uuid5 env) chart graphs of
          (Inl e, graphs) \<Rightarrow> (Inl e, graphs)
        | (Inr graph, graphs) \<Rightarrow>
            (decide_transition (de_random env) (ck_tick (lv_clock l)) chart graph (policy_from_statechart chart) entity l
               (Some (scenario_weights l)) guard_kwargs scope, graphs)))"

section \<open>The engine\<close>

text \<open>The factories of the context and the world of the engine.\<close>

record ('v, 'c) factory_world =
  fw_commands :: message_factory
  fw_graphs :: graph_cache
  fw_world :: "('v, 'c) sim_world"

definition choose_transition ::
  "('v, 'c) decision_env \<Rightarrow> 'v entity \<Rightarrow> 'v attrs \<Rightarrow> pyval list \<Rightarrow> (('v, 'c) factory_world, transition_decision) meth" where
  "choose_transition env entity event_kwargs scope s =
     (case chart_decide env (wd_live (fw_world s)) entity event_kwargs scope (fw_graphs s) of
        (r, graphs) \<Rightarrow> (r, s\<lparr>fw_graphs := graphs\<rparr>))"

text \<open>Creating a command in the current context and dispatching it.\<close>

definition create_and_dispatch ::
  "digest \<Rightarrow> ('v, 'c) engine_config \<Rightarrow> 'v message_request \<Rightarrow> (('v, 'c) factory_world, unit) meth" where
  "create_and_dispatch uuid5 cfg q s =
     (case create_command uuid5 (lv_clock (wd_live (fw_world s))) q (fw_commands s) of
        (Inl e, f) \<Rightarrow> (Inl e, s\<lparr>fw_commands := f\<rparr>)
      | (Inr command, f) \<Rightarrow> (case dispatch cfg command (fw_world s) of
            (r, w) \<Rightarrow> (r, s\<lparr>fw_commands := f, fw_world := w\<rparr>)))"

definition probabilistic_key :: "int \<Rightarrow> 'v entity \<Rightarrow> transition_decision \<Rightarrow> pyval list \<Rightarrow> pyval list" where
  "probabilistic_key tick entity decision scope =
     [PStr ''probabilistic-transition'', PInt tick, PStr (en_entity_type entity), PStr (en_id entity)] @
     map PStr (td_configuration decision) @ scope @ [PStr (td_event decision)]"

definition dispatch_probabilistic ::
  "('v, 'c) decision_env \<Rightarrow> ('v, 'c) engine_config \<Rightarrow> 'v entity \<Rightarrow> 'v attrs \<Rightarrow> pyval list \<Rightarrow> 'v cause option
     \<Rightarrow> (('v, 'c) factory_world, transition_decision) meth" where
  "dispatch_probabilistic env cfg entity event_kwargs scope caused_by =
     bind_m (choose_transition env entity event_kwargs scope) (\<lambda>decision s.
       bind_m (create_and_dispatch (de_uuid5 env) cfg \<lparr>mq_name = td_event decision, mq_target = entity, mq_due_at = None,
           mq_caused_by = caused_by, mq_correlation_id = None, mq_payload = event_kwargs,
           mq_key = Some (probabilistic_key (ck_tick (lv_clock (wd_live (fw_world s)))) entity decision scope),
           mq_payload_fields = []\<rparr>)
         (\<lambda>_. return_m decision) s)"

text \<open>\<open>ScenarioRule\<close> and \<open>evaluate_entity\<close>: a rule sees the entity and the live context.\<close>

record ('v, 'c) scenario_rule =
  sr_name :: string
  sr_when :: "'v entity \<Rightarrow> ('v, 'c) live \<Rightarrow> bool"
  sr_decide :: "'v entity \<Rightarrow> ('v, 'c) live \<Rightarrow> string option"

definition rule_evaluate :: "('v, 'c) scenario_rule \<Rightarrow> 'v entity \<Rightarrow> ('v, 'c) live \<Rightarrow> string option" where
  "rule_evaluate rule entity l = (if \<not> sr_when rule entity l then None else sr_decide rule entity l)"

definition apply_rule ::
  "digest \<Rightarrow> ('v, 'c) engine_config \<Rightarrow> 'v entity \<Rightarrow> ('v, 'c) scenario_rule \<Rightarrow> (('v, 'c) factory_world, unit) meth" where
  "apply_rule uuid5 cfg entity rule s =
     (let l = wd_live (fw_world s) in
      case str_or (rule_evaluate rule entity l) None of
        None \<Rightarrow> (Inr (), s)
      | Some command_name \<Rightarrow>
          create_and_dispatch uuid5 cfg \<lparr>mq_name = command_name, mq_target = entity, mq_due_at = Some (ck_now (lv_clock l)),
            mq_caused_by = None, mq_correlation_id = None, mq_payload = Mapping.empty,
            mq_key = Some [PStr ''scenario'', PInt (ck_tick (lv_clock l)), PStr (sr_name rule), PStr (en_entity_type entity),
              PStr (en_id entity)], mq_payload_fields = []\<rparr> s)"

definition evaluate_entity ::
  "digest \<Rightarrow> ('v, 'c) engine_config \<Rightarrow> (string \<Rightarrow> ('v, 'c) scenario_rule list) \<Rightarrow> 'v entity
     \<Rightarrow> (('v, 'c) factory_world, unit) meth" where
  "evaluate_entity uuid5 cfg rules_for entity = each_m (apply_rule uuid5 cfg entity) (rules_for (en_entity_type entity))"

section \<open>Identities never collide\<close>

text \<open>A sequence of creations, at the clock of each.\<close>

fun create_all ::
  "digest \<Rightarrow> (simulation_clock \<times> 'v message_request) list \<Rightarrow> message_factory \<Rightarrow> 'v command list res \<times> message_factory" where
  "create_all uuid5 [] f = (Inr [], f)"
| "create_all uuid5 ((clock, q) # qs) f =
     (case create_command uuid5 clock q f of
        (Inl e, f) \<Rightarrow> (Inl e, f)
      | (Inr c, f) \<Rightarrow> (case create_all uuid5 qs f of
            (Inl e, f) \<Rightarrow> (Inl e, f)
          | (Inr cs, f) \<Rightarrow> (Inr (c # cs), f)))"

text \<open>An identity made for an owner at a position of its factory.\<close>

definition made :: "digest \<Rightarrow> string \<Rightarrow> int \<Rightarrow> string \<Rightarrow> bool" where
  "made uuid5 owner k i \<longleftrightarrow> (\<exists>parts. deterministic_id uuid5 ''command'' (PStr owner # parts) = Inr i \<and> list_all canonical parts \<and>
     parts \<noteq> [] \<and> last parts = PInt k)"

lemma made_unique:
  assumes "inj (uuid5 SOSE_NAMESPACE)" and "made uuid5 owner k i" and "made uuid5 owner' k' i"
  shows "owner = owner' \<and> k = k'"
proof -
  from assms(2,3) obtain ps qs where p: "deterministic_id uuid5 ''command'' (PStr owner # ps) = Inr i" "list_all canonical ps" "last ps = PInt k"
    and q: "deterministic_id uuid5 ''command'' (PStr owner' # qs) = Inr i" "list_all canonical qs" "last qs = PInt k'"
    unfolding made_def by blast
  have "PStr owner # ps = PStr owner' # qs"
    using p q by (intro conjunct2 [OF deterministic_id_collision_free [OF _ _ p(1) q(1)]]) (auto intro: inj_on_subset [OF assms(1)])
  with p(3) q(3) show ?thesis by auto
qed

lemma create_command_made:
  assumes "create_command uuid5 clock q f = (Inr c, f')" and "mf_owner_id f = Some owner" and "mq_key q = None"
  shows "made uuid5 owner (mf_sequence f + 1) (cm_command_id c) \<and> mf_owner_id f' = Some owner \<and> mf_sequence f' = mf_sequence f + 1"
  using assms unfolding made_def by (auto simp: create_command_def Let_def identity_parts_def)

lemma create_all_made:
  assumes "create_all uuid5 qs f = (Inr cs, f')" and "mf_owner_id f = Some owner" and "\<forall>(clock, q) \<in> set qs. mq_key q = None"
  shows "\<forall>n < length cs. made uuid5 owner (mf_sequence f + 1 + int n) (cm_command_id (cs ! n))"
  using assms
proof (induction qs arbitrary: f cs)
  case (Cons x qs)
  obtain clock q where x: "x = (clock, q)" by (cases x)
  from Cons.prems(1) obtain c f1 cs' where c: "create_command uuid5 clock q f = (Inr c, f1)"
    and cs': "create_all uuid5 qs f1 = (Inr cs', f')" and cs: "cs = c # cs'"
    by (auto simp: x split: prod.splits sum.splits)
  note C = create_command_made [OF c Cons.prems(2)]
  have C: "made uuid5 owner (mf_sequence f + 1) (cm_command_id c)" "mf_owner_id f1 = Some owner" "mf_sequence f1 = mf_sequence f + 1"
    using C Cons.prems(3) by (auto simp: x)
  have "\<forall>n < length cs'. made uuid5 owner (mf_sequence f1 + 1 + int n) (cm_command_id (cs' ! n))"
    using Cons.prems(3) by (intro Cons.IH [OF cs' C(2)]) auto
  with C show ?case by (auto simp: cs less_Suc_eq_0_disj algebra_simps)
qed simp

lemma made_distinct:
  assumes "inj (uuid5 SOSE_NAMESPACE)" and "\<forall>n < length cs. made uuid5 owner (b + int n) (cm_command_id (cs ! n))"
  shows "distinct (map cm_command_id cs)"
proof -
  have "cm_command_id (cs ! i) \<noteq> cm_command_id (cs ! j)" if "i < length cs" "j < length cs" "i \<noteq> j" for i j
  proof
    assume "cm_command_id (cs ! i) = cm_command_id (cs ! j)"
    with assms(2) that have "made uuid5 owner (b + int i) (cm_command_id (cs ! i))" "made uuid5 owner (b + int j) (cm_command_id (cs ! i))"
      by auto
    from made_unique [OF assms(1) this] that(3) show False by simp
  qed
  then show ?thesis by (simp add: distinct_conv_nth)
qed

text \<open>
  C17. Commands created without an explicit key never share an identity: however names, targets, causes and clocks repeat, the
  commands of one factory are told apart by its sequence, and commands of factories bound to different owners by the owner
  (if the digest is injective).
\<close>

theorem created_commands_distinct:
  assumes "inj (uuid5 SOSE_NAMESPACE)"
    and "create_all uuid5 qs f = (Inr cs, f')" and "mf_owner_id f = Some owner" and "\<forall>(clock, q) \<in> set qs. mq_key q = None"
    and "create_all uuid5 rs g = (Inr ds, g')" and "mf_owner_id g = Some owner'" and "\<forall>(clock, q) \<in> set rs. mq_key q = None"
    and "owner \<noteq> owner'"
  shows "distinct (map cm_command_id (cs @ ds))"
proof -
  note C = create_all_made [OF assms(2-4)] and D = create_all_made [OF assms(5-7)]
  have "cm_command_id c \<noteq> cm_command_id d" if "c \<in> set cs" "d \<in> set ds" for c d
    using that C D made_unique [of uuid5, OF assms(1)] assms(8) by (metis in_set_conv_nth)
  then have "set (map cm_command_id cs) \<inter> set (map cm_command_id ds) = {}" by auto
  with made_distinct [OF assms(1) C] made_distinct [OF assms(1) D] show ?thesis by simp
qed

definition plain_request :: "nat message_request" where
  "plain_request = \<lparr>mq_name = ''open'', mq_target = lamp, mq_due_at = None, mq_caused_by = None, mq_correlation_id = None,
     mq_payload = Mapping.empty, mq_key = None, mq_payload_fields = []\<rparr>"

definition bound_factory :: "string \<Rightarrow> message_factory" where
  "bound_factory owner = \<lparr>mf_sequence = 0, mf_owner_id = Some owner\<rparr>"

lemma plain_created:
  assumes "length owner < 256 ^ 8" and "k \<in> {0, 1}"
  shows "\<exists>c. create_command (\<lambda>ns s. s) lamp_clock plain_request \<lparr>mf_sequence = k, mf_owner_id = Some owner\<rparr> =
    (Inr c, \<lparr>mf_sequence = k + 1, mf_owner_id = Some owner\<rparr>)"
  using assms by (auto simp: create_command_def identity_parts_def Let_def deterministic_id_def encode_deterministic_parts_def
      encode_scalar_def frame_of_def dec_int_def dec_nat_small plain_request_def lamp_def lamp_clock_def)

theorem created_commands_distinct_witness:
  "\<exists>cs f' ds g'. create_all (\<lambda>ns s. s) [(lamp_clock, plain_request), (lamp_clock, plain_request)] (bound_factory ''me'') = (Inr cs, f') \<and>
     create_all (\<lambda>ns s. s) [(lamp_clock, plain_request)] (bound_factory ''you'') = (Inr ds, g') \<and>
     length (cs @ ds) = 3 \<and> distinct (map cm_command_id (cs @ ds))"
proof -
  obtain cs f' where cs: "create_all (\<lambda>ns s. s) [(lamp_clock, plain_request), (lamp_clock, plain_request)] (bound_factory ''me'') = (Inr cs, f')"
    "length cs = 2" using plain_created [of "''me''" 0] plain_created [of "''me''" 1] by (auto simp: bound_factory_def)
  obtain ds g' where ds: "create_all (\<lambda>ns s. s) [(lamp_clock, plain_request)] (bound_factory ''you'') = (Inr ds, g')" "length ds = 1"
    using plain_created [of "''you''" 0] by (auto simp: bound_factory_def)
  have "distinct (map cm_command_id (cs @ ds))"
    by (rule created_commands_distinct [OF _ cs(1) _ _ ds(1)]) (auto simp: bound_factory_def plain_request_def)
  with cs ds show ?thesis by auto
qed

section \<open>Scheduling and entities\<close>

text \<open>
  A command put on the schedule after a delay is stored, with work of the same owner, for the logical time of the clock plus
  the delay, and no earlier than now.
\<close>

lemma scheduled_after_delay:
  assumes "schedule_after uuid5 B clock delay other command priority w = (Inr c, w')"
  shows "c = command\<lparr>cm_due_at := cm_due_at c\<rparr> \<and> ck_now clock \<le> cm_due_at c \<and>
    cm_due_at c = ck_now clock + (case delay of None \<Rightarrow> other | Some d \<Rightarrow> if d = 0 then other else d) \<and>
    command_of (cm_command_id command) (hw_persistence w) = None \<and>
    (\<exists>work p. record_schedule uuid5 (hw_owner_id w) (map_option (hb_now B) (hw_backend w)) c priority (hw_persistence w) = (Inr work, p) \<and>
      hw_persistence w' = p)"
proof -
  let ?d = "case delay of None \<Rightarrow> other | Some d \<Rightarrow> if d = 0 then other else d"
  from assms obtain t where t: "dt_add (ck_now clock) ?d = Inr t" "0 \<le> ?d" "schedule_at uuid5 B t command priority w = (Inr c, w')"
    by (auto simp: schedule_after_def Let_def split: if_splits sum.splits)
  have c: "c = command\<lparr>cm_due_at := t\<rparr>" and s: "\<exists>work. schedule uuid5 B c priority w = (Inr work, w')"
    using t(3) by (auto simp: schedule_at_def bind_m_def return_m_def rescheduled_def Let_def split: if_splits prod.splits sum.splits)
  from s have rec: "\<exists>work p. record_schedule uuid5 (hw_owner_id w) (map_option (hb_now B) (hw_backend w)) c priority (hw_persistence w) = (Inr work, p) \<and>
      hw_persistence w' = p"
    by (auto simp: schedule_def split: prod.splits sum.splits option.splits)
  then have "command_of (cm_command_id command) (hw_persistence w) = None" by (auto simp: record_schedule_def c split: if_splits)
  with rec t c show ?thesis by (auto simp: dt_add_Inr_iff)
qed

text \<open>
  Without an entity type, a dataclass whose field has no default does not raise the error the factory announces: the marker of
  the missing default is taken for the type and refused by the encoder.
\<close>

lemma missing_entity_type:
  assumes "key \<noteq> []"
  shows "create_entity uuid5 clock None MissingDefault key None s attributes created_at =
      Inl (TypeError ''deterministic scope parts must use supported stable types; got dataclasses._MISSING_TYPE'')"
    and "create_entity uuid5 clock None NotADataclass key None s attributes created_at = Inl (ValueError ''entity_type is required'')"
  using assms by (simp_all add: create_entity_def resolve_entity_type_def deterministic_id_def encode_deterministic_parts_def
      encode_scalar_def frame_of_def Let_def)

text \<open>
  The recorder counts the version before it makes the event, so successive transitions of an entity have different events
  even within one tick.
\<close>

lemma recorded_transitions_differ:
  assumes "inj (uuid5 SOSE_NAMESPACE)"
    and "after_transition uuid5 clock text cause event source target (entity, f, l) = (Inr (), (entity', f', l'))"
    and "after_transition uuid5 clock' text cause' event' source' target' (entity', f', m1) = (Inr (), (entity'', f'', m2))"
    and "mf_owner_id f = Some owner"
  shows "en_version entity'' = en_version entity + 2 \<and>
    ev_event_id (last (lv_pending_events l')) \<noteq> ev_event_id (last (lv_pending_events m2))"
proof -
  define k where "k t (e :: 'a entity) ev sr tg = [PStr owner, PInt t, PStr (en_entity_type e), PStr (en_id e), PInt (en_version e), PStr ev,
    PStr sr, PStr tg]" for t e ev sr tg
  from assms(2,4) have a: "entity' = touch (ck_now clock) entity" "mf_owner_id f' = Some owner"
    "deterministic_id uuid5 ''event'' (k (ck_tick clock) entity' event source target) = Inr (ev_event_id (last (lv_pending_events l')))"
    by (auto simp: after_transition_def transition_message_def create_event_def identity_parts_def Let_def emit_def k_def
        split: prod.splits sum.splits)
  from assms(3) a(2) have b: "entity'' = touch (ck_now clock') entity'"
    "deterministic_id uuid5 ''event'' (k (ck_tick clock') entity'' event' source' target') = Inr (ev_event_id (last (lv_pending_events m2)))"
    by (auto simp: after_transition_def transition_message_def create_event_def identity_parts_def Let_def emit_def k_def
        split: prod.splits sum.splits)
  have "ev_event_id (last (lv_pending_events l')) \<noteq> ev_event_id (last (lv_pending_events m2))"
  proof
    assume "ev_event_id (last (lv_pending_events l')) = ev_event_id (last (lv_pending_events m2))"
    with a(3) b(2) have "k (ck_tick clock) entity' event source target = k (ck_tick clock') entity'' event' source' target'"
      by (intro conjunct2 [OF deterministic_id_collision_free [OF _ _ a(3)]]) (auto simp: k_def intro: inj_on_subset [OF assms(1)])
    then show False by (simp add: k_def b(1) touch_def)
  qed
  with a(1) b(1) show ?thesis by (simp add: touch_def)
qed

section \<open>Dispatching a decision\<close>

text \<open>
  Charts of one class have one topology: what \<open>StateChartFactory.graph\<close> relies on when it keeps one graph per class.
\<close>

definition class_topology :: "('v, 'c) decision_env \<Rightarrow> bool" where
  "class_topology env \<longleftrightarrow> (\<forall>e e' chart chart'. chart_for (de_registry env) e = Inr chart \<longrightarrow> chart_for (de_registry env) e' = Inr chart' \<longrightarrow>
     cv_type chart = cv_type chart' \<longrightarrow> cv_type_name chart = cv_type_name chart' \<and> cv_states chart = cv_states chart')"

definition cache_ok :: "('v, 'c) decision_env \<Rightarrow> graph_cache \<Rightarrow> bool" where
  "cache_ok env graphs \<longleftrightarrow> (\<forall>entity chart graph. chart_for (de_registry env) entity = Inr chart \<longrightarrow>
     dget graphs (cv_type chart) = Some graph \<longrightarrow> graph_from_statechart (de_uuid5 env) chart = Inr graph)"

lemma cache_ok_empty [simp]: "cache_ok env []"
  by (simp add: cache_ok_def)

lemma chart_graph_cached:
  assumes "class_topology env" and "cache_ok env graphs" and "chart_for (de_registry env) entity = Inr chart"
    and "chart_graph (de_uuid5 env) chart graphs = (r, graphs')"
  shows "r = graph_from_statechart (de_uuid5 env) chart \<and> cache_ok env graphs'"
proof (cases "dget graphs (cv_type chart)")
  case (Some graph)
  with assms show ?thesis by (auto simp: chart_graph_def cache_ok_def)
next
  case None
  have same: "graph_from_statechart (de_uuid5 env) chart' = graph_from_statechart (de_uuid5 env) chart"
    if "chart_for (de_registry env) e = Inr chart'" "cv_type chart' = cv_type chart" for e chart'
  proof -
    have "cv_type_name chart' = cv_type_name chart \<and> cv_states chart' = cv_states chart"
      using assms(1) that(1) assms(3) that(2) unfolding class_topology_def by (elim allE impE) assumption+
    then show ?thesis by (simp add: graph_from_statechart_def)
  qed
  from None assms(2,4) show ?thesis
    by (auto simp: chart_graph_def cache_ok_def same split: sum.splits if_splits)
qed

lemma choose_transition_sound:
  assumes "class_topology env" and "cache_ok env (fw_graphs s)" and "choose_transition env entity kwargs scope s = (r, s')"
  shows "fw_world s' = fw_world s \<and> fw_commands s' = fw_commands s \<and> cache_ok env (fw_graphs s') \<and>
    (\<forall>d. r = Inr d \<longrightarrow> (\<exists>chart graph. chart_for (de_registry env) entity = Inr chart \<and> graph_from_statechart (de_uuid5 env) chart = Inr graph \<and>
      decide_transition (de_random env) (ck_tick (lv_clock (wd_live (fw_world s)))) chart graph (policy_from_statechart chart) entity
        (wd_live (fw_world s)) (Some (scenario_weights (wd_live (fw_world s)))) kwargs scope = Inr d))"
proof (cases "chart_for (de_registry env) entity")
  case (Inl e)
  with assms(2,3) show ?thesis by (auto simp: choose_transition_def chart_decide_def)
next
  case (Inr chart)
  obtain g graphs' where g: "chart_graph (de_uuid5 env) chart (fw_graphs s) = (g, graphs')" by fastforce
  with chart_graph_cached [OF assms(1,2) Inr g] assms(3) Inr show ?thesis
    by (auto simp: choose_transition_def chart_decide_def split: sum.splits)
qed

text \<open>
  C16. A probabilistic dispatch executes exactly what it reports: if it returns a decision, the decision is the one the chart of
  the entity, its topology, its policy and the active scenarios determine (the cached graph is the graph of the chart); all
  its edges leave an active state; and the engine has dispatched one command to the entity whose name is the chosen event,
  whose payload is the guard arguments, and whose identity depends on owner, tick, entity, configuration, scope and event only.
\<close>

theorem probabilistic_dispatch_executes_decision:
  assumes "class_topology env" and "cache_ok env (fw_graphs s)"
    and "dispatch_probabilistic env cfg entity kwargs scope cause s = (Inr d, s')"
  shows "cache_ok env (fw_graphs s') \<and> (\<exists>chart graph c. chart_for (de_registry env) entity = Inr chart \<and>
    graph_from_statechart (de_uuid5 env) chart = Inr graph \<and>
    decide_transition (de_random env) (ck_tick (lv_clock (wd_live (fw_world s)))) chart graph (policy_from_statechart chart) entity
      (wd_live (fw_world s)) (Some (scenario_weights (wd_live (fw_world s)))) kwargs scope = Inr d \<and>
    td_edges d \<noteq> [] \<and> set (td_edges d) \<subseteq> {e \<in> set graph. te_event e = Some (td_event d) \<and> te_source e \<in> set (td_configuration d)} \<and>
    cm_name c = td_event d \<and> cm_entity_type c = en_entity_type entity \<and> cm_entity_id c = en_id entity \<and> cm_payload c = kwargs \<and>
    cm_due_at c = ck_now (lv_clock (wd_live (fw_world s))) \<and> cm_owner_id c = mf_owner_id (fw_commands s) \<and>
    deterministic_id (de_uuid5 env) ''command'' ((case mf_owner_id (fw_commands s) of None \<Rightarrow> [] | Some owner \<Rightarrow> [PStr owner]) @
      probabilistic_key (ck_tick (lv_clock (wd_live (fw_world s)))) entity d scope) = Inr (cm_command_id c) \<and>
    dispatch cfg c (fw_world s) = (Inr (), fw_world s'))"
proof -
  obtain r s1 where ch: "choose_transition env entity kwargs scope s = (r, s1)" by fastforce
  note S = choose_transition_sound [OF assms(1,2) ch]
  from assms(3) ch have r: "r = Inr d" by (auto simp: dispatch_probabilistic_def bind_m_def return_m_def split: prod.splits sum.splits)
  from S r obtain chart graph where c: "chart_for (de_registry env) entity = Inr chart" "graph_from_statechart (de_uuid5 env) chart = Inr graph"
    and d: "decide_transition (de_random env) (ck_tick (lv_clock (wd_live (fw_world s)))) chart graph (policy_from_statechart chart) entity
      (wd_live (fw_world s)) (Some (scenario_weights (wd_live (fw_world s)))) kwargs scope = Inr d" by blast
  have edges: "td_edges d \<noteq> []" "set (td_edges d) \<subseteq> {e \<in> set graph. te_event e = Some (td_event d) \<and> te_source e \<in> set (td_configuration d)}"
    using decide_legal [OF d] by auto
  let ?q = "\<lparr>mq_name = td_event d, mq_target = entity, mq_due_at = None, mq_caused_by = cause, mq_correlation_id = None, mq_payload = kwargs,
     mq_key = Some (probabilistic_key (ck_tick (lv_clock (wd_live (fw_world s)))) entity d scope), mq_payload_fields = []\<rparr>"
  from assms(3) ch r S have cd: "create_and_dispatch (de_uuid5 env) cfg ?q s1 = (Inr (), s')"
    by (auto simp: dispatch_probabilistic_def bind_m_def return_m_def split: prod.splits sum.splits)
  then obtain cmd f where cmd: "create_command (de_uuid5 env) (lv_clock (wd_live (fw_world s))) ?q (fw_commands s) = (Inr cmd, f)"
    and dis: "dispatch cfg cmd (fw_world s) = (Inr (), fw_world s')" and g: "fw_graphs s' = fw_graphs s1"
    using S by (auto simp: create_and_dispatch_def split: prod.splits sum.splits)
  have ne: "probabilistic_key t entity d scope \<noteq> []" for t by (simp add: probabilistic_key_def)
  from cmd have "cm_name cmd = td_event d \<and> cm_entity_type cmd = en_entity_type entity \<and> cm_entity_id cmd = en_id entity \<and> cm_payload cmd = kwargs \<and>
    cm_due_at cmd = ck_now (lv_clock (wd_live (fw_world s))) \<and> cm_owner_id cmd = mf_owner_id (fw_commands s) \<and>
    deterministic_id (de_uuid5 env) ''command'' ((case mf_owner_id (fw_commands s) of None \<Rightarrow> [] | Some owner \<Rightarrow> [PStr owner]) @
      probabilistic_key (ck_tick (lv_clock (wd_live (fw_world s)))) entity d scope) = Inr (cm_command_id cmd)"
    by (auto simp: create_command_def Let_def identity_parts_def merge_payload_def ne)
  with S g c d edges dis show ?thesis by auto
qed

text \<open>A lamp with one transition.\<close>

definition switch_edge :: transition_edge where
  "switch_edge = \<lparr>te_edge_id = ''w'', te_source = ''off'', te_targets = [''on''], te_event = Some ''switch'',
     te_metadata = [(''internal'', PBool False), (''initial'', PBool False)]\<rparr>"

definition lamp_chart :: "(nat, (nat, unit) live) chart_view" where
  "lamp_chart = \<lparr>cv_type = 0, cv_type_name = ''Lamp'',
     cv_states = [ChartState ''off'' [\<lparr>xt_identity = 0, xt_source = ''off'', xt_targets = [''on''], xt_events = [''switch''],
       xt_internal = False, xt_initial = False\<rparr>] [], ChartState ''on'' [] []],
     cv_configuration_values = None, cv_current_state_value = Some ''off'', cv_enabled_events = None, cv_policy = None\<rparr>"

definition lamp_env :: "(nat, unit) decision_env" where
  "lamp_env = \<lparr>de_uuid5 = lamp_digest, de_random = review_env, de_registry = [(''lamp'', \<lambda>_. Inr lamp_chart)]\<rparr>"

definition lamp_factories :: "(nat, unit) factory_world" where
  "lamp_factories = \<lparr>fw_commands = bound_factory ''me'', fw_graphs = [], fw_world = lamp_world\<rparr>"

definition switch_decision :: transition_decision where
  "switch_decision = \<lparr>td_event = ''switch'', td_weight = Fin 1, td_probability = Fin 1, td_draw = Fin (7 / 8),
     td_configuration = [''off''], td_edges = [switch_edge]\<rparr>"

lemmas identity_eval = deterministic_id_def encode_deterministic_parts_def encode_scalar_def frame_of_def dec_int_def dec_nat_small
  lamp_digest_def

lemma lamp_graph: "graph_from_statechart lamp_digest lamp_chart = Inr [switch_edge]"
  by (simp add: graph_from_statechart_def lamp_chart_def walk_states_def chart_edge_def edge_id_of_def mk_transition_edge_def
      mk_transition_graph_def identity_eval guards.simps switch_edge_def)

lemma lamp_distribution:
  "transition_distribution [switch_edge] [''off''] default_policy lamp l None (Some (scenario_weights (wd_live lamp_world))) =
     Inr [\<lparr>to_event = ''switch'', to_weight = Fin 1, to_probability = Fin 1, to_edges = [switch_edge]\<rparr>]"
proof -
  have "sort_key fst (event_edges [switch_edge] [''off''] None) = [(''switch'', [switch_edge])]"
    by (simp add: event_edges_def outgoing_def available_from_def group_edge_def switch_edge_def)
  then show ?thesis
    by (simp add: transition_distribution_def is_probabilistically_eligible_def default_policy_def event_weight_def
        weight_for_def Let_def guards.simps float_sub_def scenario_weights_def transform_transition_weight_def
        transition_weight_multiplier_def active_activations_def ordered_activations_def by_key_def lamp_world_def new_world_def empty_memory_def)
qed

lemma lamp_decides:
  "decide_transition review_env 0 lamp_chart [switch_edge] default_policy lamp (wd_live lamp_world)
     (Some (scenario_weights (wd_live lamp_world))) Mapping.empty [] = Inr switch_decision"
proof -
  have "scoped_seed (rn_blake2b review_env) (rn_root_seed review_env) [PStr ''transition'', PInt 0, PStr ''lamp'', PStr ''l'', PStr ''off''] = Inr 0"
    by (simp add: scoped_seed_def identity_eval review_env_def)
  moreover have "en_entity_type lamp = ''lamp''" "en_id lamp = ''l''" by (simp_all add: lamp_def)
  ultimately show ?thesis
    by (simp add: decide_transition_def configuration_values_def enabled_events_def mk_state_configuration_def guards.simps
        lamp_chart_def lamp_distribution sample_transition_def Let_def review_env_def switch_decision_def)
qed

lemma lamp_switched:
  assumes "cm_owner_id c = Some ''me''" and "cm_entity_type c = ''lamp''" and "cm_entity_id c = ''l''"
  shows "\<exists>w'. dispatch lamp_config c lamp_world = (Inr (), w')"
  using assms by (simp add: engine_eval lamp_defs Let_def dispatch_def then_return_def)

theorem probabilistic_dispatch_executes_decision_witness:
  "\<exists>s' c. dispatch_probabilistic lamp_env lamp_config lamp Mapping.empty [] None lamp_factories = (Inr switch_decision, s') \<and>
     cm_name c = ''switch'' \<and> cm_entity_id c = ''l'' \<and> dispatch lamp_config c lamp_world = (Inr (), fw_world s')"
proof -
  have topology: "class_topology lamp_env"
    by (auto simp: class_topology_def lamp_env_def chart_for_def split: if_splits option.splits)
  have lamp: "chart_for (de_registry lamp_env) lamp = Inr lamp_chart" by (simp add: chart_for_def lamp_env_def lamp_def)
  have tick: "ck_tick (lv_clock (wd_live lamp_world)) = 0" by (simp add: lamp_world_def new_world_def lamp_clock_def)
  have policy: "policy_from_statechart lamp_chart = default_policy" by (simp add: policy_from_statechart_def lamp_chart_def)
  have parts: "de_uuid5 lamp_env = lamp_digest" "de_random lamp_env = review_env" "cv_type lamp_chart = 0"
    by (simp_all add: lamp_env_def lamp_chart_def)
  let ?s = "lamp_factories\<lparr>fw_graphs := [(0, [switch_edge])]\<rparr>"
  have choose: "choose_transition lamp_env lamp Mapping.empty [] lamp_factories = (Inr switch_decision, ?s)"
    using lamp_decides lamp_graph lamp tick policy
    by (simp add: choose_transition_def chart_decide_def chart_graph_def lamp_factories_def parts)
  let ?q = "\<lparr>mq_name = td_event switch_decision, mq_target = lamp, mq_due_at = None, mq_caused_by = None, mq_correlation_id = None,
     mq_payload = Mapping.empty, mq_key = Some (probabilistic_key 0 lamp switch_decision []), mq_payload_fields = []\<rparr>"
  obtain c f where c: "create_command lamp_digest (lv_clock (wd_live lamp_world)) ?q (bound_factory ''me'') = (Inr c, f)"
    "cm_owner_id c = Some ''me''" "cm_entity_type c = ''lamp''" "cm_entity_id c = ''l''"
    by (simp add: create_command_def identity_parts_def probabilistic_key_def bound_factory_def identity_eval lamp_def switch_decision_def Let_def)
  from lamp_switched [OF c(2-4)] obtain w' where w': "dispatch lamp_config c lamp_world = (Inr (), w')" by blast
  have run: "dispatch_probabilistic lamp_env lamp_config lamp Mapping.empty [] None lamp_factories =
      (Inr switch_decision, ?s\<lparr>fw_commands := f, fw_world := w'\<rparr>)"
    using choose c(1) w' tick
    by (simp add: dispatch_probabilistic_def bind_m_def return_m_def create_and_dispatch_def lamp_factories_def parts)
  from probabilistic_dispatch_executes_decision [OF topology _ run] obtain c' where
    "cm_name c' = ''switch''" "cm_entity_id c' = ''l''" "dispatch lamp_config c' lamp_world = (Inr (), w')"
    by (auto simp: lamp_factories_def switch_decision_def lamp_def)
  with run show ?thesis by auto
qed

end
