(* ===== verification/Containers.thy ===== *)
theory Containers
  imports Memory_Persistence Recoverable
begin

text \<open>
  \<open>core/containers.py\<close>: \<open>DurableContainerManager\<close>, which keeps quantities (levels), pending
  put and get intents and completed results in the durable state and replays them into an
  ephemeral backend. The backend is a parameter: a record of the calls the manager makes, on an
  abstract backend state. Its completion callback is the operation \<open>completed\<close>, which the
  backend may invoke at any time; the callback a caller passed is an opaque token returned with the
  result it is called with.
\<close>

section \<open>The backend interface\<close>

record ('b, 'cb) container_backend =
  cb_now :: "'b \<Rightarrow> datetime"
  cb_create_container :: "string \<Rightarrow> pyfloat \<Rightarrow> pyfloat \<Rightarrow> ('b, unit) meth"
  cb_put_container :: "string \<Rightarrow> string \<Rightarrow> pyfloat \<Rightarrow> 'cb option \<Rightarrow> ('b, unit) meth"
  cb_get_container :: "string \<Rightarrow> string \<Rightarrow> pyfloat \<Rightarrow> 'cb option \<Rightarrow> ('b, unit) meth"

section \<open>Definitions and lookups\<close>

definition define_body :: "container_definition \<Rightarrow> container_state \<Rightarrow> ('v, unit) tx_body" where
  "define_body definition state u =
     bind_res (save_container_definition definition u) (\<lambda>u.
     bind_res (guards
       [(case get_container_state (cd_name definition) u of None \<Rightarrow> False | Some existing \<Rightarrow> existing \<noteq> state,
         ValueError (''container state already exists: '' @ cd_name definition))] ()) (\<lambda>_.
     bind_res (save_container_state state u) (\<lambda>u. Inr ((), u))))"

definition define_container :: "container_definition \<Rightarrow> ('v persistence, unit) meth" where
  "define_container definition p =
     (case mk_container_state \<lparr>cs_name = cd_name definition, cs_level = cd_initial definition\<rparr> of
        Inl e \<Rightarrow> (Inl e, p)
      | Inr state \<Rightarrow> transaction None (define_body definition state) p)"

definition container_result :: "string \<Rightarrow> 'v persistence \<Rightarrow> container_operation_result option" where
  "container_result request_id p = find (\<lambda>r. cr_request_id r = request_id) (container_operation_results p)"

definition pending_intent :: "string \<Rightarrow> 'v persistence \<Rightarrow> container_operation_intent res" where
  "pending_intent request_id p =
     (case find (\<lambda>i. ci_request_id i = request_id) (container_operation_intents p) of
        None \<Rightarrow> Inl (KeyError (''unknown container operation intent: '' @ request_id))
      | Some i \<Rightarrow> Inr i)"

definition container_state_of :: "string \<Rightarrow> 'v persistence \<Rightarrow> container_state res" where
  "container_state_of container_name p =
     (case find (\<lambda>s. cs_name s = container_name) (container_states p) of
        None \<Rightarrow> Inl (KeyError (''unknown durable container state: '' @ container_name))
      | Some s \<Rightarrow> Inr s)"

definition container_definition_of :: "string \<Rightarrow> 'v persistence \<Rightarrow> container_definition res" where
  "container_definition_of name p =
     (case find (\<lambda>d. cd_name d = name) (container_definitions p) of
        None \<Rightarrow> Inl (KeyError (''unknown container definition: '' @ name))
      | Some d \<Rightarrow> Inr d)"

definition next_container_sequence :: "'v persistence \<Rightarrow> int" where
  "next_container_sequence p = next_seq
     (map ci_sequence (container_operation_intents p) @ map cr_sequence (container_operation_results p))"

section \<open>Committing an operation\<close>

definition level_change :: "string \<Rightarrow> pyfloat \<Rightarrow> pyfloat \<Rightarrow> pyfloat" where
  "level_change operation level amount =
     (if operation = ''put'' then float_add level amount else float_sub level amount)"

definition commit_body ::
  "string \<Rightarrow> container_operation_intent \<Rightarrow> container_state \<Rightarrow> container_state \<Rightarrow> container_operation_result
     \<Rightarrow> ('v, container_operation_result) tx_body" where
  "commit_body request_id intent state next_state result u =
     (if get_container_operation_intent request_id u \<noteq> Some intent
      then (case get_container_operation_result request_id u of
          Some c \<Rightarrow> Inr (c, u)
        | None \<Rightarrow> Inl (RuntimeError (''container operation intent changed: '' @ request_id)))
      else if get_container_state (ci_container_name intent) u \<noteq> Some state
      then Inl (RuntimeError (''container state changed before operation commit: '' @ request_id))
      else
        bind_res (save_container_state next_state u) (\<lambda>u.
        bind_res (save_container_operation_result result u) (\<lambda>u.
        bind_res (delete_container_operation_intent request_id u) (\<lambda>u. Inr (result, u)))))"

text \<open>The records a completion writes, or the reason it cannot.\<close>

definition prepare_commit ::
  "string \<Rightarrow> datetime \<Rightarrow> 'v persistence \<Rightarrow>
     (container_operation_intent \<times> container_state \<times> container_state \<times> container_operation_result) res" where
  "prepare_commit request_id completed_at p =
     bind_res (pending_intent request_id p) (\<lambda>intent.
     bind_res (container_state_of (ci_container_name intent) p) (\<lambda>state.
     bind_res (container_definition_of (ci_container_name intent) p) (\<lambda>definition.
     let level_after = level_change (ci_operation intent) (cs_level state) (ci_amount intent)
     in bind_res (guards
          [(float_lt level_after (Fin 0) \<or> float_lt (cd_capacity definition) level_after,
            RuntimeError (''backend completed infeasible container operation: '' @ request_id))] ()) (\<lambda>_.
        bind_res (mk_container_operation_result
          \<lparr>cr_request_id = ci_request_id intent, cr_container_name = ci_container_name intent,
           cr_operation = ci_operation intent, cr_amount = ci_amount intent,
           cr_completed_at = completed_at, cr_level_before = cs_level state,
           cr_level_after = level_after, cr_sequence = ci_sequence intent\<rparr>) (\<lambda>result.
        bind_res (mk_container_state \<lparr>cs_name = ci_container_name intent, cs_level = level_after\<rparr>)
          (\<lambda>next_state. Inr (intent, state, next_state, result)))))))"

definition commit_operation ::
  "string \<Rightarrow> datetime \<Rightarrow> ('v persistence, container_operation_result) meth" where
  "commit_operation request_id completed_at p =
     (case container_result request_id p of
        Some existing \<Rightarrow> (Inr existing, p)
      | None \<Rightarrow>
        (case prepare_commit request_id completed_at p of
           Inl e \<Rightarrow> (Inl e, p)
         | Inr (intent, state, next_state, result) \<Rightarrow>
             transaction None (commit_body request_id intent state next_state result) p))"

text \<open>The callback the manager hands to the backend.\<close>

definition container_completed ::
  "string \<Rightarrow> 'cb option \<Rightarrow> datetime \<Rightarrow> ('v persistence, ('cb \<times> container_operation_result) option) meth" where
  "container_completed request_id on_completed now =
     bind_m (commit_operation request_id now) (\<lambda>result. return_m (map_option (\<lambda>cb. (cb, result)) on_completed))"

section \<open>Requests\<close>

definition submit_intent ::
  "('b, 'cb) container_backend \<Rightarrow> container_operation_intent \<Rightarrow> 'cb option \<Rightarrow> ('b, unit) meth" where
  "submit_intent B intent on_completed =
     (if ci_operation intent = ''put''
      then cb_put_container B (ci_container_name intent) (ci_request_id intent) (ci_amount intent) on_completed
      else cb_get_container B (ci_container_name intent) (ci_request_id intent) (ci_amount intent) on_completed)"

text \<open>The checks of \<open>_request\<close> and the intent they let through.\<close>

definition new_intent ::
  "string \<Rightarrow> string \<Rightarrow> string \<Rightarrow> pyfloat \<Rightarrow> datetime \<Rightarrow> 'v persistence \<Rightarrow> container_operation_intent res" where
  "new_intent container_name request_id operation amount requested_at p =
     bind_res (container_definition_of container_name p) (\<lambda>_.
     bind_res (guards
       [(list_ex (\<lambda>i. ci_request_id i = request_id) (container_operation_intents p) \<or>
         list_ex (\<lambda>r. cr_request_id r = request_id) (container_operation_results p),
         ValueError (''container request already exists: '' @ request_id))] ()) (\<lambda>_.
     mk_container_operation_intent
       \<lparr>ci_request_id = request_id, ci_container_name = container_name, ci_operation = operation,
        ci_amount = amount, ci_requested_at = requested_at, ci_sequence = next_container_sequence p\<rparr>))"

definition save_intent_body :: "container_operation_intent \<Rightarrow> ('v, container_operation_intent) tx_body" where
  "save_intent_body intent u = bind_res (save_container_operation_intent intent u) (\<lambda>u. Inr (intent, u))"

definition record_intent ::
  "string \<Rightarrow> string \<Rightarrow> string \<Rightarrow> pyfloat \<Rightarrow> datetime \<Rightarrow> ('v persistence, container_operation_intent) meth" where
  "record_intent container_name request_id operation amount requested_at p =
     (case new_intent container_name request_id operation amount requested_at p of
        Inl e \<Rightarrow> (Inl e, p)
      | Inr intent \<Rightarrow> transaction None (save_intent_body intent) p)"

definition request_container ::
  "('b, 'cb) container_backend \<Rightarrow> string \<Rightarrow> string \<Rightarrow> string \<Rightarrow> pyfloat \<Rightarrow> datetime \<Rightarrow> 'cb option
     \<Rightarrow> ('v persistence \<times> 'b, container_operation_intent) meth" where
  "request_container B container_name request_id operation amount requested_at on_completed w =
     (case record_intent container_name request_id operation amount requested_at (fst w) of
        (Inl e, p) \<Rightarrow> (Inl e, (p, snd w))
      | (Inr intent, p) \<Rightarrow>
          (case submit_intent B intent on_completed (snd w) of
             (Inl e, b) \<Rightarrow> (Inl e, (p, b))
           | (Inr _, b) \<Rightarrow> (Inr intent, (p, b))))"

definition put_container where
  "put_container B container_name request_id amount requested_at on_completed =
     request_container B container_name request_id ''put'' amount requested_at on_completed"

definition get_container where
  "get_container B container_name request_id amount requested_at on_completed =
     request_container B container_name request_id ''get'' amount requested_at on_completed"

section \<open>Recovery\<close>

definition validate_definitions_and_states ::
  "(string \<times> container_definition) list \<Rightarrow> (string \<times> container_state) list \<Rightarrow> unit res" where
  "validate_definitions_and_states definitions states =
     bind_res (each_ok (\<lambda>(name, definition). case dget states name of
         None \<Rightarrow> Inl (RuntimeError (''container '' @ name @ '' is missing durable state''))
       | Some state \<Rightarrow> if float_lt (cd_capacity definition) (cs_level state)
           then Inl (RuntimeError (''container '' @ name @ '' level exceeds capacity'')) else Inr ()) definitions)
     (\<lambda>_. each_ok (\<lambda>(name, _). if \<not> dhas definitions name
         then Inl (RuntimeError (''container state references unknown definition: '' @ name)) else Inr ()) states)"

definition validate_result_record ::
  "(string \<times> container_definition) list \<Rightarrow> container_operation_result \<Rightarrow> unit res" where
  "validate_result_record definitions result = (case dget definitions (cr_container_name result) of
     None \<Rightarrow> Inl (RuntimeError (''container result references unknown definition: '' @ cr_request_id result))
   | Some definition \<Rightarrow> guards
       [(\<not> float_eq (cr_level_after result)
            (level_change (cr_operation result) (cr_level_before result) (cr_amount result)),
         RuntimeError (''container result has inconsistent level delta: '' @ cr_request_id result)),
        (float_lt (cr_level_after result) (Fin 0) \<or> float_lt (cd_capacity definition) (cr_level_after result),
         RuntimeError (''container result level is outside capacity: '' @ cr_request_id result))] ())"

definition validate_pending_and_completed_operations ::
  "(string \<times> container_definition) list \<Rightarrow> 'v persistence \<Rightarrow> unit res" where
  "validate_pending_and_completed_operations definitions p =
     (let results = dict_of cr_request_id (container_operation_results p)
      in bind_res (each_ok (\<lambda>i. guards
           [(\<not> dhas definitions (ci_container_name i),
             RuntimeError (''container operation references unknown definition: '' @ ci_request_id i)),
            (dhas results (ci_request_id i),
             RuntimeError (''container request is both pending and completed: '' @ ci_request_id i))] ())
           (container_operation_intents p))
         (\<lambda>_. each_ok (validate_result_record definitions) (dvalues results)))"

definition validate_container_rebuild :: "'v persistence \<Rightarrow> unit res" where
  "validate_container_rebuild p =
     (let definitions = dict_of cd_name (container_definitions p); states = dict_of cs_name (container_states p)
      in bind_res (validate_definitions_and_states definitions states)
           (\<lambda>_. validate_pending_and_completed_operations definitions p))"

definition rebuild_container_backend ::
  "('b, 'cb) container_backend \<Rightarrow> 'v persistence \<Rightarrow> ('b, nat) meth" where
  "rebuild_container_backend B p b =
     (case validate_container_rebuild p of
        Inl e \<Rightarrow> (Inl e, b)
      | Inr _ \<Rightarrow>
        (let definitions = dict_of cd_name (container_definitions p);
             states = dict_of cs_name (container_states p);
             intents = sort_key (\<lambda>i. (ci_sequence i, ci_request_id i)) (container_operation_intents p)
         in bind_m (each_m (\<lambda>d. case dget states (cd_name d) of
                None \<Rightarrow> raise_m (KeyError (cd_name d))
              | Some s \<Rightarrow> cb_create_container B (cd_name d) (cd_capacity d) (cs_level s)) (dvalues definitions))
            (\<lambda>_. bind_m (each_m (\<lambda>i. submit_intent B i None) intents)
            (\<lambda>_. return_m (length definitions + length intents))) b))"

section \<open>The invariant\<close>

definition level_ok :: "pyfloat \<Rightarrow> pyfloat \<Rightarrow> bool" where
  "level_ok capacity level \<longleftrightarrow> isfinite level \<and> \<not> float_lt level (Fin 0) \<and> \<not> float_lt capacity level"

text \<open>The results of one container, in the order they were committed, lead from one level to another.\<close>

fun level_chain :: "pyfloat \<Rightarrow> container_operation_result list \<Rightarrow> pyfloat \<Rightarrow> bool" where
  "level_chain start [] level \<longleftrightarrow> start = level"
| "level_chain start (r # rs) level \<longleftrightarrow> cr_level_before r = start \<and> level_chain (cr_level_after r) rs level"

definition results_of :: "string \<Rightarrow> 'v state \<Rightarrow> container_operation_result list" where
  "results_of name s = filter (\<lambda>r. cr_container_name r = name) (dvalues (st_container_operation_results s))"

definition container_keys :: "'v state \<Rightarrow> bool" where
  "container_keys s \<longleftrightarrow> keyed cd_name (st_container_definitions s) \<and> keyed cs_name (st_container_states s) \<and>
     keyed ci_request_id (st_container_operation_intents s) \<and> keyed cr_request_id (st_container_operation_results s)"

definition container_levels :: "'v state \<Rightarrow> bool" where
  "container_levels s \<longleftrightarrow>
     (\<forall>n. map_of (st_container_definitions s) n = None \<longleftrightarrow> map_of (st_container_states s) n = None) \<and>
     (\<forall>n d c. map_of (st_container_definitions s) n = Some d \<longrightarrow> map_of (st_container_states s) n = Some c \<longrightarrow>
        level_ok (cd_capacity d) (cs_level c) \<and> level_chain (cd_initial d) (results_of n s) (cs_level c))"

definition container_intents :: "'v state \<Rightarrow> bool" where
  "container_intents s \<longleftrightarrow>
     (\<forall>k i. map_of (st_container_operation_intents s) k = Some i \<longrightarrow>
        map_of (st_container_definitions s) (ci_container_name i) \<noteq> None \<and>
        map_of (st_container_operation_results s) k = None \<and> mk_container_operation_intent i = Inr i)"

definition container_results :: "'v state \<Rightarrow> bool" where
  "container_results s \<longleftrightarrow>
     (\<forall>k r. map_of (st_container_operation_results s) k = Some r \<longrightarrow>
        (\<exists>d. map_of (st_container_definitions s) (cr_container_name r) = Some d \<and>
           level_ok (cd_capacity d) (cr_level_after r) \<and>
           cr_level_after r = level_change (cr_operation r) (cr_level_before r) (cr_amount r)))"

definition container_inv :: "'v state \<Rightarrow> bool" where
  "container_inv s \<longleftrightarrow> container_keys s \<and> container_levels s \<and> container_intents s \<and> container_results s"

lemmas container_inv_defs = container_inv_def container_keys_def container_levels_def container_intents_def
  container_results_def

lemma level_chain_append:
  "level_chain a (rs @ [r]) c \<longleftrightarrow> level_chain a rs (cr_level_before r) \<and> cr_level_after r = c"
  by (induction rs arbitrary: a) auto

lemma level_chain_deterministic: "level_chain a rs b \<Longrightarrow> level_chain a rs c \<Longrightarrow> b = c"
  by (induction rs arbitrary: a) auto

section \<open>Lookups on keyed collections\<close>

lemma container_finds:
  assumes "container_keys (pstate p)"
  shows "container_result k p = map_of (st_container_operation_results (pstate p)) k"
    and "find (\<lambda>i. ci_request_id i = k) (container_operation_intents p) = map_of (st_container_operation_intents (pstate p)) k"
    and "find (\<lambda>s. cs_name s = n) (container_states p) = map_of (st_container_states (pstate p)) n"
    and "find (\<lambda>d. cd_name d = n) (container_definitions p) = map_of (st_container_definitions (pstate p)) n"
  using assms unfolding container_result_def container_keys_def
  by (auto intro!: find_keyed simp: container_operation_results_def container_operation_intents_def
      container_states_def container_definitions_def)

section \<open>What the operations do to the durable state\<close>

lemma define_body_effect:
  assumes "define_body d c (new_uow s) = Inr (a, u)" and "cs_name c = cd_name d"
  shows "(map_of (st_container_definitions s) (cd_name d) = None \<or> map_of (st_container_definitions s) (cd_name d) = Some d) \<and>
    (map_of (st_container_states s) (cd_name d) = None \<or> map_of (st_container_states s) (cd_name d) = Some c) \<and>
    \<not> float_lt (cd_capacity d) (cs_level c) \<and>
    working u = s\<lparr>st_container_definitions := dset (cd_name d) d (st_container_definitions s),
      st_container_states := dset (cd_name d) c (st_container_states s)\<rparr>"
  using assms by (auto simp: define_body_def save_container_definition_def save_container_state_def
      get_container_state_def mark_dirty_def new_uow_def split: option.splits)

lemma define_container_effect:
  assumes "define_container d p = (r, p')"
  defines "c \<equiv> \<lparr>cs_name = cd_name d, cs_level = cd_initial d\<rparr>"
  shows "p' = p \<or>
    mk_container_state c = Inr c \<and>
    (map_of (st_container_definitions (pstate p)) (cd_name d) = None \<or>
     map_of (st_container_definitions (pstate p)) (cd_name d) = Some d) \<and>
    (map_of (st_container_states (pstate p)) (cd_name d) = None \<or>
     map_of (st_container_states (pstate p)) (cd_name d) = Some c) \<and>
    \<not> float_lt (cd_capacity d) (cs_level c) \<and>
    p' = p\<lparr>pstate := (pstate p)\<lparr>st_container_definitions := dset (cd_name d) d (st_container_definitions (pstate p)),
      st_container_states := dset (cd_name d) c (st_container_states (pstate p))\<rparr>\<rparr>"
proof (cases "mk_container_state c")
  case (Inl e)
  with assms show ?thesis by (simp add: define_container_def)
next
  case (Inr c')
  then have c: "mk_container_state c = Inr c" by (auto simp: mk_container_state_def)
  with assms(1) have "transaction None (define_body d c) p = (r, p')"
    by (simp add: define_container_def c_def)
  then show ?thesis
  proof (cases rule: transaction_cases)
    case (2 a u)
    from define_body_effect [OF 2(2)] c 2(4) show ?thesis by (simp add: c_def)
  qed simp
qed

lemma record_intent_effect:
  assumes "record_intent n q op amount t p = (r, p')" and "container_keys (pstate p)"
  shows "p' = p \<or>
    (let i = \<lparr>ci_request_id = q, ci_container_name = n, ci_operation = op, ci_amount = amount,
        ci_requested_at = t, ci_sequence = next_container_sequence p\<rparr> in
     r = Inr i \<and> mk_container_operation_intent i = Inr i \<and>
     map_of (st_container_definitions (pstate p)) n \<noteq> None \<and>
     map_of (st_container_operation_intents (pstate p)) q = None \<and>
     map_of (st_container_operation_results (pstate p)) q = None \<and>
     p' = p\<lparr>pstate := (pstate p)\<lparr>st_container_operation_intents :=
       dset q i (st_container_operation_intents (pstate p))\<rparr>\<rparr>)"
proof (cases "new_intent n q op amount t p")
  case (Inl e)
  with assms(1) show ?thesis by (simp add: record_intent_def)
next
  case (Inr i)
  then have mk: "mk_container_operation_intent i = Inr i"
    and i: "i = \<lparr>ci_request_id = q, ci_container_name = n, ci_operation = op, ci_amount = amount,
      ci_requested_at = t, ci_sequence = next_container_sequence p\<rparr>"
    and known: "map_of (st_container_definitions (pstate p)) n \<noteq> None"
    and fresh: "map_of (st_container_operation_intents (pstate p)) q = None"
      "map_of (st_container_operation_results (pstate p)) q = None"
    using container_finds [OF assms(2)]
    by (auto simp: new_intent_def container_definition_of_def container_result_def list_ex_find
        mk_container_operation_intent_def split: option.splits)
  from assms(1) Inr have "transaction None (save_intent_body i) p = (r, p')" by (simp add: record_intent_def)
  then show ?thesis
  proof (cases rule: transaction_cases)
    case (2 a u)
    with mk known fresh show ?thesis
      by (auto simp: Let_def i save_intent_body_def save_container_operation_intent_def mark_dirty_def new_uow_def)
  qed simp
qed

text \<open>The result record of a completion.\<close>

definition completion_of ::
  "container_operation_intent \<Rightarrow> container_state \<Rightarrow> datetime \<Rightarrow> container_operation_result" where
  "completion_of i c t = \<lparr>cr_request_id = ci_request_id i, cr_container_name = ci_container_name i,
     cr_operation = ci_operation i, cr_amount = ci_amount i, cr_completed_at = t, cr_level_before = cs_level c,
     cr_level_after = level_change (ci_operation i) (cs_level c) (ci_amount i), cr_sequence = ci_sequence i\<rparr>"

lemma prepare_commit_Inr:
  assumes "prepare_commit q t p = Inr (i, c, c', x)" and "container_keys (pstate p)"
  shows "map_of (st_container_operation_intents (pstate p)) q = Some i"
    and "map_of (st_container_states (pstate p)) (ci_container_name i) = Some c"
    and "\<exists>d. map_of (st_container_definitions (pstate p)) (ci_container_name i) = Some d \<and>
      level_ok (cd_capacity d) (cr_level_after x)"
    and "x = completion_of i c t"
    and "c' = \<lparr>cs_name = ci_container_name i, cs_level = cr_level_after x\<rparr>"
  using assms(1) container_finds [OF assms(2)]
  by (auto simp: prepare_commit_def Let_def pending_intent_def container_state_of_def container_definition_of_def
      mk_container_operation_result_def mk_container_state_def level_ok_def completion_of_def
      split: option.splits)

lemma commit_body_effect:
  assumes "commit_body q i c c' x (new_uow s) = Inr (a, u)"
    and "map_of (st_container_operation_intents s) q = Some i"
    and "map_of (st_container_states s) (ci_container_name i) = Some c"
    and "map_of (st_container_operation_results s) q = None"
    and "cr_request_id x = q"
  shows "a = x \<and> working u = s\<lparr>st_container_states := dset (cs_name c') c' (st_container_states s),
    st_container_operation_results := dset q x (st_container_operation_results s),
    st_container_operation_intents := dpop q (st_container_operation_intents s)\<rparr>"
  using assms
  by (auto simp: commit_body_def get_container_operation_intent_def get_container_state_def save_container_state_def
      save_container_operation_result_def delete_container_operation_intent_def mark_dirty_def new_uow_def)

lemma commit_operation_cases:
  assumes "commit_operation q t p = (r, p')" and inv: "container_inv (pstate p)"
  obtains (raised) e where "r = Inl e" and "p' = p"
  | (known) x where "map_of (st_container_operation_results (pstate p)) q = Some x" and "r = Inr x" and "p' = p"
  | (fresh) i c d x where "map_of (st_container_operation_results (pstate p)) q = None"
      and "map_of (st_container_operation_intents (pstate p)) q = Some i"
      and "map_of (st_container_states (pstate p)) (ci_container_name i) = Some c"
      and "map_of (st_container_definitions (pstate p)) (ci_container_name i) = Some d"
      and "level_ok (cd_capacity d) (cr_level_after x)" and "x = completion_of i c t" and "ci_request_id i = q"
      and "r = Inr x"
      and "p' = p\<lparr>pstate := (pstate p)\<lparr>
        st_container_states := dset (ci_container_name i)
          \<lparr>cs_name = ci_container_name i, cs_level = cr_level_after x\<rparr> (st_container_states (pstate p)),
        st_container_operation_results := dset q x (st_container_operation_results (pstate p)),
        st_container_operation_intents := dpop q (st_container_operation_intents (pstate p))\<rparr>\<rparr>"
proof -
  from inv have keys: "container_keys (pstate p)" by (simp add: container_inv_def)
  note finds = container_finds [OF keys]
  show ?thesis
  proof (cases "map_of (st_container_operation_results (pstate p)) q")
    case (Some x)
    with assms(1) finds show ?thesis by (intro known) (auto simp: commit_operation_def)
  next
    case None
    show ?thesis
    proof (cases "prepare_commit q t p")
      case (Inl e)
      with assms(1) finds None show ?thesis by (intro raised) (auto simp: commit_operation_def)
    next
      case (Inr rs)
      obtain i c c' x where rs: "rs = (i, c, c', x)" by (cases rs)
      note prep = prepare_commit_Inr [OF Inr [unfolded rs] keys]
      have q: "ci_request_id i = q" using keys prep(1) by (auto simp: container_keys_def dest: keyed_lookup)
      from assms(1) finds None Inr rs have "transaction None (commit_body q i c c' x) p = (r, p')"
        by (simp add: commit_operation_def)
      then show ?thesis
      proof (cases rule: transaction_cases)
        case (2 a u)
        have "cr_request_id x = q" using prep(4) q by (simp add: completion_of_def)
        from commit_body_effect [OF 2(2) prep(1,2) None this] prep q 2 None show ?thesis
          by (auto intro: fresh)
      qed (rule raised)
    qed
  qed
qed

section \<open>Every operation keeps the invariant\<close>

lemma results_of_simps [simp]:
  "results_of n (s\<lparr>st_container_definitions := a\<rparr>) = results_of n s"
  "results_of n (s\<lparr>st_container_states := b\<rparr>) = results_of n s"
  "results_of n (s\<lparr>st_container_operation_intents := i\<rparr>) = results_of n s"
  by (simp_all add: results_of_def)

lemma results_of_undefined:
  assumes "container_results s" and "container_keys s" and "map_of (st_container_definitions s) n = None"
  shows "results_of n s = []"
proof -
  have "cr_container_name r \<noteq> n" if "r \<in> set (dvalues (st_container_operation_results s))" for r
  proof -
    have "map_of (st_container_operation_results s) (cr_request_id r) = Some r"
      using that assms(2) keyed_mem_iff by (metis container_keys_def)
    with assms(1,3) show ?thesis unfolding container_results_def by force
  qed
  then show ?thesis unfolding results_of_def by (auto simp: filter_empty_conv)
qed

lemma define_keeps:
  assumes "define_container d p = (r, p')" and inv: "container_inv (pstate p)"
  shows "container_inv (pstate p')"
proof -
  let ?s = "pstate p" and ?c = "\<lparr>cs_name = cd_name d, cs_level = cd_initial d\<rparr>"
  note inv' = inv [unfolded container_inv_defs]
  consider "p' = p"
    | (new) "map_of (st_container_definitions ?s) (cd_name d) = None" "map_of (st_container_states ?s) (cd_name d) = None"
    | (again) "map_of (st_container_definitions ?s) (cd_name d) = Some d" "map_of (st_container_states ?s) (cd_name d) = Some ?c"
    using define_container_effect [OF assms(1)] inv' by (metis option.distinct(1))
  then show ?thesis
  proof cases
    case new
    from inv have parts: "container_keys ?s" "container_levels ?s" "container_intents ?s" "container_results ?s"
      by (simp_all add: container_inv_def)
    note effect = define_container_effect [OF assms(1)]
    have none: "results_of (cd_name d) ?s = []" by (rule results_of_undefined [OF parts(4,1) new(1)])
    have other: "cr_container_name r \<noteq> cd_name d" if "map_of (st_container_operation_results ?s) k = Some r" for k r
      using that parts(4) new(1) unfolding container_results_def by force
    have "container_keys (pstate p')" using effect parts(1) by (auto simp: container_keys_def)
    moreover have "container_intents (pstate p')" using effect parts(3) by (auto simp: container_intents_def)
    moreover have "container_results (pstate p')"
      using effect parts(4) other by (auto simp: container_results_def)
    moreover have "container_levels (pstate p')"
      using effect parts(2) new none
      by (auto simp: container_levels_def mk_container_state_def level_ok_def split: if_splits)
    ultimately show ?thesis by (simp add: container_inv_def)
  next
    case again
    then show ?thesis
      using define_container_effect [OF assms(1)] inv'
      by (auto simp: container_inv_defs fun_upd_idem)
  qed (use inv in simp)
qed

lemma record_intent_keeps:
  assumes "record_intent n q op amount t p = (r, p')" and inv: "container_inv (pstate p)"
  shows "container_inv (pstate p')"
  using record_intent_effect [OF assms(1)] inv
  by (auto simp: container_inv_defs Let_def split: if_splits)

lemma commit_keeps:
  assumes "commit_operation q t p = (r, p')" and inv: "container_inv (pstate p)"
  shows "container_inv (pstate p')"
  using assms
proof (cases rule: commit_operation_cases)
  case (fresh i c d x)
  let ?s = "pstate p"
  have x: "cr_request_id x = q" "cr_container_name x = ci_container_name i" "cr_level_before x = cs_level c"
    "cr_level_after x = level_change (cr_operation x) (cr_level_before x) (cr_amount x)"
    using fresh by (simp_all add: completion_of_def)
  have res: "results_of n (pstate p') = results_of n ?s @ (if n = ci_container_name i then [x] else [])" for n
    using fresh x by (simp add: results_of_def update_new)
  from inv have parts: "container_keys ?s" "container_levels ?s" "container_intents ?s" "container_results ?s"
    by (simp_all add: container_inv_def)
  have "container_keys (pstate p')" using parts(1) fresh x by (simp add: container_keys_def)
  moreover have "container_levels (pstate p')"
    using parts(2) fresh x unfolding container_levels_def res by (auto simp: level_chain_append split: if_splits)
  moreover have "container_intents (pstate p')"
    using parts(3) fresh by (auto simp: container_intents_def split: if_splits)
  moreover have "container_results (pstate p')"
    using parts(4) fresh x by (auto simp: container_results_def split: if_splits)
  ultimately show ?thesis by (simp add: container_inv_def)
qed (use inv in simp_all)

section \<open>Reachable states\<close>

definition container_view ::
  "'v state \<Rightarrow> (string \<times> container_definition) list \<times> (string \<times> container_state) list \<times>
     (string \<times> container_operation_intent) list \<times> (string \<times> container_operation_result) list" where
  "container_view s = (st_container_definitions s, st_container_states s, st_container_operation_intents s,
     st_container_operation_results s)"

text \<open>
  A run of the manager: definitions, requests and completions in any order and at any time, whatever
  the backend does, interleaved with work on the other collections. Operations may raise.
\<close>

inductive container_step :: "'v persistence \<Rightarrow> 'v persistence \<Rightarrow> bool" where
  step_define: "define_container d p = (r, p') \<Longrightarrow> container_step p p'"
| step_request: "record_intent n q op amount t p = (r', p') \<Longrightarrow> container_step p p'"
| step_commit: "commit_operation q now p = (r', p') \<Longrightarrow> container_step p p'"
| step_other: "container_view (pstate p') = container_view (pstate p) \<Longrightarrow> container_step p p'"

text \<open>A request and a completion callback act on the durable state by such steps, whatever the backend.\<close>

lemma request_container_step:
  assumes "request_container B n q op amount t cb (p, b) = (r, (p', b'))"
  shows "container_step p p'"
  using assms by (auto simp: request_container_def intro: step_request split: prod.splits sum.splits)

lemma container_completed_step:
  assumes "container_completed q cb now p = (r, p')"
  shows "container_step p p'"
  using assms
  by (auto simp: container_completed_def bind_m_def return_m_def intro: step_commit split: prod.splits sum.splits)

lemma container_inv_view: "container_view s = container_view t \<Longrightarrow> container_inv s = container_inv t"
  by (simp add: container_view_def container_inv_defs results_of_def)

lemma container_inv_step: "container_step p p' \<Longrightarrow> container_inv (pstate p) \<Longrightarrow> container_inv (pstate p')"
proof (induction rule: container_step.induct)
  case (step_other p' p)
  then show ?case using container_inv_view by blast
qed (erule (1) define_keeps record_intent_keeps commit_keeps)+

lemma container_inv_init: "container_inv (pstate new_persistence)"
  by (simp add: new_persistence_def empty_state_def container_inv_defs)

lemma container_inv_valid:
  assumes inv: "container_inv (pstate p)"
  shows "validate_container_rebuild p = Inr ()"
proof -
  let ?s = "pstate p"
  from inv have keys: "keyed cd_name (st_container_definitions ?s)" "keyed cs_name (st_container_states ?s)"
    "keyed ci_request_id (st_container_operation_intents ?s)" "keyed cr_request_id (st_container_operation_results ?s)"
    and parts: "container_levels ?s" "container_intents ?s" "container_results ?s"
    by (simp_all add: container_inv_def container_keys_def)
  have views: "mset (container_definitions p) = mset (dvalues (st_container_definitions ?s))"
    "mset (container_states p) = mset (dvalues (st_container_states ?s))"
    "mset (container_operation_results p) = mset (dvalues (st_container_operation_results ?s))"
    by (simp_all add: container_definitions_def container_states_def container_operation_results_def)
  note ds = dict_of_view [OF keys(1) views(1)] set_dict_of_view [OF keys(1) views(1)]
  note ss = dict_of_view [OF keys(2) views(2)] set_dict_of_view [OF keys(2) views(2)]
  note rs = dict_of_view [OF keys(4) views(3)] set_dict_of_view [OF keys(4) views(3)]
  have lv: "\<exists>c. map_of (st_container_states ?s) n = Some c \<and> \<not> float_lt (cd_capacity d) (cs_level c)"
    if "map_of (st_container_definitions ?s) n = Some d" for n d
    using that parts(1) unfolding container_levels_def level_ok_def by (metis not_None_eq)
  have df: "map_of (st_container_definitions ?s) n \<noteq> None" if "map_of (st_container_states ?s) n = Some c" for n c
    using that parts(1) unfolding container_levels_def by (metis option.distinct(1))
  have "validate_definitions_and_states (dict_of cd_name (container_definitions p))
      (dict_of cs_name (container_states p)) = Inr ()"
    unfolding validate_definitions_and_states_def
    by (auto simp: each_ok_iff bind_res_eq_Inr_iff ds ss dhas_iff_lookup dest: df split: option.splits)
      (use lv in fastforce)+
  moreover have "validate_result_record (dict_of cd_name (container_definitions p)) r = Inr ()"
    if "map_of (st_container_operation_results ?s) k = Some r" for k r
  proof -
    from that parts(3) obtain d where d: "map_of (st_container_definitions ?s) (cr_container_name r) = Some d"
      "level_ok (cd_capacity d) (cr_level_after r)"
      "cr_level_after r = level_change (cr_operation r) (cr_level_before r) (cr_amount r)"
      unfolding container_results_def by blast
    then show ?thesis by (simp add: validate_result_record_def ds level_ok_def float_eq_def) auto
  qed
  moreover have "map_of (st_container_definitions ?s) (ci_container_name i) \<noteq> None \<and>
      map_of (st_container_operation_results ?s) (ci_request_id i) = None"
    if "i \<in> set (container_operation_intents p)" for i
    using that keyed_mem_iff [OF keys(3)] parts(2) unfolding container_intents_def container_operation_intents_def
    by (metis set_sort)
  ultimately have "validate_pending_and_completed_operations (dict_of cd_name (container_definitions p)) p = Inr ()"
    and "validate_definitions_and_states (dict_of cd_name (container_definitions p))
      (dict_of cs_name (container_states p)) = Inr ()"
    unfolding validate_pending_and_completed_operations_def
    by (auto simp: each_ok_iff bind_res_eq_Inr_iff ds rs dhas_iff_lookup Let_def)
  then show ?thesis by (simp add: validate_container_rebuild_def Let_def)
qed

interpretation containers: recoverable new_persistence container_step
  "\<lambda>p. container_inv (pstate p)" validate_container_rebuild
  by unfold_locales (fact container_inv_init, erule (1) container_inv_step, erule container_inv_valid)

section \<open>A sample run\<close>

definition tank :: container_definition where
  "tank = \<lparr>cd_name = ''tank'', cd_capacity = Fin 10, cd_initial = Fin 2\<rparr>"

definition tank_intent :: container_operation_intent where
  "tank_intent = \<lparr>ci_request_id = ''q'', ci_container_name = ''tank'', ci_operation = ''put'', ci_amount = Fin 3,
     ci_requested_at = 0, ci_sequence = 1\<rparr>"

definition tank_result :: container_operation_result where
  "tank_result = \<lparr>cr_request_id = ''q'', cr_container_name = ''tank'', cr_operation = ''put'', cr_amount = Fin 3,
     cr_completed_at = 1, cr_level_before = Fin 2, cr_level_after = Fin 5, cr_sequence = 1\<rparr>"

definition tank_defined :: "nat persistence" where
  "tank_defined = new_persistence\<lparr>pstate := empty_state\<lparr>st_container_definitions := [(''tank'', tank)],
     st_container_states := [(''tank'', \<lparr>cs_name = ''tank'', cs_level = Fin 2\<rparr>)]\<rparr>\<rparr>"

definition tank_pending :: "nat persistence" where
  "tank_pending = tank_defined\<lparr>pstate := (pstate tank_defined)\<lparr>st_container_operation_intents := [(''q'', tank_intent)]\<rparr>\<rparr>"

definition tank_done :: "nat persistence" where
  "tank_done = tank_defined\<lparr>pstate := (pstate tank_defined)\<lparr>
     st_container_states := [(''tank'', \<lparr>cs_name = ''tank'', cs_level = Fin 5\<rparr>)],
     st_container_operation_results := [(''q'', tank_result)]\<rparr>\<rparr>"

lemmas tank_defs = tank_def tank_intent_def tank_result_def tank_defined_def tank_pending_def tank_done_def
  new_persistence_def empty_state_def

lemma tank_define: "define_container tank new_persistence = (Inr (), tank_defined)"
  by (simp add: tank_defs define_container_def define_body_def mk_container_state_def transaction_def fork_state_def
      new_uow_def commit_def overlap_def save_container_definition_def save_container_state_def get_container_state_def
      mark_dirty_def guards.simps)

lemma tank_request: "record_intent ''tank'' ''q'' ''put'' (Fin 3) 0 tank_defined = (Inr tank_intent, tank_pending)"
  by (simp add: tank_defs record_intent_def new_intent_def save_intent_body_def mk_container_operation_intent_def
      container_definition_of_def container_definitions_def container_operation_intents_def
      container_operation_results_def by_key_def next_container_sequence_def next_seq_def transaction_def fork_state_def
      new_uow_def commit_def overlap_def save_container_operation_intent_def mark_dirty_def guards.simps)

lemma tank_commit: "commit_operation ''q'' 1 tank_pending = (Inr tank_result, tank_done)"
proof -
  have "float_add (Fin 2) (Fin 3) = Fin 5"
    using round_double_of_int [of 5] by simp
  then show ?thesis
    by (simp add: tank_defs commit_operation_def container_result_def prepare_commit_def Let_def pending_intent_def
        container_state_of_def container_definition_of_def level_change_def mk_container_operation_result_def
        mk_container_state_def commit_body_def get_container_operation_intent_def get_container_state_def
        container_definitions_def container_states_def container_operation_intents_def
        container_operation_results_def by_key_def transaction_def fork_state_def new_uow_def commit_def overlap_def
        save_container_state_def save_container_operation_result_def delete_container_operation_intent_def
        mark_dirty_def guards.simps)
qed

lemma tank_run: "container_step\<^sup>*\<^sup>* new_persistence tank_pending" "container_step\<^sup>*\<^sup>* new_persistence tank_done"
  using step_define [OF tank_define] step_request [OF tank_request] step_commit [OF tank_commit]
  by (meson rtranclp.rtrancl_into_rtrancl rtranclp.rtrancl_refl)+

section \<open>Properties\<close>

text \<open>
  C29. Container levels stay within bounds: in every reachable state every defined container has a
  durable level, which is a finite number between zero and the capacity.
\<close>

theorem container_levels_bounded:
  assumes "container_step\<^sup>*\<^sup>* new_persistence p"
    and "map_of (st_container_definitions (pstate p)) n = Some d"
  shows "\<exists>c a. map_of (st_container_states (pstate p)) n = Some c \<and> cs_level c = Fin a \<and> 0 \<le> a \<and>
    \<not> float_lt (cd_capacity d) (Fin a)"
proof -
  have "container_levels (pstate p)" using containers.reachable_inv [OF assms(1)] by (simp add: container_inv_def)
  with assms(2) obtain c where "map_of (st_container_states (pstate p)) n = Some c" "level_ok (cd_capacity d) (cs_level c)"
    unfolding container_levels_def by (metis not_None_eq)
  then show ?thesis by (auto simp: level_ok_def isfinite_iff)
qed

theorem container_levels_bounded_witness:
  "\<exists>c a. map_of (st_container_states (pstate tank_done)) ''tank'' = Some c \<and> cs_level c = Fin a \<and> 0 \<le> a \<and>
     \<not> float_lt (cd_capacity tank) (Fin a)"
  by (rule container_levels_bounded [OF tank_run(2)]) (simp add: tank_defs)

text \<open>
  C12. The results are a ledger of the level: in every reachable state the results of a container, in the
  order they were committed, lead from its initial level to its current one, each starting at the
  level the previous one left and changing it by exactly its amount.
\<close>

theorem container_ledger_explains_level:
  assumes "container_step\<^sup>*\<^sup>* new_persistence p"
    and "map_of (st_container_definitions (pstate p)) n = Some d"
    and "map_of (st_container_states (pstate p)) n = Some c"
  shows "level_chain (cd_initial d) (results_of n (pstate p)) (cs_level c) \<and>
    (\<forall>r \<in> set (results_of n (pstate p)).
       cr_level_after r = level_change (cr_operation r) (cr_level_before r) (cr_amount r))"
proof -
  from containers.reachable_inv [OF assms(1)]
  have inv: "container_keys (pstate p)" "container_levels (pstate p)" "container_results (pstate p)"
    by (simp_all add: container_inv_def)
  have "cr_level_after r = level_change (cr_operation r) (cr_level_before r) (cr_amount r)"
    if "r \<in> set (results_of n (pstate p))" for r
    using that inv(1,3) keyed_mem_iff [of cr_request_id "st_container_operation_results (pstate p)" r]
    unfolding container_results_def results_of_def container_keys_def by auto
  then show ?thesis using inv(2) assms(2,3) unfolding container_levels_def by blast
qed

theorem container_ledger_explains_level_witness:
  "level_chain (cd_initial tank) (results_of ''tank'' (pstate tank_done)) (Fin 5) \<and>
   results_of ''tank'' (pstate tank_done) = [tank_result]"
proof -
  have "map_of (st_container_definitions (pstate tank_done)) ''tank'' = Some tank"
    "map_of (st_container_states (pstate tank_done)) ''tank'' = Some \<lparr>cs_name = ''tank'', cs_level = Fin 5\<rparr>"
    by (simp_all add: tank_defs)
  from container_ledger_explains_level [OF tank_run(2) this] show ?thesis by (simp add: tank_defs results_of_def)
qed

text \<open>
  A completion commits exactly once: after a completion of a request has succeeded, every further
  completion of it, at any time, returns the same result and changes nothing.
\<close>

theorem container_commit_exactly_once:
  assumes "container_step\<^sup>*\<^sup>* new_persistence p" and "commit_operation q t p = (Inr x, p')"
  shows "commit_operation q t' p' = (Inr x, p')"
proof -
  have inv: "container_inv (pstate p)" by (rule containers.reachable_inv [OF assms(1)])
  have keys: "container_keys (pstate p')" using commit_keeps [OF assms(2) inv] by (simp add: container_inv_def)
  have "map_of (st_container_operation_results (pstate p')) q = Some x"
    using assms(2) inv by (cases rule: commit_operation_cases) auto
  then show ?thesis by (simp add: commit_operation_def container_finds [OF keys])
qed

theorem container_commit_exactly_once_witness:
  "commit_operation ''q'' 1 tank_pending = (Inr tank_result, tank_done) \<and>
   commit_operation ''q'' 99 tank_done = (Inr tank_result, tank_done)"
  using tank_commit container_commit_exactly_once [OF tank_run(1) tank_commit] by simp

text \<open>
  Recovery never refuses: the checks made before a backend is rebuilt succeed in every reachable
  state, so a crash at any point between two operations leaves a state that can be rebuilt.
\<close>

theorem container_rebuild_always_valid:
  assumes "container_step\<^sup>*\<^sup>* new_persistence p"
  shows "validate_container_rebuild p = Inr ()"
  using assms by (rule containers.reachable_valid)

theorem container_rebuild_always_valid_witness:
  "validate_container_rebuild tank_pending = Inr () \<and> validate_container_rebuild tank_done = Inr ()"
  using container_rebuild_always_valid [OF tank_run(1)] container_rebuild_always_valid [OF tank_run(2)] by simp

end
