(* ===== verification/Backend_Interface.thy ===== *)
theory Backend_Interface
  imports Runtime_Records
begin

text \<open>
  \<open>backends/base.py\<close>: the records a backend hands to the managers through its callbacks. The
  protocols themselves are parameters of the managers.
\<close>

record resource_lease =
  ls_lease_id :: string
  ls_request_id :: string
  ls_resource_name :: string
  ls_acquired_at :: datetime

record resource_preemption =
  ev_lease_id :: string
  ev_request_id :: string
  ev_resource_name :: string
  ev_preempted_at :: datetime
  ev_preempted_by :: "string option"

record 'v store_item =
  bi_item_id :: string
  bi_store_name :: string
  bi_value :: 'v
  bi_priority :: int

end
