(* ===== verification/Resources.thy ===== *)
theory Resources
  imports Memory_Persistence Encoding Backend_Interface
begin

text \<open>
  \<open>core/resources.py\<close>: \<open>DurableResourceManager\<close>. A request is a durable demand until the
  backend grants it, then a durable reservation until it is released; a release goes through a durable
  intent so that a crash in the middle can be finished on restart. The manager object also
  keeps two in-memory maps, from reservations to backend leases and from requests to callbacks.

  The backend is a parameter. Its callbacks are the operation \<open>deliver_grant\<close>; the grants that
  \<open>run_until\<close> delivers are the list it returns. A caller's callback is an opaque token; the
  invocations are logged in order.
\<close>

section \<open>The world of the manager\<close>

text \<open>The two closures the manager passes as \<open>on_acquired\<close>.\<close>

datatype grant_target = RestoreReservation string | GrantRequest string

record 'b resource_backend =
  rb_now :: "('b \<Rightarrow> datetime) option"
  rb_create_resource :: "string \<Rightarrow> int \<Rightarrow> ('b, unit) meth"
  rb_request_resource :: "string \<Rightarrow> string \<Rightarrow> int \<Rightarrow> grant_target \<Rightarrow> ('b, unit) meth"
  rb_cancel_resource_request :: "string \<Rightarrow> ('b, bool) meth"
  rb_release_resource :: "resource_lease \<Rightarrow> ('b, unit) meth"
  rb_run_until :: "(datetime \<Rightarrow> 'b \<Rightarrow> (grant_target \<times> resource_lease) list \<times> 'b) option"

record ('v, 'b, 'cb) resource_world =
  rw_persistence :: "'v persistence"
  rw_backend :: 'b
  rw_backend_leases :: "(string \<times> resource_lease) list"
  rw_pending_callbacks :: "(string \<times> 'cb) list"
  rw_called :: "('cb \<times> resource_reservation) list"

definition on_persistence :: "('v persistence, 'a) meth \<Rightarrow> (('v, 'b, 'cb) resource_world, 'a) meth" where
  "on_persistence m w = (case m (rw_persistence w) of (r, p) \<Rightarrow> (r, w\<lparr>rw_persistence := p\<rparr>))"

definition on_backend :: "('b, 'a) meth \<Rightarrow> (('v, 'b, 'cb) resource_world, 'a) meth" where
  "on_backend m w = (case m (rw_backend w) of (r, b) \<Rightarrow> (r, w\<lparr>rw_backend := b\<rparr>))"

section \<open>Queries\<close>

definition reservation_for :: "string \<Rightarrow> 'v persistence \<Rightarrow> resource_reservation option" where
  "reservation_for request_id p = find (\<lambda>r. rv_request_id r = request_id) (resource_reservations p)"

definition pending_demand :: "string \<Rightarrow> 'v persistence \<Rightarrow> resource_demand option" where
  "pending_demand request_id p = find (\<lambda>d. dm_request_id d = request_id) (resource_demands p)"

definition has_request :: "string \<Rightarrow> 'v persistence \<Rightarrow> bool" where
  "has_request request_id p \<longleftrightarrow>
     reservation_for request_id p \<noteq> None \<or> list_ex (\<lambda>d. dm_request_id d = request_id) (resource_demands p)"

definition next_resource_sequence :: "'v persistence \<Rightarrow> int" where
  "next_resource_sequence p =
     next_seq (map dm_sequence (resource_demands p) @ map rv_sequence (resource_reservations p))"

section \<open>Requests and grants\<close>

definition save_demand_body :: "resource_demand \<Rightarrow> ('v, unit) tx_body" where
  "save_demand_body demand u = bind_res (save_resource_demand demand u) (\<lambda>u. Inr ((), u))"

text \<open>The checks of \<open>request\<close> and the demand they let through.\<close>

definition new_demand :: "string \<Rightarrow> string \<Rightarrow> datetime \<Rightarrow> int \<Rightarrow> 'v persistence \<Rightarrow> resource_demand res" where
  "new_demand resource_name request_id requested_at priority p =
     bind_res (guards
       [(resource_name \<notin> set (map rd_name (resource_definitions p)),
         KeyError (''unknown resource definition: '' @ resource_name)),
        (list_ex (\<lambda>d. dm_request_id d = request_id) (resource_demands p) \<or>
         list_ex (\<lambda>r. rv_request_id r = request_id) (resource_reservations p),
         ValueError (''resource request already exists: '' @ request_id))] ()) (\<lambda>_.
     mk_resource_demand request_id resource_name priority requested_at (next_resource_sequence p))"

definition record_demand ::
  "string \<Rightarrow> string \<Rightarrow> datetime \<Rightarrow> int \<Rightarrow> ('v persistence, resource_demand) meth" where
  "record_demand resource_name request_id requested_at priority p =
     (case new_demand resource_name request_id requested_at priority p of
        Inl e \<Rightarrow> (Inl e, p)
      | Inr demand \<Rightarrow> bind_m (transaction None (save_demand_body demand)) (\<lambda>_. return_m demand) p)"

definition request_resource ::
  "'b resource_backend \<Rightarrow> string \<Rightarrow> string \<Rightarrow> datetime \<Rightarrow> int \<Rightarrow> 'cb option
     \<Rightarrow> (('v, 'b, 'cb) resource_world, resource_demand) meth" where
  "request_resource B resource_name request_id requested_at priority on_acquired =
     bind_m (on_persistence (record_demand resource_name request_id requested_at priority)) (\<lambda>demand w.
       let w = (case on_acquired of None \<Rightarrow> w
                | Some cb \<Rightarrow> w\<lparr>rw_pending_callbacks := dset request_id cb (rw_pending_callbacks w)\<rparr>)
       in bind_m (on_backend (rb_request_resource B resource_name request_id priority (GrantRequest request_id)))
            (\<lambda>_. return_m demand) w)"

definition reservation_of :: "digest \<Rightarrow> resource_demand \<Rightarrow> datetime \<Rightarrow> resource_reservation" where
  "reservation_of uuid5 demand acquired_at =
     \<lparr>rv_reservation_id = mint_id uuid5 ''resource-reservation'' [dm_resource_name demand, dm_request_id demand],
      rv_request_id = dm_request_id demand, rv_resource_name = dm_resource_name demand,
      rv_acquired_at = acquired_at, rv_sequence = dm_sequence demand\<rparr>"

definition grant_body ::
  "string \<Rightarrow> resource_demand \<Rightarrow> resource_reservation \<Rightarrow> ('v, resource_reservation) tx_body" where
  "grant_body request_id demand reservation u =
     (if get_resource_demand request_id u \<noteq> Some demand
      then Inl (RuntimeError (''resource demand changed before grant: '' @ request_id))
      else bind_res (delete_resource_demand request_id u) (\<lambda>u.
           bind_res (save_resource_reservation reservation u) (\<lambda>u. Inr (reservation, u))))"

definition commit_grant :: "digest \<Rightarrow> string \<Rightarrow> datetime \<Rightarrow> ('v persistence, resource_reservation) meth" where
  "commit_grant uuid5 request_id acquired_at p =
     (case reservation_for request_id p of
        Some existing \<Rightarrow> (Inr existing, p)
      | None \<Rightarrow> (case pending_demand request_id p of
            None \<Rightarrow> (Inl (KeyError (''unknown resource demand: '' @ request_id)), p)
          | Some demand \<Rightarrow>
              transaction None (grant_body request_id demand (reservation_of uuid5 demand acquired_at)) p))"

definition record_grant ::
  "digest \<Rightarrow> string \<Rightarrow> resource_lease \<Rightarrow> (('v, 'b, 'cb) resource_world, resource_reservation) meth" where
  "record_grant uuid5 request_id lease =
     bind_m (on_persistence (commit_grant uuid5 request_id (ls_acquired_at lease))) (\<lambda>reservation w.
       let w1 = w\<lparr>rw_backend_leases := dset (rv_reservation_id reservation) lease (rw_backend_leases w),
                  rw_pending_callbacks := dpop request_id (rw_pending_callbacks w)\<rparr>
       in (Inr reservation, case dget (rw_pending_callbacks w) request_id of
             None \<Rightarrow> w1 | Some cb \<Rightarrow> w1\<lparr>rw_called := rw_called w1 @ [(cb, reservation)]\<rparr>))"

definition deliver_grant ::
  "digest \<Rightarrow> grant_target \<times> resource_lease \<Rightarrow> (('v, 'b, 'cb) resource_world, unit) meth" where
  "deliver_grant uuid5 g = (case g of
     (RestoreReservation reservation_id, lease) \<Rightarrow>
       (\<lambda>w. (Inr (), w\<lparr>rw_backend_leases := dset reservation_id lease (rw_backend_leases w)\<rparr>))
   | (GrantRequest request_id, lease) \<Rightarrow>
       bind_m (record_grant uuid5 request_id lease) (\<lambda>_. return_m ()))"

text \<open>
  \<open>run_until(getattr(backend, "now", fallback))\<close> where the backend has it: the grants it
  processes reach the manager in order.
\<close>

definition run_backend ::
  "digest \<Rightarrow> 'b resource_backend \<Rightarrow> datetime \<Rightarrow> (('v, 'b, 'cb) resource_world, unit) meth" where
  "run_backend uuid5 B fallback w = (case rb_run_until B of
     None \<Rightarrow> (Inr (), w)
   | Some run \<Rightarrow>
       (case run (case rb_now B of None \<Rightarrow> fallback | Some now \<Rightarrow> now (rw_backend w)) (rw_backend w) of
          (grants, b) \<Rightarrow> each_m (deliver_grant uuid5) grants (w\<lparr>rw_backend := b\<rparr>)))"

definition ensure_requested ::
  "digest \<Rightarrow> 'b resource_backend \<Rightarrow> string \<Rightarrow> string \<Rightarrow> datetime \<Rightarrow> int \<Rightarrow> 'cb option
     \<Rightarrow> (('v, 'b, 'cb) resource_world, resource_reservation option) meth" where
  "ensure_requested uuid5 B resource_name request_id requested_at priority on_acquired =
     bind_m (\<lambda>w. if \<not> has_request request_id (rw_persistence w)
          then bind_m (request_resource B resource_name request_id requested_at priority on_acquired) (\<lambda>_. return_m ()) w
          else case on_acquired of
            None \<Rightarrow> (Inr (), w)
          | Some cb \<Rightarrow>
              if reservation_for request_id (rw_persistence w) = None
              then (Inr (), w\<lparr>rw_pending_callbacks := dset request_id cb (rw_pending_callbacks w)\<rparr>)
              else (Inr (), w))
     (\<lambda>_. bind_m (run_backend uuid5 B requested_at)
     (\<lambda>_ w. (Inr (reservation_for request_id (rw_persistence w)), w)))"

section \<open>Cancellation and release\<close>

definition cancel_body :: "string \<Rightarrow> resource_demand \<Rightarrow> ('v, unit) tx_body" where
  "cancel_body request_id demand u =
     (if get_resource_demand request_id u \<noteq> Some demand
      then Inl (RuntimeError (''resource demand changed during cancellation: '' @ request_id))
      else bind_res (delete_resource_demand request_id u) (\<lambda>u. Inr ((), u)))"

definition cancel_pending ::
  "'b resource_backend \<Rightarrow> string \<Rightarrow> (('v, 'b, 'cb) resource_world, bool) meth" where
  "cancel_pending B request_id w =
     (case pending_demand request_id (rw_persistence w) of
        None \<Rightarrow> (Inr False, w)
      | Some demand \<Rightarrow> bind_m (on_backend (rb_cancel_resource_request B request_id)) (\<lambda>cancelled.
          if \<not> cancelled then return_m False
          else bind_m (on_persistence (transaction None (cancel_body request_id demand))) (\<lambda>_ w.
            (Inr True, w\<lparr>rw_pending_callbacks := dpop request_id (rw_pending_callbacks w)\<rparr>))) w)"

definition release_intent_of ::
  "digest \<Rightarrow> resource_reservation \<Rightarrow> datetime \<Rightarrow> resource_release_intent" where
  "release_intent_of uuid5 reservation now =
     \<lparr>ri_intent_id = mint_id uuid5 ''resource-release'' [rv_reservation_id reservation],
      ri_reservation_id = rv_reservation_id reservation, ri_resource_name = rv_resource_name reservation,
      ri_requested_at = now\<rparr>"

text \<open>The first transaction of a release; \<open>False\<close> is the early return.\<close>

definition begin_release_body ::
  "resource_reservation \<Rightarrow> resource_release_intent \<Rightarrow> ('v, bool) tx_body" where
  "begin_release_body reservation intent u =
     (if get_resource_reservation (rv_reservation_id reservation) u \<noteq> Some reservation then Inr (False, u)
      else bind_res (save_resource_release_intent intent u) (\<lambda>u. Inr (True, u)))"

definition finalize_body ::
  "resource_release_intent \<Rightarrow> resource_reservation \<Rightarrow> ('v, unit) tx_body" where
  "finalize_body intent reservation u =
     (if get_resource_release_intent (ri_intent_id intent) u \<noteq> Some intent
      then Inl (RuntimeError (''resource release intent changed: '' @ ri_intent_id intent))
      else if get_resource_reservation (rv_reservation_id reservation) u \<noteq> Some reservation
      then Inl (RuntimeError (''resource reservation changed during release: '' @ rv_reservation_id reservation))
      else bind_res (delete_resource_reservation (rv_reservation_id reservation) u) (\<lambda>u.
           bind_res (delete_resource_release_intent (ri_intent_id intent) u) (\<lambda>u. Inr ((), u))))"

definition finalize_release_intent ::
  "resource_release_intent \<Rightarrow> resource_reservation \<Rightarrow> ('v persistence, unit) meth" where
  "finalize_release_intent intent reservation = transaction None (finalize_body intent reservation)"

definition release_resource ::
  "digest \<Rightarrow> 'b resource_backend \<Rightarrow> string \<Rightarrow> (('v, 'b, 'cb) resource_world, bool) meth" where
  "release_resource uuid5 B reservation_id w =
     (case find (\<lambda>r. rv_reservation_id r = reservation_id) (resource_reservations (rw_persistence w)) of
        None \<Rightarrow> (Inr False, w)
      | Some reservation \<Rightarrow> (case dget (rw_backend_leases w) reservation_id of
            None \<Rightarrow> (Inl (RuntimeError (''backend lease is not reconstructed for reservation: '' @ reservation_id)), w)
          | Some lease \<Rightarrow>
              let intent = release_intent_of uuid5 reservation
                    (case rb_now B of None \<Rightarrow> rv_acquired_at reservation | Some now \<Rightarrow> now (rw_backend w))
              in bind_m (on_persistence (transaction None (begin_release_body reservation intent))) (\<lambda>begun.
                   if \<not> begun then return_m False
                   else bind_m (on_backend (rb_release_resource B lease)) (\<lambda>_.
                        bind_m (on_persistence (finalize_release_intent intent reservation)) (\<lambda>_ w.
                          (Inr True, w\<lparr>rw_backend_leases := dpop reservation_id (rw_backend_leases w)\<rparr>)))) w))"

definition withdraw ::
  "digest \<Rightarrow> 'b resource_backend \<Rightarrow> string \<Rightarrow> (('v, 'b, 'cb) resource_world, bool) meth" where
  "withdraw uuid5 B request_id =
     bind_m (cancel_pending B request_id) (\<lambda>changed.
     bind_m (\<lambda>w. case reservation_for request_id (rw_persistence w) of
         None \<Rightarrow> (Inr changed, w)
       | Some reservation \<Rightarrow>
           bind_m (release_resource uuid5 B (rv_reservation_id reservation)) (\<lambda>r. return_m (r \<or> changed)) w) (\<lambda>changed.
     bind_m (\<lambda>w. case (rb_run_until B, rb_now B) of
         (Some _, None) \<Rightarrow> (Inl (AttributeError ''now''), w)
       | _ \<Rightarrow> run_backend uuid5 B 0 w) (\<lambda>_. return_m changed)))"

section \<open>Recovery\<close>

definition drop_intent_body :: "resource_release_intent \<Rightarrow> ('v, unit) tx_body" where
  "drop_intent_body intent u = bind_res (delete_resource_release_intent (ri_intent_id intent) u) (\<lambda>u. Inr ((), u))"

definition finalize_interrupted :: "resource_release_intent \<Rightarrow> ('v persistence, unit) meth" where
  "finalize_interrupted discovered p =
     (case find (\<lambda>i. ri_intent_id i = ri_intent_id discovered) (resource_release_intents p) of
        None \<Rightarrow> (Inr (), p)
      | Some intent \<Rightarrow>
          if intent \<noteq> discovered
          then (Inl (RuntimeError (''resource release intent changed: '' @ ri_intent_id discovered)), p)
          else case find (\<lambda>r. rv_reservation_id r = ri_reservation_id discovered) (resource_reservations p) of
              None \<Rightarrow> transaction None (drop_intent_body intent) p
            | Some reservation \<Rightarrow> finalize_release_intent intent reservation p)"

definition finalize_interrupted_releases :: "('v persistence, unit) meth" where
  "finalize_interrupted_releases p = each_m finalize_interrupted (resource_release_intents p) p"

definition rebuild_resource_backend ::
  "'b resource_backend \<Rightarrow> (('v, 'b, 'cb) resource_world, nat) meth" where
  "rebuild_resource_backend B w =
     bind_m (on_persistence finalize_interrupted_releases) (\<lambda>_ w.
       let p = rw_persistence w
       in bind_m (on_backend (each_m (\<lambda>d. rb_create_resource B (rd_name d) (rd_capacity d)) (resource_definitions p)))
         (\<lambda>_. bind_m (on_backend (each_m (\<lambda>r. rb_request_resource B (rv_resource_name r) (rv_request_id r) 0
            (RestoreReservation (rv_reservation_id r))) (resource_reservations p)))
         (\<lambda>_. bind_m (on_backend (each_m (\<lambda>d. rb_request_resource B (dm_resource_name d) (dm_request_id d)
            (dm_priority d) (GrantRequest (dm_request_id d))) (resource_demands p)))
         (\<lambda>_. return_m (length (resource_reservations p) + length (resource_demands p))))) w)
       (w\<lparr>rw_pending_callbacks := []\<rparr>)"

section \<open>Lookups on well-formed states\<close>

lemma resource_keys:
  assumes "state_wf s"
  shows "keyed rd_name (st_resource_definitions s)" and "keyed dm_request_id (st_resource_demands s)"
    and "keyed rv_reservation_id (st_resource_reservations s)" and "keyed ri_intent_id (st_resource_release_intents s)"
  using assms by (simp_all add: state_wf_def ids_wf_def)

lemma resource_finds:
  assumes "state_wf (pstate p)"
  shows "pending_demand q p = map_of (st_resource_demands (pstate p)) q"
    and "find (\<lambda>r. rv_reservation_id r = i) (resource_reservations p) = map_of (st_resource_reservations (pstate p)) i"
    and "find (\<lambda>r. ri_intent_id r = i) (resource_release_intents p) = map_of (st_resource_release_intents (pstate p)) i"
  using resource_keys [OF assms] unfolding pending_demand_def
  by (auto intro!: find_keyed simp: resource_demands_def resource_reservations_def resource_release_intents_def)

lemma reservation_for_iff:
  assumes "state_wf (pstate p)"
  shows "reservation_for q p = Some r \<longleftrightarrow>
    map_of (st_resource_reservations (pstate p)) (rv_reservation_id r) = Some r \<and> rv_request_id r = q"
proof -
  note mem = keyed_mem_iff [OF resource_keys(3) [OF assms]]
  have uniq: "rv_reservation_id a = rv_reservation_id b"
    if "map_of (st_resource_reservations (pstate p)) (rv_reservation_id a) = Some a"
      "map_of (st_resource_reservations (pstate p)) (rv_reservation_id b) = Some b"
      "rv_request_id a = rv_request_id b" for a b
    using assms that unfolding state_wf_def resources_wf_def by blast
  have found: "map_of (st_resource_reservations (pstate p)) (rv_reservation_id a) = Some a \<and> rv_request_id a = q"
    if "reservation_for q p = Some a" for a
  proof -
    from that have "a \<in> set (resource_reservations p)" "rv_request_id a = q"
      unfolding reservation_for_def find_Some_iff by (auto dest: nth_mem)
    then show ?thesis using mem by (simp add: resource_reservations_def)
  qed
  show ?thesis
  proof (rule iffI)
    assume r: "map_of (st_resource_reservations (pstate p)) (rv_reservation_id r) = Some r \<and> rv_request_id r = q"
    then have "r \<in> set (resource_reservations p)" using mem by (simp add: resource_reservations_def)
    moreover from r have "rv_request_id r = q" ..
    ultimately have "reservation_for q p \<noteq> None" unfolding reservation_for_def find_None_iff by blast
    then obtain a where a: "reservation_for q p = Some a" by blast
    have "rv_reservation_id a = rv_reservation_id r" by (rule uniq) (use found [OF a] r in metis)+
    with found [OF a] r have "a = r" by (metis option.inject)
    with a show "reservation_for q p = Some r" by simp
  qed (rule found)
qed

section \<open>Grants\<close>

lemma grant_body_effect:
  assumes "grant_body q d r (new_uow s) = Inr (a, u)"
  shows "a = r \<and> map_of (st_resource_demands s) q = Some d \<and>
    working u = s\<lparr>st_resource_demands := dpop q (st_resource_demands s),
      st_resource_reservations := dset (rv_reservation_id r) r (st_resource_reservations s)\<rparr>"
  using assms
  by (auto simp: grant_body_def get_resource_demand_def delete_resource_demand_def save_resource_reservation_def
      mark_dirty_def new_uow_def split: if_splits)

lemma grant_body_steps: "uow_body (grant_body q d r)"
  unfolding uow_body_def grant_body_def
  by (auto split: if_splits dest!: delete_resource_demand_step save_resource_reservation_step intro: rtranclp_trans)

lemma commit_grant_cases:
  assumes "commit_grant uuid5 q t p = (r, p')" and wf: "state_wf (pstate p)"
  obtains (raised) e where "r = Inl e" and "p' = p"
  | (known) x where "reservation_for q p = Some x" and "r = Inr x" and "p' = p"
  | (fresh) d x where "reservation_for q p = None" and "map_of (st_resource_demands (pstate p)) q = Some d"
      and "dm_request_id d = q" and "x = reservation_of uuid5 d t" and "r = Inr x"
      and "p' = p\<lparr>pstate := (pstate p)\<lparr>st_resource_demands := dpop q (st_resource_demands (pstate p)),
        st_resource_reservations := dset (rv_reservation_id x) x (st_resource_reservations (pstate p))\<rparr>\<rparr>"
      and "state_wf (pstate p')"
proof (cases "reservation_for q p")
  case (Some x)
  with assms show ?thesis by (intro known) (auto simp: commit_grant_def)
next
  case None
  show ?thesis
  proof (cases "map_of (st_resource_demands (pstate p)) q")
    case none: None
    with None assms show ?thesis by (intro raised) (auto simp: commit_grant_def resource_finds)
  next
    case (Some d)
    let ?x = "reservation_of uuid5 d t"
    have tx: "transaction None (grant_body q d ?x) p = (r, p')"
      using assms None Some by (simp add: commit_grant_def resource_finds)
    from tx show ?thesis
    proof (cases rule: transaction_cases)
      case (2 a u)
      have "state_wf (pstate p')"
        using uow_body_transaction [OF tx grant_body_steps] wf by (auto dest: state_wf_steps simp: new_uow_def)
      moreover have "dm_request_id d = q" using resource_keys(2) [OF wf] Some by (auto dest: keyed_lookup)
      ultimately show ?thesis using grant_body_effect [OF 2(2)] 2 None Some by (intro fresh) auto
    qed (rule raised)
  qed
qed

section \<open>Interrupted releases\<close>

lemma finalize_body_effect:
  assumes "map_of (st_resource_release_intents s) (ri_intent_id i) = Some i"
    and "map_of (st_resource_reservations s) (rv_reservation_id r) = Some r"
  shows "\<exists>u. finalize_body i r (new_uow s) = Inr ((), u) \<and>
    working u = s\<lparr>st_resource_reservations := dpop (rv_reservation_id r) (st_resource_reservations s),
      st_resource_release_intents := dpop (ri_intent_id i) (st_resource_release_intents s)\<rparr>"
  using assms
  by (simp add: finalize_body_def get_resource_release_intent_def get_resource_reservation_def
      delete_resource_reservation_def delete_resource_release_intent_def mark_dirty_def new_uow_def)

lemma settled_disjoint_resources [simp]:
  "settled_disjoint (s\<lparr>st_resource_reservations := a\<rparr>) = settled_disjoint s"
  "settled_disjoint (s\<lparr>st_resource_release_intents := b\<rparr>) = settled_disjoint s"
  "settled_disjoint (s\<lparr>st_resource_demands := c\<rparr>) = settled_disjoint s"
  by (simp_all add: settled_disjoint_def)

lemma finalize_release_intent_effect:
  assumes "map_of (st_resource_release_intents (pstate p)) (ri_intent_id i) = Some i"
    and "map_of (st_resource_reservations (pstate p)) (rv_reservation_id r) = Some r"
    and "\<not> read_only p" and "settled_disjoint (pstate p)"
  shows "finalize_release_intent i r p = (Inr (), p\<lparr>pstate := (pstate p)\<lparr>
    st_resource_reservations := dpop (rv_reservation_id r) (st_resource_reservations (pstate p)),
    st_resource_release_intents := dpop (ri_intent_id i) (st_resource_release_intents (pstate p))\<rparr>\<rparr>)"
proof -
  obtain u where "finalize_body i r (new_uow (pstate p)) = Inr ((), u)"
    "working u = (pstate p)\<lparr>st_resource_reservations := dpop (rv_reservation_id r) (st_resource_reservations (pstate p)),
      st_resource_release_intents := dpop (ri_intent_id i) (st_resource_release_intents (pstate p))\<rparr>"
    using finalize_body_effect [OF assms(1,2)] by blast
  with assms(3,4) show ?thesis by (simp add: finalize_release_intent_def transaction_ok)
qed

text \<open>Finishing one discovered intent removes it and its reservation, if that is still there.\<close>

lemma finalize_interrupted_effect:
  assumes keys: "keyed rv_reservation_id (st_resource_reservations (pstate p))"
      "keyed ri_intent_id (st_resource_release_intents (pstate p))"
    and i: "map_of (st_resource_release_intents (pstate p)) (ri_intent_id i) = Some i"
    and ok: "\<not> read_only p" "settled_disjoint (pstate p)"
  shows "finalize_interrupted i p = (Inr (), p\<lparr>pstate := (pstate p)\<lparr>
    st_resource_reservations := dpop (ri_reservation_id i) (st_resource_reservations (pstate p)),
    st_resource_release_intents := dpop (ri_intent_id i) (st_resource_release_intents (pstate p))\<rparr>\<rparr>)"
proof -
  have finds: "find (\<lambda>j. ri_intent_id j = ri_intent_id i) (resource_release_intents p) = Some i"
    "find (\<lambda>r. rv_reservation_id r = ri_reservation_id i) (resource_reservations p) =
      map_of (st_resource_reservations (pstate p)) (ri_reservation_id i)"
    using find_keyed [OF keys(1)] find_keyed [OF keys(2)] i
    by (simp_all add: resource_reservations_def resource_release_intents_def)
  show ?thesis
  proof (cases "map_of (st_resource_reservations (pstate p)) (ri_reservation_id i)")
    case None
    then have "dpop (ri_reservation_id i) (st_resource_reservations (pstate p)) = st_resource_reservations (pstate p)"
      by (simp add: AList.delete_id map_of_eq_None_iff)
    then show ?thesis
      using None finds ok
      by (simp add: finalize_interrupted_def transaction_ok drop_intent_body_def delete_resource_release_intent_def
          mark_dirty_def new_uow_def)
  next
    case (Some r)
    then have "rv_reservation_id r = ri_reservation_id i" using keys(1) by (auto dest: keyed_lookup)
    then show ?thesis using Some finds finalize_release_intent_effect [OF i _ ok, of r]
      by (simp add: finalize_interrupted_def)
  qed
qed

lemma dpop_filter: "dpop k d = filter (\<lambda>kv. fst kv \<noteq> k) d"
  by (induction d) auto

lemma finalize_all:
  assumes "keyed rv_reservation_id (st_resource_reservations (pstate p))"
    and "keyed ri_intent_id (st_resource_release_intents (pstate p))"
    and "\<forall>i \<in> set js. map_of (st_resource_release_intents (pstate p)) (ri_intent_id i) = Some i"
    and "distinct (map ri_intent_id js)" and "\<not> read_only p" and "settled_disjoint (pstate p)"
  shows "each_m finalize_interrupted js p = (Inr (), p\<lparr>pstate := (pstate p)\<lparr>
    st_resource_reservations :=
      filter (\<lambda>kv. fst kv \<notin> ri_reservation_id ` set js) (st_resource_reservations (pstate p)),
    st_resource_release_intents :=
      filter (\<lambda>kv. fst kv \<notin> ri_intent_id ` set js) (st_resource_release_intents (pstate p))\<rparr>\<rparr>)"
  using assms
proof (induction js arbitrary: p)
  case Nil
  then show ?case by simp
next
  case (Cons i js)
  let ?p = "p\<lparr>pstate := (pstate p)\<lparr>
    st_resource_reservations := dpop (ri_reservation_id i) (st_resource_reservations (pstate p)),
    st_resource_release_intents := dpop (ri_intent_id i) (st_resource_release_intents (pstate p))\<rparr>\<rparr>"
  have "finalize_interrupted i p = (Inr (), ?p)" using Cons.prems by (intro finalize_interrupted_effect) auto
  moreover have "each_m finalize_interrupted js ?p = (Inr (), ?p\<lparr>pstate := (pstate ?p)\<lparr>
    st_resource_reservations :=
      filter (\<lambda>kv. fst kv \<notin> ri_reservation_id ` set js) (st_resource_reservations (pstate ?p)),
    st_resource_release_intents :=
      filter (\<lambda>kv. fst kv \<notin> ri_intent_id ` set js) (st_resource_release_intents (pstate ?p))\<rparr>\<rparr>)"
  proof (rule Cons.IH)
    have "ri_intent_id j \<noteq> ri_intent_id i" if "j \<in> set js" for j
      using that Cons.prems(4) by (metis distinct.simps(2) image_eqI list.set_map list.simps(9))
    with Cons.prems(3) show "\<forall>j \<in> set js. map_of (st_resource_release_intents (pstate ?p)) (ri_intent_id j) = Some j"
      by simp
  qed (use Cons.prems in simp_all)
  ultimately show ?case by (simp add: dpop_filter conj_commute)
qed

section \<open>Order of demands\<close>

lemma record_demand_effect:
  assumes "record_demand n q t prio p = (Inr d, p')" and wf: "state_wf (pstate p)"
  shows "d = ResourceDemand prio (next_resource_sequence p) q n t \<and>
    map_of (st_resource_demands (pstate p)) q = None \<and>
    p' = p\<lparr>pstate := (pstate p)\<lparr>st_resource_demands := st_resource_demands (pstate p) @ [(q, d)]\<rparr>\<rparr>"
proof -
  from assms(1) obtain e where nd: "new_demand n q t prio p = Inr e"
    and tx: "bind_m (transaction None (save_demand_body e)) (\<lambda>_. return_m e) p = (Inr d, p')"
    by (auto simp: record_demand_def split: sum.splits)
  from nd have e: "e = ResourceDemand prio (next_resource_sequence p) q n t"
    and "find (\<lambda>d. dm_request_id d = q) (resource_demands p) = None"
    by (auto simp: new_demand_def mk_resource_demand_def find_None_iff list_ex_iff)
  then have fresh: "map_of (st_resource_demands (pstate p)) q = None"
    using resource_finds(1) [OF wf] by (simp add: pending_demand_def)
  from tx obtain a where "transaction None (save_demand_body e) p = (Inr a, p')" and d: "d = e"
    by (auto simp: bind_m_def return_m_def split: prod.splits sum.splits)
  then obtain u where "save_demand_body e (new_uow (pstate p)) = Inr (a, u)" "p' = p\<lparr>pstate := working u\<rparr>"
    by (cases rule: transaction_cases) auto
  with fresh e d show ?thesis
    by (auto simp: save_demand_body_def save_resource_demand_def mark_dirty_def new_uow_def update_new)
qed

lemma demand_less_iff:
  assumes "dm_sequence a < dm_sequence b"
  shows "a \<le> b \<longleftrightarrow> dm_priority a \<le> dm_priority b"
  using assms by (cases a; cases b) (auto simp: less_eq_resource_demand_def less_eq_prod_simp)

section \<open>What a rebuild submits\<close>

text \<open>A backend that records the calls it gets.\<close>

datatype backend_call = CreateCall string int | RequestCall string string int grant_target

definition recording_backend :: "(backend_call list) resource_backend" where
  "recording_backend = \<lparr>rb_now = None, rb_create_resource = (\<lambda>n c b. (Inr (), b @ [CreateCall n c])),
     rb_request_resource = (\<lambda>n q prio g b. (Inr (), b @ [RequestCall n q prio g])),
     rb_cancel_resource_request = (\<lambda>q b. (Inr False, b)), rb_release_resource = (\<lambda>l b. (Inr (), b)),
     rb_run_until = None\<rparr>"

definition restore_call :: "resource_reservation \<Rightarrow> backend_call" where
  "restore_call r = RequestCall (rv_resource_name r) (rv_request_id r) 0 (RestoreReservation (rv_reservation_id r))"

definition demand_call :: "resource_demand \<Rightarrow> backend_call" where
  "demand_call d = RequestCall (dm_resource_name d) (dm_request_id d) (dm_priority d) (GrantRequest (dm_request_id d))"

lemma each_m_record: "(\<And>x b. f x b = (Inr (), b @ [g x])) \<Longrightarrow> each_m f xs b = (Inr (), b @ map g xs)"
  by (induction xs arbitrary: b) auto

lemma recording_rebuild:
  assumes "finalize_interrupted_releases (rw_persistence w) = (Inr (), p)" and "rw_backend w = []"
  shows "rebuild_resource_backend recording_backend w =
    (Inr (length (resource_reservations p) + length (resource_demands p)),
     w\<lparr>rw_pending_callbacks := [], rw_persistence := p, rw_backend :=
       map (\<lambda>d. CreateCall (rd_name d) (rd_capacity d)) (resource_definitions p) @
       map restore_call (resource_reservations p) @ map demand_call (resource_demands p)\<rparr>)"
  using assms
  by (simp add: rebuild_resource_backend_def bind_m_def return_m_def on_persistence_def on_backend_def Let_def
      recording_backend_def each_m_record [where g = "\<lambda>d. CreateCall (rd_name d) (rd_capacity d)"]
      each_m_record [where g = restore_call] each_m_record [where g = demand_call] restore_call_def demand_call_def)

section \<open>A sample dock\<close>

definition dock :: "(string \<times> resource_demand) list \<Rightarrow> (string \<times> resource_reservation) list
     \<Rightarrow> (string \<times> resource_release_intent) list \<Rightarrow> nat persistence" where
  "dock ds rs is = new_persistence\<lparr>pstate := empty_state\<lparr>
     st_resource_definitions := [(''dock'', \<lparr>rd_name = ''dock'', rd_capacity = 1\<rparr>)],
     st_resource_demands := ds, st_resource_reservations := rs, st_resource_release_intents := is\<rparr>\<rparr>"

definition dock_demand :: resource_demand where
  "dock_demand = ResourceDemand 5 2 ''q'' ''dock'' 0"

definition dock_reservation :: resource_reservation where
  "dock_reservation = \<lparr>rv_reservation_id = ''r'', rv_request_id = ''p'', rv_resource_name = ''dock'',
     rv_acquired_at = 0, rv_sequence = 1\<rparr>"

definition dock_intent :: resource_release_intent where
  "dock_intent = \<lparr>ri_intent_id = ''i'', ri_reservation_id = ''r'', ri_resource_name = ''dock'', ri_requested_at = 7\<rparr>"

lemmas dock_defs = dock_def dock_demand_def dock_reservation_def dock_intent_def new_persistence_def empty_state_def

lemma dock_wf:
  "state_wf (pstate (dock [(''q'', dock_demand)] [] []))"
  "state_wf (pstate (dock [(''q'', dock_demand)] [(''r'', dock_reservation)] []))"
  "state_wf (pstate (dock [(''q'', dock_demand)] [(''r'', dock_reservation)] [(''i'', dock_intent)]))"
  by (simp_all add: dock_defs state_wf_def ids_wf_def resources_wf_def stores_wf_def containers_wf_def
      preemptive_wf_def bindings_wf_def keyed_def)

lemma dock_settled: "settled_disjoint (pstate (dock ds rs is))" "\<not> read_only (dock ds rs is)"
  by (simp_all add: dock_defs settled_disjoint_def)

section \<open>Properties\<close>



lemma interrupted_releases_fin:
  assumes "state_wf (pstate p)" and "settled_disjoint (pstate p)" and "\<not> read_only p"
  shows "finalize_interrupted_releases p = (Inr (), p\<lparr>pstate := (pstate p)\<lparr>
    st_resource_reservations := filter (\<lambda>kv. fst kv \<notin> ri_reservation_id ` set (dvalues (st_resource_release_intents (pstate p))))
      (st_resource_reservations (pstate p)),
    st_resource_release_intents := []\<rparr>\<rparr>)"
proof -
  note keys = resource_keys [OF assms(1)]
  let ?is = "resource_release_intents p"
  have set_is: "set ?is = set (dvalues (st_resource_release_intents (pstate p)))"
    by (simp add: resource_release_intents_def)
  have "distinct (map ri_intent_id ?is)"
    unfolding resource_release_intents_def by (rule keyed_distinct_view [OF keys(4)]) simp
  moreover have "\<forall>i \<in> set ?is. map_of (st_resource_release_intents (pstate p)) (ri_intent_id i) = Some i"
    using keyed_mem_iff [OF keys(4)] set_is by simp
  moreover have "filter (\<lambda>kv. fst kv \<notin> ri_intent_id ` set ?is) (st_resource_release_intents (pstate p)) = []"
    unfolding filter_empty_conv set_is using keys(4) by (force simp: keyed_def)
  ultimately show ?thesis
    using finalize_all [OF keys(3,4)] assms(2,3) unfolding finalize_interrupted_releases_def by (simp add: set_is)
qed

text \<open>
  C30. Interrupted releases are finished on restart: from any reachable state the recovery pass
  succeeds, removes every release intent together with exactly the reservations they name, and
  leaves the rest of the durable state alone.
\<close>

theorem interrupted_releases_finished:
  assumes "state_wf (pstate p)" and "settled_disjoint (pstate p)" and "\<not> read_only p"
  shows "finalize_interrupted_releases p = (Inr (), p\<lparr>pstate := (pstate p)\<lparr>
    st_resource_reservations := filter (\<lambda>kv. fst kv \<notin> ri_reservation_id ` set (dvalues (st_resource_release_intents (pstate p))))
      (st_resource_reservations (pstate p)),
    st_resource_release_intents := []\<rparr>\<rparr>)"
  using assms by (rule interrupted_releases_fin)

theorem interrupted_releases_finished_witness:
  "finalize_interrupted_releases (dock [(''q'', dock_demand)] [(''r'', dock_reservation)] [(''i'', dock_intent)]) =
     (Inr (), dock [(''q'', dock_demand)] [] [])"
  using interrupted_releases_finished [OF dock_wf(3) dock_settled] by (simp add: dock_defs)

text \<open>
  C31. A release is crash consistent: if no other release is in flight, recovering after a crash that
  hit between the intent and its completion gives the same durable state as the release that
  was not interrupted, namely the state before it without the reservation.
\<close>

theorem release_crash_consistent:
  assumes "state_wf (pstate p)" and "settled_disjoint (pstate p)" and "st_resource_release_intents (pstate p) = []"
    and "ri_reservation_id i = rv_reservation_id r"
    and "transaction None (begin_release_body r i) p = (Inr True, crashed)"
  shows "finalize_interrupted_releases crashed = finalize_release_intent i r crashed \<and>
    finalize_release_intent i r crashed = (Inr (), p\<lparr>pstate := (pstate p)\<lparr>
      st_resource_reservations := dpop (rv_reservation_id r) (st_resource_reservations (pstate p))\<rparr>\<rparr>)"
proof -
  from assms(5) obtain u where u: "begin_release_body r i (new_uow (pstate p)) = Inr (True, u)"
    "crashed = p\<lparr>pstate := working u\<rparr>" "\<not> read_only p"
    by (cases rule: transaction_cases) auto
  then have r: "map_of (st_resource_reservations (pstate p)) (rv_reservation_id r) = Some r"
    and w: "working u = (pstate p)\<lparr>st_resource_release_intents := [(ri_intent_id i, i)]\<rparr>"
    using assms(3) by (auto simp: begin_release_body_def get_resource_reservation_def save_resource_release_intent_def
        mark_dirty_def new_uow_def split: if_splits)
  have "keyed rv_reservation_id (st_resource_reservations (pstate crashed))"
    "keyed ri_intent_id (st_resource_release_intents (pstate crashed))"
    using resource_keys [OF assms(1)] u w by (auto simp: keyed_def)
  from finalize_interrupted_effect [OF this, of i] u w assms(2,4)
  have "finalize_interrupted_releases crashed = (Inr (), p\<lparr>pstate := (pstate p)\<lparr>
      st_resource_reservations := dpop (rv_reservation_id r) (st_resource_reservations (pstate p))\<rparr>\<rparr>)"
    using assms(3) by (simp add: finalize_interrupted_releases_def resource_release_intents_def by_key_def)
  moreover have "finalize_release_intent i r crashed = (Inr (), p\<lparr>pstate := (pstate p)\<lparr>
      st_resource_reservations := dpop (rv_reservation_id r) (st_resource_reservations (pstate p))\<rparr>\<rparr>)"
    using finalize_release_intent_effect [of crashed i r] u w r assms(2,3) by simp
  ultimately show ?thesis by simp
qed

theorem release_crash_consistent_witness:
  "\<exists>crashed. transaction None (begin_release_body dock_reservation dock_intent)
       (dock [(''q'', dock_demand)] [(''r'', dock_reservation)] []) = (Inr True, crashed) \<and>
     finalize_interrupted_releases crashed = (Inr (), dock [(''q'', dock_demand)] [] [])"
proof -
  let ?p = "dock [(''q'', dock_demand)] [(''r'', dock_reservation)] []"
  obtain crashed where c: "transaction None (begin_release_body dock_reservation dock_intent) ?p = (Inr True, crashed)"
    by (simp add: begin_release_body_def get_resource_reservation_def save_resource_release_intent_def mark_dirty_def
        new_uow_def transaction_def fork_state_def commit_def overlap_def dock_defs guards.simps)
  have "st_resource_release_intents (pstate ?p) = []" "ri_reservation_id dock_intent = rv_reservation_id dock_reservation"
    by (simp_all add: dock_defs)
  from release_crash_consistent [OF dock_wf(2) dock_settled(1) this c] c show ?thesis by (simp add: dock_defs)
qed

text \<open>
  Requests queue in arrival order: a new demand is placed after every pending demand of the same or
  a more urgent priority and before every less urgent one, so equal priorities are served first
  come first served.
\<close>

theorem demands_queue_in_order:
  assumes "state_wf (pstate p)" and "record_demand n q t prio p = (Inr d, p')"
  shows "\<exists>before after. resource_demands p' = before @ d # after \<and>
    set before = {e \<in> set (resource_demands p). dm_priority e \<le> prio} \<and>
    set after = {e \<in> set (resource_demands p). prio < dm_priority e}"
proof -
  note eff = record_demand_effect [OF assms(2,1)]
  have mset: "mset (resource_demands p') = add_mset d (mset (resource_demands p))"
    using eff by (simp add: resource_demands_def)
  have "dm_sequence e < dm_sequence d" if "e \<in> set (resource_demands p)" for e
    using that eff by (auto simp: next_resource_sequence_def intro!: next_seq_gt)
  then have older: "e \<noteq> d" "e \<le> d \<longleftrightarrow> dm_priority e \<le> prio" if "e \<in> set (resource_demands p)" for e
    using that eff demand_less_iff [of e d] by fastforce+
  from mset obtain xs ys where split: "resource_demands p' = xs @ d # ys"
    by (metis split_list set_mset_mset union_single_eq_member)
  with mset have rest: "mset (xs @ ys) = mset (resource_demands p)" by simp
  have "sorted (xs @ d # ys)" using split by (metis resource_demands_def sorted_sort)
  then have le: "\<forall>x \<in> set xs. x \<le> d" "\<forall>y \<in> set ys. d \<le> y" by (auto simp: sorted_append)
  have mem: "set (resource_demands p) = set xs \<union> set ys" using mset_eq_setD [OF rest] by auto
  have gt: "\<not> y \<le> d" if "y \<in> set ys" for y using that le(2) older(1) [of y] mem by auto
  have "set xs = {e \<in> set (resource_demands p). dm_priority e \<le> prio}"
    "set ys = {e \<in> set (resource_demands p). prio < dm_priority e}"
    using le(1) gt older(2) mem by (auto simp: not_le [symmetric])
  with split show ?thesis by blast
qed

theorem demands_queue_in_order_witness:
  "\<exists>d p' before after. record_demand ''dock'' ''n'' 8 3 (dock [(''q'', dock_demand)] [(''r'', dock_reservation)] []) = (Inr d, p') \<and>
     resource_demands p' = before @ d # after \<and> set before = {} \<and> set after = {dock_demand}"
proof -
  let ?p = "dock [(''q'', dock_demand)] [(''r'', dock_reservation)] []"
  obtain d p' where r: "record_demand ''dock'' ''n'' 8 3 ?p = (Inr d, p')"
    by (simp add: record_demand_def new_demand_def mk_resource_demand_def resource_definitions_def resource_demands_def
        resource_reservations_def by_key_def next_resource_sequence_def next_seq_def save_demand_body_def
        save_resource_demand_def mark_dirty_def new_uow_def transaction_def fork_state_def commit_def overlap_def
        bind_m_def return_m_def dock_defs guards.simps)
  have ds: "set (resource_demands ?p) = {dock_demand}" by (simp add: resource_demands_def dock_def)
  have "{e \<in> {dock_demand}. dm_priority e \<le> 3} = {}" "{e \<in> {dock_demand}. 3 < dm_priority e} = {dock_demand}"
    by (auto simp: dock_demand_def)
  with demands_queue_in_order [OF dock_wf(2) r] r show ?thesis unfolding ds by metis
qed

text \<open>
  A rebuild submits every live request exactly once: after finishing interrupted releases it
  asks the backend for each remaining reservation and then for each demand, the demands in queue
  order, with no request identity submitted twice.
\<close>

theorem rebuild_submits_each_request_once:
  assumes "state_wf (pstate (rw_persistence w))" and "settled_disjoint (pstate (rw_persistence w))"
    and "\<not> read_only (rw_persistence w)" and "rw_backend w = []"
    and "rebuild_resource_backend recording_backend w = (r, w')"
  shows "\<exists>p. finalize_interrupted_releases (rw_persistence w) = (Inr (), p) \<and>
    r = Inr (length (resource_reservations p) + length (resource_demands p)) \<and>
    rw_backend w' = map (\<lambda>d. CreateCall (rd_name d) (rd_capacity d)) (resource_definitions p) @
      map restore_call (resource_reservations p) @ map demand_call (resource_demands p) \<and>
    sorted (resource_demands p) \<and>
    distinct (map rv_request_id (resource_reservations p) @ map dm_request_id (resource_demands p))"
proof -
  let ?s = "pstate (rw_persistence w)"
  note keys = resource_keys [OF assms(1)]
  obtain p where p: "finalize_interrupted_releases (rw_persistence w) = (Inr (), p)"
    and resv: "st_resource_demands (pstate p) = st_resource_demands ?s"
      "st_resource_reservations (pstate p) = filter (\<lambda>kv. fst kv \<notin>
        ri_reservation_id ` set (dvalues (st_resource_release_intents ?s))) (st_resource_reservations ?s)"
    using interrupted_releases_fin [OF assms(1-3)] by simp
  have dms: "distinct (map dm_request_id (resource_demands p))"
    unfolding resource_demands_def resv(1) by (rule keyed_distinct_view [OF keys(2)]) simp
  have live: "map_of (st_resource_reservations ?s) (rv_reservation_id r) = Some r"
    if "r \<in> set (resource_reservations p)" for r
  proof -
    from that resv(2) have "r \<in> set (dvalues (st_resource_reservations ?s))"
      by (auto simp: resource_reservations_def)
    then show ?thesis using keyed_mem_iff [OF keys(3)] by simp
  qed
  have ids: "distinct (map rv_reservation_id (resource_reservations p))"
    unfolding resource_reservations_def resv(2) by (rule keyed_distinct_view [OF keyed_filter [OF keys(3)]]) simp
  have "inj_on rv_request_id (set (resource_reservations p))"
  proof (rule inj_onI)
    fix a b assume ab: "a \<in> set (resource_reservations p)" "b \<in> set (resource_reservations p)"
      "rv_request_id a = rv_request_id b"
    then have "rv_reservation_id a = rv_reservation_id b"
      using live [OF ab(1)] live [OF ab(2)] assms(1) unfolding state_wf_def resources_wf_def by blast
    then show "a = b" using live [OF ab(1)] live [OF ab(2)] by (metis option.inject)
  qed
  with ids have rvs: "distinct (map rv_request_id (resource_reservations p))" by (simp add: distinct_map)
  have apart: "rv_request_id r \<noteq> dm_request_id d"
    if "r \<in> set (resource_reservations p)" "d \<in> set (resource_demands p)" for r d
  proof -
    have "map_of (st_resource_demands ?s) (dm_request_id d) = Some d"
      using that(2) keyed_mem_iff [OF keys(2)] resv(1) by (simp add: resource_demands_def)
    moreover have "map_of (st_resource_demands ?s) (rv_request_id r) = None"
      using live [OF that(1)] assms(1) unfolding state_wf_def resources_wf_def by blast
    ultimately show ?thesis by auto
  qed
  from apart have "set (map rv_request_id (resource_reservations p)) \<inter> set (map dm_request_id (resource_demands p)) = {}"
    by auto
  then have "distinct (map rv_request_id (resource_reservations p) @ map dm_request_id (resource_demands p))"
    using dms rvs by simp
  moreover have "sorted (resource_demands p)" by (simp add: resource_demands_def)
  ultimately show ?thesis using p recording_rebuild [OF p assms(4)] assms(5) by simp
qed

theorem rebuild_submits_each_request_once_witness:
  "\<exists>w'. rebuild_resource_backend recording_backend
       \<lparr>rw_persistence = dock [(''q'', dock_demand)] [(''r'', dock_reservation)] [(''i'', dock_intent)], rw_backend = [],
        rw_backend_leases = [], rw_pending_callbacks = [] :: (string \<times> nat) list, rw_called = []\<rparr> = (Inr 1, w') \<and>
     rw_backend w' = [CreateCall ''dock'' 1, RequestCall ''dock'' ''q'' 5 (GrantRequest ''q'')]"
proof -
  let ?p = "dock [(''q'', dock_demand)] [(''r'', dock_reservation)] [(''i'', dock_intent)]"
  let ?w = "\<lparr>rw_persistence = ?p, rw_backend = [], rw_backend_leases = [],
    rw_pending_callbacks = [] :: (string \<times> nat) list, rw_called = []\<rparr>"
  obtain r w' where r: "rebuild_resource_backend recording_backend ?w = (r, w')" by fastforce
  have "finalize_interrupted_releases ?p = (Inr (), dock [(''q'', dock_demand)] [] [])"
    using interrupted_releases_fin [OF dock_wf(3) dock_settled] by (simp add: dock_defs)
  with rebuild_submits_each_request_once [of ?w, OF _ _ _ _ r] dock_wf(3) dock_settled
  have "r = Inr 1 \<and> rw_backend w' = [CreateCall ''dock'' 1, RequestCall ''dock'' ''q'' 5 (GrantRequest ''q'')]"
    by (simp add: resource_reservations_def resource_demands_def resource_definitions_def by_key_def dock_def
        new_persistence_def empty_state_def demand_call_def) (simp add: dock_demand_def)
  with r show ?thesis by simp
qed

end
