(* ===== verification/Stores.thy ===== *)
theory Stores
  imports Memory_Persistence Recoverable Backend_Interface
begin

text \<open>
  \<open>core/stores.py\<close>: \<open>DurableStoreManager\<close>. A put is a durable intent until the backend has
  stored the item; a get is a durable request until the backend has chosen an item for it, then a
  durable selection. An item may be selected while its put is still an intent.

  The backend is a parameter. The closures the manager hands to it (\<open>stored\<close> and
  \<open>received\<close>) are the constructors of \<open>store_callback\<close>; the backend calls them with an item at
  a time of its own, in the order \<open>run_until\<close> returns them. Callers' callbacks are opaque tokens
  and their invocations are logged. Values of items are compared with \<open>=\<close>.
\<close>

section \<open>The world of the manager\<close>

type_synonym 'v store_filter = "'v store_item \<Rightarrow> bool"

datatype 'cb store_callback = Stored string "'cb option" | Received string "'cb option"

record ('v, 'b, 'cb) store_backend =
  sb_now :: "('b \<Rightarrow> datetime) option"
  sb_create_store :: "string \<Rightarrow> int option \<Rightarrow> ('b, unit) meth"
  sb_create_priority_store :: "string \<Rightarrow> int option \<Rightarrow> ('b, unit) meth"
  sb_create_filter_store :: "string \<Rightarrow> int option \<Rightarrow> ('b, unit) meth"
  sb_put_store :: "string \<Rightarrow> string \<Rightarrow> 'v \<Rightarrow> int \<Rightarrow> 'cb store_callback option \<Rightarrow> ('b, unit) meth"
  sb_get_store :: "string \<Rightarrow> string \<Rightarrow> 'v store_filter option \<Rightarrow> 'cb store_callback \<Rightarrow> ('b, unit) meth"
  sb_run_until :: "(datetime \<Rightarrow> 'b \<Rightarrow> ('cb store_callback \<times> 'v store_item \<times> datetime) list \<times> 'b) option"

record ('v, 'b, 'cb) store_world =
  stw_persistence :: "'v persistence"
  stw_backend :: 'b
  stw_called :: "('cb \<times> 'v durable_store_item) list"

definition on_store_state :: "('v persistence, 'a) meth \<Rightarrow> (('v, 'b, 'cb) store_world, 'a) meth" where
  "on_store_state m w = (case m (stw_persistence w) of (r, p) \<Rightarrow> (r, w\<lparr>stw_persistence := p\<rparr>))"

definition on_store_backend :: "('b, 'a) meth \<Rightarrow> (('v, 'b, 'cb) store_world, 'a) meth" where
  "on_store_backend m w = (case m (stw_backend w) of (r, b) \<Rightarrow> (r, w\<lparr>stw_backend := b\<rparr>))"

section \<open>Lookups\<close>

definition item_with_id :: "string \<Rightarrow> 'v persistence \<Rightarrow> 'v durable_store_item option" where
  "item_with_id item_id p = find (\<lambda>i. si_item_id i = item_id) (store_items p)"

definition consumed_item_with_id :: "string \<Rightarrow> 'v persistence \<Rightarrow> 'v durable_store_item option" where
  "consumed_item_with_id item_id p =
     map_option gr_item (find (\<lambda>r. si_item_id (gr_item r) = item_id) (store_get_results p))"

definition pending_put_intent :: "string \<Rightarrow> 'v persistence \<Rightarrow> 'v store_put_intent option" where
  "pending_put_intent item_id p = find (\<lambda>i. pi_item_id i = item_id) (store_put_intents p)"

definition pending_get :: "string \<Rightarrow> 'v persistence \<Rightarrow> store_get_request option" where
  "pending_get request_id p = find (\<lambda>q. gq_request_id q = request_id) (store_get_requests p)"

definition selection :: "string \<Rightarrow> 'v persistence \<Rightarrow> 'v store_get_result option" where
  "selection request_id p = find (\<lambda>r. gr_request_id r = request_id) (store_get_results p)"

definition store_definition_of :: "string \<Rightarrow> 'v persistence \<Rightarrow> store_definition res" where
  "store_definition_of name p = (case find (\<lambda>d. sd_name d = name) (store_definitions p) of
     None \<Rightarrow> Inl (KeyError (''unknown store definition: '' @ name))
   | Some d \<Rightarrow> Inr d)"

definition store_filter_of :: "(string \<times> 'v store_filter) list \<Rightarrow> string \<Rightarrow> 'v store_filter res" where
  "store_filter_of filters key = (case dget filters key of
     None \<Rightarrow> Inl (KeyError (''unknown durable store filter: '' @ key))
   | Some f \<Rightarrow> Inr f)"

definition next_store_sequence :: "'v persistence \<Rightarrow> int" where
  "next_store_sequence p = next_seq
     (map si_sequence (store_items p) @ map pi_sequence (store_put_intents p) @
      map gq_sequence (store_get_requests p) @ map gr_sequence (store_get_results p))"

section \<open>Submitting to the backend\<close>

definition submit_put_intent ::
  "('v, 'b, 'cb) store_backend \<Rightarrow> 'v store_put_intent \<Rightarrow> 'cb option \<Rightarrow> ('b, unit) meth" where
  "submit_put_intent B intent on_stored =
     sb_put_store B (pi_store_name intent) (pi_item_id intent) (pi_value intent) (pi_priority intent)
       (Some (Stored (pi_item_id intent) on_stored))"

definition submit_get_request ::
  "(string \<times> 'v store_filter) list \<Rightarrow> ('v, 'b, 'cb) store_backend \<Rightarrow> store_get_request \<Rightarrow> 'cb option
     \<Rightarrow> ('b, unit) meth" where
  "submit_get_request filters B request on_received b =
     (case (case gq_filter_key request of
              None \<Rightarrow> Inr None
            | Some key \<Rightarrow> bind_res (store_filter_of filters key) (\<lambda>f. Inr (Some f))) of
        Inl e \<Rightarrow> (Inl e, b)
      | Inr predicate \<Rightarrow> sb_get_store B (gq_store_name request) (gq_request_id request) predicate
          (Received (gq_request_id request) on_received) b)"

section \<open>Puts\<close>

definition define_store_body :: "store_definition \<Rightarrow> ('v, unit) tx_body" where
  "define_store_body definition u = bind_res (save_store_definition definition u) (\<lambda>u. Inr ((), u))"

definition define_store :: "store_definition \<Rightarrow> ('v persistence, unit) meth" where
  "define_store definition = transaction None (define_store_body definition)"

definition new_put_intent ::
  "string \<Rightarrow> string \<Rightarrow> 'v \<Rightarrow> datetime \<Rightarrow> int \<Rightarrow> 'v persistence \<Rightarrow> 'v store_put_intent res" where
  "new_put_intent store_name item_id v requested_at priority p =
     bind_res (store_definition_of store_name p) (\<lambda>_.
     bind_res (guards
       [(list_ex (\<lambda>i. si_item_id i = item_id) (store_items p) \<or>
         list_ex (\<lambda>i. pi_item_id i = item_id) (store_put_intents p),
         ValueError (''store item already exists: '' @ item_id))] ()) (\<lambda>_.
     mk_store_put_intent \<lparr>pi_item_id = item_id, pi_store_name = store_name, pi_value = v,
       pi_priority = priority, pi_requested_at = requested_at, pi_sequence = next_store_sequence p\<rparr>))"

definition put_body :: "'v store_put_intent \<Rightarrow> ('v, 'v store_put_intent) tx_body" where
  "put_body intent u = bind_res (save_store_put_intent intent u) (\<lambda>u. Inr (intent, u))"

definition record_put ::
  "string \<Rightarrow> string \<Rightarrow> 'v \<Rightarrow> datetime \<Rightarrow> int \<Rightarrow> ('v persistence, 'v store_put_intent) meth" where
  "record_put store_name item_id v requested_at priority p =
     (case new_put_intent store_name item_id v requested_at priority p of
        Inl e \<Rightarrow> (Inl e, p)
      | Inr intent \<Rightarrow> transaction None (put_body intent) p)"

definition put_store ::
  "('v, 'b, 'cb) store_backend \<Rightarrow> string \<Rightarrow> string \<Rightarrow> 'v \<Rightarrow> datetime \<Rightarrow> int \<Rightarrow> 'cb option
     \<Rightarrow> (('v, 'b, 'cb) store_world, 'v store_put_intent) meth" where
  "put_store B store_name item_id v requested_at priority on_stored =
     bind_m (on_store_state (record_put store_name item_id v requested_at priority)) (\<lambda>intent.
     bind_m (on_store_backend (submit_put_intent B intent on_stored)) (\<lambda>_. return_m intent))"

text \<open>The durable item an accepted put becomes.\<close>

definition item_of_intent :: "'v store_put_intent \<Rightarrow> 'v durable_store_item" where
  "item_of_intent intent = \<lparr>si_item_id = pi_item_id intent, si_store_name = pi_store_name intent,
     si_value = pi_value intent, si_priority = pi_priority intent, si_sequence = pi_sequence intent\<rparr>"

definition commit_put_body ::
  "string \<Rightarrow> 'v store_put_intent \<Rightarrow> 'v durable_store_item \<Rightarrow> ('v, 'v durable_store_item option) tx_body" where
  "commit_put_body item_id intent item u =
     (if get_store_put_intent item_id u \<noteq> Some intent
      then Inl (RuntimeError (''store put intent changed before commit: '' @ item_id))
      else bind_res (delete_store_put_intent item_id u) (\<lambda>u.
           bind_res (save_store_item item u) (\<lambda>u. Inr (Some item, u))))"

definition commit_put :: "string \<Rightarrow> ('v persistence, 'v durable_store_item option) meth" where
  "commit_put item_id p =
     (case item_with_id item_id p of
        Some existing \<Rightarrow> (Inr (Some existing), p)
      | None \<Rightarrow> (case pending_put_intent item_id p of
            None \<Rightarrow> (Inr None, p)
          | Some intent \<Rightarrow> (case mk_durable_store_item (item_of_intent intent) of
                Inl e \<Rightarrow> (Inl e, p)
              | Inr item \<Rightarrow> transaction None (commit_put_body item_id intent item) p)))"

section \<open>Gets\<close>

definition new_get_request ::
  "(string \<times> 'v store_filter) list \<Rightarrow> string \<Rightarrow> string \<Rightarrow> datetime \<Rightarrow> string option \<Rightarrow> 'v persistence
     \<Rightarrow> store_get_request res" where
  "new_get_request filters store_name request_id requested_at filter_key p =
     bind_res (store_definition_of store_name p) (\<lambda>definition.
     bind_res (guards
       [(list_ex (\<lambda>q. gq_request_id q = request_id) (store_get_requests p) \<or>
         list_ex (\<lambda>r. gr_request_id r = request_id) (store_get_results p),
         ValueError (''store get request already exists: '' @ request_id)),
        (filter_key \<noteq> None \<and> sd_kind definition \<noteq> ''filter'',
         ValueError ''filter_key is supported only for filter stores'')] ()) (\<lambda>_.
     bind_res (case filter_key of
         Some key \<Rightarrow> if sd_kind definition = ''filter'' then map_sum id (\<lambda>_. ()) (store_filter_of filters key) else Inr ()
       | None \<Rightarrow> Inr ()) (\<lambda>_.
     mk_store_get_request \<lparr>gq_request_id = request_id, gq_store_name = store_name, gq_requested_at = requested_at,
       gq_sequence = next_store_sequence p, gq_filter_key = filter_key\<rparr>)))"

definition get_body :: "store_get_request \<Rightarrow> ('v, store_get_request) tx_body" where
  "get_body request u = bind_res (save_store_get_request request u) (\<lambda>u. Inr (request, u))"

definition record_get ::
  "(string \<times> 'v store_filter) list \<Rightarrow> string \<Rightarrow> string \<Rightarrow> datetime \<Rightarrow> string option
     \<Rightarrow> ('v persistence, store_get_request) meth" where
  "record_get filters store_name request_id requested_at filter_key p =
     (case new_get_request filters store_name request_id requested_at filter_key p of
        Inl e \<Rightarrow> (Inl e, p)
      | Inr request \<Rightarrow> transaction None (get_body request) p)"

definition get_store ::
  "(string \<times> 'v store_filter) list \<Rightarrow> ('v, 'b, 'cb) store_backend \<Rightarrow> string \<Rightarrow> string \<Rightarrow> datetime
     \<Rightarrow> string option \<Rightarrow> 'cb option \<Rightarrow> (('v, 'b, 'cb) store_world, store_get_request) meth" where
  "get_store filters B store_name request_id requested_at filter_key on_received =
     bind_m (on_store_state (record_get filters store_name request_id requested_at filter_key)) (\<lambda>request.
     bind_m (on_store_backend (submit_get_request filters B request on_received)) (\<lambda>_. return_m request))"

definition consume_store_item ::
  "'v durable_store_item option \<Rightarrow> 'v store_put_intent option \<Rightarrow> string \<Rightarrow> 'v durable_store_item res" where
  "consume_store_item item intent item_id = (case item of
     Some i \<Rightarrow> Inr i
   | None \<Rightarrow> (case intent of
         None \<Rightarrow> Inl (KeyError (''unknown durable store item: '' @ item_id))
       | Some i \<Rightarrow> mk_durable_store_item (item_of_intent i)))"

definition consume_persisted_store_item :: "string \<Rightarrow> 'v uow \<Rightarrow> 'v uow res" where
  "consume_persisted_store_item item_id u =
     (let persisted_item = get_store_item item_id u; persisted_intent = get_store_put_intent item_id u
      in if persisted_item = None \<and> persisted_intent = None
         then Inl (RuntimeError (''store item disappeared during consume: '' @ item_id))
         else bind_res (if persisted_item \<noteq> None then delete_store_item item_id u else Inr u) (\<lambda>u.
              if persisted_intent \<noteq> None then delete_store_put_intent item_id u else Inr u))"

text \<open>The request that is answered and the selection that answers it, or the reason there is none.\<close>

definition prepare_get ::
  "string \<Rightarrow> 'v store_item \<Rightarrow> datetime \<Rightarrow> 'v persistence
     \<Rightarrow> ('v store_get_result + store_get_request \<times> 'v store_get_result) res" where
  "prepare_get request_id backend_item completed_at p =
     (case pending_get request_id p of
        None \<Rightarrow> Inl (KeyError (''unknown store get request: '' @ request_id))
      | Some request \<Rightarrow>
        if bi_store_name backend_item \<noteq> gq_store_name request
        then Inl (RuntimeError (''store get returned item from wrong store: '' @ bi_item_id backend_item))
        else
          let item = item_with_id (bi_item_id backend_item) p; intent = pending_put_intent (bi_item_id backend_item) p
          in if item = None \<and> intent = None
             then (case selection request_id p of
                 Some winner \<Rightarrow> Inr (Inl winner)
               | None \<Rightarrow> Inl (KeyError (''unknown durable store item: '' @ bi_item_id backend_item)))
             else bind_res (consume_store_item item intent (bi_item_id backend_item)) (\<lambda>consumed.
                  bind_res (mk_store_get_result \<lparr>gr_request_id = gq_request_id request,
                    gr_store_name = gq_store_name request, gr_item = consumed, gr_completed_at = completed_at,
                    gr_sequence = gq_sequence request\<rparr>) (\<lambda>result. Inr (Inr (request, result)))))"

definition commit_get_body ::
  "string \<Rightarrow> string \<Rightarrow> store_get_request \<Rightarrow> 'v store_get_result \<Rightarrow> ('v, 'v store_get_result) tx_body" where
  "commit_get_body request_id item_id request result u =
     (if get_store_get_request request_id u \<noteq> Some request
      then (case get_store_get_result request_id u of
          Some existing \<Rightarrow> Inr (existing, u)
        | None \<Rightarrow> Inl (RuntimeError (''store get request changed: '' @ request_id)))
      else bind_res (consume_persisted_store_item item_id u) (\<lambda>u.
           bind_res (save_store_get_result result u) (\<lambda>u.
           bind_res (delete_store_get_request request_id u) (\<lambda>u. Inr (result, u)))))"

definition commit_get ::
  "string \<Rightarrow> 'v store_item \<Rightarrow> datetime \<Rightarrow> ('v persistence, 'v store_get_result) meth" where
  "commit_get request_id backend_item completed_at p =
     (case selection request_id p of
        Some existing \<Rightarrow> (Inr existing, p)
      | None \<Rightarrow> (case prepare_get request_id backend_item completed_at p of
            Inl e \<Rightarrow> (Inl e, p)
          | Inr (Inl winner) \<Rightarrow> (Inr winner, p)
          | Inr (Inr (request, result)) \<Rightarrow>
              transaction None (commit_get_body request_id (bi_item_id backend_item) request result) p))"

section \<open>Callbacks\<close>

definition log_call :: "'cb option \<Rightarrow> 'v durable_store_item \<Rightarrow> (('v, 'b, 'cb) store_world, unit) meth" where
  "log_call callback item w = (Inr (), case callback of
     None \<Rightarrow> w | Some cb \<Rightarrow> w\<lparr>stw_called := stw_called w @ [(cb, item)]\<rparr>)"

definition deliver_store ::
  "'cb store_callback \<times> 'v store_item \<times> datetime \<Rightarrow> (('v, 'b, 'cb) store_world, unit) meth" where
  "deliver_store d = (case d of
     (Stored item_id on_stored, _, _) \<Rightarrow>
       bind_m (on_store_state (commit_put item_id)) (\<lambda>item.
         case item of None \<Rightarrow> return_m () | Some i \<Rightarrow> log_call on_stored i)
   | (Received request_id on_received, item, now) \<Rightarrow>
       bind_m (on_store_state (commit_get request_id item now)) (\<lambda>result. log_call on_received (gr_item result)))"

definition run_store_backend ::
  "('v, 'b, 'cb) store_backend \<Rightarrow> datetime \<Rightarrow> (('v, 'b, 'cb) store_world, unit) meth" where
  "run_store_backend B requested_at w = (case sb_run_until B of
     None \<Rightarrow> (Inr (), w)
   | Some run \<Rightarrow>
       (case run (case sb_now B of None \<Rightarrow> requested_at | Some now \<Rightarrow> now (stw_backend w)) (stw_backend w) of
          (calls, b) \<Rightarrow> each_m deliver_store calls (w\<lparr>stw_backend := b\<rparr>)))"

section \<open>Idempotent puts and selections\<close>

definition assert_store_item_identity :: "'v durable_store_item \<Rightarrow> string \<Rightarrow> 'v \<Rightarrow> string \<Rightarrow> unit res" where
  "assert_store_item_identity item store_name v item_id =
     (if si_store_name item = store_name \<and> si_value item = v then Inr ()
      else Inl (ValueError (''store item identity conflict: '' @ item_id)))"

definition ensure_pending_put_intent ::
  "('v, 'b, 'cb) store_backend \<Rightarrow> string \<Rightarrow> string \<Rightarrow> 'v \<Rightarrow> datetime \<Rightarrow> int
     \<Rightarrow> (('v, 'b, 'cb) store_world, unit) meth" where
  "ensure_pending_put_intent B store_name item_id v requested_at priority w =
     (case pending_put_intent item_id (stw_persistence w) of
        None \<Rightarrow> bind_m (put_store B store_name item_id v requested_at priority None) (\<lambda>_. return_m ()) w
      | Some pending \<Rightarrow>
          if pi_store_name pending \<noteq> store_name \<or> pi_value pending \<noteq> v \<or> pi_priority pending \<noteq> priority
          then (Inl (ValueError (''store item identity conflict: '' @ item_id)), w)
          else (Inr (), w))"

definition ensure_put ::
  "('v, 'b, 'cb) store_backend \<Rightarrow> string \<Rightarrow> string \<Rightarrow> 'v \<Rightarrow> datetime \<Rightarrow> int
     \<Rightarrow> (('v, 'b, 'cb) store_world, 'v durable_store_item option) meth" where
  "ensure_put B store_name item_id v requested_at priority w =
     (case item_with_id item_id (stw_persistence w) of
        Some existing \<Rightarrow>
          (bind_res (assert_store_item_identity existing store_name v item_id) (\<lambda>_. Inr (Some existing)), w)
      | None \<Rightarrow> (case consumed_item_with_id item_id (stw_persistence w) of
            Some consumed \<Rightarrow>
              (bind_res (assert_store_item_identity consumed store_name v item_id) (\<lambda>_. Inr (Some consumed)), w)
          | None \<Rightarrow>
              bind_m (ensure_pending_put_intent B store_name item_id v requested_at priority) (\<lambda>_.
              bind_m (run_store_backend B requested_at) (\<lambda>_ w.
                (Inr (item_with_id item_id (stw_persistence w)), w))) w))"

definition ensure_selection ::
  "(string \<times> 'v store_filter) list \<Rightarrow> ('v, 'b, 'cb) store_backend \<Rightarrow> string \<Rightarrow> string \<Rightarrow> datetime
     \<Rightarrow> string option \<Rightarrow> (('v, 'b, 'cb) store_world, 'v store_get_result option) meth" where
  "ensure_selection filters B store_name request_id requested_at filter_key w =
     (case selection request_id (stw_persistence w) of
        Some existing \<Rightarrow>
          if gr_store_name existing \<noteq> store_name
          then (Inl (RuntimeError (''selection '' @ request_id @ '' belongs to '' @ gr_store_name existing @
                  '', not '' @ store_name)), w)
          else (Inr (Some existing), w)
      | None \<Rightarrow>
          bind_m (\<lambda>w. case pending_get request_id (stw_persistence w) of
              Some pending \<Rightarrow>
                if gq_store_name pending \<noteq> store_name \<or> gq_filter_key pending \<noteq> filter_key
                then (Inl (RuntimeError (''pending selection '' @ request_id @ '' does not match requested store/filter'')), w)
                else (Inr (), w)
            | None \<Rightarrow> bind_m (get_store filters B store_name request_id requested_at filter_key None) (\<lambda>_. return_m ()) w)
          (\<lambda>_. bind_m (run_store_backend B requested_at) (\<lambda>_ w.
            (Inr (selection request_id (stw_persistence w)), w))) w)"

section \<open>Recovery\<close>

definition validate_get_record ::
  "(string \<times> 'v store_filter) list \<Rightarrow> (string \<times> store_definition) list \<Rightarrow> store_get_request \<Rightarrow> unit res" where
  "validate_get_record filters definitions request = (case dget definitions (gq_store_name request) of
     None \<Rightarrow> Inl (RuntimeError (''store get references unknown definition: '' @ gq_request_id request))
   | Some definition \<Rightarrow> (case gq_filter_key request of
         None \<Rightarrow> Inr ()
       | Some key \<Rightarrow>
           if sd_kind definition \<noteq> ''filter''
           then Inl (RuntimeError (''filtered get targets non-filter store: '' @ gq_request_id request))
           else map_sum id (\<lambda>_. ()) (store_filter_of filters key)))"

definition validate_store_records ::
  "(string \<times> 'v store_filter) list \<Rightarrow> (string \<times> store_definition) list \<Rightarrow> 'v persistence \<Rightarrow> unit res" where
  "validate_store_records filters definitions p =
     bind_res (each_ok (\<lambda>i. guards [(\<not> dhas definitions (si_store_name i),
         RuntimeError (''store item references unknown definition: '' @ si_item_id i))] ()) (store_items p)) (\<lambda>_.
     bind_res (each_ok (\<lambda>i. guards [(\<not> dhas definitions (pi_store_name i),
         RuntimeError (''store put references unknown definition: '' @ pi_item_id i))] ()) (store_put_intents p)) (\<lambda>_.
     each_ok (validate_get_record filters definitions) (store_get_requests p)))"

definition validate_store_capacities :: "(string \<times> store_definition) list \<Rightarrow> 'v persistence \<Rightarrow> unit res" where
  "validate_store_capacities definitions p =
     each_ok (\<lambda>d. case sd_capacity d of
         None \<Rightarrow> Inr ()
       | Some capacity \<Rightarrow> guards
           [(capacity < int (length (filter (\<lambda>i. si_store_name i = sd_name d) (store_items p))),
             RuntimeError (''durable store '' @ sd_name d @ '' contains more items than capacity''))] ())
       (dvalues definitions)"

definition validate_store_rebuild :: "(string \<times> 'v store_filter) list \<Rightarrow> 'v persistence \<Rightarrow> unit res" where
  "validate_store_rebuild filters p =
     (let definitions = dict_of sd_name (store_definitions p)
      in bind_res (validate_store_records filters definitions p) (\<lambda>_. validate_store_capacities definitions p))"

definition ordered_items :: "store_definition \<Rightarrow> 'v durable_store_item list \<Rightarrow> 'v durable_store_item list" where
  "ordered_items definition items =
     (if sd_kind definition = ''priority'' then sort_key (\<lambda>i. (si_priority i, si_sequence i, si_item_id i)) items
      else sort_key (\<lambda>i. (si_sequence i, si_item_id i)) items)"

definition create_backend_store ::
  "('v, 'b, 'cb) store_backend \<Rightarrow> store_definition \<Rightarrow> ('b, unit) meth" where
  "create_backend_store B definition =
     (if sd_kind definition = ''fifo'' then sb_create_store B (sd_name definition) (sd_capacity definition)
      else if sd_kind definition = ''priority'' then sb_create_priority_store B (sd_name definition) (sd_capacity definition)
      else sb_create_filter_store B (sd_name definition) (sd_capacity definition))"

definition items_of_store :: "store_definition \<Rightarrow> 'v persistence \<Rightarrow> 'v durable_store_item list" where
  "items_of_store definition p =
     ordered_items definition (filter (\<lambda>i. si_store_name i = sd_name definition) (store_items p))"

definition restore_store_items ::
  "('v, 'b, 'cb) store_backend \<Rightarrow> (string \<times> store_definition) list \<Rightarrow> 'v persistence \<Rightarrow> ('b, nat) meth" where
  "restore_store_items B definitions p =
     bind_m (each_m (\<lambda>d. each_m (\<lambda>i. sb_put_store B (sd_name d) (si_item_id i) (si_value i) (si_priority i) None)
         (items_of_store d p)) (dvalues definitions))
       (\<lambda>_. return_m (sum_list (map (\<lambda>d. length (items_of_store d p)) (dvalues definitions))))"

definition pending_operations :: "'v persistence \<Rightarrow> ('v store_put_intent + store_get_request) list" where
  "pending_operations p = sort_key (\<lambda>x. case x of Inl i \<Rightarrow> (pi_sequence i, 0 :: int) | Inr q \<Rightarrow> (gq_sequence q, 1))
     (map Inl (store_put_intents p) @ map Inr (store_get_requests p))"

definition restore_pending_operations ::
  "(string \<times> 'v store_filter) list \<Rightarrow> ('v, 'b, 'cb) store_backend \<Rightarrow> 'v persistence \<Rightarrow> ('b, nat) meth" where
  "restore_pending_operations filters B p =
     bind_m (each_m (\<lambda>x. case x of Inl i \<Rightarrow> submit_put_intent B i None | Inr q \<Rightarrow> submit_get_request filters B q None)
         (pending_operations p))
       (\<lambda>_. return_m (length (pending_operations p)))"

definition rebuild_store_backend ::
  "(string \<times> 'v store_filter) list \<Rightarrow> ('v, 'b, 'cb) store_backend \<Rightarrow> 'v persistence \<Rightarrow> ('b, nat) meth" where
  "rebuild_store_backend filters B p b =
     (case validate_store_rebuild filters p of
        Inl e \<Rightarrow> (Inl e, b)
      | Inr _ \<Rightarrow>
        (let definitions = dict_of sd_name (store_definitions p)
         in bind_m (each_m (create_backend_store B) (dvalues definitions)) (\<lambda>_.
            bind_m (restore_store_items B definitions p) (\<lambda>restored_items.
            bind_m (restore_pending_operations filters B p) (\<lambda>restored_pending.
              return_m (restored_items + restored_pending)))) b))"

section \<open>The invariant\<close>

definition store_keys :: "'v state \<Rightarrow> bool" where
  "store_keys s \<longleftrightarrow> keyed sd_name (st_store_definitions s) \<and> keyed si_item_id (st_store_items s) \<and>
     keyed pi_item_id (st_store_put_intents s) \<and> keyed gq_request_id (st_store_get_requests s) \<and>
     keyed gr_request_id (st_store_get_results s)"

definition store_requests_ok :: "(string \<times> 'v store_filter) list \<Rightarrow> 'v state \<Rightarrow> bool" where
  "store_requests_ok filters s \<longleftrightarrow>
     (\<forall>k q. map_of (st_store_get_requests s) k = Some q \<longrightarrow>
        map_of (st_store_get_results s) k = None \<and>
        (\<exists>d. map_of (st_store_definitions s) (gq_store_name q) = Some d \<and>
           (\<forall>f. gq_filter_key q = Some f \<longrightarrow> sd_kind d = ''filter'' \<and> map_of filters f \<noteq> None)))"

definition items_in :: "string \<Rightarrow> 'v state \<Rightarrow> 'v durable_store_item list" where
  "items_in name s = filter (\<lambda>i. si_store_name i = name) (dvalues (st_store_items s))"

definition store_capacities_ok :: "'v state \<Rightarrow> bool" where
  "store_capacities_ok s \<longleftrightarrow>
     (\<forall>n d c. map_of (st_store_definitions s) n = Some d \<longrightarrow> sd_capacity d = Some c \<longrightarrow>
        int (length (items_in n s)) \<le> c)"

definition store_inv :: "(string \<times> 'v store_filter) list \<Rightarrow> 'v state \<Rightarrow> bool" where
  "store_inv filters s \<longleftrightarrow> store_keys s \<and> stores_wf s \<and> store_requests_ok filters s"

lemmas store_inv_defs = store_inv_def store_keys_def stores_wf_def store_requests_ok_def

lemma store_finds:
  assumes "store_keys (pstate p)"
  shows "item_with_id k p = map_of (st_store_items (pstate p)) k"
    and "pending_put_intent k p = map_of (st_store_put_intents (pstate p)) k"
    and "pending_get k p = map_of (st_store_get_requests (pstate p)) k"
    and "selection k p = map_of (st_store_get_results (pstate p)) k"
    and "find (\<lambda>d. sd_name d = k) (store_definitions p) = map_of (st_store_definitions (pstate p)) k"
  using assms
  unfolding store_keys_def item_with_id_def pending_put_intent_def pending_get_def selection_def
  by (auto intro!: find_keyed simp: store_items_def store_put_intents_def store_get_requests_def
      store_get_results_def store_definitions_def)

section \<open>What the operations do to the durable state\<close>

lemma define_store_effect:
  assumes "define_store d p = (r, p')"
  shows "p' = p \<or>
    (map_of (st_store_definitions (pstate p)) (sd_name d) = None \<or>
     map_of (st_store_definitions (pstate p)) (sd_name d) = Some d) \<and>
    p' = p\<lparr>pstate := (pstate p)\<lparr>st_store_definitions := dset (sd_name d) d (st_store_definitions (pstate p))\<rparr>\<rparr>"
  using assms unfolding define_store_def
  by (cases rule: transaction_cases)
    (auto simp: define_store_body_def save_store_definition_def mark_dirty_def new_uow_def split: option.splits)

lemma record_put_effect:
  assumes "record_put n k v t prio p = (r, p')" and "store_keys (pstate p)"
  shows "(\<exists>e. r = Inl e) \<and> p' = p \<or>
    (\<exists>i. r = Inr i \<and> pi_item_id i = k \<and> pi_store_name i = n \<and> pi_value i = v \<and> mk_store_put_intent i = Inr i \<and>
     map_of (st_store_definitions (pstate p)) n \<noteq> None \<and>
     map_of (st_store_items (pstate p)) k = None \<and> map_of (st_store_put_intents (pstate p)) k = None \<and>
     p' = p\<lparr>pstate := (pstate p)\<lparr>st_store_put_intents := st_store_put_intents (pstate p) @ [(k, i)]\<rparr>\<rparr>)"
proof (cases "new_put_intent n k v t prio p")
  case (Inl e)
  with assms(1) have "r = Inl e" "p' = p" by (simp_all add: record_put_def)
  then show ?thesis by blast
next
  case (Inr i)
  then have i: "pi_item_id i = k" "pi_store_name i = n" "pi_value i = v" "mk_store_put_intent i = Inr i"
    and known: "map_of (st_store_definitions (pstate p)) n \<noteq> None"
    and fresh: "map_of (st_store_items (pstate p)) k = None" "map_of (st_store_put_intents (pstate p)) k = None"
    using store_finds [OF assms(2)]
    by (auto simp: new_put_intent_def store_definition_of_def item_with_id_def pending_put_intent_def list_ex_find
        mk_store_put_intent_def split: option.splits)
  from assms(1) Inr have "transaction None (put_body i) p = (r, p')" by (simp add: record_put_def)
  then show ?thesis
  proof (cases rule: transaction_cases)
    case (2 a u)
    with i known fresh show ?thesis
      by (auto simp: put_body_def save_store_put_intent_def mark_dirty_def new_uow_def update_new)
  qed simp
qed

lemma record_get_effect:
  assumes "record_get F n k t f p = (r, p')" and "store_keys (pstate p)"
  shows "p' = p \<or>
    (\<exists>q d. gq_request_id q = k \<and> gq_store_name q = n \<and> gq_filter_key q = f \<and>
     map_of (st_store_definitions (pstate p)) n = Some d \<and>
     (\<forall>g. f = Some g \<longrightarrow> sd_kind d = ''filter'' \<and> map_of F g \<noteq> None) \<and>
     map_of (st_store_get_requests (pstate p)) k = None \<and> map_of (st_store_get_results (pstate p)) k = None \<and>
     p' = p\<lparr>pstate := (pstate p)\<lparr>st_store_get_requests := dset k q (st_store_get_requests (pstate p))\<rparr>\<rparr>)"
proof (cases "new_get_request F n k t f p")
  case (Inl e)
  with assms(1) show ?thesis by (simp add: record_get_def)
next
  case (Inr q)
  then obtain d where q: "gq_request_id q = k" "gq_store_name q = n" "gq_filter_key q = f"
    and known: "map_of (st_store_definitions (pstate p)) n = Some d"
    and filt: "\<forall>g. f = Some g \<longrightarrow> sd_kind d = ''filter'' \<and> map_of F g \<noteq> None"
    and fresh: "map_of (st_store_get_requests (pstate p)) k = None" "map_of (st_store_get_results (pstate p)) k = None"
    using store_finds [OF assms(2)]
    by (auto simp: new_get_request_def store_definition_of_def pending_get_def selection_def list_ex_find
        mk_store_get_request_def store_filter_of_def split: option.splits)
  from assms(1) Inr have "transaction None (get_body q) p = (r, p')" by (simp add: record_get_def)
  then show ?thesis
  proof (cases rule: transaction_cases)
    case (2 a u)
    then have "p' = p\<lparr>pstate := (pstate p)\<lparr>st_store_get_requests := dset k q (st_store_get_requests (pstate p))\<rparr>\<rparr>"
      using q by (auto simp: get_body_def save_store_get_request_def mark_dirty_def new_uow_def)
    with q known filt fresh show ?thesis by blast
  qed simp
qed

lemma commit_put_cases:
  assumes "commit_put k p = (r, p')" and inv: "store_inv F (pstate p)"
  obtains (same) "p' = p"
    and "case r of Inl e \<Rightarrow> True | Inr x \<Rightarrow> x = map_of (st_store_items (pstate p)) k"
  | (moved) i where "map_of (st_store_items (pstate p)) k = None"
      and "map_of (st_store_put_intents (pstate p)) k = Some i" and "r = Inr (Some (item_of_intent i))"
      and "map_of (st_store_definitions (pstate p)) (pi_store_name i) \<noteq> None" and "pi_item_id i = k"
      and "p' = p\<lparr>pstate := (pstate p)\<lparr>st_store_put_intents := dpop k (st_store_put_intents (pstate p)),
        st_store_items := st_store_items (pstate p) @ [(k, item_of_intent i)]\<rparr>\<rparr>"
proof -
  from inv have keys: "store_keys (pstate p)" by (simp add: store_inv_def)
  note finds = store_finds [OF keys]
  show ?thesis
  proof (cases "map_of (st_store_items (pstate p)) k")
    case (Some x)
    with assms(1) finds show ?thesis by (intro same) (auto simp: commit_put_def)
  next
    case None
    show ?thesis
    proof (cases "map_of (st_store_put_intents (pstate p)) k")
      case None': None
      with assms(1) finds None show ?thesis by (intro same) (auto simp: commit_put_def)
    next
      case (Some i)
      then have k: "pi_item_id i = k" using keys by (auto simp: store_keys_def dest: keyed_lookup)
      show ?thesis
      proof (cases "mk_durable_store_item (item_of_intent i)")
        case (Inl e)
        with assms(1) finds None Some show ?thesis by (intro same) (auto simp: commit_put_def)
      next
        case (Inr x)
        then have x: "x = item_of_intent i" by (simp add: mk_durable_store_item_def)
        from assms(1) finds None Some Inr have "transaction None (commit_put_body k i x) p = (r, p')"
          by (simp add: commit_put_def)
        then show ?thesis
        proof (cases rule: transaction_cases)
          case (2 a u)
          then have "p' = p\<lparr>pstate := (pstate p)\<lparr>st_store_put_intents := dpop k (st_store_put_intents (pstate p)),
              st_store_items := st_store_items (pstate p) @ [(k, item_of_intent i)]\<rparr>\<rparr>"
            "r = Inr (Some (item_of_intent i))"
            using None Some k x by (auto simp: commit_put_body_def get_store_put_intent_def delete_store_put_intent_def
                save_store_item_def mark_dirty_def new_uow_def update_new item_of_intent_def)
          moreover have "map_of (st_store_definitions (pstate p)) (pi_store_name i) \<noteq> None"
            using inv Some unfolding store_inv_def stores_wf_def by blast
          ultimately show ?thesis using None Some k by (intro moved)
        qed (auto intro: same)
      qed
    qed
  qed
qed

text \<open>The item a selection consumes: the stored item, or the one a pending put carries.\<close>

definition available :: "string \<Rightarrow> 'v state \<Rightarrow> 'v durable_store_item option" where
  "available k s = (case map_of (st_store_items s) k of
     Some i \<Rightarrow> Some i | None \<Rightarrow> map_option item_of_intent (map_of (st_store_put_intents s) k))"

lemma available_id:
  assumes "store_keys s" and "available k s = Some i"
  shows "si_item_id i = k"
proof (cases "map_of (st_store_items s) k")
  case None
  with assms(2) obtain j where "map_of (st_store_put_intents s) k = Some j" "i = item_of_intent j"
    by (auto simp: available_def)
  with assms(1) show ?thesis by (auto simp: store_keys_def item_of_intent_def dest: keyed_lookup)
next
  case (Some j)
  with assms show ?thesis by (auto simp: available_def store_keys_def dest: keyed_lookup)
qed

definition consumed_state :: "string \<Rightarrow> 'v store_get_result \<Rightarrow> string \<Rightarrow> 'v state \<Rightarrow> 'v state" where
  "consumed_state k x q s = s\<lparr>st_store_items := dpop k (st_store_items s),
     st_store_put_intents := dpop k (st_store_put_intents s),
     st_store_get_results := dset q x (st_store_get_results s),
     st_store_get_requests := dpop q (st_store_get_requests s)\<rparr>"

lemma dpop_absent: "map_of d k = None \<Longrightarrow> dpop k d = d"
  by (simp add: AList.delete_id map_of_eq_None_iff)

lemma commit_get_body_effect:
  assumes "commit_get_body q k g x (new_uow s) = Inr (a, u)"
    and "map_of (st_store_get_requests s) q = Some g" and "map_of (st_store_get_results s) q = None"
    and "gr_request_id x = q"
  shows "a = x \<and> working u = consumed_state k x q s"
  using assms
  by (auto simp: commit_get_body_def get_store_get_request_def consume_persisted_store_item_def Let_def
      get_store_item_def get_store_put_intent_def delete_store_item_def delete_store_put_intent_def
      save_store_get_result_def delete_store_get_request_def mark_dirty_def new_uow_def consumed_state_def
      dpop_absent split: if_splits option.splits)

lemma prepare_get_Inr:
  assumes "prepare_get q b t p = Inr (Inr (g, x))" and "store_keys (pstate p)"
  shows "map_of (st_store_get_requests (pstate p)) q = Some g"
    and "available (bi_item_id b) (pstate p) = Some (gr_item x)"
    and "gr_request_id x = gq_request_id g" and "gr_store_name x = gq_store_name g"
    and "si_store_name (gr_item x) = gr_store_name x"
  using assms(1) store_finds [OF assms(2)]
  by (auto simp: prepare_get_def Let_def consume_store_item_def mk_durable_store_item_def mk_store_get_result_def
      available_def split: option.splits if_splits)

lemma prepare_get_winner:
  assumes "prepare_get q b t p = Inr (Inl x)"
  shows "selection q p = Some x"
  using assms by (auto simp: prepare_get_def Let_def split: option.splits if_splits)

lemma commit_get_cases:
  assumes "commit_get q b t p = (r, p')" and inv: "store_inv F (pstate p)"
  obtains (raised) e where "r = Inl e" and "p' = p"
  | (known) x where "map_of (st_store_get_results (pstate p)) q = Some x" and "r = Inr x" and "p' = p"
  | (fresh) g x where "map_of (st_store_get_results (pstate p)) q = None"
      and "map_of (st_store_get_requests (pstate p)) q = Some g"
      and "available (bi_item_id b) (pstate p) = Some (gr_item x)" and "gr_request_id x = q"
      and "gr_store_name x = gq_store_name g" and "si_store_name (gr_item x) = gr_store_name x" and "r = Inr x"
      and "p' = p\<lparr>pstate := consumed_state (bi_item_id b) x q (pstate p)\<rparr>"
proof -
  from inv have keys: "store_keys (pstate p)" by (simp add: store_inv_def)
  note finds = store_finds [OF keys]
  show ?thesis
  proof (cases "map_of (st_store_get_results (pstate p)) q")
    case (Some x)
    with assms(1) finds show ?thesis by (intro known) (auto simp: commit_get_def)
  next
    case None
    show ?thesis
    proof (cases "prepare_get q b t p")
      case (Inl e)
      with assms(1) finds None show ?thesis by (intro raised) (auto simp: commit_get_def)
    next
      case (Inr y)
      have "y \<noteq> Inl x" for x using prepare_get_winner [of q b t p x] Inr None finds by auto
      then obtain g x where y: "y = Inr (g, x)" by (metis sum.exhaust surj_pair)
      note prep = prepare_get_Inr [OF Inr [unfolded y] keys]
      have q: "gq_request_id g = q" using keys prep(1) by (auto simp: store_keys_def dest: keyed_lookup)
      from assms(1) finds None Inr y have "transaction None (commit_get_body q (bi_item_id b) g x) p = (r, p')"
        by (simp add: commit_get_def)
      then show ?thesis
      proof (cases rule: transaction_cases)
        case (2 a u)
        from commit_get_body_effect [OF 2(2) prep(1) None] prep q 2 None show ?thesis by (intro fresh) auto
      qed (rule raised)
    qed
  qed
qed

section \<open>Runs\<close>

definition store_view where
  "store_view s = (st_store_definitions s, st_store_items s, st_store_put_intents s, st_store_get_requests s,
     st_store_get_results s)"

datatype 'v store_event = PutAccepted "'v store_put_intent" | StoredCalled string | OtherEvent

text \<open>
  A run of the manager: (checked) definitions, puts, gets and backend callbacks in any order and at any
  time, interleaved with work on the other collections. Operations may raise.
\<close>

inductive store_step ::
  "(string \<times> 'v store_filter) list \<Rightarrow> 'v persistence \<Rightarrow> 'v store_event \<Rightarrow> 'v persistence \<Rightarrow> bool" for F where
  step_define_store: "mk_store_definition d = Inr d \<Longrightarrow> define_store d p = (r, p') \<Longrightarrow> store_step F p OtherEvent p'"
| step_put: "record_put n k v t prio p = (Inr i, p') \<Longrightarrow> store_step F p (PutAccepted i) p'"
| step_put_refused: "record_put n k v t prio p = (Inl e, p') \<Longrightarrow> store_step F p OtherEvent p'"
| step_get: "record_get F n q t f p = (r2, p') \<Longrightarrow> store_step F p OtherEvent p'"
| step_stored: "commit_put k p = (r', p') \<Longrightarrow> store_step F p (StoredCalled k) p'"
| step_received: "commit_get q b t p = (r3, p') \<Longrightarrow> store_step F p OtherEvent p'"
| step_elsewhere: "store_view (pstate p') = store_view (pstate p) \<Longrightarrow> store_step F p OtherEvent p'"

inductive store_run ::
  "(string \<times> 'v store_filter) list \<Rightarrow> 'v store_event list \<Rightarrow> 'v persistence \<Rightarrow> bool" for F where
  run_start: "store_run F [] new_persistence"
| run_step: "store_run F es p \<Longrightarrow> store_step F p e p' \<Longrightarrow> store_run F (es @ [e]) p'"

lemma put_store_step:
  assumes "put_store B n k v t prio cb w = (r, w')"
  shows "\<exists>e. store_step F (stw_persistence w) e (stw_persistence w')"
  using assms
  by (auto simp: put_store_def bind_m_def on_store_state_def on_store_backend_def return_m_def
      split: prod.splits sum.splits) (meson step_put step_put_refused)+

lemma get_store_step:
  assumes "get_store F B n q t f cb w = (r, w')"
  shows "\<exists>e. store_step F (stw_persistence w) e (stw_persistence w')"
  using assms
  by (auto simp: get_store_def bind_m_def on_store_state_def on_store_backend_def return_m_def
      split: prod.splits sum.splits) (meson step_get)+

lemma deliver_store_step:
  assumes "deliver_store d w = (r, w')"
  shows "\<exists>e. store_step F (stw_persistence w) e (stw_persistence w')"
  using assms
  by (auto simp: deliver_store_def bind_m_def on_store_state_def log_call_def return_m_def
      split: prod.splits sum.splits store_callback.splits option.splits) (meson step_stored step_received)+

section \<open>Every operation keeps the invariant\<close>

lemma store_inv_view: "store_view s = store_view t \<Longrightarrow> store_inv F s = store_inv F t"
  by (simp add: store_view_def store_inv_defs)

lemma define_store_keeps:
  assumes "define_store d p = (r, p')" and inv: "store_inv F (pstate p)"
  shows "store_inv F (pstate p')"
proof -
  let ?s = "pstate p"
  from inv have keys: "keyed sd_name (st_store_definitions ?s)" by (simp add: store_inv_def store_keys_def)
  then have same: "dset (sd_name d) d (st_store_definitions ?s) = st_store_definitions ?s"
    if "map_of (st_store_definitions ?s) (sd_name d) = Some d"
    using that by (simp add: keyed_def update_same)
  consider "p' = p" | (new) "map_of (st_store_definitions ?s) (sd_name d) = None"
      "p' = p\<lparr>pstate := ?s\<lparr>st_store_definitions := dset (sd_name d) d (st_store_definitions ?s)\<rparr>\<rparr>"
    using define_store_effect [OF assms(1)] same by fastforce
  then show ?thesis
  proof cases
    case new
    have grow: "map_of (st_store_definitions (pstate p')) n = Some e" if "map_of (st_store_definitions ?s) n = Some e" for n e
      using that new by auto
    have "store_keys (pstate p')" using inv new by (simp add: store_inv_def store_keys_def)
    moreover have "stores_wf (pstate p')"
      using inv new(2) by (auto simp: store_inv_def stores_wf_def)
    moreover have "store_requests_ok F (pstate p')"
      unfolding store_requests_ok_def
    proof (intro allI impI)
      fix k q assume q: "map_of (st_store_get_requests (pstate p')) k = Some q"
      then have "map_of (st_store_get_requests ?s) k = Some q" using new by simp
      with inv obtain e where "map_of (st_store_get_results ?s) k = None"
        "map_of (st_store_definitions ?s) (gq_store_name q) = Some e"
        "\<forall>f. gq_filter_key q = Some f \<longrightarrow> sd_kind e = ''filter'' \<and> map_of F f \<noteq> None"
        unfolding store_inv_def store_requests_ok_def by blast
      then show "map_of (st_store_get_results (pstate p')) k = None \<and>
        (\<exists>d. map_of (st_store_definitions (pstate p')) (gq_store_name q) = Some d \<and>
           (\<forall>f. gq_filter_key q = Some f \<longrightarrow> sd_kind d = ''filter'' \<and> map_of F f \<noteq> None))"
        using grow new by auto
    qed
    ultimately show ?thesis by (simp add: store_inv_def)
  qed (use inv in simp)
qed

lemma record_put_keeps:
  assumes "record_put n k v t prio p = (r, p')" and "store_inv F (pstate p)"
  shows "store_inv F (pstate p')"
proof -
  from assms(2) have keys: "store_keys (pstate p)" by (simp add: store_inv_def)
  from record_put_effect [OF assms(1) keys] show ?thesis
  proof (elim disjE conjE exE)
    fix i assume i: "pi_item_id i = k" "pi_store_name i = n" "map_of (st_store_definitions (pstate p)) n \<noteq> None"
      "map_of (st_store_items (pstate p)) k = None" "map_of (st_store_put_intents (pstate p)) k = None"
      "p' = p\<lparr>pstate := (pstate p)\<lparr>st_store_put_intents := st_store_put_intents (pstate p) @ [(k, i)]\<rparr>\<rparr>"
    then have p': "p' = p\<lparr>pstate := (pstate p)\<lparr>st_store_put_intents := dset k i (st_store_put_intents (pstate p))\<rparr>\<rparr>"
      by (simp add: update_new)
    have "store_keys (pstate p')" using keys i(1) p' by (simp add: store_keys_def)
    moreover have "store_requests_ok F (pstate p')" using assms(2) p' by (simp add: store_inv_def store_requests_ok_def)
    moreover have "stores_wf (pstate p')"
      using assms(2) p' i(2-4) unfolding store_inv_def stores_wf_def by (auto split: if_splits)
    ultimately show ?thesis by (simp add: store_inv_def)
  qed (use assms(2) in simp)
qed

lemma record_get_keeps:
  assumes "record_get F n q t f p = (r, p')" and "store_inv F (pstate p)"
  shows "store_inv F (pstate p')"
proof -
  from assms(2) have keys: "store_keys (pstate p)" by (simp add: store_inv_def)
  from record_get_effect [OF assms(1) keys] assms(2) show ?thesis
    by (elim disjE conjE exE) (auto simp: store_inv_defs split: if_splits)
qed

lemma commit_put_keeps:
  assumes "commit_put k p = (r, p')" and "store_inv F (pstate p)"
  shows "store_inv F (pstate p')"
  using assms
proof (cases rule: commit_put_cases)
  case (moved i)
  have x: "si_item_id (item_of_intent i) = k" "si_store_name (item_of_intent i) = pi_store_name i"
    using moved(5) by (simp_all add: item_of_intent_def)
  have p': "pstate p' = (pstate p)\<lparr>st_store_put_intents := dpop k (st_store_put_intents (pstate p)),
      st_store_items := dset k (item_of_intent i) (st_store_items (pstate p))\<rparr>"
    using moved by (simp add: update_new)
  have "store_keys (pstate p')" using assms(2) x(1) unfolding p' by (simp add: store_inv_def store_keys_def)
  moreover have "store_requests_ok F (pstate p')"
    using assms(2) unfolding p' by (simp add: store_inv_def store_requests_ok_def)
  moreover have "stores_wf (pstate p')"
    using assms(2) x(2) moved(4) unfolding p' store_inv_def stores_wf_def by (auto split: if_splits)
  ultimately show ?thesis by (simp add: store_inv_def)
qed (use assms(2) in simp)

lemma commit_get_keeps:
  assumes "commit_get q b t p = (r, p')" and "store_inv F (pstate p)"
  shows "store_inv F (pstate p')"
  using assms
proof (cases rule: commit_get_cases)
  case (fresh g x)
  let ?s = "pstate p"
  have def: "map_of (st_store_definitions ?s) (gr_store_name x) \<noteq> None"
    using assms(2) fresh(2,5) unfolding store_inv_def stores_wf_def by metis
  have "store_keys (pstate p')" using assms(2) fresh by (simp add: store_inv_def store_keys_def consumed_state_def)
  moreover have "store_requests_ok F (pstate p')"
    using assms(2) fresh(8) by (auto simp: store_inv_def store_requests_ok_def consumed_state_def)
  moreover have "stores_wf (pstate p')"
    using assms(2) def fresh(8) by (auto simp: store_inv_def stores_wf_def consumed_state_def split: if_splits)
  ultimately show ?thesis by (simp add: store_inv_def)
qed (use assms(2) in simp_all)

lemma store_inv_step: "store_step F p e p' \<Longrightarrow> store_inv F (pstate p) \<Longrightarrow> store_inv F (pstate p')"
proof (induction rule: store_step.induct)
  case (step_elsewhere p' p)
  then show ?case using store_inv_view by blast
qed (erule (1) define_store_keeps record_put_keeps record_get_keeps commit_put_keeps commit_get_keeps)+

lemma store_inv_init: "store_inv F (pstate new_persistence)"
  by (simp add: new_persistence_def empty_state_def store_inv_defs)

lemma store_run_inv: "store_run F es p \<Longrightarrow> store_inv F (pstate p)"
  by (induction rule: store_run.induct) (auto intro: store_inv_init store_inv_step)

section \<open>Items are neither lost nor duplicated\<close>

text \<open>
  The abstract content of all stores: the bag of items that are waiting to be stored, stored, or
  consumed by a selection.
\<close>

definition item_ledger :: "'v state \<Rightarrow> 'v durable_store_item multiset" where
  "item_ledger s = image_mset item_of_intent (mset (dvalues (st_store_put_intents s))) +
     mset (dvalues (st_store_items s)) + image_mset gr_item (mset (dvalues (st_store_get_results s)))"

fun accepted :: "'v store_event list \<Rightarrow> 'v store_put_intent list" where
  "accepted [] = []"
| "accepted (PutAccepted i # es) = i # accepted es"
| "accepted (_ # es) = accepted es"

lemma accepted_append [simp]: "accepted (es @ fs) = accepted es @ accepted fs"
  by (induction es rule: accepted.induct) auto

lemma item_ledger_view: "store_view s = store_view t \<Longrightarrow> item_ledger s = item_ledger t"
  by (simp add: store_view_def item_ledger_def)

lemma commit_put_ledger:
  assumes "commit_put k p = (r, p')" and inv: "store_inv F (pstate p)"
  shows "item_ledger (pstate p') = item_ledger (pstate p)"
  using assms
proof (cases rule: commit_put_cases)
  case (moved i)
  have "distinct (map fst (st_store_put_intents (pstate p)))"
    using inv by (simp add: store_inv_def store_keys_def keyed_def)
  from mset_values_pop [OF this moved(2)] moved(6) show ?thesis
    by (simp add: item_ledger_def del: mset_map)
qed simp

lemma commit_get_ledger:
  assumes "commit_get q b t p = (r, p')" and inv: "store_inv F (pstate p)"
  shows "item_ledger (pstate p') = item_ledger (pstate p)"
  using assms
proof (cases rule: commit_get_cases)
  case (fresh g x)
  let ?s = "pstate p" and ?k = "bi_item_id b"
  have d: "distinct (map fst (st_store_put_intents ?s))" "distinct (map fst (st_store_items ?s))"
    using inv by (simp_all add: store_inv_def store_keys_def keyed_def)
  have res: "dset q x (st_store_get_results ?s) = st_store_get_results ?s @ [(q, x)]"
    using fresh(1) by (rule update_new)
  show ?thesis
  proof (cases "map_of (st_store_items ?s) ?k")
    case None
    with fresh(3) obtain i where i: "map_of (st_store_put_intents ?s) ?k = Some i" "gr_item x = item_of_intent i"
      by (auto simp: available_def)
    from mset_values_pop [OF d(1) i(1)] None i(2) fresh(8) show ?thesis
      by (simp add: item_ledger_def consumed_state_def res dpop_absent del: mset_map)
  next
    case (Some i)
    then have "map_of (st_store_put_intents ?s) ?k = None"
      using inv unfolding store_inv_def stores_wf_def by blast
    moreover have "gr_item x = i" using fresh(3) Some by (simp add: available_def)
    ultimately show ?thesis using mset_values_pop [OF d(2) Some] fresh(8)
      by (simp add: item_ledger_def consumed_state_def res dpop_absent del: mset_map)
  qed
qed simp_all

lemma store_step_ledger:
  assumes "store_step F p e p'" and "store_inv F (pstate p)"
  shows "item_ledger (pstate p') = mset (map item_of_intent (accepted [e])) + item_ledger (pstate p)"
  using assms
proof (induction rule: store_step.induct)
  case (step_define_store d p r p')
  then show ?case using define_store_effect [of d p r p'] by (auto simp: item_ledger_def)
next
  case (step_put n k v t prio p i p')
  then have keys: "store_keys (pstate p)" by (simp add: store_inv_def)
  from record_put_effect [OF step_put.hyps keys]
  have "p' = p\<lparr>pstate := (pstate p)\<lparr>st_store_put_intents := st_store_put_intents (pstate p) @ [(k, i)]\<rparr>\<rparr>" by auto
  then show ?case by (simp add: item_ledger_def)
next
  case (step_put_refused n k v t prio p e p')
  then have keys: "store_keys (pstate p)" by (simp add: store_inv_def)
  from record_put_effect [OF step_put_refused.hyps keys] show ?case by auto
next
  case (step_get n q t f p r p')
  then have keys: "store_keys (pstate p)" by (simp add: store_inv_def)
  from record_get_effect [OF step_get.hyps keys] show ?case by (auto simp: item_ledger_def)
next
  case (step_stored k p r p')
  then show ?case using commit_put_ledger by fastforce
next
  case (step_received q b t p r p')
  then show ?case using commit_get_ledger by fastforce
next
  case (step_elsewhere p' p)
  then show ?case using item_ledger_view by fastforce
qed

lemma store_run_ledger:
  "store_run F es p \<Longrightarrow> item_ledger (pstate p) = mset (map item_of_intent (accepted es))"
proof (induction rule: store_run.induct)
  case run_start
  then show ?case by (simp add: item_ledger_def new_persistence_def empty_state_def)
next
  case (run_step es p e p')
  then show ?case using store_step_ledger [OF run_step.hyps(2) store_run_inv [OF run_step.hyps(1)]]
    by (simp add: union_commute)
qed

section \<open>Recovery is always possible\<close>

text \<open>What the backend promises: it reports an item as stored only when the store has room for it.\<close>

definition has_room :: "string \<Rightarrow> 'v state \<Rightarrow> bool" where
  "has_room k s \<longleftrightarrow> (case map_of (st_store_put_intents s) k of
     None \<Rightarrow> True
   | Some i \<Rightarrow> (case map_of (st_store_definitions s) (pi_store_name i) of
         None \<Rightarrow> True
       | Some d \<Rightarrow> (case sd_capacity d of
             None \<Rightarrow> True
           | Some c \<Rightarrow> int (length (items_in (pi_store_name i) s)) < c)))"

definition roomy_step :: "(string \<times> 'v store_filter) list \<Rightarrow> 'v persistence \<Rightarrow> 'v persistence \<Rightarrow> bool" where
  "roomy_step F p p' \<longleftrightarrow> (\<exists>e. store_step F p e p' \<and> (\<forall>k. e = StoredCalled k \<longrightarrow> has_room k (pstate p)))"

lemma length_filter_pop: "length (filter P (dvalues (dpop k d))) \<le> length (filter P (dvalues d))"
  by (induction d) auto

lemma items_in_same: "st_store_items t = st_store_items s \<Longrightarrow> items_in n t = items_in n s"
  by (simp add: items_in_def)

lemma items_in_pop: "st_store_items t = dpop k (st_store_items s) \<Longrightarrow> length (items_in n t) \<le> length (items_in n s)"
  unfolding items_in_def by (simp only: length_filter_pop)

lemma capacities_after:
  assumes "store_capacities_ok s" and "st_store_definitions t = st_store_definitions s"
    and "\<And>n. length (items_in n t) \<le> length (items_in n s)"
  shows "store_capacities_ok t"
  unfolding store_capacities_ok_def
proof (intro allI impI)
  fix n d c assume "map_of (st_store_definitions t) n = Some d" "sd_capacity d = Some c"
  with assms(1,2) have "int (length (items_in n s)) \<le> c" unfolding store_capacities_ok_def by metis
  with assms(3) [of n] show "int (length (items_in n t)) \<le> c" by linarith
qed

lemma define_store_capacities:
  assumes "mk_store_definition d = Inr d" and "define_store d p = (r, p')"
    and "store_inv F (pstate p)" and "store_capacities_ok (pstate p)"
  shows "store_capacities_ok (pstate p')"
proof -
  have empty: "items_in (sd_name d) (pstate p) = []" if "map_of (st_store_definitions (pstate p)) (sd_name d) = None"
  proof -
    have "si_store_name i \<noteq> sd_name d" if i: "i \<in> set (dvalues (st_store_items (pstate p)))" for i
    proof -
      have "map_of (st_store_items (pstate p)) (si_item_id i) = Some i"
        using i assms(3) keyed_mem_iff [of si_item_id "st_store_items (pstate p)" i]
        by (auto simp: store_inv_def store_keys_def)
      with assms(3) have "map_of (st_store_definitions (pstate p)) (si_store_name i) \<noteq> None"
        unfolding store_inv_def stores_wf_def by blast
      with \<open>map_of (st_store_definitions (pstate p)) (sd_name d) = None\<close> show ?thesis by metis
    qed
    then show ?thesis unfolding items_in_def by (auto simp: filter_empty_conv)
  qed
  have pos: "0 \<le> c" if "sd_capacity d = Some c" for c
    using assms(1) that by (auto simp: mk_store_definition_def)
  show ?thesis
    unfolding store_capacities_ok_def
  proof (intro allI impI)
    fix n e c assume e: "map_of (st_store_definitions (pstate p')) n = Some e" "sd_capacity e = Some c"
    have items: "items_in n (pstate p') = items_in n (pstate p)"
      using define_store_effect [OF assms(2)] by (auto intro: items_in_same)
    consider "map_of (st_store_definitions (pstate p)) n = Some e"
      | "map_of (st_store_definitions (pstate p)) n = None" "n = sd_name d" "e = d"
      using define_store_effect [OF assms(2)] e(1) by (auto split: if_splits)
    then show "int (length (items_in n (pstate p'))) \<le> c"
      using assms(4) e(2) empty pos unfolding items store_capacities_ok_def by cases auto
  qed
qed

lemma commit_put_capacities:
  assumes "commit_put k p = (r, p')" and "store_inv F (pstate p)" and "store_capacities_ok (pstate p)"
    and "has_room k (pstate p)"
  shows "store_capacities_ok (pstate p')"
  using assms(1,2)
proof (cases rule: commit_put_cases)
  case (moved i)
  have len: "length (items_in n (pstate p')) = length (items_in n (pstate p)) + (if n = pi_store_name i then 1 else 0)" for n
    using moved(6) by (auto simp: items_in_def item_of_intent_def)
  show ?thesis
    unfolding store_capacities_ok_def
  proof (intro allI impI)
    fix n d c assume d: "map_of (st_store_definitions (pstate p')) n = Some d" "sd_capacity d = Some c"
    then have d': "map_of (st_store_definitions (pstate p)) n = Some d" using moved(6) by simp
    show "int (length (items_in n (pstate p'))) \<le> c"
    proof (cases "n = pi_store_name i")
      case True
      then show ?thesis using assms(4) moved(2) d' d(2) len [of n] by (simp add: has_room_def)
    next
      case False
      then show ?thesis using assms(3) d' d(2) len [of n] unfolding store_capacities_ok_def by auto
    qed
  qed
qed (use assms(3) in simp)

lemma roomy_step_keeps:
  assumes "roomy_step F p p'" and "store_inv F (pstate p)" and "store_capacities_ok (pstate p)"
  shows "store_capacities_ok (pstate p')"
proof -
  from assms(1) obtain e where e: "store_step F p e p'" "\<forall>k. e = StoredCalled k \<longrightarrow> has_room k (pstate p)"
    by (auto simp: roomy_step_def)
  from e assms(2,3) have keys: "store_keys (pstate p)" by (simp add: store_inv_def)
  from e assms(2,3) show ?thesis
  proof (cases rule: store_step.cases)
    case (step_define_store d r)
    then show ?thesis using define_store_capacities assms(2,3) by blast
  next
    case (step_put n k v t prio i)
    then have "p' = p\<lparr>pstate := (pstate p)\<lparr>st_store_put_intents := st_store_put_intents (pstate p) @ [(k, i)]\<rparr>\<rparr>"
      using record_put_effect [OF step_put(2) keys] by auto
    then show ?thesis by (intro capacities_after [OF assms(3)]) (simp_all add: items_in_def)
  next
    case (step_put_refused n k v t prio i)
    then show ?thesis using record_put_effect [OF step_put_refused(2) keys] assms(3) by auto
  next
    case (step_get n q t f r)
    then consider "p' = p" | g where "p' = p\<lparr>pstate := (pstate p)\<lparr>st_store_get_requests := g\<rparr>\<rparr>"
      using record_get_effect [OF step_get(2) keys] by blast
    then show ?thesis
      by cases (use assms(3) in \<open>auto intro!: capacities_after [OF assms(3)] simp: items_in_def\<close>)
  next
    case (step_stored k r)
    then show ?thesis using commit_put_capacities e(2) assms(2,3) by blast
  next
    case (step_received q b t r)
    from step_received(2) assms(2) show ?thesis
    proof (cases rule: commit_get_cases)
      case (fresh g x)
      then show ?thesis
        by (intro capacities_after [OF assms(3)] items_in_pop) (simp_all add: consumed_state_def)
    qed (use assms(3) in simp_all)
  next
    case step_elsewhere
    then show ?thesis
      by (intro capacities_after [OF assms(3)] eq_refl arg_cong [of _ _ length] items_in_same) (simp_all add: store_view_def)
  qed
qed

lemma length_filter_mset: "mset xs = mset ys \<Longrightarrow> length (filter P xs) = length (filter P ys)"
  by (metis mset_filter size_mset)

lemma store_inv_valid:
  assumes inv: "store_inv F (pstate p)" and cap: "store_capacities_ok (pstate p)"
  shows "validate_store_rebuild F p = Inr ()"
proof -
  let ?s = "pstate p" and ?ds = "dict_of sd_name (store_definitions p)"
  from inv have keys: "keyed sd_name (st_store_definitions ?s)" "keyed si_item_id (st_store_items ?s)"
    "keyed pi_item_id (st_store_put_intents ?s)" "keyed gq_request_id (st_store_get_requests ?s)"
    by (simp_all add: store_inv_def store_keys_def)
  have view: "mset (store_definitions p) = mset (dvalues (st_store_definitions ?s))"
    by (simp add: store_definitions_def)
  note ds = dict_of_view [OF keys(1) view] set_dict_of_view [OF keys(1) view]
  have items: "map_of (st_store_definitions ?s) (si_store_name i) \<noteq> None" if "i \<in> set (store_items p)" for i
  proof -
    have "map_of (st_store_items ?s) (si_item_id i) = Some i"
      using that keyed_mem_iff [OF keys(2)] by (simp add: store_items_def)
    then show ?thesis using inv unfolding store_inv_def stores_wf_def by blast
  qed
  have puts: "map_of (st_store_definitions ?s) (pi_store_name i) \<noteq> None" if "i \<in> set (store_put_intents p)" for i
  proof -
    have "map_of (st_store_put_intents ?s) (pi_item_id i) = Some i"
      using that keyed_mem_iff [OF keys(3)] by (simp add: store_put_intents_def)
    then show ?thesis using inv unfolding store_inv_def stores_wf_def by blast
  qed
  have gets: "validate_get_record F ?ds q = Inr ()" if "q \<in> set (store_get_requests p)" for q
  proof -
    have "map_of (st_store_get_requests ?s) (gq_request_id q) = Some q"
      using that keyed_mem_iff [OF keys(4)] by (simp add: store_get_requests_def)
    then obtain d where "map_of (st_store_definitions ?s) (gq_store_name q) = Some d"
      "\<forall>f. gq_filter_key q = Some f \<longrightarrow> sd_kind d = ''filter'' \<and> map_of F f \<noteq> None"
      using inv unfolding store_inv_def store_requests_ok_def by blast
    then show ?thesis by (auto simp: validate_get_record_def ds store_filter_of_def split: option.splits)
  qed
  have "validate_store_records F ?ds p = Inr ()"
    using items puts gets
    by (simp add: validate_store_records_def bind_res_eq_Inr_iff each_ok_iff dhas_iff_lookup ds)
  moreover have "validate_store_capacities ?ds p = Inr ()"
    unfolding validate_store_capacities_def each_ok_iff
  proof
    fix d assume "d \<in> set (dvalues ?ds)"
    then obtain n where "map_of (st_store_definitions ?s) n = Some d" using ds(2) by auto
    moreover from this have "sd_name d = n" using keys(1) by (auto dest: keyed_lookup)
    moreover have "length (filter (\<lambda>i. si_store_name i = n) (store_items p)) = length (items_in n ?s)"
      unfolding items_in_def by (rule length_filter_mset) (simp add: store_items_def)
    ultimately show "(case sd_capacity d of None \<Rightarrow> Inr () | Some capacity \<Rightarrow> guards
        [(capacity < int (length (filter (\<lambda>i. si_store_name i = sd_name d) (store_items p))),
          RuntimeError (''durable store '' @ sd_name d @ '' contains more items than capacity''))] ()) = Inr ()"
      using cap unfolding store_capacities_ok_def by (auto split: option.splits simp: not_less)
  qed
  ultimately show ?thesis by (simp add: validate_store_rebuild_def Let_def)
qed

interpretation stores: recoverable new_persistence "roomy_step F"
  "\<lambda>p. store_inv F (pstate p) \<and> store_capacities_ok (pstate p)" "validate_store_rebuild F"
  for F :: "(string \<times> 'v store_filter) list"
proof unfold_locales
  show "store_inv F (pstate new_persistence) \<and> store_capacities_ok (pstate new_persistence)"
    using store_inv_init [of F] by (simp add: store_capacities_ok_def new_persistence_def empty_state_def)
  show "store_inv F (pstate q) \<and> store_capacities_ok (pstate q)"
    if "roomy_step F p q" "store_inv F (pstate p) \<and> store_capacities_ok (pstate p)" for p q
    using that store_inv_step roomy_step_keeps [OF that(1)] unfolding roomy_step_def by blast
  show "validate_store_rebuild F p = Inr ()" if "store_inv F (pstate p) \<and> store_capacities_ok (pstate p)" for p
    using that store_inv_valid by blast
qed

section \<open>A sample shelf\<close>

definition shelf :: store_definition where
  "shelf = \<lparr>sd_name = ''shelf'', sd_kind = ''fifo'', sd_capacity = Some 1\<rparr>"

definition shelf_put :: "nat store_put_intent" where
  "shelf_put = \<lparr>pi_item_id = ''a'', pi_store_name = ''shelf'', pi_value = 7, pi_priority = 100, pi_requested_at = 0,
     pi_sequence = 1\<rparr>"

definition shelf_get :: store_get_request where
  "shelf_get = \<lparr>gq_request_id = ''q'', gq_store_name = ''shelf'', gq_requested_at = 1, gq_sequence = 2, gq_filter_key = None\<rparr>"

definition shelf_result :: "nat store_get_result" where
  "shelf_result = \<lparr>gr_request_id = ''q'', gr_store_name = ''shelf'', gr_item = item_of_intent shelf_put,
     gr_completed_at = 5, gr_sequence = 2\<rparr>"

definition shelf_state ::
  "(string \<times> nat store_put_intent) list \<Rightarrow> (string \<times> nat durable_store_item) list \<Rightarrow> (string \<times> store_get_request) list
     \<Rightarrow> (string \<times> nat store_get_result) list \<Rightarrow> nat persistence" where
  "shelf_state is xs qs rs = new_persistence\<lparr>pstate := empty_state\<lparr>st_store_definitions := [(''shelf'', shelf)],
     st_store_put_intents := is, st_store_items := xs, st_store_get_requests := qs, st_store_get_results := rs\<rparr>\<rparr>"

definition shelf_item :: "nat store_item" where
  "shelf_item = \<lparr>bi_item_id = ''a'', bi_store_name = ''shelf'', bi_value = 7, bi_priority = 100\<rparr>"

definition idle_backend :: "(nat, unit, nat) store_backend" where
  "idle_backend = \<lparr>sb_now = None, sb_create_store = (\<lambda>n c. return_m ()), sb_create_priority_store = (\<lambda>n c. return_m ()),
     sb_create_filter_store = (\<lambda>n c. return_m ()), sb_put_store = (\<lambda>n k v prio cb. return_m ()),
     sb_get_store = (\<lambda>n q f cb. return_m ()), sb_run_until = None\<rparr>"

lemmas shelf_defs = shelf_def shelf_put_def shelf_get_def shelf_result_def shelf_state_def shelf_item_def
  new_persistence_def empty_state_def item_of_intent_def

lemmas store_eval = transaction_def fork_state_def new_uow_def commit_def overlap_def mark_dirty_def guards.simps
  store_definitions_def store_items_def store_put_intents_def store_get_requests_def store_get_results_def by_key_def
  store_definition_of_def next_store_sequence_def next_seq_def

lemma shelf_define: "define_store shelf new_persistence = (Inr (), shelf_state [] [] [] [])"
  by (simp add: store_eval shelf_defs define_store_def define_store_body_def save_store_definition_def)

lemma shelf_accept: "record_put ''shelf'' ''a'' 7 0 100 (shelf_state [] [] [] []) = (Inr shelf_put, shelf_state [(''a'', shelf_put)] [] [] [])"
  by (simp add: store_eval shelf_defs record_put_def new_put_intent_def put_body_def save_store_put_intent_def
      mk_store_put_intent_def)

lemma shelf_stored:
  "commit_put ''a'' (shelf_state [(''a'', shelf_put)] [] [] []) =
     (Inr (Some (item_of_intent shelf_put)), shelf_state [] [(''a'', item_of_intent shelf_put)] [] [])"
  by (simp add: store_eval shelf_defs commit_put_def item_with_id_def pending_put_intent_def mk_durable_store_item_def
      commit_put_body_def get_store_put_intent_def delete_store_put_intent_def save_store_item_def)

lemma shelf_ask:
  "record_get [] ''shelf'' ''q'' 1 None (shelf_state [] [(''a'', item_of_intent shelf_put)] [] []) =
     (Inr shelf_get, shelf_state [] [(''a'', item_of_intent shelf_put)] [(''q'', shelf_get)] [])"
  by (simp add: store_eval shelf_defs record_get_def new_get_request_def get_body_def save_store_get_request_def
      mk_store_get_request_def)

lemma shelf_take:
  "commit_get ''q'' shelf_item 5 (shelf_state [] [(''a'', item_of_intent shelf_put)] [(''q'', shelf_get)] []) =
     (Inr shelf_result, shelf_state [] [] [] [(''q'', shelf_result)])"
  by (simp add: store_eval shelf_defs commit_get_def selection_def prepare_get_def pending_get_def item_with_id_def
      pending_put_intent_def consume_store_item_def mk_store_get_result_def commit_get_body_def get_store_get_request_def
      consume_persisted_store_item_def Let_def get_store_item_def get_store_put_intent_def delete_store_item_def
      save_store_get_result_def delete_store_get_request_def)

lemma shelf_run:
  "store_run [] [OtherEvent, PutAccepted shelf_put, StoredCalled ''a'', OtherEvent]
     (shelf_state [] [(''a'', item_of_intent shelf_put)] [(''q'', shelf_get)] [])"
proof -
  have "mk_store_definition shelf = Inr shelf" by (simp add: shelf_def mk_store_definition_def)
  from run_step [OF run_step [OF run_step [OF run_step [OF run_start step_define_store [OF this shelf_define]]
    step_put [OF shelf_accept]] step_stored [OF shelf_stored]] step_get [OF shelf_ask]]
  show ?thesis by simp
qed

lemma shelf_roomy: "(roomy_step [])\<^sup>*\<^sup>* new_persistence (shelf_state [] [(''a'', item_of_intent shelf_put)] [] [])"
proof -
  have mk: "mk_store_definition shelf = Inr shelf" by (simp add: shelf_def mk_store_definition_def)
  have "roomy_step [] new_persistence (shelf_state [] [] [] [])"
    unfolding roomy_step_def using step_define_store [OF mk shelf_define] by blast
  moreover have "roomy_step [] (shelf_state [] [] [] []) (shelf_state [(''a'', shelf_put)] [] [] [])"
    unfolding roomy_step_def using step_put [OF shelf_accept] by blast
  moreover have "has_room ''a'' (pstate (shelf_state [(''a'', shelf_put)] [] [] []))"
    by (simp add: has_room_def items_in_def shelf_defs)
  then have "roomy_step [] (shelf_state [(''a'', shelf_put)] [] [] []) (shelf_state [] [(''a'', item_of_intent shelf_put)] [] [])"
    unfolding roomy_step_def using step_stored [OF shelf_stored] by blast
  ultimately show ?thesis by (meson rtranclp.rtrancl_into_rtrancl rtranclp.rtrancl_refl)
qed

section \<open>Properties\<close>

text \<open>
  C13. Items are conserved: whatever the backend does and in whatever order callbacks arrive, the
  items that wait to be stored, are stored, or were handed to a request are together exactly the
  items of the puts that were accepted, each as often as it was accepted.
\<close>

theorem store_items_conserved:
  assumes "store_run F es p"
  shows "item_ledger (pstate p) = mset (map item_of_intent (accepted es))"
  using assms by (rule store_run_ledger)

theorem store_items_conserved_witness:
  "item_ledger (pstate (shelf_state [] [(''a'', item_of_intent shelf_put)] [(''q'', shelf_get)] [])) =
     {#item_of_intent shelf_put#}"
  using store_items_conserved [OF shelf_run] by simp



text \<open>
  Retried puts do not duplicate: after an item that had not been consumed before was handed out,
  ensuring the put of the same store and value returns the consumed item, and of another store or
  value raises a ValueError; in both cases neither the durable state nor the backend changes.
\<close>

theorem ensure_put_after_consumption:
  assumes "store_run F es p" and "selection q p = None" and "commit_get q b t p = (Inr x, p')"
    and "consumed_item_with_id (bi_item_id b) p = None" and "stw_persistence w = p'"
  shows "ensure_put B n (bi_item_id b) v t' prio w =
    (if n = si_store_name (gr_item x) \<and> v = si_value (gr_item x) then Inr (Some (gr_item x))
     else Inl (ValueError (''store item identity conflict: '' @ bi_item_id b)), w)"
proof -
  have inv: "store_inv F (pstate p)" by (rule store_run_inv [OF assms(1)])
  then have keys: "store_keys (pstate p)" by (simp add: store_inv_def)
  have "store_inv F (pstate p')" by (rule commit_get_keeps [OF assms(3) inv])
  then have keys': "store_keys (pstate p')" by (simp add: store_inv_def)
  from assms(3) inv have p': "p' = p\<lparr>pstate := consumed_state (bi_item_id b) x q (pstate p)\<rparr>"
    and av: "available (bi_item_id b) (pstate p) = Some (gr_item x)"
    and q: "map_of (st_store_get_results (pstate p)) q = None"
    by (cases rule: commit_get_cases; use assms(2) store_finds [OF keys] in simp)+
  have id: "si_item_id (gr_item x) = bi_item_id b" by (rule available_id [OF keys av])
  have old: "si_item_id (gr_item y) \<noteq> bi_item_id b" if "y \<in> set (dvalues (st_store_get_results (pstate p)))" for y
    using that assms(4) by (auto simp: consumed_item_with_id_def find_None_iff store_get_results_def)
  have "set (store_get_results p') = insert x (set (dvalues (st_store_get_results (pstate p))))"
    using p' q by (simp add: store_get_results_def consumed_state_def update_new)
  then have "find (\<lambda>r. si_item_id (gr_item r) = bi_item_id b) (store_get_results p') = Some x"
    using old id
    by (cases "find (\<lambda>r. si_item_id (gr_item r) = bi_item_id b) (store_get_results p')")
      (auto simp: find_None_iff find_Some_iff, metis insertE nth_mem)
  moreover have "item_with_id (bi_item_id b) p' = None"
    unfolding store_finds [OF keys'] unfolding p' by (simp add: consumed_state_def)
  ultimately show ?thesis
    using assms(5) by (auto simp: ensure_put_def consumed_item_with_id_def assert_store_item_identity_def)
qed

theorem ensure_put_after_consumption_witness:
  "ensure_put idle_backend ''shelf'' ''a'' 7 9 100 \<lparr>stw_persistence = shelf_state [] [] [] [(''q'', shelf_result)],
       stw_backend = (), stw_called = []\<rparr> =
     (Inr (Some (item_of_intent shelf_put)), \<lparr>stw_persistence = shelf_state [] [] [] [(''q'', shelf_result)],
       stw_backend = (), stw_called = []\<rparr>) \<and>
   ensure_put idle_backend ''shelf'' ''a'' 8 9 100 \<lparr>stw_persistence = shelf_state [] [] [] [(''q'', shelf_result)],
       stw_backend = (), stw_called = []\<rparr> =
     (Inl (ValueError ''store item identity conflict: a''), \<lparr>stw_persistence = shelf_state [] [] [] [(''q'', shelf_result)],
       stw_backend = (), stw_called = []\<rparr>)"
proof -
  let ?p = "shelf_state [] [(''a'', item_of_intent shelf_put)] [(''q'', shelf_get)] []"
  have "selection ''q'' ?p = None" "consumed_item_with_id (bi_item_id shelf_item) ?p = None"
    by (simp_all add: selection_def consumed_item_with_id_def store_get_results_def by_key_def shelf_defs)
  moreover have "gr_item shelf_result = item_of_intent shelf_put" "bi_item_id shelf_item = ''a''"
    "si_store_name (item_of_intent shelf_put) = ''shelf''" "si_value (item_of_intent shelf_put) = 7"
    by (simp_all add: shelf_defs)
  ultimately show ?thesis using ensure_put_after_consumption [OF shelf_run _ shelf_take,
    of "\<lparr>stw_persistence = shelf_state [] [] [] [(''q'', shelf_result)], stw_backend = (), stw_called = []\<rparr>" idle_backend
      "''shelf''" _ 9 100] by simp
qed

text \<open>
  Recovery never refuses: if the backend reports an item as stored only when its store has room, the
  checks made before a backend is rebuilt succeed in every reachable state: no store holds more than
  its capacity, every record names a defined store, and every filter is known.
\<close>

theorem store_rebuild_always_valid:
  assumes "(roomy_step F)\<^sup>*\<^sup>* new_persistence p"
  shows "validate_store_rebuild F p = Inr ()"
  using assms by (rule stores.reachable_valid)

theorem store_rebuild_always_valid_witness:
  "validate_store_rebuild [] (shelf_state [] [(''a'', item_of_intent shelf_put)] [] []) = Inr ()"
  by (rule store_rebuild_always_valid [OF shelf_roomy])

end
