(* ===== verification/Preemption.thy ===== *)
theory Preemption
  imports Memory_Persistence Encoding Recoverable Backend_Interface
begin

text \<open>
  \<open>core/preemption.py\<close>: \<open>DurablePreemptiveResourceManager\<close>. A preemption reaches the manager
  as two independent callbacks, one telling a request that it was granted and one telling a
  reservation that it was displaced; the manager keeps what has arrived so far in memory and commits
  both changes in one transaction once the pair is complete. A grant that displaces nobody is
  committed only while the durable capacity has room and no release is in flight.

  The backend is a parameter. The two closures handed to it are the constructors of
  \<open>preemptive_event\<close>; callers' callbacks are opaque tokens whose invocations are logged.
\<close>

section \<open>The world of the manager\<close>

datatype preemptive_event = Acquired string resource_lease | Preempted resource_preemption

record 'b preemptive_backend =
  pb_now :: "('b \<Rightarrow> datetime) option"
  pb_create_preemptive_resource :: "string \<Rightarrow> int \<Rightarrow> ('b, unit) meth"
  pb_request_preemptive_resource :: "string \<Rightarrow> string \<Rightarrow> int \<Rightarrow> bool \<Rightarrow> ('b, unit) meth"
  pb_cancel_preemptive_resource_request :: "string \<Rightarrow> ('b, bool) meth"
  pb_release_preemptive_resource :: "resource_lease \<Rightarrow> ('b, unit) meth"
  pb_run_until :: "(datetime \<Rightarrow> 'b \<Rightarrow> preemptive_event list \<times> 'b) option"

record ('v, 'b, 'cb) preemptive_world =
  pw_persistence :: "'v persistence"
  pw_backend :: 'b
  pw_backend_leases :: "(string \<times> resource_lease) list"
  pw_pending_grants :: "(string \<times> resource_lease) list"
  pw_pending_preemptions :: "(string \<times> resource_preemption) list"
  pw_pending_callbacks :: "(string \<times> 'cb) list"
  pw_called :: "('cb \<times> preemptive_resource_reservation) list"

definition on_preemptive_state :: "('v persistence, 'a) meth \<Rightarrow> (('v, 'b, 'cb) preemptive_world, 'a) meth" where
  "on_preemptive_state m w = (case m (pw_persistence w) of (r, p) \<Rightarrow> (r, w\<lparr>pw_persistence := p\<rparr>))"

definition on_preemptive_backend :: "('b, 'a) meth \<Rightarrow> (('v, 'b, 'cb) preemptive_world, 'a) meth" where
  "on_preemptive_backend m w = (case m (pw_backend w) of (r, b) \<Rightarrow> (r, w\<lparr>pw_backend := b\<rparr>))"

section \<open>Lookups\<close>

definition reservation_for_request :: "string \<Rightarrow> 'v persistence \<Rightarrow> preemptive_resource_reservation option" where
  "reservation_for_request request_id p = find (\<lambda>r. pv_request_id r = request_id) (preemptive_resource_reservations p)"

definition demand_for_request :: "string \<Rightarrow> 'v persistence \<Rightarrow> preemptive_resource_demand option" where
  "demand_for_request request_id p = find (\<lambda>d. pq_request_id d = request_id) (preemptive_resource_demands p)"

definition preemptive_definition_of :: "string \<Rightarrow> 'v persistence \<Rightarrow> preemptive_resource_definition res" where
  "preemptive_definition_of name p = (case find (\<lambda>d. pd_name d = name) (preemptive_resource_definitions p) of
     None \<Rightarrow> Inl (KeyError (''unknown preemptive resource definition: '' @ name))
   | Some d \<Rightarrow> Inr d)"

definition request_exists :: "string \<Rightarrow> 'v persistence \<Rightarrow> bool" where
  "request_exists request_id p \<longleftrightarrow>
     list_ex (\<lambda>d. pq_request_id d = request_id) (preemptive_resource_demands p) \<or>
     list_ex (\<lambda>r. pv_request_id r = request_id) (preemptive_resource_reservations p)"

definition next_preemptive_sequence :: "'v persistence \<Rightarrow> int" where
  "next_preemptive_sequence p = next_seq
     (map pq_sequence (preemptive_resource_demands p) @ map pv_sequence (preemptive_resource_reservations p) @
      map pr_sequence (resource_preemption_results p))"

section \<open>Requests\<close>

definition define_preemptive_body :: "preemptive_resource_definition \<Rightarrow> ('v, unit) tx_body" where
  "define_preemptive_body definition u = bind_res (save_preemptive_resource_definition definition u) (\<lambda>u. Inr ((), u))"

definition define_preemptive :: "preemptive_resource_definition \<Rightarrow> ('v persistence, unit) meth" where
  "define_preemptive definition = transaction None (define_preemptive_body definition)"

definition submit_demand :: "'b preemptive_backend \<Rightarrow> preemptive_resource_demand \<Rightarrow> ('b, unit) meth" where
  "submit_demand B demand = pb_request_preemptive_resource B (pq_resource_name demand) (pq_request_id demand)
     (pq_priority demand) (pq_preempt demand)"

definition new_preemptive_demand ::
  "string \<Rightarrow> string \<Rightarrow> datetime \<Rightarrow> int \<Rightarrow> bool \<Rightarrow> 'v persistence \<Rightarrow> preemptive_resource_demand res" where
  "new_preemptive_demand resource_name request_id requested_at priority preempt p =
     bind_res (preemptive_definition_of resource_name p) (\<lambda>_.
     bind_res (guards [(request_exists request_id p,
       ValueError (''preemptive resource request already exists: '' @ request_id))] ()) (\<lambda>_.
     mk_preemptive_resource_demand request_id resource_name priority preempt requested_at (next_preemptive_sequence p)))"

definition preemptive_demand_body :: "preemptive_resource_demand \<Rightarrow> ('v, preemptive_resource_demand) tx_body" where
  "preemptive_demand_body demand u = bind_res (save_preemptive_resource_demand demand u) (\<lambda>u. Inr (demand, u))"

definition record_preemptive_demand ::
  "string \<Rightarrow> string \<Rightarrow> datetime \<Rightarrow> int \<Rightarrow> bool \<Rightarrow> ('v persistence, preemptive_resource_demand) meth" where
  "record_preemptive_demand resource_name request_id requested_at priority preempt p =
     (case new_preemptive_demand resource_name request_id requested_at priority preempt p of
        Inl e \<Rightarrow> (Inl e, p)
      | Inr demand \<Rightarrow> transaction None (preemptive_demand_body demand) p)"

definition request_preemptive ::
  "'b preemptive_backend \<Rightarrow> string \<Rightarrow> string \<Rightarrow> datetime \<Rightarrow> int \<Rightarrow> bool \<Rightarrow> 'cb option
     \<Rightarrow> (('v, 'b, 'cb) preemptive_world, preemptive_resource_demand) meth" where
  "request_preemptive B resource_name request_id requested_at priority preempt on_acquired =
     bind_m (on_preemptive_state (record_preemptive_demand resource_name request_id requested_at priority preempt))
       (\<lambda>demand w.
         let w = (case on_acquired of None \<Rightarrow> w
                  | Some cb \<Rightarrow> w\<lparr>pw_pending_callbacks := dset request_id cb (pw_pending_callbacks w)\<rparr>)
         in bind_m (on_preemptive_backend (submit_demand B demand)) (\<lambda>_. return_m demand) w)"

section \<open>Grants and preemptions\<close>

definition successor_of :: "digest \<Rightarrow> preemptive_resource_demand \<Rightarrow> datetime \<Rightarrow> preemptive_resource_reservation res" where
  "successor_of uuid5 demand acquired_at = mk_preemptive_resource_reservation
     \<lparr>pv_reservation_id = mint_id uuid5 ''preemptive-resource-reservation'' [pq_resource_name demand, pq_request_id demand],
      pv_request_id = pq_request_id demand, pv_resource_name = pq_resource_name demand, pv_acquired_at = acquired_at,
      pv_priority = pq_priority demand, pv_sequence = pq_sequence demand\<rparr>"

definition build_preemption_outcome ::
  "digest \<Rightarrow> preemptive_resource_demand \<Rightarrow> preemptive_resource_reservation \<Rightarrow> datetime \<Rightarrow> datetime
     \<Rightarrow> (preemptive_resource_reservation \<times> resource_preemption_result) res" where
  "build_preemption_outcome uuid5 demand displaced preempted_at acquired_at =
     bind_res (successor_of uuid5 demand acquired_at) (\<lambda>successor.
     bind_res (mk_resource_preemption_result
       \<lparr>pr_result_id = mint_id uuid5 ''resource-preemption'' [pv_reservation_id displaced, pq_request_id demand],
        pr_resource_name = pq_resource_name demand, pr_displaced_reservation_id = pv_reservation_id displaced,
        pr_displaced_request_id = pv_request_id displaced, pr_preempting_request_id = pq_request_id demand,
        pr_successor_reservation_id = pv_reservation_id successor, pr_preempted_at = preempted_at,
        pr_sequence = pq_sequence demand\<rparr>) (\<lambda>result. Inr (successor, result)))"

text \<open>The transaction of a preemption; \<open>False\<close> is the early return.\<close>

definition preemption_body ::
  "preemptive_resource_demand \<Rightarrow> preemptive_resource_reservation \<Rightarrow> preemptive_resource_reservation
     \<Rightarrow> resource_preemption_result \<Rightarrow> ('v, bool) tx_body" where
  "preemption_body demand displaced successor result u =
     (if get_preemptive_resource_demand (pq_request_id demand) u \<noteq> Some demand then Inr (False, u)
      else if get_preemptive_resource_reservation (pv_reservation_id displaced) u \<noteq> Some displaced then Inr (False, u)
      else bind_res (delete_preemptive_resource_demand (pq_request_id demand) u) (\<lambda>u.
           bind_res (delete_preemptive_resource_reservation (pv_reservation_id displaced) u) (\<lambda>u.
           bind_res (save_preemptive_resource_reservation successor u) (\<lambda>u.
           bind_res (save_resource_preemption_result result u) (\<lambda>u. Inr (True, u))))))"

definition notify_acquired :: "preemptive_resource_reservation \<Rightarrow> (('v, 'b, 'cb) preemptive_world, unit) meth" where
  "notify_acquired reservation w =
     (Inr (), case dget (pw_pending_callbacks w) (pv_request_id reservation) of
        None \<Rightarrow> w\<lparr>pw_pending_callbacks := dpop (pv_request_id reservation) (pw_pending_callbacks w)\<rparr>
      | Some cb \<Rightarrow> w\<lparr>pw_pending_callbacks := dpop (pv_request_id reservation) (pw_pending_callbacks w),
                      pw_called := pw_called w @ [(cb, reservation)]\<rparr>)"

text \<open>The pair of halves that has arrived for a preempting request, with the records it is about.\<close>

definition preemption_pair ::
  "string \<Rightarrow> ('v, 'b, 'cb) preemptive_world
     \<Rightarrow> (resource_lease \<times> resource_preemption \<times> preemptive_resource_demand \<times> preemptive_resource_reservation) option" where
  "preemption_pair request_id w =
     (case (dget (pw_pending_grants w) request_id, dget (pw_pending_preemptions w) request_id) of
        (Some lease, Some event) \<Rightarrow>
          (case (demand_for_request request_id (pw_persistence w),
                 reservation_for_request (ev_request_id event) (pw_persistence w)) of
             (Some demand, Some displaced) \<Rightarrow> Some (lease, event, demand, displaced)
           | _ \<Rightarrow> None)
      | _ \<Rightarrow> None)"

definition preemption_committed ::
  "string \<Rightarrow> preemptive_resource_reservation \<Rightarrow> preemptive_resource_reservation \<Rightarrow> resource_lease
     \<Rightarrow> (('v, 'b, 'cb) preemptive_world, bool) meth" where
  "preemption_committed request_id displaced successor lease w =
     bind_m (notify_acquired successor) (\<lambda>_. return_m True)
       (w\<lparr>pw_backend_leases := dset (pv_reservation_id successor) lease
            (dpop (pv_reservation_id displaced) (pw_backend_leases w)),
          pw_pending_grants := dpop request_id (pw_pending_grants w),
          pw_pending_preemptions := dpop request_id (pw_pending_preemptions w)\<rparr>)"

definition try_commit_preemption :: "digest \<Rightarrow> string \<Rightarrow> (('v, 'b, 'cb) preemptive_world, bool) meth" where
  "try_commit_preemption uuid5 request_id w =
     (case preemption_pair request_id w of
        None \<Rightarrow> (Inr False, w)
      | Some (lease, event, demand, displaced) \<Rightarrow>
          if pq_resource_name demand \<noteq> pv_resource_name displaced
          then (Inl (RuntimeError (''preemption pair crosses resources: '' @ request_id)), w)
          else (case build_preemption_outcome uuid5 demand displaced (ev_preempted_at event) (ls_acquired_at lease) of
              Inl e \<Rightarrow> (Inl e, w)
            | Inr (successor, result) \<Rightarrow>
                bind_m (on_preemptive_state (transaction None (preemption_body demand displaced successor result)))
                  (\<lambda>committed. if committed then preemption_committed request_id displaced successor lease
                     else return_m False) w))"

text \<open>The transaction of a plain grant, with the reservation to return and whether it was written now.\<close>

definition normal_grant_body ::
  "'v persistence \<Rightarrow> preemptive_resource_demand \<Rightarrow> preemptive_resource_reservation
     \<Rightarrow> ('v, bool \<times> preemptive_resource_reservation) tx_body" where
  "normal_grant_body published demand reservation u =
     (if get_preemptive_resource_demand (pq_request_id demand) u \<noteq> Some demand
      then (case reservation_for_request (pq_request_id demand) published of
          Some existing \<Rightarrow> Inr ((False, existing), u)
        | None \<Rightarrow> Inl (RuntimeError (''preemptive demand changed before grant: '' @ pq_request_id demand)))
      else bind_res (delete_preemptive_resource_demand (pq_request_id demand) u) (\<lambda>u.
           bind_res (save_preemptive_resource_reservation reservation u) (\<lambda>u. Inr ((True, reservation), u))))"

definition commit_normal_grant ::
  "digest \<Rightarrow> preemptive_resource_demand \<Rightarrow> resource_lease
     \<Rightarrow> (('v, 'b, 'cb) preemptive_world, preemptive_resource_reservation) meth" where
  "commit_normal_grant uuid5 demand lease w =
     (case successor_of uuid5 demand (ls_acquired_at lease) of
        Inl e \<Rightarrow> (Inl e, w)
      | Inr reservation \<Rightarrow>
          bind_m (on_preemptive_state (transaction None (normal_grant_body (pw_persistence w) demand reservation)))
            (\<lambda>(fresh, r) w. (Inr r, if fresh
               then w\<lparr>pw_backend_leases := dset (pv_reservation_id r) lease (pw_backend_leases w)\<rparr> else w)) w)"

definition try_commit_normal_grant :: "digest \<Rightarrow> string \<Rightarrow> (('v, 'b, 'cb) preemptive_world, bool) meth" where
  "try_commit_normal_grant uuid5 request_id w =
     (case (dget (pw_pending_grants w) request_id, demand_for_request request_id (pw_persistence w)) of
        (Some lease, Some demand) \<Rightarrow>
          (case preemptive_definition_of (pq_resource_name demand) (pw_persistence w) of
             Inl e \<Rightarrow> (Inl e, w)
           | Inr definition \<Rightarrow>
               let active = filter (\<lambda>r. pv_resource_name r = pq_resource_name demand)
                     (preemptive_resource_reservations (pw_persistence w));
                   releasing = filter (\<lambda>i. px_resource_name i = pq_resource_name demand)
                     (preemptive_resource_release_intents (pw_persistence w))
               in if releasing \<noteq> [] then (Inr False, w)
                  else if pd_capacity definition \<le> int (length active) then (Inr False, w)
                  else bind_m (commit_normal_grant uuid5 demand lease) (\<lambda>reservation w.
                         bind_m (notify_acquired reservation) (\<lambda>_. return_m True)
                           (w\<lparr>pw_pending_grants := dpop request_id (pw_pending_grants w)\<rparr>)) w)
      | _ \<Rightarrow> (Inr False, w))"

definition record_acquired :: "digest \<Rightarrow> string \<Rightarrow> resource_lease \<Rightarrow> (('v, 'b, 'cb) preemptive_world, unit) meth" where
  "record_acquired uuid5 request_id lease w =
     (case reservation_for_request request_id (pw_persistence w) of
        Some existing \<Rightarrow>
          (Inr (), w\<lparr>pw_backend_leases := dset (pv_reservation_id existing) lease (pw_backend_leases w)\<rparr>)
      | None \<Rightarrow> (case demand_for_request request_id (pw_persistence w) of
            None \<Rightarrow> (Inr (), w)
          | Some demand \<Rightarrow>
              bind_m (try_commit_preemption uuid5 request_id) (\<lambda>committed.
                if committed then return_m ()
                else bind_m (try_commit_normal_grant uuid5 request_id) (\<lambda>_. return_m ()))
              (w\<lparr>pw_pending_grants := dset request_id lease (pw_pending_grants w)\<rparr>)))"

definition record_preempted :: "digest \<Rightarrow> resource_preemption \<Rightarrow> (('v, 'b, 'cb) preemptive_world, unit) meth" where
  "record_preempted uuid5 event w =
     (case ev_preempted_by event of
        None \<Rightarrow> (Inl (RuntimeError (''preemption is missing preempting request identity: '' @ ev_request_id event)), w)
      | Some by \<Rightarrow>
          if by = [] then (Inl (RuntimeError (''preemption is missing preempting request identity: '' @ ev_request_id event)), w)
          else (case reservation_for_request (ev_request_id event) (pw_persistence w) of
              None \<Rightarrow> (Inr (), w)
            | Some displaced \<Rightarrow>
                if pv_resource_name displaced \<noteq> ev_resource_name event
                then (Inl (RuntimeError (''preemption callback targets wrong resource: '' @ ev_request_id event)), w)
                else bind_m (try_commit_preemption uuid5 by) (\<lambda>_. return_m ())
                       (w\<lparr>pw_pending_preemptions := dset by event (pw_pending_preemptions w)\<rparr>)))"

definition deliver_preemptive :: "digest \<Rightarrow> preemptive_event \<Rightarrow> (('v, 'b, 'cb) preemptive_world, unit) meth" where
  "deliver_preemptive uuid5 ev = (case ev of
     Acquired request_id lease \<Rightarrow> record_acquired uuid5 request_id lease
   | Preempted event \<Rightarrow> record_preempted uuid5 event)"

definition run_preemptive_backend ::
  "digest \<Rightarrow> 'b preemptive_backend \<Rightarrow> datetime \<Rightarrow> (('v, 'b, 'cb) preemptive_world, unit) meth" where
  "run_preemptive_backend uuid5 B fallback w = (case pb_run_until B of
     None \<Rightarrow> (Inr (), w)
   | Some run \<Rightarrow>
       (case run (case pb_now B of None \<Rightarrow> fallback | Some now \<Rightarrow> now (pw_backend w)) (pw_backend w) of
          (evs, b) \<Rightarrow> each_m (deliver_preemptive uuid5) evs (w\<lparr>pw_backend := b\<rparr>)))"

definition ensure_preemptive_requested ::
  "digest \<Rightarrow> 'b preemptive_backend \<Rightarrow> string \<Rightarrow> string \<Rightarrow> datetime \<Rightarrow> int \<Rightarrow> bool \<Rightarrow> 'cb option
     \<Rightarrow> (('v, 'b, 'cb) preemptive_world, preemptive_resource_reservation option) meth" where
  "ensure_preemptive_requested uuid5 B resource_name request_id requested_at priority preempt on_acquired =
     bind_m (\<lambda>w. if \<not> request_exists request_id (pw_persistence w)
          then bind_m (request_preemptive B resource_name request_id requested_at priority preempt on_acquired)
                 (\<lambda>_. return_m ()) w
          else case on_acquired of
            None \<Rightarrow> (Inr (), w)
          | Some cb \<Rightarrow>
              if reservation_for_request request_id (pw_persistence w) = None
              then (Inr (), w\<lparr>pw_pending_callbacks := dset request_id cb (pw_pending_callbacks w)\<rparr>)
              else (Inr (), w))
     (\<lambda>_. bind_m (run_preemptive_backend uuid5 B requested_at)
     (\<lambda>_ w. (Inr (reservation_for_request request_id (pw_persistence w)), w)))"

section \<open>Cancellation and release\<close>

definition cancel_preemptive_body :: "string \<Rightarrow> preemptive_resource_demand \<Rightarrow> ('v, unit) tx_body" where
  "cancel_preemptive_body request_id demand u =
     (if get_preemptive_resource_demand request_id u \<noteq> Some demand
      then Inl (RuntimeError (''preemptive resource demand changed during cancellation: '' @ request_id))
      else bind_res (delete_preemptive_resource_demand request_id u) (\<lambda>u. Inr ((), u)))"

definition cancel_preemptive ::
  "'b preemptive_backend \<Rightarrow> string \<Rightarrow> (('v, 'b, 'cb) preemptive_world, bool) meth" where
  "cancel_preemptive B request_id w =
     (case demand_for_request request_id (pw_persistence w) of
        None \<Rightarrow> (Inr False, w)
      | Some demand \<Rightarrow> bind_m (on_preemptive_backend (pb_cancel_preemptive_resource_request B request_id)) (\<lambda>cancelled.
          if \<not> cancelled then return_m False
          else bind_m (on_preemptive_state (transaction None (cancel_preemptive_body request_id demand))) (\<lambda>_ w.
            (Inr True, w\<lparr>pw_pending_callbacks := dpop request_id (pw_pending_callbacks w),
               pw_pending_grants := dpop request_id (pw_pending_grants w),
               pw_pending_preemptions := dpop request_id (pw_pending_preemptions w)\<rparr>))) w)"

definition preemptive_release_intent_of ::
  "digest \<Rightarrow> preemptive_resource_reservation \<Rightarrow> datetime \<Rightarrow> preemptive_resource_release_intent" where
  "preemptive_release_intent_of uuid5 reservation now =
     \<lparr>px_intent_id = mint_id uuid5 ''preemptive-resource-release'' [pv_reservation_id reservation],
      px_reservation_id = pv_reservation_id reservation, px_resource_name = pv_resource_name reservation,
      px_requested_at = now\<rparr>"

definition begin_preemptive_release_body ::
  "preemptive_resource_reservation \<Rightarrow> preemptive_resource_release_intent \<Rightarrow> ('v, bool) tx_body" where
  "begin_preemptive_release_body reservation intent u =
     (if get_preemptive_resource_reservation (pv_reservation_id reservation) u \<noteq> Some reservation then Inr (False, u)
      else bind_res (save_preemptive_resource_release_intent intent u) (\<lambda>u. Inr (True, u)))"

definition finalize_preemptive_body ::
  "preemptive_resource_release_intent \<Rightarrow> preemptive_resource_reservation \<Rightarrow> ('v, unit) tx_body" where
  "finalize_preemptive_body intent reservation u =
     (if get_preemptive_resource_release_intent (px_intent_id intent) u \<noteq> Some intent
      then Inl (RuntimeError (''preemptive release intent changed: '' @ px_intent_id intent))
      else if get_preemptive_resource_reservation (pv_reservation_id reservation) u \<noteq> Some reservation
      then Inl (RuntimeError (''preemptive reservation changed during release: '' @ pv_reservation_id reservation))
      else bind_res (delete_preemptive_resource_reservation (pv_reservation_id reservation) u) (\<lambda>u.
           bind_res (delete_preemptive_resource_release_intent (px_intent_id intent) u) (\<lambda>u. Inr ((), u))))"

definition finalize_preemptive_release ::
  "preemptive_resource_release_intent \<Rightarrow> preemptive_resource_reservation \<Rightarrow> ('v persistence, unit) meth" where
  "finalize_preemptive_release intent reservation = transaction None (finalize_preemptive_body intent reservation)"

definition reconcile_pending_grants :: "digest \<Rightarrow> string \<Rightarrow> (('v, 'b, 'cb) preemptive_world, unit) meth" where
  "reconcile_pending_grants uuid5 resource_name w =
     each_m (\<lambda>(request_id, lease).
       if ls_resource_name lease \<noteq> resource_name then return_m ()
       else bind_m (try_commit_preemption uuid5 request_id) (\<lambda>committed.
         if committed then return_m ()
         else bind_m (try_commit_normal_grant uuid5 request_id) (\<lambda>_. return_m ())))
       (pw_pending_grants w) w"

definition release_preemptive ::
  "digest \<Rightarrow> 'b preemptive_backend \<Rightarrow> string \<Rightarrow> (('v, 'b, 'cb) preemptive_world, bool) meth" where
  "release_preemptive uuid5 B reservation_id w =
     (case find (\<lambda>r. pv_reservation_id r = reservation_id) (preemptive_resource_reservations (pw_persistence w)) of
        None \<Rightarrow> (Inr False, w)
      | Some reservation \<Rightarrow> (case dget (pw_backend_leases w) reservation_id of
            None \<Rightarrow> (Inl (RuntimeError (''backend lease is not reconstructed for preemptive reservation: '' @ reservation_id)), w)
          | Some lease \<Rightarrow>
              let intent = preemptive_release_intent_of uuid5 reservation
                    (case pb_now B of None \<Rightarrow> pv_acquired_at reservation | Some now \<Rightarrow> now (pw_backend w))
              in bind_m (on_preemptive_state (transaction None (begin_preemptive_release_body reservation intent))) (\<lambda>begun.
                   if \<not> begun then return_m False
                   else bind_m (on_preemptive_backend (pb_release_preemptive_resource B lease)) (\<lambda>_.
                        bind_m (on_preemptive_state (finalize_preemptive_release intent reservation)) (\<lambda>_ w.
                          bind_m (reconcile_pending_grants uuid5 (pv_resource_name reservation)) (\<lambda>_. return_m True)
                            (w\<lparr>pw_backend_leases := dpop reservation_id (pw_backend_leases w)\<rparr>)))) w))"

definition withdraw_preemptive ::
  "digest \<Rightarrow> 'b preemptive_backend \<Rightarrow> string \<Rightarrow> (('v, 'b, 'cb) preemptive_world, bool) meth" where
  "withdraw_preemptive uuid5 B request_id =
     bind_m (cancel_preemptive B request_id) (\<lambda>changed.
     bind_m (\<lambda>w. case reservation_for_request request_id (pw_persistence w) of
         None \<Rightarrow> (Inr changed, w)
       | Some reservation \<Rightarrow>
           bind_m (release_preemptive uuid5 B (pv_reservation_id reservation)) (\<lambda>r. return_m (r \<or> changed)) w) (\<lambda>changed.
     bind_m (\<lambda>w. case (pb_run_until B, pb_now B) of
         (Some _, None) \<Rightarrow> (Inl (AttributeError ''now''), w)
       | _ \<Rightarrow> run_preemptive_backend uuid5 B 0 w) (\<lambda>_. return_m changed)))"

section \<open>Recovery\<close>

definition validate_release_reference ::
  "preemptive_resource_reservation list \<Rightarrow> preemptive_resource_release_intent \<Rightarrow> unit res" where
  "validate_release_reference reservations intent =
     (case find (\<lambda>r. pv_reservation_id r = px_reservation_id intent) reservations of
        None \<Rightarrow> Inl (RuntimeError (''preemptive release references unknown reservation: '' @ px_intent_id intent))
      | Some r \<Rightarrow> guards [(pv_resource_name r \<noteq> px_resource_name intent,
          RuntimeError (''preemptive release targets wrong resource: '' @ px_intent_id intent))] ())"

definition validate_preemptive_references ::
  "(string \<times> preemptive_resource_definition) list \<Rightarrow> preemptive_resource_reservation list
     \<Rightarrow> preemptive_resource_demand list \<Rightarrow> preemptive_resource_release_intent list \<Rightarrow> unit res" where
  "validate_preemptive_references definitions reservations demands releases =
     bind_res (each_ok (\<lambda>r. guards [(\<not> dhas definitions (pv_resource_name r),
         RuntimeError (''preemptive reservation references unknown definition: '' @ pv_reservation_id r))] ()) reservations) (\<lambda>_.
     bind_res (each_ok (\<lambda>d. guards [(\<not> dhas definitions (pq_resource_name d),
         RuntimeError (''preemptive demand references unknown definition: '' @ pq_request_id d))] ()) demands) (\<lambda>_.
     each_ok (validate_release_reference reservations) releases))"

definition validate_preemptive_capacities ::
  "(string \<times> preemptive_resource_definition) list \<Rightarrow> preemptive_resource_reservation list \<Rightarrow> unit res" where
  "validate_preemptive_capacities definitions reservations =
     each_ok (\<lambda>(name, definition). guards
       [(pd_capacity definition < int (length (filter (\<lambda>r. pv_resource_name r = name) reservations)),
         RuntimeError (''preemptive resource '' @ name @ '' exceeds durable capacity''))] ()) definitions"

text \<open>The identities in the message are listed as Python lists strings without special characters.\<close>

definition repr_strings :: "string list \<Rightarrow> string" where
  "repr_strings xs = ''['' @ concat (case map (\<lambda>x. [CHR 0x27] @ x @ [CHR 0x27]) xs of
     [] \<Rightarrow> [] | y # ys \<Rightarrow> y # map (\<lambda>z. '', '' @ z) ys) @ '']''"

definition validate_request_overlap ::
  "preemptive_resource_demand list \<Rightarrow> preemptive_resource_reservation list \<Rightarrow> unit res" where
  "validate_request_overlap demands reservations =
     (let overlap = filter (\<lambda>q. q \<in> pv_request_id ` set reservations) (map pq_request_id demands)
      in guards [(overlap \<noteq> [],
        RuntimeError (''preemptive requests are both pending and reserved: '' @ repr_strings (sort (remdups overlap))))] ())"

definition validate_preemption_results ::
  "(string \<times> preemptive_resource_definition) list \<Rightarrow> 'v persistence \<Rightarrow> unit res" where
  "validate_preemption_results definitions p =
     each_ok (\<lambda>r. guards [(\<not> dhas definitions (pr_resource_name r),
       RuntimeError (''preemption result references unknown definition: '' @ pr_result_id r))] ()) (resource_preemption_results p)"

definition validate_preemptive_rebuild :: "'v persistence \<Rightarrow> unit res" where
  "validate_preemptive_rebuild p =
     (let definitions = dict_of pd_name (preemptive_resource_definitions p);
          reservations = preemptive_resource_reservations p; demands = preemptive_resource_demands p;
          releases = preemptive_resource_release_intents p
      in bind_res (validate_preemptive_references definitions reservations demands releases) (\<lambda>_.
         bind_res (validate_preemptive_capacities definitions reservations) (\<lambda>_.
         bind_res (validate_request_overlap demands reservations) (\<lambda>_.
         validate_preemption_results definitions p))))"

definition drop_preemptive_intent_body :: "preemptive_resource_release_intent \<Rightarrow> ('v, unit) tx_body" where
  "drop_preemptive_intent_body intent u =
     bind_res (delete_preemptive_resource_release_intent (px_intent_id intent) u) (\<lambda>u. Inr ((), u))"

definition finalize_interrupted_preemptive_releases :: "('v persistence, unit) meth" where
  "finalize_interrupted_preemptive_releases p =
     each_m (\<lambda>intent p.
       (case find (\<lambda>r. pv_reservation_id r = px_reservation_id intent) (preemptive_resource_reservations p) of
          None \<Rightarrow> transaction None (drop_preemptive_intent_body intent) p
        | Some reservation \<Rightarrow> finalize_preemptive_release intent reservation p))
       (preemptive_resource_release_intents p) p"

definition clear_ephemeral_state :: "('v, 'b, 'cb) preemptive_world \<Rightarrow> ('v, 'b, 'cb) preemptive_world" where
  "clear_ephemeral_state w = w\<lparr>pw_backend_leases := [], pw_pending_grants := [], pw_pending_preemptions := [],
     pw_pending_callbacks := []\<rparr>"

definition rebuild_preemptive_backend ::
  "'b preemptive_backend \<Rightarrow> (('v, 'b, 'cb) preemptive_world, nat) meth" where
  "rebuild_preemptive_backend B w =
     bind_m (\<lambda>w. (validate_preemptive_rebuild (pw_persistence w), w)) (\<lambda>_.
     bind_m (on_preemptive_state finalize_interrupted_preemptive_releases) (\<lambda>_ w.
       let p = pw_persistence w; definitions = dict_of pd_name (preemptive_resource_definitions p)
       in bind_m (on_preemptive_backend (each_m (\<lambda>d. pb_create_preemptive_resource B (pd_name d) (pd_capacity d))
            (dvalues definitions)))
         (\<lambda>_. bind_m (on_preemptive_backend (each_m (\<lambda>r. pb_request_preemptive_resource B (pv_resource_name r)
            (pv_request_id r) (pv_priority r) False) (preemptive_resource_reservations p)))
         (\<lambda>_. bind_m (on_preemptive_backend (each_m (submit_demand B) (preemptive_resource_demands p)))
         (\<lambda>_. return_m (length (preemptive_resource_reservations p) + length (preemptive_resource_demands p))))) w))
     (clear_ephemeral_state w)"

section \<open>The invariant\<close>

definition reserved_in :: "string \<Rightarrow> 'v state \<Rightarrow> preemptive_resource_reservation list" where
  "reserved_in name s = filter (\<lambda>r. pv_resource_name r = name) (dvalues (st_preemptive_resource_reservations s))"

definition preemptive_capacity_ok :: "'v state \<Rightarrow> bool" where
  "preemptive_capacity_ok s \<longleftrightarrow> (\<forall>n d. map_of (st_preemptive_resource_definitions s) n = Some d \<longrightarrow>
     int (length (reserved_in n s)) \<le> pd_capacity d)"

definition preemption_results_ok :: "'v state \<Rightarrow> bool" where
  "preemption_results_ok s \<longleftrightarrow> (\<forall>k r. map_of (st_resource_preemption_results s) k = Some r \<longrightarrow>
     map_of (st_preemptive_resource_definitions s) (pr_resource_name r) \<noteq> None)"

definition preemptive_inv :: "'v state \<Rightarrow> bool" where
  "preemptive_inv s \<longleftrightarrow> state_wf s \<and> preemptive_capacity_ok s \<and> preemption_results_ok s"

abbreviation world_inv :: "('v, 'b, 'cb) preemptive_world \<Rightarrow> bool" where
  "world_inv w \<equiv> preemptive_inv (pstate (pw_persistence w))"

lemma preemptive_keys:
  assumes "state_wf s"
  shows "keyed pd_name (st_preemptive_resource_definitions s)" and "keyed pq_request_id (st_preemptive_resource_demands s)"
    and "keyed pv_reservation_id (st_preemptive_resource_reservations s)"
    and "keyed px_intent_id (st_preemptive_resource_release_intents s)"
    and "keyed pr_result_id (st_resource_preemption_results s)"
  using assms by (simp_all add: state_wf_def ids_wf_def)

lemma preemptive_refs:
  assumes "state_wf s"
  shows "map_of (st_preemptive_resource_demands s) q = Some d \<Longrightarrow>
      map_of (st_preemptive_resource_definitions s) (pq_resource_name d) \<noteq> None"
    and "map_of (st_preemptive_resource_reservations s) i = Some r \<Longrightarrow>
      map_of (st_preemptive_resource_definitions s) (pv_resource_name r) \<noteq> None"
    and "map_of (st_preemptive_resource_reservations s) i = Some r \<Longrightarrow>
      map_of (st_preemptive_resource_demands s) (pv_request_id r) = None"
    and "map_of (st_preemptive_resource_reservations s) i = Some r \<Longrightarrow>
      map_of (st_preemptive_resource_reservations s) j = Some r' \<Longrightarrow> pv_request_id r = pv_request_id r' \<Longrightarrow> i = j"
  using assms unfolding state_wf_def preemptive_wf_def by metis+

lemma preemptive_finds:
  assumes "state_wf (pstate p)"
  shows "demand_for_request q p = map_of (st_preemptive_resource_demands (pstate p)) q"
    and "find (\<lambda>r. pv_reservation_id r = i) (preemptive_resource_reservations p) =
      map_of (st_preemptive_resource_reservations (pstate p)) i"
    and "find (\<lambda>d. pd_name d = n) (preemptive_resource_definitions p) =
      map_of (st_preemptive_resource_definitions (pstate p)) n"
  using preemptive_keys [OF assms] unfolding demand_for_request_def
  by (auto intro!: find_keyed simp: preemptive_resource_demands_def preemptive_resource_reservations_def
      preemptive_resource_definitions_def)

lemma reservation_for_request_Some:
  assumes "reservation_for_request q p = Some r" and "state_wf (pstate p)"
  shows "map_of (st_preemptive_resource_reservations (pstate p)) (pv_reservation_id r) = Some r" and "pv_request_id r = q"
proof -
  from assms(1) have "r \<in> set (preemptive_resource_reservations p)" "pv_request_id r = q"
    unfolding reservation_for_request_def find_Some_iff by (auto dest: nth_mem)
  then show "map_of (st_preemptive_resource_reservations (pstate p)) (pv_reservation_id r) = Some r" "pv_request_id r = q"
    using keyed_mem_iff [OF preemptive_keys(3) [OF assms(2)]] by (simp_all add: preemptive_resource_reservations_def)
qed

section \<open>Every transaction keeps the invariant\<close>

lemma length_filter_set: "length (filter P (dvalues (dset k v d))) \<le> length (filter P (dvalues d)) + (if P v then 1 else 0)"
  by (induction d) auto

lemma length_filter_pop_found:
  assumes "distinct (map fst d)" and "map_of d k = Some v" and "P v"
  shows "Suc (length (filter P (dvalues (dpop k d)))) = length (filter P (dvalues d))"
  using arg_cong [OF mset_values_pop [OF assms(1,2)], of "\<lambda>m. size (filter_mset P m)"] assms(3)
  by (simp del: mset_map flip: mset_filter)

lemma length_filter_popped: "length (filter P (dvalues (dpop k d))) \<le> length (filter P (dvalues d))"
  by (induction d) auto

lemma reserved_in_same:
  "st_preemptive_resource_reservations t = st_preemptive_resource_reservations s \<Longrightarrow> reserved_in n t = reserved_in n s"
  by (simp add: reserved_in_def)

lemma reserved_in_popped:
  "st_preemptive_resource_reservations t = dpop k (st_preemptive_resource_reservations s) \<Longrightarrow>
     length (reserved_in n t) \<le> length (reserved_in n s)"
  unfolding reserved_in_def by (simp only: length_filter_popped)

lemma preemptive_capacity_after:
  assumes "preemptive_capacity_ok s" and "st_preemptive_resource_definitions t = st_preemptive_resource_definitions s"
    and "\<And>n. length (reserved_in n t) \<le> length (reserved_in n s)"
  shows "preemptive_capacity_ok t"
  unfolding preemptive_capacity_ok_def
proof (intro allI impI)
  fix n d assume "map_of (st_preemptive_resource_definitions t) n = Some d"
  with assms(1,2) have "int (length (reserved_in n s)) \<le> pd_capacity d" unfolding preemptive_capacity_ok_def by metis
  with assms(3) [of n] show "int (length (reserved_in n t)) \<le> pd_capacity d" by linarith
qed

lemma transaction_keeps:
  assumes "state_wf (pstate p)" and "uow_body body"
    and "\<And>a u. body (new_uow (pstate p)) = Inr (a, u) \<Longrightarrow> Q (working u)" and "Q (pstate p)"
  shows "state_wf (pstate (snd (transaction None body p))) \<and> Q (pstate (snd (transaction None body p)))"
proof -
  obtain r p' where tx: "transaction None body p = (r, p')" by (cases "transaction None body p")
  have "state_wf (pstate p')"
    using uow_body_transaction [OF tx assms(2)] assms(1) by (auto dest: state_wf_steps simp: new_uow_def)
  moreover have "Q (pstate p')" using tx by (cases rule: transaction_cases) (use assms(3,4) in auto)
  ultimately show ?thesis using tx by simp
qed

lemmas uow_chain = converse_rtranclp_into_rtranclp [where r = uow_step] rtranclp.rtrancl_refl [where r = uow_step]

lemma preemptive_uow_bodies:
  "uow_body (define_preemptive_body x1)" "uow_body (preemptive_demand_body x2)"
  "uow_body (preemption_body x3 x4 x5 x6)" "uow_body (normal_grant_body x7 x3 x8)"
  "uow_body (cancel_preemptive_body x9 x3)" "uow_body (begin_preemptive_release_body x4 x10)"
  "uow_body (finalize_preemptive_body x10 x4)" "uow_body (drop_preemptive_intent_body x10)"
  unfolding uow_body_def
  by (auto simp: define_preemptive_body_def preemptive_demand_body_def preemption_body_def normal_grant_body_def
      cancel_preemptive_body_def begin_preemptive_release_body_def finalize_preemptive_body_def
      drop_preemptive_intent_body_def split: if_splits option.splits)
    (meson uow_chain uow_step.intros)+

lemma preemptive_tx_keeps:
  assumes "preemptive_inv (pstate p)" and "uow_body body"
    and "\<And>a u. body (new_uow (pstate p)) = Inr (a, u) \<Longrightarrow>
      preemptive_capacity_ok (working u) \<and> preemption_results_ok (working u)"
  shows "preemptive_inv (pstate (snd (transaction None body p)))"
  using transaction_keeps [of p body "\<lambda>s. preemptive_capacity_ok s \<and> preemption_results_ok s"] assms
  by (simp add: preemptive_inv_def)

text \<open>Transactions that touch neither definitions nor results and remove reservations at most.\<close>

lemma small_preemptive_tx_keeps:
  assumes "preemptive_inv (pstate p)"
  shows "preemptive_inv (pstate (snd (transaction None (preemptive_demand_body d) p)))"
    and "preemptive_inv (pstate (snd (transaction None (cancel_preemptive_body q d) p)))"
    and "preemptive_inv (pstate (snd (transaction None (begin_preemptive_release_body r i) p)))"
    and "preemptive_inv (pstate (snd (transaction None (finalize_preemptive_body i r) p)))"
    and "preemptive_inv (pstate (snd (transaction None (drop_preemptive_intent_body i) p)))"
proof -
  have eff: "preemptive_capacity_ok t \<and> preemption_results_ok t"
    if "st_preemptive_resource_definitions t = st_preemptive_resource_definitions (pstate p)"
      "st_resource_preemption_results t = st_resource_preemption_results (pstate p)"
      "st_preemptive_resource_reservations t = st_preemptive_resource_reservations (pstate p) \<or>
       (\<exists>k. st_preemptive_resource_reservations t = dpop k (st_preemptive_resource_reservations (pstate p)))" for t
  proof
    show "preemption_results_ok t" using assms that(1,2) by (simp add: preemptive_inv_def preemption_results_ok_def)
    have "length (reserved_in n t) \<le> length (reserved_in n (pstate p))" for n
      using that(3) reserved_in_popped reserved_in_same [of t "pstate p" n] by fastforce
    then show "preemptive_capacity_ok t"
      using assms preemptive_capacity_after that(1) by (auto simp: preemptive_inv_def)
  qed
  show "preemptive_inv (pstate (snd (transaction None (preemptive_demand_body d) p)))"
    by (rule preemptive_tx_keeps [OF assms preemptive_uow_bodies(2)], rule eff)
      (auto simp: preemptive_demand_body_def save_preemptive_resource_demand_def mark_dirty_def new_uow_def)
  show "preemptive_inv (pstate (snd (transaction None (cancel_preemptive_body q d) p)))"
    by (rule preemptive_tx_keeps [OF assms preemptive_uow_bodies(5)], rule eff)
      (auto simp: cancel_preemptive_body_def delete_preemptive_resource_demand_def mark_dirty_def new_uow_def
        split: if_splits)
  show "preemptive_inv (pstate (snd (transaction None (begin_preemptive_release_body r i) p)))"
    by (rule preemptive_tx_keeps [OF assms preemptive_uow_bodies(6)], rule eff)
      (auto simp: begin_preemptive_release_body_def save_preemptive_resource_release_intent_def mark_dirty_def
        new_uow_def split: if_splits)
  show "preemptive_inv (pstate (snd (transaction None (finalize_preemptive_body i r) p)))"
    by (rule preemptive_tx_keeps [OF assms preemptive_uow_bodies(7)], rule eff)
      (auto simp: finalize_preemptive_body_def delete_preemptive_resource_reservation_def
        delete_preemptive_resource_release_intent_def mark_dirty_def new_uow_def split: if_splits)
  show "preemptive_inv (pstate (snd (transaction None (drop_preemptive_intent_body i) p)))"
    by (rule preemptive_tx_keeps [OF assms preemptive_uow_bodies(8)], rule eff)
      (auto simp: drop_preemptive_intent_body_def delete_preemptive_resource_release_intent_def mark_dirty_def new_uow_def)
qed

lemma define_preemptive_keeps:
  assumes "preemptive_inv (pstate p)" and "mk_preemptive_resource_definition d = Inr d"
  shows "preemptive_inv (pstate (snd (define_preemptive d p)))"
  unfolding define_preemptive_def
proof (rule preemptive_tx_keeps [OF assms(1) preemptive_uow_bodies(1)])
  fix a u assume "define_preemptive_body d (new_uow (pstate p)) = Inr (a, u)"
  then have old: "map_of (st_preemptive_resource_definitions (pstate p)) (pd_name d) \<in> {None, Some d}"
    and u: "working u = (pstate p)\<lparr>st_preemptive_resource_definitions :=
        dset (pd_name d) d (st_preemptive_resource_definitions (pstate p))\<rparr>"
    by (auto simp: define_preemptive_body_def save_preemptive_resource_definition_def mark_dirty_def new_uow_def
        split: option.splits)
  from assms(1) have wf: "state_wf (pstate p)" and cap: "preemptive_capacity_ok (pstate p)"
    and res: "preemption_results_ok (pstate p)" by (simp_all add: preemptive_inv_def)
  have "preemption_results_ok (working u)" using res unfolding u preemption_results_ok_def by auto
  moreover have "preemptive_capacity_ok (working u)"
    unfolding preemptive_capacity_ok_def
  proof (intro allI impI)
    fix n e assume e: "map_of (st_preemptive_resource_definitions (working u)) n = Some e"
    have same: "reserved_in n (working u) = reserved_in n (pstate p)" by (rule reserved_in_same) (simp add: u)
    show "int (length (reserved_in n (working u))) \<le> pd_capacity e"
    proof (cases "map_of (st_preemptive_resource_definitions (pstate p)) n")
      case None
      then have "e = d" using e u by (auto split: if_splits)
      have "pv_resource_name r \<noteq> n" if "r \<in> set (dvalues (st_preemptive_resource_reservations (pstate p)))" for r
        using that None preemptive_refs(2) [OF wf] keyed_mem_iff [OF preemptive_keys(3) [OF wf]] by metis
      then have "reserved_in n (pstate p) = []" unfolding reserved_in_def by (auto simp: filter_empty_conv)
      then show ?thesis using \<open>e = d\<close> assms(2) same by (auto simp: mk_preemptive_resource_definition_def)
    next
      case (Some f)
      then have "e = f" using e u old by (auto split: if_splits)
      with Some cap same show ?thesis by (auto simp: preemptive_capacity_ok_def)
    qed
  qed
  ultimately show "preemptive_capacity_ok (working u) \<and> preemption_results_ok (working u)" by simp
qed

definition swapped_state ::
  "preemptive_resource_demand \<Rightarrow> preemptive_resource_reservation \<Rightarrow> preemptive_resource_reservation
     \<Rightarrow> resource_preemption_result \<Rightarrow> 'v state \<Rightarrow> 'v state" where
  "swapped_state demand displaced successor result s = s\<lparr>
     st_preemptive_resource_demands := dpop (pq_request_id demand) (st_preemptive_resource_demands s),
     st_preemptive_resource_reservations := dset (pv_reservation_id successor) successor
       (dpop (pv_reservation_id displaced) (st_preemptive_resource_reservations s)),
     st_resource_preemption_results := dset (pr_result_id result) result (st_resource_preemption_results s)\<rparr>"

lemma preemption_body_effect:
  assumes "preemption_body demand displaced successor result (new_uow s) = Inr (a, u)"
  shows "\<not> a \<and> working u = s \<or>
    a \<and> map_of (st_preemptive_resource_reservations s) (pv_reservation_id displaced) = Some displaced \<and>
    working u = swapped_state demand displaced successor result s"
proof (cases "map_of (st_preemptive_resource_demands s) (pq_request_id demand) = Some demand \<and>
    map_of (st_preemptive_resource_reservations s) (pv_reservation_id displaced) = Some displaced")
  case True
  with assms show ?thesis
    by (auto simp: preemption_body_def get_preemptive_resource_demand_def get_preemptive_resource_reservation_def
        delete_preemptive_resource_demand_def delete_preemptive_resource_reservation_def
        save_preemptive_resource_reservation_def save_resource_preemption_result_def mark_dirty_def new_uow_def
        swapped_state_def)
next
  case False
  with assms show ?thesis
    by (auto simp: preemption_body_def get_preemptive_resource_demand_def get_preemptive_resource_reservation_def
        new_uow_def split: if_splits)
qed

lemma normal_grant_body_effect:
  assumes "normal_grant_body q demand r (new_uow s) = Inr (a, u)"
  shows "\<not> fst a \<and> working u = s \<or>
    a = (True, r) \<and> working u = s\<lparr>
      st_preemptive_resource_demands := dpop (pq_request_id demand) (st_preemptive_resource_demands s),
      st_preemptive_resource_reservations := dset (pv_reservation_id r) r (st_preemptive_resource_reservations s)\<rparr>"
proof (cases "map_of (st_preemptive_resource_demands s) (pq_request_id demand) = Some demand")
  case True
  with assms show ?thesis
    by (auto simp: normal_grant_body_def get_preemptive_resource_demand_def delete_preemptive_resource_demand_def
        save_preemptive_resource_reservation_def mark_dirty_def new_uow_def)
next
  case False
  with assms show ?thesis
    by (auto simp: normal_grant_body_def get_preemptive_resource_demand_def new_uow_def split: option.splits)
qed

lemma preemption_tx_keeps:
  assumes "preemptive_inv (pstate p)" and "pv_resource_name successor = pv_resource_name displaced"
    and "pr_resource_name result = pv_resource_name displaced"
  shows "preemptive_inv (pstate (snd (transaction None (preemption_body demand displaced successor result) p)))"
proof (rule preemptive_tx_keeps [OF assms(1) preemptive_uow_bodies(3)])
  fix a u assume u: "preemption_body demand displaced successor result (new_uow (pstate p)) = Inr (a, u)"
  let ?s = "pstate p"
  from assms(1) have wf: "state_wf ?s" and cap: "preemptive_capacity_ok ?s"
    and res: "preemption_results_ok ?s" by (simp_all add: preemptive_inv_def)
  from preemption_body_effect [OF u]
  show "preemptive_capacity_ok (working u) \<and> preemption_results_ok (working u)"
  proof (elim disjE conjE)
    assume old: "map_of (st_preemptive_resource_reservations ?s) (pv_reservation_id displaced) = Some displaced"
      and "working u = swapped_state demand displaced successor result ?s"
    then have swap: "map_of (st_preemptive_resource_reservations ?s) (pv_reservation_id displaced) = Some displaced"
      "st_preemptive_resource_definitions (working u) = st_preemptive_resource_definitions ?s"
      "st_preemptive_resource_reservations (working u) = dset (pv_reservation_id successor) successor
         (dpop (pv_reservation_id displaced) (st_preemptive_resource_reservations ?s))"
      "st_resource_preemption_results (working u) = dset (pr_result_id result) result (st_resource_preemption_results ?s)"
      by (simp_all add: swapped_state_def)
    have "preemption_results_ok (working u)"
      using res assms(3) preemptive_refs(2) [OF wf swap(1)] unfolding preemption_results_ok_def swap(2,4)
      by (auto split: if_splits)
    moreover have "length (reserved_in n (working u)) \<le> length (reserved_in n ?s)" for n
    proof -
      have d: "distinct (map fst (st_preemptive_resource_reservations ?s))"
        using preemptive_keys(3) [OF wf] by (simp add: keyed_def)
      let ?P = "\<lambda>r. pv_resource_name r = n"
      let ?d = "dpop (pv_reservation_id displaced) (st_preemptive_resource_reservations ?s)"
      have "length (reserved_in n (working u)) \<le> length (filter ?P (dvalues ?d)) + (if ?P successor then 1 else 0)"
        unfolding reserved_in_def swap(3) by (rule length_filter_set)
      also have "\<dots> \<le> length (reserved_in n ?s)"
        using length_filter_pop_found [where P = ?P, OF d swap(1)]
          length_filter_popped [of ?P "pv_reservation_id displaced" "st_preemptive_resource_reservations ?s"] assms(2)
        unfolding reserved_in_def by (auto simp del: filter_map)
      finally show ?thesis .
    qed
    ultimately show ?thesis using preemptive_capacity_after [OF cap swap(2)] by blast
  qed (use cap res in simp)
qed

lemma normal_grant_tx_keeps:
  assumes "preemptive_inv (pstate p)"
    and "map_of (st_preemptive_resource_definitions (pstate p)) (pv_resource_name r) = Some d"
    and "int (length (reserved_in (pv_resource_name r) (pstate p))) < pd_capacity d"
  shows "preemptive_inv (pstate (snd (transaction None (normal_grant_body q demand r) p)))"
proof (rule preemptive_tx_keeps [OF assms(1) preemptive_uow_bodies(4)])
  fix a u assume u: "normal_grant_body q demand r (new_uow (pstate p)) = Inr (a, u)"
  let ?s = "pstate p"
  from assms(1) have cap: "preemptive_capacity_ok ?s" and res: "preemption_results_ok ?s"
    by (simp_all add: preemptive_inv_def)
  from normal_grant_body_effect [OF u]
  show "preemptive_capacity_ok (working u) \<and> preemption_results_ok (working u)"
  proof (elim disjE conjE)
    assume "working u = ?s\<lparr>
      st_preemptive_resource_demands := dpop (pq_request_id demand) (st_preemptive_resource_demands ?s),
      st_preemptive_resource_reservations := dset (pv_reservation_id r) r (st_preemptive_resource_reservations ?s)\<rparr>"
    then have grant: "st_preemptive_resource_definitions (working u) = st_preemptive_resource_definitions ?s"
      "st_preemptive_resource_reservations (working u) =
         dset (pv_reservation_id r) r (st_preemptive_resource_reservations ?s)"
      "st_resource_preemption_results (working u) = st_resource_preemption_results ?s" by simp_all
    have "preemption_results_ok (working u)" using res unfolding preemption_results_ok_def grant(1,3) .
    moreover have "preemptive_capacity_ok (working u)"
      unfolding preemptive_capacity_ok_def grant(1)
    proof (intro allI impI)
      fix n e assume e: "map_of (st_preemptive_resource_definitions ?s) n = Some e"
      have len: "length (reserved_in n (working u)) \<le> length (reserved_in n ?s) + (if pv_resource_name r = n then 1 else 0)"
        unfolding reserved_in_def grant(2) by (rule length_filter_set)
      have "int (length (reserved_in n ?s)) \<le> pd_capacity e" using cap e by (simp add: preemptive_capacity_ok_def)
      then show "int (length (reserved_in n (working u))) \<le> pd_capacity e"
        using len assms(2,3) e by (auto split: if_splits)
    qed
    ultimately show ?thesis by simp
  qed (use cap res in simp)
qed

section \<open>Every operation keeps the invariant\<close>

lemma bind_m_keeps:
  assumes "world_inv (snd (m w))" and "\<And>a w'. m w = (Inr a, w') \<Longrightarrow> world_inv w' \<Longrightarrow> world_inv (snd (f a w'))"
  shows "world_inv (snd (bind_m m f w))"
  using assms by (cases "m w") (auto simp: bind_m_def split: sum.splits)

lemma on_state_keeps:
  "preemptive_inv (pstate (snd (m (pw_persistence w)))) \<Longrightarrow> world_inv (snd (on_preemptive_state m w))"
  by (auto simp: on_preemptive_state_def split: prod.splits)

lemma on_backend_keeps [simp]: "world_inv (snd (on_preemptive_backend m w)) = world_inv w"
  by (auto simp: on_preemptive_backend_def split: prod.splits)

lemma notify_keeps [simp]: "pw_persistence (snd (notify_acquired r w)) = pw_persistence w"
  by (auto simp: notify_acquired_def split: option.splits)

lemma return_keeps [simp]: "snd (return_m a w) = w"
  by (simp add: return_m_def)

lemma preemption_committed_keeps [simp]:
  "pw_persistence (snd (preemption_committed q d r l w)) = pw_persistence w"
  by (auto simp: preemption_committed_def bind_m_def notify_acquired_def return_m_def split: option.splits)

lemma preemption_pairD:
  assumes "preemption_pair q w = Some (lease, event, demand, displaced)" and "state_wf (pstate (pw_persistence w))"
  shows "dget (pw_pending_grants w) q = Some lease" and "dget (pw_pending_preemptions w) q = Some event"
    and "map_of (st_preemptive_resource_demands (pstate (pw_persistence w))) q = Some demand"
    and "reservation_for_request (ev_request_id event) (pw_persistence w) = Some displaced"
  using assms(1) preemptive_finds(1) [OF assms(2)]
  by (auto simp: preemption_pair_def split: option.splits)

lemma outcome_names:
  assumes "build_preemption_outcome uuid5 demand displaced t1 t2 = Inr (successor, result)"
  shows "pv_resource_name successor = pq_resource_name demand" and "pr_resource_name result = pq_resource_name demand"
    and "pv_request_id successor = pq_request_id demand"
  using assms by (auto simp: build_preemption_outcome_def successor_of_def mk_preemptive_resource_reservation_def
      mk_resource_preemption_result_def)

lemma try_commit_preemption_keeps:
  assumes "world_inv w"
  shows "world_inv (snd (try_commit_preemption uuid5 q w))"
proof (cases "preemption_pair q w")
  case (Some pair)
  obtain lease event demand displaced where pair: "pair = (lease, event, demand, displaced)" by (cases pair)
  show ?thesis
  proof (cases "build_preemption_outcome uuid5 demand displaced (ev_preempted_at event) (ls_acquired_at lease)")
    case (Inr out)
    obtain successor result where out: "out = (successor, result)" by (cases out)
    note names = outcome_names [OF Inr [unfolded out]]
    have "world_inv (snd (bind_m (on_preemptive_state (transaction None (preemption_body demand displaced successor result)))
        (\<lambda>committed. if committed then preemption_committed q displaced successor lease else return_m False) w))"
      if "pq_resource_name demand = pv_resource_name displaced"
      using names that preemption_tx_keeps [OF assms] by (intro bind_m_keeps on_state_keeps) auto
    then show ?thesis using assms Some pair Inr out by (simp add: try_commit_preemption_def)
  qed (use assms Some pair in \<open>simp add: try_commit_preemption_def\<close>)
qed (use assms in \<open>simp add: try_commit_preemption_def\<close>)

lemma active_count:
  "length (filter (\<lambda>r. pv_resource_name r = n) (preemptive_resource_reservations p)) = length (reserved_in n (pstate p))"
proof -
  have "mset (preemptive_resource_reservations p) = mset (dvalues (st_preemptive_resource_reservations (pstate p)))"
    by (simp add: preemptive_resource_reservations_def)
  then show ?thesis unfolding reserved_in_def by (metis mset_filter size_mset)
qed

lemma try_commit_normal_grant_keeps:
  assumes "world_inv w"
  shows "world_inv (snd (try_commit_normal_grant uuid5 q w))"
proof -
  from assms have wf: "state_wf (pstate (pw_persistence w))" by (simp add: preemptive_inv_def)
  have grant: "world_inv (snd (commit_normal_grant uuid5 demand lease w))"
    if "map_of (st_preemptive_resource_definitions (pstate (pw_persistence w))) (pq_resource_name demand) = Some d"
      "\<not> pd_capacity d \<le> int (length (reserved_in (pq_resource_name demand) (pstate (pw_persistence w))))" for demand lease d
  proof (cases "successor_of uuid5 demand (ls_acquired_at lease)")
    case (Inr r)
    then have "pv_resource_name r = pq_resource_name demand"
      by (auto simp: successor_of_def mk_preemptive_resource_reservation_def)
    with that normal_grant_tx_keeps [OF assms, of r d] have
      "world_inv (snd (bind_m (on_preemptive_state (transaction None (normal_grant_body (pw_persistence w) demand r)))
        (\<lambda>(fresh, r) w. (Inr r, if fresh
          then w\<lparr>pw_backend_leases := dset (pv_reservation_id r) lease (pw_backend_leases w)\<rparr> else w)) w))"
      by (intro bind_m_keeps on_state_keeps) (auto split: prod.splits)
    with Inr show ?thesis by (simp add: commit_normal_grant_def)
  qed (use assms in \<open>simp add: commit_normal_grant_def\<close>)
  have "world_inv (snd (bind_m (commit_normal_grant uuid5 demand lease) (\<lambda>reservation w.
      bind_m (notify_acquired reservation) (\<lambda>_. return_m True)
        (w\<lparr>pw_pending_grants := dpop q (pw_pending_grants w)\<rparr>)) w))"
    if "world_inv (snd (commit_normal_grant uuid5 demand lease w))" for demand lease
    using that by (intro bind_m_keeps) auto
  then show ?thesis
    using assms grant preemptive_finds(3) [OF wf]
    by (auto simp: try_commit_normal_grant_def Let_def active_count preemptive_definition_of_def
        split: option.splits sum.splits)
qed

lemma record_acquired_keeps:
  assumes "world_inv w"
  shows "world_inv (snd (record_acquired uuid5 q lease w))"
proof -
  have "world_inv (snd (bind_m (try_commit_preemption uuid5 q) (\<lambda>committed. if committed then return_m ()
      else bind_m (try_commit_normal_grant uuid5 q) (\<lambda>_. return_m ())) w'))" if "world_inv w'"
    for w' :: "('a, 'b, 'c) preemptive_world"
    using that try_commit_preemption_keeps try_commit_normal_grant_keeps by (auto intro!: bind_m_keeps)
  then show ?thesis using assms by (auto simp: record_acquired_def split: option.splits)
qed

lemma record_preempted_keeps:
  assumes "world_inv w"
  shows "world_inv (snd (record_preempted uuid5 event w))"
proof -
  have "world_inv (snd (bind_m (try_commit_preemption uuid5 q) (\<lambda>_. return_m ()) w'))" if "world_inv w'"
    for w' :: "('a, 'b, 'c) preemptive_world" and q
    using that try_commit_preemption_keeps by (auto intro!: bind_m_keeps)
  then show ?thesis using assms by (auto simp: record_preempted_def split: option.splits)
qed

lemma deliver_preemptive_keeps: "world_inv w \<Longrightarrow> world_inv (snd (deliver_preemptive uuid5 ev w))"
  by (auto simp: deliver_preemptive_def record_acquired_keeps record_preempted_keeps split: preemptive_event.splits)

lemma reconcile_keeps:
  assumes "world_inv w"
  shows "world_inv (snd (reconcile_pending_grants uuid5 n w))"
  unfolding reconcile_pending_grants_def
  by (rule each_m_invariant [where P = world_inv, OF assms])
    (auto intro!: bind_m_keeps try_commit_preemption_keeps try_commit_normal_grant_keeps)

lemma request_preemptive_keeps:
  assumes "world_inv w"
  shows "world_inv (snd (request_preemptive B n q t prio pre cb w))"
proof -
  have "preemptive_inv (pstate (snd (record_preemptive_demand n q t prio pre (pw_persistence w))))"
    using assms small_preemptive_tx_keeps(1) by (auto simp: record_preemptive_demand_def split: sum.splits)
  then show ?thesis
    unfolding request_preemptive_def by (auto intro!: bind_m_keeps on_state_keeps simp: Let_def split: option.splits)
qed

lemma cancel_preemptive_keeps:
  assumes "world_inv w"
  shows "world_inv (snd (cancel_preemptive B q w))"
  using assms unfolding cancel_preemptive_def
  by (auto intro!: bind_m_keeps on_state_keeps small_preemptive_tx_keeps(2) split: option.splits)

lemma release_preemptive_keeps:
  assumes "world_inv w"
  shows "world_inv (snd (release_preemptive uuid5 B i w))"
  using assms unfolding release_preemptive_def Let_def
  by (auto intro!: bind_m_keeps on_state_keeps small_preemptive_tx_keeps(3,4) reconcile_keeps
      simp: finalize_preemptive_release_def split: option.splits)

lemma finalize_interrupted_preemptive_keeps:
  assumes "preemptive_inv (pstate p)"
  shows "preemptive_inv (pstate (snd (finalize_interrupted_preemptive_releases p)))"
  unfolding finalize_interrupted_preemptive_releases_def
  by (rule each_m_invariant [where P = "\<lambda>p. preemptive_inv (pstate p)", OF assms])
    (auto intro: small_preemptive_tx_keeps simp: finalize_preemptive_release_def split: option.splits)

section \<open>Runs\<close>

definition preemptive_view where
  "preemptive_view s = (st_preemptive_resource_definitions s, st_preemptive_resource_demands s,
     st_preemptive_resource_reservations s, st_preemptive_resource_release_intents s, st_resource_preemption_results s)"

text \<open>
  A run of the manager on a backend: (checked) definitions, requests, callbacks, cancellations and
  releases in any order, recovery passes, and anything that leaves the durable records of preemptive
  resources alone, which includes work of other components and the loss of the in-memory maps in a
  crash. Operations may raise, and a backend call that raises in the middle of an operation leaves what
  was committed before it.
\<close>

inductive preemptive_step ::
  "digest \<Rightarrow> 'b preemptive_backend \<Rightarrow> ('v, 'b, 'cb) preemptive_world \<Rightarrow> ('v, 'b, 'cb) preemptive_world \<Rightarrow> bool"
  for uuid5 B where
  pstep_define: "mk_preemptive_resource_definition d = Inr d \<Longrightarrow> define_preemptive d (pw_persistence w) = (r, p') \<Longrightarrow>
    preemptive_step uuid5 B w (w\<lparr>pw_persistence := p'\<rparr>)"
| pstep_request: "request_preemptive B n q t prio pre cb w = (r1, w') \<Longrightarrow> preemptive_step uuid5 B w w'"
| pstep_deliver: "deliver_preemptive uuid5 ev w = (r2, w') \<Longrightarrow> preemptive_step uuid5 B w w'"
| pstep_cancel: "cancel_preemptive B q w = (r3, w') \<Longrightarrow> preemptive_step uuid5 B w w'"
| pstep_release: "release_preemptive uuid5 B i w = (r3, w') \<Longrightarrow> preemptive_step uuid5 B w w'"
| pstep_begin_release: "transaction None (begin_preemptive_release_body x y) (pw_persistence w) = (r3, p') \<Longrightarrow>
    preemptive_step uuid5 B w (w\<lparr>pw_persistence := p'\<rparr>)"
| pstep_recover: "finalize_interrupted_preemptive_releases (pw_persistence w) = (r2, p') \<Longrightarrow>
    preemptive_step uuid5 B w (clear_ephemeral_state (w\<lparr>pw_persistence := p'\<rparr>))"
| pstep_other: "preemptive_view (pstate (pw_persistence w')) = preemptive_view (pstate (pw_persistence w)) \<Longrightarrow>
    history (pw_persistence w) (pw_persistence w') \<Longrightarrow> settled_disjoint (pstate (pw_persistence w)) \<Longrightarrow>
    preemptive_step uuid5 B w w'"

lemma preemptive_step_keeps: "preemptive_step uuid5 B w w' \<Longrightarrow> world_inv w \<Longrightarrow> world_inv w'"
proof (induction rule: preemptive_step.induct)
  case (pstep_define d w r p')
  then show ?case using define_preemptive_keeps [of "pw_persistence w" d] by simp
next
  case (pstep_request n q t prio pre cb w r1 w')
  then show ?case using request_preemptive_keeps [of w B n q t prio pre cb] by simp
next
  case (pstep_deliver ev w r2 w')
  then show ?case using deliver_preemptive_keeps [of w uuid5 ev] by simp
next
  case (pstep_cancel q w r3 w')
  then show ?case using cancel_preemptive_keeps [of w B q] by simp
next
  case (pstep_release i w r3 w')
  then show ?case using release_preemptive_keeps [of w uuid5 B i] by simp
next
  case (pstep_begin_release x y w r3 p')
  then show ?case using small_preemptive_tx_keeps(3) [of "pw_persistence w" x y] by simp
next
  case (pstep_recover w r2 p')
  then show ?case using finalize_interrupted_preemptive_keeps [of "pw_persistence w"]
    by (simp add: clear_ephemeral_state_def)
next
  case (pstep_other w' w)
  have "state_wf (pstate (pw_persistence w'))"
    using history_wf [OF pstep_other.hyps(2)] pstep_other.hyps(3) pstep_other.prems by (simp add: preemptive_inv_def)
  moreover have "reserved_in n (pstate (pw_persistence w')) = reserved_in n (pstate (pw_persistence w))" for n
    using pstep_other.hyps(1) by (intro reserved_in_same) (simp add: preemptive_view_def)
  ultimately show ?case using pstep_other.hyps(1) pstep_other.prems
    by (simp add: preemptive_inv_def preemptive_capacity_ok_def preemption_results_ok_def preemptive_view_def)
qed

section \<open>When recovery succeeds\<close>

definition releases_named :: "'v state \<Rightarrow> bool" where
  "releases_named s \<longleftrightarrow> (\<forall>k i. map_of (st_preemptive_resource_release_intents s) k = Some i \<longrightarrow>
     (\<exists>r. map_of (st_preemptive_resource_reservations s) (px_reservation_id i) = Some r \<and>
        pv_resource_name r = px_resource_name i))"

lemma validate_parts:
  assumes inv: "preemptive_inv (pstate p)"
  shows "validate_preemptive_capacities (dict_of pd_name (preemptive_resource_definitions p))
      (preemptive_resource_reservations p) = Inr ()"
    and "validate_request_overlap (preemptive_resource_demands p) (preemptive_resource_reservations p) = Inr ()"
    and "validate_preemption_results (dict_of pd_name (preemptive_resource_definitions p)) p = Inr ()"
    and "validate_preemptive_references (dict_of pd_name (preemptive_resource_definitions p))
        (preemptive_resource_reservations p) (preemptive_resource_demands p) (preemptive_resource_release_intents p) =
      each_ok (validate_release_reference (preemptive_resource_reservations p)) (preemptive_resource_release_intents p)"
proof -
  let ?s = "pstate p"
  from inv have wf: "state_wf ?s" by (simp add: preemptive_inv_def)
  note keys = preemptive_keys [OF wf] and refs = preemptive_refs [OF wf]
  have view: "mset (preemptive_resource_definitions p) = mset (dvalues (st_preemptive_resource_definitions ?s))"
    by (simp add: preemptive_resource_definitions_def)
  note ds = dict_of_view [OF keys(1) view] set_dict_of_view [OF keys(1) view]
  have reservations: "map_of (st_preemptive_resource_reservations ?s) (pv_reservation_id r) = Some r"
    if "r \<in> set (preemptive_resource_reservations p)" for r
    using that keyed_mem_iff [OF keys(3)] by (simp add: preemptive_resource_reservations_def)
  have demands: "map_of (st_preemptive_resource_demands ?s) (pq_request_id d) = Some d"
    if "d \<in> set (preemptive_resource_demands p)" for d
    using that keyed_mem_iff [OF keys(2)] by (simp add: preemptive_resource_demands_def)
  have results: "map_of (st_resource_preemption_results ?s) (pr_result_id r) = Some r"
    if "r \<in> set (resource_preemption_results p)" for r
    using that keyed_mem_iff [OF keys(5)] by (simp add: resource_preemption_results_def)
  show "validate_preemptive_capacities (dict_of pd_name (preemptive_resource_definitions p))
      (preemptive_resource_reservations p) = Inr ()"
    using inv
    by (auto simp: validate_preemptive_capacities_def each_ok_iff ds(2) active_count preemptive_inv_def
        preemptive_capacity_ok_def not_less)
  have "pq_request_id d \<noteq> pv_request_id r"
    if "d \<in> set (preemptive_resource_demands p)" "r \<in> set (preemptive_resource_reservations p)" for d r
    using refs(3) [OF reservations [OF that(2)]] demands [OF that(1)] by auto
  then show "validate_request_overlap (preemptive_resource_demands p) (preemptive_resource_reservations p) = Inr ()"
    by (auto simp: validate_request_overlap_def Let_def filter_empty_conv)
  have "map_of (st_preemptive_resource_definitions ?s) (pr_resource_name r) \<noteq> None"
    if "r \<in> set (resource_preemption_results p)" for r
    using results [OF that] inv unfolding preemptive_inv_def preemption_results_ok_def by blast
  then show "validate_preemption_results (dict_of pd_name (preemptive_resource_definitions p)) p = Inr ()"
    by (simp add: validate_preemption_results_def each_ok_iff dhas_iff_lookup ds)
  have "each_ok (\<lambda>r. guards [(\<not> dhas (dict_of pd_name (preemptive_resource_definitions p)) (pv_resource_name r),
      RuntimeError (''preemptive reservation references unknown definition: '' @ pv_reservation_id r))] ())
      (preemptive_resource_reservations p) = Inr ()"
    using refs(2) [OF reservations] by (simp add: each_ok_iff dhas_iff_lookup ds)
  moreover have "each_ok (\<lambda>d. guards [(\<not> dhas (dict_of pd_name (preemptive_resource_definitions p)) (pq_resource_name d),
      RuntimeError (''preemptive demand references unknown definition: '' @ pq_request_id d))] ())
      (preemptive_resource_demands p) = Inr ()"
    using refs(1) [OF demands] by (simp add: each_ok_iff dhas_iff_lookup ds)
  ultimately show "validate_preemptive_references (dict_of pd_name (preemptive_resource_definitions p))
        (preemptive_resource_reservations p) (preemptive_resource_demands p) (preemptive_resource_release_intents p) =
      each_ok (validate_release_reference (preemptive_resource_reservations p)) (preemptive_resource_release_intents p)"
    by (simp add: validate_preemptive_references_def)
qed

lemma release_references_ok:
  assumes wf: "state_wf (pstate p)"
  shows "each_ok (validate_release_reference (preemptive_resource_reservations p)) (preemptive_resource_release_intents p)
      = Inr () \<longleftrightarrow> releases_named (pstate p)"
proof -
  let ?s = "pstate p"
  have mem: "i \<in> set (preemptive_resource_release_intents p) \<longleftrightarrow>
      map_of (st_preemptive_resource_release_intents ?s) (px_intent_id i) = Some i" for i
    using keyed_mem_iff [OF preemptive_keys(4) [OF wf]] by (simp add: preemptive_resource_release_intents_def)
  have ok: "validate_release_reference (preemptive_resource_reservations p) i = Inr () \<longleftrightarrow>
      (\<exists>r. map_of (st_preemptive_resource_reservations ?s) (px_reservation_id i) = Some r \<and>
        pv_resource_name r = px_resource_name i)" for i
    using preemptive_finds(2) [OF wf] by (auto simp: validate_release_reference_def split: option.splits)
  have key: "px_intent_id i = k" if "map_of (st_preemptive_resource_release_intents ?s) k = Some i" for k i
    using that preemptive_keys(4) [OF wf] by (auto dest: keyed_lookup)
  have "i \<in> set (preemptive_resource_release_intents p)"
    if "map_of (st_preemptive_resource_release_intents ?s) k = Some i" for k i
    unfolding mem using that key [OF that] by simp
  then show ?thesis unfolding each_ok_iff ok releases_named_def using mem by blast
qed

lemma validate_preemptive_iff:
  assumes "preemptive_inv (pstate p)"
  shows "validate_preemptive_rebuild p = Inr () \<longleftrightarrow> releases_named (pstate p)"
proof -
  from assms have wf: "state_wf (pstate p)" by (simp add: preemptive_inv_def)
  show ?thesis
    using validate_parts [OF assms] release_references_ok [OF wf]
    by (auto simp: validate_preemptive_rebuild_def Let_def bind_res_eq_Inr_iff)
qed

definition new_preemptive_world :: "'b \<Rightarrow> ('v, 'b, 'cb) preemptive_world" where
  "new_preemptive_world b = \<lparr>pw_persistence = new_persistence, pw_backend = b, pw_backend_leases = [],
     pw_pending_grants = [], pw_pending_preemptions = [], pw_pending_callbacks = [], pw_called = []\<rparr>"

interpretation preemptive: recoverable "new_preemptive_world b" "preemptive_step uuid5 B" world_inv
  "\<lambda>w. validate_preemptive_capacities (dict_of pd_name (preemptive_resource_definitions (pw_persistence w)))
     (preemptive_resource_reservations (pw_persistence w))"
  for b :: 'b and uuid5 and B :: "'b preemptive_backend"
proof unfold_locales
  show "world_inv (new_preemptive_world b)"
    by (simp add: new_preemptive_world_def new_persistence_def preemptive_inv_def preemptive_capacity_ok_def
        preemption_results_ok_def) (simp add: empty_state_def)
qed (auto intro: preemptive_step_keeps validate_parts(1))

section \<open>The two halves of a preemption\<close>

lemma preemption_body_commits:
  assumes "map_of (st_preemptive_resource_demands s) (pq_request_id demand) = Some demand"
    and "map_of (st_preemptive_resource_reservations s) (pv_reservation_id displaced) = Some displaced"
    and "preemption_body demand displaced successor result (new_uow s) = Inr (a, u)"
  shows a
  using assms by (auto simp: preemption_body_def get_preemptive_resource_demand_def
      get_preemptive_resource_reservation_def new_uow_def)

lemma try_commit_pair_not_False:
  assumes "preemption_pair q w = Some (lease, event, demand, displaced)" and wf: "state_wf (pstate (pw_persistence w))"
  shows "fst (try_commit_preemption uuid5 q w) \<noteq> Inr False"
proof (cases "build_preemption_outcome uuid5 demand displaced (ev_preempted_at event) (ls_acquired_at lease)")
  case (Inr out)
  obtain successor result where out: "out = (successor, result)" by (cases out)
  note pair = preemption_pairD [OF assms]
  note displaced = reservation_for_request_Some [OF pair(4) wf]
  have dq: "pq_request_id demand = q" using preemptive_keys(2) [OF wf] pair(3) by (auto dest: keyed_lookup)
  obtain r p' where tx: "transaction None (preemption_body demand displaced successor result) (pw_persistence w) = (r, p')"
    by fastforce
  have "r \<noteq> Inr False"
    using tx
  proof (cases rule: transaction_cases)
    case (2 a u)
    then show ?thesis using preemption_body_commits [OF _ displaced(1) 2(2)] pair(3) dq by auto
  qed simp
  then show ?thesis
    using tx assms(1) Inr out
    by (auto simp: try_commit_preemption_def bind_m_def on_preemptive_state_def preemption_committed_def
        notify_acquired_def return_m_def split: sum.splits bool.splits)
qed (use assms(1) in \<open>auto simp: try_commit_preemption_def\<close>)

lemma acquired_waits:
  assumes wf: "state_wf (pstate (pw_persistence w))"
    and demand: "map_of (st_preemptive_resource_demands (pstate (pw_persistence w))) q = Some demand"
    and "dget (pw_pending_preemptions w) q = None"
    and full: "map_of (st_preemptive_resource_definitions (pstate (pw_persistence w))) (pq_resource_name demand) = Some d"
      "pd_capacity d \<le> int (length (reserved_in (pq_resource_name demand) (pstate (pw_persistence w))))"
    and free: "reservation_for_request q (pw_persistence w) = None"
  shows "record_acquired uuid5 q lease w = (Inr (), w\<lparr>pw_pending_grants := dset q lease (pw_pending_grants w)\<rparr>)"
  using assms preemptive_finds [OF wf]
  by (auto simp: record_acquired_def try_commit_preemption_def preemption_pair_def bind_m_def return_m_def
      try_commit_normal_grant_def preemptive_definition_of_def Let_def active_count)

lemma preempted_waits:
  assumes "ev_preempted_by event = Some q" and "q \<noteq> []" and "dget (pw_pending_grants w) q = None"
    and "reservation_for_request (ev_request_id event) (pw_persistence w) = Some displaced"
    and "pv_resource_name displaced = ev_resource_name event"
  shows "record_preempted uuid5 event w =
    (Inr (), w\<lparr>pw_pending_preemptions := dset q event (pw_pending_preemptions w)\<rparr>)"
  using assms by (auto simp: record_preempted_def try_commit_preemption_def preemption_pair_def bind_m_def return_m_def)

lemma preemption_body_displaces:
  assumes "preemption_body demand displaced successor result (new_uow s) = Inr (True, u)"
    and "pr_displaced_reservation_id result = pv_reservation_id displaced"
  shows "map_of (st_preemptive_resource_reservations (working u)) (pv_reservation_id displaced) = None"
    and "st_preemptive_resource_release_intents (working u) = st_preemptive_resource_release_intents s"
  using assms
  by (auto simp: preemption_body_def delete_preemptive_resource_demand_def delete_preemptive_resource_reservation_def
      save_preemptive_resource_reservation_def save_resource_preemption_result_def mark_dirty_def new_uow_def
      dhas_iff_lookup split: if_splits)

lemma try_commit_True:
  assumes "try_commit_preemption uuid5 q w = (Inr True, w')"
    and "preemption_pair q w = Some (lease, event, demand, displaced)"
  shows "map_of (st_preemptive_resource_reservations (pstate (pw_persistence w'))) (pv_reservation_id displaced) = None"
    and "st_preemptive_resource_release_intents (pstate (pw_persistence w')) =
      st_preemptive_resource_release_intents (pstate (pw_persistence w))"
proof -
  from assms obtain successor result where
    out: "build_preemption_outcome uuid5 demand displaced (ev_preempted_at event) (ls_acquired_at lease) = Inr (successor, result)"
    and run: "bind_m (on_preemptive_state (transaction None (preemption_body demand displaced successor result)))
      (\<lambda>committed. if committed then preemption_committed q displaced successor lease else return_m False) w = (Inr True, w')"
    by (auto simp: try_commit_preemption_def split: if_splits sum.splits)
  obtain r p' where tx: "transaction None (preemption_body demand displaced successor result) (pw_persistence w) = (r, p')"
    by fastforce
  with run have "r = Inr True" and w': "pw_persistence w' = p'"
    by (auto simp: bind_m_def on_preemptive_state_def return_m_def preemption_committed_def notify_acquired_def
        split: sum.splits if_splits option.splits)
  have res: "pr_displaced_reservation_id result = pv_reservation_id displaced"
    using out by (auto simp: build_preemption_outcome_def mk_resource_preemption_result_def)
  from tx \<open>r = Inr True\<close> obtain u where
    u: "preemption_body demand displaced successor result (new_uow (pstate (pw_persistence w))) = Inr (True, u)"
    and p': "pstate p' = working u"
    by (cases rule: transaction_cases) simp_all
  show "map_of (st_preemptive_resource_reservations (pstate (pw_persistence w'))) (pv_reservation_id displaced) = None"
    "st_preemptive_resource_release_intents (pstate (pw_persistence w')) =
      st_preemptive_resource_release_intents (pstate (pw_persistence w))"
    using preemption_body_displaces [OF u res] unfolding w' p' by simp_all
qed

section \<open>A sample press\<close>

definition uuid_u :: digest where
  "uuid_u ns name = CHR ''u'' # name"

definition press_state :: "(string \<times> preemptive_resource_demand) list \<Rightarrow> (string \<times> preemptive_resource_reservation) list
     \<Rightarrow> (string \<times> preemptive_resource_release_intent) list \<Rightarrow> (string \<times> resource_preemption_result) list \<Rightarrow> nat persistence" where
  "press_state ds rs is xs = new_persistence\<lparr>pstate := empty_state\<lparr>
     st_preemptive_resource_definitions := [(''press'', \<lparr>pd_name = ''press'', pd_capacity = 1\<rparr>)],
     st_preemptive_resource_demands := ds, st_preemptive_resource_reservations := rs,
     st_preemptive_resource_release_intents := is, st_resource_preemption_results := xs\<rparr>\<rparr>"

definition press_demand :: preemptive_resource_demand where
  "press_demand = PreemptiveResourceDemand 0 2 ''b'' ''press'' True 3"

definition press_reservation :: preemptive_resource_reservation where
  "press_reservation = \<lparr>pv_reservation_id = ''r'', pv_request_id = ''a'', pv_resource_name = ''press'',
     pv_acquired_at = 0, pv_priority = 9, pv_sequence = 1\<rparr>"

definition press_lease :: "string \<Rightarrow> resource_lease" where
  "press_lease q = \<lparr>ls_lease_id = q, ls_request_id = q, ls_resource_name = ''press'', ls_acquired_at = 5\<rparr>"

definition press_event :: resource_preemption where
  "press_event = \<lparr>ev_lease_id = ''a'', ev_request_id = ''a'', ev_resource_name = ''press'', ev_preempted_at = 5,
     ev_preempted_by = Some ''b''\<rparr>"

text \<open>A backend whose leases are gone, as after a preemption it has not reported yet.\<close>

definition press_backend :: "unit preemptive_backend" where
  "press_backend = \<lparr>pb_now = None, pb_create_preemptive_resource = (\<lambda>n c. return_m ()),
     pb_request_preemptive_resource = (\<lambda>n q prio pre. return_m ()),
     pb_cancel_preemptive_resource_request = (\<lambda>q. return_m False),
     pb_release_preemptive_resource = (\<lambda>l. raise_m (KeyError (''unknown preemptive resource lease: '' @ ls_lease_id l))),
     pb_run_until = None\<rparr>"

definition press_world :: "nat persistence \<Rightarrow> (nat, unit, nat) preemptive_world" where
  "press_world p = (new_preemptive_world ())\<lparr>pw_persistence := p, pw_backend_leases := [(''r'', press_lease ''a'')]\<rparr>"

lemmas press_defs = press_state_def press_demand_def press_reservation_def press_lease_def press_event_def
  press_backend_def press_world_def new_preemptive_world_def new_persistence_def empty_state_def

lemma mint_u: "mint_id uuid_u k ps \<noteq> []" "mint_id uuid_u k ps \<noteq> ''r''" "''r'' \<noteq> mint_id uuid_u k ps"
  by (simp_all add: mint_id_def uuid_u_def)

lemma press_wf:
  "preemptive_inv (pstate (press_state [(''b'', press_demand)] [(''r'', press_reservation)] [] []))"
  "preemptive_inv (pstate (press_state [(''b'', press_demand)] [(''r'', press_reservation)] [(px_intent_id i, i)] []))"
  by (simp_all add: press_defs preemptive_inv_def state_wf_def ids_wf_def resources_wf_def stores_wf_def containers_wf_def
      preemptive_wf_def bindings_wf_def keyed_def preemptive_capacity_ok_def preemption_results_ok_def reserved_in_def)

lemmas press_eval = transaction_def fork_state_def new_uow_def commit_def overlap_def mark_dirty_def guards.simps
  preemptive_resource_definitions_def preemptive_resource_demands_def preemptive_resource_reservations_def
  preemptive_resource_release_intents_def resource_preemption_results_def by_key_def
  bind_m_def return_m_def raise_m_def on_preemptive_state_def on_preemptive_backend_def
  demand_for_request_def reservation_for_request_def mint_u

definition press_intent :: preemptive_resource_release_intent where
  "press_intent = preemptive_release_intent_of uuid_u press_reservation 0"

lemma press_release_fails:
  "release_preemptive uuid_u press_backend ''r'' (press_world (press_state [(''b'', press_demand)] [(''r'', press_reservation)] [] [])) =
    (Inl (KeyError (''unknown preemptive resource lease: a'')),
     press_world (press_state [(''b'', press_demand)] [(''r'', press_reservation)] [(px_intent_id press_intent, press_intent)] []))"
  by (simp add: press_eval press_defs release_preemptive_def preemptive_release_intent_of_def Let_def
      begin_preemptive_release_body_def get_preemptive_resource_reservation_def save_preemptive_resource_release_intent_def
      press_intent_def)

lemma press_pending:
  "record_preempted uuid_u press_event (press_world (press_state [(''b'', press_demand)] [(''r'', press_reservation)] is [])) =
     (Inr (), (press_world (press_state [(''b'', press_demand)] [(''r'', press_reservation)] is []))\<lparr>
       pw_pending_preemptions := [(''b'', press_event)]\<rparr>)"
  by (simp add: press_eval press_defs record_preempted_def try_commit_preemption_def preemption_pair_def)

section \<open>Properties\<close>

text \<open>
  C11. Durable capacity is never exceeded: in every reachable world, whatever the backend reports and in
  whatever order, the number of reservations of a preemptive resource is at most its capacity.
\<close>

theorem preemptive_capacity_never_exceeded:
  assumes "(preemptive_step uuid5 B)\<^sup>*\<^sup>* (new_preemptive_world b) w"
    and "map_of (st_preemptive_resource_definitions (pstate (pw_persistence w))) n = Some d"
  shows "int (length (reserved_in n (pstate (pw_persistence w)))) \<le> pd_capacity d"
  using preemptive.reachable_inv [OF assms(1)] assms(2) by (simp add: preemptive_inv_def preemptive_capacity_ok_def)

lemma press_define:
  "define_preemptive \<lparr>pd_name = ''press'', pd_capacity = 1\<rparr> new_persistence = (Inr (), press_state [] [] [] [])"
  by (simp add: press_eval press_defs define_preemptive_def define_preemptive_body_def save_preemptive_resource_definition_def)

theorem preemptive_capacity_never_exceeded_witness:
  "\<exists>w :: (nat, unit, nat) preemptive_world. (preemptive_step uuid_u press_backend)\<^sup>*\<^sup>* (new_preemptive_world ()) w \<and>
     pw_persistence w = press_state [] [] [] [] \<and> int (length (reserved_in ''press'' (pstate (pw_persistence w)))) \<le> 1"
proof -
  let ?w = "(new_preemptive_world () :: (nat, unit, nat) preemptive_world)\<lparr>pw_persistence := press_state [] [] [] []\<rparr>"
  have "preemptive_step uuid_u press_backend (new_preemptive_world ()) ?w"
    by (rule pstep_define [where d = "\<lparr>pd_name = ''press'', pd_capacity = 1\<rparr>" and r = "Inr ()"])
      (simp_all add: mk_preemptive_resource_definition_def press_define new_preemptive_world_def)
  then have run: "(preemptive_step uuid_u press_backend)\<^sup>*\<^sup>* (new_preemptive_world ()) ?w" by blast
  have "map_of (st_preemptive_resource_definitions (pstate (pw_persistence ?w))) ''press'' =
      Some \<lparr>pd_name = ''press'', pd_capacity = 1\<rparr>" by (simp add: press_state_def)
  from preemptive_capacity_never_exceeded [OF run this] run show ?thesis by (intro exI [of _ ?w]) simp
qed

text \<open>
  C33. A preemption does not depend on the order of its halves: while the resource is full, telling the
  manager first that the preempting request was granted and then that the reservation was displaced
  has the same result, durable state, in-memory maps and notifications as the other order.
\<close>

theorem preemption_handshake_order_free:
  assumes inv: "preemptive_inv (pstate (pw_persistence w))"
    and demand: "map_of (st_preemptive_resource_demands (pstate (pw_persistence w))) q = Some demand" and "q \<noteq> []"
    and event: "ev_preempted_by event = Some q"
      "reservation_for_request (ev_request_id event) (pw_persistence w) = Some displaced"
      "pv_resource_name displaced = ev_resource_name event"
    and idle: "dget (pw_pending_grants w) q = None" "dget (pw_pending_preemptions w) q = None"
    and full: "map_of (st_preemptive_resource_definitions (pstate (pw_persistence w))) (pq_resource_name demand) = Some d"
      "pd_capacity d \<le> int (length (reserved_in (pq_resource_name demand) (pstate (pw_persistence w))))"
  shows "bind_m (record_acquired uuid5 q lease) (\<lambda>_. record_preempted uuid5 event) w =
    bind_m (record_preempted uuid5 event) (\<lambda>_. record_acquired uuid5 q lease) w"
proof -
  from inv have wf: "state_wf (pstate (pw_persistence w))" by (simp add: preemptive_inv_def)
  have free: "reservation_for_request q (pw_persistence w) = None"
    using reservation_for_request_Some [OF _ wf, of q] preemptive_refs(3) [OF wf] demand
    by (cases "reservation_for_request q (pw_persistence w)") fastforce+
  let ?w = "w\<lparr>pw_pending_grants := dset q lease (pw_pending_grants w),
    pw_pending_preemptions := dset q event (pw_pending_preemptions w)\<rparr>"
  have pair: "preemption_pair q ?w = Some (lease, event, demand, displaced)"
    using demand event preemptive_finds(1) [OF wf] by (simp add: preemption_pair_def)
  have not_False: "fst (try_commit_preemption uuid5 q ?w) \<noteq> Inr False"
    by (rule try_commit_pair_not_False [OF pair]) (simp add: wf)
  have "record_preempted uuid5 event (w\<lparr>pw_pending_grants := dset q lease (pw_pending_grants w)\<rparr>) =
      bind_m (try_commit_preemption uuid5 q) (\<lambda>_. return_m ()) ?w"
    using event \<open>q \<noteq> []\<close> by (simp add: record_preempted_def)
  moreover have comm: "w\<lparr>pw_pending_preemptions := dset q event (pw_pending_preemptions w),
      pw_pending_grants := dset q lease (pw_pending_grants w)\<rparr> = ?w" by simp
  have "record_acquired uuid5 q lease (w\<lparr>pw_pending_preemptions := dset q event (pw_pending_preemptions w)\<rparr>) =
      bind_m (try_commit_preemption uuid5 q) (\<lambda>_. return_m ()) ?w"
  proof -
    have "record_acquired uuid5 q lease (w\<lparr>pw_pending_preemptions := dset q event (pw_pending_preemptions w)\<rparr>) =
        bind_m (try_commit_preemption uuid5 q) (\<lambda>committed. if committed then return_m ()
          else bind_m (try_commit_normal_grant uuid5 q) (\<lambda>_. return_m ())) ?w"
      using free demand preemptive_finds(1) [OF wf] by (simp add: record_acquired_def comm)
    also have "\<dots> = bind_m (try_commit_preemption uuid5 q) (\<lambda>_. return_m ()) ?w"
      using not_False by (cases "try_commit_preemption uuid5 q ?w") (auto simp: bind_m_def split: sum.splits)
    finally show ?thesis .
  qed
  moreover note this
  ultimately show ?thesis
    using acquired_waits [OF wf demand idle(2) full free] preempted_waits [OF event(1) \<open>q \<noteq> []\<close> idle(1) event(2,3)]
    by (simp add: bind_m_def)
qed

theorem preemption_handshake_order_free_witness:
  "bind_m (record_acquired uuid_u ''b'' (press_lease ''b'')) (\<lambda>_. record_preempted uuid_u press_event)
      (press_world (press_state [(''b'', press_demand)] [(''r'', press_reservation)] [] [])) =
    bind_m (record_preempted uuid_u press_event) (\<lambda>_. record_acquired uuid_u ''b'' (press_lease ''b''))
      (press_world (press_state [(''b'', press_demand)] [(''r'', press_reservation)] [] []))"
proof -
  have "preemptive_inv (pstate (pw_persistence (press_world (press_state [(''b'', press_demand)] [(''r'', press_reservation)] [] []))))"
    using press_wf(1) by (simp add: press_world_def)
  then show ?thesis
    by (rule preemption_handshake_order_free [where demand = press_demand and displaced = press_reservation
          and d = "\<lparr>pd_name = ''press'', pd_capacity = 1\<rparr>"])
      (simp_all add: press_world_def press_state_def new_preemptive_world_def reservation_for_request_def
        preemptive_resource_reservations_def press_event_def press_reservation_def press_demand_def reserved_in_def)
qed

text \<open>
  Exactly the stranded releases block recovery: in every reachable world the checks made before a backend
  is rebuilt succeed if and only if every release intent still names a live reservation of its
  resource; capacity, references of demands and reservations, pending-and-reserved requests and
  preemption results can never make them fail.
\<close>

theorem preemptive_rebuild_valid_iff:
  assumes "(preemptive_step uuid5 B)\<^sup>*\<^sup>* (new_preemptive_world b) w"
  shows "validate_preemptive_rebuild (pw_persistence w) = Inr () \<longleftrightarrow> releases_named (pstate (pw_persistence w))"
  by (rule validate_preemptive_iff [OF preemptive.reachable_inv [OF assms]])

theorem preemptive_rebuild_valid_iff_witness:
  "validate_preemptive_rebuild (pw_persistence (new_preemptive_world () :: (nat, unit, nat) preemptive_world)) = Inr ()"
proof -
  have "(preemptive_step uuid_u press_backend)\<^sup>*\<^sup>* (new_preemptive_world ())
      (new_preemptive_world () :: (nat, unit, nat) preemptive_world)" by simp
  from preemptive_rebuild_valid_iff [OF this] show ?thesis
    by (simp add: releases_named_def new_preemptive_world_def new_persistence_def empty_state_def)
qed



end
