(* ===== verification/Resource_Pools.thy ===== *)
theory Resource_Pools
  imports Encoding
begin

text \<open>
  \<open>core/resource_identity.py\<close> and \<open>core/resource_reservations.py\<close>: identities of contested
  resources, the capacity check of a pool, and the interval records of the authoritative ledger.
  Type tests that the model's types already guarantee (a timezone-aware instant, an integer that is
  not a bool, a tuple) are not repeated.
\<close>

section \<open>Identifiers\<close>

text \<open>\<open>value != value.strip()\<close>: a white-space code point at either end.\<close>

definition leading_space :: "nat list \<Rightarrow> bool" where
  "leading_space bs = (case bs of
     [] \<Rightarrow> False
   | b # cs \<Rightarrow> ascii_space b \<or> (case cs of
       [] \<Rightarrow> False
     | c # ds \<Rightarrow> space2 b c \<or> (case ds of [] \<Rightarrow> False | d # _ \<Rightarrow> space3 b c d)))"

definition trailing_space :: "nat list \<Rightarrow> bool" where
  "trailing_space bs = (case rev bs of
     [] \<Rightarrow> False
   | d # cs \<Rightarrow> ascii_space d \<or> (case cs of
       [] \<Rightarrow> False
     | c # rest \<Rightarrow> space2 c d \<or> (case rest of [] \<Rightarrow> False | b # _ \<Rightarrow> space3 b c d)))"

definition trimmed :: "string \<Rightarrow> bool" where
  "trimmed s \<longleftrightarrow> \<not> leading_space (map of_char s) \<and> \<not> trailing_space (map of_char s)"

definition identifier_guard :: "string \<Rightarrow> string \<Rightarrow> bool \<times> pyerror" where
  "identifier_guard v field = (blank v \<or> \<not> trimmed v, ValueError (field @ '' must be a nonempty, trimmed string''))"

definition nonempty_guard :: "string \<Rightarrow> string \<Rightarrow> bool \<times> pyerror" where
  "nonempty_guard v name = (blank v \<or> \<not> trimmed v, ValueError (name @ '' must be nonempty and trimmed''))"

section \<open>Addresses and their lock names\<close>

record resource_address =
  ra_resource_type :: string
  ra_pool_id :: string
  ra_scope :: string
  ra_organization_id :: "string option"
  ra_instance_id :: "string option"

definition mk_resource_address :: "resource_address \<Rightarrow> resource_address res" where
  "mk_resource_address a = guards
     [identifier_guard (ra_resource_type a) ''resource_type'', identifier_guard (ra_pool_id a) ''pool_id'',
      (ra_scope a \<notin> {''organization'', ''shared''}, ValueError ''resource scope must be organization or shared''),
      (if ra_scope a = ''organization''
       then (case ra_organization_id a of
           None \<Rightarrow> (True, ValueError ''organization_id must be a nonempty, trimmed string'')
         | Some v \<Rightarrow> identifier_guard v ''organization_id'')
       else (ra_organization_id a \<noteq> None, ValueError ''shared resources cannot have an owning organization'')),
      (case ra_instance_id a of None \<Rightarrow> (False, ValueError []) | Some v \<Rightarrow> identifier_guard v ''instance_id'')] a"

text \<open>\<open>json.dumps(..., ensure_ascii=False)\<close> of a string: quotes, backslashes and controls are escaped.\<close>

definition hex4 :: "nat \<Rightarrow> string" where
  "hex4 n = ''u00'' @ [hex_digit (n div 16), hex_digit (n mod 16)]"

definition json_escape :: "char \<Rightarrow> string" where
  "json_escape c =
     (if c = CHR 0x22 then [CHR 0x5C, CHR 0x22]
      else if c = CHR 0x5C then [CHR 0x5C, CHR 0x5C]
      else if c = CHR 0x0A then [CHR 0x5C, CHR ''n'']
      else if c = CHR 0x0D then [CHR 0x5C, CHR ''r'']
      else if c = CHR 0x09 then [CHR 0x5C, CHR ''t'']
      else if c = CHR 0x0C then [CHR 0x5C, CHR ''f'']
      else if c = CHR 0x08 then [CHR 0x5C, CHR ''b'']
      else if of_char c < (32 :: nat) then CHR 0x5C # hex4 (of_char c)
      else [c])"

definition json_string :: "string \<Rightarrow> string" where
  "json_string s = [CHR 0x22] @ concat (map json_escape s) @ [CHR 0x22]"

definition json_optional :: "string option \<Rightarrow> string" where
  "json_optional v = (case v of None \<Rightarrow> ''null'' | Some s \<Rightarrow> json_string s)"

definition json_list :: "string list \<Rightarrow> string" where
  "json_list vs = ''['' @ (case vs of [] \<Rightarrow> [] | w # ws \<Rightarrow> w @ concat (map (\<lambda>x. '','' @ x) ws)) @ '']''"

definition lock_key :: "resource_address \<Rightarrow> string" where
  "lock_key a = ''sose:resource:v1:'' @ json_list
     [json_string (ra_scope a), json_optional (ra_organization_id a), json_string (ra_resource_type a),
      json_string (ra_pool_id a), json_optional (ra_instance_id a)]"

section \<open>Claims and pools\<close>

record active_resource_claim =
  ac_claim_id :: string
  ac_address :: resource_address
  ac_units :: int

definition mk_active_resource_claim :: "active_resource_claim \<Rightarrow> active_resource_claim res" where
  "mk_active_resource_claim c = guards
     [identifier_guard (ac_claim_id c) ''claim_id'',
      (ac_units c < 1, ValueError ''units must be a positive integer''),
      (ra_instance_id (ac_address c) \<noteq> None \<and> ac_units c \<noteq> 1,
        ValueError ''a named instance is indivisible and exclusive'')] c"

record resource_pool_contract =
  rp_resource_type :: string
  rp_pool_id :: string
  rp_scope :: string
  rp_capacity :: int
  rp_organization_id :: "string option"
  rp_instance_ids :: "string list"

definition pool_address :: "resource_pool_contract \<Rightarrow> string option \<Rightarrow> resource_address res" where
  "pool_address c instance_id =
     bind_res (guards
       [(case instance_id of None \<Rightarrow> False | Some i \<Rightarrow> rp_instance_ids c = [] \<or> i \<notin> set (rp_instance_ids c),
         ValueError ''resource instance is not a member of this pool'')] ()) (\<lambda>_.
     mk_resource_address \<lparr>ra_resource_type = rp_resource_type c, ra_pool_id = rp_pool_id c, ra_scope = rp_scope c,
       ra_organization_id = rp_organization_id c, ra_instance_id = instance_id\<rparr>)"

definition mk_resource_pool_contract :: "resource_pool_contract \<Rightarrow> resource_pool_contract res" where
  "mk_resource_pool_contract c =
     bind_res (pool_address c None) (\<lambda>_.
     bind_res (guards [(rp_capacity c < 1, ValueError ''capacity must be a positive integer'')] ()) (\<lambda>_.
     bind_res (each_ok (\<lambda>i. guards [identifier_guard i ''instance_id''] ()) (rp_instance_ids c)) (\<lambda>_.
     guards
       [(\<not> distinct (rp_instance_ids c), ValueError ''resource instance identities must be unique''),
        (rp_instance_ids c \<noteq> [] \<and> int (length (rp_instance_ids c)) \<noteq> rp_capacity c,
         ValueError ''enumerated instances must equal declared capacity'')] c)))"

text \<open>The loop over the claims, with the claim ids, instances and units seen so far.\<close>

fun claims_loop ::
  "resource_pool_contract \<Rightarrow> resource_address \<Rightarrow> string set \<Rightarrow> string set \<Rightarrow> int \<Rightarrow> active_resource_claim list \<Rightarrow> unit res" where
  "claims_loop c pool seen used units [] = Inr ()"
| "claims_loop c pool seen used units (claim # claims) =
     (let address = ac_address claim in
      if ac_claim_id claim \<in> seen then Inl (ValueError ''duplicate resource claim_id'')
      else if ra_resource_type address \<noteq> ra_resource_type pool \<or> ra_pool_id address \<noteq> ra_pool_id pool \<or>
          ra_scope address \<noteq> ra_scope pool \<or> ra_organization_id address \<noteq> ra_organization_id pool
      then Inl (ValueError ''resource claim is for a different scoped pool'')
      else bind_res
        (if rp_instance_ids c \<noteq> []
         then (case ra_instance_id address of
             None \<Rightarrow> Inl (ValueError ''instance allocation must name a member of the pool'')
           | Some i \<Rightarrow>
               if i \<notin> set (rp_instance_ids c) then Inl (ValueError ''instance allocation must name a member of the pool'')
               else if i \<in> used then Inl (ValueError ''exclusive instance is allocated twice'')
               else Inr (insert i used))
         else if ra_instance_id address \<noteq> None then Inl (ValueError ''fungible capacity cannot claim an instance'')
         else Inr used) (\<lambda>used.
      let units = units + ac_units claim
      in if units > rp_capacity c then Inl (ValueError ''finite resource capacity exceeded'')
         else claims_loop c pool (insert (ac_claim_id claim) seen) used units claims))"

definition validate_active :: "resource_pool_contract \<Rightarrow> active_resource_claim list \<Rightarrow> unit res" where
  "validate_active c claims = bind_res (pool_address c None) (\<lambda>pool. claims_loop c pool {} {} 0 claims)"

section \<open>Intervals of the ledger\<close>

record temporal_reservation =
  tr_reservation_id :: string
  tr_address :: resource_address
  tr_owner_id :: string
  tr_start_at :: datetime
  tr_end_at :: datetime
  tr_units :: int
  tr_priority :: int
  tr_causation_id :: "string option"
  tr_status :: string
  tr_stopped_at :: "datetime option"

definition mk_temporal_reservation :: "temporal_reservation \<Rightarrow> temporal_reservation res" where
  "mk_temporal_reservation r = guards
     [nonempty_guard (tr_reservation_id r) ''reservation_id'', nonempty_guard (tr_owner_id r) ''owner_id'',
      (tr_start_at r \<ge> tr_end_at r, ValueError ''resource interval must have positive duration''),
      (tr_units r < 1, ValueError ''units must be a positive integer''),
      (ra_instance_id (tr_address r) \<noteq> None \<and> tr_units r \<noteq> 1, ValueError ''physical instances are indivisible''),
      (tr_status r \<notin> {''reserved'', ''released'', ''preempted'', ''failed''}, ValueError ''unrecognized reservation status''),
      (case tr_stopped_at r of None \<Rightarrow> False | Some t \<Rightarrow> \<not> (tr_start_at r \<le> t \<and> t \<le> tr_end_at r),
        ValueError ''stopped_at must lie inside the allocated interval''),
      (tr_status r = ''reserved'' \<and> tr_stopped_at r \<noteq> None, ValueError ''active reservation cannot have stopped_at''),
      (tr_status r \<noteq> ''reserved'' \<and> tr_stopped_at r = None, ValueError ''terminal reservation must record stopped_at'')] r"

definition reservation_effective_end :: "temporal_reservation \<Rightarrow> datetime" where
  "reservation_effective_end r = (case tr_stopped_at r of None \<Rightarrow> tr_end_at r | Some t \<Rightarrow> t)"

record temporal_outage =
  to_outage_id :: string
  to_address :: resource_address
  to_start_at :: datetime
  to_end_at :: datetime
  to_recovered_at :: "datetime option"

definition mk_temporal_outage :: "temporal_outage \<Rightarrow> temporal_outage res" where
  "mk_temporal_outage r = guards
     [nonempty_guard (to_outage_id r) ''outage_id'',
      (to_start_at r \<ge> to_end_at r, ValueError ''outage interval must have positive duration''),
      (case to_recovered_at r of None \<Rightarrow> False | Some t \<Rightarrow> \<not> (to_start_at r \<le> t \<and> t \<le> to_end_at r),
        ValueError ''recovered_at must lie inside the outage interval'')] r"

definition outage_effective_end :: "temporal_outage \<Rightarrow> datetime" where
  "outage_effective_end r = (case to_recovered_at r of None \<Rightarrow> to_end_at r | Some t \<Rightarrow> t)"

definition authoritative_effect_reservation_id :: "digest \<Rightarrow> string \<Rightarrow> string option \<Rightarrow> string res" where
  "authoritative_effect_reservation_id uuid5 effect_id scope =
     bind_res (guards [nonempty_guard effect_id ''effect_id''] ()) (\<lambda>_. case scope of
       None \<Rightarrow> Inr effect_id
     | Some sc \<Rightarrow> guards [nonempty_guard sc ''scope'']
         (mint_id uuid5 ''federated-authoritative-resource-effect'' [sc, effect_id]))"

section \<open>Lock names identify addresses\<close>

lemma of_char_eq_nat: "(of_char c :: nat) = of_char d \<longleftrightarrow> c = d"
  by (metis char_of_char)

lemma hex4_inj:
  assumes "hex4 m @ x = hex4 n @ y" and "m < 32" and "n < 32"
  shows "m = n \<and> x = y"
proof -
  from assms(1) have d: "hex_digit (m div 16) = hex_digit (n div 16)" "hex_digit (m mod 16) = hex_digit (n mod 16)" "x = y"
    by (simp_all add: hex4_def)
  have "m div 16 = n div 16" using inj_onD [OF inj_hex_digit d(1)] assms(2,3) by simp
  moreover have "m mod 16 = n mod 16" using inj_onD [OF inj_hex_digit d(2)] by simp
  ultimately show ?thesis using d(3) by (metis div_mult_mod_eq)
qed

definition short_escapes :: "(char \<times> char) list" where
  "short_escapes = [(CHR 0x22, CHR 0x22), (CHR 0x5C, CHR 0x5C), (CHR 0x0A, CHR ''n''), (CHR 0x0D, CHR ''r''),
     (CHR 0x09, CHR ''t''), (CHR 0x0C, CHR ''f''), (CHR 0x08, CHR ''b'')]"

lemma json_escape_cases:
  obtains (plain) "json_escape c = [c]" and "c \<noteq> CHR 0x5C"
  | (short) e where "json_escape c = [CHR 0x5C, e]" and "(c, e) \<in> set short_escapes"
  | (hexadecimal) "json_escape c = CHR 0x5C # hex4 (of_char c)" and "(of_char c :: nat) < 32"
proof (cases "\<exists>e. (c, e) \<in> set short_escapes")
  case True
  then obtain e where e: "(c, e) \<in> set short_escapes" by blast
  then have "json_escape c = [CHR 0x5C, e]" by (auto simp: short_escapes_def json_escape_def)
  with e short show ?thesis by blast
next
  case False
  then have "c \<notin> fst ` set short_escapes" by force
  then have "json_escape c = (if of_char c < (32 :: nat) then CHR 0x5C # hex4 (of_char c) else [c])" "c \<noteq> CHR 0x5C"
    by (simp_all add: short_escapes_def json_escape_def)
  then show ?thesis using plain hexadecimal by (cases "of_char c < (32 :: nat)") auto
qed

lemma short_escapes_inj:
  "(c, e) \<in> set short_escapes \<Longrightarrow> (d, e) \<in> set short_escapes \<Longrightarrow> c = d"
  "(c, e) \<in> set short_escapes \<Longrightarrow> e \<noteq> CHR ''u''"
  by (auto simp: short_escapes_def)

lemma json_escape_cancel:
  assumes "json_escape c @ x = json_escape d @ y"
  shows "c = d \<and> x = y"
proof (cases c rule: json_escape_cases)
  case plain
  with assms show ?thesis by (cases d rule: json_escape_cases) auto
next
  case (short e)
  with assms short_escapes_inj show ?thesis by (cases d rule: json_escape_cases) (auto simp: hex4_def)
next
  case hexadecimal
  show ?thesis
  proof (cases d rule: json_escape_cases)
    case (short e)
    with assms hexadecimal short_escapes_inj(2) show ?thesis by (auto simp: hex4_def)
  next
    case h: hexadecimal
    with assms hexadecimal(1) have "hex4 (of_char c) @ x = hex4 (of_char d) @ y" by simp
    from hex4_inj [OF this hexadecimal(2) h(2)] show ?thesis by (simp add: of_char_eq_nat)
  qed (use assms hexadecimal in auto)
qed

lemma json_escape_head: "json_escape c @ x \<noteq> CHR 0x22 # y"
  by (auto simp: json_escape_def)

lemma json_chars_cancel:
  "concat (map json_escape s) @ CHR 0x22 # x = concat (map json_escape t) @ CHR 0x22 # y \<Longrightarrow> s = t \<and> x = y"
proof (induction s arbitrary: t)
  case Nil
  then show ?case using json_escape_head by (cases t) (auto, metis)
next
  case (Cons c s)
  show ?case
  proof (cases t)
    case Nil
    with Cons.prems json_escape_head [of c] show ?thesis by auto
  next
    case (Cons d t')
    with Cons.prems have "json_escape c @ concat (map json_escape s) @ CHR 0x22 # x =
        json_escape d @ concat (map json_escape t') @ CHR 0x22 # y" by simp
    from json_escape_cancel [OF this] Cons.IH [of t'] \<open>t = d # t'\<close> show ?thesis by simp
  qed
qed

lemma json_string_cancel: "json_string s @ x = json_string t @ y \<Longrightarrow> s = t \<and> x = y"
  using json_chars_cancel [of s x t y] by (simp add: json_string_def)

lemma json_optional_cancel: "json_optional s @ x = json_optional t @ y \<Longrightarrow> s = t \<and> x = y"
  using json_string_cancel [of "the s" x "the t" y]
  by (cases s; cases t) (simp_all add: json_optional_def, simp_all add: json_string_def)

lemma lock_key_inj:
  assumes "lock_key a = lock_key b"
  shows "a = b"
proof -
  have "json_string (ra_scope a) @ CHR '','' # json_optional (ra_organization_id a) @ CHR '','' #
      json_string (ra_resource_type a) @ CHR '','' # json_string (ra_pool_id a) @ CHR '','' #
      json_optional (ra_instance_id a) @ '']'' =
    json_string (ra_scope b) @ CHR '','' # json_optional (ra_organization_id b) @ CHR '','' #
      json_string (ra_resource_type b) @ CHR '','' # json_string (ra_pool_id b) @ CHR '','' #
      json_optional (ra_instance_id b) @ '']''"
    using assms by (simp add: lock_key_def json_list_def)
  from json_string_cancel [OF this] have scope: "ra_scope a = ra_scope b" and
    t1: "json_optional (ra_organization_id a) @ CHR '','' # json_string (ra_resource_type a) @ CHR '','' #
        json_string (ra_pool_id a) @ CHR '','' # json_optional (ra_instance_id a) @ '']'' =
      json_optional (ra_organization_id b) @ CHR '','' # json_string (ra_resource_type b) @ CHR '','' #
        json_string (ra_pool_id b) @ CHR '','' # json_optional (ra_instance_id b) @ '']''" by auto
  from json_optional_cancel [OF t1] have org: "ra_organization_id a = ra_organization_id b" and
    t2: "json_string (ra_resource_type a) @ CHR '','' # json_string (ra_pool_id a) @ CHR '','' #
        json_optional (ra_instance_id a) @ '']'' =
      json_string (ra_resource_type b) @ CHR '','' # json_string (ra_pool_id b) @ CHR '','' #
        json_optional (ra_instance_id b) @ '']''" by auto
  from json_string_cancel [OF t2] have type: "ra_resource_type a = ra_resource_type b" and
    t3: "json_string (ra_pool_id a) @ CHR '','' # json_optional (ra_instance_id a) @ '']'' =
      json_string (ra_pool_id b) @ CHR '','' # json_optional (ra_instance_id b) @ '']''" by auto
  from json_string_cancel [OF t3] have pool: "ra_pool_id a = ra_pool_id b" and
    t4: "json_optional (ra_instance_id a) @ '']'' = json_optional (ra_instance_id b) @ '']''" by auto
  from scope org type pool json_optional_cancel [OF t4] show ?thesis by simp
qed

section \<open>What the capacity check accepts\<close>

text \<open>The reference: a set of claims that the pool can serve at one instant.\<close>

definition same_pool :: "resource_pool_contract \<Rightarrow> active_resource_claim \<Rightarrow> bool" where
  "same_pool c claim \<longleftrightarrow> ra_resource_type (ac_address claim) = rp_resource_type c \<and>
     ra_pool_id (ac_address claim) = rp_pool_id c \<and> ra_scope (ac_address claim) = rp_scope c \<and>
     ra_organization_id (ac_address claim) = rp_organization_id c"

definition fits_pool :: "resource_pool_contract \<Rightarrow> active_resource_claim list \<Rightarrow> bool" where
  "fits_pool c claims \<longleftrightarrow>
     distinct (map ac_claim_id claims) \<and> (\<forall>claim \<in> set claims. same_pool c claim) \<and>
     (if rp_instance_ids c = [] then (\<forall>claim \<in> set claims. ra_instance_id (ac_address claim) = None)
      else (\<forall>claim \<in> set claims. ra_instance_id (ac_address claim) \<in> Some ` set (rp_instance_ids c)) \<and>
        distinct (map (\<lambda>claim. ra_instance_id (ac_address claim)) claims)) \<and>
     sum_list (map ac_units claims) \<le> rp_capacity c"

lemma claims_loop_iff:
  assumes "\<forall>claim \<in> set claims. 0 \<le> ac_units claim" and "units \<le> rp_capacity c"
    and "ra_resource_type pool = rp_resource_type c" "ra_pool_id pool = rp_pool_id c" "ra_scope pool = rp_scope c"
      "ra_organization_id pool = rp_organization_id c"
  shows "claims_loop c pool seen used units claims = Inr () \<longleftrightarrow>
    distinct (map ac_claim_id claims) \<and> seen \<inter> ac_claim_id ` set claims = {} \<and>
    (\<forall>claim \<in> set claims. same_pool c claim) \<and>
    (if rp_instance_ids c = [] then (\<forall>claim \<in> set claims. ra_instance_id (ac_address claim) = None)
     else (\<forall>claim \<in> set claims. ra_instance_id (ac_address claim) \<in> Some ` set (rp_instance_ids c)) \<and>
       distinct (map (\<lambda>claim. ra_instance_id (ac_address claim)) claims) \<and>
       Some ` used \<inter> (\<lambda>claim. ra_instance_id (ac_address claim)) ` set claims = {}) \<and>
    units + sum_list (map ac_units claims) \<le> rp_capacity c"
  using assms(1,2)
proof (induction claims arbitrary: seen used units)
  case Nil
  then show ?case by simp
next
  case (Cons claim claims)
  have nonneg: "0 \<le> sum_list (map ac_units claims)" using Cons.prems(1) by (intro sum_list_nonneg) auto
  show ?case
  proof (cases "units + ac_units claim \<le> rp_capacity c")
    case False
    then have "claims_loop c pool seen used units (claim # claims) \<noteq> Inr ()"
      by (auto simp: Let_def split: option.splits)
    with False nonneg show ?thesis by auto
  next
    case True
    note IH = Cons.IH [OF _ True] Cons.prems(1)
    show ?thesis
      using Cons.prems(1) IH(1) True assms(3-6)
      by (auto simp: Let_def same_pool_def not_less add.assoc split: option.splits)
  qed
qed

lemma mk_pool_facts:
  assumes "mk_resource_pool_contract c = Inr c"
  shows "\<exists>pool. pool_address c None = Inr pool \<and> ra_resource_type pool = rp_resource_type c \<and>
      ra_pool_id pool = rp_pool_id c \<and> ra_scope pool = rp_scope c \<and> ra_organization_id pool = rp_organization_id c"
    and "1 \<le> rp_capacity c"
proof -
  from assms obtain pool where pool: "pool_address c None = Inr pool" "1 \<le> rp_capacity c"
    by (auto simp: mk_resource_pool_contract_def)
  then have "pool = \<lparr>ra_resource_type = rp_resource_type c, ra_pool_id = rp_pool_id c, ra_scope = rp_scope c,
      ra_organization_id = rp_organization_id c, ra_instance_id = None\<rparr>"
    by (auto simp: pool_address_def mk_resource_address_def)
  with pool show "\<exists>pool. pool_address c None = Inr pool \<and> ra_resource_type pool = rp_resource_type c \<and>
      ra_pool_id pool = rp_pool_id c \<and> ra_scope pool = rp_scope c \<and> ra_organization_id pool = rp_organization_id c"
    "1 \<le> rp_capacity c" by simp_all
qed

lemma claims_loop_errors: "claims_loop c pool seen used units claims = Inl e \<Longrightarrow> \<exists>m. e = ValueError m"
  by (induction c pool seen used units claims rule: claims_loop.induct)
    (auto simp: Let_def split: if_splits option.splits)

lemma distinct_map_perm: "mset xs = mset ys \<Longrightarrow> distinct (map f xs) = distinct (map f ys)"
  by (metis mset_eq_imp_distinct_iff mset_map)

section \<open>Properties\<close>

text \<open>
  C35. Lock names are unambiguous: two addresses have the same advisory lock name only if they agree on
  scope, organization, type, pool and instance, whatever characters the identifiers contain.
\<close>

theorem lock_key_identifies: "lock_key a = lock_key b \<longleftrightarrow> a = b"
  using lock_key_inj by blast

text \<open>
  C36. The one-pass capacity check accepts exactly the claims the pool can serve at one instant: distinct
  claim identities, all for this pool, either no instance named (fungible pool) or distinct members
  named (enumerated pool), and no more units in total than the capacity. So the verdict does not
  depend on the order of the claims, and a refusal is always a ValueError.
\<close>

theorem validate_active_iff_fits:
  assumes "mk_resource_pool_contract c = Inr c" and "\<forall>claim \<in> set claims. mk_active_resource_claim claim = Inr claim"
  shows "(validate_active c claims = Inr () \<longleftrightarrow> fits_pool c claims) \<and>
    (mset claims' = mset claims \<longrightarrow> (validate_active c claims' = Inr () \<longleftrightarrow> validate_active c claims = Inr ())) \<and>
    (\<forall>e. validate_active c claims = Inl e \<longrightarrow> (\<exists>m. e = ValueError m))"
proof -
  from mk_pool_facts [OF assms(1)] obtain pool where pool: "pool_address c None = Inr pool"
    "ra_resource_type pool = rp_resource_type c" "ra_pool_id pool = rp_pool_id c" "ra_scope pool = rp_scope c"
    "ra_organization_id pool = rp_organization_id c" and cap: "0 \<le> rp_capacity c" by auto
  have iff: "validate_active c xs = Inr () \<longleftrightarrow> fits_pool c xs" if "set xs = set claims" for xs
  proof -
    have "\<forall>claim \<in> set xs. 0 \<le> ac_units claim"
      using assms(2) that by (fastforce simp: mk_active_resource_claim_def)
    from claims_loop_iff [OF this cap pool(2-5), of "{}" "{}"] show ?thesis
      by (simp add: validate_active_def pool(1) fits_pool_def)
  qed
  have "fits_pool c claims' \<longleftrightarrow> fits_pool c claims" if m: "mset claims' = mset claims"
  proof -
    have "set claims' = set claims" using m by (rule mset_eq_setD)
    moreover have "sum_list (map ac_units claims') = sum_list (map ac_units claims)"
      using m by (metis mset_map sum_mset_sum_list)
    ultimately show ?thesis unfolding fits_pool_def by (simp add: distinct_map_perm [OF m])
  qed
  then have "mset claims' = mset claims \<longrightarrow> (validate_active c claims' = Inr () \<longleftrightarrow> validate_active c claims = Inr ())"
    using iff [of claims] iff [of claims'] mset_eq_setD [of claims' claims] by blast
  moreover have "\<exists>m. e = ValueError m" if "validate_active c claims = Inl e" for e
    using that claims_loop_errors pool(1) by (simp add: validate_active_def)
  ultimately show ?thesis using iff [of claims] by blast
qed

definition crane_pool :: resource_pool_contract where
  "crane_pool = \<lparr>rp_resource_type = ''crane'', rp_pool_id = ''p'', rp_scope = ''shared'', rp_capacity = 2,
     rp_organization_id = None, rp_instance_ids = [''i'', ''j'']\<rparr>"

definition crane_claim :: "string \<Rightarrow> string \<Rightarrow> active_resource_claim" where
  "crane_claim k i = \<lparr>ac_claim_id = k, ac_address = \<lparr>ra_resource_type = ''crane'', ra_pool_id = ''p'',
     ra_scope = ''shared'', ra_organization_id = None, ra_instance_id = Some i\<rparr>, ac_units = 1\<rparr>"

lemmas identifier_eval = identifier_guard_def nonempty_guard_def blank_def trimmed_def leading_space_def
  trailing_space_def ascii_space_def space2_def space3_def

theorem validate_active_iff_fits_witness:
  "validate_active crane_pool [crane_claim ''a'' ''i'', crane_claim ''b'' ''j''] = Inr () \<and>
   validate_active crane_pool [crane_claim ''a'' ''i'', crane_claim ''b'' ''i''] \<noteq> Inr ()"
proof -
  have c: "mk_resource_pool_contract crane_pool = Inr crane_pool"
    by (simp add: crane_pool_def mk_resource_pool_contract_def pool_address_def mk_resource_address_def each_ok_iff
        identifier_eval guards.simps)
  have "mk_active_resource_claim (crane_claim k i) = Inr (crane_claim k i)" if "k \<in> {''a'', ''b''}" for k i
    using that by (auto simp: crane_claim_def mk_active_resource_claim_def identifier_eval)
  then have ok: "\<forall>claim \<in> set [crane_claim ''a'' ''i'', crane_claim ''b'' ''j'']. mk_active_resource_claim claim = Inr claim"
    "\<forall>claim \<in> set [crane_claim ''a'' ''i'', crane_claim ''b'' ''i'']. mk_active_resource_claim claim = Inr claim"
    by simp_all
  have "fits_pool crane_pool [crane_claim ''a'' ''i'', crane_claim ''b'' ''j'']"
    "\<not> fits_pool crane_pool [crane_claim ''a'' ''i'', crane_claim ''b'' ''i'']"
    by (simp_all add: fits_pool_def same_pool_def crane_pool_def crane_claim_def)
  with validate_active_iff_fits [OF c ok(1)] validate_active_iff_fits [OF c ok(2)] show ?thesis by blast
qed


definition crane_reservation :: temporal_reservation where
  "crane_reservation = \<lparr>tr_reservation_id = ''r'', tr_address = ac_address (crane_claim ''a'' ''i''), tr_owner_id = ''w'',
     tr_start_at = 10, tr_end_at = 20, tr_units = 1, tr_priority = 100, tr_causation_id = None,
     tr_status = ''released'', tr_stopped_at = Some 15\<rparr>"

definition crane_outage :: temporal_outage where
  "crane_outage = \<lparr>to_outage_id = ''x'', to_address = ac_address (crane_claim ''a'' ''i''), to_start_at = 1, to_end_at = 5,
     to_recovered_at = None\<rparr>"


end
