(* ===== verification/Spec2Isabelle.thy ===== *)
theory Spec2Isabelle
  imports Job_Recovery Diagnostics Factories Containers Resources Stores Preemption Resource_Pools
begin

text \<open>
  Verification of the deterministic core of SOSE (\<open>src/src/sose\<close>), a simulation engine for organisations.

  \<^bold>\<open>The program.\<close> Domain code describes entities with statecharts. The engine (\<open>core/engine.py\<close>) executes commands on
  them inside transactions of a durable store (\<open>persistence/memory.py\<close>), appends the emitted events to a log, lets scenarios
  (\<open>scenarios/engine.py\<close>) react, and consumes scheduled work (\<open>core/durable.py\<close>) tick by tick (\<open>core/clock.py\<close>). Durable
  managers for resources, preemptive resources, stores and containers (\<open>core/resources.py\<close>, \<open>core/preemption.py\<close>,
  \<open>core/stores.py\<close>, \<open>core/containers.py\<close>) record requests and outcomes in the same store and drive an ephemeral discrete-event
  backend, which they rebuild after a crash. Organisations exchange messages over a boundary
  (\<open>composition/boundary.py\<close>) with leases and receipts; events leave through an outbox (\<open>sinks/outbox.py\<close>), entity versions
  through another one (\<open>domain/outbox.py\<close>). Identities and random draws are hashes of canonical encodings
  (\<open>core/encoding.py\<close>, \<open>core/identity.py\<close>, \<open>core/randomness.py\<close>). A job (\<open>jobs/runner.py\<close>) runs the engine for an external
  recurring trigger, a batch of ticks at a time, with checkpoints from which an interrupted trigger is recovered.

  \<^bold>\<open>The model.\<close> Python classes are records; constructors with checks are functions \<open>mk_...\<close>; a raise is a value of
  \<open>pyerror\<close> in the sum type \<open>'a res\<close>; a method on an object with state is a function of type \<open>('s, 'a) meth\<close> from the state
  to a result and a new state, so that a raise after a mutation keeps the mutation. Python dicts are association lists in
  insertion order, datetimes and timedeltas are integers (microseconds, with the range check of \<open>datetime\<close>), ints are \<open>int\<close>,
  floats are IEEE doubles in \<open>Py_Values\<close>. Nothing needs fuel: loops recurse over lists or have termination proofs
  (\<open>causation_walk\<close>, \<open>cycle_walk\<close>, the encoder and the heap loops). The loop of \<open>Scheduler.due\<close> is a partial function
  whose value is \<open>None\<close> where it does not return; \<open>heap_due_ends_in_order\<close> shows that it always returns.

  \<^item> \<open>Sose_Prelude\<close>: results, methods, dictionaries, keyed views; \<open>Py_Values\<close>: strings, times, doubles.
  \<^item> \<open>Encoding\<close> (\<open>core/encoding.py\<close>, \<open>identity.py\<close>, \<open>randomness.py\<close>): the encoding is free of collisions and independent of
    mapping order; draws lie in the unit interval.
  \<^item> \<open>Runtime_Records\<close>, \<open>Durable_Models\<close>, \<open>Backend_Interface\<close> (\<open>core/runtime.py\<close>, \<open>core/events.py\<close>, \<open>jobs/model.py\<close>,
    \<open>sinks/model.py\<close>, \<open>composition/model.py\<close>, \<open>backends/base.py\<close>): the records.
  \<^item> \<open>Memory_State\<close>, \<open>Memory_Wf\<close>, \<open>Memory_Persistence\<close> (\<open>persistence/memory.py\<close>): the state, every operation of the unit of
    work, transactions and published reads. Transactions are atomic, reachable states are well formed, ledgers are
    written once (locale \<open>write_once\<close>, interpreted for ten collections), the dirty set covers every change.
  \<^item> \<open>Recoverable\<close>: the contract of a durable manager as a locale (an invariant every step keeps and that implies the
    checks before a rebuild), interpreted for containers, stores, schedules, preemptive resources, the engine and the
    boundary.
  \<^item> \<open>Containers\<close>, \<open>Resources\<close>, \<open>Stores\<close>, \<open>Preemption\<close>, \<open>Resource_Pools\<close>: levels and capacities stay within bounds, ledgers
    explain levels, items are conserved, grants and selections happen once, interrupted releases are finished, both
    orders of the preemption handshake agree. The backend is a parameter and may report anything, in any order.
  \<^item> \<open>Durable_Scheduler\<close>, \<open>Heap_Queue\<close>, \<open>Clock_Scheduler\<close> (\<open>core/durable.py\<close>, \<open>core/scheduler.py\<close>, \<open>core/clock.py\<close>): pending
    work is intact and ordered; the array heap refines a priority queue (locale \<open>priority_queue\<close>).
  \<^item> \<open>Scenario_Engine\<close> (\<open>scenarios/\<close>): a signal is decided once, also across snapshot and restore; activations are exclusive.
  \<^item> \<open>Domain_Warehouse\<close> (\<open>domain/\<close>): delivery to the warehouse is invisible to readers (locale \<open>versioned_warehouse\<close>,
    interpreted by the in-memory warehouse).
  \<^item> \<open>Simulation_Engine\<close> (\<open>core/engine.py\<close>, \<open>core/context.py\<close>): a scheduled command runs once, a tick consumes exactly the
    due work, a failed step leaves no trace.
  \<^item> \<open>Boundary_Protocol\<close> (\<open>composition/boundary.py\<close>): a message takes effect once, stale claims are fenced, causes are
    consumed before their successors, a claim takes the earliest eligible delivery.
  \<^item> \<open>Boundary_Observation\<close> (\<open>composition/boundary_observation.py\<close>, \<open>composition/audit.py\<close>): the observer accepts every state
    the writers can reach; the cycle check is exact.
  \<^item> \<open>Sink_Outbox\<close> (\<open>sinks/outbox.py\<close>): a sink receives the log without gap or overlap, however often it fails.
  \<^item> \<open>Job_Runner\<close> (\<open>jobs/runner.py\<close>, \<open>domain/config.py\<close>, \<open>Engine.rebuild_backend\<close>): jobs as processes that may be killed at
    every durable step. \<open>Job_Recovery\<close>: triples for processes, the stages of a tick, and that a trigger advances the
    simulation by exactly the requested ticks however often it is interrupted and recovered; occurrences of a schedule have
    distinct triggers.
  \<^item> \<open>Diagnostics\<close> (\<open>core/diagnostics.py\<close>): on reachable states the report is healthy exactly if no command is missing,
    no release intent dangles and no delivery has failed; the other reference checks never fire.
  \<^item> \<open>Transition_Graph\<close> (\<open>probability/\<close>, \<open>statecharts/topology.py\<close>): a sampled event is enabled, eligible and of positive
    weight, and is the quantile of the draw.
  \<^item> \<open>Factories\<close> (\<open>factories/\<close>, \<open>domain/registry.py\<close>, \<open>statecharts/base.py\<close>, \<open>scenarios/rules.py\<close>, the rest of
    \<open>core/engine.py\<close>): identities of commands do not collide, a probabilistic dispatch executes the decision it reports.
  \<^item> \<open>System_Run\<close> and this theory: which collections each component writes, and the invariants of scheduler, engine,
    boundary and outbox over runs that interleave all their operations.

  \<^bold>\<open>Parameters.\<close> The hash functions (uuid5, blake2b), the discrete-event backend, statecharts, the transition seal,
  scenario callbacks, boundary handlers, the callbacks of a job, sinks and the text of an exception are arguments; what a theorem needs of them is
  a hypothesis of it, shown satisfiable by its witness on a concrete function.

  \<^bold>\<open>What does not hold.\<close> \<open>preemption_strands_release\<close>, \<open>failed_dispatch_leaks_events\<close>, \<open>past_due_work_blocks_ticks\<close>,
  \<open>warehouse_same_tick_conflict\<close>, \<open>racing_plans_overlap\<close>, \<open>audit_refuses_simultaneous\<close>,
  \<open>recovered_start_is_late\<close>, \<open>pause_hides_failure\<close>, \<open>recovered_trigger_stays_failed\<close>,
  \<open>overflowing_weights_pick_last\<close> and \<open>missing_entity_type\<close> state behaviours of the code that
  differ from what its comments or documents promise.

  \<^bold>\<open>Not modelled.\<close> SQL, file and vendor adapters, the SimPy backend, configuration and command line (input and output);
  JSON and HMAC encodings (the persistence codec, message payloads, transition authority) and with them
  \<open>BusinessEffectService\<close> and the second half of the causal audit; the generator behind \<open>random.Random\<close> (its first draw is a
  parameter); calendars, recovery schedules and organisation admission; the example domains and the
  organisational studies, which use the interfaces verified here. Concurrency is the sequential order of transactions,
  which the lock of the in-memory persistence enforces; operations of several transactions are split where another worker
  can intervene.
\<close>

section \<open>The components together\<close>


text \<open>A deployment of the lamp with the sink that refuses its first batch.\<close>

definition lamp_deployment :: "(nat, unit, nat \<times> nat analytical_batch list) deployment" where
  "lamp_deployment = \<lparr>dp_world = new_world lamp_clock [], dp_sink = (0, [])\<rparr>"

text \<open>The lamp is created, its command scheduled and executed by a tick, and the sink flushed.\<close>

lemma lamp_system_run:
  obtains w' r d where "advance_tick lamp_config lamp_world = (Inr (), w')"
    and "flush_sink lamp_digest (\<lambda>_. ''down'') flaky_sink ''s'' tick_job (lamp_deployment\<lparr>dp_world := w'\<rparr>) = (r, d)"
    and "system_run lamp_digest lamp_config (\<lambda>_. ''down'') flaky_sink ''j'' ''s'' lamp_deployment (acknowledged ''j'' r) d"
proof -
  let ?run = "system_run lamp_digest lamp_config (\<lambda>_. ''down'') flaky_sink ''j'' ''s'' lamp_deployment"
    and ?w = "new_world lamp_clock [] :: (nat, unit) sim_world"
  obtain w' where tick: "advance_tick lamp_config lamp_world = (Inr (), w')" using lamp_ticked by blast
  obtain r d where flush: "flush_sink lamp_digest (\<lambda>_. ''down'') flaky_sink ''s'' tick_job (lamp_deployment\<lparr>dp_world := w'\<rparr>) = (r, d)"
    by force
  have start: "?run [] lamp_deployment" by (rule sys_start)
  have "kernel_op lamp_digest lamp_config (dp_world lamp_deployment) (?w\<lparr>wd_persistence := lamp_stored\<rparr>)"
    using kop_entity [of lamp ?w] lamp_saved by (simp add: lamp_deployment_def new_world_def)
  from sys_kernel [OF start this] have "?run [] (lamp_deployment\<lparr>dp_world := ?w\<lparr>wd_persistence := lamp_stored\<rparr>\<rparr>)" .
  moreover have "kernel_op lamp_digest lamp_config (?w\<lparr>wd_persistence := lamp_stored\<rparr>) lamp_world"
    using kop_schedule [of lamp_digest "''me''" None lamp_command 100 "?w\<lparr>wd_persistence := lamp_stored\<rparr>"] lamp_recorded
    by (simp add: lamp_world_def)
  ultimately have "?run [] (lamp_deployment\<lparr>dp_world := lamp_world\<rparr>)" by (fastforce dest: sys_kernel)
  moreover have "kernel_op lamp_digest lamp_config lamp_world w'" using tick by (rule kop_tick)
  ultimately have "?run [] (lamp_deployment\<lparr>dp_world := w'\<rparr>)" by (fastforce dest: sys_kernel)
  from sys_flush [OF this _ flush] have "?run (acknowledged ''j'' r) d" by (simp add: tick_job_def)
  with tick flush show thesis by (rule that)
qed


end
